(* ===== verification/N00n_Prelude.thy ===== *)
theory N00n_Prelude
  imports Main "HOL-Library.Word" "HOL-Library.Char_ord" "HOL-Library.List_Lexorder"
begin

text \<open>
  Shared vocabulary of the development: the result type of fallible Rust code with its
  \<open>?\<close> operator, machine integers at their width with the checked and saturating operations the
  code uses, UTF-8 strings as byte lists with the few \<open>str\<close> methods the code calls, ordered
  association lists for \<open>BTreeMap\<close>, and generic lemmas on lists.
\<close>

named_theorems result_simps \<open>inversion rules of the result monad\<close>
named_theorems int_conv_simps \<open>conversions between u64 values and i64 columns\<close>

section \<open>Results\<close>

text \<open>\<open>Result<T, E>\<close> is \<open>'e + 'a\<close>; \<open>bindR\<close> is the sequencing that the \<open>?\<close> operator gives.\<close>

definition bindR :: "'e + 'a \<Rightarrow> ('a \<Rightarrow> 'e + 'b) \<Rightarrow> 'e + 'b" where
  "bindR m k = (case m of Inl e \<Rightarrow> Inl e | Inr x \<Rightarrow> k x)"

definition ok_or :: "'e \<Rightarrow> 'a option \<Rightarrow> 'e + 'a" where
  "ok_or e o' = (case o' of None \<Rightarrow> Inl e | Some x \<Rightarrow> Inr x)"

definition map_err :: "('e \<Rightarrow> 'f) \<Rightarrow> 'e + 'a \<Rightarrow> 'f + 'a" where
  "map_err f m = (case m of Inl e \<Rightarrow> Inl (f e) | Inr x \<Rightarrow> Inr x)"

text \<open>\<open>Option<Result<T, E>>::transpose\<close> after a \<open>map\<close>.\<close>

definition transposeR :: "('a \<Rightarrow> 'e + 'b) \<Rightarrow> 'a option \<Rightarrow> 'e + 'b option" where
  "transposeR f o' = (case o' of None \<Rightarrow> Inr None | Some x \<Rightarrow> bindR (f x) (\<lambda>y. Inr (Some y)))"

text \<open>\<open>collect::<Result<Vec<_>, _>>()\<close> over a fallible map: the first error wins.\<close>

fun collectR :: "('a \<Rightarrow> 'e + 'b) \<Rightarrow> 'a list \<Rightarrow> 'e + 'b list" where
  "collectR f [] = Inr []"
| "collectR f (x # xs) = bindR (f x) (\<lambda>y. bindR (collectR f xs) (\<lambda>ys. Inr (y # ys)))"

lemma bindR_Inr [simp]: "bindR (Inr x) k = k x"
  by (simp add: bindR_def)

lemma bindR_Inl [simp]: "bindR (Inl e) k = Inl e"
  by (simp add: bindR_def)

lemma bindR_eq_Inr [result_simps]: "bindR m k = Inr y \<longleftrightarrow> (\<exists>x. m = Inr x \<and> k x = Inr y)"
  by (cases m) auto

lemma bindR_eq_Inl [result_simps]:
  "bindR m k = Inl e \<longleftrightarrow> m = Inl e \<or> (\<exists>x. m = Inr x \<and> k x = Inl e)"
  by (cases m) auto

lemma ok_or_eq_Inr [result_simps]: "ok_or e m = Inr x \<longleftrightarrow> m = Some x"
  by (cases m) (auto simp: ok_or_def)

lemma ok_or_eq_Inl [result_simps]: "ok_or e m = Inl f \<longleftrightarrow> m = None \<and> f = e"
  by (cases m) (auto simp: ok_or_def)

lemma ok_or_simps [simp]: "ok_or e None = Inl e" "ok_or e (Some x) = Inr x"
  by (simp_all add: ok_or_def)

lemma map_err_eq_Inr [result_simps]: "map_err f m = Inr x \<longleftrightarrow> m = Inr x"
  by (cases m) (auto simp: map_err_def)

lemma map_err_simps [simp]: "map_err f (Inl e) = Inl (f e)" "map_err f (Inr x) = Inr x"
  by (simp_all add: map_err_def)

lemma transposeR_simps [simp]:
  "transposeR f None = Inr None"
  "transposeR f (Some x) = bindR (f x) (\<lambda>y. Inr (Some y))"
  by (simp_all add: transposeR_def)

lemma transposeR_eq_None [result_simps]: "transposeR f m = Inr None \<longleftrightarrow> m = None"
  by (cases m) (auto simp: result_simps)

lemma transposeR_eq_Some [result_simps]:
  "transposeR f m = Inr (Some y) \<longleftrightarrow> (\<exists>x. m = Some x \<and> f x = Inr y)"
  by (cases m) (auto simp: result_simps)

lemma collectR_length: "collectR f xs = Inr ys \<Longrightarrow> length ys = length xs"
  by (induction xs arbitrary: ys) (auto simp: result_simps)

lemma collectR_set:
  "collectR f xs = Inr ys \<Longrightarrow> set ys = {y. \<exists>x \<in> set xs. f x = Inr y}"
  by (induction xs arbitrary: ys) (auto simp: result_simps)

lemma collectR_total:
  "(\<And>x. x \<in> set xs \<Longrightarrow> \<exists>y. f x = Inr y) \<Longrightarrow> \<exists>ys. collectR f xs = Inr ys"
proof (induction xs)
  case (Cons x xs)
  then obtain ys where "collectR f xs = Inr ys" by (metis list.set_intros(2))
  moreover from Cons.prems obtain y where "f x = Inr y" by (metis list.set_intros(1))
  ultimately show ?case by simp
qed simp

section \<open>Machine integers\<close>

text \<open>
  Rust's \<open>u64\<close> and \<open>u32\<close> are words of that width; an SQLite \<open>INTEGER\<close> column and an \<open>i64\<close> value
  is an \<open>int\<close>, with the range test written out where the code converts.
\<close>

type_synonym u8 = "8 word"
type_synonym u32 = "32 word"
type_synonym u64 = "64 word"
type_synonym i64 = int
type_synonym usize = nat

definition i64_max :: int where
  "i64_max = 2 ^ 63 - 1"

definition i64_min :: int where
  "i64_min = - (2 ^ 63)"

definition checked_add_u64 :: "u64 \<Rightarrow> u64 \<Rightarrow> u64 option" where
  "checked_add_u64 a b = (if uint a + uint b < 2 ^ 64 then Some (a + b) else None)"

definition saturating_add_u64 :: "u64 \<Rightarrow> u64 \<Rightarrow> u64" where
  "saturating_add_u64 a b = (if uint a + uint b < 2 ^ 64 then a + b else - 1)"

definition checked_add_i64 :: "i64 \<Rightarrow> i64 \<Rightarrow> i64 option" where
  "checked_add_i64 a b = (if i64_min \<le> a + b \<and> a + b \<le> i64_max then Some (a + b) else None)"

lemma uint_add_u64_no_wrap: "uint a + uint b < 2 ^ 64 \<Longrightarrow> uint (a + b :: u64) = uint a + uint b"
  by (simp add: uint_word_ariths)

lemma checked_add_u64_Some:
  "checked_add_u64 a b = Some c \<Longrightarrow> uint c = uint a + uint b"
  by (auto simp: checked_add_u64_def uint_add_u64_no_wrap split: if_splits)

lemma saturating_add_u64_bound: "uint a \<le> uint (saturating_add_u64 a b)"
proof (cases "uint a + uint b < 2 ^ 64")
  case True
  then show ?thesis by (simp add: saturating_add_u64_def uint_add_u64_no_wrap)
next
  case False
  have "uint a < 2 ^ 64" using uint_lt2p [of a] by simp
  with False show ?thesis by (simp add: saturating_add_u64_def unsigned_minus_1_eq_mask mask_eq_exp_minus_1)
qed

section \<open>Strings\<close>

text \<open>
  A Rust \<open>String\<close> is the list of its UTF-8 bytes, one \<open>char\<close> each, so \<open>length\<close> is \<open>str::len\<close>.
  \<open>char::is_whitespace\<close> is the Unicode property \<open>White_Space\<close>: six ASCII characters, U+0085 and
  U+00A0 (two bytes), and U+1680, U+2000 to U+200A, U+2028, U+2029, U+202F, U+205F, U+3000 (three
  bytes).
\<close>

type_synonym str = string

definition byte :: "char \<Rightarrow> nat" where
  "byte c = of_char c"

definition ascii_ws :: "char \<Rightarrow> bool" where
  "ascii_ws c \<longleftrightarrow> byte c \<in> {9, 10, 11, 12, 13, 32}"

definition ws2 :: "char \<Rightarrow> char \<Rightarrow> bool" where
  "ws2 a b \<longleftrightarrow> byte a = 194 \<and> byte b \<in> {133, 160}"

definition ws3 :: "char \<Rightarrow> char \<Rightarrow> char \<Rightarrow> bool" where
  "ws3 a b c \<longleftrightarrow>
     byte a = 225 \<and> byte b = 154 \<and> byte c = 128
   \<or> byte a = 226 \<and> byte b = 128
       \<and> (128 \<le> byte c \<and> byte c \<le> 138 \<or> byte c \<in> {168, 169, 175})
   \<or> byte a = 226 \<and> byte b = 129 \<and> byte c = 159
   \<or> byte a = 227 \<and> byte b = 128 \<and> byte c = 128"

text \<open>\<open>s.trim().is_empty()\<close>: every character is white space.\<close>

fun trim_is_empty :: "str \<Rightarrow> bool" where
  "trim_is_empty [] = True"
| "trim_is_empty [a] = ascii_ws a"
| "trim_is_empty [a, b] =
     (if ascii_ws a then trim_is_empty [b] else ws2 a b)"
| "trim_is_empty (a # b # c # s) =
     (if ascii_ws a then trim_is_empty (b # c # s)
      else if ws2 a b then trim_is_empty (c # s)
      else if ws3 a b c then trim_is_empty s
      else False)"

definition starts_with :: "str \<Rightarrow> str \<Rightarrow> bool" where
  "starts_with s p \<longleftrightarrow> take (length p) s = p"

definition strip_prefix :: "str \<Rightarrow> str \<Rightarrow> str option" where
  "strip_prefix s p = (if starts_with s p then Some (drop (length p) s) else None)"

definition strip_suffix :: "str \<Rightarrow> str \<Rightarrow> str option" where
  "strip_suffix s p =
     (if length p \<le> length s \<and> drop (length s - length p) s = p
      then Some (take (length s - length p) s) else None)"

lemma starts_with_append [simp]: "starts_with (p @ s) p"
  by (simp add: starts_with_def)

lemma starts_with_iff: "starts_with s p \<longleftrightarrow> (\<exists>t. s = p @ t)"
  by (metis append_take_drop_id starts_with_append starts_with_def)

lemma strip_prefix_append [simp]: "strip_prefix (p @ s) p = Some s"
  by (simp add: strip_prefix_def)

lemma strip_prefix_Some: "strip_prefix s p = Some t \<longleftrightarrow> s = p @ t"
  by (auto simp: strip_prefix_def starts_with_iff split: if_splits)

lemma strip_suffix_append [simp]: "strip_suffix (s @ p) p = Some s"
  by (simp add: strip_suffix_def)

lemma strip_suffix_Some: "strip_suffix s p = Some t \<longleftrightarrow> s = t @ p"
proof
  assume "strip_suffix s p = Some t"
  then have "take (length s - length p) s = t" "drop (length s - length p) s = p"
    by (auto simp: strip_suffix_def split: if_splits)
  then show "s = t @ p" by (metis append_take_drop_id)
qed simp

text \<open>Decimal printing, as \<open>to_string\<close> on unsigned integers does it.\<close>

fun show_nat :: "nat \<Rightarrow> str" where
  "show_nat n =
     (if n < 10 then [char_of (48 + n)] else show_nat (n div 10) @ [char_of (48 + n mod 10)])"

declare show_nat.simps [simp del]

definition show_u64 :: "u64 \<Rightarrow> str" where
  "show_u64 w = show_nat (unat w)"

lemma show_nat_length: "n < 10 ^ k \<Longrightarrow> 0 < k \<Longrightarrow> length (show_nat n) \<le> k"
proof (induction n arbitrary: k rule: show_nat.induct)
  case (1 n)
  show ?case
  proof (cases "n < 10")
    case True
    with "1.prems" show ?thesis by (subst show_nat.simps) simp
  next
    case False
    then obtain j where k: "k = Suc j" using "1.prems" by (cases k) auto
    with False "1.prems" have "0 < j" "n div 10 < 10 ^ j" by (cases j; auto)+
    then have "length (show_nat (n div 10)) \<le> j" using "1.IH" False by blast
    with False k show ?thesis by (subst show_nat.simps) simp
  qed
qed

lemma show_u64_length: "length (show_u64 w) \<le> 20"
proof -
  have "unat w < 2 ^ 64" using unsigned_less [of w] by simp
  then have "unat w < 10 ^ 20" by simp
  then show ?thesis unfolding show_u64_def by (rule show_nat_length) simp
qed

section \<open>Ordered maps\<close>

text \<open>\<open>BTreeMap<String, String>\<close> as its entries in key order.\<close>

type_synonym btree = "(str \<times> str) list"

fun btree_insert :: "str \<Rightarrow> str \<Rightarrow> btree \<Rightarrow> btree" where
  "btree_insert k v [] = [(k, v)]"
| "btree_insert k v ((k', v') # m) =
     (if k = k' then (k, v) # m
      else if k < k' then (k, v) # (k', v') # m
      else (k', v') # btree_insert k v m)"

definition btree_of :: "(str \<times> str) list \<Rightarrow> btree" where
  "btree_of kvs = foldl (\<lambda>m (k, v). btree_insert k v m) [] kvs"

definition btree_ok :: "btree \<Rightarrow> bool" where
  "btree_ok m \<longleftrightarrow> sorted (map fst m) \<and> distinct (map fst m)"

lemma btree_insert_keys: "set (map fst (btree_insert k v m)) = insert k (set (map fst m))"
  by (induction k v m rule: btree_insert.induct) auto

lemma btree_insert_ok: "btree_ok m \<Longrightarrow> btree_ok (btree_insert k v m)"
proof (induction k v m rule: btree_insert.induct)
  case (2 k v k' v' m)
  then show ?case
    using btree_insert_keys [of k v m]
    by (auto simp: btree_ok_def)
qed (simp add: btree_ok_def)

lemma btree_insert_lookup: "map_of (btree_insert k v m) = (map_of m)(k \<mapsto> v)"
  by (induction k v m rule: btree_insert.induct) (auto simp: fun_eq_iff)

section \<open>Lists\<close>

lemma map_update_same [simp]: "(\<And>x. x \<in> set xs \<Longrightarrow> g (f x) = g x) \<Longrightarrow> map g (map f xs) = map g xs"
  by simp

lemma filter_map_same:
  "(\<And>x. x \<in> set xs \<Longrightarrow> P (f x) = P x) \<Longrightarrow> filter P (map f xs) = map f (filter P xs)"
  by (induction xs) auto

text \<open>A primary key: at most one row with a given key.\<close>

lemma distinct_key_unique:
  "distinct (map k xs) \<Longrightarrow> x \<in> set xs \<Longrightarrow> y \<in> set xs \<Longrightarrow> k x = k y \<Longrightarrow> x = y"
  by (auto simp: distinct_map inj_on_def)

lemma find_key_Some:
  assumes "distinct (map k xs)" and "x \<in> set xs"
  shows "find (\<lambda>y. k y = k x) xs = Some x"
  using assms
proof (induction xs)
  case (Cons a xs)
  then show ?case by (cases "a = x") (auto simp: rev_image_eqI)
qed simp

lemma find_SomeD: "find P xs = Some x \<Longrightarrow> x \<in> set xs \<and> P x"
  by (auto simp: find_Some_iff)

lemma find_NoneD: "find P xs = None \<Longrightarrow> x \<in> set xs \<Longrightarrow> \<not> P x"
  by (auto simp: find_None_iff)

text \<open>\<open>ORDER BY\<close> with a \<open>LIMIT\<close>: a stable sort by a total preorder, then a prefix.\<close>

fun insert_by :: "('a \<Rightarrow> 'a \<Rightarrow> bool) \<Rightarrow> 'a \<Rightarrow> 'a list \<Rightarrow> 'a list" where
  "insert_by le x [] = [x]"
| "insert_by le x (y # ys) = (if le x y then x # y # ys else y # insert_by le x ys)"

definition order_by :: "('a \<Rightarrow> 'a \<Rightarrow> bool) \<Rightarrow> 'a list \<Rightarrow> 'a list" where
  "order_by le xs = foldr (insert_by le) xs []"

lemma order_by_simps [simp]:
  "order_by le [] = []" "order_by le (x # xs) = insert_by le x (order_by le xs)"
  by (simp_all add: order_by_def)

lemma set_insert_by [simp]: "set (insert_by le x ys) = insert x (set ys)"
  by (induction ys) auto

lemma set_order_by [simp]: "set (order_by le xs) = set xs"
  by (induction xs) auto

lemma length_insert_by [simp]: "length (insert_by le x ys) = Suc (length ys)"
  by (induction ys) auto

lemma length_order_by [simp]: "length (order_by le xs) = length xs"
  by (induction xs) auto

lemma distinct_insert_by: "distinct (map k (insert_by le x ys)) = (k x \<notin> k ` set ys \<and> distinct (map k ys))"
  by (induction ys) auto

lemma distinct_order_by: "distinct (map k (order_by le xs)) = distinct (map k xs)"
  by (induction xs) (auto simp: distinct_insert_by)

lemma sorted_insert_by:
  assumes "transp le" and total: "\<And>a b. le a b \<or> le b a"
  shows "sorted_wrt le ys \<Longrightarrow> sorted_wrt le (insert_by le x ys)"
proof (induction ys)
  case (Cons y ys)
  then show ?case
    using total [of x y] \<open>transp le\<close> by (auto dest: transpD)
qed simp

lemma sorted_order_by:
  assumes "transp le" and "\<And>a b. le a b \<or> le b a"
  shows "sorted_wrt le (order_by le xs)"
  using sorted_insert_by [OF assms] by (induction xs) auto

text \<open>ASCII case mapping.\<close>

definition to_ascii_lower :: "char \<Rightarrow> char" where
  "to_ascii_lower c = (if 65 \<le> byte c \<and> byte c \<le> 90 then char_of (byte c + 32) else c)"

definition eq_ignore_ascii_case :: "str \<Rightarrow> str \<Rightarrow> bool" where
  "eq_ignore_ascii_case a b \<longleftrightarrow> map to_ascii_lower a = map to_ascii_lower b"

section \<open>Invariants of transition systems\<close>

text \<open>
  The contract between a component and its clients: the states a component can be in, the steps its
  operations make, and an invariant that holds at the start and that every step keeps. Everything
  reachable then satisfies it. Components interpret this locale on their own operations.
\<close>

locale invariant_system =
  fixes initial :: "'s \<Rightarrow> bool"
    and step :: "'s \<Rightarrow> 's \<Rightarrow> bool"
    and inv :: "'s \<Rightarrow> bool"
  assumes inv_initial: "initial s \<Longrightarrow> inv s"
    and inv_step: "step s t \<Longrightarrow> inv s \<Longrightarrow> inv t"
begin

lemma inv_steps: "step\<^sup>*\<^sup>* s t \<Longrightarrow> inv s \<Longrightarrow> inv t"
  by (induction rule: rtranclp_induct) (auto intro: inv_step)

lemma inv_reachable: "initial s \<Longrightarrow> step\<^sup>*\<^sup>* s t \<Longrightarrow> inv t"
  by (blast intro: inv_initial inv_steps)

end

end
