(* ===== verification/Run_Domain.thy ===== *)
theory Run_Domain
  imports N00n_Prelude
begin

text \<open>
  The domain of background runs (\<open>crates/n00n-runs/src/domain.rs\<close>): identifiers, the run lifecycle
  with its transition table, the records that the store reads and writes, and the validation of
  project keys, events, outcomes and transitions. The serde names of the enums, which the store
  writes into text columns, are here too.
\<close>

section \<open>Identifiers\<close>

text \<open>All five identifier newtypes wrap a 128-bit \<open>Uuid\<close>.\<close>

type_synonym uuid = "128 word"
type_synonym run_chain_id = uuid
type_synonym run_id = uuid
type_synonym run_event_id = uuid
type_synonym delivery_id = uuid
type_synonym host_instance_id = uuid

definition MAX_SUMMARY_BYTES :: usize where
  "MAX_SUMMARY_BYTES = 4096"

definition MAX_PREVIEW_BYTES :: usize where
  "MAX_PREVIEW_BYTES = 16384"

definition MAX_EVENT_DETAIL_ENTRIES :: usize where
  "MAX_EVENT_DETAIL_ENTRIES = 32"

definition MAX_EVENT_DETAIL_BYTES :: usize where
  "MAX_EVENT_DETAIL_BYTES = 8192"

lemmas domain_limits = MAX_SUMMARY_BYTES_def MAX_PREVIEW_BYTES_def
  MAX_EVENT_DETAIL_ENTRIES_def MAX_EVENT_DETAIL_BYTES_def

section \<open>Enumerations\<close>

datatype run_kind = KTask | KTeam | KWorkflow

datatype execution_backend = TuiSession | WorkerProcess

datatype run_lifecycle =
    Queued | Starting | Running | WaitingInput | Blocked | Pausing | Paused | Cancelling
  | Succeeded | Failed | TimedOut | Cancelled | Interrupted | Lost

datatype wait_reason_code =
    UserInput | Permission | Authentication | Dependency | Policy | Declared

datatype outcome_status =
    OSucceeded | OFailed | OTimedOut | OCancelled | OInterrupted | OLost | OUnknown

datatype outbox_state = OutPending | OutDelivered | OutAcknowledged | OutDeadLetter

datatype host_liveness = HostLive | HostGone | HostUnknown

fun is_terminal :: "run_lifecycle \<Rightarrow> bool" where
  "is_terminal Succeeded = True"
| "is_terminal Failed = True"
| "is_terminal TimedOut = True"
| "is_terminal Cancelled = True"
| "is_terminal Interrupted = True"
| "is_terminal Lost = True"
| "is_terminal _ = False"

definition can_transition_to :: "run_lifecycle \<Rightarrow> run_lifecycle \<Rightarrow> bool" where
  "can_transition_to self target =
     (if is_terminal self \<or> self = target then False
      else if target \<in> {Interrupted, Lost} then True
      else (case self of
          Queued \<Rightarrow> target \<in> {Starting, Cancelling, Cancelled, TimedOut}
        | Starting \<Rightarrow> target \<in> {Running, Cancelling, Failed, TimedOut}
        | Running \<Rightarrow> target \<in> {WaitingInput, Blocked, Pausing, Cancelling, Succeeded, Failed, TimedOut}
        | WaitingInput \<Rightarrow> target \<in> {Running, Cancelling}
        | Blocked \<Rightarrow> target \<in> {Running, Cancelling}
        | Paused \<Rightarrow> target \<in> {Running, Cancelling}
        | Pausing \<Rightarrow> target \<in> {Paused, Running, Failed, Cancelling}
        | Cancelling \<Rightarrow> target \<in> {Cancelled, TimedOut, Failed}
        | Succeeded \<Rightarrow> False
        | Failed \<Rightarrow> False
        | TimedOut \<Rightarrow> False
        | Cancelled \<Rightarrow> False
        | Interrupted \<Rightarrow> False
        | Lost \<Rightarrow> False))"

text \<open>\<open>#[serde(rename_all = "snake_case")]\<close>: the text of a variant, and back.\<close>

fun run_kind_text :: "run_kind \<Rightarrow> str" where
  "run_kind_text KTask = ''task''"
| "run_kind_text KTeam = ''team''"
| "run_kind_text KWorkflow = ''workflow''"

fun backend_text :: "execution_backend \<Rightarrow> str" where
  "backend_text TuiSession = ''tui_session''"
| "backend_text WorkerProcess = ''worker_process''"

definition parse_backend :: "str \<Rightarrow> execution_backend option" where
  "parse_backend s = find (\<lambda>b. backend_text b = s) [TuiSession, WorkerProcess]"

fun lifecycle_text :: "run_lifecycle \<Rightarrow> str" where
  "lifecycle_text Queued = ''queued''"
| "lifecycle_text Starting = ''starting''"
| "lifecycle_text Running = ''running''"
| "lifecycle_text WaitingInput = ''waiting_input''"
| "lifecycle_text Blocked = ''blocked''"
| "lifecycle_text Pausing = ''pausing''"
| "lifecycle_text Paused = ''paused''"
| "lifecycle_text Cancelling = ''cancelling''"
| "lifecycle_text Succeeded = ''succeeded''"
| "lifecycle_text Failed = ''failed''"
| "lifecycle_text TimedOut = ''timed_out''"
| "lifecycle_text Cancelled = ''cancelled''"
| "lifecycle_text Interrupted = ''interrupted''"
| "lifecycle_text Lost = ''lost''"

definition all_lifecycles :: "run_lifecycle list" where
  "all_lifecycles = [Queued, Starting, Running, WaitingInput, Blocked, Pausing, Paused, Cancelling,
     Succeeded, Failed, TimedOut, Cancelled, Interrupted, Lost]"

definition parse_lifecycle :: "str \<Rightarrow> run_lifecycle option" where
  "parse_lifecycle s = find (\<lambda>l. lifecycle_text l = s) all_lifecycles"

fun wait_code_text :: "wait_reason_code \<Rightarrow> str" where
  "wait_code_text UserInput = ''user_input''"
| "wait_code_text Permission = ''permission''"
| "wait_code_text Authentication = ''authentication''"
| "wait_code_text Dependency = ''dependency''"
| "wait_code_text Policy = ''policy''"
| "wait_code_text Declared = ''declared''"

definition parse_wait_code :: "str \<Rightarrow> wait_reason_code option" where
  "parse_wait_code s = find (\<lambda>c. wait_code_text c = s)
     [UserInput, Permission, Authentication, Dependency, Policy, Declared]"

fun outbox_state_text :: "outbox_state \<Rightarrow> str" where
  "outbox_state_text OutPending = ''pending''"
| "outbox_state_text OutDelivered = ''delivered''"
| "outbox_state_text OutAcknowledged = ''acknowledged''"
| "outbox_state_text OutDeadLetter = ''dead_letter''"

definition parse_outbox_state :: "str \<Rightarrow> outbox_state option" where
  "parse_outbox_state s = find (\<lambda>c. outbox_state_text c = s)
     [OutPending, OutDelivered, OutAcknowledged, OutDeadLetter]"

section \<open>Records\<close>

record wait_reason =
  wr_code :: wait_reason_code
  wr_summary :: str

record run_capabilities =
  cap_send :: bool
  cap_answer :: bool
  cap_cancel :: bool
  cap_pause :: bool
  cap_resume :: bool
  cap_events :: bool
  cap_logs :: bool

definition default_capabilities :: run_capabilities where
  "default_capabilities = \<lparr>cap_send = False, cap_answer = False, cap_cancel = False,
     cap_pause = False, cap_resume = False, cap_events = False, cap_logs = False\<rparr>"

record run_output =
  ro_kind :: str
  ro_reference :: "str option"
  ro_bounded_preview :: "str option"

record run_failure =
  rf_code :: str
  rf_message :: str
  rf_source :: str
  rf_retryable :: bool

record run_usage =
  ru_input :: u64
  ru_output :: u64
  ru_cache_creation :: u64
  ru_cache_read :: u64

record run_verification =
  rv_status :: str
  rv_summary :: "str option"

text \<open>The cost is an \<open>f64\<close> that the code only stores; it is kept as its bit pattern.\<close>

record run_outcome =
  oc_status :: outcome_status
  oc_summary :: "str option"
  oc_output :: "run_output option"
  oc_error :: "run_failure option"
  oc_stop_reason :: "str option"
  oc_usage :: "run_usage option"
  oc_cost :: "u64 option"
  oc_cleanup_error :: "run_failure option"
  oc_verification :: "run_verification option"

definition outcome_of_status :: "outcome_status \<Rightarrow> run_outcome" where
  "outcome_of_status st = \<lparr>oc_status = st, oc_summary = None, oc_output = None, oc_error = None,
     oc_stop_reason = None, oc_usage = None, oc_cost = None, oc_cleanup_error = None,
     oc_verification = None\<rparr>"

record run_event_payload =
  ep_summary :: "str option"
  ep_details :: btree

definition empty_payload :: run_event_payload where
  "empty_payload = \<lparr>ep_summary = None, ep_details = []\<rparr>"

record run_record =
  rr_run_id :: run_id
  rr_chain_id :: run_chain_id
  rr_predecessor_run_id :: "run_id option"
  rr_backend :: execution_backend
  rr_session_id :: "str option"
  rr_legacy_session_id :: "str option"
  rr_workflow_journal_id :: "str option"
  rr_parent_run_id :: "run_id option"
  rr_parent_session_id :: "str option"
  rr_lifecycle :: run_lifecycle
  rr_wait_reason :: "wait_reason option"
  rr_outcome :: "run_outcome option"
  rr_capabilities :: run_capabilities
  rr_owner_instance_id :: "host_instance_id option"
  rr_owner_epoch :: "u64 option"
  rr_created_at :: i64
  rr_queued_at :: "i64 option"
  rr_started_at :: "i64 option"
  rr_updated_at :: i64
  rr_finished_at :: "i64 option"
  rr_last_progress_at :: "i64 option"
  rr_revision :: u64

record run_event =
  ev_event_id :: run_event_id
  ev_run_id :: run_id
  ev_revision :: u64
  ev_event_type :: str
  ev_payload :: run_event_payload
  ev_created_at :: i64

record parent_outbox_record =
  po_delivery_id :: delivery_id
  po_source_event_id :: run_event_id
  po_child_run_id :: run_id
  po_parent_session_id :: str
  po_payload :: run_event_payload
  po_state :: outbox_state
  po_attempt_count :: u32
  po_next_attempt_at :: "i64 option"
  po_created_at :: i64
  po_delivered_at :: "i64 option"
  po_acknowledged_at :: "i64 option"
  po_dead_letter_reason :: "str option"

record process_identity =
  pi_pid :: u32
  pi_start_marker :: str
  pi_lock_identity :: str

record host_instance =
  hi_instance_id :: host_instance_id
  hi_process_identity :: process_identity
  hi_started_at :: i64
  hi_heartbeat_at :: i64
  hi_shutdown_at :: "i64 option"

record owner_fence =
  of_instance_id :: host_instance_id
  of_epoch :: u64

record new_run_spec =
  ns_chain_id :: run_chain_id
  ns_run_id :: run_id
  ns_kind :: run_kind
  ns_title :: str
  ns_root_session_id :: "str option"
  ns_backend :: execution_backend
  ns_session_id :: "str option"
  ns_workflow_journal_id :: "str option"
  ns_parent_run_id :: "run_id option"
  ns_parent_session_id :: "str option"
  ns_capabilities :: run_capabilities
  ns_owner_instance_id :: "host_instance_id option"

record transition_request =
  tr_run_id :: run_id
  tr_expected_revision :: u64
  tr_owner :: "owner_fence option"
  tr_target :: run_lifecycle
  tr_wait_reason :: "wait_reason option"
  tr_outcome :: "run_outcome option"
  tr_event_type :: str
  tr_event :: run_event_payload
  tr_operation_id :: str
  tr_progress :: bool

record resume_request =
  rq_prior_run_id :: run_id
  rq_expected_revision :: u64
  rq_owner_instance_id :: "host_instance_id option"
  rq_operation_id :: str

record run_wait_result =
  rw_run :: run_record
  rw_observation_timed_out :: bool

record reconcile_policy =
  rp_stale_before :: i64
  rp_max_hosts :: usize

record reconcile_report =
  rc_interrupted :: "run_id list"
  rc_live_owners :: usize
  rc_unverified_owners :: usize

record retention_policy =
  tp_terminal_before :: i64
  tp_finalized_outbox_before :: i64
  tp_shutdown_host_before :: i64
  tp_max_rows :: usize

record retention_report =
  tt_outbox_rows :: usize
  tt_runs :: usize
  tt_chains :: usize
  tt_hosts :: usize

section \<open>Validation\<close>

datatype domain_error =
    InvalidProjectKey
  | ProjectPath str
  | NonUtf8ProjectPath
  | InvalidTransition run_lifecycle run_lifecycle
  | TextTooLong str usize
  | TooManyEventDetails
  | EventDetailsTooLarge
  | InvalidWaitReason
  | InvalidOutcome

definition project_key_new :: "str \<Rightarrow> domain_error + str" where
  "project_key_new value =
     (if trim_is_empty value \<or> CHR 0x00 \<in> set value then Inl InvalidProjectKey else Inr value)"

definition validate_text :: "str \<Rightarrow> str \<Rightarrow> usize \<Rightarrow> domain_error + unit" where
  "validate_text fld value maximum =
     (if maximum < length value then Inl (TextTooLong fld maximum) else Inr ())"

text \<open>\<open>if let Some(x) = v { validate_text(field, x, max)?; }\<close>\<close>

definition validate_opt_text :: "str \<Rightarrow> str option \<Rightarrow> usize \<Rightarrow> domain_error + unit" where
  "validate_opt_text fld v maximum =
     (case v of None \<Rightarrow> Inr () | Some x \<Rightarrow> validate_text fld x maximum)"

definition detail_bytes :: "btree \<Rightarrow> nat" where
  "detail_bytes m = sum_list (map (\<lambda>(k, v). length k + length v) m)"

definition validate_event :: "run_event_payload \<Rightarrow> domain_error + unit" where
  "validate_event event =
     bindR (validate_opt_text ''event summary'' (ep_summary event) MAX_SUMMARY_BYTES) (\<lambda>_.
     if MAX_EVENT_DETAIL_ENTRIES < length (ep_details event) then Inl TooManyEventDetails
     else if MAX_EVENT_DETAIL_BYTES < detail_bytes (ep_details event) then Inl EventDetailsTooLarge
     else Inr ())"

definition validate_outcome :: "run_outcome \<Rightarrow> domain_error + unit" where
  "validate_outcome outcome =
     bindR (validate_opt_text ''outcome summary'' (oc_summary outcome) MAX_SUMMARY_BYTES) (\<lambda>_.
     bindR (case oc_output outcome of
         None \<Rightarrow> Inr ()
       | Some out \<Rightarrow> validate_opt_text ''output preview'' (ro_bounded_preview out) MAX_PREVIEW_BYTES) (\<lambda>_.
     bindR (validate_opt_text ''error message'' (map_option rf_message (oc_error outcome)) MAX_SUMMARY_BYTES) (\<lambda>_.
     validate_opt_text ''error message'' (map_option rf_message (oc_cleanup_error outcome)) MAX_SUMMARY_BYTES)))"

fun outcome_matches :: "run_lifecycle \<Rightarrow> outcome_status \<Rightarrow> bool" where
  "outcome_matches Succeeded OSucceeded = True"
| "outcome_matches Failed OFailed = True"
| "outcome_matches TimedOut OTimedOut = True"
| "outcome_matches Cancelled OCancelled = True"
| "outcome_matches Interrupted OInterrupted = True"
| "outcome_matches Interrupted OUnknown = True"
| "outcome_matches Lost OLost = True"
| "outcome_matches _ _ = False"

definition validate_transition ::
  "run_lifecycle \<Rightarrow> run_lifecycle \<Rightarrow> wait_reason option \<Rightarrow> run_outcome option \<Rightarrow>
   run_event_payload \<Rightarrow> domain_error + unit" where
  "validate_transition from' target reason outcome event =
     (if \<not> can_transition_to from' target then Inl (InvalidTransition from' target)
      else if (target \<in> {WaitingInput, Blocked}) \<noteq> (reason \<noteq> None) then Inl InvalidWaitReason
      else
        bindR (validate_opt_text ''wait reason summary'' (map_option wr_summary reason) MAX_SUMMARY_BYTES) (\<lambda>_.
        bindR (validate_event event) (\<lambda>_.
        if is_terminal target then
          bindR (ok_or InvalidOutcome outcome) (\<lambda>value.
            if \<not> outcome_matches target (oc_status value) then Inl InvalidOutcome
            else validate_outcome value)
        else if outcome \<noteq> None then Inl InvalidOutcome
        else Inr ())))"

section \<open>Lemmas\<close>

lemma all_lifecycles_set: "l \<in> set all_lifecycles"
  by (cases l) (simp_all add: all_lifecycles_def)

lemma parse_backend_text [simp]: "parse_backend (backend_text b) = Some b"
  by (cases b) (simp_all add: parse_backend_def)

lemma parse_lifecycle_text [simp]: "parse_lifecycle (lifecycle_text l) = Some l"
  by (cases l) (simp_all add: parse_lifecycle_def all_lifecycles_def)

lemma parse_wait_code_text [simp]: "parse_wait_code (wait_code_text c) = Some c"
  by (cases c) (simp_all add: parse_wait_code_def)

lemma parse_outbox_state_text [simp]: "parse_outbox_state (outbox_state_text s) = Some s"
  by (cases s) (simp_all add: parse_outbox_state_def)

lemma parse_lifecycle_Some: "parse_lifecycle s = Some l \<Longrightarrow> s = lifecycle_text l"
  unfolding parse_lifecycle_def by (drule find_SomeD) simp

lemma parse_outbox_state_Some: "parse_outbox_state s = Some l \<Longrightarrow> s = outbox_state_text l"
  unfolding parse_outbox_state_def by (drule find_SomeD) simp

lemma lifecycle_text_inject [simp]: "lifecycle_text a = lifecycle_text b \<longleftrightarrow> a = b"
  by (metis option.inject parse_lifecycle_text)

lemma outbox_state_text_inject [simp]: "outbox_state_text a = outbox_state_text b \<longleftrightarrow> a = b"
  by (metis option.inject parse_outbox_state_text)

lemma validate_text_ok [result_simps]:
  "validate_text f v n = Inr u \<longleftrightarrow> length v \<le> n"
  by (auto simp: validate_text_def)

lemma validate_opt_text_ok [result_simps]:
  "validate_opt_text f v n = Inr u \<longleftrightarrow> (\<forall>x. v = Some x \<longrightarrow> length x \<le> n)"
  by (auto simp: validate_opt_text_def validate_text_ok split: option.splits)

lemma validate_event_ok [result_simps]:
  "validate_event ev = Inr u \<longleftrightarrow>
     (\<forall>x. ep_summary ev = Some x \<longrightarrow> length x \<le> MAX_SUMMARY_BYTES)
   \<and> length (ep_details ev) \<le> MAX_EVENT_DETAIL_ENTRIES
   \<and> detail_bytes (ep_details ev) \<le> MAX_EVENT_DETAIL_BYTES"
  by (auto simp: validate_event_def result_simps)

text \<open>What an accepted transition guarantees, as one fact for the store's proofs.\<close>

lemma validate_transition_ok:
  assumes "validate_transition from' target reason outcome event = Inr u"
  shows "can_transition_to from' target"
    and "(target \<in> {WaitingInput, Blocked}) = (reason \<noteq> None)"
    and "validate_event event = Inr ()"
    and "is_terminal target \<Longrightarrow>
      \<exists>oc. outcome = Some oc \<and> outcome_matches target (oc_status oc) \<and> validate_outcome oc = Inr ()"
    and "\<not> is_terminal target \<Longrightarrow> outcome = None"
  using assms
  by (auto simp: validate_transition_def bindR_eq_Inr ok_or_eq_Inr split: if_splits)

lemma can_transition_not_terminal: "can_transition_to a b \<Longrightarrow> \<not> is_terminal a"
  by (auto simp: can_transition_to_def)

end
