(* ===== verification/Run_Schema.thy ===== *)
theory Run_Schema
  imports Run_Domain
begin

text \<open>
  The database of the run store (\<open>crates/n00n-runs/src/migrations.rs\<close>): the rows of schema version 1
  with its primary keys, unique indexes, foreign keys and check constraints as the outcome of the
  statements that write them, and the migration that creates the schema under the write lock.

  A text column holds a \<open>str\<close>, an integer column an \<open>int\<close>. A column that holds JSON text has the
  type parameter \<open>'j\<close>: the store never looks into such a text, it only writes what the serializer
  gave and hands what it reads to the parser.
\<close>

section \<open>Errors of the store\<close>

datatype sqlite_error =
    PrimaryKeyViolation str
  | UniqueViolation str
  | CheckViolation str
  | ForeignKeyViolation str
  | TableExists str
  | SqliteFailure str

datatype store_error =
    NotFound run_id
  | HostNotFound host_instance_id
  | HostShutDown host_instance_id
  | RevisionConflict run_id u64 u64
  | OwnershipFence run_id "host_instance_id option" "u64 option"
  | IdempotencyConflict str
  | InvalidOperationId
  | OutboxNotFound delivery_id
  | ResumeRequiresTerminal run_lifecycle
  | UnsupportedCapability str
  | AdapterUnavailable execution_backend
  | AdapterError str str
  | ResumeRequiresPausedOrTerminal run_lifecycle
  | TerminalOwnerTransfer run_lifecycle
  | RevisionOverflow run_id
  | OwnerEpochOverflow run_id
  | InvalidLimit usize usize
  | InvalidTimeout
  | LegacyProjectMismatch
  | Busy
  | IncompatibleSchema str
  | MigrationFailed str
  | InvalidConfiguration str
  | CorruptData str
  | Clock str
  | Synchronization
  | InjectedFailure
  | DomainE domain_error
  | Database sqlite_error
  | StoreIo str
  | Serialization str
  | SessionError str

section \<open>Rows\<close>

record chain_row =
  c_chain_id :: str
  c_project_key :: str
  c_kind :: str
  c_created_at :: i64
  c_root_session_id :: "str option"
  c_title :: str

record 'j host_row =
  h_instance_id :: str
  h_process_identity_json :: 'j
  h_started_at :: i64
  h_heartbeat_at :: i64
  h_shutdown_at :: "i64 option"

record 'j run_row =
  r_run_id :: str
  r_chain_id :: str
  r_predecessor_run_id :: "str option"
  r_backend :: str
  r_session_id :: "str option"
  r_legacy_session_id :: "str option"
  r_workflow_journal_id :: "str option"
  r_parent_run_id :: "str option"
  r_parent_session_id :: "str option"
  r_lifecycle :: str
  r_wait_reason_code :: "str option"
  r_wait_reason_summary :: "str option"
  r_outcome_json :: "'j option"
  r_capabilities_json :: 'j
  r_owner_instance_id :: "str option"
  r_owner_epoch :: "i64 option"
  r_created_at :: i64
  r_queued_at :: "i64 option"
  r_started_at :: "i64 option"
  r_updated_at :: i64
  r_finished_at :: "i64 option"
  r_last_progress_at :: "i64 option"
  r_revision :: i64

record 'j event_row =
  e_event_id :: str
  e_run_id :: str
  e_revision :: i64
  e_type :: str
  e_payload_json :: 'j
  e_operation_id :: str
  e_operation_fingerprint :: str
  e_created_at :: i64

record 'j outbox_row =
  o_delivery_id :: str
  o_source_event_id :: str
  o_child_run_id :: str
  o_parent_session_id :: str
  o_payload_json :: 'j
  o_state :: str
  o_attempt_count :: i64
  o_next_attempt_at :: "i64 option"
  o_created_at :: i64
  o_delivered_at :: "i64 option"
  o_acknowledged_at :: "i64 option"
  o_dead_letter_reason :: "str option"

record 'j run_db =
  t_chains :: "chain_row list"
  t_hosts :: "'j host_row list"
  t_runs :: "'j run_row list"
  t_events :: "'j event_row list"
  t_outbox :: "'j outbox_row list"

definition empty_db :: "'j run_db" where
  "empty_db = \<lparr>t_chains = [], t_hosts = [], t_runs = [], t_events = [], t_outbox = []\<rparr>"

section \<open>Constraints of schema version 1\<close>

text \<open>The columns \<open>predecessor_run_id\<close>, \<open>parent_run_id\<close> and \<open>owner_instance_id\<close> may be null.\<close>

definition fk_ok :: "('r \<Rightarrow> str) \<Rightarrow> 'r list \<Rightarrow> str option \<Rightarrow> bool" where
  "fk_ok key rows v = (case v of None \<Rightarrow> True | Some k \<Rightarrow> k \<in> set (map key rows))"

definition run_checks_ok :: "'j run_row \<Rightarrow> bool" where
  "run_checks_ok r \<longleftrightarrow> 0 < r_revision r
     \<and> (r_owner_instance_id r = None) = (r_owner_epoch r = None)
     \<and> (r_wait_reason_code r = None) = (r_wait_reason_summary r = None)"

definition outbox_checks_ok :: "'j outbox_row \<Rightarrow> bool" where
  "outbox_checks_ok q \<longleftrightarrow>
     o_state q \<in> {''pending'', ''delivered'', ''acknowledged'', ''dead_letter''}
     \<and> 0 \<le> o_attempt_count q"

definition sql_insert_chain :: "chain_row \<Rightarrow> 'j run_db \<Rightarrow> sqlite_error + 'j run_db" where
  "sql_insert_chain c db =
     (if c_chain_id c \<in> set (map c_chain_id (t_chains db)) then Inl (PrimaryKeyViolation ''run_chains'')
      else Inr (db\<lparr>t_chains := t_chains db @ [c]\<rparr>))"

definition sql_insert_host :: "'j host_row \<Rightarrow> 'j run_db \<Rightarrow> sqlite_error + 'j run_db" where
  "sql_insert_host h db =
     (if h_instance_id h \<in> set (map h_instance_id (t_hosts db))
      then Inl (PrimaryKeyViolation ''host_instances'')
      else Inr (db\<lparr>t_hosts := t_hosts db @ [h]\<rparr>))"

definition sql_insert_run :: "'j run_row \<Rightarrow> 'j run_db \<Rightarrow> sqlite_error + 'j run_db" where
  "sql_insert_run r db =
     (if r_run_id r \<in> set (map r_run_id (t_runs db)) then Inl (PrimaryKeyViolation ''runs'')
      else if r_legacy_session_id r \<noteq> None \<and>
        (r_chain_id r, r_legacy_session_id r) \<in> set (map (\<lambda>x. (r_chain_id x, r_legacy_session_id x)) (t_runs db))
      then Inl (UniqueViolation ''runs_legacy_session'')
      else if \<not> run_checks_ok r then Inl (CheckViolation ''runs'')
      else if \<not> fk_ok c_chain_id (t_chains db) (Some (r_chain_id r))
            \<or> \<not> fk_ok r_run_id (t_runs db @ [r]) (r_predecessor_run_id r)
            \<or> \<not> fk_ok r_run_id (t_runs db @ [r]) (r_parent_run_id r)
            \<or> \<not> fk_ok h_instance_id (t_hosts db) (r_owner_instance_id r)
      then Inl (ForeignKeyViolation ''runs'')
      else Inr (db\<lparr>t_runs := t_runs db @ [r]\<rparr>))"

definition sql_insert_event :: "'j event_row \<Rightarrow> 'j run_db \<Rightarrow> sqlite_error + 'j run_db" where
  "sql_insert_event e db =
     (if e_event_id e \<in> set (map e_event_id (t_events db)) then Inl (PrimaryKeyViolation ''run_events'')
      else if (e_run_id e, e_revision e) \<in> set (map (\<lambda>x. (e_run_id x, e_revision x)) (t_events db))
      then Inl (UniqueViolation ''run_events(run_id, revision)'')
      else if (e_run_id e, e_operation_id e) \<in> set (map (\<lambda>x. (e_run_id x, e_operation_id x)) (t_events db))
      then Inl (UniqueViolation ''run_events(run_id, operation_id)'')
      else if \<not> fk_ok r_run_id (t_runs db) (Some (e_run_id e)) then Inl (ForeignKeyViolation ''run_events'')
      else Inr (db\<lparr>t_events := t_events db @ [e]\<rparr>))"

definition sql_insert_outbox :: "'j outbox_row \<Rightarrow> 'j run_db \<Rightarrow> sqlite_error + 'j run_db" where
  "sql_insert_outbox q db =
     (if o_delivery_id q \<in> set (map o_delivery_id (t_outbox db))
      then Inl (PrimaryKeyViolation ''parent_outbox'')
      else if o_source_event_id q \<in> set (map o_source_event_id (t_outbox db))
      then Inl (UniqueViolation ''parent_outbox(source_event_id)'')
      else if \<not> outbox_checks_ok q then Inl (CheckViolation ''parent_outbox'')
      else if \<not> fk_ok e_event_id (t_events db) (Some (o_source_event_id q))
            \<or> \<not> fk_ok r_run_id (t_runs db) (Some (o_child_run_id q))
      then Inl (ForeignKeyViolation ''parent_outbox'')
      else Inr (db\<lparr>t_outbox := t_outbox db @ [q]\<rparr>))"

text \<open>
  \<open>UPDATE runs SET ... WHERE ...\<close>: the number of changed rows and the new table. The updates of
  this store never change a key column, so the check constraints and the foreign key of
  \<open>owner_instance_id\<close> are what can refuse them.
\<close>

definition sql_update_runs ::
  "('j run_row \<Rightarrow> bool) \<Rightarrow> ('j run_row \<Rightarrow> 'j run_row) \<Rightarrow> 'j run_db \<Rightarrow> sqlite_error + (nat \<times> 'j run_db)" where
  "sql_update_runs p f db =
     (let rows = map (\<lambda>r. if p r then f r else r) (t_runs db);
          hit = filter p (t_runs db)
      in if \<exists>r \<in> set hit. \<not> run_checks_ok (f r) then Inl (CheckViolation ''runs'')
         else if \<exists>r \<in> set hit. \<not> fk_ok h_instance_id (t_hosts db) (r_owner_instance_id (f r))
         then Inl (ForeignKeyViolation ''runs'')
         else Inr (length hit, db\<lparr>t_runs := rows\<rparr>))"

definition sql_update_hosts ::
  "('j host_row \<Rightarrow> bool) \<Rightarrow> ('j host_row \<Rightarrow> 'j host_row) \<Rightarrow> 'j run_db \<Rightarrow> nat \<times> 'j run_db" where
  "sql_update_hosts p f db =
     (length (filter p (t_hosts db)), db\<lparr>t_hosts := map (\<lambda>h. if p h then f h else h) (t_hosts db)\<rparr>)"

definition sql_update_outbox ::
  "('j outbox_row \<Rightarrow> bool) \<Rightarrow> ('j outbox_row \<Rightarrow> 'j outbox_row) \<Rightarrow> 'j run_db \<Rightarrow> sqlite_error + (nat \<times> 'j run_db)" where
  "sql_update_outbox p f db =
     (if \<exists>q \<in> set (filter p (t_outbox db)). \<not> outbox_checks_ok (f q) then Inl (CheckViolation ''parent_outbox'')
      else Inr (length (filter p (t_outbox db)),
                db\<lparr>t_outbox := map (\<lambda>q. if p q then f q else q) (t_outbox db)\<rparr>))"

definition sql_delete_outbox :: "str list \<Rightarrow> 'j run_db \<Rightarrow> nat \<times> 'j run_db" where
  "sql_delete_outbox ids db =
     (length (filter (\<lambda>q. o_delivery_id q \<in> set ids) (t_outbox db)),
      db\<lparr>t_outbox := filter (\<lambda>q. o_delivery_id q \<notin> set ids) (t_outbox db)\<rparr>)"

text \<open>
  \<open>DELETE FROM runs\<close>: the events of a deleted run go with it (\<open>ON DELETE CASCADE\<close>); an outbox row
  on the run or on one of its events, or a remaining run that names it as predecessor or parent,
  refuses the statement (\<open>ON DELETE RESTRICT\<close>).
\<close>

definition sql_delete_runs :: "str list \<Rightarrow> 'j run_db \<Rightarrow> sqlite_error + (nat \<times> 'j run_db)" where
  "sql_delete_runs ids db =
     (let gone = filter (\<lambda>r. r_run_id r \<in> set ids) (t_runs db);
          rest = filter (\<lambda>r. r_run_id r \<notin> set ids) (t_runs db);
          gone_ids = map r_run_id gone;
          gone_events = map e_event_id (filter (\<lambda>e. e_run_id e \<in> set gone_ids) (t_events db))
      in if (\<exists>q \<in> set (t_outbox db). o_child_run_id q \<in> set gone_ids \<or> o_source_event_id q \<in> set gone_events)
            \<or> (\<exists>r \<in> set (t_runs db). (\<exists>k \<in> set gone_ids. r_predecessor_run_id r = Some k \<or> r_parent_run_id r = Some k))
         then Inl (ForeignKeyViolation ''runs'')
         else Inr (length gone,
           db\<lparr>t_runs := rest, t_events := filter (\<lambda>e. e_run_id e \<notin> set gone_ids) (t_events db)\<rparr>))"

text \<open>\<open>DELETE FROM run_chains\<close> cascades to the runs of the chain, and from them as above.\<close>

definition sql_delete_chains :: "str list \<Rightarrow> 'j run_db \<Rightarrow> sqlite_error + (nat \<times> 'j run_db)" where
  "sql_delete_chains ids db =
     bindR (sql_delete_runs (map r_run_id (filter (\<lambda>r. r_chain_id r \<in> set ids) (t_runs db))) db) (\<lambda>(_, db1).
     Inr (length (filter (\<lambda>c. c_chain_id c \<in> set ids) (t_chains db)),
          db1\<lparr>t_chains := filter (\<lambda>c. c_chain_id c \<notin> set ids) (t_chains db1)\<rparr>))"

definition sql_delete_hosts :: "str list \<Rightarrow> 'j run_db \<Rightarrow> sqlite_error + (nat \<times> 'j run_db)" where
  "sql_delete_hosts ids db =
     (if \<exists>r \<in> set (t_runs db). \<exists>k \<in> set ids. r_owner_instance_id r = Some k then Inl (ForeignKeyViolation ''host_instances'')
      else Inr (length (filter (\<lambda>h. h_instance_id h \<in> set ids) (t_hosts db)),
                db\<lparr>t_hosts := filter (\<lambda>h. h_instance_id h \<notin> set ids) (t_hosts db)\<rparr>))"

section \<open>Migration\<close>

text \<open>What the migration reads and writes of a database file.\<close>

record db_file =
  df_application_id :: i64
  df_user_version :: i64
  df_tables :: "str list"
  df_schema_migrations :: "(i64 \<times> i64) list"

definition SCHEMA_VERSION :: i64 where
  "SCHEMA_VERSION = 1"

definition APPLICATION_ID :: i64 where
  "APPLICATION_ID = 0x6e30306e"

definition SCHEMA_V1_tables :: "str list" where
  "SCHEMA_V1_tables = [''schema_migrations'', ''run_chains'', ''host_instances'', ''runs'',
     ''run_events'', ''parent_outbox'']"

datatype schema_state = SchemaCurrent | SchemaEmpty

definition has_run_tables :: "db_file \<Rightarrow> bool" where
  "has_run_tables f \<longleftrightarrow>
     (\<exists>t \<in> set (df_tables f). t \<in> {''run_chains'', ''runs'', ''run_events'', ''parent_outbox'', ''host_instances''})"

fun verify_tables :: "str list \<Rightarrow> db_file \<Rightarrow> store_error + unit" where
  "verify_tables [] f = Inr ()"
| "verify_tables (t # ts) f =
     (if t \<notin> set (df_tables f)
      then Inl (IncompatibleSchema (''schema version 1 is missing table '' @ t))
      else verify_tables ts f)"

definition verify_schema :: "db_file \<Rightarrow> store_error + unit" where
  "verify_schema f = verify_tables
     [''schema_migrations'', ''run_chains'', ''host_instances'', ''runs'', ''run_events'', ''parent_outbox''] f"

definition inspect_schema :: "db_file \<Rightarrow> store_error + schema_state" where
  "inspect_schema f =
     (if df_application_id f \<noteq> 0 \<and> df_application_id f \<noteq> APPLICATION_ID
      then Inl (IncompatibleSchema ''database belongs to another application'')
      else if SCHEMA_VERSION < df_user_version f
      then Inl (IncompatibleSchema (''database schema version '' @ show_nat (nat (df_user_version f)) @
             '' is newer than supported version 1''))
      else if df_user_version f = SCHEMA_VERSION
      then bindR (verify_schema f) (\<lambda>_. Inr SchemaCurrent)
      else if has_run_tables f
      then Inl (IncompatibleSchema ''run tables exist without a recognized schema version'')
      else Inr SchemaEmpty)"

text \<open>\<open>execute_batch(SCHEMA_V1)\<close>: \<open>CREATE TABLE\<close> fails on a table that exists.\<close>

fun create_tables :: "str list \<Rightarrow> db_file \<Rightarrow> store_error + db_file" where
  "create_tables [] f = Inr f"
| "create_tables (t # ts) f =
     (if t \<in> set (df_tables f) then Inl (Database (TableExists t))
      else create_tables ts (f\<lparr>df_tables := df_tables f @ [t]\<rparr>))"

text \<open>
  The body of the migration transaction on the file as it is under the write lock. \<open>before_lock\<close>
  stands for what happens to the file between the unlocked inspection and the lock: another process
  may have migrated it. An error leaves the file as it was at the lock, since the transaction is
  rolled back when it is dropped.
\<close>

definition migrate_locked :: "i64 \<Rightarrow> bool \<Rightarrow> db_file \<Rightarrow> store_error + db_file" where
  "migrate_locked now inject_failure f =
     bindR (inspect_schema f) (\<lambda>st.
     if st = SchemaCurrent then Inr f
     else bindR (create_tables SCHEMA_V1_tables f) (\<lambda>f1.
       if inject_failure then Inl (MigrationFailed ''injected migration failure'')
       else Inr (f1\<lparr>df_schema_migrations := df_schema_migrations f1 @ [(SCHEMA_VERSION, now)],
                   df_application_id := APPLICATION_ID, df_user_version := SCHEMA_VERSION\<rparr>)))"

definition migrate_inner ::
  "i64 \<Rightarrow> bool \<Rightarrow> (db_file \<Rightarrow> store_error + db_file) \<Rightarrow> db_file \<Rightarrow> (store_error + unit) \<times> db_file" where
  "migrate_inner now inject_failure before_lock f =
     (case inspect_schema f of
        Inl e \<Rightarrow> (Inl e, f)
      | Inr SchemaCurrent \<Rightarrow> (Inr (), f)
      | Inr SchemaEmpty \<Rightarrow>
          (case before_lock f of
             Inl e \<Rightarrow> (Inl e, f)
           | Inr f1 \<Rightarrow>
               (case migrate_locked now inject_failure f1 of
                  Inl e \<Rightarrow> (Inl e, f1)
                | Inr f2 \<Rightarrow> (Inr (), f2))))"

definition migrate :: "i64 \<Rightarrow> db_file \<Rightarrow> (store_error + unit) \<times> db_file" where
  "migrate now f = migrate_inner now False Inr f"

definition fresh_file :: db_file where
  "fresh_file = \<lparr>df_application_id = 0, df_user_version = 0, df_tables = [], df_schema_migrations = []\<rparr>"

section \<open>Lemmas on the statements\<close>

lemma fk_ok_None [simp]: "fk_ok key rows None"
  by (simp add: fk_ok_def)

lemma fk_ok_Some [simp]: "fk_ok key rows (Some k) \<longleftrightarrow> k \<in> set (map key rows)"
  by (simp add: fk_ok_def)

lemma fk_ok_append: "fk_ok key rows v \<Longrightarrow> fk_ok key (rows @ rows2) v"
  by (cases v) auto

lemma fk_ok_map: "map key rows' = map key rows \<Longrightarrow> fk_ok key rows' v = fk_ok key rows v"
  by (simp only: fk_ok_def)

lemma verify_tables_ok: "verify_tables ts f = Inr u \<longleftrightarrow> set ts \<subseteq> set (df_tables f)"
  by (induction ts) auto

lemma verify_schema_ok: "verify_schema f = Inr u \<longleftrightarrow> set SCHEMA_V1_tables \<subseteq> set (df_tables f)"
  by (simp add: verify_schema_def verify_tables_ok SCHEMA_V1_tables_def)

lemma create_tables_result:
  "create_tables ts f = Inr f' \<Longrightarrow> f' = f\<lparr>df_tables := df_tables f @ ts\<rparr>"
proof (induction ts arbitrary: f)
  case (Cons t ts)
  then have "create_tables ts (f\<lparr>df_tables := df_tables f @ [t]\<rparr>) = Inr f'"
    by (simp split: if_splits)
  from Cons.IH [OF this] show ?case by simp
qed simp

lemma create_tables_fresh:
  "set ts \<inter> set (df_tables f) = {} \<Longrightarrow> distinct ts \<Longrightarrow>
   create_tables ts f = Inr (f\<lparr>df_tables := df_tables f @ ts\<rparr>)"
  by (induction ts arbitrary: f) auto

lemma inspect_schema_current:
  "inspect_schema f = Inr SchemaCurrent \<longleftrightarrow>
     df_application_id f \<in> {0, APPLICATION_ID} \<and> df_user_version f = SCHEMA_VERSION
   \<and> set SCHEMA_V1_tables \<subseteq> set (df_tables f)"
  by (auto simp: inspect_schema_def result_simps verify_schema_ok SCHEMA_VERSION_def APPLICATION_ID_def
      split: if_splits)

lemma inspect_schema_empty:
  "inspect_schema f = Inr SchemaEmpty \<Longrightarrow> \<not> has_run_tables f"
  by (auto simp: inspect_schema_def result_simps split: if_splits)

end
