(* ===== verification/Run_Store.thy ===== *)
theory Run_Store
  imports Run_Schema
begin

text \<open>
  The transactional core of the run store (\<open>crates/n00n-runs/src/store.rs\<close>): decoding of rows, the
  project-scoped queries, and the operations that create runs and advance them: \<open>create_run\<close>,
  \<open>transition\<close>, \<open>resume_run\<close> and \<open>transfer_owner\<close>, with \<open>events\<close>, \<open>list_runs\<close> and
  \<open>wait_for_revision\<close>.

  Code outside the repository is a parameter: the codec \<open>'j codec\<close> holds the text form of a UUID and
  the serde\_json serialization of the values that live in JSON columns; \<open>codec_ok\<close> states what the
  store relies on (parsing what was printed gives the value back, a UUID prints in at most 36 bytes).
  The clock, the generated identifiers and the faults of opening, beginning and committing are in
  the environment \<open>store_env\<close> of a call.
\<close>

section \<open>Codec and environment\<close>

type_synonym request_json =
  "run_id \<times> u64 \<times> (host_instance_id \<times> u64) option \<times> run_lifecycle \<times> wait_reason option \<times>
   run_outcome option \<times> str \<times> run_event_payload \<times> bool"

record 'j codec =
  cd_id_text :: "uuid \<Rightarrow> str"
  cd_id_debug :: "uuid \<Rightarrow> str"
  cd_parse_id :: "str \<Rightarrow> uuid option"
  cd_uuid_v5 :: "str \<Rightarrow> uuid"
  cd_json_caps :: "run_capabilities \<Rightarrow> 'j"
  cd_parse_caps :: "'j \<Rightarrow> run_capabilities option"
  cd_json_outcome :: "run_outcome \<Rightarrow> 'j"
  cd_parse_outcome :: "'j \<Rightarrow> run_outcome option"
  cd_json_payload :: "run_event_payload \<Rightarrow> 'j"
  cd_parse_payload :: "'j \<Rightarrow> run_event_payload option"
  cd_json_identity :: "process_identity \<Rightarrow> 'j"
  cd_parse_identity :: "'j \<Rightarrow> process_identity option"
  cd_json_request :: "request_json \<Rightarrow> str"

definition codec_ok :: "'j codec \<Rightarrow> bool" where
  "codec_ok J \<longleftrightarrow>
     (\<forall>u. cd_parse_id J (cd_id_text J u) = Some u)
   \<and> (\<forall>u. length (cd_id_text J u) \<le> 36)
   \<and> (\<forall>v. cd_parse_caps J (cd_json_caps J v) = Some v)
   \<and> (\<forall>v. cd_parse_outcome J (cd_json_outcome J v) = Some v)
   \<and> (\<forall>v. cd_parse_payload J (cd_json_payload J v) = Some v)
   \<and> (\<forall>v. cd_parse_identity J (cd_json_identity J v) = Some v)"

text \<open>
  The clock reading is in milliseconds since the epoch, negative before it; \<open>env_open\<close> is the fault
  of opening the connection or of one of its pragmas; \<open>env_journal\<close> and \<open>env_journal_after\<close> are the
  journal modes SQLite reports before and after the switch to WAL was requested.
\<close>

record store_env =
  env_clock :: int
  env_open :: "store_error option"
  env_journal :: str
  env_journal_after :: str
  env_begin :: "store_error option"
  env_commit :: "store_error option"
  env_event_id :: run_event_id
  env_delivery_id :: delivery_id
  env_run_id :: run_id
  env_host_id :: host_instance_id

record 'j run_store =
  st_project_key :: str
  st_db :: "'j run_db"
  st_notifications :: "run_id \<rightharpoonup> u64"
  st_poisoned :: bool

section \<open>Conversions\<close>

definition MAX_PAGE_SIZE :: usize where
  "MAX_PAGE_SIZE = 500"

definition MAX_RECONCILE_RUNS_PER_HOST :: usize where
  "MAX_RECONCILE_RUNS_PER_HOST = 256"

definition ACTIVE_LIFECYCLES_SQL :: "str list" where
  "ACTIVE_LIFECYCLES_SQL = [''queued'', ''starting'', ''running'', ''waiting_input'', ''blocked'',
     ''pausing'', ''paused'', ''cancelling'']"

definition TERMINAL_LIFECYCLES_SQL :: "str list" where
  "TERMINAL_LIFECYCLES_SQL = [''succeeded'', ''failed'', ''timed_out'', ''cancelled'', ''interrupted'', ''lost'']"

definition u64_to_i64 :: "u64 \<Rightarrow> store_error + i64" where
  "u64_to_i64 value = (if uint value \<le> i64_max then Inr (uint value)
     else Inl (CorruptData ''integer exceeds SQLite range''))"

definition i64_to_u64 :: "i64 \<Rightarrow> str \<Rightarrow> store_error + u64" where
  "i64_to_u64 value fld = (if value < 0 then Inl (CorruptData (''negative '' @ fld))
     else Inr (word_of_int value))"

definition usize_to_i64 :: "usize \<Rightarrow> store_error + i64" where
  "usize_to_i64 value = (if int value \<le> i64_max then Inr (int value)
     else Inl (InvalidConfiguration ''limit exceeds SQLite range''))"

definition now_millis :: "store_env \<Rightarrow> store_error + i64" where
  "now_millis env =
     (if env_clock env < 0 then Inl (Clock ''second time provided was later than self'')
      else if i64_max < env_clock env then Inl (Clock ''epoch milliseconds exceed SQLite integer'')
      else Inr (env_clock env))"

definition parse_id :: "'j codec \<Rightarrow> str \<Rightarrow> str \<Rightarrow> store_error + uuid" where
  "parse_id J value fld = ok_or (CorruptData (''invalid '' @ fld)) (cd_parse_id J value)"

definition parse_enum :: "(str \<Rightarrow> 'a option) \<Rightarrow> str \<Rightarrow> str \<Rightarrow> store_error + 'a" where
  "parse_enum p value fld = ok_or (CorruptData (''invalid '' @ fld)) (p value)"

definition parse_json :: "('j \<Rightarrow> 'a option) \<Rightarrow> 'j \<Rightarrow> str \<Rightarrow> store_error + 'a" where
  "parse_json p value fld = ok_or (CorruptData (''invalid '' @ fld)) (p value)"

definition database_err :: "sqlite_error + 'a \<Rightarrow> store_error + 'a" where
  "database_err m = map_err Database m"

definition validate_title :: "str \<Rightarrow> store_error + unit" where
  "validate_title title =
     (if MAX_SUMMARY_BYTES < length title then Inl (DomainE (TextTooLong ''title'' MAX_SUMMARY_BYTES))
      else Inr ())"

section \<open>Connections and transactions\<close>

definition connection :: "store_env \<Rightarrow> store_error + unit" where
  "connection env =
     (case env_open env of
        Some e \<Rightarrow> Inl e
      | None \<Rightarrow>
          (let mode = (if eq_ignore_ascii_case (env_journal env) ''wal'' then env_journal env
                       else env_journal_after env)
           in if \<not> eq_ignore_ascii_case mode ''wal''
              then Inl (InvalidConfiguration (''SQLite refused WAL mode and selected '' @ mode))
              else Inr ()))"

text \<open>
  A body between \<open>immediate(&mut connection)?\<close> and \<open>transaction.commit()?\<close>: every early return drops
  the transaction, which rolls it back.
\<close>

definition in_transaction ::
  "store_env \<Rightarrow> ('j run_db \<Rightarrow> store_error + 'a \<times> 'j run_db) \<Rightarrow> 'j run_db \<Rightarrow> (store_error + 'a) \<times> 'j run_db" where
  "in_transaction env body db =
     (case bindR (connection env) (\<lambda>_. case env_begin env of None \<Rightarrow> body db | Some e \<Rightarrow> Inl e) of
        Inl e \<Rightarrow> (Inl e, db)
      | Inr (x, db') \<Rightarrow> (case env_commit env of None \<Rightarrow> (Inr x, db') | Some e \<Rightarrow> (Inl e, db)))"

definition notify :: "run_id \<Rightarrow> 'j run_store \<Rightarrow> 'j run_store" where
  "notify rid s =
     (if st_poisoned s then s
      else s\<lparr>st_notifications := (st_notifications s)(rid \<mapsto>
        saturating_add_u64 (case st_notifications s rid of None \<Rightarrow> 0 | Some g \<Rightarrow> g) 1)\<rparr>)"

text \<open>The result of a mutating call: the record, the new store, with a notification when a row changed.\<close>

definition finish_tx ::
  "'j run_store \<Rightarrow> (store_error + run_record \<times> bool) \<times> 'j run_db \<Rightarrow> (store_error + run_record) \<times> 'j run_store" where
  "finish_tx s out =
     (case out of
        (Inl e, db) \<Rightarrow> (Inl e, s\<lparr>st_db := db\<rparr>)
      | (Inr (record, changed), db) \<Rightarrow>
          (Inr record, (if changed then notify (rr_run_id record) else id) (s\<lparr>st_db := db\<rparr>)))"

section \<open>Rows to records\<close>

definition decode_wait_reason :: "str option \<Rightarrow> str option \<Rightarrow> store_error + wait_reason option" where
  "decode_wait_reason code summary =
     (case (code, summary) of
        (Some c, Some s) \<Rightarrow>
          bindR (parse_enum parse_wait_code c ''wait reason code'') (\<lambda>c'.
          Inr (Some \<lparr>wr_code = c', wr_summary = s\<rparr>))
      | (None, None) \<Rightarrow> Inr None
      | _ \<Rightarrow> Inl (CorruptData ''partial wait reason in run row''))"

definition decode_run :: "'j codec \<Rightarrow> 'j run_row \<Rightarrow> store_error + run_record" where
  "decode_run J raw =
     bindR (decode_wait_reason (r_wait_reason_code raw) (r_wait_reason_summary raw)) (\<lambda>reason.
     bindR (parse_id J (r_run_id raw) ''run id'') (\<lambda>rid.
     bindR (parse_id J (r_chain_id raw) ''chain id'') (\<lambda>cid.
     bindR (transposeR (\<lambda>v. parse_id J v ''predecessor run id'') (r_predecessor_run_id raw)) (\<lambda>pred.
     bindR (parse_enum parse_backend (r_backend raw) ''backend'') (\<lambda>be.
     bindR (transposeR (\<lambda>v. parse_id J v ''parent run id'') (r_parent_run_id raw)) (\<lambda>par.
     bindR (parse_enum parse_lifecycle (r_lifecycle raw) ''lifecycle'') (\<lambda>lc.
     bindR (transposeR (\<lambda>v. parse_json (cd_parse_outcome J) v ''outcome'') (r_outcome_json raw)) (\<lambda>oc.
     bindR (parse_json (cd_parse_caps J) (r_capabilities_json raw) ''capabilities'') (\<lambda>caps.
     bindR (transposeR (\<lambda>v. parse_id J v ''owner instance id'') (r_owner_instance_id raw)) (\<lambda>owner.
     bindR (transposeR (\<lambda>v. i64_to_u64 v ''owner epoch'') (r_owner_epoch raw)) (\<lambda>epoch.
     bindR (i64_to_u64 (r_revision raw) ''revision'') (\<lambda>rev'.
     Inr \<lparr>rr_run_id = rid, rr_chain_id = cid, rr_predecessor_run_id = pred, rr_backend = be,
          rr_session_id = r_session_id raw, rr_legacy_session_id = r_legacy_session_id raw,
          rr_workflow_journal_id = r_workflow_journal_id raw, rr_parent_run_id = par,
          rr_parent_session_id = r_parent_session_id raw, rr_lifecycle = lc, rr_wait_reason = reason,
          rr_outcome = oc, rr_capabilities = caps, rr_owner_instance_id = owner,
          rr_owner_epoch = epoch, rr_created_at = r_created_at raw, rr_queued_at = r_queued_at raw,
          rr_started_at = r_started_at raw, rr_updated_at = r_updated_at raw,
          rr_finished_at = r_finished_at raw, rr_last_progress_at = r_last_progress_at raw,
          rr_revision = rev'\<rparr>))))))))))))"

text \<open>The join of \<open>RUN_SELECT\<close> restricted to one project.\<close>

definition run_in_project :: "'j run_db \<Rightarrow> str \<Rightarrow> 'j run_row \<Rightarrow> bool" where
  "run_in_project db pk r \<longleftrightarrow>
     (\<exists>c \<in> set (t_chains db). c_chain_id c = r_chain_id r \<and> c_project_key c = pk)"

definition query_run :: "'j codec \<Rightarrow> 'j run_db \<Rightarrow> str \<Rightarrow> run_id \<Rightarrow> store_error + run_record option" where
  "query_run J db pk rid =
     transposeR (decode_run J)
       (find (\<lambda>r. r_run_id r = cd_id_text J rid \<and> run_in_project db pk r) (t_runs db))"

definition require_run :: "'j codec \<Rightarrow> 'j run_db \<Rightarrow> str \<Rightarrow> run_id \<Rightarrow> store_error + run_record" where
  "require_run J db pk rid = bindR (query_run J db pk rid) (ok_or (NotFound rid))"

definition require_live_host :: "'j codec \<Rightarrow> 'j run_db \<Rightarrow> host_instance_id \<Rightarrow> store_error + unit" where
  "require_live_host J db iid =
     (case find (\<lambda>h. h_instance_id h = cd_id_text J iid) (t_hosts db) of
        Some h \<Rightarrow> (case h_shutdown_at h of None \<Rightarrow> Inr () | Some _ \<Rightarrow> Inl (HostShutDown iid))
      | None \<Rightarrow> Inl (HostNotFound iid))"

definition verify_revision_and_owner :: "run_record \<Rightarrow> u64 \<Rightarrow> owner_fence option \<Rightarrow> store_error + unit" where
  "verify_revision_and_owner run expected owner =
     (if rr_revision run \<noteq> expected
      then Inl (RevisionConflict (rr_run_id run) expected (rr_revision run))
      else (case (rr_owner_instance_id run, rr_owner_epoch run, owner) of
          (None, None, None) \<Rightarrow> Inr ()
        | (Some actual_instance, Some actual_epoch, expected') \<Rightarrow>
            (case expected' of
               Some fence \<Rightarrow>
                 if actual_instance = of_instance_id fence \<and> actual_epoch = of_epoch fence then Inr ()
                 else Inl (OwnershipFence (rr_run_id run) (Some actual_instance) (Some actual_epoch))
             | None \<Rightarrow> Inl (OwnershipFence (rr_run_id run) (Some actual_instance) (Some actual_epoch)))
        | _ \<Rightarrow> Inl (CorruptData ''partial owner fence in run row'')))"

section \<open>Events, idempotency and the parent outbox\<close>

definition insert_event ::
  "'j codec \<Rightarrow> run_event_id \<Rightarrow> run_id \<Rightarrow> u64 \<Rightarrow> str \<Rightarrow> run_event_payload \<Rightarrow> str \<Rightarrow> str \<Rightarrow> i64 \<Rightarrow>
   'j run_db \<Rightarrow> store_error + 'j run_db" where
  "insert_event J eid rid revision ty payload operation_id fingerprint now db =
     bindR (map_err DomainE (validate_event payload)) (\<lambda>_.
     bindR (u64_to_i64 revision) (\<lambda>rev'.
     database_err (sql_insert_event \<lparr>e_event_id = cd_id_text J eid, e_run_id = cd_id_text J rid,
       e_revision = rev', e_type = ty, e_payload_json = cd_json_payload J payload,
       e_operation_id = operation_id, e_operation_fingerprint = fingerprint, e_created_at = now\<rparr> db)))"

definition idempotent_result ::
  "'j codec \<Rightarrow> 'j run_db \<Rightarrow> str \<Rightarrow> str \<Rightarrow> str \<Rightarrow> store_error + run_record option" where
  "idempotent_result J db pk operation_id fingerprint =
     (case find (\<lambda>e. e_operation_id e = operation_id
          \<and> (\<exists>r \<in> set (t_runs db). r_run_id r = e_run_id e \<and> run_in_project db pk r)) (t_events db) of
        None \<Rightarrow> Inr None
      | Some e \<Rightarrow>
          if e_operation_fingerprint e \<noteq> fingerprint then Inl (IdempotencyConflict operation_id)
          else bindR (parse_id J (e_run_id e) ''idempotent run id'') (\<lambda>rid.
               bindR (require_run J db pk rid) (\<lambda>record. Inr (Some record))))"

definition should_notify_parent :: "run_lifecycle \<Rightarrow> bool" where
  "should_notify_parent lifecycle \<longleftrightarrow> is_terminal lifecycle \<or> lifecycle \<in> {WaitingInput, Blocked}"

fun lifecycle_debug :: "run_lifecycle \<Rightarrow> str" where
  "lifecycle_debug Queued = ''Queued''"
| "lifecycle_debug Starting = ''Starting''"
| "lifecycle_debug Running = ''Running''"
| "lifecycle_debug WaitingInput = ''WaitingInput''"
| "lifecycle_debug Blocked = ''Blocked''"
| "lifecycle_debug Pausing = ''Pausing''"
| "lifecycle_debug Paused = ''Paused''"
| "lifecycle_debug Cancelling = ''Cancelling''"
| "lifecycle_debug Succeeded = ''Succeeded''"
| "lifecycle_debug Failed = ''Failed''"
| "lifecycle_debug TimedOut = ''TimedOut''"
| "lifecycle_debug Cancelled = ''Cancelled''"
| "lifecycle_debug Interrupted = ''Interrupted''"
| "lifecycle_debug Lost = ''Lost''"

definition outbox_payload ::
  "'j codec \<Rightarrow> run_id \<Rightarrow> u64 \<Rightarrow> run_lifecycle \<Rightarrow> wait_reason option \<Rightarrow> run_event_payload" where
  "outbox_payload J rid revision lifecycle reason =
     (let details = btree_of [(''child_run_id'', cd_id_text J rid), (''revision'', show_u64 revision),
                              (''lifecycle'', lifecycle_text lifecycle)];
          details' = (case reason of None \<Rightarrow> details
                      | Some w \<Rightarrow> btree_insert ''wait_reason'' (wait_code_text (wr_code w)) details)
      in \<lparr>ep_summary = Some (map to_ascii_lower (''Child run is '' @ lifecycle_debug lifecycle)),
          ep_details = details'\<rparr>)"

definition outbox_row_of ::
  "'j codec \<Rightarrow> delivery_id \<Rightarrow> run_event_id \<Rightarrow> run_id \<Rightarrow> str \<Rightarrow> run_event_payload \<Rightarrow> i64 \<Rightarrow> 'j outbox_row" where
  "outbox_row_of J did eid rid parent_session payload now = \<lparr>o_delivery_id = cd_id_text J did,
     o_source_event_id = cd_id_text J eid, o_child_run_id = cd_id_text J rid,
     o_parent_session_id = parent_session, o_payload_json = cd_json_payload J payload,
     o_state = ''pending'', o_attempt_count = 0, o_next_attempt_at = None, o_created_at = now,
     o_delivered_at = None, o_acknowledged_at = None, o_dead_letter_reason = None\<rparr>"

definition insert_outbox_if_parent ::
  "'j codec \<Rightarrow> delivery_id \<Rightarrow> run_record \<Rightarrow> run_event_id \<Rightarrow> u64 \<Rightarrow> run_lifecycle \<Rightarrow> wait_reason option \<Rightarrow>
   i64 \<Rightarrow> 'j run_db \<Rightarrow> store_error + 'j run_db" where
  "insert_outbox_if_parent J did run eid revision lifecycle reason now db =
     (case rr_parent_session_id run of
        None \<Rightarrow> Inr db
      | Some parent_session \<Rightarrow>
          (let payload = outbox_payload J (rr_run_id run) revision lifecycle reason in
           bindR (map_err DomainE (validate_event payload)) (\<lambda>_.
           database_err (sql_insert_outbox
             (outbox_row_of J did eid (rr_run_id run) parent_session payload now) db))))"

section \<open>Creating a run\<close>

definition new_chain_row :: "'j codec \<Rightarrow> str \<Rightarrow> new_run_spec \<Rightarrow> i64 \<Rightarrow> chain_row" where
  "new_chain_row J pk spec now = \<lparr>c_chain_id = cd_id_text J (ns_chain_id spec), c_project_key = pk,
     c_kind = run_kind_text (ns_kind spec), c_created_at = now,
     c_root_session_id = ns_root_session_id spec, c_title = ns_title spec\<rparr>"

definition new_run_row :: "'j codec \<Rightarrow> new_run_spec \<Rightarrow> i64 \<Rightarrow> 'j run_row" where
  "new_run_row J spec now = \<lparr>r_run_id = cd_id_text J (ns_run_id spec),
     r_chain_id = cd_id_text J (ns_chain_id spec), r_predecessor_run_id = None,
     r_backend = backend_text (ns_backend spec), r_session_id = ns_session_id spec,
     r_legacy_session_id = None, r_workflow_journal_id = ns_workflow_journal_id spec,
     r_parent_run_id = map_option (cd_id_text J) (ns_parent_run_id spec),
     r_parent_session_id = ns_parent_session_id spec, r_lifecycle = ''queued'',
     r_wait_reason_code = None, r_wait_reason_summary = None, r_outcome_json = None,
     r_capabilities_json = cd_json_caps J (ns_capabilities spec),
     r_owner_instance_id = map_option (cd_id_text J) (ns_owner_instance_id spec),
     r_owner_epoch = map_option (\<lambda>_. 1) (ns_owner_instance_id spec),
     r_created_at = now, r_queued_at = Some now, r_started_at = None, r_updated_at = now,
     r_finished_at = None, r_last_progress_at = None, r_revision = 1\<rparr>"

definition require_parent :: "'j codec \<Rightarrow> 'j run_db \<Rightarrow> str \<Rightarrow> run_id option \<Rightarrow> store_error + unit" where
  "require_parent J db pk p =
     (case p of None \<Rightarrow> Inr () | Some rid \<Rightarrow> bindR (require_run J db pk rid) (\<lambda>_. Inr ()))"

definition require_owner :: "'j codec \<Rightarrow> 'j run_db \<Rightarrow> host_instance_id option \<Rightarrow> store_error + unit" where
  "require_owner J db h = (case h of None \<Rightarrow> Inr () | Some iid \<Rightarrow> require_live_host J db iid)"

definition create_run_tx ::
  "'j codec \<Rightarrow> str \<Rightarrow> i64 \<Rightarrow> run_event_id \<Rightarrow> new_run_spec \<Rightarrow> 'j run_db \<Rightarrow>
   store_error + (run_record \<times> bool) \<times> 'j run_db" where
  "create_run_tx J pk now eid spec db =
     bindR (query_run J db pk (ns_run_id spec)) (\<lambda>existing.
     case existing of
       Some record \<Rightarrow> Inr ((record, False), db)
     | None \<Rightarrow>
         bindR (require_parent J db pk (ns_parent_run_id spec)) (\<lambda>_.
         bindR (require_owner J db (ns_owner_instance_id spec)) (\<lambda>_.
         bindR (database_err (sql_insert_chain (new_chain_row J pk spec now) db)) (\<lambda>db1.
         bindR (database_err (sql_insert_run (new_run_row J spec now) db1)) (\<lambda>db2.
         bindR (insert_event J eid (ns_run_id spec) 1 ''run_created''
             \<lparr>ep_summary = Some ''Run queued'', ep_details = []\<rparr>
             (''create:'' @ cd_id_text J (ns_run_id spec))
             (''create:'' @ cd_id_text J (ns_chain_id spec) @ '':'' @ cd_id_text J (ns_run_id spec)) now db2) (\<lambda>db3.
         bindR (require_run J db3 pk (ns_run_id spec)) (\<lambda>record.
         Inr ((record, True), db3))))))))"

definition create_run ::
  "store_env \<Rightarrow> 'j codec \<Rightarrow> new_run_spec \<Rightarrow> 'j run_store \<Rightarrow> (store_error + run_record) \<times> 'j run_store" where
  "create_run env J spec s =
     (case bindR (validate_title (ns_title spec)) (\<lambda>_. now_millis env) of
        Inl e \<Rightarrow> (Inl e, s)
      | Inr now \<Rightarrow> finish_tx s (in_transaction env
          (create_run_tx J (st_project_key s) now (env_event_id env) spec) (st_db s)))"

section \<open>Reading runs and events\<close>

definition get_run :: "store_env \<Rightarrow> 'j codec \<Rightarrow> run_id \<Rightarrow> 'j run_store \<Rightarrow> store_error + run_record" where
  "get_run env J rid s =
     bindR (connection env) (\<lambda>_.
     bindR (query_run J (st_db s) (st_project_key s) rid) (ok_or (NotFound rid)))"

definition valid_limit :: "usize \<Rightarrow> store_error + unit" where
  "valid_limit limit =
     (if limit = 0 \<or> MAX_PAGE_SIZE < limit then Inl (InvalidLimit limit MAX_PAGE_SIZE)
      else Inr ())"

definition newest_first :: "'j run_row \<Rightarrow> 'j run_row \<Rightarrow> bool" where
  "newest_first a b \<longleftrightarrow> r_created_at b < r_created_at a
     \<or> r_created_at a = r_created_at b \<and> r_run_id b \<le> r_run_id a"

definition list_runs :: "store_env \<Rightarrow> 'j codec \<Rightarrow> usize \<Rightarrow> 'j run_store \<Rightarrow> store_error + run_record list" where
  "list_runs env J limit s =
     bindR (valid_limit limit) (\<lambda>_.
     bindR (connection env) (\<lambda>_.
     collectR (decode_run J)
       (take limit (order_by newest_first
          (filter (run_in_project (st_db s) (st_project_key s)) (t_runs (st_db s)))))))"

definition decode_event :: "'j codec \<Rightarrow> 'j event_row \<Rightarrow> store_error + run_event" where
  "decode_event J e =
     bindR (parse_id J (e_event_id e) ''event_id'') (\<lambda>eid.
     bindR (parse_id J (e_run_id e) ''run_id'') (\<lambda>rid.
     bindR (i64_to_u64 (e_revision e) ''revision'') (\<lambda>rev'.
     bindR (parse_json (cd_parse_payload J) (e_payload_json e) ''event payload'') (\<lambda>payload.
     Inr \<lparr>ev_event_id = eid, ev_run_id = rid, ev_revision = rev', ev_event_type = e_type e,
          ev_payload = payload, ev_created_at = e_created_at e\<rparr>))))"

definition by_revision :: "'j event_row \<Rightarrow> 'j event_row \<Rightarrow> bool" where
  "by_revision a b \<longleftrightarrow> e_revision a \<le> e_revision b"

definition events ::
  "store_env \<Rightarrow> 'j codec \<Rightarrow> run_id \<Rightarrow> u64 \<Rightarrow> usize \<Rightarrow> 'j run_store \<Rightarrow> store_error + run_event list" where
  "events env J rid after_revision limit s =
     bindR (valid_limit limit) (\<lambda>_.
     bindR (connection env) (\<lambda>_.
     bindR (require_run J (st_db s) (st_project_key s) rid) (\<lambda>_.
     bindR (u64_to_i64 after_revision) (\<lambda>after'.
     collectR (decode_event J)
       (take limit (order_by by_revision
         (filter (\<lambda>e. e_run_id e = cd_id_text J rid \<and> after' < e_revision e) (t_events (st_db s)))))))))"

text \<open>
  \<open>wait_for_revision\<close> rereads the run until it has a newer revision, is terminal, or the deadline
  passes. One element of the list is one round: what the read returned, and whether the deadline had
  passed when the clock was read after it. \<open>final\<close> is the reread after a deadline that found only
  busy rounds. \<open>None\<close> means the rounds given do not decide the call yet.
\<close>

fun wait_rounds ::
  "u64 \<Rightarrow> run_record option \<Rightarrow> (store_error + run_record) \<Rightarrow>
   ((store_error + run_record) \<times> bool) list \<Rightarrow> (store_error + run_wait_result) option" where
  "wait_rounds after_revision last_run final [] = None"
| "wait_rounds after_revision last_run final ((Inr run, expired) # rounds) =
     (if after_revision < rr_revision run \<or> is_terminal (rr_lifecycle run)
      then Some (Inr \<lparr>rw_run = run, rw_observation_timed_out = False\<rparr>)
      else if expired then Some (Inr \<lparr>rw_run = run, rw_observation_timed_out = True\<rparr>)
      else wait_rounds after_revision (Some run) final rounds)"
| "wait_rounds after_revision last_run final ((Inl e, expired) # rounds) =
     (if e \<noteq> Busy then Some (Inl e)
      else if expired then
        Some (case last_run of
            Some run \<Rightarrow> Inr \<lparr>rw_run = run, rw_observation_timed_out = True\<rparr>
          | None \<Rightarrow> bindR final (\<lambda>run. Inr \<lparr>rw_run = run, rw_observation_timed_out = True\<rparr>))
      else wait_rounds after_revision last_run final rounds)"

text \<open>
  The call itself: the notification entry of the run is created when it is missing, a poisoned lock
  or a deadline that overflows the clock ends it at once.
\<close>

definition notification :: "run_id \<Rightarrow> 'j run_store \<Rightarrow> store_error + 'j run_store" where
  "notification rid s =
     (if st_poisoned s then Inl Synchronization
      else Inr (s\<lparr>st_notifications := (st_notifications s)(rid \<mapsto>
        (case st_notifications s rid of None \<Rightarrow> 0 | Some g \<Rightarrow> g))\<rparr>))"

definition wait_for_revision ::
  "bool \<Rightarrow> run_id \<Rightarrow> u64 \<Rightarrow> (store_error + run_record) \<Rightarrow> ((store_error + run_record) \<times> bool) list \<Rightarrow>
   'j run_store \<Rightarrow> (store_error + run_wait_result) option \<times> 'j run_store" where
  "wait_for_revision deadline_ok rid after_revision final rounds s =
     (case notification rid s of
        Inl e \<Rightarrow> (Some (Inl e), s)
      | Inr s' \<Rightarrow> if \<not> deadline_ok then (Some (Inl InvalidTimeout), s')
                else (wait_rounds after_revision None final rounds, s'))"

section \<open>Transitions\<close>

datatype failure_point = NoFailure | AfterRunUpdate | AfterEventInsert | AfterOutboxInsert

definition injected_failure :: "failure_point \<Rightarrow> failure_point \<Rightarrow> store_error + unit" where
  "injected_failure actual expected = (if actual = expected then Inl InjectedFailure else Inr ())"

definition transition_fingerprint :: "'j codec \<Rightarrow> transition_request \<Rightarrow> str" where
  "transition_fingerprint J rq = cd_json_request J
     (tr_run_id rq, tr_expected_revision rq,
      map_option (\<lambda>f. (of_instance_id f, of_epoch f)) (tr_owner rq), tr_target rq,
      tr_wait_reason rq, tr_outcome rq, tr_event_type rq, tr_event rq, tr_progress rq)"

definition transition_row ::
  "'j codec \<Rightarrow> transition_request \<Rightarrow> run_record \<Rightarrow> i64 \<Rightarrow> i64 \<Rightarrow> 'j run_row \<Rightarrow> 'j run_row" where
  "transition_row J rq current now revision r = r\<lparr>
     r_lifecycle := lifecycle_text (tr_target rq),
     r_wait_reason_code := map_option (\<lambda>w. wait_code_text (wr_code w)) (tr_wait_reason rq),
     r_wait_reason_summary := map_option wr_summary (tr_wait_reason rq),
     r_outcome_json := map_option (cd_json_outcome J) (tr_outcome rq),
     r_started_at := (if tr_target rq = Running \<and> rr_started_at current = None then Some now
                      else rr_started_at current),
     r_updated_at := now,
     r_finished_at := (if is_terminal (tr_target rq) then Some now else None),
     r_last_progress_at := (if tr_progress rq then Some now else rr_last_progress_at current),
     r_revision := revision\<rparr>"

definition notify_parent_tx ::
  "'j codec \<Rightarrow> run_event_id \<Rightarrow> delivery_id \<Rightarrow> transition_request \<Rightarrow> run_record \<Rightarrow> u64 \<Rightarrow> i64 \<Rightarrow> 'j run_db \<Rightarrow>
   store_error + 'j run_db" where
  "notify_parent_tx J eid did rq current revision now db =
     (if should_notify_parent (tr_target rq)
      then insert_outbox_if_parent J did current eid revision (tr_target rq) (tr_wait_reason rq) now db
      else Inr db)"

definition transition_tx ::
  "'j codec \<Rightarrow> str \<Rightarrow> i64 \<Rightarrow> run_event_id \<Rightarrow> delivery_id \<Rightarrow> failure_point \<Rightarrow> transition_request \<Rightarrow> 'j run_db \<Rightarrow>
   store_error + (run_record \<times> bool) \<times> 'j run_db" where
  "transition_tx J pk now eid did failure rq db =
     bindR (idempotent_result J db pk (tr_operation_id rq) (transition_fingerprint J rq)) (\<lambda>replay.
     case replay of
       Some record \<Rightarrow> Inr ((record, False), db)
     | None \<Rightarrow>
         bindR (require_run J db pk (tr_run_id rq)) (\<lambda>current.
         bindR (verify_revision_and_owner current (tr_expected_revision rq) (tr_owner rq)) (\<lambda>_.
         bindR (map_err DomainE (validate_transition (rr_lifecycle current) (tr_target rq)
                  (tr_wait_reason rq) (tr_outcome rq) (tr_event rq))) (\<lambda>_.
         bindR (ok_or (RevisionOverflow (tr_run_id rq)) (checked_add_u64 (rr_revision current) 1)) (\<lambda>revision.
         bindR (u64_to_i64 revision) (\<lambda>rev'.
         bindR (u64_to_i64 (tr_expected_revision rq)) (\<lambda>expected.
         bindR (database_err (sql_update_runs
                  (\<lambda>r. r_run_id r = cd_id_text J (tr_run_id rq) \<and> r_revision r = expected)
                  (transition_row J rq current now rev') db)) (\<lambda>(changed, db1).
         if changed \<noteq> 1
         then Inl (RevisionConflict (tr_run_id rq) (tr_expected_revision rq) (rr_revision current))
         else
         bindR (injected_failure failure AfterRunUpdate) (\<lambda>_.
         bindR (insert_event J eid (tr_run_id rq) revision (tr_event_type rq) (tr_event rq)
                  (tr_operation_id rq) (transition_fingerprint J rq) now db1) (\<lambda>db2.
         bindR (injected_failure failure AfterEventInsert) (\<lambda>_.
         bindR (notify_parent_tx J eid did rq current revision now db2) (\<lambda>db3.
         bindR (injected_failure failure AfterOutboxInsert) (\<lambda>_.
         bindR (require_run J db3 pk (tr_run_id rq)) (\<lambda>record.
         Inr ((record, True), db3)))))))))))))))"

definition transition_with_failure ::
  "store_env \<Rightarrow> 'j codec \<Rightarrow> failure_point \<Rightarrow> transition_request \<Rightarrow> 'j run_store \<Rightarrow>
   (store_error + run_record) \<times> 'j run_store" where
  "transition_with_failure env J failure rq s =
     (if trim_is_empty (tr_operation_id rq) then (Inl InvalidOperationId, s)
      else case now_millis env of
        Inl e \<Rightarrow> (Inl e, s)
      | Inr now \<Rightarrow> finish_tx s (in_transaction env
          (transition_tx J (st_project_key s) now (env_event_id env) (env_delivery_id env) failure rq) (st_db s)))"

definition transition ::
  "store_env \<Rightarrow> 'j codec \<Rightarrow> transition_request \<Rightarrow> 'j run_store \<Rightarrow> (store_error + run_record) \<times> 'j run_store" where
  "transition env J rq s = transition_with_failure env J NoFailure rq s"

section \<open>Resuming and transferring ownership\<close>

definition owner_debug :: "'j codec \<Rightarrow> host_instance_id option \<Rightarrow> str" where
  "owner_debug J h = (case h of None \<Rightarrow> ''None''
     | Some u \<Rightarrow> ''Some(HostInstanceId('' @ cd_id_debug J u @ ''))'')"

definition resume_fingerprint :: "'j codec \<Rightarrow> resume_request \<Rightarrow> str" where
  "resume_fingerprint J rq = ''resume:'' @ cd_id_text J (rq_prior_run_id rq) @ '':'' @
     show_u64 (rq_expected_revision rq) @ '':'' @ owner_debug J (rq_owner_instance_id rq)"

definition resumed_run_row :: "'j codec \<Rightarrow> run_record \<Rightarrow> run_id \<Rightarrow> host_instance_id option \<Rightarrow> i64 \<Rightarrow> 'j run_row" where
  "resumed_run_row J prior rid owner now = \<lparr>r_run_id = cd_id_text J rid,
     r_chain_id = cd_id_text J (rr_chain_id prior),
     r_predecessor_run_id = Some (cd_id_text J (rr_run_id prior)),
     r_backend = backend_text (rr_backend prior), r_session_id = None, r_legacy_session_id = None,
     r_workflow_journal_id = rr_workflow_journal_id prior,
     r_parent_run_id = map_option (cd_id_text J) (rr_parent_run_id prior),
     r_parent_session_id = rr_parent_session_id prior, r_lifecycle = ''queued'',
     r_wait_reason_code = None, r_wait_reason_summary = None, r_outcome_json = None,
     r_capabilities_json = cd_json_caps J (rr_capabilities prior),
     r_owner_instance_id = map_option (cd_id_text J) owner,
     r_owner_epoch = map_option (\<lambda>_. 1) owner,
     r_created_at = now, r_queued_at = Some now, r_started_at = None, r_updated_at = now,
     r_finished_at = None, r_last_progress_at = None, r_revision = 1\<rparr>"

definition resume_run_tx ::
  "'j codec \<Rightarrow> str \<Rightarrow> i64 \<Rightarrow> run_event_id \<Rightarrow> run_id \<Rightarrow> resume_request \<Rightarrow> 'j run_db \<Rightarrow>
   store_error + (run_record \<times> bool) \<times> 'j run_db" where
  "resume_run_tx J pk now eid rid rq db =
     bindR (idempotent_result J db pk (rq_operation_id rq) (resume_fingerprint J rq)) (\<lambda>replay.
     case replay of
       Some record \<Rightarrow> Inr ((record, False), db)
     | None \<Rightarrow>
         bindR (require_run J db pk (rq_prior_run_id rq)) (\<lambda>prior.
         if rr_revision prior \<noteq> rq_expected_revision rq
         then Inl (RevisionConflict (rr_run_id prior) (rq_expected_revision rq) (rr_revision prior))
         else if \<not> is_terminal (rr_lifecycle prior)
         then Inl (ResumeRequiresTerminal (rr_lifecycle prior))
         else if \<not> cap_resume (rr_capabilities prior)
         then Inl (UnsupportedCapability ''resume'')
         else
         bindR (require_owner J db (rq_owner_instance_id rq)) (\<lambda>_.
         bindR (database_err (sql_insert_run
                  (resumed_run_row J prior rid (rq_owner_instance_id rq) now) db)) (\<lambda>db1.
         bindR (insert_event J eid rid 1 ''run_resumed''
                  \<lparr>ep_summary = Some ''Run resumed as a new attempt'',
                   ep_details = [(''predecessor_run_id'', cd_id_text J (rr_run_id prior))]\<rparr>
                  (rq_operation_id rq) (resume_fingerprint J rq) now db1) (\<lambda>db2.
         bindR (require_run J db2 pk rid) (\<lambda>resumed.
         Inr ((resumed, True), db2)))))))"

definition resume_run ::
  "store_env \<Rightarrow> 'j codec \<Rightarrow> resume_request \<Rightarrow> 'j run_store \<Rightarrow> (store_error + run_record) \<times> 'j run_store" where
  "resume_run env J rq s =
     (if trim_is_empty (rq_operation_id rq) then (Inl InvalidOperationId, s)
      else case now_millis env of
        Inl e \<Rightarrow> (Inl e, s)
      | Inr now \<Rightarrow> finish_tx s (in_transaction env
          (resume_run_tx J (st_project_key s) now (env_event_id env) (env_run_id env) rq) (st_db s)))"

definition owner_fingerprint ::
  "'j codec \<Rightarrow> run_id \<Rightarrow> u64 \<Rightarrow> owner_fence \<Rightarrow> host_instance_id \<Rightarrow> str" where
  "owner_fingerprint J rid expected prior new_owner =
     ''owner:'' @ cd_id_text J rid @ '':'' @ show_u64 expected @ '':'' @
     cd_id_text J (of_instance_id prior) @ '':'' @ show_u64 (of_epoch prior) @ '':'' @ cd_id_text J new_owner"

definition owner_row :: "'j codec \<Rightarrow> host_instance_id \<Rightarrow> i64 \<Rightarrow> i64 \<Rightarrow> i64 \<Rightarrow> 'j run_row \<Rightarrow> 'j run_row" where
  "owner_row J new_owner epoch revision now r = r\<lparr>r_owner_instance_id := Some (cd_id_text J new_owner),
     r_owner_epoch := Some epoch, r_revision := revision, r_updated_at := now\<rparr>"

definition transfer_owner_tx ::
  "'j codec \<Rightarrow> str \<Rightarrow> i64 \<Rightarrow> run_event_id \<Rightarrow> run_id \<Rightarrow> u64 \<Rightarrow> owner_fence \<Rightarrow> host_instance_id \<Rightarrow> str \<Rightarrow> 'j run_db \<Rightarrow>
   store_error + (run_record \<times> bool) \<times> 'j run_db" where
  "transfer_owner_tx J pk now eid rid expected_revision prior_owner new_owner operation_id db =
     bindR (idempotent_result J db pk operation_id
              (owner_fingerprint J rid expected_revision prior_owner new_owner)) (\<lambda>replay.
     case replay of
       Some record \<Rightarrow> Inr ((record, False), db)
     | None \<Rightarrow>
         bindR (require_live_host J db new_owner) (\<lambda>_.
         bindR (require_run J db pk rid) (\<lambda>current.
         bindR (verify_revision_and_owner current expected_revision (Some prior_owner)) (\<lambda>_.
         if is_terminal (rr_lifecycle current)
         then Inl (TerminalOwnerTransfer (rr_lifecycle current))
         else
         bindR (ok_or (RevisionOverflow rid) (checked_add_u64 (rr_revision current) 1)) (\<lambda>revision.
         bindR (ok_or (OwnerEpochOverflow rid) (checked_add_u64 (of_epoch prior_owner) 1)) (\<lambda>epoch.
         bindR (u64_to_i64 epoch) (\<lambda>epoch'.
         bindR (u64_to_i64 revision) (\<lambda>rev'.
         bindR (u64_to_i64 expected_revision) (\<lambda>expected.
         bindR (u64_to_i64 (of_epoch prior_owner)) (\<lambda>prior_epoch.
         bindR (database_err (sql_update_runs
                  (\<lambda>r. r_run_id r = cd_id_text J rid \<and> r_revision r = expected
                       \<and> r_owner_instance_id r = Some (cd_id_text J (of_instance_id prior_owner))
                       \<and> r_owner_epoch r = Some prior_epoch)
                  (owner_row J new_owner epoch' rev' now) db)) (\<lambda>(_, db1).
         bindR (insert_event J eid rid revision ''owner_transferred''
                  \<lparr>ep_summary = Some ''Run ownership transferred'',
                   ep_details = [(''owner_epoch'', show_u64 epoch)]\<rparr>
                  operation_id (owner_fingerprint J rid expected_revision prior_owner new_owner) now db1) (\<lambda>db2.
         bindR (require_run J db2 pk rid) (\<lambda>record.
         Inr ((record, True), db2))))))))))))))"

definition transfer_owner ::
  "store_env \<Rightarrow> 'j codec \<Rightarrow> run_id \<Rightarrow> u64 \<Rightarrow> owner_fence \<Rightarrow> host_instance_id \<Rightarrow> str \<Rightarrow> 'j run_store \<Rightarrow>
   (store_error + run_record) \<times> 'j run_store" where
  "transfer_owner env J rid expected_revision prior_owner new_owner operation_id s =
     (if trim_is_empty operation_id then (Inl InvalidOperationId, s)
      else case now_millis env of
        Inl e \<Rightarrow> (Inl e, s)
      | Inr now \<Rightarrow> finish_tx s (in_transaction env
          (transfer_owner_tx J (st_project_key s) now (env_event_id env) rid expected_revision
             prior_owner new_owner operation_id) (st_db s)))"

end
