(* ===== verification/Run_Maintenance.thy ===== *)
theory Run_Maintenance
  imports Run_Store
begin

text \<open>
  The rest of \<open>crates/n00n-runs/src/store.rs\<close>: host registration and heartbeats, reconciliation of
  runs whose owner is gone, import of legacy session metadata, retention, and the parent outbox.
  Operations that access the database more than once take one environment per access, and
  \<open>others n\<close> for what other processes commit before the \<open>n\<close>-th access.
\<close>

section \<open>Hosts\<close>

definition plain_statement ::
  "store_env \<Rightarrow> ('j run_db \<Rightarrow> store_error + 'a \<times> 'j run_db) \<Rightarrow> 'j run_store \<Rightarrow> (store_error + 'a) \<times> 'j run_store" where
  "plain_statement env body s =
     (case bindR (connection env) (\<lambda>_. body (st_db s)) of
        Inl e \<Rightarrow> (Inl e, s)
      | Inr (x, db') \<Rightarrow> (Inr x, s\<lparr>st_db := db'\<rparr>))"

definition register_host ::
  "store_env \<Rightarrow> store_env \<Rightarrow> 'j codec \<Rightarrow> process_identity \<Rightarrow> 'j run_store \<Rightarrow> (store_error + host_instance) \<times> 'j run_store" where
  "register_host env env2 J identity s =
     (case bindR (now_millis env) (\<lambda>started. bindR (now_millis env2) (\<lambda>beat. Inr (started, beat))) of
        Inl e \<Rightarrow> (Inl e, s)
      | Inr (started, beat) \<Rightarrow>
          plain_statement env (\<lambda>db.
            bindR (database_err (sql_insert_host \<lparr>h_instance_id = cd_id_text J (env_host_id env),
                h_process_identity_json = cd_json_identity J identity, h_started_at = started,
                h_heartbeat_at = beat, h_shutdown_at = None\<rparr> db)) (\<lambda>db'.
            Inr (\<lparr>hi_instance_id = env_host_id env, hi_process_identity = identity, hi_started_at = started,
                hi_heartbeat_at = beat, hi_shutdown_at = None\<rparr>, db'))) s)"

definition heartbeat_host ::
  "store_env \<Rightarrow> 'j codec \<Rightarrow> host_instance_id \<Rightarrow> 'j run_store \<Rightarrow> (store_error + i64) \<times> 'j run_store" where
  "heartbeat_host env J iid s =
     (case now_millis env of
        Inl e \<Rightarrow> (Inl e, s)
      | Inr now \<Rightarrow> plain_statement env (\<lambda>db.
          (case sql_update_hosts (\<lambda>h. h_instance_id h = cd_id_text J iid \<and> h_shutdown_at h = None)
                  (\<lambda>h. h\<lparr>h_heartbeat_at := now\<rparr>) db of
             (changed, db') \<Rightarrow>
               if changed = 1 then Inr (now, db')
               else if \<exists>h \<in> set (t_hosts db'). h_instance_id h = cd_id_text J iid
               then Inl (HostShutDown iid) else Inl (HostNotFound iid))) s)"

definition shutdown_host ::
  "store_env \<Rightarrow> 'j codec \<Rightarrow> host_instance_id \<Rightarrow> 'j run_store \<Rightarrow> (store_error + unit) \<times> 'j run_store" where
  "shutdown_host env J iid s =
     (case now_millis env of
        Inl e \<Rightarrow> (Inl e, s)
      | Inr now \<Rightarrow> plain_statement env (\<lambda>db.
          (case sql_update_hosts (\<lambda>h. h_instance_id h = cd_id_text J iid \<and> h_shutdown_at h = None)
                  (\<lambda>h. h\<lparr>h_shutdown_at := Some now\<rparr>) db of
             (changed, db') \<Rightarrow> if changed = 1 then Inr ((), db') else Inl (HostNotFound iid))) s)"

section \<open>Reconciliation of stale owners\<close>

definition decode_host :: "'j codec \<Rightarrow> 'j host_row \<Rightarrow> store_error + host_instance" where
  "decode_host J h =
     bindR (parse_id J (h_instance_id h) ''host instance id'') (\<lambda>iid.
     bindR (parse_json (cd_parse_identity J) (h_process_identity_json h) ''process identity'') (\<lambda>ident.
     Inr \<lparr>hi_instance_id = iid, hi_process_identity = ident, hi_started_at = h_started_at h,
          hi_heartbeat_at = h_heartbeat_at h, hi_shutdown_at = h_shutdown_at h\<rparr>))"

definition stale_hosts ::
  "store_env \<Rightarrow> 'j codec \<Rightarrow> reconcile_policy \<Rightarrow> 'j run_store \<Rightarrow> store_error + host_instance list" where
  "stale_hosts env J policy s =
     (let db = st_db s; pk = st_project_key s in
      bindR (connection env) (\<lambda>_.
      collectR (decode_host J)
        (take (rp_max_hosts policy) (order_by (\<lambda>a b. h_heartbeat_at a \<le> h_heartbeat_at b)
          (filter (\<lambda>h. (\<exists>r \<in> set (t_runs db). r_owner_instance_id r = Some (h_instance_id h)
                          \<and> run_in_project db pk r \<and> r_lifecycle r \<in> set ACTIVE_LIFECYCLES_SQL)
                     \<and> (h_shutdown_at h \<noteq> None \<or> h_heartbeat_at h < rp_stale_before policy))
             (t_hosts db))))))"

definition active_runs_for_owner ::
  "store_env \<Rightarrow> 'j codec \<Rightarrow> host_instance_id \<Rightarrow> 'j run_store \<Rightarrow> store_error + run_record list" where
  "active_runs_for_owner env J owner s =
     bindR (connection env) (\<lambda>_.
     collectR (decode_run J)
       (take MAX_RECONCILE_RUNS_PER_HOST (order_by (\<lambda>a b. r_updated_at a \<le> r_updated_at b)
         (filter (\<lambda>r. run_in_project (st_db s) (st_project_key s) r
                    \<and> r_owner_instance_id r = Some (cd_id_text J owner)
                    \<and> r_lifecycle r \<in> set ACTIVE_LIFECYCLES_SQL) (t_runs (st_db s))))))"

definition reconcile_request :: "'j codec \<Rightarrow> host_instance \<Rightarrow> run_record \<Rightarrow> u64 \<Rightarrow> transition_request" where
  "reconcile_request J host run epoch = \<lparr>tr_run_id = rr_run_id run, tr_expected_revision = rr_revision run,
     tr_owner = Some \<lparr>of_instance_id = hi_instance_id host, of_epoch = epoch\<rparr>,
     tr_target = Interrupted, tr_wait_reason = None,
     tr_outcome = Some (outcome_of_status OInterrupted), tr_event_type = ''owner_gone'',
     tr_event = \<lparr>ep_summary = Some ''Run interrupted because its verified owner exited'', ep_details = []\<rparr>,
     tr_operation_id = ''reconcile:'' @ cd_id_text J (rr_run_id run) @ '':'' @
        cd_id_text J (hi_instance_id host) @ '':'' @ show_u64 epoch,
     tr_progress = False\<rparr>"

text \<open>The transition errors that mean another process was first.\<close>

fun tolerated :: "store_error \<Rightarrow> bool" where
  "tolerated (RevisionConflict _ _ _) = True"
| "tolerated (OwnershipFence _ _ _) = True"
| "tolerated (DomainE (InvalidTransition _ _)) = True"
| "tolerated (NotFound _) = True"
| "tolerated _ = False"

definition interfere :: "(nat \<Rightarrow> 'j run_db \<Rightarrow> 'j run_db) \<Rightarrow> nat \<Rightarrow> 'j run_store \<Rightarrow> 'j run_store" where
  "interfere others n s = s\<lparr>st_db := others n (st_db s)\<rparr>"

fun reconcile_runs ::
  "(nat \<Rightarrow> store_env) \<Rightarrow> (nat \<Rightarrow> 'j run_db \<Rightarrow> 'j run_db) \<Rightarrow> 'j codec \<Rightarrow> host_instance \<Rightarrow> run_record list \<Rightarrow>
   nat \<Rightarrow> reconcile_report \<Rightarrow> 'j run_store \<Rightarrow> (store_error + reconcile_report \<times> nat) \<times> 'j run_store" where
  "reconcile_runs envs others J host [] n report s = (Inr (report, n), s)"
| "reconcile_runs envs others J host (run # runs) n report s =
     (case rr_owner_epoch run of
        None \<Rightarrow> (Inl (CorruptData ''owned run has no owner epoch''), s)
      | Some epoch \<Rightarrow>
          (case transition (envs n) J (reconcile_request J host run epoch) (interfere others n s) of
             (Inr _, s') \<Rightarrow> reconcile_runs envs others J host runs (Suc n)
                 (report\<lparr>rc_interrupted := rc_interrupted report @ [rr_run_id run]\<rparr>) s'
           | (Inl e, s') \<Rightarrow>
               if tolerated e then reconcile_runs envs others J host runs (Suc n) report s'
               else (Inl e, s')))"

fun reconcile_hosts ::
  "(nat \<Rightarrow> store_env) \<Rightarrow> (nat \<Rightarrow> 'j run_db \<Rightarrow> 'j run_db) \<Rightarrow> 'j codec \<Rightarrow> (host_instance \<Rightarrow> host_liveness) \<Rightarrow>
   host_instance list \<Rightarrow> nat \<Rightarrow> reconcile_report \<Rightarrow> 'j run_store \<Rightarrow> (store_error + reconcile_report) \<times> 'j run_store" where
  "reconcile_hosts envs others J verify [] n report s = (Inr report, s)"
| "reconcile_hosts envs others J verify (host # hosts) n report s =
     (case (if hi_shutdown_at host \<noteq> None then HostGone else verify host) of
        HostLive \<Rightarrow> reconcile_hosts envs others J verify hosts n
          (report\<lparr>rc_live_owners := rc_live_owners report + 1\<rparr>) s
      | HostUnknown \<Rightarrow> reconcile_hosts envs others J verify hosts n
          (report\<lparr>rc_unverified_owners := rc_unverified_owners report + 1\<rparr>) s
      | HostGone \<Rightarrow>
          (let s0 = interfere others n s in
           case active_runs_for_owner (envs n) J (hi_instance_id host) s0 of
             Inl e \<Rightarrow> (Inl e, s0)
           | Inr runs \<Rightarrow>
               (case reconcile_runs envs others J host runs (Suc n) report s0 of
                  (Inl e, s') \<Rightarrow> (Inl e, s')
                | (Inr (report', n'), s') \<Rightarrow> reconcile_hosts envs others J verify hosts n' report' s')))"

definition empty_report :: reconcile_report where
  "empty_report = \<lparr>rc_interrupted = [], rc_live_owners = 0, rc_unverified_owners = 0\<rparr>"

definition reconcile_stale ::
  "(nat \<Rightarrow> store_env) \<Rightarrow> (nat \<Rightarrow> 'j run_db \<Rightarrow> 'j run_db) \<Rightarrow> 'j codec \<Rightarrow> (host_instance \<Rightarrow> host_liveness) \<Rightarrow>
   reconcile_policy \<Rightarrow> 'j run_store \<Rightarrow> (store_error + reconcile_report) \<times> 'j run_store" where
  "reconcile_stale envs others J verify policy s =
     (case bindR (valid_limit (rp_max_hosts policy)) (\<lambda>_. stale_hosts (envs 0) J policy s) of
        Inl e \<Rightarrow> (Inl e, s)
      | Inr hosts \<Rightarrow> reconcile_hosts envs others J verify hosts 1 empty_report s)"

section \<open>Legacy sessions\<close>

datatype stored_session_lifecycle =
    SQueued | SBootstrapping | SRunning | SWaitingInput | SPaused | SSucceeded | SFailed | SCancelled | SIdle

record legacy_session_metadata =
  lg_session_id :: str
  lg_cwd :: str
  lg_title :: str
  lg_parent_id :: str
  lg_root_session_id :: "str option"
  lg_lifecycle :: stored_session_lifecycle
  lg_workflow :: bool
  lg_created_at :: u64
  lg_updated_at :: u64

fun legacy_outcome :: "stored_session_lifecycle \<Rightarrow> run_lifecycle \<times> run_outcome" where
  "legacy_outcome SSucceeded = (Succeeded, outcome_of_status OSucceeded)"
| "legacy_outcome SFailed = (Failed, outcome_of_status OFailed)"
| "legacy_outcome SCancelled = (Cancelled, outcome_of_status OCancelled)"
| "legacy_outcome SIdle = (Interrupted, outcome_of_status OUnknown)"
| "legacy_outcome _ = (Interrupted, outcome_of_status OInterrupted)"

definition legacy_run_row ::
  "'j codec \<Rightarrow> legacy_session_metadata \<Rightarrow> run_id \<Rightarrow> run_chain_id \<Rightarrow> i64 \<Rightarrow> i64 \<Rightarrow> 'j run_row" where
  "legacy_run_row J lg rid cid created updated = \<lparr>r_run_id = cd_id_text J rid, r_chain_id = cd_id_text J cid,
     r_predecessor_run_id = None, r_backend = ''tui_session'', r_session_id = Some (lg_session_id lg),
     r_legacy_session_id = Some (lg_session_id lg), r_workflow_journal_id = None,
     r_parent_run_id = None, r_parent_session_id = Some (lg_parent_id lg),
     r_lifecycle = lifecycle_text (fst (legacy_outcome (lg_lifecycle lg))),
     r_wait_reason_code = None, r_wait_reason_summary = None,
     r_outcome_json = Some (cd_json_outcome J (snd (legacy_outcome (lg_lifecycle lg)))),
     r_capabilities_json = cd_json_caps J (default_capabilities\<lparr>cap_events := True, cap_logs := True\<rparr>),
     r_owner_instance_id = None, r_owner_epoch = None, r_created_at = created,
     r_queued_at = Some created, r_started_at = None, r_updated_at = updated,
     r_finished_at = Some updated, r_last_progress_at = None, r_revision = 1\<rparr>"

definition legacy_run_id :: "'j codec \<Rightarrow> str \<Rightarrow> legacy_session_metadata \<Rightarrow> run_id" where
  "legacy_run_id J pk lg = cd_uuid_v5 J (''run:'' @ pk @ '':'' @ lg_session_id lg)"

definition legacy_chain_id :: "'j codec \<Rightarrow> str \<Rightarrow> legacy_session_metadata \<Rightarrow> run_chain_id" where
  "legacy_chain_id J pk lg = cd_uuid_v5 J (''chain:'' @ pk @ '':'' @ lg_session_id lg)"

definition import_legacy_tx ::
  "'j codec \<Rightarrow> str \<Rightarrow> i64 \<Rightarrow> i64 \<Rightarrow> run_event_id \<Rightarrow> delivery_id \<Rightarrow> legacy_session_metadata \<Rightarrow> 'j run_db \<Rightarrow>
   store_error + (run_record \<times> bool) \<times> 'j run_db" where
  "import_legacy_tx J pk created updated eid did lg db =
     (let rid = legacy_run_id J pk lg; cid = legacy_chain_id J pk lg;
          lifecycle = fst (legacy_outcome (lg_lifecycle lg)) in
      bindR (query_run J db pk rid) (\<lambda>existing.
      case existing of
        Some record \<Rightarrow> Inr ((record, False), db)
      | None \<Rightarrow>
          bindR (database_err (sql_insert_chain \<lparr>c_chain_id = cd_id_text J cid, c_project_key = pk,
              c_kind = run_kind_text (if lg_workflow lg then KWorkflow else KTask),
              c_created_at = created, c_root_session_id = lg_root_session_id lg, c_title = lg_title lg\<rparr> db)) (\<lambda>db1.
          bindR (database_err (sql_insert_run (legacy_run_row J lg rid cid created updated) db1)) (\<lambda>db2.
          bindR (insert_event J eid rid 1 ''legacy_imported''
              \<lparr>ep_summary = Some ''Imported legacy child session metadata'',
               ep_details = [(''legacy_session_id'', lg_session_id lg)]\<rparr>
              (''legacy:'' @ cd_id_text J rid)
              (''legacy:'' @ cd_id_text J cid @ '':'' @ cd_id_text J rid) updated db2) (\<lambda>db3.
          bindR (if should_notify_parent lifecycle then
                   bindR (require_run J db3 pk rid) (\<lambda>record.
                   insert_outbox_if_parent J did record eid 1 lifecycle None updated db3)
                 else Inr db3) (\<lambda>db4.
          bindR (require_run J db4 pk rid) (\<lambda>record.
          Inr ((record, True), db4))))))))"

definition import_legacy_one ::
  "store_env \<Rightarrow> 'j codec \<Rightarrow> legacy_session_metadata \<Rightarrow> 'j run_store \<Rightarrow> (store_error + run_record) \<times> 'j run_store" where
  "import_legacy_one env J lg s =
     (if lg_cwd lg \<noteq> st_project_key s then (Inl LegacyProjectMismatch, s)
      else case bindR (u64_to_i64 (lg_created_at lg)) (\<lambda>created.
                bindR (u64_to_i64 (lg_updated_at lg)) (\<lambda>updated. Inr (created, updated))) of
        Inl e \<Rightarrow> (Inl e, s)
      | Inr (created, updated) \<Rightarrow> finish_tx s (in_transaction env
          (import_legacy_tx J (st_project_key s) created updated (env_event_id env)
             (env_delivery_id env) lg) (st_db s)))"

text \<open>The scan of the session files is the list it returns; the import stops at the first error.\<close>

fun import_legacy_sessions ::
  "(nat \<Rightarrow> store_env) \<Rightarrow> 'j codec \<Rightarrow> legacy_session_metadata list \<Rightarrow> 'j run_store \<Rightarrow>
   (store_error + run_record list) \<times> 'j run_store" where
  "import_legacy_sessions envs J [] s = (Inr [], s)"
| "import_legacy_sessions envs J (lg # lgs) s =
     (case import_legacy_one (envs 0) J lg s of
        (Inl e, s') \<Rightarrow> (Inl e, s')
      | (Inr record, s') \<Rightarrow>
          (case import_legacy_sessions (\<lambda>n. envs (Suc n)) J lgs s' of
             (Inl e, s'') \<Rightarrow> (Inl e, s'')
           | (Inr records, s'') \<Rightarrow> (Inr (record # records), s'')))"

section \<open>Retention\<close>

definition outbox_in_project :: "'j run_db \<Rightarrow> str \<Rightarrow> 'j outbox_row \<Rightarrow> bool" where
  "outbox_in_project db pk q \<longleftrightarrow>
     (\<exists>r \<in> set (t_runs db). r_run_id r = o_child_run_id q \<and> run_in_project db pk r)"

definition lt_null :: "i64 option \<Rightarrow> i64 \<Rightarrow> bool" where
  "lt_null v bound = (case v of None \<Rightarrow> False | Some t \<Rightarrow> t < bound)"

definition expired_outbox :: "str \<Rightarrow> retention_policy \<Rightarrow> 'j run_db \<Rightarrow> str list" where
  "expired_outbox pk policy db =
     map o_delivery_id (take (tp_max_rows policy) (order_by (\<lambda>a b. o_created_at a \<le> o_created_at b)
       (filter (\<lambda>q. outbox_in_project db pk q \<and> o_state q \<in> {''acknowledged'', ''dead_letter''}
                  \<and> o_created_at q < tp_finalized_outbox_before policy) (t_outbox db))))"

definition expired_runs :: "str \<Rightarrow> retention_policy \<Rightarrow> 'j run_db \<Rightarrow> str list" where
  "expired_runs pk policy db =
     map r_run_id (take (tp_max_rows policy)
       (order_by (\<lambda>a b. the (r_finished_at a) \<le> the (r_finished_at b))
       (filter (\<lambda>r. run_in_project db pk r \<and> r_lifecycle r \<in> set TERMINAL_LIFECYCLES_SQL
                  \<and> lt_null (r_finished_at r) (tp_terminal_before policy)
                  \<and> \<not> (\<exists>q \<in> set (t_outbox db). o_child_run_id q = r_run_id r)
                  \<and> \<not> (\<exists>c \<in> set (t_runs db). r_predecessor_run_id c = Some (r_run_id r)
                                            \<or> r_parent_run_id c = Some (r_run_id r))) (t_runs db))))"

definition empty_chains :: "str \<Rightarrow> retention_policy \<Rightarrow> 'j run_db \<Rightarrow> str list" where
  "empty_chains pk policy db =
     map c_chain_id (take (tp_max_rows policy)
       (filter (\<lambda>c. c_project_key c = pk \<and> \<not> (\<exists>r \<in> set (t_runs db). r_chain_id r = c_chain_id c)) (t_chains db)))"

definition unused_hosts :: "retention_policy \<Rightarrow> 'j run_db \<Rightarrow> str list" where
  "unused_hosts policy db =
     map h_instance_id (take (tp_max_rows policy)
       (filter (\<lambda>h. lt_null (h_shutdown_at h) (tp_shutdown_host_before policy)
                  \<and> \<not> (\<exists>r \<in> set (t_runs db). r_owner_instance_id r = Some (h_instance_id h))) (t_hosts db)))"

definition compact_tx :: "str \<Rightarrow> retention_policy \<Rightarrow> 'j run_db \<Rightarrow> store_error + retention_report \<times> 'j run_db" where
  "compact_tx pk policy db =
     bindR (usize_to_i64 (tp_max_rows policy)) (\<lambda>_.
     case sql_delete_outbox (expired_outbox pk policy db) db of (n_outbox, db1) \<Rightarrow>
     bindR (database_err (sql_delete_runs (expired_runs pk policy db1) db1)) (\<lambda>(n_runs, db2).
     bindR (database_err (sql_delete_chains (empty_chains pk policy db2) db2)) (\<lambda>(n_chains, db3).
     bindR (database_err (sql_delete_hosts (unused_hosts policy db3) db3)) (\<lambda>(n_hosts, db4).
     Inr (\<lparr>tt_outbox_rows = n_outbox, tt_runs = n_runs, tt_chains = n_chains, tt_hosts = n_hosts\<rparr>, db4)))))"

definition compact ::
  "store_env \<Rightarrow> retention_policy \<Rightarrow> 'j run_store \<Rightarrow> (store_error + retention_report) \<times> 'j run_store" where
  "compact env policy s =
     (case valid_limit (tp_max_rows policy) of
        Inl e \<Rightarrow> (Inl e, s)
      | Inr _ \<Rightarrow> (case in_transaction env (compact_tx (st_project_key s) policy) (st_db s) of
                    (res, db) \<Rightarrow> (res, s\<lparr>st_db := db\<rparr>)))"

section \<open>The parent outbox\<close>

definition decode_outbox :: "'j codec \<Rightarrow> 'j outbox_row \<Rightarrow> store_error + parent_outbox_record" where
  "decode_outbox J raw =
     bindR (parse_id J (o_delivery_id raw) ''delivery id'') (\<lambda>did.
     bindR (parse_id J (o_source_event_id raw) ''source event id'') (\<lambda>eid.
     bindR (parse_id J (o_child_run_id raw) ''child run id'') (\<lambda>rid.
     bindR (parse_json (cd_parse_payload J) (o_payload_json raw) ''outbox payload'') (\<lambda>payload.
     bindR (parse_enum parse_outbox_state (o_state raw) ''outbox state'') (\<lambda>st.
     bindR (if 0 \<le> o_attempt_count raw \<and> o_attempt_count raw < 2 ^ 32
            then Inr (word_of_int (o_attempt_count raw))
            else Inl (CorruptData ''invalid attempt count'')) (\<lambda>attempts.
     Inr \<lparr>po_delivery_id = did, po_source_event_id = eid, po_child_run_id = rid,
          po_parent_session_id = o_parent_session_id raw, po_payload = payload, po_state = st,
          po_attempt_count = attempts, po_next_attempt_at = o_next_attempt_at raw,
          po_created_at = o_created_at raw, po_delivered_at = o_delivered_at raw,
          po_acknowledged_at = o_acknowledged_at raw,
          po_dead_letter_reason = o_dead_letter_reason raw\<rparr>))))))"

definition due :: "i64 \<Rightarrow> 'j outbox_row \<Rightarrow> bool" where
  "due now q = (case o_next_attempt_at q of None \<Rightarrow> True | Some t \<Rightarrow> t \<le> now)"

definition pending_outbox ::
  "store_env \<Rightarrow> 'j codec \<Rightarrow> i64 \<Rightarrow> usize \<Rightarrow> 'j run_store \<Rightarrow> store_error + parent_outbox_record list" where
  "pending_outbox env J now limit s =
     bindR (valid_limit limit) (\<lambda>_.
     bindR (connection env) (\<lambda>_.
     collectR (decode_outbox J)
       (take limit (order_by (\<lambda>a b. o_created_at a \<le> o_created_at b)
         (filter (\<lambda>q. outbox_in_project (st_db s) (st_project_key s) q \<and> o_state q = ''pending'' \<and> due now q)
            (t_outbox (st_db s)))))))"

definition dispatch_order :: "'j outbox_row \<Rightarrow> 'j outbox_row \<Rightarrow> bool" where
  "dispatch_order a b \<longleftrightarrow>
     (let rank = (\<lambda>q. if o_state q = ''pending'' then 0 else 1 :: nat) in
      rank a < rank b \<or> rank a = rank b \<and> o_created_at a \<le> o_created_at b)"

definition dispatchable_outbox ::
  "store_env \<Rightarrow> 'j codec \<Rightarrow> i64 \<Rightarrow> usize \<Rightarrow> 'j run_store \<Rightarrow> store_error + parent_outbox_record list" where
  "dispatchable_outbox env J now limit s =
     bindR (valid_limit limit) (\<lambda>_.
     bindR (connection env) (\<lambda>_.
     collectR (decode_outbox J)
       (take limit (order_by dispatch_order
         (filter (\<lambda>q. outbox_in_project (st_db s) (st_project_key s) q
                    \<and> o_state q \<in> {''pending'', ''delivered''} \<and> due now q)
            (t_outbox (st_db s)))))))"

definition update_outbox ::
  "store_env \<Rightarrow> 'j codec \<Rightarrow> delivery_id \<Rightarrow> str set \<Rightarrow> ('j outbox_row \<Rightarrow> 'j outbox_row) \<Rightarrow> 'j run_store \<Rightarrow>
   (store_error + unit) \<times> 'j run_store" where
  "update_outbox env J did states f s =
     plain_statement env (\<lambda>db.
       bindR (database_err (sql_update_outbox
           (\<lambda>q. o_delivery_id q = cd_id_text J did \<and> o_state q \<in> states
              \<and> outbox_in_project db (st_project_key s) q) f db)) (\<lambda>(changed, db').
       if changed = 0 then Inl (OutboxNotFound did) else Inr ((), db'))) s"

definition coalesce :: "'a option \<Rightarrow> 'a \<Rightarrow> 'a option" where
  "coalesce v d = (case v of None \<Rightarrow> Some d | Some x \<Rightarrow> Some x)"

definition delivered_row :: "i64 \<Rightarrow> 'j outbox_row \<Rightarrow> 'j outbox_row" where
  "delivered_row at q = q\<lparr>o_state := ''delivered'',
     o_attempt_count := (if o_state q = ''pending'' then o_attempt_count q + 1 else o_attempt_count q),
     o_next_attempt_at := None, o_delivered_at := coalesce (o_delivered_at q) at\<rparr>"

definition mark_outbox_delivered ::
  "store_env \<Rightarrow> 'j codec \<Rightarrow> delivery_id \<Rightarrow> i64 \<Rightarrow> 'j run_store \<Rightarrow> (store_error + unit) \<times> 'j run_store" where
  "mark_outbox_delivered env J did at s =
     update_outbox env J did {''pending'', ''delivered''} (delivered_row at) s"

definition acknowledged_row :: "i64 \<Rightarrow> 'j outbox_row \<Rightarrow> 'j outbox_row" where
  "acknowledged_row at q = q\<lparr>o_state := ''acknowledged'', o_delivered_at := coalesce (o_delivered_at q) at,
     o_acknowledged_at := coalesce (o_acknowledged_at q) at, o_next_attempt_at := None\<rparr>"

definition acknowledge_outbox ::
  "store_env \<Rightarrow> 'j codec \<Rightarrow> delivery_id \<Rightarrow> i64 \<Rightarrow> 'j run_store \<Rightarrow> (store_error + unit) \<times> 'j run_store" where
  "acknowledge_outbox env J did at s =
     update_outbox env J did {''pending'', ''delivered'', ''acknowledged''} (acknowledged_row at) s"

definition retried_row :: "i64 \<Rightarrow> 'j outbox_row \<Rightarrow> 'j outbox_row" where
  "retried_row next_at q = q\<lparr>o_attempt_count := o_attempt_count q + 1, o_next_attempt_at := Some next_at\<rparr>"

definition retry_outbox ::
  "store_env \<Rightarrow> 'j codec \<Rightarrow> delivery_id \<Rightarrow> i64 \<Rightarrow> 'j run_store \<Rightarrow> (store_error + unit) \<times> 'j run_store" where
  "retry_outbox env J did next_at s =
     update_outbox env J did {''pending'', ''delivered''} (retried_row next_at) s"

definition dead_letter_row :: "str \<Rightarrow> 'j outbox_row \<Rightarrow> 'j outbox_row" where
  "dead_letter_row reason q = q\<lparr>o_state := ''dead_letter'', o_attempt_count := o_attempt_count q + 1,
     o_next_attempt_at := None, o_dead_letter_reason := Some reason\<rparr>"

definition dead_letter_outbox ::
  "store_env \<Rightarrow> 'j codec \<Rightarrow> delivery_id \<Rightarrow> str \<Rightarrow> i64 \<Rightarrow> 'j run_store \<Rightarrow> (store_error + unit) \<times> 'j run_store" where
  "dead_letter_outbox env J did reason failed_at s =
     (if MAX_SUMMARY_BYTES < length reason
      then (Inl (DomainE (TextTooLong ''dead-letter reason'' MAX_SUMMARY_BYTES)), s)
      else update_outbox env J did {''pending'', ''delivered'', ''dead_letter''} (dead_letter_row reason) s)"

end
