(* ===== verification/Run_Invariant.thy ===== *)
theory Run_Invariant
  imports Run_Maintenance
begin

text \<open>
  The invariant of the run database and that every operation of the store keeps it. \<open>encode_run\<close> is
  the row that stores a record; the invariant says that the keys are unique, the references resolve,
  every run row stores a well-formed record, and the event log of a run has exactly the revisions
  from 1 to the run's own.
\<close>

section \<open>Rows as encodings of records\<close>

definition encode_run :: "'j codec \<Rightarrow> run_record \<Rightarrow> 'j run_row" where
  "encode_run J rec = \<lparr>r_run_id = cd_id_text J (rr_run_id rec), r_chain_id = cd_id_text J (rr_chain_id rec),
     r_predecessor_run_id = map_option (cd_id_text J) (rr_predecessor_run_id rec),
     r_backend = backend_text (rr_backend rec), r_session_id = rr_session_id rec,
     r_legacy_session_id = rr_legacy_session_id rec, r_workflow_journal_id = rr_workflow_journal_id rec,
     r_parent_run_id = map_option (cd_id_text J) (rr_parent_run_id rec),
     r_parent_session_id = rr_parent_session_id rec, r_lifecycle = lifecycle_text (rr_lifecycle rec),
     r_wait_reason_code = map_option (\<lambda>w. wait_code_text (wr_code w)) (rr_wait_reason rec),
     r_wait_reason_summary = map_option wr_summary (rr_wait_reason rec),
     r_outcome_json = map_option (cd_json_outcome J) (rr_outcome rec),
     r_capabilities_json = cd_json_caps J (rr_capabilities rec),
     r_owner_instance_id = map_option (cd_id_text J) (rr_owner_instance_id rec),
     r_owner_epoch = map_option uint (rr_owner_epoch rec), r_created_at = rr_created_at rec,
     r_queued_at = rr_queued_at rec, r_started_at = rr_started_at rec, r_updated_at = rr_updated_at rec,
     r_finished_at = rr_finished_at rec, r_last_progress_at = rr_last_progress_at rec,
     r_revision = uint (rr_revision rec)\<rparr>"

lemma i64_to_u64_uint [simp]: "i64_to_u64 (uint w) fld = Inr w"
  by (simp add: i64_to_u64_def)

lemma u64_to_i64_Inr: "u64_to_i64 w = Inr i \<Longrightarrow> i = uint w \<and> uint w \<le> i64_max"
  by (auto simp: u64_to_i64_def split: if_splits)

lemma codec_ok_simps:
  assumes "codec_ok J"
  shows "cd_parse_id J (cd_id_text J u) = Some u"
    and "length (cd_id_text J u) \<le> 36"
    and "cd_parse_caps J (cd_json_caps J caps) = Some caps"
    and "cd_parse_outcome J (cd_json_outcome J oc) = Some oc"
    and "cd_parse_payload J (cd_json_payload J payload) = Some payload"
    and "cd_parse_identity J (cd_json_identity J ident) = Some ident"
  using assms by (auto simp: codec_ok_def)

lemma id_text_inject [simp]: "codec_ok J \<Longrightarrow> cd_id_text J a = cd_id_text J b \<longleftrightarrow> a = b"
  by (metis codec_ok_simps(1) option.inject)

lemma parse_id_text [simp]: "codec_ok J \<Longrightarrow> parse_id J (cd_id_text J u) fld = Inr u"
  by (simp add: parse_id_def codec_ok_simps)

lemma decode_wait_reason_encode [simp]:
  "decode_wait_reason (map_option (\<lambda>w. wait_code_text (wr_code w)) w) (map_option wr_summary w) = Inr w"
  by (cases w) (simp_all add: decode_wait_reason_def parse_enum_def)

lemma transposeR_map_option:
  "(\<And>x. f (g x) = Inr x) \<Longrightarrow> transposeR f (map_option g v) = Inr v"
  by (cases v) simp_all

text \<open>Decoding the row of a record gives the record back.\<close>

lemma decode_encode_run:
  assumes "codec_ok J"
  shows "decode_run J (encode_run J rec) = Inr rec"
  using assms
  by (simp add: decode_run_def encode_run_def transposeR_map_option parse_enum_def parse_json_def
      codec_ok_simps)

lemma encode_run_inject: "codec_ok J \<Longrightarrow> encode_run J a = encode_run J b \<longleftrightarrow> a = b"
  by (metis decode_encode_run sum.inject(2))

section \<open>The invariant\<close>

definition outcome_ok :: "run_lifecycle \<Rightarrow> run_outcome option \<Rightarrow> bool" where
  "outcome_ok lc oc = (case oc of None \<Rightarrow> \<not> is_terminal lc
     | Some oc' \<Rightarrow> is_terminal lc \<and> outcome_matches lc (oc_status oc'))"

definition record_ok :: "run_record \<Rightarrow> bool" where
  "record_ok rec \<longleftrightarrow>
     (rr_wait_reason rec \<noteq> None) = (rr_lifecycle rec \<in> {WaitingInput, Blocked})
   \<and> outcome_ok (rr_lifecycle rec) (rr_outcome rec)
   \<and> (rr_finished_at rec \<noteq> None) = is_terminal (rr_lifecycle rec)
   \<and> (rr_owner_instance_id rec = None) = (rr_owner_epoch rec = None)
   \<and> 0 < uint (rr_revision rec) \<and> uint (rr_revision rec) \<le> i64_max"

definition event_revs :: "'j run_db \<Rightarrow> str \<Rightarrow> int set" where
  "event_revs db k = {e_revision e | e. e \<in> set (t_events db) \<and> e_run_id e = k}"

definition rows_ok :: "'j codec \<Rightarrow> 'j run_db \<Rightarrow> bool" where
  "rows_ok J db \<longleftrightarrow> (\<forall>r \<in> set (t_runs db). \<exists>rec. r = encode_run J rec \<and> record_ok rec)"

definition keys_ok :: "'j run_db \<Rightarrow> bool" where
  "keys_ok db \<longleftrightarrow> distinct (map c_chain_id (t_chains db)) \<and> distinct (map h_instance_id (t_hosts db))
   \<and> distinct (map r_run_id (t_runs db)) \<and> distinct (map e_event_id (t_events db))
   \<and> distinct (map (\<lambda>e. (e_run_id e, e_revision e)) (t_events db))
   \<and> distinct (map (\<lambda>e. (e_run_id e, e_operation_id e)) (t_events db))
   \<and> distinct (map o_delivery_id (t_outbox db)) \<and> distinct (map o_source_event_id (t_outbox db))"

definition refs_ok :: "'j run_db \<Rightarrow> bool" where
  "refs_ok db \<longleftrightarrow>
     (\<forall>r \<in> set (t_runs db). fk_ok c_chain_id (t_chains db) (Some (r_chain_id r))
        \<and> fk_ok r_run_id (t_runs db) (r_predecessor_run_id r)
        \<and> fk_ok r_run_id (t_runs db) (r_parent_run_id r)
        \<and> fk_ok h_instance_id (t_hosts db) (r_owner_instance_id r))
   \<and> (\<forall>e \<in> set (t_events db). e_run_id e \<in> set (map r_run_id (t_runs db)))
   \<and> (\<forall>q \<in> set (t_outbox db). o_child_run_id q \<in> set (map r_run_id (t_runs db))
        \<and> (\<exists>e \<in> set (t_events db). e_event_id e = o_source_event_id q \<and> e_run_id e = o_child_run_id q))"

definition log_ok :: "'j run_db \<Rightarrow> bool" where
  "log_ok db \<longleftrightarrow> (\<forall>r \<in> set (t_runs db). event_revs db (r_run_id r) = {1..r_revision r})"

definition outbox_ok :: "'j codec \<Rightarrow> 'j run_db \<Rightarrow> bool" where
  "outbox_ok J db \<longleftrightarrow> (\<forall>q \<in> set (t_outbox db). outbox_checks_ok q \<and> (\<exists>u. o_delivery_id q = cd_id_text J u))"

definition db_inv :: "'j codec \<Rightarrow> 'j run_db \<Rightarrow> bool" where
  "db_inv J db \<longleftrightarrow> rows_ok J db \<and> keys_ok db \<and> refs_ok db \<and> log_ok db \<and> outbox_ok J db"

lemma db_inv_empty [simp]: "db_inv J empty_db"
  by (simp add: db_inv_def rows_ok_def keys_ok_def refs_ok_def log_ok_def outbox_ok_def empty_db_def)

text \<open>Reading a run of the project is finding its record.\<close>

lemma query_run_Some:
  assumes "codec_ok J" "rows_ok J db" "query_run J db pk rid = Inr (Some rec)"
  shows "encode_run J rec \<in> set (t_runs db)" and "rr_run_id rec = rid"
    and "run_in_project db pk (encode_run J rec)" and "record_ok rec"
proof -
  obtain r where r: "r \<in> set (t_runs db)" "r_run_id r = cd_id_text J rid" "run_in_project db pk r"
    and dec: "decode_run J r = Inr rec"
    using assms(3) by (auto simp: query_run_def transposeR_eq_Some dest: find_SomeD)
  from r(1) assms(2) obtain rec' where rec': "r = encode_run J rec'" "record_ok rec'"
    by (auto simp: rows_ok_def)
  with dec have eq: "rec' = rec" by (simp add: decode_encode_run [OF assms(1)])
  show "encode_run J rec \<in> set (t_runs db)" "run_in_project db pk (encode_run J rec)" "record_ok rec"
    using r rec' eq by simp_all
  show "rr_run_id rec = rid"
    using r(2) rec'(1) eq assms(1) by (simp add: encode_run_def)
qed

lemma query_run_found:
  assumes "codec_ok J" "keys_ok db" "encode_run J rec \<in> set (t_runs db)"
    and "run_in_project db pk (encode_run J rec)"
  shows "query_run J db pk (rr_run_id rec) = Inr (Some rec)"
proof -
  have "find (\<lambda>r. r_run_id r = cd_id_text J (rr_run_id rec) \<and> run_in_project db pk r) (t_runs db)
      = Some (encode_run J rec)"
  proof (cases "find (\<lambda>r. r_run_id r = cd_id_text J (rr_run_id rec) \<and> run_in_project db pk r) (t_runs db)")
    case None
    from find_NoneD [OF None assms(3)] assms(4) show ?thesis by (simp add: encode_run_def)
  next
    case (Some r)
    then have "r \<in> set (t_runs db)" "r_run_id r = r_run_id (encode_run J rec)"
      by (auto dest!: find_SomeD simp: encode_run_def)
    with assms(2,3) have "r = encode_run J rec"
      by (auto simp: keys_ok_def intro: distinct_key_unique)
    with Some show ?thesis by simp
  qed
  then show ?thesis by (simp add: query_run_def decode_encode_run [OF assms(1)])
qed

lemma require_run_Inr: "require_run J db pk rid = Inr rec \<longleftrightarrow> query_run J db pk rid = Inr (Some rec)"
  by (auto simp: require_run_def result_simps)

section \<open>Statements and the invariant\<close>

lemma sql_insert_event_Inr:
  "sql_insert_event e db = Inr db' \<longleftrightarrow>
     e_event_id e \<notin> set (map e_event_id (t_events db))
   \<and> (e_run_id e, e_revision e) \<notin> set (map (\<lambda>x. (e_run_id x, e_revision x)) (t_events db))
   \<and> (e_run_id e, e_operation_id e) \<notin> set (map (\<lambda>x. (e_run_id x, e_operation_id x)) (t_events db))
   \<and> e_run_id e \<in> set (map r_run_id (t_runs db))
   \<and> db' = db\<lparr>t_events := t_events db @ [e]\<rparr>"
  by (auto simp: sql_insert_event_def)

lemma sql_insert_outbox_Inr:
  "sql_insert_outbox q db = Inr db' \<longleftrightarrow>
     o_delivery_id q \<notin> set (map o_delivery_id (t_outbox db))
   \<and> o_source_event_id q \<notin> set (map o_source_event_id (t_outbox db))
   \<and> outbox_checks_ok q
   \<and> o_source_event_id q \<in> set (map e_event_id (t_events db))
   \<and> o_child_run_id q \<in> set (map r_run_id (t_runs db))
   \<and> db' = db\<lparr>t_outbox := t_outbox db @ [q]\<rparr>"
  by (auto simp: sql_insert_outbox_def)

lemma sql_insert_run_Inr:
  assumes "sql_insert_run r db = Inr db'"
  shows "r_run_id r \<notin> set (map r_run_id (t_runs db))"
    and "run_checks_ok r"
    and "r_chain_id r \<in> set (map c_chain_id (t_chains db))"
    and "fk_ok r_run_id (t_runs db @ [r]) (r_predecessor_run_id r)"
    and "fk_ok r_run_id (t_runs db @ [r]) (r_parent_run_id r)"
    and "fk_ok h_instance_id (t_hosts db) (r_owner_instance_id r)"
    and "db' = db\<lparr>t_runs := t_runs db @ [r]\<rparr>"
  using assms by (auto simp: sql_insert_run_def split: if_splits)

lemma sql_insert_chain_Inr:
  "sql_insert_chain c db = Inr db' \<longleftrightarrow>
     c_chain_id c \<notin> set (map c_chain_id (t_chains db)) \<and> db' = db\<lparr>t_chains := t_chains db @ [c]\<rparr>"
  by (auto simp: sql_insert_chain_def)

definition event_row_of ::
  "'j codec \<Rightarrow> run_event_id \<Rightarrow> run_id \<Rightarrow> u64 \<Rightarrow> str \<Rightarrow> run_event_payload \<Rightarrow> str \<Rightarrow> str \<Rightarrow> i64 \<Rightarrow> 'j event_row" where
  "event_row_of J eid rid revision ty payload operation_id fingerprint now =
     \<lparr>e_event_id = cd_id_text J eid, e_run_id = cd_id_text J rid, e_revision = uint revision,
      e_type = ty, e_payload_json = cd_json_payload J payload, e_operation_id = operation_id,
      e_operation_fingerprint = fingerprint, e_created_at = now\<rparr>"

lemma insert_event_Inr:
  "insert_event J eid rid revision ty payload op fp now db = Inr db' \<longleftrightarrow>
     validate_event payload = Inr () \<and> uint revision \<le> i64_max
   \<and> sql_insert_event (event_row_of J eid rid revision ty payload op fp now) db = Inr db'"
  by (auto simp: insert_event_def event_row_of_def database_err_def result_simps u64_to_i64_def
      split: if_splits)

text \<open>A new run with its first event.\<close>

lemma event_revs_append:
  "event_revs (db\<lparr>t_events := t_events db @ [e]\<rparr>) k =
     (if k = e_run_id e then insert (e_revision e) (event_revs db k) else event_revs db k)"
  by (auto simp: event_revs_def)

lemma event_revs_cong [simp]:
  "event_revs (db\<lparr>t_chains := c\<rparr>) = event_revs db"
  "event_revs (db\<lparr>t_hosts := h\<rparr>) = event_revs db"
  "event_revs (db\<lparr>t_runs := r\<rparr>) = event_revs db"
  "event_revs (db\<lparr>t_outbox := q\<rparr>) = event_revs db"
  by (simp_all add: event_revs_def fun_eq_iff)

lemma event_revs_unknown_run:
  assumes "refs_ok db" "k \<notin> set (map r_run_id (t_runs db))"
  shows "event_revs db k = {}"
  using assms by (auto simp: event_revs_def refs_ok_def)

lemma add_run_inv:
  assumes inv: "db_inv J db" and ins: "sql_insert_run (encode_run J rec) db = Inr db1"
    and ok: "record_ok rec" and rev1: "rr_revision rec = 1"
    and ev: "sql_insert_event e db1 = Inr db2"
    and e: "e_run_id e = cd_id_text J (rr_run_id rec)" "e_revision e = 1"
  shows "db_inv J db2"
proof -
  let ?r = "encode_run J rec"
  note run = sql_insert_run_Inr [OF ins]
  have id: "r_run_id ?r = cd_id_text J (rr_run_id rec)" and rv: "r_revision ?r = 1"
    by (simp_all add: encode_run_def rev1)
  have db1: "db1 = db\<lparr>t_runs := t_runs db @ [?r]\<rparr>" by (rule run(7))
  from ev have fresh: "e_event_id e \<notin> set (map e_event_id (t_events db))"
    "(e_run_id e, e_revision e) \<notin> set (map (\<lambda>x. (e_run_id x, e_revision x)) (t_events db))"
    "(e_run_id e, e_operation_id e) \<notin> set (map (\<lambda>x. (e_run_id x, e_operation_id x)) (t_events db))"
    and db2: "db2 = db1\<lparr>t_events := t_events db @ [e]\<rparr>"
    by (auto simp: sql_insert_event_Inr db1)
  have parts: "rows_ok J db" "keys_ok db" "refs_ok db" "log_ok db" "outbox_ok J db"
    using inv by (auto simp: db_inv_def)
  have empty: "event_revs db (r_run_id ?r) = {}"
    using parts(3) run(1) by (rule event_revs_unknown_run)
  have "rows_ok J db2" using parts(1) ok by (auto simp: rows_ok_def db1 db2)
  moreover have "keys_ok db2" using parts(2) run(1) fresh by (auto simp: keys_ok_def db1 db2)
  moreover have "refs_ok db2"
    using parts(3) run(3-6) e id by (fastforce simp: refs_ok_def db1 db2 intro: fk_ok_append)
  moreover have "log_ok db2"
  proof -
    have revs: "event_revs db2 k = (if k = e_run_id e then insert 1 (event_revs db k) else event_revs db k)" for k
      using event_revs_append [of db1 e k] e by (simp add: db1 db2)
    have "event_revs db2 (r_run_id r) = {1..r_revision r}" if "r \<in> set (t_runs db)" for r
    proof -
      have "r_run_id r \<noteq> e_run_id e" using that run(1) e(1) id by force
      with that parts(4) show ?thesis by (simp add: revs log_ok_def)
    qed
    moreover have "event_revs db2 (r_run_id ?r) = {1..r_revision ?r}"
      using empty e(1) id rv by (simp add: revs)
    ultimately show ?thesis by (simp add: log_ok_def db1 db2)
  qed
  moreover have "outbox_ok J db2" using parts(5) by (simp add: outbox_ok_def db1 db2)
  ultimately show ?thesis by (simp add: db_inv_def)
qed

lemma add_chain_inv:
  assumes "db_inv J db" "sql_insert_chain c db = Inr db1"
  shows "db_inv J db1"
  using assms
  by (auto simp: sql_insert_chain_Inr db_inv_def rows_ok_def keys_ok_def refs_ok_def log_ok_def outbox_ok_def
      event_revs_def)

lemma add_outbox_inv:
  assumes "db_inv J db" "sql_insert_outbox q db = Inr db1"
    and "\<exists>e \<in> set (t_events db). e_event_id e = o_source_event_id q \<and> e_run_id e = o_child_run_id q"
    and "o_delivery_id q = cd_id_text J did"
  shows "db_inv J db1"
  using assms
  by (auto simp: sql_insert_outbox_Inr db_inv_def rows_ok_def keys_ok_def refs_ok_def log_ok_def outbox_ok_def
      event_revs_def)

text \<open>An update of one run together with the event of its new revision.\<close>

definition replace_run :: "'j codec \<Rightarrow> run_record \<Rightarrow> run_record \<Rightarrow> 'j run_db \<Rightarrow> 'j run_db" where
  "replace_run J rec rec' db =
     db\<lparr>t_runs := map (\<lambda>r. if r = encode_run J rec then encode_run J rec' else r) (t_runs db)\<rparr>"

definition same_identity :: "run_record \<Rightarrow> run_record \<Rightarrow> bool" where
  "same_identity a b \<longleftrightarrow> rr_run_id a = rr_run_id b \<and> rr_chain_id a = rr_chain_id b
     \<and> rr_predecessor_run_id a = rr_predecessor_run_id b \<and> rr_parent_run_id a = rr_parent_run_id b"

lemma sql_update_replace:
  assumes upd: "sql_update_runs p f db = Inr (n, db')"
    and p: "\<And>r. r \<in> set (t_runs db) \<Longrightarrow> p r = (r = encode_run J rec)"
    and f: "f (encode_run J rec) = encode_run J rec'"
  shows "db' = replace_run J rec rec' db"
proof -
  have "map (\<lambda>r. if p r then f r else r) (t_runs db)
      = map (\<lambda>r. if r = encode_run J rec then encode_run J rec' else r) (t_runs db)"
    using p f by auto
  with upd show ?thesis
    by (auto simp: sql_update_runs_def replace_run_def Let_def split: if_splits)
qed

lemma sql_update_owner_fk:
  assumes upd: "sql_update_runs p f db = Inr (n, db')"
    and "p r" "r \<in> set (t_runs db)"
  shows "fk_ok h_instance_id (t_hosts db) (r_owner_instance_id (f r))" and "run_checks_ok (f r)"
  using assms by (auto simp: sql_update_runs_def Let_def split: if_splits)

lemma replace_run_keys:
  "same_identity rec rec' \<Longrightarrow> map r_run_id (t_runs (replace_run J rec rec' db)) = map r_run_id (t_runs db)"
  by (auto simp: replace_run_def same_identity_def encode_run_def)

lemma replace_run_mem:
  "r \<in> set (t_runs (replace_run J rec rec' db)) \<Longrightarrow>
   r \<in> set (t_runs db) \<and> r \<noteq> encode_run J rec \<or> r = encode_run J rec'"
  by (auto simp: replace_run_def split: if_splits)

lemma replace_run_new:
  "encode_run J rec \<in> set (t_runs db) \<Longrightarrow> encode_run J rec' \<in> set (t_runs (replace_run J rec rec' db))"
  by (force simp: replace_run_def)

lemma advance_run_inv:
  assumes inv: "db_inv J db" and mem: "encode_run J rec \<in> set (t_runs db)"
    and same: "same_identity rec rec'" and ok: "record_ok rec'"
    and rev: "uint (rr_revision rec') = uint (rr_revision rec) + 1"
    and fk: "fk_ok h_instance_id (t_hosts db) (r_owner_instance_id (encode_run J rec'))"
    and ev: "sql_insert_event e (replace_run J rec rec' db) = Inr db2"
    and e: "e_run_id e = cd_id_text J (rr_run_id rec)" "e_revision e = uint (rr_revision rec')"
  shows "db_inv J db2"
proof -
  let ?db1 = "replace_run J rec rec' db"
  have parts: "rows_ok J db" "keys_ok db" "refs_ok db" "log_ok db" "outbox_ok J db"
    using inv by (auto simp: db_inv_def)
  have keys: "map r_run_id (t_runs ?db1) = map r_run_id (t_runs db)"
    using same by (rule replace_run_keys)
  have other: "t_chains ?db1 = t_chains db" "t_hosts ?db1 = t_hosts db" "t_events ?db1 = t_events db"
    "t_outbox ?db1 = t_outbox db" by (simp_all add: replace_run_def)
  from ev have fresh: "e_event_id e \<notin> set (map e_event_id (t_events db))"
    "(e_run_id e, e_revision e) \<notin> set (map (\<lambda>x. (e_run_id x, e_revision x)) (t_events db))"
    "(e_run_id e, e_operation_id e) \<notin> set (map (\<lambda>x. (e_run_id x, e_operation_id x)) (t_events db))"
    and db2: "db2 = ?db1\<lparr>t_events := t_events db @ [e]\<rparr>"
    by (auto simp: sql_insert_event_Inr other)
  have ident: "r_run_id (encode_run J rec') = r_run_id (encode_run J rec)"
    "r_chain_id (encode_run J rec') = r_chain_id (encode_run J rec)"
    "r_predecessor_run_id (encode_run J rec') = r_predecessor_run_id (encode_run J rec)"
    "r_parent_run_id (encode_run J rec') = r_parent_run_id (encode_run J rec)"
    using same by (simp_all add: same_identity_def encode_run_def)
  have "rows_ok J db2"
    using parts(1) ok by (auto simp: rows_ok_def db2 dest!: replace_run_mem)
  moreover have "keys_ok db2"
    using parts(2) fresh by (auto simp: keys_ok_def db2 keys other)
  moreover have "refs_ok db2"
  proof -
    have fkr: "fk_ok r_run_id (t_runs ?db1) v = fk_ok r_run_id (t_runs db) v" for v
      using keys by (rule fk_ok_map)
    have "\<forall>r \<in> set (t_runs ?db1). fk_ok c_chain_id (t_chains db) (Some (r_chain_id r))
        \<and> fk_ok r_run_id (t_runs db) (r_predecessor_run_id r)
        \<and> fk_ok r_run_id (t_runs db) (r_parent_run_id r)
        \<and> fk_ok h_instance_id (t_hosts db) (r_owner_instance_id r)"
      using parts(3) mem fk ident by (auto simp: refs_ok_def dest!: replace_run_mem)
    moreover have "e_run_id e \<in> set (map r_run_id (t_runs db))"
      using mem e(1) by (force simp: encode_run_def)
    ultimately show ?thesis
      using parts(3) by (auto simp: refs_ok_def db2 other fkr keys simp del: set_map)
  qed
  moreover have "log_ok db2"
  proof -
    have revs: "event_revs db2 k = (if k = e_run_id e then insert (e_revision e) (event_revs db k) else event_revs db k)" for k
      using event_revs_append [of ?db1 e k] by (simp add: db2 other) (simp add: replace_run_def)
    show ?thesis unfolding log_ok_def
    proof
      fix r assume "r \<in> set (t_runs db2)"
      then consider "r \<in> set (t_runs db)" "r \<noteq> encode_run J rec" | "r = encode_run J rec'"
        using replace_run_mem by (fastforce simp: db2)
      then show "event_revs db2 (r_run_id r) = {1..r_revision r}"
      proof cases
        case 1
        then have "r_run_id r \<noteq> r_run_id (encode_run J rec)"
          using parts(2) mem distinct_key_unique [of r_run_id "t_runs db"] by (auto simp: keys_ok_def)
        with 1 parts(4) e(1) show ?thesis by (simp add: revs log_ok_def encode_run_def)
      next
        case 2
        have "event_revs db (r_run_id r) = {1..uint (rr_revision rec)}"
          using parts(4) mem ident 2 by (auto simp: log_ok_def encode_run_def)
        moreover have "r_run_id r = e_run_id e" using 2 ident e(1) by (simp add: encode_run_def)
        moreover have "insert (x + 1) {1..x} = {1..x + 1}" if "0 \<le> x" for x :: int
          using that by auto
        ultimately show ?thesis using 2 e(2) rev by (simp add: revs encode_run_def)
      qed
    qed
  qed
  moreover have "outbox_ok J db2" using parts(5) by (simp add: outbox_ok_def db2 other)
  ultimately show ?thesis by (simp add: db_inv_def)
qed

section \<open>The operations as record updates\<close>

definition new_record :: "new_run_spec \<Rightarrow> i64 \<Rightarrow> run_record" where
  "new_record spec now = \<lparr>rr_run_id = ns_run_id spec, rr_chain_id = ns_chain_id spec,
     rr_predecessor_run_id = None, rr_backend = ns_backend spec, rr_session_id = ns_session_id spec,
     rr_legacy_session_id = None, rr_workflow_journal_id = ns_workflow_journal_id spec,
     rr_parent_run_id = ns_parent_run_id spec, rr_parent_session_id = ns_parent_session_id spec,
     rr_lifecycle = Queued, rr_wait_reason = None, rr_outcome = None,
     rr_capabilities = ns_capabilities spec, rr_owner_instance_id = ns_owner_instance_id spec,
     rr_owner_epoch = map_option (\<lambda>_. 1) (ns_owner_instance_id spec), rr_created_at = now,
     rr_queued_at = Some now, rr_started_at = None, rr_updated_at = now, rr_finished_at = None,
     rr_last_progress_at = None, rr_revision = 1\<rparr>"

definition resumed_record :: "run_record \<Rightarrow> run_id \<Rightarrow> host_instance_id option \<Rightarrow> i64 \<Rightarrow> run_record" where
  "resumed_record prior rid owner now = \<lparr>rr_run_id = rid, rr_chain_id = rr_chain_id prior,
     rr_predecessor_run_id = Some (rr_run_id prior), rr_backend = rr_backend prior,
     rr_session_id = None, rr_legacy_session_id = None,
     rr_workflow_journal_id = rr_workflow_journal_id prior,
     rr_parent_run_id = rr_parent_run_id prior, rr_parent_session_id = rr_parent_session_id prior,
     rr_lifecycle = Queued, rr_wait_reason = None, rr_outcome = None,
     rr_capabilities = rr_capabilities prior, rr_owner_instance_id = owner,
     rr_owner_epoch = map_option (\<lambda>_. 1) owner, rr_created_at = now,
     rr_queued_at = Some now, rr_started_at = None, rr_updated_at = now, rr_finished_at = None,
     rr_last_progress_at = None, rr_revision = 1\<rparr>"

definition legacy_record ::
  "legacy_session_metadata \<Rightarrow> run_id \<Rightarrow> run_chain_id \<Rightarrow> i64 \<Rightarrow> i64 \<Rightarrow> run_record" where
  "legacy_record lg rid cid created updated = \<lparr>rr_run_id = rid, rr_chain_id = cid,
     rr_predecessor_run_id = None, rr_backend = TuiSession, rr_session_id = Some (lg_session_id lg),
     rr_legacy_session_id = Some (lg_session_id lg), rr_workflow_journal_id = None,
     rr_parent_run_id = None, rr_parent_session_id = Some (lg_parent_id lg),
     rr_lifecycle = fst (legacy_outcome (lg_lifecycle lg)), rr_wait_reason = None,
     rr_outcome = Some (snd (legacy_outcome (lg_lifecycle lg))),
     rr_capabilities = default_capabilities\<lparr>cap_events := True, cap_logs := True\<rparr>,
     rr_owner_instance_id = None, rr_owner_epoch = None, rr_created_at = created,
     rr_queued_at = Some created, rr_started_at = None, rr_updated_at = updated,
     rr_finished_at = Some updated, rr_last_progress_at = None, rr_revision = 1\<rparr>"

definition apply_transition :: "transition_request \<Rightarrow> i64 \<Rightarrow> u64 \<Rightarrow> run_record \<Rightarrow> run_record" where
  "apply_transition rq now revision rec = rec\<lparr>
     rr_lifecycle := tr_target rq, rr_wait_reason := tr_wait_reason rq, rr_outcome := tr_outcome rq,
     rr_started_at := (if tr_target rq = Running \<and> rr_started_at rec = None then Some now
                       else rr_started_at rec),
     rr_updated_at := now,
     rr_finished_at := (if is_terminal (tr_target rq) then Some now else None),
     rr_last_progress_at := (if tr_progress rq then Some now else rr_last_progress_at rec),
     rr_revision := revision\<rparr>"

definition apply_owner :: "host_instance_id \<Rightarrow> u64 \<Rightarrow> u64 \<Rightarrow> i64 \<Rightarrow> run_record \<Rightarrow> run_record" where
  "apply_owner new_owner epoch revision now rec = rec\<lparr>rr_owner_instance_id := Some new_owner,
     rr_owner_epoch := Some epoch, rr_revision := revision, rr_updated_at := now\<rparr>"

lemma new_run_row_encode: "new_run_row J spec now = encode_run J (new_record spec now)"
  by (simp add: new_run_row_def encode_run_def new_record_def option.map_comp comp_def)

lemma resumed_run_row_encode:
  "resumed_run_row J prior rid owner now = encode_run J (resumed_record prior rid owner now)"
  by (simp add: resumed_run_row_def encode_run_def resumed_record_def option.map_comp comp_def)

lemma legacy_run_row_encode:
  "legacy_run_row J lg rid cid created updated = encode_run J (legacy_record lg rid cid created updated)"
  by (simp add: legacy_run_row_def encode_run_def legacy_record_def)

lemma transition_row_encode:
  "transition_row J rq rec now (uint revision) (encode_run J rec) = encode_run J (apply_transition rq now revision rec)"
  by (simp add: transition_row_def encode_run_def apply_transition_def)

lemma owner_row_encode:
  "owner_row J new_owner (uint epoch) (uint revision) now (encode_run J rec)
     = encode_run J (apply_owner new_owner epoch revision now rec)"
  by (simp add: owner_row_def encode_run_def apply_owner_def)

lemma one_le_i64_max [simp]: "uint (1 :: u64) \<le> i64_max"
  by (simp add: i64_max_def)

lemma record_ok_new: "record_ok (new_record spec now)"
  by (simp add: record_ok_def outcome_ok_def new_record_def i64_max_def)

lemma record_ok_resumed: "record_ok (resumed_record prior rid owner now)"
  by (simp add: record_ok_def outcome_ok_def resumed_record_def i64_max_def)

lemma record_ok_legacy: "record_ok (legacy_record lg rid cid created updated)"
  by (cases "lg_lifecycle lg") (simp_all add: record_ok_def outcome_ok_def legacy_record_def outcome_of_status_def i64_max_def)

lemma same_identity_transition: "same_identity rec (apply_transition rq now revision rec)"
  by (simp add: same_identity_def apply_transition_def)

lemma same_identity_owner: "same_identity rec (apply_owner new_owner epoch revision now rec)"
  by (simp add: same_identity_def apply_owner_def)

lemma record_ok_transition:
  assumes rec: "record_ok rec" and rev: "checked_add_u64 (rr_revision rec) 1 = Some revision" "uint revision \<le> i64_max"
    and val: "validate_transition (rr_lifecycle rec) (tr_target rq) (tr_wait_reason rq) (tr_outcome rq) (tr_event rq) = Inr u"
  shows "record_ok (apply_transition rq now revision rec)"
proof -
  have "uint revision = uint (rr_revision rec) + 1"
    using checked_add_u64_Some [OF rev(1)] by simp
  moreover have "(tr_wait_reason rq \<noteq> None) = (tr_target rq \<in> {WaitingInput, Blocked})"
    using validate_transition_ok(2) [OF val] by simp
  moreover have "outcome_ok (tr_target rq) (tr_outcome rq)"
    using validate_transition_ok(4,5) [OF val] by (cases "is_terminal (tr_target rq)") (auto simp: outcome_ok_def)
  ultimately show ?thesis
    using rec rev(2) by (simp add: record_ok_def apply_transition_def)
qed

lemma record_ok_owner:
  assumes "record_ok rec" "checked_add_u64 (rr_revision rec) 1 = Some revision" "uint revision \<le> i64_max"
  shows "record_ok (apply_owner new_owner epoch revision now rec)"
  using assms checked_add_u64_Some [OF assms(2)] by (simp add: record_ok_def apply_owner_def)

section \<open>What each transaction does\<close>

lemma run_in_project_cong:
  "t_chains db' = t_chains db \<Longrightarrow> r_chain_id r' = r_chain_id r \<Longrightarrow>
   run_in_project db' pk r' = run_in_project db pk r"
  by (simp add: run_in_project_def)

lemma verify_ok_revision:
  "verify_revision_and_owner run expected owner = Inr u \<Longrightarrow> rr_revision run = expected"
  by (auto simp: verify_revision_and_owner_def split: if_splits)

lemma verify_ok_owner:
  assumes "verify_revision_and_owner run expected owner = Inr u"
  shows "rr_owner_instance_id run = map_option of_instance_id owner"
    and "rr_owner_epoch run = map_option of_epoch owner"
  using assms by (auto simp: verify_revision_and_owner_def split: if_splits option.splits)

lemma insert_outbox_Inr:
  "insert_outbox_if_parent J did run eid revision lc reason now db = Inr db' \<longleftrightarrow>
     (case rr_parent_session_id run of
        None \<Rightarrow> db' = db
      | Some parent \<Rightarrow>
          validate_event (outbox_payload J (rr_run_id run) revision lc reason) = Inr ()
        \<and> sql_insert_outbox (outbox_row_of J did eid (rr_run_id run) parent
             (outbox_payload J (rr_run_id run) revision lc reason) now) db = Inr db')"
  by (auto simp: insert_outbox_if_parent_def Let_def result_simps database_err_def split: option.splits)

text \<open>The effect of an accepted, non-replayed transition.\<close>

lemma transition_tx_changed:
  assumes J: "codec_ok J" and inv: "db_inv J db"
    and tx: "transition_tx J pk now eid did failure rq db = Inr ((record, True), db')"
  obtains current revision db2 where
    "query_run J db pk (tr_run_id rq) = Inr (Some current)"
    "verify_revision_and_owner current (tr_expected_revision rq) (tr_owner rq) = Inr ()"
    "validate_transition (rr_lifecycle current) (tr_target rq) (tr_wait_reason rq) (tr_outcome rq) (tr_event rq) = Inr ()"
    "checked_add_u64 (rr_revision current) 1 = Some revision" "uint revision \<le> i64_max"
    "sql_insert_event (event_row_of J eid (tr_run_id rq) revision (tr_event_type rq) (tr_event rq)
        (tr_operation_id rq) (transition_fingerprint J rq) now)
       (replace_run J current (apply_transition rq now revision current) db) = Inr db2"
    "notify_parent_tx J eid did rq current revision now db2 = Inr db'"
    "require_run J db' pk (tr_run_id rq) = Inr record"
proof -
  obtain current revision rev' expected n db1 db2 where
    q: "query_run J db pk (tr_run_id rq) = Inr (Some current)" and
    v: "verify_revision_and_owner current (tr_expected_revision rq) (tr_owner rq) = Inr ()" and
    t: "validate_transition (rr_lifecycle current) (tr_target rq) (tr_wait_reason rq) (tr_outcome rq) (tr_event rq) = Inr ()" and
    c: "checked_add_u64 (rr_revision current) 1 = Some revision" and
    r: "u64_to_i64 revision = Inr rev'" and
    x: "u64_to_i64 (tr_expected_revision rq) = Inr expected" and
    u: "sql_update_runs (\<lambda>r. r_run_id r = cd_id_text J (tr_run_id rq) \<and> r_revision r = expected)
          (transition_row J rq current now rev') db = Inr (n, db1)" and
    e: "insert_event J eid (tr_run_id rq) revision (tr_event_type rq) (tr_event rq)
          (tr_operation_id rq) (transition_fingerprint J rq) now db1 = Inr db2" and
    o: "notify_parent_tx J eid did rq current revision now db2 = Inr db'" and
    g: "require_run J db' pk (tr_run_id rq) = Inr record"
    using tx
    by (auto simp: transition_tx_def result_simps require_run_Inr database_err_def
        split: option.splits if_splits prod.splits)
  note cur = query_run_Some [OF J _ q]
  have rows: "rows_ok J db" and keys: "keys_ok db" using inv by (auto simp: db_inv_def)
  have "(r_run_id y = cd_id_text J (tr_run_id rq) \<and> r_revision y = expected) = (y = encode_run J current)"
    if "y \<in> set (t_runs db)" for y
  proof -
    have "r_run_id (encode_run J current) = cd_id_text J (tr_run_id rq)"
      "r_revision (encode_run J current) = expected"
      using cur(2) [OF rows] verify_ok_revision [OF v] u64_to_i64_Inr [OF x] by (simp_all add: encode_run_def)
    then show ?thesis
      using that cur(1) [OF rows] keys distinct_key_unique [of r_run_id "t_runs db" y "encode_run J current"]
      by (auto simp: keys_ok_def)
  qed
  then have "db1 = replace_run J current (apply_transition rq now revision current) db"
    using u64_to_i64_Inr [OF r] by (intro sql_update_replace [OF u]) (simp_all add: transition_row_encode)
  with q v t c o g e show ?thesis
    by (intro that) (auto simp: insert_event_Inr)
qed

section \<open>The transactions keep the invariant\<close>

lemma event_row_of_simps [simp]:
  "e_event_id (event_row_of J eid rid revision ty payload op fp now) = cd_id_text J eid"
  "e_run_id (event_row_of J eid rid revision ty payload op fp now) = cd_id_text J rid"
  "e_revision (event_row_of J eid rid revision ty payload op fp now) = uint revision"
  "e_operation_id (event_row_of J eid rid revision ty payload op fp now) = op"
  "e_operation_fingerprint (event_row_of J eid rid revision ty payload op fp now) = fp"
  by (simp_all add: event_row_of_def)

lemma outbox_row_of_simps [simp]:
  "o_delivery_id (outbox_row_of J did eid rid parent payload now) = cd_id_text J did"
  "o_source_event_id (outbox_row_of J did eid rid parent payload now) = cd_id_text J eid"
  "o_child_run_id (outbox_row_of J did eid rid parent payload now) = cd_id_text J rid"
  "o_state (outbox_row_of J did eid rid parent payload now) = ''pending''"
  by (simp_all add: outbox_row_of_def)

lemma insert_outbox_inv:
  assumes "db_inv J db" "insert_outbox_if_parent J did run eid revision lc reason now db = Inr db'"
    and "\<exists>e \<in> set (t_events db). e_event_id e = cd_id_text J eid \<and> e_run_id e = cd_id_text J (rr_run_id run)"
  shows "db_inv J db'"
proof (cases "rr_parent_session_id run")
  case None
  with assms show ?thesis by (simp add: insert_outbox_Inr)
next
  case (Some parent)
  with assms(2) have "sql_insert_outbox (outbox_row_of J did eid (rr_run_id run) parent
      (outbox_payload J (rr_run_id run) revision lc reason) now) db = Inr db'"
    by (simp add: insert_outbox_Inr)
  from add_outbox_inv [OF assms(1) this, of did] assms(3) show ?thesis by simp
qed

lemma insert_outbox_frame:
  assumes "insert_outbox_if_parent J did run eid revision lc reason now db = Inr db'"
  shows "t_runs db' = t_runs db" "t_chains db' = t_chains db" "t_hosts db' = t_hosts db" "t_events db' = t_events db"
  using assms by (auto simp: insert_outbox_Inr sql_insert_outbox_Inr split: option.splits)

lemma notify_parent_frame:
  assumes "notify_parent_tx J eid did rq current revision now db = Inr db'"
  shows "t_runs db' = t_runs db" "t_chains db' = t_chains db" "t_hosts db' = t_hosts db" "t_events db' = t_events db"
  using assms by (auto simp: notify_parent_tx_def insert_outbox_frame split: if_splits)

lemma transition_tx_inv:
  assumes J: "codec_ok J" and inv: "db_inv J db"
    and tx: "transition_tx J pk now eid did failure rq db = Inr ((record, True), db')"
  shows "db_inv J db'"
proof -
  from transition_tx_changed [OF J inv tx] obtain current revision db2 where
    q: "query_run J db pk (tr_run_id rq) = Inr (Some current)" and
    t: "validate_transition (rr_lifecycle current) (tr_target rq) (tr_wait_reason rq) (tr_outcome rq) (tr_event rq) = Inr ()" and
    c: "checked_add_u64 (rr_revision current) 1 = Some revision" "uint revision \<le> i64_max" and
    e: "sql_insert_event (event_row_of J eid (tr_run_id rq) revision (tr_event_type rq) (tr_event rq)
          (tr_operation_id rq) (transition_fingerprint J rq) now)
         (replace_run J current (apply_transition rq now revision current) db) = Inr db2" and
    o: "notify_parent_tx J eid did rq current revision now db2 = Inr db'"
    by blast
  have rows: "rows_ok J db" using inv by (simp add: db_inv_def)
  note cur = query_run_Some [OF J rows q]
  have "fk_ok h_instance_id (t_hosts db) (r_owner_instance_id (encode_run J (apply_transition rq now revision current)))"
    using inv cur(1) by (auto simp: db_inv_def refs_ok_def encode_run_def apply_transition_def)
  then have "db_inv J db2"
    using advance_run_inv [OF inv cur(1) same_identity_transition record_ok_transition [OF cur(4) c t] _ _ e]
      checked_add_u64_Some [OF c(1)] cur(2)
    by (simp add: apply_transition_def)
  with e o cur(2) show ?thesis
    by (auto simp: notify_parent_tx_def sql_insert_event_Inr replace_run_def elim!: insert_outbox_inv split: if_splits)
qed

lemma create_run_tx_changed:
  assumes "create_run_tx J pk now eid spec db = Inr ((record, True), db')"
  obtains db1 db2 where
    "query_run J db pk (ns_run_id spec) = Inr None"
    "require_parent J db pk (ns_parent_run_id spec) = Inr ()"
    "require_owner J db (ns_owner_instance_id spec) = Inr ()"
    "sql_insert_chain (new_chain_row J pk spec now) db = Inr db1"
    "sql_insert_run (encode_run J (new_record spec now)) db1 = Inr db2"
    "sql_insert_event (event_row_of J eid (ns_run_id spec) 1 ''run_created''
        \<lparr>ep_summary = Some ''Run queued'', ep_details = []\<rparr>
        (''create:'' @ cd_id_text J (ns_run_id spec))
        (''create:'' @ cd_id_text J (ns_chain_id spec) @ '':'' @ cd_id_text J (ns_run_id spec)) now) db2 = Inr db'"
    "require_run J db' pk (ns_run_id spec) = Inr record"
  using assms
  by (auto simp: create_run_tx_def result_simps require_run_Inr database_err_def insert_event_Inr
      new_run_row_encode split: option.splits)

lemma create_run_tx_inv:
  assumes inv: "db_inv J db" and tx: "create_run_tx J pk now eid spec db = Inr ((record, True), db')"
  shows "db_inv J db'"
proof -
  from create_run_tx_changed [OF tx] obtain db1 db2 op fp payload where
    c: "sql_insert_chain (new_chain_row J pk spec now) db = Inr db1" and
    r: "sql_insert_run (encode_run J (new_record spec now)) db1 = Inr db2" and
    e: "sql_insert_event (event_row_of J eid (ns_run_id spec) 1 ''run_created'' payload op fp now) db2 = Inr db'"
    by metis
  show ?thesis
    by (rule add_run_inv [OF add_chain_inv [OF inv c] r record_ok_new _ e])
      (simp_all add: new_record_def)
qed

lemma resume_run_tx_changed:
  assumes "resume_run_tx J pk now eid rid rq db = Inr ((record, True), db')"
  obtains prior db1 where
    "query_run J db pk (rq_prior_run_id rq) = Inr (Some prior)"
    "rr_revision prior = rq_expected_revision rq" "is_terminal (rr_lifecycle prior)"
    "cap_resume (rr_capabilities prior)" "require_owner J db (rq_owner_instance_id rq) = Inr ()"
    "sql_insert_run (encode_run J (resumed_record prior rid (rq_owner_instance_id rq) now)) db = Inr db1"
    "sql_insert_event (event_row_of J eid rid 1 ''run_resumed''
        \<lparr>ep_summary = Some ''Run resumed as a new attempt'',
         ep_details = [(''predecessor_run_id'', cd_id_text J (rr_run_id prior))]\<rparr>
        (rq_operation_id rq) (resume_fingerprint J rq) now) db1 = Inr db'"
    "require_run J db' pk rid = Inr record"
  using assms
  by (auto simp: resume_run_tx_def result_simps require_run_Inr database_err_def insert_event_Inr
      resumed_run_row_encode split: option.splits if_splits)

lemma resume_run_tx_inv:
  assumes inv: "db_inv J db" and tx: "resume_run_tx J pk now eid rid rq db = Inr ((record, True), db')"
  shows "db_inv J db'"
proof -
  from resume_run_tx_changed [OF tx] obtain prior db1 op fp payload where
    r: "sql_insert_run (encode_run J (resumed_record prior rid (rq_owner_instance_id rq) now)) db = Inr db1" and
    e: "sql_insert_event (event_row_of J eid rid 1 ''run_resumed'' payload op fp now) db1 = Inr db'"
    by metis
  show ?thesis
    by (rule add_run_inv [OF inv r record_ok_resumed _ e]) (simp_all add: resumed_record_def)
qed

lemma require_live_host_fk:
  "require_live_host J db iid = Inr u \<Longrightarrow> cd_id_text J iid \<in> set (map h_instance_id (t_hosts db))"
  by (auto simp: require_live_host_def split: option.splits dest!: find_SomeD intro: rev_image_eqI)

lemma transfer_owner_tx_changed:
  assumes J: "codec_ok J" and inv: "db_inv J db"
    and tx: "transfer_owner_tx J pk now eid rid expected prior_owner new_owner op db = Inr ((record, True), db')"
  obtains current revision epoch where
    "query_run J db pk rid = Inr (Some current)"
    "verify_revision_and_owner current expected (Some prior_owner) = Inr ()"
    "\<not> is_terminal (rr_lifecycle current)" "require_live_host J db new_owner = Inr ()"
    "checked_add_u64 (rr_revision current) 1 = Some revision" "uint revision \<le> i64_max"
    "checked_add_u64 (of_epoch prior_owner) 1 = Some epoch" "uint epoch \<le> i64_max"
    "sql_insert_event (event_row_of J eid rid revision ''owner_transferred''
        \<lparr>ep_summary = Some ''Run ownership transferred'', ep_details = [(''owner_epoch'', show_u64 epoch)]\<rparr>
        op (owner_fingerprint J rid expected prior_owner new_owner) now)
       (replace_run J current (apply_owner new_owner epoch revision now current) db) = Inr db'"
    "require_run J db' pk rid = Inr record"
proof -
  obtain current revision epoch epoch' rev' expected' prior_epoch n db1 where
    h: "require_live_host J db new_owner = Inr ()" and
    q: "query_run J db pk rid = Inr (Some current)" and
    v: "verify_revision_and_owner current expected (Some prior_owner) = Inr ()" and
    t: "\<not> is_terminal (rr_lifecycle current)" and
    c: "checked_add_u64 (rr_revision current) 1 = Some revision" and
    ce: "checked_add_u64 (of_epoch prior_owner) 1 = Some epoch" and
    r: "u64_to_i64 epoch = Inr epoch'" "u64_to_i64 revision = Inr rev'" "u64_to_i64 expected = Inr expected'"
       "u64_to_i64 (of_epoch prior_owner) = Inr prior_epoch" and
    u: "sql_update_runs (\<lambda>r. r_run_id r = cd_id_text J rid \<and> r_revision r = expected'
             \<and> r_owner_instance_id r = Some (cd_id_text J (of_instance_id prior_owner))
             \<and> r_owner_epoch r = Some prior_epoch)
          (owner_row J new_owner epoch' rev' now) db = Inr (n, db1)" and
    e: "insert_event J eid rid revision ''owner_transferred''
        \<lparr>ep_summary = Some ''Run ownership transferred'', ep_details = [(''owner_epoch'', show_u64 epoch)]\<rparr>
        op (owner_fingerprint J rid expected prior_owner new_owner) now db1 = Inr db'" and
    g: "require_run J db' pk rid = Inr record"
    using tx
    by (auto simp: transfer_owner_tx_def result_simps require_run_Inr database_err_def
        split: option.splits if_splits prod.splits)
  have rows: "rows_ok J db" and keys: "keys_ok db" using inv by (auto simp: db_inv_def)
  note cur = query_run_Some [OF J rows q]
  have "(r_run_id y = cd_id_text J rid \<and> r_revision y = expected'
             \<and> r_owner_instance_id y = Some (cd_id_text J (of_instance_id prior_owner))
             \<and> r_owner_epoch y = Some prior_epoch) = (y = encode_run J current)"
    if "y \<in> set (t_runs db)" for y
  proof -
    have "r_run_id (encode_run J current) = cd_id_text J rid"
      "r_revision (encode_run J current) = expected'"
      "r_owner_instance_id (encode_run J current) = Some (cd_id_text J (of_instance_id prior_owner))"
      "r_owner_epoch (encode_run J current) = Some prior_epoch"
      using cur(2) verify_ok_revision [OF v] verify_ok_owner [OF v] u64_to_i64_Inr [OF r(3)] u64_to_i64_Inr [OF r(4)]
      by (simp_all add: encode_run_def)
    then show ?thesis
      using that cur(1) keys distinct_key_unique [of r_run_id "t_runs db" y "encode_run J current"]
      by (auto simp: keys_ok_def)
  qed
  then have "db1 = replace_run J current (apply_owner new_owner epoch revision now current) db"
    using u64_to_i64_Inr [OF r(1)] u64_to_i64_Inr [OF r(2)]
    by (intro sql_update_replace [OF u]) (simp_all add: owner_row_encode)
  with h q v t c ce g e r show ?thesis
    by (intro that) (auto simp: insert_event_Inr dest!: u64_to_i64_Inr)
qed

lemma transfer_owner_tx_inv:
  assumes J: "codec_ok J" and inv: "db_inv J db"
    and tx: "transfer_owner_tx J pk now eid rid expected prior_owner new_owner op db = Inr ((record, True), db')"
  shows "db_inv J db'"
proof -
  from transfer_owner_tx_changed [OF J inv tx] obtain current revision epoch payload fp where
    q: "query_run J db pk rid = Inr (Some current)" and
    h: "require_live_host J db new_owner = Inr ()" and
    c: "checked_add_u64 (rr_revision current) 1 = Some revision" "uint revision \<le> i64_max" and
    e: "sql_insert_event (event_row_of J eid rid revision ''owner_transferred'' payload op fp now)
       (replace_run J current (apply_owner new_owner epoch revision now current) db) = Inr db'"
    by metis
  have rows: "rows_ok J db" using inv by (simp add: db_inv_def)
  note cur = query_run_Some [OF J rows q]
  show ?thesis
    using advance_run_inv [OF inv cur(1) same_identity_owner record_ok_owner [OF cur(4) c] _ _ e]
      checked_add_u64_Some [OF c(1)] cur(2) require_live_host_fk [OF h]
    by (simp add: apply_owner_def encode_run_def)
qed

lemma import_legacy_tx_changed:
  assumes "import_legacy_tx J pk created updated eid did lg db = Inr ((record, True), db')"
  obtains db1 db2 db3 c op fp payload where
    "query_run J db pk (legacy_run_id J pk lg) = Inr None"
    "sql_insert_chain c db = Inr db1"
    "sql_insert_run (encode_run J (legacy_record lg (legacy_run_id J pk lg) (legacy_chain_id J pk lg) created updated)) db1 = Inr db2"
    "sql_insert_event (event_row_of J eid (legacy_run_id J pk lg) 1 ''legacy_imported'' payload op fp updated) db2 = Inr db3"
    "(\<exists>rec. query_run J db3 pk (legacy_run_id J pk lg) = Inr (Some rec)
       \<and> insert_outbox_if_parent J did rec eid 1 (fst (legacy_outcome (lg_lifecycle lg))) None updated db3 = Inr db') \<or> db' = db3"
    "require_run J db' pk (legacy_run_id J pk lg) = Inr record"
  using assms
  by (auto simp: import_legacy_tx_def Let_def result_simps require_run_Inr database_err_def insert_event_Inr
      legacy_run_row_encode split: option.splits if_splits)

lemma import_legacy_tx_inv:
  assumes J: "codec_ok J" and inv: "db_inv J db"
    and tx: "import_legacy_tx J pk created updated eid did lg db = Inr ((record, True), db')"
  shows "db_inv J db'"
proof -
  let ?rid = "legacy_run_id J pk lg"
  from import_legacy_tx_changed [OF tx] obtain db1 db2 db3 c op fp payload where
    c: "sql_insert_chain c db = Inr db1" and
    r: "sql_insert_run (encode_run J (legacy_record lg ?rid (legacy_chain_id J pk lg) created updated)) db1 = Inr db2" and
    e: "sql_insert_event (event_row_of J eid ?rid 1 ''legacy_imported'' payload op fp updated) db2 = Inr db3" and
    o: "(\<exists>rec. query_run J db3 pk ?rid = Inr (Some rec)
       \<and> insert_outbox_if_parent J did rec eid 1 (fst (legacy_outcome (lg_lifecycle lg))) None updated db3 = Inr db') \<or> db' = db3"
    by metis
  have inv3: "db_inv J db3"
    by (rule add_run_inv [OF add_chain_inv [OF inv c] r record_ok_legacy _ e]) (simp_all add: legacy_record_def)
  from o show ?thesis
  proof
    assume "\<exists>rec. query_run J db3 pk ?rid = Inr (Some rec)
       \<and> insert_outbox_if_parent J did rec eid 1 (fst (legacy_outcome (lg_lifecycle lg))) None updated db3 = Inr db'"
    then obtain rec where q: "query_run J db3 pk ?rid = Inr (Some rec)"
      and ins: "insert_outbox_if_parent J did rec eid 1 (fst (legacy_outcome (lg_lifecycle lg))) None updated db3 = Inr db'"
      by blast
    have "rr_run_id rec = ?rid" using query_run_Some(2) [OF J _ q] inv3 by (simp add: db_inv_def)
    with e have "\<exists>e \<in> set (t_events db3). e_event_id e = cd_id_text J eid \<and> e_run_id e = cd_id_text J (rr_run_id rec)"
      by (auto simp: sql_insert_event_Inr)
    with inv3 ins show ?thesis by (rule insert_outbox_inv)
  next
    assume "db' = db3" with inv3 show ?thesis by simp
  qed
qed

section \<open>Deletions and updates of other tables\<close>

lemma fk_ok_filter:
  assumes "fk_ok key rows v" "\<And>k. v = Some k \<Longrightarrow> k \<notin> S"
  shows "fk_ok key (filter (\<lambda>x. key x \<notin> S) rows) v"
  using assms by (cases v) auto

lemma distinct_map_filterI: "distinct (map k xs) \<Longrightarrow> distinct (map k (filter P xs))"
  by (simp add: distinct_map_filter)

lemma delete_outbox_inv: "db_inv J db \<Longrightarrow> db_inv J (snd (sql_delete_outbox ids db))"
  by (auto simp: sql_delete_outbox_def db_inv_def rows_ok_def keys_ok_def refs_ok_def log_ok_def outbox_ok_def
      event_revs_def intro: distinct_map_filterI)

lemma delete_runs_inv:
  assumes inv: "db_inv J db" and del: "sql_delete_runs ids db = Inr (n, db')"
  shows "db_inv J db'"
proof -
  let ?gone = "{k \<in> set ids. k \<in> r_run_id ` set (t_runs db)}"
  have db': "db' = db\<lparr>t_runs := filter (\<lambda>r. r_run_id r \<notin> ?gone) (t_runs db),
      t_events := filter (\<lambda>e. e_run_id e \<notin> ?gone) (t_events db)\<rparr>"
    and out: "\<forall>q \<in> set (t_outbox db). o_child_run_id q \<notin> ?gone"
    and par: "\<forall>r \<in> set (t_runs db). \<forall>k \<in> ?gone. r_predecessor_run_id r \<noteq> Some k \<and> r_parent_run_id r \<noteq> Some k"
  proof -
    have ids: "set (map r_run_id (filter (\<lambda>r. r_run_id r \<in> set ids) (t_runs db))) = ?gone" by auto
    have rows: "filter (\<lambda>r. r_run_id r \<notin> set ids) (t_runs db) = filter (\<lambda>r. r_run_id r \<notin> ?gone) (t_runs db)"
      by (rule filter_cong) auto
    have "db' = db\<lparr>t_runs := filter (\<lambda>r. r_run_id r \<notin> ?gone) (t_runs db),
      t_events := filter (\<lambda>e. e_run_id e \<notin> ?gone) (t_events db)\<rparr>
      \<and> (\<forall>q \<in> set (t_outbox db). o_child_run_id q \<notin> ?gone)
      \<and> (\<forall>r \<in> set (t_runs db). \<forall>k \<in> ?gone. r_predecessor_run_id r \<noteq> Some k \<and> r_parent_run_id r \<noteq> Some k)"
      using del unfolding sql_delete_runs_def Let_def ids rows
      by (simp split: if_splits)
    then show "db' = db\<lparr>t_runs := filter (\<lambda>r. r_run_id r \<notin> ?gone) (t_runs db),
      t_events := filter (\<lambda>e. e_run_id e \<notin> ?gone) (t_events db)\<rparr>"
      and "\<forall>q \<in> set (t_outbox db). o_child_run_id q \<notin> ?gone"
      and "\<forall>r \<in> set (t_runs db). \<forall>k \<in> ?gone. r_predecessor_run_id r \<noteq> Some k \<and> r_parent_run_id r \<noteq> Some k"
      by blast+
  qed
  have parts: "rows_ok J db" "keys_ok db" "refs_ok db" "log_ok db" "outbox_ok J db"
    using inv by (auto simp: db_inv_def)
  have "rows_ok J db'" using parts(1) by (auto simp: rows_ok_def db')
  moreover have "keys_ok db'" using parts(2) by (auto simp: keys_ok_def db' intro: distinct_map_filterI)
  moreover have "refs_ok db'"
  proof -
    have keep: "fk_ok r_run_id (t_runs db') v" if "fk_ok r_run_id (t_runs db) v" "\<And>k. k \<in> ?gone \<Longrightarrow> v \<noteq> Some k" for v
    proof -
      have t: "t_runs db' = filter (\<lambda>r. r_run_id r \<notin> ?gone) (t_runs db)" by (simp add: db')
      show ?thesis unfolding t using that(1) by (rule fk_ok_filter) (use that(2) in blast)
    qed
    have "fk_ok r_run_id (t_runs db') (r_predecessor_run_id r)" "fk_ok r_run_id (t_runs db') (r_parent_run_id r)"
      if "r \<in> set (t_runs db)" for r
      using that parts(3) par by (auto intro!: keep simp: refs_ok_def)
    then show ?thesis
      using parts(3) out by (fastforce simp: refs_ok_def db' image_iff)
  qed
  moreover have "log_ok db'"
  proof -
    have "event_revs db' k = event_revs db k" if "k \<notin> ?gone" for k
      using that by (auto simp: event_revs_def db')
    with parts(4) show ?thesis by (auto simp: log_ok_def db')
  qed
  moreover have "outbox_ok J db'" using parts(5) by (simp add: outbox_ok_def db')
  ultimately show ?thesis by (simp add: db_inv_def)
qed

lemma sql_delete_runs_frame:
  assumes "sql_delete_runs ids db = Inr (n, db')"
  shows "t_chains db' = t_chains db" "t_hosts db' = t_hosts db" "t_outbox db' = t_outbox db"
    and "set (t_runs db') = {r \<in> set (t_runs db). r_run_id r \<notin> set ids}"
  using assms by (auto simp: sql_delete_runs_def Let_def split: if_splits)

lemma delete_chains_inv:
  assumes inv: "db_inv J db" and del: "sql_delete_chains ids db = Inr (n, db')"
  shows "db_inv J db'"
proof -
  obtain m db1 where d1: "sql_delete_runs (map r_run_id (filter (\<lambda>r. r_chain_id r \<in> set ids) (t_runs db))) db = Inr (m, db1)"
    and db': "db' = db1\<lparr>t_chains := filter (\<lambda>c. c_chain_id c \<notin> set ids) (t_chains db1)\<rparr>"
    using del by (auto simp: sql_delete_chains_def result_simps)
  have inv1: "db_inv J db1" by (rule delete_runs_inv [OF inv d1])
  have "r_chain_id r \<notin> set ids" if "r \<in> set (t_runs db1)" for r
    using that sql_delete_runs_frame(4) [OF d1] by auto
  then have "fk_ok c_chain_id (t_chains db') (Some (r_chain_id r))" if "r \<in> set (t_runs db1)" for r
    using that inv1 fk_ok_filter [of c_chain_id "t_chains db1" "Some (r_chain_id r)" "set ids"]
    by (simp add: db' db_inv_def refs_ok_def del: fk_ok_Some)
  with inv1 show ?thesis
    by (simp add: db' db_inv_def rows_ok_def keys_ok_def refs_ok_def log_ok_def outbox_ok_def event_revs_def
        distinct_map_filterI)
qed

lemma delete_hosts_inv:
  assumes inv: "db_inv J db" and del: "sql_delete_hosts ids db = Inr (n, db')"
  shows "db_inv J db'"
proof -
  have db': "db' = db\<lparr>t_hosts := filter (\<lambda>h. h_instance_id h \<notin> set ids) (t_hosts db)\<rparr>"
    and used: "\<forall>r \<in> set (t_runs db). \<forall>k \<in> set ids. r_owner_instance_id r \<noteq> Some k"
    using del by (auto simp: sql_delete_hosts_def split: if_splits)
  have "fk_ok h_instance_id (t_hosts db') (r_owner_instance_id r)" if "r \<in> set (t_runs db)" for r
  proof -
    have t: "t_hosts db' = filter (\<lambda>h. h_instance_id h \<notin> set ids) (t_hosts db)" by (simp add: db')
    have "fk_ok h_instance_id (t_hosts db) (r_owner_instance_id r)"
      using that inv by (simp add: db_inv_def refs_ok_def)
    then show ?thesis unfolding t by (rule fk_ok_filter) (use that used in blast)
  qed
  with inv show ?thesis
    by (simp add: db' db_inv_def rows_ok_def keys_ok_def refs_ok_def log_ok_def outbox_ok_def event_revs_def
        distinct_map_filterI)
qed

lemma compact_tx_inv:
  assumes "db_inv J db" "compact_tx pk policy db = Inr (report, db')"
  shows "db_inv J db'"
proof -
  obtain db1 n2 db2 n3 db3 n4 where
    d: "db1 = snd (sql_delete_outbox (expired_outbox pk policy db) db)"
       "sql_delete_runs (expired_runs pk policy db1) db1 = Inr (n2, db2)"
       "sql_delete_chains (empty_chains pk policy db2) db2 = Inr (n3, db3)"
       "sql_delete_hosts (unused_hosts policy db3) db3 = Inr (n4, db')"
    using assms(2) by (auto simp: compact_tx_def result_simps database_err_def split: prod.splits)
  have "db_inv J db1" unfolding d(1) using assms(1) by (rule delete_outbox_inv)
  then have "db_inv J db2" using d(2) by (rule delete_runs_inv)
  then have "db_inv J db3" using d(3) by (rule delete_chains_inv)
  then show ?thesis using d(4) by (rule delete_hosts_inv)
qed

lemma insert_host_inv:
  assumes "db_inv J db" "sql_insert_host h db = Inr db'"
  shows "db_inv J db'"
proof -
  have db': "db' = db\<lparr>t_hosts := t_hosts db @ [h]\<rparr>" "h_instance_id h \<notin> set (map h_instance_id (t_hosts db))"
    using assms(2) by (auto simp: sql_insert_host_def split: if_splits)
  have "fk_ok h_instance_id (t_hosts db @ [h]) (r_owner_instance_id r)" if "r \<in> set (t_runs db)" for r
    using that assms(1) by (intro fk_ok_append) (simp add: db_inv_def refs_ok_def)
  with assms(1) db'(2) show ?thesis
    by (simp add: db'(1) db_inv_def rows_ok_def keys_ok_def refs_ok_def log_ok_def outbox_ok_def)
qed

lemma update_hosts_inv:
  assumes "db_inv J db" "\<And>h. h_instance_id (f h) = h_instance_id h"
  shows "db_inv J (snd (sql_update_hosts p f db))"
proof -
  have keys: "map h_instance_id (map (\<lambda>h. if p h then f h else h) (t_hosts db)) = map h_instance_id (t_hosts db)"
    using assms(2) by simp
  show ?thesis
    using assms(1) fk_ok_map [OF keys] keys
    by (simp add: sql_update_hosts_def db_inv_def rows_ok_def keys_ok_def refs_ok_def log_ok_def outbox_ok_def
        event_revs_def del: map_map)
qed

lemma update_outbox_inv:
  assumes "db_inv J db" "sql_update_outbox p f db = Inr (n, db')"
    and "\<And>q. o_delivery_id (f q) = o_delivery_id q" "\<And>q. o_source_event_id (f q) = o_source_event_id q"
    and "\<And>q. o_child_run_id (f q) = o_child_run_id q"
  shows "db_inv J db'"
proof -
  let ?g = "\<lambda>q. if p q then f q else q"
  have db': "db' = db\<lparr>t_outbox := map ?g (t_outbox db)\<rparr>"
    and chk: "\<forall>q \<in> set (t_outbox db). p q \<longrightarrow> outbox_checks_ok (f q)"
    using assms(2) by (auto simp: sql_update_outbox_def split: if_splits)
  have keys: "map o_delivery_id (map ?g (t_outbox db)) = map o_delivery_id (t_outbox db)"
    "map o_source_event_id (map ?g (t_outbox db)) = map o_source_event_id (t_outbox db)"
    using assms(3,4) by simp_all
  have "outbox_ok J db'" using assms(1,3) chk by (auto simp: outbox_ok_def db' db_inv_def)
  moreover have "keys_ok db'"
    using assms(1) keys by (simp add: db_inv_def keys_ok_def db' del: map_map)
  moreover have "refs_ok db'"
    using assms(1,4,5) by (auto simp: db_inv_def refs_ok_def db')
  ultimately show ?thesis
    using assms(1) by (simp add: db_inv_def rows_ok_def log_ok_def db')
qed

end
