(* ===== verification/Run_Calls.thy ===== *)
theory Run_Calls
  imports Run_Invariant
begin

text \<open>
  The calls of the run store as steps of a transition system. Every public method of
  \<open>SqliteRunStore\<close> (\<open>crates/n00n-runs/src/store.rs\<close>) that writes keeps the store invariant, whatever
  the environment does, so every store reached from an empty one satisfies it.
\<close>

section \<open>Calls of the store\<close>

definition store_inv :: "'j codec \<Rightarrow> 'j run_store \<Rightarrow> bool" where
  "store_inv J s \<longleftrightarrow> (codec_ok J \<longrightarrow> db_inv J (st_db s))"

lemma in_transaction_cases:
  assumes "in_transaction env body db = (res, db')"
  obtains (rolled_back) e where "res = Inl e" "db' = db"
    | (committed) x where "res = Inr x" "body db = Inr (x, db')"
  using assms
  by (auto simp: in_transaction_def bindR_def split: sum.splits option.splits prod.splits)

lemma notify_db [simp]: "st_db (notify rid s) = st_db s"
  by (simp add: notify_def)

lemma notify_project [simp]: "st_project_key (notify rid s) = st_project_key s"
  by (simp add: notify_def)

text \<open>A transaction that either replays without a change or changes the database under the invariant.\<close>

lemma finish_tx_inv:
  assumes inv: "store_inv J s"
    and tx: "\<And>record db'. codec_ok J \<Longrightarrow> db_inv J (st_db s) \<Longrightarrow> body (st_db s) = Inr ((record, True), db') \<Longrightarrow> db_inv J db'"
    and replay: "\<And>record db'. body (st_db s) = Inr ((record, False), db') \<Longrightarrow> db' = st_db s"
  shows "store_inv J (snd (finish_tx s (in_transaction env body (st_db s))))"
proof -
  obtain res db' where out: "in_transaction env body (st_db s) = (res, db')" by fastforce
  then show ?thesis
  proof (cases rule: in_transaction_cases)
    case (rolled_back e)
    with inv out show ?thesis by (simp add: finish_tx_def store_inv_def)
  next
    case (committed x)
    obtain r changed where x: "x = (r, changed)" by fastforce
    have "codec_ok J \<Longrightarrow> db_inv J db'"
      using tx replay committed(2) x inv by (cases changed) (auto simp: store_inv_def)
    with committed(1) out x show ?thesis by (simp add: finish_tx_def store_inv_def)
  qed
qed

lemma create_run_tx_replay:
  "create_run_tx J pk now eid spec db = Inr ((r, False), db') \<Longrightarrow> db' = db"
  by (auto simp: create_run_tx_def result_simps split: option.splits)

lemma transition_tx_replay:
  "transition_tx J pk now eid did failure rq db = Inr ((r, False), db') \<Longrightarrow> db' = db"
  by (auto simp: transition_tx_def result_simps split: option.splits if_splits prod.splits)

lemma resume_run_tx_replay:
  "resume_run_tx J pk now eid rid rq db = Inr ((r, False), db') \<Longrightarrow> db' = db"
  by (auto simp: resume_run_tx_def result_simps split: option.splits if_splits)

lemma transfer_owner_tx_replay:
  "transfer_owner_tx J pk now eid rid expected prior new_owner op db = Inr ((r, False), db') \<Longrightarrow> db' = db"
  by (auto simp: transfer_owner_tx_def result_simps split: option.splits if_splits prod.splits)

lemma import_legacy_tx_replay:
  "import_legacy_tx J pk created updated eid did lg db = Inr ((r, False), db') \<Longrightarrow> db' = db"
  by (auto simp: import_legacy_tx_def Let_def result_simps split: option.splits if_splits)

lemma create_run_store_inv:
  assumes "store_inv J s" shows "store_inv J (snd (create_run env J spec s))"
proof (cases "bindR (validate_title (ns_title spec)) (\<lambda>_. now_millis env)")
  case (Inr now)
  have "store_inv J (snd (finish_tx s (in_transaction env
      (create_run_tx J (st_project_key s) now (env_event_id env) spec) (st_db s))))"
    by (rule finish_tx_inv [OF assms]) (erule (1) create_run_tx_inv, erule create_run_tx_replay)
  with Inr show ?thesis by (simp add: create_run_def)
qed (simp add: create_run_def assms)

lemma transition_store_inv:
  assumes "store_inv J s" shows "store_inv J (snd (transition_with_failure env J failure rq s))"
proof (cases "now_millis env")
  case (Inr now)
  have "store_inv J (snd (finish_tx s (in_transaction env
      (transition_tx J (st_project_key s) now (env_event_id env) (env_delivery_id env) failure rq) (st_db s))))"
    by (rule finish_tx_inv [OF assms]) (erule (2) transition_tx_inv, erule transition_tx_replay)
  with Inr assms show ?thesis by (simp add: transition_with_failure_def)
qed (simp add: transition_with_failure_def assms)

lemma resume_run_store_inv:
  assumes "store_inv J s" shows "store_inv J (snd (resume_run env J rq s))"
proof (cases "now_millis env")
  case (Inr now)
  have "store_inv J (snd (finish_tx s (in_transaction env
      (resume_run_tx J (st_project_key s) now (env_event_id env) (env_run_id env) rq) (st_db s))))"
    by (rule finish_tx_inv [OF assms]) (erule (1) resume_run_tx_inv, erule resume_run_tx_replay)
  with Inr assms show ?thesis by (simp add: resume_run_def)
qed (simp add: resume_run_def assms)

lemma transfer_owner_store_inv:
  assumes "store_inv J s" shows "store_inv J (snd (transfer_owner env J rid expected prior new_owner op s))"
proof (cases "now_millis env")
  case (Inr now)
  have "store_inv J (snd (finish_tx s (in_transaction env
      (transfer_owner_tx J (st_project_key s) now (env_event_id env) rid expected prior new_owner op) (st_db s))))"
    by (rule finish_tx_inv [OF assms]) (erule (2) transfer_owner_tx_inv, erule transfer_owner_tx_replay)
  with Inr assms show ?thesis by (simp add: transfer_owner_def)
qed (simp add: transfer_owner_def assms)

lemma import_legacy_store_inv:
  assumes "store_inv J s" shows "store_inv J (snd (import_legacy_one env J lg s))"
proof (cases "bindR (u64_to_i64 (lg_created_at lg)) (\<lambda>created.
                bindR (u64_to_i64 (lg_updated_at lg)) (\<lambda>updated. Inr (created, updated)))")
  case (Inr times)
  obtain created updated where t: "times = (created, updated)" by fastforce
  have "store_inv J (snd (finish_tx s (in_transaction env
      (import_legacy_tx J (st_project_key s) created updated (env_event_id env) (env_delivery_id env) lg) (st_db s))))"
    by (rule finish_tx_inv [OF assms]) (erule (2) import_legacy_tx_inv, erule import_legacy_tx_replay)
  with Inr t assms show ?thesis by (simp add: import_legacy_one_def)
qed (simp add: import_legacy_one_def assms)

lemma plain_statement_inv:
  assumes "store_inv J s" "\<And>x db'. db_inv J (st_db s) \<Longrightarrow> body (st_db s) = Inr (x, db') \<Longrightarrow> db_inv J db'"
  shows "store_inv J (snd (plain_statement env body s))"
  using assms by (auto simp: plain_statement_def store_inv_def bindR_def split: sum.splits)

lemma register_host_store_inv:
  assumes "store_inv J s" shows "store_inv J (snd (register_host env env2 J identity s))"
  using assms
  by (auto simp: register_host_def result_simps database_err_def intro!: plain_statement_inv
      elim: insert_host_inv split: sum.splits)

lemma heartbeat_store_inv:
  assumes "store_inv J s" shows "store_inv J (snd (heartbeat_host env J iid s))"
proof (cases "now_millis env")
  case (Inr now)
  have "db_inv J (snd (sql_update_hosts (\<lambda>h. h_instance_id h = cd_id_text J iid \<and> h_shutdown_at h = None)
       (\<lambda>h. h\<lparr>h_heartbeat_at := now\<rparr>) db))" if "db_inv J db" for db
    by (rule update_hosts_inv [OF that]) simp
  with Inr assms show ?thesis
    by (auto simp: heartbeat_host_def intro!: plain_statement_inv split: prod.splits if_splits)
       (metis snd_conv)+
qed (simp add: heartbeat_host_def assms)

lemma shutdown_store_inv:
  assumes "store_inv J s" shows "store_inv J (snd (shutdown_host env J iid s))"
proof (cases "now_millis env")
  case (Inr now)
  have "db_inv J (snd (sql_update_hosts (\<lambda>h. h_instance_id h = cd_id_text J iid \<and> h_shutdown_at h = None)
       (\<lambda>h. h\<lparr>h_shutdown_at := Some now\<rparr>) db))" if "db_inv J db" for db
    by (rule update_hosts_inv [OF that]) simp
  with Inr assms show ?thesis
    by (auto simp: shutdown_host_def intro!: plain_statement_inv split: prod.splits if_splits)
       (metis snd_conv)+
qed (simp add: shutdown_host_def assms)

lemma update_outbox_store_inv:
  assumes "store_inv J s" "\<And>q. o_delivery_id (f q) = o_delivery_id q"
    "\<And>q. o_source_event_id (f q) = o_source_event_id q" "\<And>q. o_child_run_id (f q) = o_child_run_id q"
  shows "store_inv J (snd (update_outbox env J did states f s))"
  unfolding update_outbox_def
proof (rule plain_statement_inv [OF assms(1)])
  fix x db'
  assume "db_inv J (st_db s)" and eq: "bindR (database_err (sql_update_outbox
      (\<lambda>q. o_delivery_id q = cd_id_text J did \<and> o_state q \<in> states
         \<and> outbox_in_project (st_db s) (st_project_key s) q) f (st_db s))) (\<lambda>(changed, db').
      if changed = 0 then Inl (OutboxNotFound did) else Inr ((), db')) = Inr (x, db')"
  then show "db_inv J db'"
    by (auto simp: result_simps database_err_def split: if_splits intro: update_outbox_inv assms(2-4))
qed

lemma outbox_ops_store_inv:
  assumes "store_inv J s"
  shows "store_inv J (snd (mark_outbox_delivered env J did at s))"
    and "store_inv J (snd (acknowledge_outbox env J did at s))"
    and "store_inv J (snd (retry_outbox env J did next_at s))"
    and "store_inv J (snd (dead_letter_outbox env J did reason failed_at s))"
  unfolding mark_outbox_delivered_def acknowledge_outbox_def retry_outbox_def dead_letter_outbox_def
    if_distrib [of snd] if_distrib [of "store_inv J"]
  by (simp_all add: assms update_outbox_store_inv delivered_row_def acknowledged_row_def
      retried_row_def dead_letter_row_def)

lemma compact_store_inv:
  assumes "store_inv J s" shows "store_inv J (snd (compact env policy s))"
proof (cases "valid_limit (tp_max_rows policy)")
  case (Inr u)
  obtain res db where out: "in_transaction env (compact_tx (st_project_key s) policy) (st_db s) = (res, db)"
    by fastforce
  then have "codec_ok J \<Longrightarrow> db_inv J db"
    using assms by (cases rule: in_transaction_cases) (auto simp: store_inv_def elim: compact_tx_inv)
  with Inr out show ?thesis by (simp add: compact_def store_inv_def)
qed (simp add: compact_def assms)

lemma notification_db: "notification rid s = Inr s' \<Longrightarrow> st_db s' = st_db s"
  by (auto simp: notification_def split: if_splits)

lemma wait_for_revision_db: "st_db (snd (wait_for_revision ok rid after final rounds s)) = st_db s"
  by (auto simp: wait_for_revision_def notification_db split: sum.splits)

lemma wait_store_inv: "store_inv J s \<Longrightarrow> store_inv J (snd (wait_for_revision ok rid after final rounds s))"
  by (simp add: store_inv_def wait_for_revision_db)

lemma handle_store_inv: "st_db s' = st_db s \<Longrightarrow> store_inv J s \<Longrightarrow> store_inv J s'"
  by (simp add: store_inv_def)

section \<open>The store as a transition system\<close>

text \<open>
  One rule per transaction of a call, with every environment: faults, clock readings and generated
  identifiers are arbitrary. \<open>another_handle\<close> is another handle on the same database file, of the
  same or of another process: the database is shared, the rest belongs to the handle.
\<close>

inductive store_step :: "'j codec \<Rightarrow> 'j run_store \<Rightarrow> 'j run_store \<Rightarrow> bool" for J :: "'j codec" where
  another_handle: "st_db s' = st_db s \<Longrightarrow> store_step J s s'"
| step_create: "store_step J s (snd (create_run env J spec s))"
| step_transition: "store_step J s (snd (transition_with_failure env J failure rq s))"
| step_resume: "store_step J s (snd (resume_run env J resume s))"
| step_transfer: "store_step J s (snd (transfer_owner env J rid expected prior new_owner op s))"
| step_wait: "store_step J s (snd (wait_for_revision ok rid after final rounds s))"
| step_register: "store_step J s (snd (register_host env env2 J identity s))"
| step_heartbeat: "store_step J s (snd (heartbeat_host env J iid s))"
| step_shutdown: "store_step J s (snd (shutdown_host env J iid s))"
| step_import: "store_step J s (snd (import_legacy_one env J lg s))"
| step_compact: "store_step J s (snd (compact env retention s))"
| step_deliver: "store_step J s (snd (mark_outbox_delivered env J did at s))"
| step_acknowledge: "store_step J s (snd (acknowledge_outbox env J did at s))"
| step_retry: "store_step J s (snd (retry_outbox env J did next_at s))"
| step_dead_letter: "store_step J s (snd (dead_letter_outbox env J did reason failed_at s))"

definition store_initial :: "'j run_store \<Rightarrow> bool" where
  "store_initial s \<longleftrightarrow> st_db s = empty_db"

lemma store_step_inv: "store_step J s s' \<Longrightarrow> store_inv J s \<Longrightarrow> store_inv J s'"
  by (induction rule: store_step.induct)
    (simp_all add: create_run_store_inv transition_store_inv resume_run_store_inv transfer_owner_store_inv
      register_host_store_inv heartbeat_store_inv shutdown_store_inv import_legacy_store_inv
      compact_store_inv outbox_ops_store_inv wait_store_inv handle_store_inv)

interpretation store: invariant_system store_initial "store_step J" "store_inv J" for J
  by unfold_locales (auto simp: store_initial_def store_inv_def dest: store_step_inv)

section \<open>Calls of several transactions\<close>

text \<open>
  The import of legacy sessions and the reconciliation of stale hosts are sequences of steps. What
  other processes commit between two accesses of a reconciliation is a sequence of steps too.
\<close>

lemma import_legacy_sessions_steps: "(store_step J)\<^sup>*\<^sup>* s (snd (import_legacy_sessions envs J lgs s))"
proof (induction lgs arbitrary: s envs)
  case (Cons lg lgs)
  obtain res s' where one: "import_legacy_one (envs 0) J lg s = (res, s')" by fastforce
  have "store_step J s s'" using step_import [of J s "envs 0" lg] one by simp
  then have "(store_step J)\<^sup>*\<^sup>* s (snd (import_legacy_sessions (\<lambda>n. envs (Suc n)) J lgs s'))" "(store_step J)\<^sup>*\<^sup>* s s'"
    using Cons.IH [of s' "\<lambda>n. envs (Suc n)"] by (auto intro: converse_rtranclp_into_rtranclp)
  with one show ?case by (auto split: sum.splits prod.splits)
qed simp

lemma reconcile_runs_steps:
  assumes others: "\<And>n s. (store_step J)\<^sup>*\<^sup>* s (interfere others n s)"
  shows "(store_step J)\<^sup>*\<^sup>* s (snd (reconcile_runs envs others J host runs n report s))"
proof (induction runs arbitrary: n report s)
  case (Cons run runs)
  show ?case
  proof (cases "rr_owner_epoch run")
    case (Some epoch)
    obtain res s' where t: "transition (envs n) J (reconcile_request J host run epoch) (interfere others n s) = (res, s')"
      by fastforce
    have "store_step J (interfere others n s) s'"
      using step_transition [of J "interfere others n s" "envs n" NoFailure "reconcile_request J host run epoch"] t
      by (simp add: transition_def)
    with others [of s n] have s': "(store_step J)\<^sup>*\<^sup>* s s'" by (rule rtranclp.rtrancl_into_rtrancl)
    with Some t show ?thesis
      by (auto split: sum.splits intro: rtranclp_trans [OF s' Cons.IH])
  qed simp
qed simp

lemma reconcile_hosts_steps:
  assumes others: "\<And>n s. (store_step J)\<^sup>*\<^sup>* s (interfere others n s)"
  shows "(store_step J)\<^sup>*\<^sup>* s (snd (reconcile_hosts envs others J verify hosts n report s))"
proof (induction hosts arbitrary: n report s)
  case (Cons host hosts)
  let ?s0 = "interfere others n s"
  show ?case
  proof (cases "if hi_shutdown_at host \<noteq> None then HostGone else verify host")
    case HostGone
    show ?thesis
    proof (cases "active_runs_for_owner (envs n) J (hi_instance_id host) ?s0")
      case (Inr runs)
      obtain res s' where r: "reconcile_runs envs others J host runs (Suc n) report ?s0 = (res, s')" by fastforce
      have s': "(store_step J)\<^sup>*\<^sup>* s s'"
        using rtranclp_trans [OF others [of s n] reconcile_runs_steps [where others = others, OF others,
            of ?s0 envs host runs "Suc n" report]] r by simp
      with HostGone Inr r show ?thesis
        by (auto simp: Let_def split: sum.splits intro: rtranclp_trans [OF s' Cons.IH])
    qed (use HostGone others [of s n] in \<open>simp add: Let_def\<close>)
  qed (use Cons.IH in simp_all)
qed simp

lemma reconcile_stale_steps:
  assumes others: "\<And>n s. (store_step J)\<^sup>*\<^sup>* s (interfere others n s)"
  shows "(store_step J)\<^sup>*\<^sup>* s (snd (reconcile_stale envs others J verify policy s))"
  unfolding reconcile_stale_def
  by (auto split: sum.splits intro!: reconcile_hosts_steps others)

section \<open>Parent notices always pass validation\<close>

lemma btree_insert_size:
  "length (btree_insert k v m) \<le> Suc (length m)"
  "detail_bytes (btree_insert k v m) \<le> length k + length v + detail_bytes m"
  by (induction k v m rule: btree_insert.induct) (auto simp: detail_bytes_def)

lemma lifecycle_text_length: "length (lifecycle_text l) \<le> 13" "length (lifecycle_debug l) \<le> 12"
  by (cases l; simp)+

lemma wait_code_text_length: "length (wait_code_text c) \<le> 14"
  by (cases c) simp_all

lemma notice_details_size:
  fixes a b c :: str and w :: "str option"
  defines "m \<equiv> btree_of [(''child_run_id'', a), (''revision'', b), (''lifecycle'', c)]"
  shows "length m \<le> 3" "detail_bytes m \<le> 29 + length a + length b + length c"
proof -
  let ?m1 = "btree_insert ''child_run_id'' a []" and ?m2 = "\<lambda>m1. btree_insert ''revision'' b m1"
  have m: "m = btree_insert ''lifecycle'' c (?m2 ?m1)" by (simp only: m_def btree_of_def foldl.simps prod.case)
  show "length m \<le> 3"
    using btree_insert_size(1) [of "''lifecycle''" c "?m2 ?m1"] btree_insert_size(1) [of "''revision''" b ?m1]
      btree_insert_size(1) [of "''child_run_id''" a "[]"] unfolding m by simp
  show "detail_bytes m \<le> 29 + length a + length b + length c"
    using btree_insert_size(2) [of "''lifecycle''" c "?m2 ?m1"] btree_insert_size(2) [of "''revision''" b ?m1]
      btree_insert_size(2) [of "''child_run_id''" a "[]"] unfolding m by (simp add: detail_bytes_def)
qed

lemma outbox_payload_valid:
  assumes "codec_ok J" shows "validate_event (outbox_payload J rid revision lc reason) = Inr ()"
proof -
  let ?m = "btree_of [(''child_run_id'', cd_id_text J rid), (''revision'', show_u64 revision), (''lifecycle'', lifecycle_text lc)]"
  have small: "length (cd_id_text J rid) \<le> 36" using assms by (simp add: codec_ok_def)
  note size = notice_details_size [of "cd_id_text J rid" "show_u64 revision" "lifecycle_text lc"]
    small show_u64_length [of revision] lifecycle_text_length [of lc]
  show ?thesis
  proof (cases reason)
    case None
    with size show ?thesis
      by (simp add: validate_event_ok outbox_payload_def Let_def domain_limits del: foldl.simps)
  next
    case (Some w)
    let ?c = "wait_code_text (wr_code w)"
    show ?thesis
      using size Some btree_insert_size [of "''wait_reason''" ?c ?m] wait_code_text_length [of "wr_code w"]
      by (simp add: validate_event_ok outbox_payload_def Let_def domain_limits)
  qed
qed

end
