(* ===== verification/Run_Evolution.thy ===== *)
theory Run_Evolution
  imports Run_Calls
begin

text \<open>
  How the runs of the database change in one step of the store: a run keeps its row, advances by one
  revision along the lifecycle table, or is deleted after it ended; runs of other projects are not
  touched. The relation \<open>runs_evolve\<close> is the contract of every transaction of
  \<open>crates/n00n-runs/src/store.rs\<close>.
\<close>

section \<open>The contract\<close>

text \<open>One advance of a run: a transition along the lifecycle table, or a transfer of ownership.\<close>

definition advances :: "run_record \<Rightarrow> run_record \<Rightarrow> bool" where
  "advances rec rec' \<longleftrightarrow> \<not> is_terminal (rr_lifecycle rec) \<and> same_identity rec rec'
   \<and> uint (rr_revision rec') = uint (rr_revision rec) + 1
   \<and> (can_transition_to (rr_lifecycle rec) (rr_lifecycle rec')
        \<and> rr_owner_instance_id rec' = rr_owner_instance_id rec \<and> rr_owner_epoch rec' = rr_owner_epoch rec
      \<or> rr_lifecycle rec' = rr_lifecycle rec
        \<and> (\<exists>e e'. rr_owner_epoch rec = Some e \<and> rr_owner_epoch rec' = Some e' \<and> uint e' = uint e + 1))"

definition row_evolves :: "'j codec \<Rightarrow> 'j run_row \<Rightarrow> 'j run_row \<Rightarrow> bool" where
  "row_evolves J r r' \<longleftrightarrow> r' = r
     \<or> (\<exists>rec rec'. r = encode_run J rec \<and> r' = encode_run J rec' \<and> advances rec rec')"

definition terminal_row :: "'j run_row \<Rightarrow> bool" where
  "terminal_row r \<longleftrightarrow> (\<exists>l. r_lifecycle r = lifecycle_text l \<and> is_terminal l)"

definition runs_evolve :: "'j codec \<Rightarrow> str \<Rightarrow> 'j run_db \<Rightarrow> 'j run_db \<Rightarrow> bool" where
  "runs_evolve J pk db db' \<longleftrightarrow> (\<forall>r \<in> set (t_runs db).
     (\<forall>r' \<in> set (t_runs db'). r_run_id r' = r_run_id r \<longrightarrow> row_evolves J r r')
   \<and> (r_run_id r \<notin> r_run_id ` set (t_runs db') \<longrightarrow> terminal_row r)
   \<and> (\<not> run_in_project db pk r \<longrightarrow> r \<in> set (t_runs db')))"

lemma runs_evolve_kept:
  assumes "keys_ok db" "set (t_runs db') = set (t_runs db)"
  shows "runs_evolve J pk db db'"
  using assms distinct_key_unique [of r_run_id "t_runs db"]
  by (auto simp: runs_evolve_def keys_ok_def row_evolves_def)

lemma runs_evolve_append:
  assumes "keys_ok db" "t_runs db' = t_runs db @ [r0]" "r_run_id r0 \<notin> set (map r_run_id (t_runs db))"
  shows "runs_evolve J pk db db'"
  using assms distinct_key_unique [of r_run_id "t_runs db"]
  by (auto simp: runs_evolve_def keys_ok_def row_evolves_def)

lemma runs_evolve_replace:
  assumes keys: "keys_ok db" and mem: "encode_run J rec \<in> set (t_runs db)"
    and adv: "advances rec rec'" and proj: "run_in_project db pk (encode_run J rec)"
    and runs: "t_runs db' = t_runs (replace_run J rec rec' db)"
  shows "runs_evolve J pk db db'"
proof -
  have same: "r_run_id (encode_run J rec') = r_run_id (encode_run J rec)"
    using adv by (simp add: advances_def same_identity_def encode_run_def)
  have uniq: "x = y" if "x \<in> set (t_runs db)" "y \<in> set (t_runs db)" "r_run_id x = r_run_id y" for x y
    using keys that by (auto simp: keys_ok_def intro: distinct_key_unique)
  have ids: "map r_run_id (t_runs db') = map r_run_id (t_runs db)"
    unfolding runs by (rule replace_run_keys) (use adv in \<open>simp add: advances_def\<close>)
  show ?thesis unfolding runs_evolve_def
  proof (intro ballI conjI impI)
    fix r r' assume r: "r \<in> set (t_runs db)" "r' \<in> set (t_runs db')" "r_run_id r' = r_run_id r"
    from replace_run_mem [OF r(2) [unfolded runs]] show "row_evolves J r r'"
    proof
      assume "r' \<in> set (t_runs db) \<and> r' \<noteq> encode_run J rec"
      with uniq r show ?thesis by (auto simp: row_evolves_def)
    next
      assume "r' = encode_run J rec'"
      with r same uniq [OF _ mem] adv show ?thesis by (auto simp: row_evolves_def)
    qed
  next
    fix r assume "r \<in> set (t_runs db)" "r_run_id r \<notin> r_run_id ` set (t_runs db')"
    with ids show "terminal_row r" by (metis image_eqI list.set_map)
  next
    fix r assume "r \<in> set (t_runs db)" "\<not> run_in_project db pk r"
    with proj show "r \<in> set (t_runs db')" by (force simp: runs replace_run_def)
  qed
qed

lemma runs_evolve_delete:
  assumes keys: "keys_ok db" and sub: "set (t_runs db') \<subseteq> set (t_runs db)"
    and gone: "\<And>r. r \<in> set (t_runs db) \<Longrightarrow> r \<notin> set (t_runs db') \<Longrightarrow> terminal_row r \<and> run_in_project db pk r"
  shows "runs_evolve J pk db db'"
  using keys distinct_key_unique [of r_run_id "t_runs db"] sub gone
  by (auto simp: runs_evolve_def keys_ok_def row_evolves_def subset_iff) blast

section \<open>The transactions meet the contract\<close>

lemma transition_tx_evolves:
  assumes J: "codec_ok J" and inv: "db_inv J db"
    and tx: "transition_tx J pk now eid did failure rq db = Inr ((r, changed), db')"
  shows "runs_evolve J pk db db'"
proof (cases changed)
  case True
  with transition_tx_changed [OF J inv, of pk now eid did failure rq r db'] tx
  obtain current revision db2 where
    q: "query_run J db pk (tr_run_id rq) = Inr (Some current)" and
    t: "validate_transition (rr_lifecycle current) (tr_target rq) (tr_wait_reason rq) (tr_outcome rq) (tr_event rq) = Inr ()" and
    c: "checked_add_u64 (rr_revision current) 1 = Some revision" "uint revision \<le> i64_max" and
    e: "sql_insert_event (event_row_of J eid (tr_run_id rq) revision (tr_event_type rq) (tr_event rq)
          (tr_operation_id rq) (transition_fingerprint J rq) now)
         (replace_run J current (apply_transition rq now revision current) db) = Inr db2" and
    o: "notify_parent_tx J eid did rq current revision now db2 = Inr db'"
    by metis
  note cur = query_run_Some [OF J _ q]
  have parts: "rows_ok J db" "keys_ok db" using inv by (simp_all add: db_inv_def)
  have "advances current (apply_transition rq now revision current)"
    using same_identity_transition validate_transition_ok(1) [OF t] checked_add_u64_Some [OF c(1)]
    by (auto simp: advances_def apply_transition_def same_identity_def dest: can_transition_not_terminal)
  moreover have "t_runs db' = t_runs (replace_run J current (apply_transition rq now revision current) db)"
    using notify_parent_frame(1) [OF o] e by (auto simp: sql_insert_event_Inr)
  ultimately show ?thesis
    using runs_evolve_replace [OF parts(2) cur(1) [OF parts(1)]] cur(3) [OF parts(1)] by blast
next
  case False
  with transition_tx_replay [of J pk now eid did failure rq db r db'] tx inv show ?thesis
    by (auto simp: db_inv_def intro: runs_evolve_kept)
qed

lemma transfer_owner_tx_evolves:
  assumes J: "codec_ok J" and inv: "db_inv J db"
    and tx: "transfer_owner_tx J pk now eid rid expected prior new_owner op db = Inr ((r, changed), db')"
  shows "runs_evolve J pk db db'"
proof (cases changed)
  case True
  with transfer_owner_tx_changed [OF J inv, of pk now eid rid expected prior new_owner op r db'] tx
  obtain current revision epoch payload fp where
    q: "query_run J db pk rid = Inr (Some current)" and
    v: "verify_revision_and_owner current expected (Some prior) = Inr ()" and
    t: "\<not> is_terminal (rr_lifecycle current)" and
    c: "checked_add_u64 (rr_revision current) 1 = Some revision" and
    ce: "checked_add_u64 (of_epoch prior) 1 = Some epoch" and
    e: "sql_insert_event (event_row_of J eid rid revision ''owner_transferred'' payload op fp now)
         (replace_run J current (apply_owner new_owner epoch revision now current) db) = Inr db'"
    by metis
  note cur = query_run_Some [OF J _ q]
  have parts: "rows_ok J db" "keys_ok db" using inv by (simp_all add: db_inv_def)
  have "advances current (apply_owner new_owner epoch revision now current)"
    using same_identity_owner t verify_ok_owner [OF v] checked_add_u64_Some [OF c] checked_add_u64_Some [OF ce]
    by (auto simp: advances_def apply_owner_def same_identity_def)
  moreover have "t_runs db' = t_runs (replace_run J current (apply_owner new_owner epoch revision now current) db)"
    using e by (auto simp: sql_insert_event_Inr)
  ultimately show ?thesis
    using runs_evolve_replace [OF parts(2) cur(1) [OF parts(1)]] cur(3) [OF parts(1)] by blast
next
  case False
  with transfer_owner_tx_replay [of J pk now eid rid expected prior new_owner op db r db'] tx inv show ?thesis
    by (auto simp: db_inv_def intro: runs_evolve_kept)
qed

lemma create_run_tx_evolves:
  assumes inv: "db_inv J db" and tx: "create_run_tx J pk now eid spec db = Inr ((r, changed), db')"
  shows "runs_evolve J pk db db'"
proof (cases changed)
  case True
  with create_run_tx_changed [of J pk now eid spec db r db'] tx obtain db1 db2 e where
    "sql_insert_chain (new_chain_row J pk spec now) db = Inr db1" and
    i: "sql_insert_run (encode_run J (new_record spec now)) db1 = Inr db2" and
    "sql_insert_event e db2 = Inr db'"
    by metis
  then have "t_runs db1 = t_runs db" "t_runs db' = t_runs db2"
    by (auto simp: sql_insert_chain_Inr sql_insert_event_Inr)
  with sql_insert_run_Inr(1,7) [OF i] inv show ?thesis
    by (intro runs_evolve_append [of db db' "encode_run J (new_record spec now)"]) (simp_all add: db_inv_def)
next
  case False
  with create_run_tx_replay [of J pk now eid spec db r db'] tx inv show ?thesis
    by (auto simp: db_inv_def intro: runs_evolve_kept)
qed

lemma resume_run_tx_evolves:
  assumes inv: "db_inv J db" and tx: "resume_run_tx J pk now eid rid rq db = Inr ((r, changed), db')"
  shows "runs_evolve J pk db db'"
proof (cases changed)
  case True
  with resume_run_tx_changed [of J pk now eid rid rq db r db'] tx obtain prior db1 e where
    i: "sql_insert_run (encode_run J (resumed_record prior rid (rq_owner_instance_id rq) now)) db = Inr db1" and
    "sql_insert_event e db1 = Inr db'"
    by metis
  with sql_insert_run_Inr(1,7) [OF i] inv show ?thesis
    by (intro runs_evolve_append [of db db' "encode_run J (resumed_record prior rid (rq_owner_instance_id rq) now)"])
      (auto simp: db_inv_def sql_insert_event_Inr)
next
  case False
  with resume_run_tx_replay [of J pk now eid rid rq db r db'] tx inv show ?thesis
    by (auto simp: db_inv_def intro: runs_evolve_kept)
qed

lemma import_legacy_tx_evolves:
  assumes inv: "db_inv J db" and tx: "import_legacy_tx J pk created updated eid did lg db = Inr ((r, changed), db')"
  shows "runs_evolve J pk db db'"
proof (cases changed)
  case True
  with import_legacy_tx_changed [of J pk created updated eid did lg db r db'] tx obtain db1 db2 db3 c rec e lc where
    "sql_insert_chain c db = Inr db1" and i: "sql_insert_run (encode_run J rec) db1 = Inr db2" and
    "sql_insert_event e db2 = Inr db3" and
    "(\<exists>rec. insert_outbox_if_parent J did rec eid 1 lc None updated db3 = Inr db') \<or> db' = db3"
    by metis
  then have "t_runs db1 = t_runs db" "t_runs db' = t_runs db2"
    by (auto simp: sql_insert_chain_Inr sql_insert_event_Inr insert_outbox_frame)
  with sql_insert_run_Inr(1,7) [OF i] inv show ?thesis
    by (intro runs_evolve_append [of db db' "encode_run J rec"]) (simp_all add: db_inv_def)
next
  case False
  with import_legacy_tx_replay [of J pk created updated eid did lg db r db'] tx inv show ?thesis
    by (auto simp: db_inv_def intro: runs_evolve_kept)
qed

text \<open>Retention deletes only what its queries selected.\<close>

lemma terminal_sql: "lifecycle_text l \<in> set TERMINAL_LIFECYCLES_SQL \<longleftrightarrow> is_terminal l"
  by (cases l) (simp_all add: TERMINAL_LIFECYCLES_SQL_def)

lemma active_sql: "lifecycle_text l \<in> set ACTIVE_LIFECYCLES_SQL \<longleftrightarrow> \<not> is_terminal l"
  by (cases l) (simp_all add: ACTIVE_LIFECYCLES_SQL_def)

lemma set_take_order_by: "x \<in> set (take n (order_by le xs)) \<Longrightarrow> x \<in> set xs"
  by (metis in_set_takeD set_order_by)

lemma empty_chains_unused:
  "c \<in> set (empty_chains pk policy db) \<Longrightarrow> r \<in> set (t_runs db) \<Longrightarrow> r_chain_id r \<noteq> c"
  by (auto simp: empty_chains_def dest!: in_set_takeD)

lemma sql_delete_no_runs: "sql_delete_runs [] db = Inr (0, db)"
  by (simp add: sql_delete_runs_def)

lemma delete_empty_chains:
  "sql_delete_chains (empty_chains pk policy db) db = Inr (n, db') \<Longrightarrow>
   db' = db\<lparr>t_chains := filter (\<lambda>c. c_chain_id c \<notin> set (empty_chains pk policy db)) (t_chains db)\<rparr>"
proof -
  have "filter (\<lambda>r. r_chain_id r \<in> set (empty_chains pk policy db)) (t_runs db) = []"
    by (auto simp: filter_empty_conv dest: empty_chains_unused)
  then show "sql_delete_chains (empty_chains pk policy db) db = Inr (n, db') \<Longrightarrow>
    db' = db\<lparr>t_chains := filter (\<lambda>c. c_chain_id c \<notin> set (empty_chains pk policy db)) (t_chains db)\<rparr>"
    by (auto simp: sql_delete_chains_def sql_delete_no_runs result_simps)
qed

lemma expired_runs_terminal:
  assumes "k \<in> set (expired_runs pk policy db)"
  shows "\<exists>r \<in> set (t_runs db). r_run_id r = k \<and> run_in_project db pk r
      \<and> r_lifecycle r \<in> set TERMINAL_LIFECYCLES_SQL \<and> lt_null (r_finished_at r) (tp_terminal_before policy)"
    and "\<forall>q \<in> set (t_outbox db). o_child_run_id q \<noteq> k"
    and "\<forall>c \<in> set (t_runs db). r_predecessor_run_id c \<noteq> Some k \<and> r_parent_run_id c \<noteq> Some k"
  using assms by (auto simp: expired_runs_def dest!: set_take_order_by)

lemma compact_tx_stages:
  assumes "compact_tx pk policy db = Inr (report, db')"
  obtains db1 db2 db3 where
    "db1 = db\<lparr>t_outbox := filter (\<lambda>q. o_delivery_id q \<notin> set (expired_outbox pk policy db)) (t_outbox db)\<rparr>"
    "sql_delete_runs (expired_runs pk policy db1) db1 = Inr (tt_runs report, db2)"
    "db3 = db2\<lparr>t_chains := filter (\<lambda>c. c_chain_id c \<notin> set (empty_chains pk policy db2)) (t_chains db2)\<rparr>"
    "db' = db3\<lparr>t_hosts := filter (\<lambda>h. h_instance_id h \<notin> set (unused_hosts policy db3)) (t_hosts db3)\<rparr>"
  using assms
  by (auto simp: compact_tx_def sql_delete_outbox_def result_simps database_err_def sql_delete_hosts_def
      dest!: delete_empty_chains split: if_splits)

lemma terminal_row_encode [simp]: "terminal_row (encode_run J rec) \<longleftrightarrow> is_terminal (rr_lifecycle rec)"
  by (auto simp: terminal_row_def encode_run_def)

lemma compact_tx_deletes:
  assumes inv: "db_inv J db" and tx: "compact_tx pk policy db = Inr (report, db')"
  shows "set (t_runs db') \<subseteq> set (t_runs db)"
    and "r \<in> set (t_runs db) \<Longrightarrow> r \<notin> set (t_runs db') \<Longrightarrow>
      run_in_project db pk r \<and> terminal_row r \<and> lt_null (r_finished_at r) (tp_terminal_before policy)
      \<and> (\<forall>q \<in> set (t_outbox db'). o_child_run_id q \<noteq> r_run_id r)
      \<and> (\<forall>c \<in> set (t_runs db). r_predecessor_run_id c \<noteq> Some (r_run_id r) \<and> r_parent_run_id c \<noteq> Some (r_run_id r))"
proof -
  obtain db1 db2 db3 where
    st: "db1 = db\<lparr>t_outbox := filter (\<lambda>q. o_delivery_id q \<notin> set (expired_outbox pk policy db)) (t_outbox db)\<rparr>"
    "db3 = db2\<lparr>t_chains := filter (\<lambda>c. c_chain_id c \<notin> set (empty_chains pk policy db2)) (t_chains db2)\<rparr>"
    "db' = db3\<lparr>t_hosts := filter (\<lambda>h. h_instance_id h \<notin> set (unused_hosts policy db3)) (t_hosts db3)\<rparr>" and
    del: "sql_delete_runs (expired_runs pk policy db1) db1 = Inr (tt_runs report, db2)"
    by (rule compact_tx_stages [OF tx]) blast
  have frame: "t_runs db1 = t_runs db" "t_chains db1 = t_chains db" "t_outbox db' = t_outbox db1" "t_runs db' = t_runs db2"
    using st sql_delete_runs_frame(3) [OF del] by simp_all
  show "set (t_runs db') \<subseteq> set (t_runs db)" using sql_delete_runs_frame(4) [OF del] frame by auto
  assume r: "r \<in> set (t_runs db)" "r \<notin> set (t_runs db')"
  then have gone: "r_run_id r \<in> set (expired_runs pk policy db1)"
    using sql_delete_runs_frame(4) [OF del] frame by auto
  then obtain r1 where r1: "r1 \<in> set (t_runs db)" "r_run_id r1 = r_run_id r" "run_in_project db1 pk r1"
    "r_lifecycle r1 \<in> set TERMINAL_LIFECYCLES_SQL" "lt_null (r_finished_at r1) (tp_terminal_before policy)"
    using expired_runs_terminal(1) frame(1) by metis
  have "r1 = r" using inv r1(1,2) r(1) by (auto simp: db_inv_def keys_ok_def intro: distinct_key_unique)
  moreover obtain rec where "r = encode_run J rec" using inv r(1) by (auto simp: db_inv_def rows_ok_def)
  ultimately have "terminal_row r" "run_in_project db pk r"
    using r1 frame(2) by (auto simp: encode_run_def terminal_row_def terminal_sql run_in_project_def)
  with r1 \<open>r1 = r\<close> expired_runs_terminal(2,3) [OF gone] frame
  show "run_in_project db pk r \<and> terminal_row r \<and> lt_null (r_finished_at r) (tp_terminal_before policy)
      \<and> (\<forall>q \<in> set (t_outbox db'). o_child_run_id q \<noteq> r_run_id r)
      \<and> (\<forall>c \<in> set (t_runs db). r_predecessor_run_id c \<noteq> Some (r_run_id r) \<and> r_parent_run_id c \<noteq> Some (r_run_id r))"
    by metis
qed

lemma compact_tx_evolves:
  assumes inv: "db_inv J db" and tx: "compact_tx pk policy db = Inr (report, db')"
  shows "runs_evolve J pk db db'"
  by (rule runs_evolve_delete) (use inv compact_tx_deletes [OF inv tx] in \<open>auto simp: db_inv_def\<close>)

text \<open>The foreign keys never refuse a compaction.\<close>

lemma delete_expired_runs_ok:
  assumes "refs_ok db" "keys_ok db" shows "\<exists>n db'. sql_delete_runs (expired_runs pk policy db) db = Inr (n, db')"
proof -
  let ?ids = "set (expired_runs pk policy db)"
  have "o_source_event_id q \<noteq> e_event_id e"
    if q: "q \<in> set (t_outbox db)" and e: "e \<in> set (t_events db)" "e_run_id e \<in> ?ids" for q e
  proof
    assume eq: "o_source_event_id q = e_event_id e"
    from assms(1) q obtain e' where e': "e' \<in> set (t_events db)" "e_event_id e' = o_source_event_id q"
      "e_run_id e' = o_child_run_id q" by (auto simp: refs_ok_def)
    with eq e(1) assms(2) have "e' = e" by (auto simp: keys_ok_def intro: distinct_key_unique)
    with e'(3) e(2) q expired_runs_terminal(2) show False by metis
  qed
  moreover have "\<forall>q \<in> set (t_outbox db). o_child_run_id q \<notin> ?ids"
    using expired_runs_terminal(2) by metis
  moreover have "\<forall>r \<in> set (t_runs db). \<forall>k \<in> ?ids. r_predecessor_run_id r \<noteq> Some k \<and> r_parent_run_id r \<noteq> Some k"
    using expired_runs_terminal(3) by metis
  ultimately show ?thesis unfolding sql_delete_runs_def Let_def by fastforce
qed

lemma compact_tx_ok:
  assumes inv: "db_inv J db" and lim: "int (tp_max_rows policy) \<le> i64_max"
  shows "\<exists>report db'. compact_tx pk policy db = Inr (report, db')"
proof -
  obtain n1 db1 where d1: "sql_delete_outbox (expired_outbox pk policy db) db = (n1, db1)" by fastforce
  have inv1: "db_inv J db1" using delete_outbox_inv [OF inv] d1 by (metis snd_conv)
  obtain n2 db2 where d2: "sql_delete_runs (expired_runs pk policy db1) db1 = Inr (n2, db2)"
    using delete_expired_runs_ok [of db1 pk policy] inv1 by (auto simp: db_inv_def)
  have none: "filter (\<lambda>r. r_chain_id r \<in> set (empty_chains pk policy db2)) (t_runs db2) = []"
    by (auto simp: filter_empty_conv dest: empty_chains_unused)
  obtain n3 db3 where d3: "sql_delete_chains (empty_chains pk policy db2) db2 = Inr (n3, db3)"
    unfolding sql_delete_chains_def none by (simp add: sql_delete_no_runs bindR_def)
  have "r_owner_instance_id r \<noteq> Some k" if "r \<in> set (t_runs db3)" "k \<in> set (unused_hosts policy db3)" for r k
    using that by (auto simp: unused_hosts_def dest!: in_set_takeD)
  then obtain n4 db4 where d4: "sql_delete_hosts (unused_hosts policy db3) db3 = Inr (n4, db4)"
    by (auto simp: sql_delete_hosts_def)
  show ?thesis
    using lim d1 d2 d3 d4 by (simp add: compact_tx_def usize_to_i64_def bindR_def database_err_def map_err_def)
qed


section \<open>Every step of the store meets the contract\<close>

lemma evolves_finish_tx:
  assumes inv: "db_inv J (st_db s)"
    and tx: "\<And>r changed db'. body (st_db s) = Inr ((r, changed), db') \<Longrightarrow> runs_evolve J pk (st_db s) db'"
  shows "runs_evolve J pk (st_db s) (st_db (snd (finish_tx s (in_transaction env body (st_db s)))))"
proof -
  have kept: "runs_evolve J pk (st_db s) (st_db s)" using inv by (auto simp: db_inv_def intro: runs_evolve_kept)
  obtain res db' where out: "in_transaction env body (st_db s) = (res, db')" by fastforce
  then show ?thesis
  proof (cases rule: in_transaction_cases)
    case (rolled_back e)
    with out kept show ?thesis by (simp add: finish_tx_def)
  next
    case (committed x)
    obtain r changed where x: "x = (r, changed)" by fastforce
    with committed tx have "runs_evolve J pk (st_db s) db'" by simp
    with committed(1) out x show ?thesis by (simp add: finish_tx_def)
  qed
qed

lemma plain_statement_runs:
  assumes "\<And>x db'. body (st_db s) = Inr (x, db') \<Longrightarrow> t_runs db' = t_runs (st_db s)"
  shows "t_runs (st_db (snd (plain_statement env body s))) = t_runs (st_db s)"
  using assms by (auto simp: plain_statement_def bindR_def split: sum.splits)

lemma update_outbox_runs: "t_runs (st_db (snd (update_outbox env J did states f s))) = t_runs (st_db s)"
  unfolding update_outbox_def
  by (rule plain_statement_runs) (auto simp: result_simps database_err_def sql_update_outbox_def split: if_splits)

lemma sql_insert_host_runs: "sql_insert_host h db = Inr db' \<Longrightarrow> t_runs db' = t_runs db"
  by (auto simp: sql_insert_host_def split: if_splits)

lemma sql_update_hosts_runs: "sql_update_hosts p f db = (n, db') \<Longrightarrow> t_runs db' = t_runs db"
  by (auto simp: sql_update_hosts_def)

lemma register_host_runs: "t_runs (st_db (snd (register_host env env2 J identity s))) = t_runs (st_db s)"
  unfolding register_host_def
  by (auto split: sum.splits prod.splits intro!: plain_statement_runs simp: bindR_eq_Inr database_err_def result_simps
      dest!: sql_insert_host_runs)

lemma heartbeat_host_runs: "t_runs (st_db (snd (heartbeat_host env J iid s))) = t_runs (st_db s)"
  unfolding heartbeat_host_def
  by (auto split: sum.splits prod.splits if_splits intro!: plain_statement_runs dest: sql_update_hosts_runs)

lemma shutdown_host_runs: "t_runs (st_db (snd (shutdown_host env J iid s))) = t_runs (st_db s)"
  unfolding shutdown_host_def
  by (auto split: sum.splits prod.splits if_splits intro!: plain_statement_runs dest: sql_update_hosts_runs)

lemmas host_calls_runs = register_host_runs heartbeat_host_runs shutdown_host_runs

lemma outbox_calls_runs:
  "t_runs (st_db (snd (mark_outbox_delivered env J did at s))) = t_runs (st_db s)"
  "t_runs (st_db (snd (acknowledge_outbox env J did at s))) = t_runs (st_db s)"
  "t_runs (st_db (snd (retry_outbox env J did next_at s))) = t_runs (st_db s)"
  "t_runs (st_db (snd (dead_letter_outbox env J did reason failed_at s))) = t_runs (st_db s)"
  by (simp_all add: mark_outbox_delivered_def acknowledge_outbox_def retry_outbox_def dead_letter_outbox_def
      update_outbox_runs)

lemma store_step_evolves:
  assumes J: "codec_ok J" and inv: "db_inv J (st_db s)" and step: "store_step J s s'"
  shows "runs_evolve J (st_project_key s) (st_db s) (st_db s')"
proof -
  note kept = runs_evolve_kept [of "st_db s"]
  have keys: "keys_ok (st_db s)" using inv by (simp add: db_inv_def)
  have same: "runs_evolve J (st_project_key s) (st_db s) (st_db s)" by (rule kept [OF keys]) simp
  from step show ?thesis
  proof cases
    case (step_create env spec)
    show ?thesis unfolding step_create create_run_def
      by (auto simp: same split: sum.splits intro!: evolves_finish_tx [OF inv] elim: create_run_tx_evolves [OF inv])
  next
    case (step_transition env failure rq)
    show ?thesis unfolding step_transition transition_with_failure_def
      by (auto simp: same split: sum.splits intro!: evolves_finish_tx [OF inv] elim: transition_tx_evolves [OF J inv])
  next
    case (step_resume env rq)
    show ?thesis unfolding step_resume resume_run_def
      by (auto simp: same split: sum.splits intro!: evolves_finish_tx [OF inv] elim: resume_run_tx_evolves [OF inv])
  next
    case (step_transfer env rid expected prior new_owner op)
    show ?thesis unfolding step_transfer transfer_owner_def
      by (auto simp: same split: sum.splits intro!: evolves_finish_tx [OF inv] elim: transfer_owner_tx_evolves [OF J inv])
  next
    case (step_import env lg)
    show ?thesis unfolding step_import import_legacy_one_def
      by (auto simp: same split: sum.splits intro!: evolves_finish_tx [OF inv] elim: import_legacy_tx_evolves [OF inv])
  next
    case (step_compact env retention)
    obtain res db where out: "in_transaction env (compact_tx (st_project_key s) retention) (st_db s) = (res, db)"
      by fastforce
    then have "runs_evolve J (st_project_key s) (st_db s) db"
      using same by (cases rule: in_transaction_cases) (auto elim: compact_tx_evolves [OF inv])
    with same out show ?thesis unfolding step_compact compact_def by (simp split: sum.splits)
  qed (auto intro!: kept [OF keys] simp: host_calls_runs outbox_calls_runs wait_for_revision_db)
qed

end
