(* ===== verification/Run_Examples.thy ===== *)
theory Run_Examples
  imports Run_Calls
begin

text \<open>
  A concrete codec, environment and store. The codec prints a small UUID as one character and any
  other as thirty-two hexadecimal digits, and keeps the values of JSON columns as they are; it shows that \<open>codec_ok\<close> can hold, and the
  properties are applied to the stores built from it.
\<close>

section \<open>A codec\<close>

datatype demo_json =
    JCaps run_capabilities | JOutcome run_outcome | JPayload run_event_payload | JIdentity process_identity

primrec hex_digits :: "nat \<Rightarrow> nat \<Rightarrow> str" where
  "hex_digits 0 n = []"
| "hex_digits (Suc k) n = char_of (n mod 16) # hex_digits k (n div 16)"

primrec hex_value :: "str \<Rightarrow> nat" where
  "hex_value [] = 0"
| "hex_value (c # cs) = of_char c + 16 * hex_value cs"

lemma hex_value_digits: "hex_value (hex_digits k n) = n mod 16 ^ k"
proof (induction k arbitrary: n)
  case (Suc k)
  have "of_char (char_of (n mod 16) :: char) = n mod 16" by (simp add: mod_mod_cancel)
  then show ?case by (simp add: Suc mod_mult2_eq)
qed simp

lemma length_hex_digits [simp]: "length (hex_digits k n) = k"
  by (induction k arbitrary: n) simp_all

definition demo_id_text :: "uuid \<Rightarrow> str" where
  "demo_id_text u = (if u < 64 then [char_of (unat u + 64)] else hex_digits 32 (unat u))"

definition demo_parse_id :: "str \<Rightarrow> uuid option" where
  "demo_parse_id s = (case s of [c] \<Rightarrow> Some (word_of_nat (of_char c - 64)) | _ \<Rightarrow> Some (word_of_nat (hex_value s)))"

lemma demo_id_roundtrip: "demo_parse_id (demo_id_text u) = Some u"
proof (cases "u < 64")
  case True
  then have "unat u < 64" by (simp add: word_less_nat_alt)
  then have "of_char (char_of (unat u + 64) :: char) = unat u + 64" by simp
  with True show ?thesis by (simp add: demo_parse_id_def demo_id_text_def)
next
  case False
  have "unat u < 2 ^ 128" using unsigned_less [of u] by (simp only: len_num1 len_bit0 len_num0) simp
  then have "unat u < 16 ^ 32" by simp
  then have digits: "hex_value (hex_digits 32 (unat u)) = unat u" by (simp only: hex_value_digits mod_less)
  have "hex_digits (Suc (Suc 30)) n = char_of (n mod 16) # char_of (n div 16 mod 16) # hex_digits 30 (n div 16 div 16)" for n
    by (simp only: hex_digits.simps)
  moreover have "Suc (Suc 30) = 32" by simp
  ultimately obtain a b cs where "hex_digits 32 (unat u) = a # b # cs" by metis
  with False digits show ?thesis by (simp add: demo_parse_id_def demo_id_text_def)
qed

definition demo_codec :: "demo_json codec" where
  "demo_codec = \<lparr>
     cd_id_text = demo_id_text, cd_id_debug = demo_id_text, cd_parse_id = demo_parse_id,
     cd_uuid_v5 = (\<lambda>s. word_of_nat (hex_value s)),
     cd_json_caps = JCaps,
     cd_parse_caps = (\<lambda>j. case j of JCaps v \<Rightarrow> Some v | _ \<Rightarrow> None),
     cd_json_outcome = JOutcome,
     cd_parse_outcome = (\<lambda>j. case j of JOutcome v \<Rightarrow> Some v | _ \<Rightarrow> None),
     cd_json_payload = JPayload,
     cd_parse_payload = (\<lambda>j. case j of JPayload v \<Rightarrow> Some v | _ \<Rightarrow> None),
     cd_json_identity = JIdentity,
     cd_parse_identity = (\<lambda>j. case j of JIdentity v \<Rightarrow> Some v | _ \<Rightarrow> None),
     cd_json_request = (\<lambda>(rid, rev', owner, target, _). demo_id_text rid @ lifecycle_text target)\<rparr>"

lemma demo_id_length: "length (demo_id_text u) \<le> 36"
  by (simp add: demo_id_text_def)

lemma codec_ok_demo [simp]: "codec_ok demo_codec"
  by (simp add: codec_ok_def demo_codec_def demo_id_roundtrip demo_id_length)

section \<open>An environment and a store\<close>

definition demo_env :: "nat \<Rightarrow> store_env" where
  "demo_env n = \<lparr>env_clock = int n, env_open = None, env_journal = ''wal'', env_journal_after = ''wal'',
     env_begin = None, env_commit = None, env_event_id = word_of_nat n,
     env_delivery_id = word_of_nat n, env_run_id = word_of_nat n, env_host_id = word_of_nat n\<rparr>"

definition demo_store :: "demo_json run_store" where
  "demo_store = \<lparr>st_project_key = ''/p'', st_db = empty_db, st_notifications = Map.empty, st_poisoned = False\<rparr>"

definition demo_spec :: new_run_spec where
  "demo_spec = \<lparr>ns_chain_id = 1, ns_run_id = 2, ns_kind = KTask, ns_title = ''t'',
     ns_root_session_id = None, ns_backend = TuiSession, ns_session_id = None,
     ns_workflow_journal_id = None, ns_parent_run_id = None, ns_parent_session_id = Some ''s'',
     ns_capabilities = default_capabilities\<lparr>cap_resume := True\<rparr>, ns_owner_instance_id = None\<rparr>"

definition demo_request :: "u64 \<Rightarrow> run_lifecycle \<Rightarrow> run_outcome option \<Rightarrow> str \<Rightarrow> transition_request" where
  "demo_request revision target outcome op = \<lparr>tr_run_id = 2, tr_expected_revision = revision, tr_owner = None,
     tr_target = target, tr_wait_reason = None, tr_outcome = outcome, tr_event_type = ''e'',
     tr_event = empty_payload, tr_operation_id = op, tr_progress = False\<rparr>"

definition demo_created :: "demo_json run_store" where
  "demo_created = snd (create_run (demo_env 10) demo_codec demo_spec demo_store)"

definition demo_start :: transition_request where
  "demo_start = demo_request 1 Starting None ''a''"

definition demo_started :: "demo_json run_store" where
  "demo_started = snd (transition (demo_env 11) demo_codec demo_start demo_created)"


text \<open>The defining equations that evaluate the calls of the store on concrete arguments.\<close>

lemmas call_eval = create_run_def create_run_tx_def transition_def transition_with_failure_def transition_tx_def
  bindR_def map_err_def ok_or_def transposeR_def collectR.simps
  validate_title_def domain_limits now_millis_def in_transaction_def finish_tx_def connection_def
  eq_ignore_ascii_case_def i64_max_def u64_to_i64_def i64_to_u64_def
  query_run_def require_run_def require_parent_def require_owner_def database_err_def
  sql_insert_chain_def sql_insert_run_def sql_insert_event_def sql_insert_outbox_def sql_update_runs_def
  new_chain_row_def new_run_row_def transition_row_def notify_parent_tx_def should_notify_parent_def
  insert_event_def validate_event_def verify_revision_and_owner_def injected_failure_def
  idempotent_result_def transition_fingerprint_def checked_add_u64_def
  run_checks_ok_def outbox_checks_ok_def detail_bytes_def validate_opt_text_def validate_text_def
  decode_run_def decode_wait_reason_def run_in_project_def parse_enum_def parse_json_def parse_id_def
  parse_backend_def parse_lifecycle_def all_lifecycles_def notify_def saturating_add_u64_def
  validate_transition_def can_transition_to_def empty_payload_def
  validate_outcome_def outcome_of_status_def fk_ok_def

lemmas demo_eval = demo_env_def demo_spec_def demo_store_def demo_codec_def demo_request_def empty_db_def demo_id_text_def demo_parse_id_def

lemma demo_operation_ids [simp]: "\<not> ascii_ws CHR ''a''" "\<not> ascii_ws CHR ''b''" "\<not> ascii_ws CHR ''c''"
  by code_simp+

definition demo_run :: run_record where
  "demo_run = new_record demo_spec 10"

definition demo_event :: "demo_json event_row" where
  "demo_event = event_row_of demo_codec 10 2 1 ''run_created'' \<lparr>ep_summary = Some ''Run queued'', ep_details = []\<rparr>
     (''create:'' @ demo_id_text 2) (''create:'' @ demo_id_text 1 @ '':'' @ demo_id_text 2) 10"

lemmas demo_rows = demo_run_def new_record_def encode_run_def demo_event_def event_row_of_def apply_transition_def
  call_eval demo_eval Let_def

lemma demo_created_eq: "create_run (demo_env 10) demo_codec demo_spec demo_store = (Inr demo_run, demo_store\<lparr>
    st_db := empty_db\<lparr>t_chains := [new_chain_row demo_codec ''/p'' demo_spec 10],
      t_runs := [encode_run demo_codec demo_run], t_events := [demo_event]\<rparr>,
    st_notifications := [2 \<mapsto> 1]\<rparr>)"
  by (simp add: demo_rows)

lemma demo_started_eq: "transition (demo_env 11) demo_codec demo_start demo_created =
   (Inr (apply_transition demo_start 11 2 demo_run), demo_created\<lparr>
    st_db := (st_db demo_created)\<lparr>t_runs := [encode_run demo_codec (apply_transition demo_start 11 2 demo_run)],
      t_events := [demo_event, event_row_of demo_codec 11 2 2 ''e'' empty_payload ''a''
        (transition_fingerprint demo_codec demo_start) 11]\<rparr>,
    st_notifications := [2 \<mapsto> 2]\<rparr>)"
  by (simp add: demo_created_def demo_created_eq demo_start_def demo_rows)

definition demo_fail :: transition_request where
  "demo_fail = demo_request 2 Failed (Some (outcome_of_status OFailed)) ''b''"

definition demo_notice :: "demo_json outbox_row" where
  "demo_notice = outbox_row_of demo_codec 12 12 2 ''s'' (outbox_payload demo_codec 2 3 Failed None) 12"

lemma demo_failed_eq: "transition (demo_env 12) demo_codec demo_fail demo_started =
   (Inr (apply_transition demo_fail 12 3 (apply_transition demo_start 11 2 demo_run)), demo_started\<lparr>
    st_db := (st_db demo_started)\<lparr>
      t_runs := [encode_run demo_codec (apply_transition demo_fail 12 3 (apply_transition demo_start 11 2 demo_run))],
      t_events := t_events (st_db demo_started) @ [event_row_of demo_codec 12 2 3 ''e'' empty_payload ''b''
        (transition_fingerprint demo_codec demo_fail) 12], t_outbox := [demo_notice]\<rparr>,
    st_notifications := [2 \<mapsto> 3]\<rparr>)"
  using outbox_payload_valid [OF codec_ok_demo, of 2 3 Failed None]
  by (simp add: demo_notice_def insert_outbox_if_parent_def outbox_row_of_def demo_started_def demo_started_eq demo_created_def demo_created_eq demo_start_def demo_fail_def demo_rows)

end
