(* ===== verification/Run_Guarantees.thy ===== *)
theory Run_Guarantees
  imports Run_Evolution Run_Examples
begin

text \<open>
  What the run store (\<open>crates/n00n-runs/src/store.rs\<close>) guarantees to its callers, each guarantee with
  an application to a concrete store.
\<close>

section \<open>Facts shared by the guarantees\<close>

lemma reachable_inv:
  "codec_ok J \<Longrightarrow> store_initial s0 \<Longrightarrow> (store_step J)\<^sup>*\<^sup>* s0 s \<Longrightarrow> db_inv J (st_db s)"
  using store.inv_reachable [of s0 J s] by (simp add: store_inv_def)

lemma encode_run_simps [simp]:
  "r_run_id (encode_run J rec) = cd_id_text J (rr_run_id rec)"
  "r_revision (encode_run J rec) = uint (rr_revision rec)"
  by (simp_all add: encode_run_def)

lemma demo_reachable:
  "store_initial demo_store" "(store_step demo_codec)\<^sup>*\<^sup>* demo_store demo_created"
  "store_step demo_codec demo_created demo_started" "(store_step demo_codec)\<^sup>*\<^sup>* demo_store demo_started"
proof -
  show "store_initial demo_store" by (simp add: store_initial_def demo_store_def)
  show c: "(store_step demo_codec)\<^sup>*\<^sup>* demo_store demo_created"
    unfolding demo_created_def by (rule r_into_rtranclp) (rule step_create)
  show s: "store_step demo_codec demo_created demo_started"
    unfolding demo_started_def transition_def by (rule step_transition)
  from c s show "(store_step demo_codec)\<^sup>*\<^sup>* demo_store demo_started" by (rule rtranclp.rtrancl_into_rtrancl)
qed

lemma demo_created_db:
  "st_db demo_created = empty_db\<lparr>t_chains := [new_chain_row demo_codec ''/p'' demo_spec 10],
      t_runs := [encode_run demo_codec demo_run], t_events := [demo_event]\<rparr>"
  "st_project_key demo_created = ''/p''"
  using demo_created_eq by (simp_all add: demo_created_def) (simp add: demo_store_def)+

lemma demo_created_runs: "t_runs (st_db demo_created) = [encode_run demo_codec demo_run]"
  by (simp add: demo_created_db)

definition demo_run2 :: run_record where
  "demo_run2 = apply_transition demo_start 11 2 demo_run"

lemma demo_started_db:
  "st_db demo_started = (st_db demo_created)\<lparr>t_runs := [encode_run demo_codec demo_run2],
      t_events := [demo_event, event_row_of demo_codec 11 2 2 ''e'' empty_payload ''a''
        (transition_fingerprint demo_codec demo_start) 11]\<rparr>"
  "st_project_key demo_started = ''/p''"
  by (simp_all add: demo_started_def demo_started_eq demo_run2_def demo_created_db(2))

lemma demo_started_runs: "t_runs (st_db demo_started) = [encode_run demo_codec demo_run2]"
  by (simp add: demo_started_db)

section \<open>Every reachable store\<close>

text \<open>C1. In every store that any sequence of calls reaches from an empty database, whatever the
clock, the generated identifiers and the faults of SQLite, each run row decodes to a record whose wait
reason, outcome, end time and owner agree with its lifecycle, and the events of the run are
numbered 1 to its revision without gaps or duplicates.\<close>

theorem reachable_store_consistent:
  assumes "codec_ok J" "store_initial s0" "(store_step J)\<^sup>*\<^sup>* s0 s" "r \<in> set (t_runs (st_db s))"
  shows "\<exists>rec. decode_run J r = Inr rec \<and> record_ok rec
    \<and> event_revs (st_db s) (r_run_id r) = {1..uint (rr_revision rec)}
    \<and> distinct (map (\<lambda>e. (e_run_id e, e_revision e)) (t_events (st_db s)))"
proof -
  have inv: "db_inv J (st_db s)" using assms(1-3) by (rule reachable_inv)
  then obtain rec where rec: "r = encode_run J rec" "record_ok rec"
    using assms(4) by (auto simp: db_inv_def rows_ok_def)
  have "event_revs (st_db s) (r_run_id r) = {1..r_revision r}"
    using inv assms(4) by (simp add: db_inv_def log_ok_def)
  with rec inv assms(1) show ?thesis
    by (intro exI [of _ rec]) (simp add: decode_encode_run db_inv_def keys_ok_def)
qed

theorem reachable_store_consistent_witness:
  "\<exists>rec. decode_run demo_codec (encode_run demo_codec demo_run) = Inr rec \<and> record_ok rec
    \<and> event_revs (st_db demo_created) (r_run_id (encode_run demo_codec demo_run)) = {1..uint (rr_revision rec)}
    \<and> distinct (map (\<lambda>e. (e_run_id e, e_revision e)) (t_events (st_db demo_created)))"
  by (rule reachable_store_consistent [OF codec_ok_demo demo_reachable(1,2)]) (simp add: demo_created_runs)

text \<open>C3. One transaction changes a run in only two ways: it advances a run that has not ended by
exactly one revision, along an edge of the lifecycle table with the owner kept, or with the lifecycle
kept and the owner epoch increased by one; the identity of the run, its chain, predecessor and parent
stay.\<close>

theorem step_advances_runs:
  assumes "codec_ok J" "store_initial s0" "(store_step J)\<^sup>*\<^sup>* s0 s" "store_step J s s'"
    and "r \<in> set (t_runs (st_db s))" "r' \<in> set (t_runs (st_db s'))" "r_run_id r' = r_run_id r"
  shows "r' = r \<or> (\<exists>rec rec'. decode_run J r = Inr rec \<and> decode_run J r' = Inr rec' \<and> advances rec rec')"
proof -
  have "runs_evolve J (st_project_key s) (st_db s) (st_db s')"
    using assms(1) reachable_inv [OF assms(1-3)] assms(4) by (rule store_step_evolves)
  with assms(5-7) have "row_evolves J r r'" by (simp add: runs_evolve_def)
  with assms(1) show ?thesis by (auto simp: row_evolves_def decode_encode_run)
qed

theorem step_advances_runs_witness:
  "encode_run demo_codec demo_run2 = encode_run demo_codec demo_run \<or>
   (\<exists>rec rec'. decode_run demo_codec (encode_run demo_codec demo_run) = Inr rec
     \<and> decode_run demo_codec (encode_run demo_codec demo_run2) = Inr rec' \<and> advances rec rec')"
  by (rule step_advances_runs [OF codec_ok_demo demo_reachable(1-3)])
    (simp_all add: demo_created_runs demo_started_runs encode_run_def demo_run2_def apply_transition_def)

text \<open>C4. A run that has ended never changes again: after any transaction its row is identical, or
retention has deleted it. A run that has not ended is never deleted.\<close>

theorem terminal_runs_frozen:
  assumes "codec_ok J" "store_initial s0" "(store_step J)\<^sup>*\<^sup>* s0 s" "store_step J s s'"
    and "r \<in> set (t_runs (st_db s))"
  shows "if terminal_row r then \<forall>r' \<in> set (t_runs (st_db s')). r_run_id r' = r_run_id r \<longrightarrow> r' = r
         else r_run_id r \<in> set (map r_run_id (t_runs (st_db s')))"
proof -
  have evo: "runs_evolve J (st_project_key s) (st_db s) (st_db s')"
    using assms(1) reachable_inv [OF assms(1-3)] assms(4) by (rule store_step_evolves)
  have "r' = r" if "row_evolves J r r'" "terminal_row r" for r'
    using that by (auto simp: row_evolves_def advances_def)
  with evo assms(5) show ?thesis by (auto simp: runs_evolve_def)
qed

theorem terminal_runs_frozen_witness:
  "r_run_id (encode_run demo_codec demo_run) \<in> set (map r_run_id (t_runs (st_db demo_started)))"
proof -
  have "\<not> terminal_row (encode_run demo_codec demo_run)"
    by (simp add: demo_run_def new_record_def)
  with terminal_runs_frozen [OF codec_ok_demo demo_reachable(1-3), of "encode_run demo_codec demo_run"]
  show ?thesis by (simp add: demo_created_runs)
qed

text \<open>A store handle works only on its own project: no transaction changes or deletes the row of
a run whose chain belongs to another project key.\<close>

lemma other_projects_untouched:
  assumes "codec_ok J" "store_initial s0" "(store_step J)\<^sup>*\<^sup>* s0 s" "store_step J s s'"
    and "r \<in> set (t_runs (st_db s))" "\<not> run_in_project (st_db s) (st_project_key s) r"
  shows "r \<in> set (t_runs (st_db s'))"
proof -
  have "runs_evolve J (st_project_key s) (st_db s) (st_db s')"
    using assms(1) reachable_inv [OF assms(1-3)] assms(4) by (rule store_step_evolves)
  with assms(5,6) show ?thesis by (simp add: runs_evolve_def)
qed

lemma other_projects_untouched_example:
  "encode_run demo_codec demo_run \<in> set (t_runs (st_db
     (snd (transition (demo_env 11) demo_codec demo_start (demo_created\<lparr>st_project_key := ''/q''\<rparr>)))))"
proof (rule other_projects_untouched [OF codec_ok_demo demo_reachable(1)])
  show "(store_step demo_codec)\<^sup>*\<^sup>* demo_store (demo_created\<lparr>st_project_key := ''/q''\<rparr>)"
    by (rule rtranclp.rtrancl_into_rtrancl [OF demo_reachable(2)]) (rule another_handle, simp)
  show "store_step demo_codec (demo_created\<lparr>st_project_key := ''/q''\<rparr>)
      (snd (transition (demo_env 11) demo_codec demo_start (demo_created\<lparr>st_project_key := ''/q''\<rparr>)))"
    unfolding transition_def by (rule step_transition)
qed (simp_all add: demo_created_runs run_in_project_def demo_created_db new_chain_row_def)

section \<open>Transitions\<close>

text \<open>The outbox rows that an accepted transition adds.\<close>

definition notices_of ::
  "'j codec \<Rightarrow> delivery_id \<Rightarrow> run_event_id \<Rightarrow> transition_request \<Rightarrow> run_record \<Rightarrow> u64 \<Rightarrow> i64 \<Rightarrow> 'j outbox_row list" where
  "notices_of J did eid rq current revision now =
     (case rr_parent_session_id current of
        Some parent \<Rightarrow>
          if should_notify_parent (tr_target rq)
          then [outbox_row_of J did eid (rr_run_id current) parent
                  (outbox_payload J (rr_run_id current) revision (tr_target rq) (tr_wait_reason rq)) now]
          else []
      | None \<Rightarrow> [])"

lemma notify_parent_notices:
  "notify_parent_tx J eid did rq current revision now db = Inr db' \<Longrightarrow>
   db' = db\<lparr>t_outbox := t_outbox db @ notices_of J did eid rq current revision now\<rparr>"
  by (auto simp: notify_parent_tx_def notices_of_def insert_outbox_Inr sql_insert_outbox_Inr split: if_splits option.splits)

lemma transition_commits:
  assumes "transition_with_failure env J failure rq s = (Inr rec, s')"
  obtains now changed where "now_millis env = Inr now" "\<not> trim_is_empty (tr_operation_id rq)"
    "transition_tx J (st_project_key s) now (env_event_id env) (env_delivery_id env) failure rq (st_db s)
      = Inr ((rec, changed), st_db s')"
    "s' = (if changed then notify (rr_run_id rec) else id) (s\<lparr>st_db := st_db s'\<rparr>)"
proof -
  obtain now where now: "now_millis env = Inr now" and ne: "\<not> trim_is_empty (tr_operation_id rq)"
    and fin: "finish_tx s (in_transaction env (transition_tx J (st_project_key s) now (env_event_id env)
        (env_delivery_id env) failure rq) (st_db s)) = (Inr rec, s')"
    using assms by (auto simp: transition_with_failure_def split: if_splits sum.splits)
  obtain res db' where out: "in_transaction env (transition_tx J (st_project_key s) now (env_event_id env)
        (env_delivery_id env) failure rq) (st_db s) = (res, db')" by fastforce
  then show ?thesis
  proof (cases rule: in_transaction_cases)
    case (rolled_back e)
    with fin out show ?thesis by (simp add: finish_tx_def)
  next
    case (committed x)
    obtain r changed where x: "x = (r, changed)" by fastforce
    with fin out committed(1) have "rec = r" "s' = (if changed then notify (rr_run_id r) else id) (s\<lparr>st_db := db'\<rparr>)"
      by (simp_all add: finish_tx_def)
    with now ne committed(2) x show ?thesis by (intro that [of now changed]) auto
  qed
qed

text \<open>A fresh operation id is one without an event in the project.\<close>

definition operation_event :: "'j run_db \<Rightarrow> str \<Rightarrow> str \<Rightarrow> 'j event_row \<Rightarrow> bool" where
  "operation_event db pk op e \<longleftrightarrow> e_operation_id e = op
     \<and> (\<exists>r \<in> set (t_runs db). r_run_id r = e_run_id e \<and> run_in_project db pk r)"

definition fresh_operation :: "str \<Rightarrow> 'j run_store \<Rightarrow> bool" where
  "fresh_operation op s \<longleftrightarrow> \<not> (\<exists>e \<in> set (t_events (st_db s)). operation_event (st_db s) (st_project_key s) op e)"

lemma fresh_idempotent:
  "fresh_operation op s \<Longrightarrow> idempotent_result J (st_db s) (st_project_key s) op fp = Inr None"
proof -
  assume "fresh_operation op s"
  then have "find (operation_event (st_db s) (st_project_key s) op) (t_events (st_db s)) = None"
    by (auto simp: find_None_iff fresh_operation_def)
  then show ?thesis by (simp add: idempotent_result_def operation_event_def [abs_def])
qed

lemma fresh_transition_changed:
  assumes "transition_tx J pk now eid did failure rq db = Inr ((rec, changed), db')"
    and "idempotent_result J db pk (tr_operation_id rq) (transition_fingerprint J rq) = Inr None"
  shows changed
  using assms by (auto simp: transition_tx_def result_simps split: option.splits if_splits prod.splits)

lemma replaced_run_in_project:
  assumes "run_in_project db pk (encode_run J rec)" "same_identity rec rec'" "t_chains db' = t_chains db"
  shows "run_in_project db' pk (encode_run J rec')"
  using assms by (simp add: run_in_project_def same_identity_def encode_run_def)

lemma transition_accepted:
  assumes J: "codec_ok J" and inv: "db_inv J (st_db s)"
    and fresh: "fresh_operation (tr_operation_id rq) s"
    and call: "transition_with_failure env J failure rq s = (Inr rec, s')"
  obtains current now where "get_run env J (tr_run_id rq) s = Inr current" "now_millis env = Inr now"
    "rr_revision current = tr_expected_revision rq"
    "rr_owner_instance_id current = map_option of_instance_id (tr_owner rq)"
    "rr_owner_epoch current = map_option of_epoch (tr_owner rq)"
    "can_transition_to (rr_lifecycle current) (tr_target rq)"
    "uint (rr_revision rec) = uint (rr_revision current) + 1"
    "rec = apply_transition rq now (rr_revision rec) current"
    "s' = notify (tr_run_id rq) (s\<lparr>st_db := (replace_run J current rec (st_db s))\<lparr>
        t_events := t_events (st_db s) @ [event_row_of J (env_event_id env) (tr_run_id rq) (rr_revision rec)
          (tr_event_type rq) (tr_event rq) (tr_operation_id rq) (transition_fingerprint J rq) now],
        t_outbox := t_outbox (st_db s) @ notices_of J (env_delivery_id env) (env_event_id env) rq current
          (rr_revision rec) now\<rparr>\<rparr>)"
    "query_run J (st_db s') (st_project_key s) (tr_run_id rq) = Inr (Some rec)"
proof -
  obtain now changed where now: "now_millis env = Inr now" and
    tx: "transition_tx J (st_project_key s) now (env_event_id env) (env_delivery_id env) failure rq (st_db s)
      = Inr ((rec, changed), st_db s')" and
    s': "s' = (if changed then notify (rr_run_id rec) else id) (s\<lparr>st_db := st_db s'\<rparr>)"
    using transition_commits [OF call] by metis
  have ch: changed using fresh_transition_changed [OF tx] fresh by (simp add: fresh_idempotent)
  obtain current revision db2 where
    q: "query_run J (st_db s) (st_project_key s) (tr_run_id rq) = Inr (Some current)" and
    v: "verify_revision_and_owner current (tr_expected_revision rq) (tr_owner rq) = Inr ()" and
    t: "validate_transition (rr_lifecycle current) (tr_target rq) (tr_wait_reason rq) (tr_outcome rq) (tr_event rq) = Inr ()" and
    c: "checked_add_u64 (rr_revision current) 1 = Some revision" and
    e: "sql_insert_event (event_row_of J (env_event_id env) (tr_run_id rq) revision (tr_event_type rq) (tr_event rq)
          (tr_operation_id rq) (transition_fingerprint J rq) now)
         (replace_run J current (apply_transition rq now revision current) (st_db s)) = Inr db2" and
    o: "notify_parent_tx J (env_event_id env) (env_delivery_id env) rq current revision now db2 = Inr (st_db s')" and
    g: "require_run J (st_db s') (st_project_key s) (tr_run_id rq) = Inr rec"
    using transition_tx_changed [OF J inv, of "st_project_key s" now "env_event_id env" "env_delivery_id env" failure rq rec "st_db s'"]
      tx ch by metis
  let ?new = "apply_transition rq now revision current"
  note cur = query_run_Some [OF J _ q]
  have rows: "rows_ok J (st_db s)" using inv by (simp add: db_inv_def)
  have inv': "db_inv J (st_db s')" using transition_tx_inv [OF J inv] tx ch by simp
  note db2 = notify_parent_notices [OF o]
  have frame: "t_runs (st_db s') = t_runs (replace_run J current ?new (st_db s))" "t_chains (st_db s') = t_chains (st_db s)"
    using e db2 by (auto simp: sql_insert_event_Inr replace_run_def)
  have "query_run J (st_db s') (st_project_key s) (rr_run_id ?new) = Inr (Some ?new)"
    by (rule query_run_found [OF J])
      (use inv' frame replace_run_new [OF cur(1) [OF rows]] replaced_run_in_project [OF cur(3) [OF rows] same_identity_transition frame(2)]
        in \<open>simp_all add: db_inv_def\<close>)
  moreover have "rr_run_id ?new = tr_run_id rq" using cur(2) [OF rows] by (simp add: apply_transition_def)
  ultimately have rec: "rec = ?new" using g by (simp add: require_run_Inr)
  then have rv: "rr_revision rec = revision" and id: "rr_run_id rec = tr_run_id rq"
    using cur(2) [OF rows] by (simp_all add: apply_transition_def)
  have "get_run env J (tr_run_id rq) s = Inr current"
    using q call by (auto simp: get_run_def bindR_def ok_or_def transition_with_failure_def in_transaction_def
        finish_tx_def split: if_splits sum.splits option.splits)
  moreover have "st_db s' = (replace_run J current rec (st_db s))\<lparr>
        t_events := t_events (st_db s) @ [event_row_of J (env_event_id env) (tr_run_id rq) (rr_revision rec)
          (tr_event_type rq) (tr_event rq) (tr_operation_id rq) (transition_fingerprint J rq) now],
        t_outbox := t_outbox (st_db s) @ notices_of J (env_delivery_id env) (env_event_id env) rq current
          (rr_revision rec) now\<rparr>"
    using db2 e rv rec by (auto simp: sql_insert_event_Inr replace_run_def)
  ultimately show ?thesis
    using now verify_ok_revision [OF v] verify_ok_owner [OF v] validate_transition_ok(1) [OF t]
      checked_add_u64_Some [OF c] rec rv id s' ch g by (intro that [of current now]) (auto simp: require_run_Inr)
qed

text \<open>C2. An accepted transition that is not a replay does exactly this: the caller named the current
revision and the current owner, the target is allowed from the current lifecycle, the returned record
is the current one with the transition applied and the revision increased by one, the run row is
replaced by it, one event with the new revision is appended, the parent session gets a notice exactly
when the run has one and the target ends the run or waits, nothing else in the database changes, and
waiters on the run are woken.\<close>

theorem transition_effect:
  assumes J: "codec_ok J" and inv: "db_inv J (st_db s)"
    and fresh: "fresh_operation (tr_operation_id rq) s"
    and call: "transition_with_failure env J failure rq s = (Inr rec, s')"
  shows "\<exists>current now. get_run env J (tr_run_id rq) s = Inr current \<and> now_millis env = Inr now
    \<and> rr_revision current = tr_expected_revision rq
    \<and> rr_owner_instance_id current = map_option of_instance_id (tr_owner rq)
    \<and> rr_owner_epoch current = map_option of_epoch (tr_owner rq)
    \<and> can_transition_to (rr_lifecycle current) (tr_target rq)
    \<and> uint (rr_revision rec) = uint (rr_revision current) + 1
    \<and> rec = apply_transition rq now (rr_revision rec) current
    \<and> s' = notify (tr_run_id rq) (s\<lparr>st_db := (replace_run J current rec (st_db s))\<lparr>
        t_events := t_events (st_db s) @ [event_row_of J (env_event_id env) (tr_run_id rq) (rr_revision rec)
          (tr_event_type rq) (tr_event rq) (tr_operation_id rq) (transition_fingerprint J rq) now],
        t_outbox := t_outbox (st_db s) @ notices_of J (env_delivery_id env) (env_event_id env) rq current
          (rr_revision rec) now\<rparr>\<rparr>)"
  using transition_accepted [OF assms] by metis

lemma demo_inv: "db_inv demo_codec (st_db demo_created)" "db_inv demo_codec (st_db demo_started)"
  using reachable_inv [OF codec_ok_demo demo_reachable(1)] demo_reachable(2,4) by blast+

lemma demo_created_fresh: "fresh_operation ''a'' demo_created"
  by (simp add: fresh_operation_def operation_event_def demo_created_db demo_event_def)

lemma demo_start_op [simp]: "tr_operation_id demo_start = ''a''" "tr_run_id demo_start = 2"
  "tr_target demo_start = Starting" "tr_expected_revision demo_start = 1"
  by (simp_all add: demo_start_def demo_request_def)

lemma demo_started_call:
  "transition_with_failure (demo_env 11) demo_codec NoFailure demo_start demo_created = (Inr demo_run2, demo_started)"
  using demo_started_eq unfolding demo_started_def demo_run2_def transition_def by (metis prod.collapse fst_conv)

theorem transition_effect_witness:
  "\<exists>current now. get_run (demo_env 11) demo_codec 2 demo_created = Inr current
     \<and> now_millis (demo_env 11) = Inr now \<and> demo_run2 = apply_transition demo_start now (rr_revision demo_run2) current"
  using transition_effect [OF codec_ok_demo demo_inv(1) _ demo_started_call] demo_created_fresh by fastforce

lemma finish_tx_error:
  "finish_tx s (in_transaction env body (st_db s)) = (Inl e, s') \<Longrightarrow> st_db s' = st_db s"
  by (auto simp: finish_tx_def in_transaction_def split: sum.splits option.splits prod.splits)

lemma transition_error:
  "transition_with_failure env J failure rq s = (Inl e, s') \<Longrightarrow> st_db s' = st_db s"
  by (auto simp: transition_with_failure_def dest: finish_tx_error split: sum.splits if_splits)

lemma compact_error: "compact env policy s = (Inl e, s') \<Longrightarrow> st_db s' = st_db s"
  by (auto simp: compact_def in_transaction_def split: sum.splits prod.splits option.splits)


lemma demo_injected:
  "\<exists>s'. transition_with_failure (demo_env 11) demo_codec AfterEventInsert demo_start demo_created = (Inl InjectedFailure, s')"
  by (simp add: demo_created_def demo_created_eq demo_start_def demo_rows)


lemma apply_transition_run_id: "rec = apply_transition rq now revision current \<Longrightarrow> rr_run_id rec = rr_run_id current"
  by (simp add: apply_transition_def)

lemma run_store_project: "st_project_key (s\<lparr>st_db := db\<rparr>) = st_project_key s"
  by simp

lemma get_run_id:
  "codec_ok J \<Longrightarrow> db_inv J (st_db s) \<Longrightarrow> get_run env J rid s = Inr rec \<Longrightarrow> rr_run_id rec = rid"
  by (auto simp: get_run_def result_simps db_inv_def dest: query_run_Some(2))

text \<open>Two writers that read the same revision cannot both win: after one transition was accepted,
any other request of a fresh operation that still names the revision it was based on is refused with a
revision conflict and leaves the database as the first one made it.\<close>

lemma stale_revision_refused:
  assumes "codec_ok J" "db_inv J (st_db s)" "fresh_operation (tr_operation_id rq) s"
    and "transition_with_failure env J failure rq s = (Inr rec, s')"
    and "tr_run_id rq2 = tr_run_id rq" "tr_expected_revision rq2 = tr_expected_revision rq"
    and "\<not> trim_is_empty (tr_operation_id rq2)" "fresh_operation (tr_operation_id rq2) s'"
    and "now_millis env2 = Inr now2" "connection env2 = Inr ()" "env_begin env2 = None"
  shows "\<exists>s''. transition_with_failure env2 J failure2 rq2 s' =
      (Inl (RevisionConflict (tr_run_id rq) (tr_expected_revision rq) (rr_revision rec)), s'') \<and> st_db s'' = st_db s'"
proof -
  obtain current where cur: "rr_revision current = tr_expected_revision rq"
      "uint (rr_revision rec) = uint (rr_revision current) + 1"
    and q: "query_run J (st_db s') (st_project_key s) (tr_run_id rq) = Inr (Some rec)"
    and run: "rr_run_id rec = rr_run_id current" "get_run env J (tr_run_id rq) s = Inr current"
    and pk: "st_project_key s' = st_project_key s"
    using transition_accepted [OF assms(1-4)] by (metis apply_transition_run_id notify_project run_store_project)
  have "rr_run_id rec = tr_run_id rq" using run(2) run(1) assms(1,2) by (simp add: get_run_id)
  with cur q pk assms(5-) have "transition_tx J (st_project_key s') now2 (env_event_id env2) (env_delivery_id env2) failure2 rq2 (st_db s')
    = Inl (RevisionConflict (tr_run_id rq) (tr_expected_revision rq) (rr_revision rec))"
    using fresh_idempotent [OF assms(8), of J "transition_fingerprint J rq2"]
    by (auto simp: transition_tx_def bindR_def require_run_def ok_or_def verify_revision_and_owner_def)
  with assms(7-) show ?thesis
    by (simp add: transition_with_failure_def in_transaction_def finish_tx_def bindR_def)
qed

definition demo_late :: transition_request where
  "demo_late = demo_request 1 Cancelling None ''c''"

lemma demo_started_fresh: "fresh_operation ''c'' demo_started"
  by (simp add: fresh_operation_def operation_event_def demo_started_db demo_event_def)

lemma demo_env_ok [simp]: "int n \<le> i64_max \<Longrightarrow> now_millis (demo_env n) = Inr (int n)" "connection (demo_env n) = Inr ()"
  "env_begin (demo_env n) = None" "env_commit (demo_env n) = None"
  by (simp_all add: demo_env_def now_millis_def connection_def eq_ignore_ascii_case_def)

lemma stale_revision_refused_example:
  "\<exists>s''. transition_with_failure (demo_env 12) demo_codec NoFailure demo_late demo_started =
      (Inl (RevisionConflict 2 1 (rr_revision demo_run2)), s'') \<and> st_db s'' = st_db demo_started"
  using stale_revision_refused [OF codec_ok_demo demo_inv(1) _ demo_started_call, of demo_late "demo_env 12" 12 NoFailure]
    demo_created_fresh demo_started_fresh by (simp add: demo_late_def demo_request_def i64_max_def)

lemma find_append_new: "(\<And>x. x \<in> set xs \<Longrightarrow> \<not> P x) \<Longrightarrow> P y \<Longrightarrow> find P (xs @ [y]) = Some y"
  by (induction xs) auto

lemma query_run_row:
  "query_run J db pk rid = Inr (Some rec) \<Longrightarrow> \<exists>r \<in> set (t_runs db). r_run_id r = cd_id_text J rid \<and> run_in_project db pk r"
  by (auto simp: query_run_def transposeR_eq_Some dest: find_SomeD)

text \<open>The runs of a project are the same set of keys after one of them was replaced.\<close>

lemma replace_operation_event:
  assumes same: "same_identity rec rec'"
    and "t_runs db' = t_runs (replace_run J rec rec' db)" "t_chains db' = t_chains db"
  shows "operation_event db' pk op e = operation_event db pk op e"
proof -
  define g where "g r = (if r = encode_run J rec then encode_run J rec' else r)" for r
  have row: "r_run_id (g r) = r_run_id r" "r_chain_id (g r) = r_chain_id r" for r
    using same by (simp_all add: g_def same_identity_def encode_run_def)
  have runs: "t_runs db' = map g (t_runs db)" by (simp add: assms(2) replace_run_def g_def [abs_def])
  show ?thesis by (simp add: operation_event_def run_in_project_def runs assms(3) row)
qed



section \<open>Ownership\<close>

lemma transfer_commits:
  assumes "transfer_owner env J rid expected prior new_owner op s = (Inr rec, s')"
  obtains now changed where
    "transfer_owner_tx J (st_project_key s) now (env_event_id env) rid expected prior new_owner op (st_db s)
      = Inr ((rec, changed), st_db s')" "st_project_key s' = st_project_key s"
proof -
  obtain now where fin: "finish_tx s (in_transaction env (transfer_owner_tx J (st_project_key s) now
      (env_event_id env) rid expected prior new_owner op) (st_db s)) = (Inr rec, s')"
    using assms by (auto simp: transfer_owner_def split: if_splits sum.splits)
  obtain res db' where out: "in_transaction env (transfer_owner_tx J (st_project_key s) now
      (env_event_id env) rid expected prior new_owner op) (st_db s) = (res, db')" by fastforce
  then show ?thesis
  proof (cases rule: in_transaction_cases)
    case (committed x)
    obtain r changed where x: "x = (r, changed)" by fastforce
    with fin out committed show ?thesis by (intro that [of now changed]) (auto simp: finish_tx_def)
  qed (use fin out in \<open>simp add: finish_tx_def\<close>)
qed

lemma transfer_accepted:
  assumes J: "codec_ok J" and inv: "db_inv J (st_db s)" and fresh: "fresh_operation op s"
    and call: "transfer_owner env J rid expected prior new_owner op s = (Inr rec, s')"
  obtains current epoch now where "query_run J (st_db s) (st_project_key s) rid = Inr (Some current)"
    "\<not> is_terminal (rr_lifecycle current)"
    "rr_owner_instance_id current = Some (of_instance_id prior)" "rr_owner_epoch current = Some (of_epoch prior)"
    "uint epoch = uint (of_epoch prior) + 1" "uint (rr_revision rec) = uint (rr_revision current) + 1"
    "rec = apply_owner new_owner epoch (rr_revision rec) now current"
    "query_run J (st_db s') (st_project_key s') rid = Inr (Some rec)"
proof -
  obtain now changed where pk: "st_project_key s' = st_project_key s" and
    tx: "transfer_owner_tx J (st_project_key s) now (env_event_id env) rid expected prior new_owner op (st_db s)
      = Inr ((rec, changed), st_db s')"
    using transfer_commits [OF call] by metis
  have changed
    using tx fresh_idempotent [OF fresh] by (auto simp: transfer_owner_tx_def result_simps split: option.splits if_splits prod.splits)
  with tx transfer_owner_tx_changed [OF J inv, of "st_project_key s" now "env_event_id env" rid expected prior new_owner op rec "st_db s'"]
  obtain current revision epoch payload fp where
    q: "query_run J (st_db s) (st_project_key s) rid = Inr (Some current)" and
    v: "verify_revision_and_owner current expected (Some prior) = Inr ()" and
    t: "\<not> is_terminal (rr_lifecycle current)" and
    c: "checked_add_u64 (rr_revision current) 1 = Some revision" and
    ce: "checked_add_u64 (of_epoch prior) 1 = Some epoch" and
    e: "sql_insert_event (event_row_of J (env_event_id env) rid revision ''owner_transferred'' payload op fp now)
         (replace_run J current (apply_owner new_owner epoch revision now current) (st_db s)) = Inr (st_db s')" and
    g: "require_run J (st_db s') (st_project_key s) rid = Inr rec"
    by metis
  let ?new = "apply_owner new_owner epoch revision now current"
  note cur = query_run_Some [OF J _ q]
  have rows: "rows_ok J (st_db s)" using inv by (simp add: db_inv_def)
  have inv': "db_inv J (st_db s')" using transfer_owner_tx_inv [OF J inv] tx \<open>changed\<close> by simp
  have frame: "t_runs (st_db s') = t_runs (replace_run J current ?new (st_db s))" "t_chains (st_db s') = t_chains (st_db s)"
    using e by (auto simp: sql_insert_event_Inr replace_run_def)
  have "query_run J (st_db s') (st_project_key s) (rr_run_id ?new) = Inr (Some ?new)"
    by (rule query_run_found [OF J])
      (use inv' frame replace_run_new [OF cur(1) [OF rows]] replaced_run_in_project [OF cur(3) [OF rows] same_identity_owner frame(2)]
        in \<open>simp_all add: db_inv_def\<close>)
  then have "rec = ?new" "query_run J (st_db s') (st_project_key s') rid = Inr (Some ?new)"
    using g cur(2) [OF rows] pk by (simp_all add: apply_owner_def require_run_Inr)
  with q t c ce verify_ok_owner [OF v] show ?thesis
    by (intro that [of current epoch now]) (auto simp: apply_owner_def dest: checked_add_u64_Some)
qed


definition demo_identity :: process_identity where
  "demo_identity = \<lparr>pi_pid = 1, pi_start_marker = ''m'', pi_lock_identity = ''l''\<rparr>"

definition demo_hosts :: "demo_json run_store" where
  "demo_hosts = snd (register_host (demo_env 8) (demo_env 8) demo_codec demo_identity
     (snd (register_host (demo_env 7) (demo_env 7) demo_codec demo_identity demo_store)))"

definition demo_host_row :: "nat \<Rightarrow> demo_json host_row" where
  "demo_host_row n = \<lparr>h_instance_id = demo_id_text (word_of_nat n), h_process_identity_json = JIdentity demo_identity,
     h_started_at = int n, h_heartbeat_at = int n, h_shutdown_at = None\<rparr>"

lemma demo_hosts_eq: "demo_hosts = demo_store\<lparr>st_db := empty_db\<lparr>t_hosts := [demo_host_row 7, demo_host_row 8]\<rparr>\<rparr>"
  by (simp add: demo_hosts_def register_host_def plain_statement_def sql_insert_host_def demo_host_row_def demo_rows)

definition demo_owned :: "demo_json run_store" where
  "demo_owned = snd (create_run (demo_env 10) demo_codec (demo_spec\<lparr>ns_owner_instance_id := Some 7\<rparr>) demo_hosts)"

definition demo_fence :: owner_fence where
  "demo_fence = \<lparr>of_instance_id = 7, of_epoch = 1\<rparr>"

definition demo_owned_run :: run_record where
  "demo_owned_run = new_record (demo_spec\<lparr>ns_owner_instance_id := Some 7\<rparr>) 10"

lemma demo_owned_eq: "demo_owned = demo_hosts\<lparr>st_db := (st_db demo_hosts)\<lparr>
    t_chains := [new_chain_row demo_codec ''/p'' demo_spec 10],
    t_runs := [encode_run demo_codec demo_owned_run], t_events := [demo_event]\<rparr>,
    st_notifications := [2 \<mapsto> 1]\<rparr>"
  by (simp add: demo_owned_def demo_hosts_eq demo_host_row_def require_live_host_def demo_owned_run_def demo_rows)

lemma demo_owned_inv: "db_inv demo_codec (st_db demo_owned)"
proof (rule reachable_inv [OF codec_ok_demo demo_reachable(1)])
  let ?h = "\<lambda>n s. snd (register_host (demo_env n) (demo_env n) demo_codec demo_identity s)"
  have "(store_step demo_codec)\<^sup>*\<^sup>* demo_store (?h 8 (?h 7 demo_store))"
    by (blast intro: step_register rtranclp.rtrancl_into_rtrancl)
  then show "(store_step demo_codec)\<^sup>*\<^sup>* demo_store demo_owned"
    unfolding demo_owned_def demo_hosts_def by (blast intro: step_create rtranclp.rtrancl_into_rtrancl)
qed

definition demo_transferred :: "demo_json run_store" where
  "demo_transferred = snd (transfer_owner (demo_env 12) demo_codec 2 1 demo_fence 8 ''a'' demo_owned)"

lemma show_two: "show_u64 2 = ''2''"
  by code_simp

lemma demo_transfer_eq:
  "transfer_owner (demo_env 12) demo_codec 2 1 demo_fence 8 ''a'' demo_owned =
   (Inr (apply_owner 8 2 2 12 demo_owned_run), demo_owned\<lparr>st_db := (st_db demo_owned)\<lparr>
      t_runs := [encode_run demo_codec (apply_owner 8 2 2 12 demo_owned_run)],
      t_events := [demo_event, event_row_of demo_codec 12 2 2 ''owner_transferred''
        \<lparr>ep_summary = Some ''Run ownership transferred'', ep_details = [(''owner_epoch'', ''2'')]\<rparr> ''a''
        (owner_fingerprint demo_codec 2 1 demo_fence 8) 12]\<rparr>,
    st_notifications := [2 \<mapsto> 2]\<rparr>)"
  by (simp add: transfer_owner_def transfer_owner_tx_def demo_owned_eq demo_hosts_eq demo_host_row_def require_live_host_def
      demo_owned_run_def apply_owner_def owner_row_def demo_fence_def show_two demo_rows)

definition demo_old_owner :: transition_request where
  "demo_old_owner = (demo_request 2 Starting None ''b'')\<lparr>tr_owner := Some demo_fence\<rparr>"


section \<open>Retention\<close>

text \<open>On any store that satisfies the invariant, compaction with a valid row limit commits: no
foreign key refuses it. Every run it deletes belongs to the project of the handle, has ended before
the cutoff, has no notice left in the outbox and is nobody's predecessor or parent.\<close>

lemma compact_succeeds:
  assumes "db_inv J (st_db s)" "0 < tp_max_rows policy" "tp_max_rows policy \<le> MAX_PAGE_SIZE"
    and "connection env = Inr ()" "env_begin env = None" "env_commit env = None"
  shows "\<exists>report s'. compact env policy s = (Inr report, s') \<and> db_inv J (st_db s')
    \<and> (\<forall>r \<in> set (t_runs (st_db s)). r \<notin> set (t_runs (st_db s')) \<longrightarrow>
         run_in_project (st_db s) (st_project_key s) r \<and> terminal_row r
       \<and> lt_null (r_finished_at r) (tp_terminal_before policy)
       \<and> (\<forall>q \<in> set (t_outbox (st_db s')). o_child_run_id q \<noteq> r_run_id r)
       \<and> (\<forall>c \<in> set (t_runs (st_db s)). r_predecessor_run_id c \<noteq> Some (r_run_id r) \<and> r_parent_run_id c \<noteq> Some (r_run_id r)))"
proof -
  obtain report db' where tx: "compact_tx (st_project_key s) policy (st_db s) = Inr (report, db')"
    using compact_tx_ok [OF assms(1), of policy "st_project_key s"] assms(3) by (auto simp: MAX_PAGE_SIZE_def i64_max_def)
  then have call: "compact env policy s = (Inr report, s\<lparr>st_db := db'\<rparr>)"
    using assms(2-) by (simp add: compact_def valid_limit_def in_transaction_def bindR_def)
  from compact_tx_deletes(2) [OF assms(1) tx] call compact_tx_inv [OF assms(1) tx]
  show ?thesis by (intro exI [of _ report] exI [of _ "s\<lparr>st_db := db'\<rparr>"]) auto
qed

lemma demo_failed_inv: "db_inv demo_codec (st_db (snd (transition (demo_env 12) demo_codec demo_fail demo_started)))"
  using demo_reachable(4) unfolding transition_def
  by (blast intro: reachable_inv [OF codec_ok_demo demo_reachable(1)] step_transition rtranclp.rtrancl_into_rtrancl)

lemma compact_succeeds_example:
  "\<exists>report s'. compact (demo_env 20) \<lparr>tp_terminal_before = 15, tp_finalized_outbox_before = 15,
      tp_shutdown_host_before = 15, tp_max_rows = 10\<rparr>
      (snd (transition (demo_env 12) demo_codec demo_fail demo_started)) = (Inr report, s') \<and> db_inv demo_codec (st_db s')"
  using compact_succeeds [OF demo_failed_inv, of "\<lparr>tp_terminal_before = 15, tp_finalized_outbox_before = 15,
      tp_shutdown_host_before = 15, tp_max_rows = 10\<rparr>" "demo_env 20"] by (auto simp: MAX_PAGE_SIZE_def)

section \<open>Creating and reading\<close>

lemma insert_new_run:
  assumes J: "codec_ok J" and inv: "db_inv J db"
    and ids: "cd_id_text J (ns_run_id spec) \<notin> set (map r_run_id (t_runs db))"
      "cd_id_text J (ns_chain_id spec) \<notin> set (map c_chain_id (t_chains db))"
      "cd_id_text J eid \<notin> set (map e_event_id (t_events db))"
    and par: "require_parent J db pk (ns_parent_run_id spec) = Inr ()"
    and own: "require_owner J db (ns_owner_instance_id spec) = Inr ()"
  shows "\<exists>db'. create_run_tx J pk now eid spec db = Inr ((new_record spec now, True), db')
    \<and> query_run J db' pk (ns_run_id spec) = Inr (Some (new_record spec now))"
proof -
  let ?rec = "new_record spec now" and ?c = "new_chain_row J pk spec now"
  let ?e = "event_row_of J eid (ns_run_id spec) 1 ''run_created'' \<lparr>ep_summary = Some ''Run queued'', ep_details = []\<rparr>
        (''create:'' @ cd_id_text J (ns_run_id spec))
        (''create:'' @ cd_id_text J (ns_chain_id spec) @ '':'' @ cd_id_text J (ns_run_id spec)) now"
  define db1 where "db1 = db\<lparr>t_chains := t_chains db @ [?c]\<rparr>"
  define db2 where "db2 = db1\<lparr>t_runs := t_runs db @ [encode_run J ?rec]\<rparr>"
  define db3 where "db3 = db2\<lparr>t_events := t_events db @ [?e]\<rparr>"
  have q0: "query_run J db pk (ns_run_id spec) = Inr None"
    using ids(1) by (force simp: query_run_def transposeR_def find_None_iff split: option.splits dest: find_SomeD)
  have c: "sql_insert_chain ?c db = Inr db1"
    using ids(2) by (simp add: sql_insert_chain_Inr new_chain_row_def db1_def)
  have "fk_ok r_run_id (t_runs db) (map_option (cd_id_text J) (ns_parent_run_id spec))"
    using par query_run_row by (force simp: require_parent_def require_run_Inr result_simps split: option.splits)
  moreover have "fk_ok h_instance_id (t_hosts db) (map_option (cd_id_text J) (ns_owner_instance_id spec))"
    using own require_live_host_fk by (fastforce simp: require_owner_def split: option.splits)
  ultimately have r: "sql_insert_run (encode_run J ?rec) db1 = Inr db2"
    using ids(1) by (auto simp: sql_insert_run_def encode_run_def new_record_def db1_def db2_def run_checks_ok_def
        new_chain_row_def intro: fk_ok_append)
  have "\<forall>x \<in> set (t_events db). e_run_id x \<noteq> cd_id_text J (ns_run_id spec)"
    using inv ids(1) unfolding db_inv_def refs_ok_def by metis
  then have e: "sql_insert_event ?e db2 = Inr db3"
    using ids(3) by (fastforce simp: sql_insert_event_Inr db1_def db2_def db3_def encode_run_def new_record_def)
  have "db_inv J db3"
    by (rule add_run_inv [OF add_chain_inv [OF inv c] r record_ok_new _ e]) (simp_all add: new_record_def)
  then have q: "query_run J db3 pk (ns_run_id spec) = Inr (Some ?rec)"
    using query_run_found [OF J, of db3 ?rec pk]
    by (simp add: db_inv_def db3_def db2_def db1_def run_in_project_def new_chain_row_def encode_run_def new_record_def)
  have "insert_event J eid (ns_run_id spec) 1 ''run_created'' \<lparr>ep_summary = Some ''Run queued'', ep_details = []\<rparr>
        (''create:'' @ cd_id_text J (ns_run_id spec))
        (''create:'' @ cd_id_text J (ns_chain_id spec) @ '':'' @ cd_id_text J (ns_run_id spec)) now db2 = Inr db3"
    using e by (simp add: insert_event_Inr validate_event_ok domain_limits detail_bytes_def i64_max_def)
  then have "create_run_tx J pk now eid spec db = Inr ((?rec, True), db3)"
    using q0 par own c r q
    by (simp add: create_run_tx_def bindR_def database_err_def map_err_def new_run_row_encode require_run_def ok_or_def)
  with q show ?thesis by blast
qed

text \<open>Creating a run with new identifiers succeeds and can be read back: the call returns the queued
record at revision one, and reading the run from the resulting store returns the same record.\<close>

lemma create_then_get:
  assumes "codec_ok J" "db_inv J (st_db s)" "length (ns_title spec) \<le> MAX_SUMMARY_BYTES" "now_millis env = Inr now"
    and "connection env = Inr ()" "env_begin env = None" "env_commit env = None"
    and "cd_id_text J (ns_run_id spec) \<notin> set (map r_run_id (t_runs (st_db s)))"
    and "cd_id_text J (ns_chain_id spec) \<notin> set (map c_chain_id (t_chains (st_db s)))"
    and "cd_id_text J (env_event_id env) \<notin> set (map e_event_id (t_events (st_db s)))"
    and "require_parent J (st_db s) (st_project_key s) (ns_parent_run_id spec) = Inr ()"
    and "require_owner J (st_db s) (ns_owner_instance_id spec) = Inr ()"
  shows "fst (create_run env J spec s) = Inr (new_record spec now)
    \<and> get_run env J (ns_run_id spec) (snd (create_run env J spec s)) = Inr (new_record spec now)"
proof -
  obtain db' where tx: "create_run_tx J (st_project_key s) now (env_event_id env) spec (st_db s) = Inr ((new_record spec now, True), db')"
    and q: "query_run J db' (st_project_key s) (ns_run_id spec) = Inr (Some (new_record spec now))"
    using insert_new_run [OF assms(1,2,8-12)] by metis
  from tx assms(3-7) have "create_run env J spec s = (Inr (new_record spec now), notify (rr_run_id (new_record spec now)) (s\<lparr>st_db := db'\<rparr>))"
    by (simp add: create_run_def in_transaction_def finish_tx_def bindR_def validate_title_def)
  with q assms(5) show ?thesis by (simp add: get_run_def bindR_def ok_or_def)
qed

lemma create_then_get_example:
  "get_run (demo_env 10) demo_codec 2 (snd (create_run (demo_env 10) demo_codec demo_spec demo_store)) = Inr (new_record demo_spec 10)"
  using create_then_get [OF codec_ok_demo, of demo_store demo_spec "demo_env 10" 10]
  by (simp add: demo_store_def demo_spec_def domain_limits i64_max_def require_parent_def require_owner_def empty_db_def [symmetric])
    (simp add: empty_db_def)

section \<open>The parent outbox\<close>

lemma acknowledged_rows:
  assumes inv: "db_inv J (st_db s)" and call: "acknowledge_outbox env J did at s = (Inr (), s')"
  obtains h where "acknowledged_row at h \<in> set (t_outbox (st_db s'))" "o_delivery_id h = cd_id_text J did"
    "outbox_checks_ok (acknowledged_row at h)" "outbox_in_project (st_db s') (st_project_key s') (acknowledged_row at h)"
    "\<And>q. q \<in> set (t_outbox (st_db s')) \<Longrightarrow> o_delivery_id q = cd_id_text J did \<Longrightarrow> q = acknowledged_row at h"
proof -
  define p where "p x \<longleftrightarrow> o_delivery_id x = cd_id_text J did \<and> o_state x \<in> {''pending'', ''delivered'', ''acknowledged''}
      \<and> outbox_in_project (st_db s) (st_project_key s) x" for x
  obtain n where n: "n \<noteq> 0" and upd: "sql_update_outbox p (acknowledged_row at) (st_db s) = Inr (n, st_db s')"
    and pk: "st_project_key s' = st_project_key s"
    using call by (auto simp: acknowledge_outbox_def update_outbox_def plain_statement_def bindR_def database_err_def
        map_err_def p_def [abs_def] split: sum.splits if_splits prod.splits)
  have db': "st_db s' = (st_db s)\<lparr>t_outbox := map (\<lambda>x. if p x then acknowledged_row at x else x) (t_outbox (st_db s))\<rparr>"
    and cnt: "n = length (filter p (t_outbox (st_db s)))"
    and chk: "\<forall>x \<in> set (t_outbox (st_db s)). p x \<longrightarrow> outbox_checks_ok (acknowledged_row at x)"
    using upd by (auto simp: sql_update_outbox_def split: if_splits)
  have out: "t_outbox (st_db s') = map (\<lambda>x. if p x then acknowledged_row at x else x) (t_outbox (st_db s))"
    by (simp add: db')
  from n cnt obtain h where h: "h \<in> set (t_outbox (st_db s))" "p h" by (auto simp: filter_empty_conv)
  then have "acknowledged_row at h \<in> set (t_outbox (st_db s'))" by (force simp: out)
  moreover have "outbox_in_project (st_db s') (st_project_key s') (acknowledged_row at h)"
    using h(2) by (simp add: p_def db' pk outbox_in_project_def run_in_project_def acknowledged_row_def)
  moreover have "q = acknowledged_row at h"
    if q: "q \<in> set (t_outbox (st_db s'))" "o_delivery_id q = cd_id_text J did" for q
  proof -
    from q(1) obtain q0 where q0: "q0 \<in> set (t_outbox (st_db s))" "q = (if p q0 then acknowledged_row at q0 else q0)"
      by (auto simp: out)
    then have "o_delivery_id q0 = cd_id_text J did" using q(2) by (auto simp: acknowledged_row_def split: if_splits)
    with h(2) have "o_delivery_id q0 = o_delivery_id h" by (simp add: p_def)
    then have "q0 = h" using inv q0(1) h(1) by (auto simp: db_inv_def keys_ok_def intro: distinct_key_unique)
    with q0(2) h(2) show ?thesis by simp
  qed
  ultimately show ?thesis using that [of h] h chk by (auto simp: p_def)
qed

lemma update_outbox_none:
  assumes "connection env = Inr ()"
    and "\<And>q. q \<in> set (t_outbox (st_db s)) \<Longrightarrow> o_delivery_id q = cd_id_text J did \<Longrightarrow> o_state q \<notin> states"
  shows "update_outbox env J did states f s = (Inl (OutboxNotFound did), s)"
proof -
  let ?p = "\<lambda>q. o_delivery_id q = cd_id_text J did \<and> o_state q \<in> states
     \<and> outbox_in_project (st_db s) (st_project_key s) q"
  have none: "filter ?p (t_outbox (st_db s)) = []" using assms(2) by (auto simp: filter_empty_conv)
  have "\<exists>db'. sql_update_outbox ?p f (st_db s) = Inr (0, db')" unfolding sql_update_outbox_def none by simp
  with assms(1) show ?thesis
    by (auto simp: update_outbox_def plain_statement_def bindR_def database_err_def map_err_def)
qed

lemma update_outbox_same:
  assumes "connection env = Inr ()" "h \<in> set (t_outbox (st_db s))" "o_delivery_id h = cd_id_text J did" "o_state h \<in> states"
    "outbox_in_project (st_db s) (st_project_key s) h"
    and same: "\<And>q. q \<in> set (t_outbox (st_db s)) \<Longrightarrow> o_delivery_id q = cd_id_text J did \<Longrightarrow> f q = q \<and> outbox_checks_ok q"
  shows "update_outbox env J did states f s = (Inr (), s)"
proof -
  let ?p = "\<lambda>q. o_delivery_id q = cd_id_text J did \<and> o_state q \<in> states
     \<and> outbox_in_project (st_db s) (st_project_key s) q"
  have "map (\<lambda>q. if ?p q then f q else q) (t_outbox (st_db s)) = t_outbox (st_db s)"
    using same by (simp add: map_idI)
  moreover have "filter ?p (t_outbox (st_db s)) \<noteq> []" using assms(2-5) by (auto simp: filter_empty_conv)
  moreover have "\<not> (\<exists>q \<in> set (filter ?p (t_outbox (st_db s))). \<not> outbox_checks_ok (f q))" using same by auto
  ultimately show ?thesis
    using assms(1) by (simp add: update_outbox_def plain_statement_def bindR_def database_err_def map_err_def
        sql_update_outbox_def)
qed

text \<open>An acknowledgement of a parent notice is final: after it succeeded, the notice can no longer
be marked delivered, retried or dead-lettered, these calls report that it is not found and change
nothing, and acknowledging it again succeeds without a change, so the first acknowledgement time stays.\<close>

lemma acknowledge_is_final:
  assumes "db_inv J (st_db s)" "acknowledge_outbox env J did at s = (Inr (), s')" "connection env2 = Inr ()"
    and "length reason \<le> MAX_SUMMARY_BYTES"
  shows "mark_outbox_delivered env2 J did at2 s' = (Inl (OutboxNotFound did), s')
    \<and> retry_outbox env2 J did at2 s' = (Inl (OutboxNotFound did), s')
    \<and> dead_letter_outbox env2 J did reason at2 s' = (Inl (OutboxNotFound did), s')
    \<and> acknowledge_outbox env2 J did at2 s' = (Inr (), s')"
proof -
  obtain h where h: "acknowledged_row at h \<in> set (t_outbox (st_db s'))" "o_delivery_id h = cd_id_text J did"
    "outbox_checks_ok (acknowledged_row at h)" "outbox_in_project (st_db s') (st_project_key s') (acknowledged_row at h)"
    and uniq: "\<And>q. q \<in> set (t_outbox (st_db s')) \<Longrightarrow> o_delivery_id q = cd_id_text J did \<Longrightarrow> q = acknowledged_row at h"
    using acknowledged_rows [OF assms(1,2)] by metis
  have final: "o_state q = ''acknowledged''" if "q \<in> set (t_outbox (st_db s'))" "o_delivery_id q = cd_id_text J did" for q
    using uniq [OF that] by (simp add: acknowledged_row_def)
  have again: "acknowledged_row at2 (acknowledged_row at h) = acknowledged_row at h"
    by (simp add: acknowledged_row_def coalesce_def split: option.splits)
  have "acknowledge_outbox env2 J did at2 s' = (Inr (), s')"
    unfolding acknowledge_outbox_def
  proof (rule update_outbox_same [OF assms(3) h(1) _ _ h(4)])
    fix q assume "q \<in> set (t_outbox (st_db s'))" "o_delivery_id q = cd_id_text J did"
    then have "q = acknowledged_row at h" by (rule uniq)
    with again h(3) show "acknowledged_row at2 q = q \<and> outbox_checks_ok q" by simp
  qed (use h(2) in \<open>simp_all add: acknowledged_row_def\<close>)
  moreover have "update_outbox env2 J did states f s' = (Inl (OutboxNotFound did), s')" if "''acknowledged'' \<notin> states" for states f
    by (rule update_outbox_none [OF assms(3)]) (use final that in auto)
  ultimately show ?thesis
    using assms(4) by (simp add: mark_outbox_delivered_def retry_outbox_def dead_letter_outbox_def)
qed

definition demo_failed :: "demo_json run_store" where
  "demo_failed = snd (transition (demo_env 12) demo_codec demo_fail demo_started)"

lemma demo_failed_db:
  "t_outbox (st_db demo_failed) = [demo_notice]" "st_project_key demo_failed = ''/p''"
  "t_runs (st_db demo_failed) = [encode_run demo_codec (apply_transition demo_fail 12 3 demo_run2)]"
  "t_chains (st_db demo_failed) = [new_chain_row demo_codec ''/p'' demo_spec 10]"
  using demo_failed_eq by (simp_all add: demo_failed_def demo_started_db demo_run2_def demo_created_db)

lemma demo_acknowledged: "fst (acknowledge_outbox (demo_env 13) demo_codec 12 13 demo_failed) = Inr ()"
proof -
  have "outbox_in_project (st_db demo_failed) ''/p'' demo_notice"
    by (simp add: outbox_in_project_def run_in_project_def demo_failed_db demo_notice_def new_chain_row_def
        encode_run_def apply_transition_def demo_run2_def demo_run_def new_record_def demo_spec_def)
  then show ?thesis
    by (simp add: acknowledge_outbox_def update_outbox_def plain_statement_def sql_update_outbox_def bindR_def
        database_err_def map_err_def demo_failed_db demo_codec_def demo_notice_def outbox_row_of_def acknowledged_row_def
        outbox_checks_ok_def)
qed

lemma acknowledge_is_final_example:
  "mark_outbox_delivered (demo_env 14) demo_codec 12 14 (snd (acknowledge_outbox (demo_env 13) demo_codec 12 13 demo_failed))
     = (Inl (OutboxNotFound 12), snd (acknowledge_outbox (demo_env 13) demo_codec 12 13 demo_failed))"
proof -
  have "acknowledge_outbox (demo_env 13) demo_codec 12 13 demo_failed
      = (Inr (), snd (acknowledge_outbox (demo_env 13) demo_codec 12 13 demo_failed))"
    using demo_acknowledged by (metis prod.collapse)
  from acknowledge_is_final [OF demo_failed_inv [folded demo_failed_def] this, of "demo_env 14" "[]" 14]
  show ?thesis by simp
qed

section \<open>Waiting\<close>

text \<open>Waiting for a revision ends at the deadline at the latest: as soon as one round was observed
after the deadline the call is decided, and it answers without the timed-out mark only with a run that is
newer than the revision asked for or has ended.\<close>

lemma wait_ends_at_deadline:
  assumes "\<exists>read. (read, True) \<in> set rounds"
  shows "\<exists>result. wait_rounds after_revision last_run final rounds = Some result
    \<and> (\<forall>answer. result = Inr answer \<and> \<not> rw_observation_timed_out answer \<longrightarrow>
         after_revision < rr_revision (rw_run answer) \<or> is_terminal (rr_lifecycle (rw_run answer)))"
  using assms
proof (induction after_revision last_run final rounds rule: wait_rounds.induct)
  case (3 after_revision last_run final e expired rounds)
  then show ?case by (auto simp: bindR_def split: sum.splits option.splits)
qed auto

lemma wait_ends_at_deadline_example:
  "\<exists>result. wait_rounds 1 None (Inl Busy) [(Inl Busy, False), (Inr demo_run, True)] = Some result"
  using wait_ends_at_deadline [of "[(Inl Busy, False), (Inr demo_run, True)]" 1 None "Inl Busy"] by auto

section \<open>Opening the database\<close>

text \<open>Two processes that open an empty database at the same time migrate it once: whichever takes the
write lock second finds the schema current and succeeds without touching the file, even if its own
migration would have failed, and exactly one migration row was written.\<close>

lemma concurrent_migration_once:
  assumes "inspect_schema f = Inr SchemaEmpty" "''schema_migrations'' \<notin> set (df_tables f)"
    and "before_lock f = Inr (snd (migrate now1 f))"
  shows "migrate_inner now2 inject before_lock f = (Inr (), snd (migrate now1 f))
    \<and> inspect_schema (snd (migrate now1 f)) = Inr SchemaCurrent
    \<and> df_schema_migrations (snd (migrate now1 f)) = df_schema_migrations f @ [(SCHEMA_VERSION, now1)]"
proof -
  have "set SCHEMA_V1_tables \<inter> set (df_tables f) = {}"
    using inspect_schema_empty [OF assms(1)] assms(2) by (auto simp: SCHEMA_V1_tables_def has_run_tables_def)
  then have ct: "create_tables SCHEMA_V1_tables f = Inr (f\<lparr>df_tables := df_tables f @ SCHEMA_V1_tables\<rparr>)"
    by (rule create_tables_fresh) (simp add: SCHEMA_V1_tables_def)
  let ?f = "f\<lparr>df_tables := df_tables f @ SCHEMA_V1_tables,
     df_schema_migrations := df_schema_migrations f @ [(SCHEMA_VERSION, now1)],
     df_application_id := APPLICATION_ID, df_user_version := SCHEMA_VERSION\<rparr>"
  have m: "migrate now1 f = (Inr (), ?f)"
    using assms(1) ct by (simp add: migrate_def migrate_inner_def migrate_locked_def bindR_def)
  have "inspect_schema ?f = Inr SchemaCurrent" by (simp add: inspect_schema_current)
  with assms(1,3) m show ?thesis by (simp add: migrate_inner_def migrate_locked_def bindR_def)
qed

lemma concurrent_migration_once_example:
  "migrate_inner 6 True (\<lambda>f. Inr (snd (migrate 5 f))) fresh_file = (Inr (), snd (migrate 5 fresh_file))"
proof -
  have "inspect_schema fresh_file = Inr SchemaEmpty" "''schema_migrations'' \<notin> set (df_tables fresh_file)"
    by (simp_all add: fresh_file_def inspect_schema_def SCHEMA_VERSION_def has_run_tables_def)
  from concurrent_migration_once [OF this, of "\<lambda>f. Inr (snd (migrate 5 f))" 5 6 True] show ?thesis by simp
qed

section \<open>Reading the event log\<close>

lemma take_upto: "take n [a..b] = [a..min b (a + int n - 1)]"
proof (induction n arbitrary: a)
  case (Suc n)
  show ?case
  proof (cases "a \<le> b")
    case True
    then have "take (Suc n) [a..b] = a # [a + 1..min b (a + int n)]"
      using Suc [of "a + 1"] by (simp add: upto.simps [of a b] algebra_simps)
    also have "\<dots> = [a..min b (a + int n)]" using True by (simp add: upto.simps [of a "min b (a + int n)"])
    finally show ?thesis by (simp add: algebra_simps)
  qed simp
qed simp

lemma distinct_map_pair:
  "distinct (map (\<lambda>x. (a x, b x)) xs) \<Longrightarrow> distinct (map b (filter (\<lambda>x. a x = k \<and> Q x) xs))"
  by (induction xs) (auto simp: image_iff)

lemma collectR_map:
  "collectR f xs = Inr ys \<Longrightarrow> (\<And>x y. x \<in> set xs \<Longrightarrow> f x = Inr y \<Longrightarrow> g y = h x) \<Longrightarrow> map g ys = map h xs"
  by (induction xs arbitrary: ys) (auto simp: result_simps)

lemma decode_event_revision:
  "decode_event J e = Inr ev \<Longrightarrow> e_revision e \<le> i64_max \<Longrightarrow> uint (ev_revision ev) = e_revision e"
  by (auto simp: decode_event_def result_simps i64_to_u64_def i64_max_def uint_word_of_int split: if_splits)

text \<open>Paging through the events of a run misses nothing and repeats nothing: a page after revision
a of size n holds exactly the events of revisions a + 1, a + 2, ... in order, up to n of them or to
the current revision of the run.\<close>

lemma events_page:
  assumes "codec_ok J" "db_inv J (st_db s)" "events env J rid after_revision limit s = Inr evs"
  shows "\<exists>run. get_run env J rid s = Inr run \<and> map (\<lambda>ev. uint (ev_revision ev)) evs =
    [uint after_revision + 1..min (uint (rr_revision run)) (uint after_revision + int limit)]"
proof -
  let ?db = "st_db s" and ?P = "\<lambda>e. e_run_id e = cd_id_text J rid \<and> uint after_revision < e_revision e"
  obtain run where q: "query_run J ?db (st_project_key s) rid = Inr (Some run)" and conn: "connection env = Inr ()"
    and col: "collectR (decode_event J) (take limit (order_by by_revision (filter ?P (t_events ?db)))) = Inr evs"
    using assms(3) by (auto simp: events_def result_simps require_run_Inr u64_to_i64_def split: if_splits)
  let ?rows = "order_by by_revision (filter ?P (t_events ?db))"
  have rows: "rows_ok J ?db" "log_ok ?db" "keys_ok ?db" using assms(2) by (auto simp: db_inv_def)
  note run = query_run_Some [OF assms(1) rows(1) q]
  have revs: "event_revs ?db (cd_id_text J rid) = {1..uint (rr_revision run)}"
    using rows(2) run(1,2) by (auto simp: log_ok_def encode_run_def)
  have "set (map e_revision ?rows) = {uint after_revision + 1..uint (rr_revision run)}"
  proof -
    have "set (map e_revision ?rows) = {v \<in> event_revs ?db (cd_id_text J rid). uint after_revision < v}"
      by (auto simp: event_revs_def)
    also have "\<dots> = {uint after_revision + 1..uint (rr_revision run)}"
    proof (rule set_eqI)
      show "v \<in> {v \<in> event_revs ?db (cd_id_text J rid). uint after_revision < v} \<longleftrightarrow>
          v \<in> {uint after_revision + 1..uint (rr_revision run)}" for v
        using uint_ge_0 [of after_revision] unfolding revs mem_Collect_eq atLeastAtMost_iff by linarith
    qed
    finally show ?thesis .
  qed
  moreover have "sorted (map e_revision ?rows)"
    using sorted_order_by [of by_revision "filter ?P (t_events ?db)"]
    by (fastforce simp: by_revision_def sorted_map transp_def elim: sorted_wrt_mono_rel [rotated])
  moreover have "distinct (map e_revision ?rows)"
    using rows(3) distinct_map_pair [of e_run_id e_revision "t_events ?db"] by (simp add: keys_ok_def distinct_order_by)
  ultimately have all: "map e_revision ?rows = [uint after_revision + 1..uint (rr_revision run)]"
    by (intro sorted_distinct_set_unique) auto
  have "map (\<lambda>ev. uint (ev_revision ev)) evs = map e_revision (take limit ?rows)"
  proof (rule collectR_map [OF col])
    fix e ev assume e: "e \<in> set (take limit ?rows)" "decode_event J e = Inr ev"
    then have "e_revision e \<in> set (map e_revision ?rows)" by (auto dest: in_set_takeD)
    then have "e_revision e \<le> uint (rr_revision run)" unfolding all by simp
    with run(4) e(2) show "uint (ev_revision ev) = e_revision e"
      by (auto intro: decode_event_revision simp: record_ok_def)
  qed
  also have "\<dots> = take limit (map e_revision ?rows)" by (rule take_map [symmetric])
  also have "\<dots> = [uint after_revision + 1..min (uint (rr_revision run)) (uint after_revision + int limit)]"
    unfolding all by (simp add: take_upto)
  finally show ?thesis using q conn by (simp add: get_run_def bindR_def ok_or_def)
qed

lemma events_page_example:
  "\<exists>run. get_run (demo_env 13) demo_codec 2 demo_started = Inr run \<and>
     map (\<lambda>ev. uint (ev_revision ev)) (projr (events (demo_env 13) demo_codec 2 1 10 demo_started)) =
     [uint (1 :: u64) + 1..min (uint (rr_revision run)) (uint (1 :: u64) + int 10)]"
proof -
  have "\<exists>evs. events (demo_env 13) demo_codec 2 1 10 demo_started = Inr evs"
    by (simp add: events_def valid_limit_def MAX_PAGE_SIZE_def demo_started_db demo_created_db demo_run2_def
        decode_event_def by_revision_def demo_start_def demo_rows)
  then obtain evs where "events (demo_env 13) demo_codec 2 1 10 demo_started = Inr evs" by blast
  with events_page [OF codec_ok_demo demo_inv(2) this] show ?thesis by simp
qed

end
