(* ===== verification/Run_Service.thy ===== *)
theory Run_Service
  imports Run_Guarantees
begin

text \<open>
  The run service (\<open>crates/n00n-runs/src/service.rs\<close> and the interfaces of \<open>adapter.rs\<close>): control
  requests that are checked against the durable record before they reach the adapter of the run's
  backend, resuming in place or as a new attempt, and the dispatcher of parent notices.

  Adapters and the parent inbox are code of the embedding program: they are functions on the store,
  so an adapter may itself advance the run, and what other processes commit while it is awaited is
  part of its effect. Each access to the store takes its own environment.
\<close>

section \<open>Sequencing\<close>

text \<open>\<open>a().await?\<close> followed by the rest, on a shared state.\<close>

definition seqS :: "('s \<Rightarrow> ('e + 'a) \<times> 's) \<Rightarrow> ('a \<Rightarrow> 's \<Rightarrow> ('e + 'b) \<times> 's) \<Rightarrow> 's \<Rightarrow> ('e + 'b) \<times> 's" where
  "seqS f k s = (case f s of (Inl e, s') \<Rightarrow> (Inl e, s') | (Inr x, s') \<Rightarrow> k x s')"

definition pureS :: "'e + 'a \<Rightarrow> 's \<Rightarrow> ('e + 'a) \<times> 's" where
  "pureS r s = (r, s)"

definition readS :: "('s \<Rightarrow> 'e + 'a) \<Rightarrow> 's \<Rightarrow> ('e + 'a) \<times> 's" where
  "readS f s = (f s, s)"

text \<open>A \<open>for\<close> loop over a list whose body may return early with \<open>?\<close>.\<close>

fun for_each :: "(nat \<Rightarrow> 'x \<Rightarrow> 'a \<Rightarrow> 's \<Rightarrow> ('e + 'a) \<times> 's) \<Rightarrow> nat \<Rightarrow> 'x list \<Rightarrow> 'a \<Rightarrow> 's \<Rightarrow> ('e + 'a) \<times> 's" where
  "for_each body n [] acc s = (Inr acc, s)"
| "for_each body n (x # xs) acc s =
     (case body n x acc s of
        (Inl e, s') \<Rightarrow> (Inl e, s')
      | (Inr acc', s') \<Rightarrow> for_each body (Suc n) xs acc' s')"

text \<open>What a loop body keeps, the loop keeps.\<close>

locale loop_body =
  fixes body :: "nat \<Rightarrow> 'x \<Rightarrow> 'a \<Rightarrow> 's \<Rightarrow> ('e + 'a) \<times> 's"
    and step :: "'s \<Rightarrow> 's \<Rightarrow> bool"
  assumes body_steps: "step\<^sup>*\<^sup>* s (snd (body n x acc s))"
begin

lemma loop_steps: "step\<^sup>*\<^sup>* s (snd (for_each body n xs acc s))"
proof (induction xs arbitrary: n acc s)
  case (Cons x xs)
  obtain r s' where b: "body n x acc s = (r, s')" by fastforce
  have "step\<^sup>*\<^sup>* s s'" using body_steps [of s n x acc] b by simp
  with b Cons.IH show ?case by (auto split: sum.splits intro: rtranclp_trans)
qed simp

end

section \<open>Interfaces\<close>

datatype run_delivery = TurnEnd | Steering | Immediate

record run_probe =
  pr_live :: bool
  pr_process_identity_verified :: bool
  pr_summary :: "str option"

record run_adapter_error =
  ae_code :: str
  ae_message :: str

datatype parent_insert_result = Inserted | AlreadyPresent | AlreadyConsumed | PermanentUnavailable str

record parent_dispatch_report =
  pd_delivered :: usize
  pd_retried :: usize
  pd_dead_lettered :: usize

type_synonym ('j, 'a) adapter_call = "'j run_store \<Rightarrow> (run_adapter_error + 'a) \<times> 'j run_store"

record 'j run_adapter =
  ad_send :: "run_record \<Rightarrow> str \<Rightarrow> run_delivery \<Rightarrow> ('j, unit) adapter_call"
  ad_answer :: "run_record \<Rightarrow> str \<Rightarrow> ('j, unit) adapter_call"
  ad_request_cancel :: "run_record \<Rightarrow> str option \<Rightarrow> ('j, unit) adapter_call"
  ad_request_pause :: "run_record \<Rightarrow> ('j, unit) adapter_call"
  ad_resume_paused :: "run_record \<Rightarrow> str option \<Rightarrow> ('j, unit) adapter_call"
  ad_resume_from :: "run_record \<Rightarrow> run_record \<Rightarrow> str option \<Rightarrow> ('j, unit) adapter_call"
  ad_probe :: "run_record \<Rightarrow> ('j, run_probe) adapter_call"

record send_run_request =
  sq_run_id :: run_id
  sq_expected_revision :: u64
  sq_text :: str
  sq_delivery :: run_delivery

record answer_run_request =
  aq_run_id :: run_id
  aq_expected_revision :: u64
  aq_response :: str

record cancel_run_request =
  cq_run_id :: run_id
  cq_expected_revision :: u64
  cq_reason :: "str option"

record pause_run_request =
  pq_run_id :: run_id
  pq_expected_revision :: u64

record resume_run_control_request =
  rcq_run_id :: run_id
  rcq_expected_revision :: u64
  rcq_owner_instance_id :: "host_instance_id option"
  rcq_operation_id :: str
  rcq_guidance :: "str option"

text \<open>The registry of adapters; \<open>None\<close> is a poisoned lock.\<close>

type_synonym 'j adapters = "(execution_backend \<rightharpoonup> 'j run_adapter) option"

section \<open>The service\<close>

definition register_adapter ::
  "execution_backend \<Rightarrow> 'j run_adapter \<Rightarrow> 'j adapters \<Rightarrow> (store_error + unit) \<times> 'j adapters" where
  "register_adapter backend adapter reg =
     (case reg of None \<Rightarrow> (Inl Synchronization, None)
      | Some reg' \<Rightarrow> (Inr (), Some (reg'(backend \<mapsto> adapter))))"

definition find_adapter :: "execution_backend \<Rightarrow> 'j adapters \<Rightarrow> store_error + 'j run_adapter" where
  "find_adapter backend reg =
     (case reg of None \<Rightarrow> Inl Synchronization
      | Some reg' \<Rightarrow> ok_or (AdapterUnavailable backend) (reg' backend))"

definition require_capability :: "bool \<Rightarrow> str \<Rightarrow> store_error + unit" where
  "require_capability enabled capability = (if enabled then Inr () else Inl (UnsupportedCapability capability))"

definition validate_control_text :: "str \<Rightarrow> str \<Rightarrow> usize \<Rightarrow> store_error + unit" where
  "validate_control_text fld text maximum =
     (if maximum < length text then Inl (DomainE (TextTooLong fld maximum)) else Inr ())"

definition validate_control_opt :: "str \<Rightarrow> str option \<Rightarrow> usize \<Rightarrow> store_error + unit" where
  "validate_control_opt fld text maximum =
     (case text of None \<Rightarrow> Inr () | Some t \<Rightarrow> validate_control_text fld t maximum)"

definition map_adapter_error :: "(run_adapter_error + 'a) \<times> 's \<Rightarrow> (store_error + 'a) \<times> 's" where
  "map_adapter_error out = (case out of (r, s) \<Rightarrow> (map_err (\<lambda>e. AdapterError (ae_code e) (ae_message e)) r, s))"

definition checked_run :: "store_env \<Rightarrow> 'j codec \<Rightarrow> run_id \<Rightarrow> u64 \<Rightarrow> 'j run_store \<Rightarrow> store_error + run_record" where
  "checked_run env J rid expected s =
     bindR (get_run env J rid s) (\<lambda>run.
     if rr_revision run \<noteq> expected then Inl (RevisionConflict rid expected (rr_revision run)) else Inr run)"

definition send ::
  "store_env \<Rightarrow> store_env \<Rightarrow> 'j codec \<Rightarrow> 'j adapters \<Rightarrow> send_run_request \<Rightarrow> 'j run_store \<Rightarrow>
   (store_error + run_record) \<times> 'j run_store" where
  "send env env2 J reg rq =
     seqS (pureS (validate_control_text ''send text'' (sq_text rq) MAX_PREVIEW_BYTES)) (\<lambda>_.
     seqS (readS (checked_run env J (sq_run_id rq) (sq_expected_revision rq))) (\<lambda>run.
     seqS (pureS (require_capability (cap_send (rr_capabilities run)) ''send'')) (\<lambda>_.
     seqS (pureS (find_adapter (rr_backend run) reg)) (\<lambda>adapter.
     seqS (\<lambda>s. map_adapter_error (ad_send adapter run (sq_text rq) (sq_delivery rq) s)) (\<lambda>_.
     readS (get_run env2 J (rr_run_id run)))))))"

definition answer ::
  "store_env \<Rightarrow> store_env \<Rightarrow> 'j codec \<Rightarrow> 'j adapters \<Rightarrow> answer_run_request \<Rightarrow> 'j run_store \<Rightarrow>
   (store_error + run_record) \<times> 'j run_store" where
  "answer env env2 J reg rq =
     seqS (pureS (validate_control_text ''answer'' (aq_response rq) MAX_PREVIEW_BYTES)) (\<lambda>_.
     seqS (readS (checked_run env J (aq_run_id rq) (aq_expected_revision rq))) (\<lambda>run.
     seqS (pureS (require_capability (cap_answer (rr_capabilities run)) ''answer'')) (\<lambda>_.
     seqS (pureS (find_adapter (rr_backend run) reg)) (\<lambda>adapter.
     seqS (\<lambda>s. map_adapter_error (ad_answer adapter run (aq_response rq) s)) (\<lambda>_.
     readS (get_run env2 J (rr_run_id run)))))))"

definition request_cancel ::
  "store_env \<Rightarrow> store_env \<Rightarrow> 'j codec \<Rightarrow> 'j adapters \<Rightarrow> cancel_run_request \<Rightarrow> 'j run_store \<Rightarrow>
   (store_error + run_record) \<times> 'j run_store" where
  "request_cancel env env2 J reg rq =
     seqS (pureS (validate_control_opt ''cancel reason'' (cq_reason rq) MAX_SUMMARY_BYTES)) (\<lambda>_.
     seqS (readS (checked_run env J (cq_run_id rq) (cq_expected_revision rq))) (\<lambda>run.
     seqS (pureS (require_capability (cap_cancel (rr_capabilities run)) ''cancel'')) (\<lambda>_.
     seqS (pureS (find_adapter (rr_backend run) reg)) (\<lambda>adapter.
     seqS (\<lambda>s. map_adapter_error (ad_request_cancel adapter run (cq_reason rq) s)) (\<lambda>_.
     readS (get_run env2 J (rr_run_id run)))))))"

definition request_pause ::
  "store_env \<Rightarrow> store_env \<Rightarrow> 'j codec \<Rightarrow> 'j adapters \<Rightarrow> pause_run_request \<Rightarrow> 'j run_store \<Rightarrow>
   (store_error + run_record) \<times> 'j run_store" where
  "request_pause env env2 J reg rq =
     seqS (readS (checked_run env J (pq_run_id rq) (pq_expected_revision rq))) (\<lambda>run.
     seqS (pureS (require_capability (cap_pause (rr_capabilities run)) ''pause'')) (\<lambda>_.
     seqS (pureS (find_adapter (rr_backend run) reg)) (\<lambda>adapter.
     seqS (\<lambda>s. map_adapter_error (ad_request_pause adapter run s)) (\<lambda>_.
     readS (get_run env2 J (rr_run_id run))))))"

definition resume ::
  "store_env \<Rightarrow> store_env \<Rightarrow> 'j codec \<Rightarrow> 'j adapters \<Rightarrow> resume_run_control_request \<Rightarrow> 'j run_store \<Rightarrow>
   (store_error + run_record) \<times> 'j run_store" where
  "resume env env2 J reg rq =
     seqS (pureS (validate_control_opt ''resume guidance'' (rcq_guidance rq) MAX_PREVIEW_BYTES)) (\<lambda>_.
     seqS (readS (checked_run env J (rcq_run_id rq) (rcq_expected_revision rq))) (\<lambda>prior.
     seqS (pureS (require_capability (cap_resume (rr_capabilities prior)) ''resume'')) (\<lambda>_.
     seqS (pureS (find_adapter (rr_backend prior) reg)) (\<lambda>adapter.
     if rr_lifecycle prior = Paused then
       seqS (\<lambda>s. map_adapter_error (ad_resume_paused adapter prior (rcq_guidance rq) s)) (\<lambda>_.
       readS (get_run env2 J (rr_run_id prior)))
     else if \<not> is_terminal (rr_lifecycle prior) then
       pureS (Inl (ResumeRequiresPausedOrTerminal (rr_lifecycle prior)))
     else
       seqS (resume_run env2 J \<lparr>rq_prior_run_id = rr_run_id prior, rq_expected_revision = rr_revision prior,
         rq_owner_instance_id = rcq_owner_instance_id rq, rq_operation_id = rcq_operation_id rq\<rparr>) (\<lambda>next_run.
       seqS (\<lambda>s. map_adapter_error (ad_resume_from adapter prior next_run (rcq_guidance rq) s)) (\<lambda>_.
       pureS (Inr next_run)))))))"

definition probe ::
  "store_env \<Rightarrow> 'j codec \<Rightarrow> 'j adapters \<Rightarrow> run_id \<Rightarrow> u64 \<Rightarrow> 'j run_store \<Rightarrow>
   (store_error + run_probe) \<times> 'j run_store" where
  "probe env J reg rid expected =
     seqS (readS (checked_run env J rid expected)) (\<lambda>run.
     seqS (pureS (find_adapter (rr_backend run) reg)) (\<lambda>adapter.
     (\<lambda>s. map_adapter_error (ad_probe adapter run s))))"

section \<open>Dispatching parent notices\<close>

type_synonym 'j inbox = "parent_outbox_record \<Rightarrow> ('j, parent_insert_result) adapter_call"

definition dispatch_one ::
  "(nat \<Rightarrow> store_env) \<Rightarrow> 'j codec \<Rightarrow> 'j inbox \<Rightarrow> i64 \<Rightarrow> i64 \<Rightarrow> nat \<Rightarrow> parent_outbox_record \<Rightarrow>
   parent_dispatch_report \<Rightarrow> 'j run_store \<Rightarrow> (store_error + parent_dispatch_report) \<times> 'j run_store" where
  "dispatch_one envs J inbox now retry_delay n delivery report s =
     (let did = po_delivery_id delivery in
      case inbox delivery s of
        (Inr Inserted, s1) \<Rightarrow> seqS (mark_outbox_delivered (envs n) J did now)
          (\<lambda>_. pureS (Inr (report\<lparr>pd_delivered := pd_delivered report + 1\<rparr>))) s1
      | (Inr AlreadyPresent, s1) \<Rightarrow> seqS (mark_outbox_delivered (envs n) J did now)
          (\<lambda>_. pureS (Inr (report\<lparr>pd_delivered := pd_delivered report + 1\<rparr>))) s1
      | (Inr AlreadyConsumed, s1) \<Rightarrow> seqS (acknowledge_outbox (envs n) J did now)
          (\<lambda>_. pureS (Inr (report\<lparr>pd_delivered := pd_delivered report + 1\<rparr>))) s1
      | (Inr (PermanentUnavailable reason), s1) \<Rightarrow>
          seqS (pureS (validate_control_text ''dead-letter reason'' reason MAX_SUMMARY_BYTES)) (\<lambda>_.
          seqS (dead_letter_outbox (envs n) J did reason now)
          (\<lambda>_. pureS (Inr (report\<lparr>pd_dead_lettered := pd_dead_lettered report + 1\<rparr>)))) s1
      | (Inl _, s1) \<Rightarrow>
          seqS (pureS (ok_or (Clock ''parent outbox retry deadline overflow'') (checked_add_i64 now retry_delay))) (\<lambda>retry_at.
          seqS (retry_outbox (envs n) J did retry_at)
          (\<lambda>_. pureS (Inr (report\<lparr>pd_retried := pd_retried report + 1\<rparr>)))) s1)"

definition dispatch_parent_outbox ::
  "store_env \<Rightarrow> (nat \<Rightarrow> store_env) \<Rightarrow> 'j codec \<Rightarrow> 'j inbox \<Rightarrow> i64 \<Rightarrow> i64 \<Rightarrow> usize \<Rightarrow> 'j run_store \<Rightarrow>
   (store_error + parent_dispatch_report) \<times> 'j run_store" where
  "dispatch_parent_outbox env envs J inbox now retry_delay limit =
     seqS (readS (dispatchable_outbox env J now limit)) (\<lambda>deliveries.
     for_each (dispatch_one envs J inbox now retry_delay) 0 deliveries
       \<lparr>pd_delivered = 0, pd_retried = 0, pd_dead_lettered = 0\<rparr>)"

definition acknowledge_parent_delivery ::
  "store_env \<Rightarrow> 'j codec \<Rightarrow> delivery_id \<Rightarrow> i64 \<Rightarrow> 'j run_store \<Rightarrow> (store_error + unit) \<times> 'j run_store" where
  "acknowledge_parent_delivery env J did at s = acknowledge_outbox env J did at s"

section \<open>Checks before the adapter\<close>

lemma seqS_simps [simp]:
  "seqS (pureS (Inr x)) k s = k x s" "seqS (pureS (Inl e)) k s = (Inl e, s)"
  "seqS (readS f) k s = (case f s of Inl e \<Rightarrow> (Inl e, s) | Inr x \<Rightarrow> k x s)"
  by (simp_all add: seqS_def pureS_def readS_def split: sum.splits)

definition refusal :: "run_record \<Rightarrow> u64 \<Rightarrow> str \<Rightarrow> store_error" where
  "refusal run expected capability = (if rr_revision run \<noteq> expected
     then RevisionConflict (rr_run_id run) expected (rr_revision run) else UnsupportedCapability capability)"

text \<open>C8. A control request reaches no adapter unless the durable run still has the revision the caller
saw and offers the capability: otherwise sending, answering, cancelling, pausing and resuming report a
revision conflict or the missing capability, and the store is unchanged, whatever adapters are
registered.\<close>

theorem control_gates:
  assumes "get_run env J rid s = Inr run" "rr_run_id run = rid"
    and "length text \<le> MAX_PREVIEW_BYTES" "\<And>r. reason = Some r \<Longrightarrow> length r \<le> MAX_SUMMARY_BYTES"
  shows "(rr_revision run \<noteq> expected \<or> \<not> cap_send (rr_capabilities run) \<longrightarrow>
      send env env2 J reg \<lparr>sq_run_id = rid, sq_expected_revision = expected, sq_text = text, sq_delivery = delivery\<rparr> s
        = (Inl (refusal run expected ''send''), s))
    \<and> (rr_revision run \<noteq> expected \<or> \<not> cap_answer (rr_capabilities run) \<longrightarrow>
      answer env env2 J reg \<lparr>aq_run_id = rid, aq_expected_revision = expected, aq_response = text\<rparr> s
        = (Inl (refusal run expected ''answer''), s))
    \<and> (rr_revision run \<noteq> expected \<or> \<not> cap_cancel (rr_capabilities run) \<longrightarrow>
      request_cancel env env2 J reg \<lparr>cq_run_id = rid, cq_expected_revision = expected, cq_reason = reason\<rparr> s
        = (Inl (refusal run expected ''cancel''), s))
    \<and> (rr_revision run \<noteq> expected \<or> \<not> cap_pause (rr_capabilities run) \<longrightarrow>
      request_pause env env2 J reg \<lparr>pq_run_id = rid, pq_expected_revision = expected\<rparr> s
        = (Inl (refusal run expected ''pause''), s))
    \<and> (rr_revision run \<noteq> expected \<or> \<not> cap_resume (rr_capabilities run) \<longrightarrow>
      resume env env2 J reg \<lparr>rcq_run_id = rid, rcq_expected_revision = expected, rcq_owner_instance_id = owner,
        rcq_operation_id = op, rcq_guidance = Some text\<rparr> s = (Inl (refusal run expected ''resume''), s))"
  using assms(1-4)
  by (auto simp: refusal_def send_def answer_def request_cancel_def request_pause_def resume_def checked_run_def
      require_capability_def validate_control_text_def validate_control_opt_def split: option.splits)

theorem control_gates_witness:
  "send (demo_env 13) (demo_env 14) demo_codec None
     \<lparr>sq_run_id = 2, sq_expected_revision = 1, sq_text = ''x'', sq_delivery = TurnEnd\<rparr> demo_started
   = (Inl (RevisionConflict 2 1 2), demo_started)"
proof -
  have "get_run (demo_env 13) demo_codec 2 demo_started = Inr demo_run2"
    by (simp add: get_run_def demo_started_db demo_created_db demo_run2_def demo_start_def demo_rows)
  moreover have "rr_run_id demo_run2 = 2" "rr_revision demo_run2 = 2"
    by (simp_all add: demo_run2_def apply_transition_def demo_run_def new_record_def demo_spec_def)
  ultimately show ?thesis
    using control_gates [of "demo_env 13" demo_codec 2 demo_started demo_run2 "''x''" None 1 "demo_env 14" None TurnEnd]
    by (simp add: domain_limits refusal_def)
qed

section \<open>Dispatching\<close>

text \<open>The update a delivery's row gets, by what the inbox answered.\<close>

fun settle :: "run_adapter_error + parent_insert_result \<Rightarrow> i64 \<Rightarrow> i64 \<Rightarrow> 'j outbox_row \<Rightarrow> 'j outbox_row" where
  "settle (Inr Inserted) now delay q = delivered_row now q"
| "settle (Inr AlreadyPresent) now delay q = delivered_row now q"
| "settle (Inr AlreadyConsumed) now delay q = acknowledged_row now q"
| "settle (Inr (PermanentUnavailable reason)) now delay q = dead_letter_row reason q"
| "settle (Inl e) now delay q = retried_row (now + delay) q"

lemma settle_eqs:
  "settle (Inr Inserted) now delay = delivered_row now" "settle (Inr AlreadyPresent) now delay = delivered_row now"
  "settle (Inr AlreadyConsumed) now delay = acknowledged_row now"
  "settle (Inr (PermanentUnavailable reason)) now delay = dead_letter_row reason"
  "settle (Inl e) now delay = retried_row (now + delay)"
  by (simp_all add: fun_eq_iff)

lemma update_outbox_done:
  assumes "update_outbox env J did states f s = (Inr (), s')"
  shows "\<exists>p. st_db s' = (st_db s)\<lparr>t_outbox := map (\<lambda>q. if p q then f q else q) (t_outbox (st_db s))\<rparr>
    \<and> st_project_key s' = st_project_key s \<and> (\<exists>q \<in> set (t_outbox (st_db s)). p q)
    \<and> (\<forall>q. p q \<longrightarrow> o_delivery_id q = cd_id_text J did)"
proof -
  let ?p = "\<lambda>q. o_delivery_id q = cd_id_text J did \<and> o_state q \<in> states
     \<and> outbox_in_project (st_db s) (st_project_key s) q"
  obtain n where n: "n \<noteq> 0" and upd: "sql_update_outbox ?p f (st_db s) = Inr (n, st_db s')"
    and pk: "st_project_key s' = st_project_key s"
    using assms by (auto simp: update_outbox_def plain_statement_def bindR_def database_err_def map_err_def
        split: sum.splits if_splits prod.splits)
  then have "st_db s' = (st_db s)\<lparr>t_outbox := map (\<lambda>q. if ?p q then f q else q) (t_outbox (st_db s))\<rparr>"
    "n = length (filter ?p (t_outbox (st_db s)))"
    by (auto simp: sql_update_outbox_def split: if_splits)
  with n pk show ?thesis by (intro exI [of _ ?p]) (auto simp: filter_empty_conv)
qed

lemma dispatch_one_done:
  assumes "dispatch_one envs J (\<lambda>d s. (inbox d, s)) now delay n d report s = (Inr report', s')"
  shows "\<exists>p. st_db s' = (st_db s)\<lparr>t_outbox := map (\<lambda>q. if p q then settle (inbox d) now delay q else q) (t_outbox (st_db s))\<rparr>
    \<and> st_project_key s' = st_project_key s \<and> (\<exists>q \<in> set (t_outbox (st_db s)). p q)
    \<and> (\<forall>q. p q \<longrightarrow> o_delivery_id q = cd_id_text J (po_delivery_id d))"
proof -
  have "\<exists>states. update_outbox (envs n) J (po_delivery_id d) states (settle (inbox d) now delay) s = (Inr (), s')"
    using assms
    by (auto simp: dispatch_one_def Let_def seqS_def pureS_def mark_outbox_delivered_def acknowledge_outbox_def
        retry_outbox_def dead_letter_outbox_def settle_eqs checked_add_i64_def ok_or_def
        split: sum.splits prod.splits if_splits option.splits parent_insert_result.splits)
  then show ?thesis by (auto dest: update_outbox_done)
qed

lemma settle_id: "o_delivery_id (settle out now delay q) = o_delivery_id q"
  by (cases "(out, now, delay, q)" rule: settle.cases)
    (simp_all add: delivered_row_def acknowledged_row_def dead_letter_row_def retried_row_def)

definition report_total :: "parent_dispatch_report \<Rightarrow> nat" where
  "report_total r = pd_delivered r + pd_retried r + pd_dead_lettered r"

lemma dispatch_one_total:
  "dispatch_one envs J inbox now delay n d report s = (Inr report', s') \<Longrightarrow> report_total report' = Suc (report_total report)"
  by (auto simp: dispatch_one_def Let_def seqS_def pureS_def report_total_def
      split: sum.splits prod.splits parent_insert_result.splits)

lemma dispatch_loop_done:
  assumes J: "codec_ok J"
  shows "for_each (dispatch_one envs J (\<lambda>d s. (inbox d, s)) now delay) n ds report s = (Inr report', s') \<Longrightarrow>
    distinct (map po_delivery_id ds) \<Longrightarrow> distinct (map o_delivery_id (t_outbox (st_db s))) \<Longrightarrow>
    (\<forall>d \<in> set ds. \<exists>q \<in> set (t_outbox (st_db s)). o_delivery_id q = cd_id_text J (po_delivery_id d)
        \<and> settle (inbox d) now delay q \<in> set (t_outbox (st_db s')))
    \<and> (\<forall>q \<in> set (t_outbox (st_db s)). o_delivery_id q \<notin> (cd_id_text J \<circ> po_delivery_id) ` set ds \<longrightarrow> q \<in> set (t_outbox (st_db s')))
    \<and> report_total report' = report_total report + length ds"
proof (induction ds arbitrary: n report s)
  case (Cons d ds)
  obtain report1 s1 where one: "dispatch_one envs J (\<lambda>d s. (inbox d, s)) now delay n d report s = (Inr report1, s1)"
    and rest: "for_each (dispatch_one envs J (\<lambda>d s. (inbox d, s)) now delay) (Suc n) ds report1 s1 = (Inr report', s')"
    using Cons.prems(1) by (auto split: sum.splits prod.splits)
  obtain p where db1: "st_db s1 = (st_db s)\<lparr>t_outbox := map (\<lambda>q. if p q then settle (inbox d) now delay q else q) (t_outbox (st_db s))\<rparr>"
    and hit: "\<exists>q \<in> set (t_outbox (st_db s)). p q" and pid: "\<forall>q. p q \<longrightarrow> o_delivery_id q = cd_id_text J (po_delivery_id d)"
    using dispatch_one_done [OF one] by blast
  then have s1: "t_outbox (st_db s1) = map (\<lambda>q. if p q then settle (inbox d) now delay q else q) (t_outbox (st_db s))"
    by simp
  have keys: "map o_delivery_id (t_outbox (st_db s1)) = map o_delivery_id (t_outbox (st_db s))"
    by (simp add: s1 settle_id)
  have fresh: "cd_id_text J (po_delivery_id d) \<noteq> cd_id_text J (po_delivery_id d')" if "d' \<in> set ds" for d'
    using that Cons.prems(2) J by auto
  have ih: "\<forall>d \<in> set ds. \<exists>q \<in> set (t_outbox (st_db s1)). o_delivery_id q = cd_id_text J (po_delivery_id d)
        \<and> settle (inbox d) now delay q \<in> set (t_outbox (st_db s'))"
    "\<forall>q \<in> set (t_outbox (st_db s1)). o_delivery_id q \<notin> (cd_id_text J \<circ> po_delivery_id) ` set ds \<longrightarrow> q \<in> set (t_outbox (st_db s'))"
    "report_total report' = report_total report1 + length ds"
    using Cons.IH [OF rest] Cons.prems(2,3) keys by auto
  have kept: "q \<in> set (t_outbox (st_db s1))" if "q \<in> set (t_outbox (st_db s))" "o_delivery_id q \<noteq> cd_id_text J (po_delivery_id d)" for q
    using that pid by (force simp: s1)
  obtain q where q: "q \<in> set (t_outbox (st_db s))" "p q" using hit by blast
  then have "settle (inbox d) now delay q \<in> set (t_outbox (st_db s1))" by (force simp: s1)
  moreover have "o_delivery_id (settle (inbox d) now delay q) = cd_id_text J (po_delivery_id d)"
    using q(2) pid by (simp add: settle_id)
  ultimately have first: "settle (inbox d) now delay q \<in> set (t_outbox (st_db s'))"
    using ih(2) fresh by fastforce
  have later: "\<exists>q \<in> set (t_outbox (st_db s)). o_delivery_id q = cd_id_text J (po_delivery_id d')
        \<and> settle (inbox d') now delay q \<in> set (t_outbox (st_db s'))" if "d' \<in> set ds" for d'
  proof -
    from bspec [OF ih(1) that] obtain q1 where q1: "q1 \<in> set (t_outbox (st_db s1))"
      "o_delivery_id q1 = cd_id_text J (po_delivery_id d')" "settle (inbox d') now delay q1 \<in> set (t_outbox (st_db s'))"
      by (elim bexE conjE)
    have "q1 \<in> set (t_outbox (st_db s))"
      using q1(1,2) fresh [OF that] pid by (auto simp: s1 settle_id split: if_splits)
    with q1 show ?thesis by blast
  qed
  show ?case
  proof (intro conjI ballI impI)
    fix d' assume "d' \<in> set (d # ds)"
    then show "\<exists>q \<in> set (t_outbox (st_db s)). o_delivery_id q = cd_id_text J (po_delivery_id d')
        \<and> settle (inbox d') now delay q \<in> set (t_outbox (st_db s'))"
      using first later q pid by (metis set_ConsD)
  next
    fix q' assume "q' \<in> set (t_outbox (st_db s))" "o_delivery_id q' \<notin> (cd_id_text J \<circ> po_delivery_id) ` set (d # ds)"
    then show "q' \<in> set (t_outbox (st_db s'))" using kept [of q'] ih(2) by simp
  next
    show "report_total report' = report_total report + length (d # ds)"
      using ih(3) dispatch_one_total [OF one] by simp
  qed
qed simp

text \<open>The deliveries of a page are distinct, because a delivery id is printed as its own key.\<close>

lemma dispatchable_distinct:
  assumes J: "codec_ok J" and inv: "db_inv J (st_db s)" and page: "dispatchable_outbox env J now limit s = Inr ds"
  shows "distinct (map po_delivery_id ds)" and "length ds \<le> limit"
proof -
  obtain rows where rows: "set rows \<subseteq> set (t_outbox (st_db s))" "distinct (map o_delivery_id rows)" "length rows \<le> limit"
    and col: "collectR (decode_outbox J) rows = Inr ds"
  proof
    let ?rows = "take limit (order_by dispatch_order (filter (\<lambda>q. outbox_in_project (st_db s) (st_project_key s) q
        \<and> o_state q \<in> {''pending'', ''delivered''} \<and> due now q) (t_outbox (st_db s))))"
    show "collectR (decode_outbox J) ?rows = Inr ds" using page by (auto simp: dispatchable_outbox_def result_simps)
    show "set ?rows \<subseteq> set (t_outbox (st_db s))" by (auto dest: in_set_takeD)
    have "distinct (map o_delivery_id (t_outbox (st_db s)))" using inv by (simp add: db_inv_def keys_ok_def)
    then show "distinct (map o_delivery_id ?rows)"
      by (simp add: take_map [symmetric] distinct_take distinct_order_by distinct_map_filterI)
    show "length ?rows \<le> limit" by simp
  qed
  have ids: "map (\<lambda>d. cd_id_text J (po_delivery_id d)) ds = map o_delivery_id rows"
  proof (rule collectR_map [OF col])
    fix q d assume q: "q \<in> set rows" "decode_outbox J q = Inr d"
    obtain u where u: "o_delivery_id q = cd_id_text J u" using inv rows(1) q(1) by (auto simp: db_inv_def outbox_ok_def)
    with q(2) J show "cd_id_text J (po_delivery_id d) = o_delivery_id q"
      by (auto simp: decode_outbox_def result_simps)
  qed
  then have "map (cd_id_text J) (map po_delivery_id ds) = map o_delivery_id rows" by (simp add: comp_def)
  with rows(2) show "distinct (map po_delivery_id ds)" by (metis distinct_map)
  from ids have "length ds = length rows" by (metis length_map)
  with rows(3) show "length ds \<le> limit" by simp
qed

text \<open>A dispatch that returns a report has settled the whole page: it read at most the requested number
of due notices, counts each of them once, and the row of each is marked delivered, acknowledged or
dead-lettered, or scheduled for a retry, as the inbox answered.\<close>

lemma dispatch_settles_page:
  assumes "codec_ok J" "db_inv J (st_db s)"
    and "dispatch_parent_outbox env envs J (\<lambda>d s. (inbox d, s)) now delay limit s = (Inr report, s')"
  shows "\<exists>ds. dispatchable_outbox env J now limit s = Inr ds \<and> length ds \<le> limit
    \<and> pd_delivered report + pd_retried report + pd_dead_lettered report = length ds
    \<and> (\<forall>d \<in> set ds. \<exists>q \<in> set (t_outbox (st_db s)). o_delivery_id q = cd_id_text J (po_delivery_id d)
         \<and> settle (inbox d) now delay q \<in> set (t_outbox (st_db s')))"
proof -
  obtain ds where ds: "dispatchable_outbox env J now limit s = Inr ds" and
    loop: "for_each (dispatch_one envs J (\<lambda>d s. (inbox d, s)) now delay) 0 ds
       \<lparr>pd_delivered = 0, pd_retried = 0, pd_dead_lettered = 0\<rparr> s = (Inr report, s')"
    using assms(3) by (auto simp: dispatch_parent_outbox_def split: sum.splits)
  note page = dispatchable_distinct [OF assms(1,2) ds]
  have "distinct (map o_delivery_id (t_outbox (st_db s)))" using assms(2) by (simp add: db_inv_def keys_ok_def)
  from dispatch_loop_done [OF assms(1) loop page(1) this] ds page(2) show ?thesis
    by (auto simp: report_total_def)
qed

definition demo_delivery :: parent_outbox_record where
  "demo_delivery = projr (decode_outbox demo_codec demo_notice)"

lemma demo_delivery_id: "po_delivery_id demo_delivery = 12"
  by (simp add: demo_delivery_def demo_notice_def outbox_row_of_def decode_outbox_def parse_id_def parse_json_def
      parse_enum_def parse_outbox_state_def demo_codec_def demo_id_text_def demo_parse_id_def)

lemma demo_notice_project: "outbox_in_project (st_db demo_failed) ''/p'' demo_notice"
  by (simp add: outbox_in_project_def run_in_project_def demo_failed_db demo_notice_def new_chain_row_def
      encode_run_def apply_transition_def demo_run2_def demo_run_def new_record_def demo_spec_def)

lemma demo_notice_pending: "o_state demo_notice = ''pending''" "due t demo_notice"
  "o_delivery_id demo_notice = cd_id_text demo_codec 12" "outbox_checks_ok (delivered_row t demo_notice)"
  by (simp_all add: demo_notice_def outbox_row_of_def due_def outbox_checks_ok_def delivered_row_def)

lemma demo_delivery_decoded: "decode_outbox demo_codec demo_notice = Inr demo_delivery"
  by (simp add: demo_delivery_def demo_notice_def outbox_row_of_def decode_outbox_def parse_id_def parse_json_def
      parse_enum_def parse_outbox_state_def demo_codec_def demo_id_text_def demo_parse_id_def)

lemma demo_page: "dispatchable_outbox (demo_env 13) demo_codec 13 10 demo_failed = Inr [demo_delivery]"
  by (simp add: dispatchable_outbox_def valid_limit_def MAX_PAGE_SIZE_def demo_failed_db demo_notice_project
      demo_notice_pending demo_delivery_decoded)

lemma demo_delivered: "fst (mark_outbox_delivered (demo_env 13) demo_codec 12 13 demo_failed) = Inr ()"
  by (simp add: mark_outbox_delivered_def update_outbox_def plain_statement_def sql_update_outbox_def database_err_def
      demo_failed_db demo_notice_project demo_notice_pending)

lemma demo_dispatch:
  "fst (dispatch_parent_outbox (demo_env 13) (\<lambda>n. demo_env 13) demo_codec (\<lambda>d s. (Inr Inserted, s)) 13 5 10 demo_failed)
     = Inr \<lparr>pd_delivered = 1, pd_retried = 0, pd_dead_lettered = 0\<rparr>"
proof -
  obtain s' where "mark_outbox_delivered (demo_env 13) demo_codec 12 13 demo_failed = (Inr (), s')"
    using demo_delivered by (metis prod.collapse)
  then show ?thesis
    by (simp add: dispatch_parent_outbox_def demo_page dispatch_one_def Let_def demo_delivery_id)
       (simp add: seqS_def pureS_def)
qed

lemma dispatch_settles_page_example:
  "\<exists>ds. dispatchable_outbox (demo_env 13) demo_codec 13 10 demo_failed = Inr ds \<and> length ds = 1"
proof -
  let ?out = "dispatch_parent_outbox (demo_env 13) (\<lambda>n. demo_env 13) demo_codec (\<lambda>d s. (Inr Inserted, s)) 13 5 10 demo_failed"
  have "?out = (Inr \<lparr>pd_delivered = 1, pd_retried = 0, pd_dead_lettered = 0\<rparr>, snd ?out)"
    using demo_dispatch by (metis prod.collapse)
  from dispatch_settles_page [OF codec_ok_demo demo_failed_inv [folded demo_failed_def] this] show ?thesis by auto
qed

lemma acknowledged_row_state: "o_state (acknowledged_row at q) = ''acknowledged''"
  by (simp add: acknowledged_row_def)

text \<open>C10. A parent that acknowledges a notice before the dispatcher has recorded the insertion makes the
dispatch fail: marking the row delivered then reports that it is not found, the dispatch returns this
error although nothing is wrong, and the notices after it in the page are not attempted.\<close>

theorem early_acknowledgement_aborts_dispatch:
  assumes "db_inv J (st_db s)" "acknowledge_outbox env J (po_delivery_id d) at s = (Inr (), s1)"
    and "inbox d s = (Inr Inserted, s1)" "connection (envs n) = Inr ()"
  shows "for_each (dispatch_one envs J inbox now delay) n (d # ds) report s = (Inl (OutboxNotFound (po_delivery_id d)), s1)"
proof -
  have "o_state q = ''acknowledged''"
    if "q \<in> set (t_outbox (st_db s1))" "o_delivery_id q = cd_id_text J (po_delivery_id d)" for q
    using acknowledged_rows [OF assms(1,2)] that by (metis acknowledged_row_state)
  then have "update_outbox (envs n) J (po_delivery_id d) {''pending'', ''delivered''} (delivered_row now) s1
      = (Inl (OutboxNotFound (po_delivery_id d)), s1)"
    by (intro update_outbox_none [OF assms(4)]) auto
  with assms(3) show ?thesis
    by (simp add: dispatch_one_def Let_def mark_outbox_delivered_def seqS_def)
qed

theorem early_acknowledgement_aborts_dispatch_witness:
  "fst (for_each (dispatch_one (\<lambda>n. demo_env 14) demo_codec
      (\<lambda>d s. (Inr Inserted, snd (acknowledge_outbox (demo_env 13) demo_codec (po_delivery_id d) 13 s))) 14 5) 0
      [demo_delivery] \<lparr>pd_delivered = 0, pd_retried = 0, pd_dead_lettered = 0\<rparr> demo_failed) = Inl (OutboxNotFound 12)"
proof -
  have "acknowledge_outbox (demo_env 13) demo_codec (po_delivery_id demo_delivery) 13 demo_failed
      = (Inr (), snd (acknowledge_outbox (demo_env 13) demo_codec 12 13 demo_failed))"
    using demo_acknowledged by (metis prod.collapse demo_delivery_id)
  from early_acknowledgement_aborts_dispatch [OF demo_failed_inv [folded demo_failed_def] this,
      of "\<lambda>d s. (Inr Inserted, snd (acknowledge_outbox (demo_env 13) demo_codec (po_delivery_id d) 13 s))" "\<lambda>n. demo_env 14"]
  show ?thesis by (simp add: demo_delivery_id)
qed

section \<open>A dispatch is a sequence of store calls\<close>

lemma dispatch_one_steps:
  assumes "\<And>d s. (store_step J)\<^sup>*\<^sup>* s (snd (inbox d s))"
  shows "(store_step J)\<^sup>*\<^sup>* s (snd (dispatch_one envs J inbox now delay n d report s))"
proof -
  obtain r s1 where i: "inbox d s = (r, s1)" by fastforce
  have s1: "(store_step J)\<^sup>*\<^sup>* s s1" using assms [of s d] i by simp
  have "s1 = snd (dispatch_one envs J inbox now delay n d report s) \<or>
      store_step J s1 (snd (dispatch_one envs J inbox now delay n d report s))"
    using i
    by (auto simp: dispatch_one_def Let_def seqS_def pureS_def split: sum.splits prod.splits parent_insert_result.splits
        intro: step_deliver step_acknowledge step_retry step_dead_letter)
       (metis snd_conv step_deliver step_acknowledge step_retry step_dead_letter)+
  with s1 show ?thesis by (metis rtranclp.rtrancl_into_rtrancl)
qed

interpretation quiet_inbox: loop_body "dispatch_one envs J (\<lambda>d s. (inbox d, s)) now delay" "store_step J"
  for envs J inbox now delay
  by unfold_locales (simp add: dispatch_one_steps)


end
