(* ===== verification/Text_Buffer.thy ===== *)
theory Text_Buffer
  imports N00n_Prelude "HOL-Library.Monad_Syntax"
begin

text \<open>
  The multi-line edit buffer of the terminal UI (\<open>crates/n00n-ui/src/text_buffer.rs\<close>): lines with a
  cursor, a selection anchor, undo and redo stacks, a kill ring and the span of the last yank.

  A line is the list of its characters, a character its Unicode scalar value. The code indexes lines
  by character and slices them by byte; \<open>char_to_byte\<close> converts, and a slice at a byte that is not a
  character boundary, an inverted range or an index out of range is a panic, \<open>None\<close> here.
\<close>

section \<open>Strings by byte offset\<close>

type_synonym cp = nat
type_synonym line = "cp list"

definition NL :: cp where "NL = 10"

definition TAB :: cp where "TAB = 9"

definition TAB_SPACES :: line where "TAB_SPACES = [32, 32]"

definition utf8_len :: "cp \<Rightarrow> nat" where
  "utf8_len c = (if c < 0x80 then 1 else if c < 0x800 then 2 else if c < 0x10000 then 3 else 4)"

definition byte_len :: "line \<Rightarrow> nat" where
  "byte_len s = sum_list (map utf8_len s)"

text \<open>\<open>s.split_at(byte)\<close>: panics off a character boundary.\<close>

fun split_at_byte :: "line \<Rightarrow> nat \<Rightarrow> (line \<times> line) option" where
  "split_at_byte s 0 = Some ([], s)"
| "split_at_byte [] (Suc n) = None"
| "split_at_byte (c # s) (Suc n) =
     (if utf8_len c \<le> Suc n
      then map_option (\<lambda>(a, b). (c # a, b)) (split_at_byte s (Suc n - utf8_len c))
      else None)"

definition char_to_byte :: "line \<Rightarrow> nat \<Rightarrow> nat" where
  "char_to_byte s char_idx = byte_len (take char_idx s)"

text \<open>\<open>&s[a..b]\<close> with what is before and after it.\<close>

definition slice3 :: "line \<Rightarrow> nat \<Rightarrow> nat \<Rightarrow> (line \<times> line \<times> line) option" where
  "slice3 s a b =
     (if b < a then None
      else do { (left, rest) \<leftarrow> split_at_byte s a;
                (mid, right) \<leftarrow> split_at_byte rest (b - a);
                Some (left, mid, right) })"

fun split_on :: "cp \<Rightarrow> line \<Rightarrow> line list" where
  "split_on d [] = [[]]"
| "split_on d (c # s) =
     (if c = d then [] # split_on d s
      else (case split_on d s of [] \<Rightarrow> [[c]] | l # ls \<Rightarrow> (c # l) # ls))"

definition replace_tabs :: "line \<Rightarrow> line" where
  "replace_tabs s = concat (map (\<lambda>c. if c = TAB then TAB_SPACES else [c]) s)"

definition is_ascii_whitespace :: "cp \<Rightarrow> bool" where
  "is_ascii_whitespace c \<longleftrightarrow> c \<in> {32, 9, 10, 12, 13}"

section \<open>State\<close>

datatype edit_result = Ignored | Moved | Changed

definition UNDO_LIMIT :: nat where "UNDO_LIMIT = 200"

definition KILL_RING_LIMIT :: nat where "KILL_RING_LIMIT = 30"

record snapshot =
  sn_lines :: "line list"
  sn_raw_x :: nat
  sn_cursor_y :: nat

datatype edit_kind = EInsert | ERemove | EOther

record yank_span =
  ys_y :: nat
  ys_x :: nat
  ys_end_y :: nat
  ys_end_x :: nat
  ys_ring_pos :: nat

record text_buffer =
  tb_lines :: "line list"
  tb_raw_x :: nat
  tb_cursor_y :: nat
  tb_selection :: "(nat \<times> nat) option"
  tb_undo :: "snapshot list"
  tb_redo :: "snapshot list"
  tb_last_edit :: "edit_kind option"
  tb_kill_ring :: "line list"
  tb_yank :: "yank_span option"

definition new_buffer :: "line \<Rightarrow> text_buffer" where
  "new_buffer input = \<lparr>tb_lines = split_on NL input, tb_raw_x = 0, tb_cursor_y = 0, tb_selection = None,
     tb_undo = [], tb_redo = [], tb_last_edit = None, tb_kill_ring = [], tb_yank = None\<rparr>"

definition take_snapshot :: "text_buffer \<Rightarrow> snapshot" where
  "take_snapshot b = \<lparr>sn_lines = tb_lines b, sn_raw_x = tb_raw_x b, sn_cursor_y = tb_cursor_y b\<rparr>"

definition restore :: "snapshot \<Rightarrow> text_buffer \<Rightarrow> text_buffer" where
  "restore snap b = b\<lparr>tb_lines := sn_lines snap, tb_raw_x := sn_raw_x snap, tb_cursor_y := sn_cursor_y snap,
     tb_selection := None\<rparr>"

definition push_limited :: "nat \<Rightarrow> 'a \<Rightarrow> 'a list \<Rightarrow> 'a list" where
  "push_limited limit x xs = (if limit < length (xs @ [x]) then tl (xs @ [x]) else xs @ [x])"

definition record_edit :: "edit_kind \<Rightarrow> text_buffer \<Rightarrow> text_buffer" where
  "record_edit kind b =
     (if kind \<noteq> EOther \<and> tb_last_edit b = Some kind then b
      else b\<lparr>tb_undo := push_limited UNDO_LIMIT (take_snapshot b) (tb_undo b), tb_redo := [],
             tb_last_edit := Some kind, tb_yank := None\<rparr>)"

definition note_move :: "text_buffer \<Rightarrow> text_buffer" where
  "note_move b = b\<lparr>tb_last_edit := None, tb_yank := None\<rparr>"

definition push_kill :: "line \<Rightarrow> text_buffer \<Rightarrow> text_buffer" where
  "push_kill text b =
     (if text = [] then b else b\<lparr>tb_kill_ring := push_limited KILL_RING_LIMIT text (tb_kill_ring b)\<rparr>)"

definition set_text :: "line \<Rightarrow> text_buffer \<Rightarrow> text_buffer" where
  "set_text text b = (record_edit EOther b)\<lparr>tb_lines := split_on NL text, tb_raw_x := 0, tb_cursor_y := 0,
     tb_selection := None\<rparr>"

definition set_text_silent :: "line \<Rightarrow> text_buffer \<Rightarrow> text_buffer" where
  "set_text_silent text b = note_move (b\<lparr>tb_lines := split_on NL text, tb_raw_x := 0, tb_cursor_y := 0,
     tb_selection := None\<rparr>)"

definition undo :: "text_buffer \<Rightarrow> bool \<times> text_buffer" where
  "undo b =
     (if tb_undo b = [] then (False, b)
      else (True, (restore (last (tb_undo b)) (b\<lparr>tb_undo := butlast (tb_undo b),
              tb_redo := tb_redo b @ [take_snapshot b]\<rparr>))\<lparr>tb_last_edit := None, tb_yank := None\<rparr>))"

definition redo :: "text_buffer \<Rightarrow> bool \<times> text_buffer" where
  "redo b =
     (if tb_redo b = [] then (False, b)
      else (True, (restore (last (tb_redo b)) (b\<lparr>tb_redo := butlast (tb_redo b),
              tb_undo := tb_undo b @ [take_snapshot b]\<rparr>))\<lparr>tb_last_edit := None, tb_yank := None\<rparr>))"

section \<open>Reading\<close>

definition line_at :: "nat \<Rightarrow> text_buffer \<Rightarrow> line option" where
  "line_at y b = (if y < length (tb_lines b) then Some (tb_lines b ! y) else None)"

definition set_line :: "nat \<Rightarrow> line \<Rightarrow> text_buffer \<Rightarrow> text_buffer option" where
  "set_line y l b = (if y < length (tb_lines b) then Some (b\<lparr>tb_lines := (tb_lines b)[y := l]\<rparr>) else None)"

definition current_line :: "text_buffer \<Rightarrow> line option" where
  "current_line b = line_at (tb_cursor_y b) b"

definition current_line_len :: "text_buffer \<Rightarrow> nat option" where
  "current_line_len b = map_option length (current_line b)"

definition x_of :: "text_buffer \<Rightarrow> nat option" where
  "x_of b = map_option (min (tb_raw_x b)) (current_line_len b)"

definition byte_x :: "text_buffer \<Rightarrow> nat option" where
  "byte_x b = do { l \<leftarrow> current_line b; x \<leftarrow> x_of b; Some (char_to_byte l x) }"

fun join_lines :: "line list \<Rightarrow> line" where
  "join_lines [] = []"
| "join_lines [l] = l"
| "join_lines (l # ls) = l @ NL # join_lines ls"

definition value_of :: "text_buffer \<Rightarrow> line" where
  "value_of b = join_lines (tb_lines b)"

definition le_pos :: "nat \<times> nat \<Rightarrow> nat \<times> nat \<Rightarrow> bool" where
  "le_pos p q \<longleftrightarrow> fst p < fst q \<or> fst p = fst q \<and> snd p \<le> snd q"

definition selection_range :: "text_buffer \<Rightarrow> ((nat \<times> nat) \<times> (nat \<times> nat)) option option" where
  "selection_range b =
     (case tb_selection b of
        None \<Rightarrow> Some None
      | Some anchor \<Rightarrow> do {
          x \<leftarrow> x_of b;
          let cursor = (tb_cursor_y b, x);
          Some (if anchor = cursor then None
                else Some (if le_pos anchor cursor then (anchor, cursor) else (cursor, anchor))) })"

definition has_selection :: "text_buffer \<Rightarrow> bool option" where
  "has_selection b = map_option (\<lambda>r. r \<noteq> None) (selection_range b)"

text \<open>\<open>self.lines[sy + 1..ey]\<close> panics when the range is not within the lines.\<close>

definition selected_text :: "text_buffer \<Rightarrow> line option option" where
  "selected_text b = do {
     sel \<leftarrow> selection_range b;
     case sel of
       None \<Rightarrow> Some None
     | Some ((sy, sx), (ey, ex)) \<Rightarrow> do {
         first_line \<leftarrow> line_at sy b;
         if sy = ey then do {
           (_, mid, _) \<leftarrow> slice3 first_line (char_to_byte first_line sx) (char_to_byte first_line ex);
           Some (Some mid) }
         else do {
           (_, first_part) \<leftarrow> split_at_byte first_line (char_to_byte first_line sx);
           last_line \<leftarrow> line_at ey b;
           (last_part, _) \<leftarrow> split_at_byte last_line (char_to_byte last_line ex);
           Some (Some (first_part @ concat (map (\<lambda>l. NL # l) (take (ey - Suc sy) (drop (Suc sy) (tb_lines b))))
                  @ NL # last_part)) } } }"

section \<open>Editing\<close>

definition remove_span :: "nat \<Rightarrow> nat \<Rightarrow> nat \<Rightarrow> nat \<Rightarrow> text_buffer \<Rightarrow> text_buffer option" where
  "remove_span sy sx ey ex b = do {
     s \<leftarrow> line_at sy b;
     e \<leftarrow> line_at ey b;
     (left, _) \<leftarrow> split_at_byte s (char_to_byte s sx);
     (_, right) \<leftarrow> split_at_byte e (char_to_byte e ex);
     if ey < sy then None
     else Some (b\<lparr>tb_lines := take sy (tb_lines b) @ (left @ right) # drop (Suc ey) (tb_lines b),
                  tb_cursor_y := sy, tb_raw_x := sx\<rparr>) }"

definition delete_selection :: "text_buffer \<Rightarrow> text_buffer option" where
  "delete_selection b = do {
     sel \<leftarrow> selection_range b;
     case sel of
       None \<Rightarrow> Some (b\<lparr>tb_selection := None\<rparr>)
     | Some ((sy, sx), (ey, ex)) \<Rightarrow> do {
         b' \<leftarrow> remove_span sy sx ey ex b;
         Some (b'\<lparr>tb_selection := None\<rparr>) } }"

definition select_all :: "text_buffer \<Rightarrow> text_buffer option" where
  "select_all b = do {
     let b1 = (note_move b)\<lparr>tb_selection := Some (0, 0), tb_cursor_y := length (tb_lines b) - 1\<rparr>;
     n \<leftarrow> current_line_len b1;
     Some (b1\<lparr>tb_raw_x := n\<rparr>) }"

text \<open>The Boolean tells whether there was a selection to kill.\<close>

definition kill_selection :: "text_buffer \<Rightarrow> (bool \<times> text_buffer) option" where
  "kill_selection b = do {
     text \<leftarrow> selected_text b;
     case text of
       None \<Rightarrow> Some (False, b)
     | Some t \<Rightarrow> do {
         b' \<leftarrow> delete_selection (record_edit EOther b);
         Some (True, push_kill t b') } }"

definition insert_str :: "line \<Rightarrow> text_buffer \<Rightarrow> text_buffer option" where
  "insert_str chunk b = do {
     bx \<leftarrow> byte_x b;
     l \<leftarrow> current_line b;
     (left, right) \<leftarrow> split_at_byte l bx;
     b' \<leftarrow> set_line (tb_cursor_y b) (left @ chunk @ right) b;
     x \<leftarrow> x_of b';
     Some (b'\<lparr>tb_raw_x := x + length chunk\<rparr>) }"

definition push_char :: "cp \<Rightarrow> text_buffer \<Rightarrow> text_buffer option" where
  "push_char c b = do {
     b1 \<leftarrow> delete_selection (record_edit EInsert b);
     insert_str [c] b1 }"

definition add_line_inner :: "text_buffer \<Rightarrow> text_buffer option" where
  "add_line_inner b = do {
     bx \<leftarrow> byte_x b;
     l \<leftarrow> current_line b;
     (left, right) \<leftarrow> split_at_byte l bx;
     Some (b\<lparr>tb_lines := take (tb_cursor_y b) (tb_lines b) @ left # right # drop (Suc (tb_cursor_y b)) (tb_lines b),
             tb_raw_x := 0, tb_cursor_y := tb_cursor_y b + 1\<rparr>) }"

text \<open>The loop over \<open>sanitized.split('\n').enumerate()\<close>; \<open>first\<close> is \<open>i == 0\<close>.\<close>

fun insert_chunks :: "bool \<Rightarrow> line list \<Rightarrow> text_buffer \<Rightarrow> text_buffer option" where
  "insert_chunks first [] b = Some b"
| "insert_chunks first (chunk # chunks) b = do {
     b1 \<leftarrow> (if first then Some b else add_line_inner b);
     b2 \<leftarrow> (if chunk = [] then Some b1 else insert_str chunk b1);
     insert_chunks False chunks b2 }"

definition insert_text_inner :: "line \<Rightarrow> text_buffer \<Rightarrow> text_buffer option" where
  "insert_text_inner text b = insert_chunks True (split_on NL (replace_tabs text)) b"

definition insert_text :: "line \<Rightarrow> text_buffer \<Rightarrow> text_buffer option" where
  "insert_text text b = do {
     b1 \<leftarrow> delete_selection (record_edit EInsert b);
     insert_text_inner text b1 }"

definition add_line :: "text_buffer \<Rightarrow> text_buffer option" where
  "add_line b = do {
     b1 \<leftarrow> delete_selection (record_edit EOther b);
     add_line_inner b1 }"

definition merge_with_next_line :: "text_buffer \<Rightarrow> text_buffer option" where
  "merge_with_next_line b =
     (if tb_cursor_y b + 1 < length (tb_lines b)
      then do {
        l \<leftarrow> current_line b;
        next_line \<leftarrow> line_at (tb_cursor_y b + 1) b;
        Some (b\<lparr>tb_lines := take (tb_cursor_y b) (tb_lines b) @ (l @ next_line) # drop (tb_cursor_y b + 2) (tb_lines b)\<rparr>) }
      else Some b)"

definition merge_with_previous_line :: "text_buffer \<Rightarrow> text_buffer option" where
  "merge_with_previous_line b =
     (if tb_cursor_y b = 0 then Some b
      else do {
        let b1 = b\<lparr>tb_cursor_y := tb_cursor_y b - 1\<rparr>;
        n \<leftarrow> current_line_len b1;
        merge_with_next_line (b1\<lparr>tb_raw_x := n\<rparr>) })"

text \<open>\<open>String::remove(byte)\<close>: the character at the byte; panics at the end.\<close>

definition remove_at :: "line \<Rightarrow> nat \<Rightarrow> line option" where
  "remove_at l bx = do {
     (left, right) \<leftarrow> split_at_byte l bx;
     case right of [] \<Rightarrow> None | _ # rest \<Rightarrow> Some (left @ rest) }"

definition remove_char :: "text_buffer \<Rightarrow> text_buffer option" where
  "remove_char b = do {
     sel \<leftarrow> has_selection b;
     if sel then delete_selection (record_edit ERemove b)
     else do {
       x \<leftarrow> x_of b;
       if x = 0 \<and> tb_cursor_y b = 0 then Some b
       else do {
         let b1 = record_edit ERemove b;
         if x = 0 then merge_with_previous_line b1
         else do {
           l \<leftarrow> current_line b1;
           l' \<leftarrow> remove_at l (char_to_byte l (x - 1));
           b2 \<leftarrow> set_line (tb_cursor_y b1) l' b1;
           Some (b2\<lparr>tb_raw_x := x - 1\<rparr>) } } } }"

definition delete_char :: "text_buffer \<Rightarrow> text_buffer option" where
  "delete_char b = do {
     sel \<leftarrow> has_selection b;
     if sel then delete_selection (record_edit ERemove b)
     else do {
       x \<leftarrow> x_of b;
       n \<leftarrow> current_line_len b;
       if x = n \<and> tb_cursor_y b + 1 = length (tb_lines b) then Some b
       else do {
         let b1 = record_edit ERemove b;
         if x = n then merge_with_next_line b1
         else do {
           l \<leftarrow> current_line b1;
           l' \<leftarrow> remove_at l (char_to_byte l x);
           set_line (tb_cursor_y b1) l' b1 } } } }"

section \<open>Words and kills\<close>

fun back_while :: "(cp \<Rightarrow> bool) \<Rightarrow> line \<Rightarrow> nat \<Rightarrow> nat option" where
  "back_while p l 0 = Some 0"
| "back_while p l (Suc i) =
     (if i < length l then (if p (l ! i) then back_while p l i else Some (Suc i)) else None)"

function forward_while :: "(cp \<Rightarrow> bool) \<Rightarrow> line \<Rightarrow> nat \<Rightarrow> nat" where
  "forward_while p l i = (if i < length l \<and> p (l ! i) then forward_while p l (Suc i) else i)"
  by auto
termination by (relation "measure (\<lambda>(p, l, i). length l - i)") auto

declare forward_while.simps [simp del]

definition find_prev_word_boundary :: "line \<Rightarrow> nat \<Rightarrow> nat option" where
  "find_prev_word_boundary l char_x = do {
     i \<leftarrow> back_while is_ascii_whitespace l char_x;
     back_while (\<lambda>c. \<not> is_ascii_whitespace c) l i }"

definition find_next_word_boundary :: "line \<Rightarrow> nat \<Rightarrow> nat" where
  "find_next_word_boundary l char_x =
     forward_while (\<lambda>c. \<not> is_ascii_whitespace c) l (forward_while is_ascii_whitespace l char_x)"

definition delete_word_after_cursor :: "text_buffer \<Rightarrow> text_buffer option" where
  "delete_word_after_cursor b = do {
     (killed_sel, b0) \<leftarrow> kill_selection b;
     if killed_sel then Some b0
     else do {
       x \<leftarrow> x_of b;
       n \<leftarrow> current_line_len b;
       if x = n then
         (if tb_cursor_y b + 1 < length (tb_lines b)
          then do { b1 \<leftarrow> merge_with_next_line (record_edit EOther b); Some (push_kill [NL] b1) }
          else Some b)
       else do {
         let b1 = record_edit EOther b;
         l \<leftarrow> current_line b1;
         (left, killed, right) \<leftarrow> slice3 l (char_to_byte l x) (char_to_byte l (find_next_word_boundary l x));
         b2 \<leftarrow> set_line (tb_cursor_y b1) (left @ right) b1;
         Some (push_kill killed b2) } } }"

definition kill_to_end_of_line :: "text_buffer \<Rightarrow> text_buffer option" where
  "kill_to_end_of_line b = do {
     (killed_sel, b0) \<leftarrow> kill_selection b;
     if killed_sel then Some b0
     else do {
       bx \<leftarrow> byte_x b;
       l \<leftarrow> current_line b;
       if bx = byte_len l then Some b
       else do {
         let b1 = record_edit EOther b;
         (left, killed) \<leftarrow> split_at_byte l bx;
         b2 \<leftarrow> set_line (tb_cursor_y b1) left b1;
         Some (push_kill killed b2) } } }"

definition remove_word_before_cursor :: "text_buffer \<Rightarrow> text_buffer option" where
  "remove_word_before_cursor b = do {
     (killed_sel, b0) \<leftarrow> kill_selection b;
     if killed_sel then Some b0
     else do {
       x \<leftarrow> x_of b;
       if x = 0 then
         (if tb_cursor_y b = 0 then Some b
          else do { b1 \<leftarrow> merge_with_previous_line (record_edit EOther b); Some (push_kill [NL] b1) })
       else do {
         let b1 = record_edit EOther b;
         l \<leftarrow> current_line b1;
         new_x \<leftarrow> find_prev_word_boundary l x;
         (left, killed, right) \<leftarrow> slice3 l (char_to_byte l new_x) (char_to_byte l x);
         b2 \<leftarrow> set_line (tb_cursor_y b1) (left @ right) b1;
         Some (push_kill killed (b2\<lparr>tb_raw_x := new_x\<rparr>)) } } }"

definition kill_to_start_of_line :: "text_buffer \<Rightarrow> text_buffer option" where
  "kill_to_start_of_line b = do {
     (killed_sel, b0) \<leftarrow> kill_selection b;
     if killed_sel then Some b0
     else do {
       l \<leftarrow> current_line b;
       x \<leftarrow> x_of b;
       let bx = char_to_byte l x;
       if bx = 0 then Some b
       else do {
         let b1 = record_edit EOther b;
         (killed, right) \<leftarrow> split_at_byte l bx;
         b2 \<leftarrow> set_line (tb_cursor_y b1) right b1;
         Some (push_kill killed (b2\<lparr>tb_raw_x := 0\<rparr>)) } } }"

definition yank :: "text_buffer \<Rightarrow> (bool \<times> text_buffer) option" where
  "yank b =
     (if tb_kill_ring b = [] then Some (False, b)
      else do {
        b1 \<leftarrow> delete_selection (record_edit EOther b);
        sx \<leftarrow> x_of b1;
        b2 \<leftarrow> insert_text_inner (last (tb_kill_ring b)) b1;
        ex \<leftarrow> x_of b2;
        Some (True, b2\<lparr>tb_yank := Some \<lparr>ys_y = tb_cursor_y b1, ys_x = sx, ys_end_y = tb_cursor_y b2, ys_end_x = ex,
                          ys_ring_pos = length (tb_kill_ring b2) - 1\<rparr>\<rparr>) })"

definition yank_pop :: "text_buffer \<Rightarrow> (bool \<times> text_buffer) option" where
  "yank_pop b =
     (case tb_yank b of
        None \<Rightarrow> Some (False, b)
      | Some span \<Rightarrow>
          if length (tb_kill_ring b) < 2 then Some (False, b)
          else do {
            b1 \<leftarrow> remove_span (ys_y span) (ys_x span) (ys_end_y span) (ys_end_x span) (record_edit EOther b);
            let pos = (ys_ring_pos span + length (tb_kill_ring b1) - 1) mod length (tb_kill_ring b1);
            text \<leftarrow> (if pos < length (tb_kill_ring b1) then Some (tb_kill_ring b1 ! pos) else None);
            b2 \<leftarrow> insert_text_inner text (b1\<lparr>tb_cursor_y := ys_y span, tb_raw_x := ys_x span\<rparr>);
            ex \<leftarrow> x_of b2;
            Some (True, b2\<lparr>tb_yank := Some (span\<lparr>ys_end_y := tb_cursor_y b2, ys_end_x := ex, ys_ring_pos := pos\<rparr>)\<rparr>) })"

definition remove_range :: "nat \<Rightarrow> nat \<Rightarrow> nat \<Rightarrow> text_buffer \<Rightarrow> text_buffer option" where
  "remove_range y char_start char_end b =
     (if char_end \<le> char_start \<or> length (tb_lines b) \<le> y then Some b
      else do {
        let b1 = record_edit EOther b;
        l \<leftarrow> line_at y b1;
        (left, _, right) \<leftarrow> slice3 l (char_to_byte l char_start) (char_to_byte l char_end);
        b2 \<leftarrow> set_line y (left @ right) b1;
        Some (if tb_cursor_y b2 = y then
                (if char_end \<le> tb_raw_x b2 then b2\<lparr>tb_raw_x := tb_raw_x b2 - (char_end - char_start)\<rparr>
                 else if char_start < tb_raw_x b2 then b2\<lparr>tb_raw_x := char_start\<rparr>
                 else b2)
              else b2) })"

section \<open>Motion\<close>

definition wrap_to_prev_line :: "text_buffer \<Rightarrow> text_buffer option" where
  "wrap_to_prev_line b =
     (if 0 < tb_cursor_y b
      then do { let b1 = b\<lparr>tb_cursor_y := tb_cursor_y b - 1\<rparr>; n \<leftarrow> current_line_len b1; Some (b1\<lparr>tb_raw_x := n\<rparr>) }
      else Some b)"

definition wrap_to_next_line :: "text_buffer \<Rightarrow> text_buffer option" where
  "wrap_to_next_line b =
     (if tb_cursor_y b < length (tb_lines b) - 1
      then Some (b\<lparr>tb_cursor_y := tb_cursor_y b + 1, tb_raw_x := 0\<rparr>) else Some b)"

definition step_word_left :: "text_buffer \<Rightarrow> text_buffer option" where
  "step_word_left b = do {
     x \<leftarrow> x_of b;
     if x = 0 then wrap_to_prev_line b
     else do { l \<leftarrow> current_line b; i \<leftarrow> find_prev_word_boundary l x; Some (b\<lparr>tb_raw_x := i\<rparr>) } }"

definition step_word_right :: "text_buffer \<Rightarrow> text_buffer option" where
  "step_word_right b = do {
     x \<leftarrow> x_of b; n \<leftarrow> current_line_len b;
     if x = n then wrap_to_next_line b
     else do { l \<leftarrow> current_line b; Some (b\<lparr>tb_raw_x := find_next_word_boundary l x\<rparr>) } }"

definition step_left :: "text_buffer \<Rightarrow> text_buffer option" where
  "step_left b = do { x \<leftarrow> x_of b; if 0 < x then Some (b\<lparr>tb_raw_x := x - 1\<rparr>) else wrap_to_prev_line b }"

definition step_right :: "text_buffer \<Rightarrow> text_buffer option" where
  "step_right b = do {
     x \<leftarrow> x_of b; n \<leftarrow> current_line_len b;
     if x < n then Some (b\<lparr>tb_raw_x := x + 1\<rparr>) else wrap_to_next_line b }"

definition step_up :: "text_buffer \<Rightarrow> text_buffer option" where
  "step_up b = Some (if 0 < tb_cursor_y b then b\<lparr>tb_cursor_y := tb_cursor_y b - 1\<rparr> else b)"

definition step_down :: "text_buffer \<Rightarrow> text_buffer option" where
  "step_down b = Some (if tb_cursor_y b < length (tb_lines b) - 1 then b\<lparr>tb_cursor_y := tb_cursor_y b + 1\<rparr> else b)"

definition step_home :: "text_buffer \<Rightarrow> text_buffer option" where
  "step_home b = Some (b\<lparr>tb_raw_x := 0\<rparr>)"

definition step_end :: "text_buffer \<Rightarrow> text_buffer option" where
  "step_end b = do { n \<leftarrow> current_line_len b; Some (b\<lparr>tb_raw_x := n\<rparr>) }"

definition move_cursor :: "bool \<Rightarrow> (text_buffer \<Rightarrow> text_buffer option) \<Rightarrow> text_buffer \<Rightarrow> text_buffer option" where
  "move_cursor selecting step b = do {
     b1 \<leftarrow> (if selecting then
              (if tb_selection b = None then do { x \<leftarrow> x_of b; Some (b\<lparr>tb_selection := Some (tb_cursor_y b, x)\<rparr>) }
               else Some b)
            else Some (b\<lparr>tb_selection := None\<rparr>));
     step (note_move b1) }"

definition clear :: "text_buffer \<Rightarrow> text_buffer" where
  "clear b = b\<lparr>tb_lines := [[]], tb_raw_x := 0, tb_cursor_y := 0, tb_selection := None, tb_undo := [], tb_redo := [],
     tb_last_edit := None, tb_yank := None\<rparr>"

definition move_to_end :: "text_buffer \<Rightarrow> text_buffer option" where
  "move_to_end b = do {
     let b1 = (note_move (b\<lparr>tb_selection := None\<rparr>))\<lparr>tb_cursor_y := length (tb_lines b) - 1\<rparr>;
     n \<leftarrow> current_line_len b1;
     Some (b1\<lparr>tb_raw_x := n\<rparr>) }"

section \<open>Keys\<close>

datatype key_code = KLeft | KRight | KUp | KDown | KHome | KEnd | KBackspace | KDelete | KChar cp | KOtherKey

record key_event =
  ke_code :: key_code
  ke_control :: bool
  ke_alt :: bool
  ke_super :: bool
  ke_shift :: bool

definition is_z :: "cp \<Rightarrow> bool" where
  "is_z c \<longleftrightarrow> c = 122 \<or> c = 90"

definition moved :: "text_buffer option \<Rightarrow> (edit_result \<times> text_buffer) option" where
  "moved r = map_option (Pair Moved) r"

definition changed :: "text_buffer option \<Rightarrow> (edit_result \<times> text_buffer) option" where
  "changed r = map_option (Pair Changed) r"

definition changed_if :: "(bool \<times> text_buffer) option \<Rightarrow> (edit_result \<times> text_buffer) option" where
  "changed_if r = map_option (\<lambda>(done, b). (if done then Changed else Ignored, b)) r"

definition handle_ctrl :: "key_event \<Rightarrow> text_buffer \<Rightarrow> (edit_result \<times> text_buffer) option" where
  "handle_ctrl key b =
     (case ke_code key of
        KLeft \<Rightarrow> moved (move_cursor False step_word_left b)
      | KRight \<Rightarrow> moved (move_cursor False step_word_right b)
      | KBackspace \<Rightarrow> changed (remove_word_before_cursor b)
      | KDelete \<Rightarrow> changed (delete_word_after_cursor b)
      | KChar c \<Rightarrow>
          if c = 119 then changed (remove_word_before_cursor b)
          else if c = 107 then changed (kill_to_end_of_line b)
          else if c = 117 then changed (kill_to_start_of_line b)
          else if c = 121 then changed_if (yank b)
          else if c = 97 then moved (move_cursor False step_home b)
          else if c = 101 then moved (move_cursor False step_end b)
          else if c = 95 \<or> c = 45 then changed_if (Some (undo b))
          else if is_z c \<and> ke_shift key then changed_if (Some (redo b))
          else Some (Ignored, b)
      | _ \<Rightarrow> Some (Ignored, b))"

definition handle_alt :: "key_event \<Rightarrow> text_buffer \<Rightarrow> (edit_result \<times> text_buffer) option" where
  "handle_alt key b =
     (case ke_code key of
        KLeft \<Rightarrow> moved (move_cursor False step_word_left b)
      | KRight \<Rightarrow> moved (move_cursor False step_word_right b)
      | KBackspace \<Rightarrow> changed (remove_word_before_cursor b)
      | KDelete \<Rightarrow> changed (delete_word_after_cursor b)
      | KChar c \<Rightarrow>
          if c = 98 then moved (move_cursor False step_word_left b)
          else if c = 102 then moved (move_cursor False step_word_right b)
          else if c = 100 then changed (delete_word_after_cursor b)
          else if c = 121 then changed_if (yank_pop b)
          else if is_z c \<and> ke_shift key then changed_if (Some (redo b))
          else Some (Ignored, b)
      | _ \<Rightarrow> Some (Ignored, b))"

definition handle_super :: "key_event \<Rightarrow> text_buffer \<Rightarrow> (edit_result \<times> text_buffer) option" where
  "handle_super key b =
     (case ke_code key of
        KLeft \<Rightarrow> moved (move_cursor False step_home b)
      | KRight \<Rightarrow> moved (move_cursor False step_end b)
      | KBackspace \<Rightarrow> changed (kill_to_start_of_line b)
      | _ \<Rightarrow> Some (Ignored, b))"

definition handle_key :: "key_event \<Rightarrow> text_buffer \<Rightarrow> (edit_result \<times> text_buffer) option" where
  "handle_key key b =
     (if ke_control key \<and> \<not> ke_alt key then handle_ctrl key b
      else if ke_alt key \<and> \<not> ke_control key then handle_alt key b
      else if ke_super key then handle_super key b
      else (case ke_code key of
          KChar c \<Rightarrow> changed (push_char c b)
        | KBackspace \<Rightarrow> changed (remove_char b)
        | KDelete \<Rightarrow> changed (delete_char b)
        | KLeft \<Rightarrow> moved (move_cursor False step_left b)
        | KRight \<Rightarrow> moved (move_cursor False step_right b)
        | KHome \<Rightarrow> moved (move_cursor False step_home b)
        | KEnd \<Rightarrow> moved (move_cursor False step_end b)
        | KUp \<Rightarrow> moved (move_cursor False step_up b)
        | KDown \<Rightarrow> moved (move_cursor False step_down b)
        | KOtherKey \<Rightarrow> Some (Ignored, b)))"

section \<open>Slices at character boundaries\<close>

lemma utf8_len_pos [simp]: "0 < utf8_len c"
  by (simp add: utf8_len_def)

lemma split_at_byte_take: "split_at_byte (a @ s) (byte_len a) = Some (a, s)"
proof (induction a)
  case (Cons c a)
  obtain n where n: "utf8_len c = Suc n" using utf8_len_pos [of c] by (cases "utf8_len c") auto
  have "byte_len (c # a) = Suc (n + byte_len a)" by (simp add: byte_len_def n)
  with Cons n show ?case by simp
qed (simp add: byte_len_def)

lemma split_at_char_to_byte [simp]: "split_at_byte l (char_to_byte l i) = Some (take i l, drop i l)"
  using split_at_byte_take [of "take i l" "drop i l"] by (simp add: char_to_byte_def)

lemma byte_len_append: "byte_len (a @ b) = byte_len a + byte_len b"
  by (simp add: byte_len_def)

lemma char_to_byte_diff: "i \<le> j \<Longrightarrow> char_to_byte l j - char_to_byte l i = char_to_byte (drop i l) (j - i)"
proof -
  assume "i \<le> j"
  then have "take j l = take i l @ take (j - i) (drop i l)" by (metis le_add_diff_inverse take_add)
  then show ?thesis by (simp add: char_to_byte_def byte_len_append)
qed

lemma char_to_byte_mono: "i \<le> j \<Longrightarrow> char_to_byte l i \<le> char_to_byte l j"
proof -
  assume "i \<le> j"
  then have "take j l = take i l @ take (j - i) (drop i l)" by (metis le_add_diff_inverse take_add)
  then show ?thesis by (simp add: char_to_byte_def byte_len_append)
qed

lemma slice3_chars [simp]:
  "i \<le> j \<Longrightarrow> slice3 l (char_to_byte l i) (char_to_byte l j) = Some (take i l, take (j - i) (drop i l), drop j l)"
  by (simp add: slice3_def char_to_byte_diff char_to_byte_mono linorder_not_less)

lemma byte_len_zero [simp]: "byte_len l = 0 \<longleftrightarrow> l = []"
  by (cases l) (auto simp: byte_len_def)

lemma char_to_byte_end: "i \<le> length l \<Longrightarrow> char_to_byte l i = byte_len l \<longleftrightarrow> i = length l"
proof -
  assume "i \<le> length l"
  have "byte_len l = byte_len (take i l) + byte_len (drop i l)" using byte_len_append [of "take i l" "drop i l"] by simp
  with \<open>i \<le> length l\<close> show ?thesis by (auto simp: char_to_byte_def)
qed

end
