(* ===== verification/Text_Zipper.thy ===== *)
theory Text_Zipper
  imports Text_Buffer
begin

text \<open>
  The edit buffer refines a zipper: the text left of the cursor and the text right of it. Every
  primitive edit of \<open>crates/n00n-ui/src/text_buffer.rs\<close> is a change at the boundary of the two, and
  never panics when the cursor is on a line.
\<close>

section \<open>The abstraction\<close>

definition left_at :: "line list \<Rightarrow> nat \<Rightarrow> nat \<Rightarrow> line" where
  "left_at ls y x = concat (map (\<lambda>l. l @ [NL]) (take y ls)) @ take x (ls ! y)"

definition right_at :: "line list \<Rightarrow> nat \<Rightarrow> nat \<Rightarrow> line" where
  "right_at ls y x = drop x (ls ! y) @ concat (map (\<lambda>l. NL # l) (drop (Suc y) ls))"

definition left_of :: "text_buffer \<Rightarrow> line" where
  "left_of b = left_at (tb_lines b) (tb_cursor_y b) (tb_raw_x b)"

definition right_of :: "text_buffer \<Rightarrow> line" where
  "right_of b = right_at (tb_lines b) (tb_cursor_y b) (tb_raw_x b)"

lemma join_lines_Cons: "join_lines (l # ls) = l @ concat (map (\<lambda>k. NL # k) ls)"
  by (induction ls arbitrary: l) auto

lemma join_lines_split: "y < length ls \<Longrightarrow> join_lines ls = left_at ls y x @ right_at ls y x"
proof (induction ls arbitrary: y)
  case (Cons l ls)
  show ?case
  proof (cases y)
    case 0
    then show ?thesis unfolding join_lines_Cons by (simp add: left_at_def right_at_def)
  next
    case (Suc y')
    with Cons.prems obtain k ks where ls: "ls = k # ks" by (cases ls) auto
    have "join_lines (l # ls) = l @ [NL] @ join_lines ls" by (simp add: ls)
    with Suc Cons show ?thesis by (simp add: left_at_def right_at_def)
  qed
qed simp

text \<open>The contents of the buffer are its two halves.\<close>

lemma value_zipper: "tb_cursor_y b < length (tb_lines b) \<Longrightarrow> value_of b = left_of b @ right_of b"
  unfolding value_of_def left_of_def right_of_def by (rule join_lines_split)

lemma join_split_on: "join_lines (split_on d s) = s" if "d = NL"
proof (induction s)
  case (Cons c s)
  then show ?case
    using that by (cases "split_on d s") (auto simp: join_lines_Cons)
qed simp

lemma split_on_nonempty [simp]: "split_on d s \<noteq> []"
  by (cases s) (auto split: list.splits)

section \<open>Edits of the text\<close>

definition cursor_ok :: "text_buffer \<Rightarrow> bool" where
  "cursor_ok b \<longleftrightarrow> tb_cursor_y b < length (tb_lines b)"

text \<open>A change of text and cursor that leaves the history, the ring and the selection.\<close>

definition text_edit :: "text_buffer \<Rightarrow> text_buffer \<Rightarrow> bool" where
  "text_edit b b' \<longleftrightarrow> cursor_ok b' \<and> tb_selection b' = tb_selection b \<and> tb_undo b' = tb_undo b
     \<and> tb_redo b' = tb_redo b \<and> tb_last_edit b' = tb_last_edit b \<and> tb_kill_ring b' = tb_kill_ring b
     \<and> tb_yank b' = tb_yank b"

lemma text_edit_trans: "text_edit a b \<Longrightarrow> text_edit b c \<Longrightarrow> text_edit a c"
  by (simp add: text_edit_def)

lemma text_edit_refl: "cursor_ok b \<Longrightarrow> text_edit b b"
  by (simp add: text_edit_def)

lemma text_edit_cursor: "text_edit b b' \<Longrightarrow> cursor_ok b'"
  by (simp add: text_edit_def)

lemma cursor_reads:
  assumes "cursor_ok b"
  shows "current_line b = Some (tb_lines b ! tb_cursor_y b)"
    and "current_line_len b = Some (length (tb_lines b ! tb_cursor_y b))"
    and "x_of b = Some (min (tb_raw_x b) (length (tb_lines b ! tb_cursor_y b)))"
    and "byte_x b = Some (char_to_byte (tb_lines b ! tb_cursor_y b) (tb_raw_x b))"
  using assms
  by (auto simp: cursor_ok_def current_line_def line_at_def current_line_len_def x_of_def byte_x_def
      char_to_byte_def min_def)

lemma list_split_at: "y < length ls \<Longrightarrow> ls = take y ls @ ls ! y # drop (Suc y) ls"
  by (simp add: id_take_nth_drop)

lemma insert_str_ok:
  assumes "cursor_ok b"
  shows "\<exists>b'. insert_str chunk b = Some b' \<and> text_edit b b' \<and> left_of b' = left_of b @ chunk \<and> right_of b' = right_of b"
proof -
  let ?y = "tb_cursor_y b" and ?x = "tb_raw_x b" and ?ls = "tb_lines b"
  let ?l = "take ?x (?ls ! ?y) @ chunk @ drop ?x (?ls ! ?y)"
  have y: "?y < length ?ls" using assms by (simp add: cursor_ok_def)
  let ?x' = "min ?x (length ?l) + length chunk"
  let ?b' = "b\<lparr>tb_lines := ?ls[?y := ?l], tb_raw_x := ?x'\<rparr>"
  have "insert_str chunk b = Some ?b'"
    using y by (simp add: insert_str_def cursor_reads [OF assms] set_line_def x_of_def current_line_len_def
        current_line_def line_at_def)
  moreover have "text_edit b ?b'" using y by (simp add: text_edit_def cursor_ok_def)
  moreover have "take ?x' ?l = take ?x (?ls ! ?y) @ chunk" "drop ?x' ?l = drop ?x (?ls ! ?y)"
    by (auto simp: min_def)
  ultimately show ?thesis
    using y by (auto simp: left_of_def right_of_def left_at_def right_at_def)
qed

lemma add_line_inner_ok:
  assumes "cursor_ok b"
  shows "\<exists>b'. add_line_inner b = Some b' \<and> text_edit b b' \<and> left_of b' = left_of b @ [NL] \<and> right_of b' = right_of b"
proof -
  let ?y = "tb_cursor_y b" and ?x = "tb_raw_x b" and ?ls = "tb_lines b"
  have y: "?y < length ?ls" using assms by (simp add: cursor_ok_def)
  let ?ls' = "take ?y ?ls @ take ?x (?ls ! ?y) # drop ?x (?ls ! ?y) # drop (Suc ?y) ?ls"
  let ?b' = "b\<lparr>tb_lines := ?ls', tb_raw_x := 0, tb_cursor_y := ?y + 1\<rparr>"
  have "add_line_inner b = Some ?b'" by (simp add: add_line_inner_def cursor_reads [OF assms])
  moreover have "text_edit b ?b'" using y by (simp add: text_edit_def cursor_ok_def)
  moreover have "take (Suc ?y) ?ls' = take ?y ?ls @ [take ?x (?ls ! ?y)]" "?ls' ! Suc ?y = drop ?x (?ls ! ?y)"
    "drop (Suc (Suc ?y)) ?ls' = drop (Suc ?y) ?ls"
    using y by (simp_all add: nth_append)
  ultimately show ?thesis by (simp add: left_of_def right_of_def left_at_def right_at_def)
qed

lemma insert_chunks_ok:
  "cursor_ok b \<Longrightarrow> chunks \<noteq> [] \<Longrightarrow> \<exists>b'. insert_chunks first chunks b = Some b' \<and> text_edit b b'
     \<and> left_of b' = left_of b @ (if first then [] else [NL]) @ join_lines chunks \<and> right_of b' = right_of b"
proof (induction chunks arbitrary: first b)
  case (Cons chunk chunks)
  obtain b1 where b1: "(if first then Some b else add_line_inner b) = Some b1" "text_edit b b1"
    "left_of b1 = left_of b @ (if first then [] else [NL])" "right_of b1 = right_of b"
    using add_line_inner_ok [OF Cons.prems(1)] text_edit_refl [OF Cons.prems(1)] by (cases first) auto
  obtain b2 where b2: "(if chunk = [] then Some b1 else insert_str chunk b1) = Some b2" "text_edit b1 b2"
    "left_of b2 = left_of b1 @ chunk" "right_of b2 = right_of b1"
    using insert_str_ok [of b1 chunk] text_edit_cursor [OF b1(2)] text_edit_refl [of b1] by (cases "chunk = []") auto
  have e: "text_edit b b2" using b1(2) b2(2) by (rule text_edit_trans)
  show ?case
  proof (cases "chunks = []")
    case True
    with b1 b2 e show ?thesis by simp
  next
    case False
    from Cons.IH [OF text_edit_cursor [OF b2(2)] False, of False] obtain b3 where
      b3: "insert_chunks False chunks b2 = Some b3" "text_edit b2 b3" "left_of b3 = left_of b2 @ [NL] @ join_lines chunks"
      "right_of b3 = right_of b2" by auto
    have "join_lines (chunk # chunks) = chunk @ NL # join_lines chunks" using False by (cases chunks) auto
    with b1 b2 b3 text_edit_trans [OF e b3(2)] show ?thesis by simp
  qed
qed simp

lemma insert_text_inner_ok:
  assumes "cursor_ok b"
  shows "\<exists>b'. insert_text_inner text b = Some b' \<and> text_edit b b' \<and> left_of b' = left_of b @ replace_tabs text
    \<and> right_of b' = right_of b"
  using insert_chunks_ok [OF assms, of "split_on NL (replace_tabs text)" True]
  by (simp add: insert_text_inner_def join_split_on)

lemma remove_span_edit:
  assumes "sy \<le> ey" "ey < length (tb_lines b)"
  shows "\<exists>b'. remove_span sy sx ey ex b = Some b' \<and> text_edit b b' \<and> tb_cursor_y b' = sy"
  using assms by (simp add: remove_span_def line_at_def text_edit_def cursor_ok_def)

lemma remove_span_ok:
  assumes "sy \<le> ey" "ey < length (tb_lines b)" "sx \<le> length (tb_lines b ! sy)"
  shows "\<exists>b'. remove_span sy sx ey ex b = Some b' \<and> text_edit b b'
    \<and> left_of b' = left_at (tb_lines b) sy sx \<and> right_of b' = right_at (tb_lines b) ey ex"
proof -
  let ?ls = "tb_lines b"
  let ?ls' = "take sy ?ls @ (take sx (?ls ! sy) @ drop ex (?ls ! ey)) # drop (Suc ey) ?ls"
  let ?b' = "b\<lparr>tb_lines := ?ls', tb_cursor_y := sy, tb_raw_x := sx\<rparr>"
  have "remove_span sy sx ey ex b = Some ?b'" using assms by (simp add: remove_span_def line_at_def)
  moreover have "text_edit b ?b'" using assms by (simp add: text_edit_def cursor_ok_def)
  moreover have "take sy ?ls' = take sy ?ls" "?ls' ! sy = take sx (?ls ! sy) @ drop ex (?ls ! ey)" "drop (Suc sy) ?ls' = drop (Suc ey) ?ls"
    using assms by (simp_all add: nth_append)
  ultimately show ?thesis using assms(3) by (simp add: left_of_def right_of_def left_at_def right_at_def)
qed

text \<open>Merging with the next line when the cursor is at the end of its line, and with the previous one when
it is at the start.\<close>

lemma merge_with_next_line_edit:
  assumes "cursor_ok b" shows "\<exists>b'. merge_with_next_line b = Some b' \<and> text_edit b b'"
  using assms by (auto simp: merge_with_next_line_def cursor_reads(1) line_at_def text_edit_def cursor_ok_def)

lemma merge_with_next_line_ok:
  assumes ok: "cursor_ok b" and x: "tb_raw_x b = length (tb_lines b ! tb_cursor_y b)"
    and nl: "tb_cursor_y b + 1 < length (tb_lines b)"
  shows "\<exists>b'. merge_with_next_line b = Some b' \<and> text_edit b b' \<and> tb_cursor_y b' = tb_cursor_y b
    \<and> left_of b' = left_of b \<and> right_of b = NL # right_of b'"
proof -
  let ?y = "tb_cursor_y b" and ?ls = "tb_lines b"
  let ?ls' = "take ?y ?ls @ (?ls ! ?y @ ?ls ! Suc ?y) # drop (Suc (Suc ?y)) ?ls"
  let ?b' = "b\<lparr>tb_lines := ?ls'\<rparr>"
  have "merge_with_next_line b = Some ?b'"
    using nl by (simp add: merge_with_next_line_def cursor_reads(1) [OF ok] line_at_def)
  moreover have "text_edit b ?b'" using nl by (simp add: text_edit_def cursor_ok_def)
  moreover have "drop (Suc ?y) ?ls = ?ls ! Suc ?y # drop (Suc (Suc ?y)) ?ls" using nl by (simp add: Cons_nth_drop_Suc)
  moreover have "take ?y ?ls' = take ?y ?ls" "?ls' ! ?y = ?ls ! ?y @ ?ls ! Suc ?y" "drop (Suc ?y) ?ls' = drop (Suc (Suc ?y)) ?ls"
    using nl by (simp_all add: nth_append)
  ultimately show ?thesis by (simp add: left_of_def right_of_def left_at_def right_at_def x)
qed

lemma previous_line_zipper:
  assumes ok: "cursor_ok b" and x: "min (tb_raw_x b) (length (tb_lines b ! tb_cursor_y b)) = 0" and y: "0 < tb_cursor_y b"
  defines "b1 \<equiv> b\<lparr>tb_cursor_y := tb_cursor_y b - 1, tb_raw_x := length (tb_lines b ! (tb_cursor_y b - 1))\<rparr>"
  shows "left_of b = left_of b1 @ [NL]" "right_of b1 = NL # right_of b"
proof -
  let ?ls = "tb_lines b"
  obtain y' where y': "tb_cursor_y b = Suc y'" using y by (cases "tb_cursor_y b") auto
  have tk: "take (tb_raw_x b) (?ls ! Suc y') = []" "drop (tb_raw_x b) (?ls ! Suc y') = ?ls ! Suc y'"
    using x y' by (auto simp: min_def split: if_splits)
  have sp: "take (Suc y') ?ls = take y' ?ls @ [?ls ! y']" "drop (Suc y') ?ls = ?ls ! Suc y' # drop (Suc (Suc y')) ?ls"
    using ok y' by (simp_all add: cursor_ok_def take_Suc_conv_app_nth Cons_nth_drop_Suc)
  show "left_of b = left_of b1 @ [NL]" by (simp add: b1_def left_of_def left_at_def y' tk(1) sp(1) del: take_eq_Nil)
  show "right_of b1 = NL # right_of b" by (simp add: b1_def right_of_def right_at_def y' tk(2) sp(2))
qed

lemma merge_previous_eq:
  "cursor_ok b \<Longrightarrow> 0 < tb_cursor_y b \<Longrightarrow> merge_with_previous_line b =
     merge_with_next_line (b\<lparr>tb_cursor_y := tb_cursor_y b - 1, tb_raw_x := length (tb_lines b ! (tb_cursor_y b - 1))\<rparr>)"
  by (simp add: merge_with_previous_line_def Let_def current_line_len_def current_line_def line_at_def cursor_ok_def
      less_imp_diff_less)

lemma merge_with_previous_line_ok:
  assumes ok: "cursor_ok b" and x: "min (tb_raw_x b) (length (tb_lines b ! tb_cursor_y b)) = 0" and y: "0 < tb_cursor_y b"
  shows "\<exists>b'. merge_with_previous_line b = Some b' \<and> text_edit b b'
    \<and> left_of b = left_of b' @ [NL] \<and> right_of b' = right_of b"
proof -
  let ?b1 = "b\<lparr>tb_cursor_y := tb_cursor_y b - 1, tb_raw_x := length (tb_lines b ! (tb_cursor_y b - 1))\<rparr>"
  have ok1: "cursor_ok ?b1" and nl: "tb_cursor_y ?b1 + 1 < length (tb_lines ?b1)" using ok y by (simp_all add: cursor_ok_def)
  obtain b' where b': "merge_with_next_line ?b1 = Some b'" "text_edit ?b1 b'" "left_of b' = left_of ?b1" "right_of ?b1 = NL # right_of b'"
    using merge_with_next_line_ok [OF ok1 _ nl] by auto
  have "merge_with_previous_line b = Some b'"
    using b'(1) by (simp add: merge_previous_eq [OF ok y])
  moreover have "text_edit b b'" using b'(2) by (simp add: text_edit_def)
  ultimately show ?thesis using previous_line_zipper [OF assms] b'(3,4) by simp
qed

section \<open>Edits within a line\<close>

definition cur :: "text_buffer \<Rightarrow> line" where
  "cur b = tb_lines b ! tb_cursor_y b"

definition cur_x :: "text_buffer \<Rightarrow> nat" where
  "cur_x b = min (tb_raw_x b) (length (cur b))"

definition above_text :: "text_buffer \<Rightarrow> line" where
  "above_text b = concat (map (\<lambda>l. l @ [NL]) (take (tb_cursor_y b) (tb_lines b)))"

definition below_text :: "text_buffer \<Rightarrow> line" where
  "below_text b = concat (map (\<lambda>l. NL # l) (drop (Suc (tb_cursor_y b)) (tb_lines b)))"

definition with_line :: "line \<Rightarrow> nat \<Rightarrow> text_buffer \<Rightarrow> text_buffer" where
  "with_line l x b = b\<lparr>tb_lines := (tb_lines b)[tb_cursor_y b := l], tb_raw_x := x\<rparr>"

lemma cur_reads:
  assumes "cursor_ok b"
  shows "current_line b = Some (cur b)" "current_line_len b = Some (length (cur b))" "x_of b = Some (cur_x b)"
    "byte_x b = Some (char_to_byte (cur b) (cur_x b))"
  using cursor_reads [OF assms] by (auto simp: cur_def cur_x_def char_to_byte_def min_def)

lemma cur_x_le: "cur_x b \<le> length (cur b)"
  by (simp add: cur_x_def)

lemma zipper_line:
  "left_of b = above_text b @ take (cur_x b) (cur b)" "right_of b = drop (cur_x b) (cur b) @ below_text b"
  by (auto simp: left_of_def right_of_def left_at_def right_at_def above_text_def below_text_def cur_def cur_x_def min_def)

lemma with_line_ok:
  assumes "cursor_ok b"
  shows "set_line (tb_cursor_y b) l b = Some (with_line l (tb_raw_x b) b)" "text_edit b (with_line l x b)"
    "left_of (with_line l x b) = above_text b @ take x l" "right_of (with_line l x b) = drop x l @ below_text b"
  using assms
  by (auto simp: set_line_def with_line_def text_edit_def cursor_ok_def left_of_def right_of_def left_at_def right_at_def
      above_text_def below_text_def)

lemma with_line_raw_x [simp]: "(with_line l x b)\<lparr>tb_raw_x := y\<rparr> = with_line l y b"
  by (simp add: with_line_def)

lemma with_line_frame [simp]: "tb_selection (with_line l x b) = tb_selection b" "tb_cursor_y (with_line l x b) = tb_cursor_y b"
  by (simp_all add: with_line_def)

section \<open>Selections\<close>

definition anchor_ok :: "text_buffer \<Rightarrow> bool" where
  "anchor_ok b \<longleftrightarrow> (\<forall>y x. tb_selection b = Some (y, x) \<longrightarrow> y < length (tb_lines b) \<and> x \<le> length (tb_lines b ! y))"

lemma selection_range_cases:
  assumes "cursor_ok b" "anchor_ok b"
  obtains (none) "selection_range b = Some None"
    | (range) sy sx ey ex where "selection_range b = Some (Some ((sy, sx), (ey, ex)))" "tb_selection b \<noteq> None"
      "sy \<le> ey" "ey < length (tb_lines b)" "sy = ey \<longrightarrow> sx \<le> ex" "sx \<le> length (tb_lines b ! sy)"
proof (cases "tb_selection b")
  case None
  then show thesis by (intro none) (simp add: selection_range_def)
next
  case (Some anchor)
  obtain ay ax where a: "anchor = (ay, ax)" by fastforce
  let ?cx = "min (tb_raw_x b) (length (tb_lines b ! tb_cursor_y b))"
  have anchor: "ay < length (tb_lines b)" "ax \<le> length (tb_lines b ! ay)" using assms(2) Some a by (auto simp: anchor_ok_def)
  have y: "tb_cursor_y b < length (tb_lines b)" using assms(1) by (simp add: cursor_ok_def)
  have sel: "selection_range b = Some (if anchor = (tb_cursor_y b, ?cx) then None
      else Some (if le_pos anchor (tb_cursor_y b, ?cx) then (anchor, (tb_cursor_y b, ?cx)) else ((tb_cursor_y b, ?cx), anchor)))"
    using Some by (simp add: selection_range_def cursor_reads(3) [OF assms(1)] Let_def)
  consider "anchor = (tb_cursor_y b, ?cx)" | "anchor \<noteq> (tb_cursor_y b, ?cx)" "le_pos anchor (tb_cursor_y b, ?cx)"
    | "anchor \<noteq> (tb_cursor_y b, ?cx)" "\<not> le_pos anchor (tb_cursor_y b, ?cx)" by blast
  then show thesis
  proof cases
    case 1
    with sel show thesis by (intro none) simp
  next
    case 2
    with sel Some a anchor y show thesis by (intro range [of ay ax "tb_cursor_y b" ?cx]) (auto simp: le_pos_def)
  next
    case 3
    with sel Some a anchor y show thesis by (intro range [of "tb_cursor_y b" ?cx ay ax]) (auto simp: le_pos_def)
  qed
qed

lemma delete_selection_ok:
  assumes "cursor_ok b" "anchor_ok b"
  shows "\<exists>b'. delete_selection b = Some b' \<and> text_edit (b\<lparr>tb_selection := None\<rparr>) b' \<and> tb_selection b' = None
    \<and> (tb_selection b = None \<longrightarrow> b' = b)"
  using assms
proof (cases rule: selection_range_cases)
  case none
  with assms(1) show ?thesis by (simp add: delete_selection_def text_edit_def cursor_ok_def)
next
  case (range sy sx ey ex)
  from remove_span_edit [OF range(3,4), of sx ex] obtain b' where "remove_span sy sx ey ex b = Some b'" "text_edit b b'"
    by blast
  with range(1,2) show ?thesis by (auto simp: delete_selection_def text_edit_def cursor_ok_def)
qed

lemma selected_text_ok:
  assumes "cursor_ok b" "anchor_ok b" shows "\<exists>t. selected_text b = Some t \<and> (tb_selection b = None \<longrightarrow> t = None)"
  using assms
proof (cases rule: selection_range_cases)
  case (range sy sx ey ex)
  then show ?thesis by (auto simp: selected_text_def line_at_def)
qed (simp add: selected_text_def)

end
