(* ===== verification/Text_Safety.thy ===== *)
theory Text_Safety
  imports Text_Zipper
begin

text \<open>
  The invariant of the edit buffer and that every operation of \<open>crates/n00n-ui/src/text_buffer.rs\<close>
  keeps it without a panic when the selection anchor is a position of the text.
\<close>

section \<open>The invariant\<close>

definition hist_ok :: "text_buffer \<Rightarrow> bool" where
  "hist_ok b \<longleftrightarrow> (\<forall>s \<in> set (tb_undo b) \<union> set (tb_redo b). sn_cursor_y s < length (sn_lines s))
     \<and> length (tb_undo b) + length (tb_redo b) \<le> UNDO_LIMIT \<and> length (tb_kill_ring b) \<le> KILL_RING_LIMIT"

definition yank_ok :: "text_buffer \<Rightarrow> bool" where
  "yank_ok b \<longleftrightarrow> (\<forall>sp. tb_yank b = Some sp \<longrightarrow> ys_y sp \<le> ys_end_y sp \<and> ys_end_y sp < length (tb_lines b)
     \<and> ys_ring_pos sp < length (tb_kill_ring b) \<and> tb_last_edit b = Some EOther)"

definition buf_ok :: "text_buffer \<Rightarrow> bool" where
  "buf_ok b \<longleftrightarrow> cursor_ok b \<and> hist_ok b \<and> yank_ok b"

definition edit_ok :: "text_buffer \<Rightarrow> bool" where
  "edit_ok b \<longleftrightarrow> cursor_ok b \<and> hist_ok b \<and> tb_yank b = None"

lemma edit_ok_buf_ok: "edit_ok b \<Longrightarrow> buf_ok b"
  by (simp add: edit_ok_def buf_ok_def yank_ok_def)

lemma edit_ok_cursor: "edit_ok b \<Longrightarrow> cursor_ok b"
  by (simp add: edit_ok_def)

lemma edit_ok_text: "edit_ok b \<Longrightarrow> text_edit b b' \<Longrightarrow> edit_ok b'"
  by (simp add: edit_ok_def text_edit_def hist_ok_def)

lemma edit_ok_selection [simp]: "edit_ok (b\<lparr>tb_selection := v\<rparr>) = edit_ok b"
  by (simp add: edit_ok_def hist_ok_def cursor_ok_def)

lemma anchor_ok_None [simp]: "tb_selection b = None \<Longrightarrow> anchor_ok b"
  by (simp add: anchor_ok_def)

lemma push_limited_length: "length xs \<le> n \<Longrightarrow> 0 < n \<Longrightarrow> length (push_limited n x xs) \<le> n"
  by (auto simp: push_limited_def)

lemma push_limited_set: "set (push_limited n x xs) \<subseteq> insert x (set xs)"
  by (cases xs) (auto simp: push_limited_def)

lemma push_limited_last: "0 < n \<Longrightarrow> push_limited n x xs \<noteq> [] \<and> last (push_limited n x xs) = x"
  by (cases xs) (auto simp: push_limited_def)

lemma record_edit_frame [simp]:
  "tb_lines (record_edit k b) = tb_lines b" "tb_raw_x (record_edit k b) = tb_raw_x b"
  "tb_cursor_y (record_edit k b) = tb_cursor_y b" "tb_selection (record_edit k b) = tb_selection b"
  "tb_kill_ring (record_edit k b) = tb_kill_ring b"
  by (simp_all add: record_edit_def)

lemma record_edit_reads [simp]:
  "current_line (record_edit k b) = current_line b" "x_of (record_edit k b) = x_of b"
  "current_line_len (record_edit k b) = current_line_len b" "line_at y (record_edit k b) = line_at y b"
  "cur (record_edit k b) = cur b" "cur_x (record_edit k b) = cur_x b"
  "above_text (record_edit k b) = above_text b" "below_text (record_edit k b) = below_text b"
  "left_of (record_edit k b) = left_of b" "right_of (record_edit k b) = right_of b"
  "cursor_ok (record_edit k b) = cursor_ok b" "anchor_ok (record_edit k b) = anchor_ok b"
  by (simp_all add: current_line_def x_of_def current_line_len_def line_at_def cursor_ok_def anchor_ok_def
      cur_def cur_x_def above_text_def below_text_def left_of_def right_of_def)

lemma record_edit_selection [simp]: "selection_range (record_edit k b) = selection_range b"
  by (cases "tb_selection b") (simp_all add: selection_range_def)

lemma record_edit_ok: "buf_ok b \<Longrightarrow> edit_ok (record_edit k b)"
proof -
  assume b: "buf_ok b"
  show ?thesis
  proof (cases "k \<noteq> EOther \<and> tb_last_edit b = Some k")
    case True
    then have "tb_yank b = None" using b by (cases "tb_yank b") (auto simp: buf_ok_def yank_ok_def)
    with True b show ?thesis by (simp add: record_edit_def edit_ok_def buf_ok_def)
  next
    case False
    have "sn_cursor_y (take_snapshot b) < length (sn_lines (take_snapshot b))"
      using b by (simp add: take_snapshot_def buf_ok_def cursor_ok_def)
    moreover have "length (push_limited UNDO_LIMIT (take_snapshot b) (tb_undo b)) \<le> UNDO_LIMIT"
      using b by (intro push_limited_length) (auto simp: buf_ok_def hist_ok_def UNDO_LIMIT_def)
    ultimately have "hist_ok (b\<lparr>tb_undo := push_limited UNDO_LIMIT (take_snapshot b) (tb_undo b), tb_redo := [],
             tb_last_edit := Some k, tb_yank := None\<rparr>)"
      using b push_limited_set [of UNDO_LIMIT "take_snapshot b" "tb_undo b"] by (auto simp: buf_ok_def hist_ok_def)
    with False b show ?thesis by (auto simp: record_edit_def edit_ok_def buf_ok_def cursor_ok_def)
  qed
qed

lemma push_kill_ok: "edit_ok b \<Longrightarrow> edit_ok (push_kill t b)"
  using push_limited_length [of "tb_kill_ring b" KILL_RING_LIMIT t]
  by (auto simp: push_kill_def edit_ok_def hist_ok_def cursor_ok_def KILL_RING_LIMIT_def)

lemma push_kill_frame [simp]:
  "tb_selection (push_kill t b) = tb_selection b" "tb_lines (push_kill t b) = tb_lines b"
  "tb_cursor_y (push_kill t b) = tb_cursor_y b" "tb_raw_x (push_kill t b) = tb_raw_x b" "tb_undo (push_kill t b) = tb_undo b"
  by (simp_all add: push_kill_def)

text \<open>The state after recording an edit and deleting the selection, the start of every insertion.\<close>

lemma start_edit:
  assumes "buf_ok b" "anchor_ok b"
  obtains b1 where "delete_selection (record_edit k b) = Some b1" "edit_ok b1" "tb_selection b1 = None"
    "tb_selection b = None \<longrightarrow> b1 = record_edit k b" "tb_kill_ring b1 = tb_kill_ring b"
    "tb_last_edit b1 = tb_last_edit (record_edit k b)"
proof -
  have e: "edit_ok (record_edit k b)" using assms(1) by (rule record_edit_ok)
  obtain b1 where b1: "delete_selection (record_edit k b) = Some b1" "text_edit ((record_edit k b)\<lparr>tb_selection := None\<rparr>) b1"
    "tb_selection b1 = None" "tb_selection (record_edit k b) = None \<longrightarrow> b1 = record_edit k b"
    using delete_selection_ok [OF edit_ok_cursor [OF e]] assms(2) by auto
  have "edit_ok b1" by (rule edit_ok_text [OF _ b1(2)]) (simp add: e)
  with b1 show thesis by (intro that [of b1]) (auto simp: text_edit_def)
qed

section \<open>Insertions\<close>

definition safe :: "text_buffer \<Rightarrow> text_buffer option \<Rightarrow> bool" where
  "safe b r \<longleftrightarrow> (\<exists>b'. r = Some b' \<and> buf_ok b' \<and> (tb_selection b = None \<longrightarrow> tb_selection b' = None))"

lemma safeI: "r = Some b' \<Longrightarrow> edit_ok b' \<Longrightarrow> tb_selection b' = tb_selection b \<or> tb_selection b' = None \<Longrightarrow> safe b r"
  by (auto simp: safe_def intro: edit_ok_buf_ok)

lemma push_char_safe: "buf_ok b \<Longrightarrow> anchor_ok b \<Longrightarrow> safe b (push_char c b)"
proof -
  assume b: "buf_ok b" "anchor_ok b"
  obtain b1 where b1: "delete_selection (record_edit EInsert b) = Some b1" "edit_ok b1" "tb_selection b1 = None"
    using start_edit [OF b] by metis
  obtain b2 where "insert_str [c] b1 = Some b2" "text_edit b1 b2" using insert_str_ok [OF edit_ok_cursor [OF b1(2)]] by blast
  with b1 show ?thesis by (intro safeI [of _ b2]) (auto simp: push_char_def text_edit_def intro: edit_ok_text)
qed

lemma insert_text_safe: "buf_ok b \<Longrightarrow> anchor_ok b \<Longrightarrow> safe b (insert_text t b)"
proof -
  assume b: "buf_ok b" "anchor_ok b"
  obtain b1 where b1: "delete_selection (record_edit EInsert b) = Some b1" "edit_ok b1" "tb_selection b1 = None"
    using start_edit [OF b] by metis
  obtain b2 where "insert_text_inner t b1 = Some b2" "text_edit b1 b2"
    using insert_text_inner_ok [OF edit_ok_cursor [OF b1(2)]] by blast
  with b1 show ?thesis by (intro safeI [of _ b2]) (auto simp: insert_text_def text_edit_def intro: edit_ok_text)
qed

lemma add_line_safe: "buf_ok b \<Longrightarrow> anchor_ok b \<Longrightarrow> safe b (add_line b)"
proof -
  assume b: "buf_ok b" "anchor_ok b"
  obtain b1 where b1: "delete_selection (record_edit EOther b) = Some b1" "edit_ok b1" "tb_selection b1 = None"
    using start_edit [OF b] by metis
  obtain b2 where "add_line_inner b1 = Some b2" "text_edit b1 b2" using add_line_inner_ok [OF edit_ok_cursor [OF b1(2)]] by blast
  with b1 show ?thesis by (intro safeI [of _ b2]) (auto simp: add_line_def text_edit_def intro: edit_ok_text)
qed

section \<open>Deletions and kills\<close>

lemma safe_id: "buf_ok b \<Longrightarrow> safe b (Some b)"
  by (simp add: safe_def)

lemma safe_kill: "edit_ok b' \<Longrightarrow> tb_selection b' = tb_selection b \<or> tb_selection b' = None \<Longrightarrow> safe b (Some (push_kill t b'))"
  by (rule safeI [OF refl push_kill_ok]) auto

lemma edit_ok_with_line: "edit_ok b \<Longrightarrow> edit_ok (with_line l x b)"
  by (meson edit_ok_cursor edit_ok_text with_line_ok(2))

lemma edit_ok_raw_x [simp]: "edit_ok (b\<lparr>tb_raw_x := x\<rparr>) = edit_ok b"
  by (simp add: edit_ok_def hist_ok_def cursor_ok_def)

lemma back_while_ok: "i \<le> length l \<Longrightarrow> \<exists>j. back_while p l i = Some j \<and> j \<le> i"
  by (induction i) auto

lemma find_prev_word_boundary_ok:
  assumes "i \<le> length l" shows "\<exists>j. find_prev_word_boundary l i = Some j \<and> j \<le> i"
proof -
  obtain j where j: "back_while is_ascii_whitespace l i = Some j" "j \<le> i" using back_while_ok [OF assms] by blast
  obtain k where "back_while (\<lambda>c. \<not> is_ascii_whitespace c) l j = Some k" "k \<le> j"
    using back_while_ok [of j l] j(2) assms by fastforce
  with j show ?thesis by (simp add: find_prev_word_boundary_def)
qed

lemma forward_while_bounds: "i \<le> forward_while p l i \<and> (i \<le> length l \<longrightarrow> forward_while p l i \<le> length l)"
proof (induction p l i rule: forward_while.induct)
  case (1 p l i)
  show ?case by (cases "i < length l \<and> p (l ! i)") (use 1 in \<open>auto simp: forward_while.simps [of p l i]\<close>)
qed

lemma find_next_word_boundary_bounds:
  "i \<le> find_next_word_boundary l i \<and> (i \<le> length l \<longrightarrow> find_next_word_boundary l i \<le> length l)"
  unfolding find_next_word_boundary_def by (meson forward_while_bounds order_trans)

lemma has_selection_None [simp]: "tb_selection b = None \<Longrightarrow> has_selection b = Some False"
  by (simp add: has_selection_def selection_range_def)

lemma delete_selection_safe: "buf_ok b \<Longrightarrow> anchor_ok b \<Longrightarrow> safe b (delete_selection (record_edit k b))"
  using start_edit by (metis safeI)

lemma has_selection_total: "cursor_ok b \<Longrightarrow> anchor_ok b \<Longrightarrow> \<exists>s. has_selection b = Some s"
  by (cases rule: selection_range_cases) (auto simp: has_selection_def)

lemma remove_at_ok: "i < length l \<Longrightarrow> remove_at l (char_to_byte l i) = Some (take i l @ drop (Suc i) l)"
  by (simp add: remove_at_def Cons_nth_drop_Suc [symmetric])

lemma buf_ok_cursor: "buf_ok b \<Longrightarrow> cursor_ok b"
  by (simp add: buf_ok_def)

lemma merge_previous_edit: "cursor_ok b \<Longrightarrow> \<exists>b'. merge_with_previous_line b = Some b' \<and> text_edit b b'"
proof (cases "tb_cursor_y b = 0")
  case False
  assume b: "cursor_ok b"
  let ?b1 = "b\<lparr>tb_cursor_y := tb_cursor_y b - 1, tb_raw_x := length (tb_lines b ! (tb_cursor_y b - 1))\<rparr>"
  have "cursor_ok ?b1" using b by (simp add: cursor_ok_def)
  from merge_with_next_line_edit [OF this] obtain b' where "merge_with_next_line ?b1 = Some b'" "text_edit ?b1 b'" by blast
  with False show ?thesis by (simp add: merge_previous_eq [OF b] text_edit_def)
qed (simp add: merge_with_previous_line_def text_edit_refl)

lemma remove_char_eq:
  assumes "cursor_ok b" "has_selection b = Some False"
  shows "remove_char b =
    (if cur_x b = 0 then if tb_cursor_y b = 0 then Some b else merge_with_previous_line (record_edit ERemove b)
     else Some (with_line (take (cur_x b - 1) (cur b) @ drop (cur_x b) (cur b)) (cur_x b - 1) (record_edit ERemove b)))"
proof (cases "cur_x b")
  case (Suc i)
  then have "i < length (cur b)" using cur_x_le [of b] by simp
  with Suc assms show ?thesis
    by (simp add: remove_char_def cur_reads Let_def remove_at_ok with_line_ok [of "record_edit ERemove b", simplified])
qed (use assms in \<open>simp add: remove_char_def cur_reads Let_def\<close>)

lemma delete_char_eq:
  assumes "cursor_ok b" "has_selection b = Some False"
  shows "delete_char b =
    (if cur_x b = length (cur b) then if tb_cursor_y b + 1 = length (tb_lines b) then Some b else merge_with_next_line (record_edit ERemove b)
     else Some (with_line (take (cur_x b) (cur b) @ drop (Suc (cur_x b)) (cur b)) (tb_raw_x b) (record_edit ERemove b)))"
proof (cases "cur_x b = length (cur b)")
  case False
  then have "cur_x b < length (cur b)" using cur_x_le [of b] by simp
  with False assms show ?thesis
    by (simp add: delete_char_def cur_reads Let_def remove_at_ok with_line_ok [of "record_edit ERemove b", simplified])
qed (use assms in \<open>simp add: delete_char_def cur_reads Let_def\<close>)

lemma safe_merge:
  assumes "buf_ok b"
  shows "safe b (merge_with_previous_line (record_edit k b))" "safe b (merge_with_next_line (record_edit k b))"
  using merge_previous_edit [OF edit_ok_cursor [OF record_edit_ok [OF assms]], of k]
    merge_with_next_line_edit [OF edit_ok_cursor [OF record_edit_ok [OF assms]], of k] edit_ok_text [OF record_edit_ok [OF assms]]
  by (metis safeI record_edit_frame(4) text_edit_def)+

lemma safe_with_line: "buf_ok b \<Longrightarrow> safe b (Some (with_line l x (record_edit k b)))"
  by (rule safeI [OF refl edit_ok_with_line [OF record_edit_ok]]) auto

lemma remove_char_safe:
  assumes b: "buf_ok b" "anchor_ok b" shows "safe b (remove_char b)"
proof -
  obtain s where s: "has_selection b = Some s" using has_selection_total [OF buf_ok_cursor [OF b(1)] b(2)] by blast
  show ?thesis
  proof (cases s)
    case True
    with s delete_selection_safe [OF b] show ?thesis by (simp add: remove_char_def)
  next
    case False
    with s b(1) show ?thesis by (simp add: remove_char_eq buf_ok_cursor safe_id safe_merge safe_with_line)
  qed
qed

lemma delete_char_safe:
  assumes b: "buf_ok b" "anchor_ok b" shows "safe b (delete_char b)"
proof -
  obtain s where s: "has_selection b = Some s" using has_selection_total [OF buf_ok_cursor [OF b(1)] b(2)] by blast
  show ?thesis
  proof (cases s)
    case True
    with s delete_selection_safe [OF b] show ?thesis by (simp add: delete_char_def)
  next
    case False
    with s b(1) show ?thesis by (simp add: delete_char_eq buf_ok_cursor safe_id safe_merge safe_with_line)
  qed
qed

lemma kill_selection_cases:
  assumes "buf_ok b" "anchor_ok b"
  obtains (none) "kill_selection b = Some (False, b)"
    | (killed) b' where "kill_selection b = Some (True, b')" "edit_ok b'" "tb_selection b' = None"
proof -
  obtain t where t: "selected_text b = Some t" using selected_text_ok [OF buf_ok_cursor [OF assms(1)] assms(2)] by blast
  obtain b1 where b1: "delete_selection (record_edit EOther b) = Some b1" "edit_ok b1" "tb_selection b1 = None"
    using start_edit [OF assms] by metis
  show thesis
  proof (cases t)
    case None
    with t show thesis by (intro none) (simp add: kill_selection_def)
  next
    case (Some u)
    with t b1 show thesis by (intro killed [of "push_kill u b1"]) (simp_all add: kill_selection_def push_kill_ok)
  qed
qed

lemma kill_selection_None: "tb_selection b = None \<Longrightarrow> kill_selection b = Some (False, b)"
  by (simp add: kill_selection_def selected_text_def selection_range_def)

lemma delete_word_after_cursor_eq:
  assumes "cursor_ok b" "kill_selection b = Some (False, b)"
  shows "delete_word_after_cursor b =
    (if cur_x b = length (cur b) then
       if tb_cursor_y b + 1 < length (tb_lines b) then map_option (push_kill [NL]) (merge_with_next_line (record_edit EOther b)) else Some b
     else let e = find_next_word_boundary (cur b) (cur_x b)
       in Some (push_kill (take (e - cur_x b) (drop (cur_x b) (cur b)))
            (with_line (take (cur_x b) (cur b) @ drop e (cur b)) (tb_raw_x b) (record_edit EOther b))))"
  using assms find_next_word_boundary_bounds [of "cur_x b" "cur b"]
  by (cases "merge_with_next_line (record_edit EOther b)")
    (simp_all add: delete_word_after_cursor_def cur_reads Let_def with_line_ok [of "record_edit EOther b", simplified])

lemma remove_word_before_cursor_eq:
  assumes "cursor_ok b" "kill_selection b = Some (False, b)"
  obtains w where "w \<le> cur_x b" "find_prev_word_boundary (cur b) (cur_x b) = Some w" "remove_word_before_cursor b =
    (if cur_x b = 0 then
       if tb_cursor_y b = 0 then Some b else map_option (push_kill [NL]) (merge_with_previous_line (record_edit EOther b))
     else Some (push_kill (take (cur_x b - w) (drop w (cur b)))
            (with_line (take w (cur b) @ drop (cur_x b) (cur b)) w (record_edit EOther b))))"
proof -
  obtain w where "find_prev_word_boundary (cur b) (cur_x b) = Some w" "w \<le> cur_x b"
    using find_prev_word_boundary_ok [OF cur_x_le] by blast
  with assms show thesis
    by (intro that [of w]; cases "merge_with_previous_line (record_edit EOther b)")
      (simp_all add: remove_word_before_cursor_def cur_reads Let_def with_line_ok [of "record_edit EOther b", simplified])
qed

lemma kill_to_end_of_line_eq:
  assumes "cursor_ok b" "kill_selection b = Some (False, b)"
  shows "kill_to_end_of_line b = Some (if cur_x b = length (cur b) then b
    else push_kill (drop (cur_x b) (cur b)) (with_line (take (cur_x b) (cur b)) (tb_raw_x b) (record_edit EOther b)))"
  using assms
  by (simp add: kill_to_end_of_line_def cur_reads Let_def char_to_byte_end [OF cur_x_le]
      with_line_ok [of "record_edit EOther b", simplified])

lemma kill_to_start_of_line_eq:
  assumes "cursor_ok b" "kill_selection b = Some (False, b)"
  shows "kill_to_start_of_line b = Some (if cur_x b = 0 then b
    else push_kill (take (cur_x b) (cur b)) (with_line (drop (cur_x b) (cur b)) 0 (record_edit EOther b)))"
proof -
  have "char_to_byte (cur b) (cur_x b) = 0 \<longleftrightarrow> cur_x b = 0" by (auto simp: char_to_byte_def cur_x_def)
  with assms show ?thesis
    by (simp add: kill_to_start_of_line_def cur_reads Let_def with_line_ok [of "record_edit EOther b", simplified])
qed

lemma safe_push_kill: "safe b r \<Longrightarrow> (\<And>b'. r = Some b' \<Longrightarrow> edit_ok b') \<Longrightarrow> safe b (map_option (push_kill t) r)"
  by (auto simp: safe_def intro: edit_ok_buf_ok [OF push_kill_ok])

lemma safe_merge_kill:
  assumes "buf_ok b"
  shows "safe b (map_option (push_kill t) (merge_with_previous_line (record_edit k b)))"
    "safe b (map_option (push_kill t) (merge_with_next_line (record_edit k b)))"
proof -
  note e = record_edit_ok [OF assms, of k]
  show "safe b (map_option (push_kill t) (merge_with_previous_line (record_edit k b)))"
    using merge_previous_edit [OF edit_ok_cursor [OF e]] edit_ok_text [OF e]
    by (intro safe_push_kill safe_merge assms) auto
  show "safe b (map_option (push_kill t) (merge_with_next_line (record_edit k b)))"
    using merge_with_next_line_edit [OF edit_ok_cursor [OF e]] edit_ok_text [OF e]
    by (intro safe_push_kill safe_merge assms) auto
qed

lemma safe_kill_line: "buf_ok b \<Longrightarrow> safe b (Some (push_kill t (with_line l x (record_edit k b))))"
  by (rule safe_kill [OF edit_ok_with_line [OF record_edit_ok]]) auto

lemma safe_or_killed:
  assumes "buf_ok b" "anchor_ok b" and "kill_selection b = Some (False, b) \<Longrightarrow> safe b r"
    and "\<And>b'. kill_selection b = Some (True, b') \<Longrightarrow> r = Some b'"
  shows "safe b r"
  using assms(1,2)
proof (cases rule: kill_selection_cases)
  case (killed b')
  with assms(4) show ?thesis by (intro safeI) auto
qed (rule assms(3))

lemmas kill_parts = safe_id safe_merge_kill safe_kill_line buf_ok_cursor

lemma kill_commands_safe:
  assumes b: "buf_ok b" "anchor_ok b"
  shows "safe b (delete_word_after_cursor b)" "safe b (remove_word_before_cursor b)"
    "safe b (kill_to_end_of_line b)" "safe b (kill_to_start_of_line b)"
proof -
  show "safe b (delete_word_after_cursor b)"
    using b by (rule safe_or_killed) (simp add: delete_word_after_cursor_eq kill_parts b Let_def, simp add: delete_word_after_cursor_def)
  show "safe b (kill_to_end_of_line b)"
    using b by (rule safe_or_killed) (simp add: kill_to_end_of_line_eq kill_parts b, simp add: kill_to_end_of_line_def)
  show "safe b (kill_to_start_of_line b)"
    using b by (rule safe_or_killed) (simp add: kill_to_start_of_line_eq kill_parts b, simp add: kill_to_start_of_line_def)
  show "safe b (remove_word_before_cursor b)"
    using b
  proof (rule safe_or_killed)
    assume "kill_selection b = Some (False, b)"
    with buf_ok_cursor [OF b(1)] show "safe b (remove_word_before_cursor b)"
      by (rule remove_word_before_cursor_eq) (simp add: kill_parts b)
  qed (simp add: remove_word_before_cursor_def)
qed

section \<open>Yanks\<close>

lemma insert_chunks_down: "insert_chunks first chunks b = Some b' \<Longrightarrow> tb_cursor_y b \<le> tb_cursor_y b'"
proof (induction chunks arbitrary: first b)
  case (Cons chunk chunks)
  then obtain b1 b2 where
    b1: "(if first then Some b else add_line_inner b) = Some b1" and
    b2: "(if chunk = [] then Some b1 else insert_str chunk b1) = Some b2" and
    b3: "insert_chunks False chunks b2 = Some b'"
    by (auto simp: bind_eq_Some_conv)
  have "tb_cursor_y b \<le> tb_cursor_y b1"
    using b1 by (auto simp: add_line_inner_def bind_eq_Some_conv split: if_splits)
  moreover have "tb_cursor_y b2 = tb_cursor_y b1"
    using b2 by (auto simp: insert_str_def set_line_def bind_eq_Some_conv split: if_splits)
  ultimately show ?case using Cons.IH [OF b3] by simp
qed simp

lemma yank_safe:
  assumes b: "buf_ok b" "anchor_ok b"
  shows "safe b (map_option snd (yank b))"
proof (cases "tb_kill_ring b = []")
  case False
  obtain b1 where b1: "delete_selection (record_edit EOther b) = Some b1" "edit_ok b1" "tb_selection b1 = None"
    "tb_kill_ring b1 = tb_kill_ring b" "tb_last_edit b1 = tb_last_edit (record_edit EOther b)"
    using start_edit [OF b] by metis
  obtain b2 where b2: "insert_text_inner (last (tb_kill_ring b)) b1 = Some b2" "text_edit b1 b2"
    using insert_text_inner_ok [OF edit_ok_cursor [OF b1(2)]] by blast
  have y: "tb_cursor_y b1 \<le> tb_cursor_y b2" using b2(1) by (auto simp: insert_text_inner_def dest: insert_chunks_down)
  have e2: "edit_ok b2" using b1(2) b2(2) by (rule edit_ok_text)
  let ?sp = "\<lparr>ys_y = tb_cursor_y b1, ys_x = cur_x b1, ys_end_y = tb_cursor_y b2, ys_end_x = cur_x b2,
               ys_ring_pos = length (tb_kill_ring b2) - 1\<rparr>"
  have "yank b = Some (True, b2\<lparr>tb_yank := Some ?sp\<rparr>)"
    using False b1(1) b2(1) e2 b1(2) by (simp add: yank_def cur_reads edit_ok_cursor)
  moreover have "buf_ok (b2\<lparr>tb_yank := Some ?sp\<rparr>)"
    using e2 y b1 b2(2) False
    by (auto simp: buf_ok_def edit_ok_def yank_ok_def hist_ok_def cursor_ok_def text_edit_def record_edit_def)
  ultimately show ?thesis using b1 b2 by (simp add: safe_def text_edit_def)
qed (use b in \<open>simp add: yank_def safe_id\<close>)

lemma yank_pop_safe:
  assumes b: "buf_ok b"
  shows "safe b (map_option snd (yank_pop b))"
proof (cases "tb_yank b = None \<or> length (tb_kill_ring b) < 2")
  case False
  then obtain sp where sp: "tb_yank b = Some sp" by auto
  have span: "ys_y sp \<le> ys_end_y sp" "ys_end_y sp < length (tb_lines b)"
    using b sp by (auto simp: buf_ok_def yank_ok_def)
  note e = record_edit_ok [OF b, of EOther]
  obtain b1 where b1: "remove_span (ys_y sp) (ys_x sp) (ys_end_y sp) (ys_end_x sp) (record_edit EOther b) = Some b1"
    "text_edit (record_edit EOther b) b1" "tb_cursor_y b1 = ys_y sp"
    using remove_span_edit [of "ys_y sp" "ys_end_y sp" "record_edit EOther b"] span by auto
  let ?b1 = "b1\<lparr>tb_cursor_y := ys_y sp, tb_raw_x := ys_x sp\<rparr>"
  have e1: "edit_ok ?b1" using edit_ok_text [OF e b1(2)] b1(3) by (simp add: edit_ok_def cursor_ok_def hist_ok_def)
  let ?pos = "(ys_ring_pos sp + length (tb_kill_ring b1) - 1) mod length (tb_kill_ring b1)"
  have ring: "tb_kill_ring b1 = tb_kill_ring b" using b1(2) by (simp add: text_edit_def)
  have pos: "?pos < length (tb_kill_ring b1)" using False ring by (intro mod_less_divisor) auto
  obtain b2 where b2: "insert_text_inner (tb_kill_ring b1 ! ?pos) ?b1 = Some b2" "text_edit ?b1 b2"
    using insert_text_inner_ok [OF edit_ok_cursor [OF e1]] by blast
  have y: "ys_y sp \<le> tb_cursor_y b2" using b2(1) by (auto simp: insert_text_inner_def dest: insert_chunks_down)
  have e2: "edit_ok b2" using e1 b2(2) by (rule edit_ok_text)
  let ?b3 = "b2\<lparr>tb_yank := Some (sp\<lparr>ys_end_y := tb_cursor_y b2, ys_end_x := cur_x b2, ys_ring_pos := ?pos\<rparr>)\<rparr>"
  have "yank_pop b = Some (True, ?b3)"
    using False sp b1(1) pos b2(1) e2 by (simp add: yank_pop_def cur_reads edit_ok_cursor Let_def)
  moreover have "tb_last_edit b2 = Some EOther" using b1(2) b2(2) by (simp add: text_edit_def record_edit_def)
  then have "buf_ok ?b3"
    using e2 y pos b2(2) by (simp add: buf_ok_def edit_ok_def yank_ok_def hist_ok_def cursor_ok_def text_edit_def)
  ultimately show ?thesis using b1 b2 by (simp add: safe_def text_edit_def)
qed (use b in \<open>auto simp: yank_pop_def safe_id split: option.splits\<close>)

end
