(* ===== verification/Text_Session.thy ===== *)
theory Text_Session
  imports Text_Safety
begin

text \<open>
  Editing sessions of \<open>crates/n00n-ui/src/text_buffer.rs\<close>: the motions, the history and every public
  operation of the buffer, what a sequence of them keeps, and the guarantees of the component.
\<close>

section \<open>Motions\<close>

datatype motion = MLeft | MRight | MUp | MDown | MHome | MEnd | MWordLeft | MWordRight

fun step_of :: "motion \<Rightarrow> text_buffer \<Rightarrow> text_buffer option" where
  "step_of MLeft = step_left"
| "step_of MRight = step_right"
| "step_of MUp = step_up"
| "step_of MDown = step_down"
| "step_of MHome = step_home"
| "step_of MEnd = step_end"
| "step_of MWordLeft = step_word_left"
| "step_of MWordRight = step_word_right"

text \<open>A motion changes the cursor and nothing else.\<close>

definition only_cursor :: "text_buffer \<Rightarrow> text_buffer \<Rightarrow> bool" where
  "only_cursor b b' \<longleftrightarrow> text_edit b b' \<and> tb_lines b' = tb_lines b"

lemma only_cursor_at [simp]:
  "only_cursor b (b\<lparr>tb_raw_x := x\<rparr>) = cursor_ok b"
  "only_cursor b (b\<lparr>tb_cursor_y := y, tb_raw_x := x\<rparr>) \<longleftrightarrow> y < length (tb_lines b)"
  "only_cursor b (b\<lparr>tb_cursor_y := y\<rparr>) \<longleftrightarrow> y < length (tb_lines b)"
  "only_cursor b b = cursor_ok b"
  by (auto simp: only_cursor_def text_edit_def cursor_ok_def)

lemma wrap_ok:
  assumes "cursor_ok b"
  shows "\<exists>b'. wrap_to_prev_line b = Some b' \<and> only_cursor b b'" "\<exists>b'. wrap_to_next_line b = Some b' \<and> only_cursor b b'"
  using assms
  by (auto simp: wrap_to_prev_line_def wrap_to_next_line_def Let_def current_line_len_def current_line_def line_at_def
      cursor_ok_def)

lemma step_of_ok: "cursor_ok b \<Longrightarrow> \<exists>b'. step_of m b = Some b' \<and> only_cursor b b'"
  using find_prev_word_boundary_ok [OF cur_x_le [of b]]
  by (cases m) (auto simp: step_left_def step_right_def step_up_def step_down_def step_home_def step_end_def
      step_word_left_def step_word_right_def cur_reads wrap_ok cursor_ok_def)

lemma note_move_reads [simp]:
  "tb_lines (note_move b) = tb_lines b" "tb_selection (note_move b) = tb_selection b" "cursor_ok (note_move b) = cursor_ok b"
  "tb_cursor_y (note_move b) = tb_cursor_y b" "tb_raw_x (note_move b) = tb_raw_x b"
  by (simp_all add: note_move_def cursor_ok_def)

lemma note_move_ok: "buf_ok b \<Longrightarrow> edit_ok (note_move b)"
  by (simp add: buf_ok_def edit_ok_def note_move_def hist_ok_def cursor_ok_def)

lemma buf_ok_selection [simp]: "buf_ok (b\<lparr>tb_selection := v\<rparr>) = buf_ok b"
  by (simp add: buf_ok_def yank_ok_def hist_ok_def cursor_ok_def)

definition anchor_of :: "text_buffer \<Rightarrow> nat \<times> nat" where
  "anchor_of b = (case tb_selection b of None \<Rightarrow> (tb_cursor_y b, cur_x b) | Some a \<Rightarrow> a)"

lemma move_cursor_ok:
  assumes "buf_ok b"
  shows "\<exists>b'. move_cursor sel (step_of m) b = Some b' \<and> edit_ok b' \<and> tb_lines b' = tb_lines b
    \<and> tb_selection b' = (if sel then Some (anchor_of b) else None)"
proof -
  let ?b1 = "b\<lparr>tb_selection := if sel then Some (anchor_of b) else None\<rparr>"
  have e1: "edit_ok (note_move ?b1)" using assms by (intro note_move_ok) simp
  obtain b' where b': "step_of m (note_move ?b1) = Some b'" "only_cursor (note_move ?b1) b'"
    using step_of_ok [OF edit_ok_cursor [OF e1]] by blast
  have "move_cursor sel (step_of m) b = Some b'"
  proof (cases "tb_selection b")
    case None
    with b'(1) cur_reads(3) [OF buf_ok_cursor [OF assms]] show ?thesis
      by (cases sel) (simp_all add: move_cursor_def anchor_of_def)
  next
    case (Some a)
    then have "b\<lparr>tb_selection := Some a\<rparr> = b" by simp
    with Some b'(1) show ?thesis by (cases sel) (simp_all add: move_cursor_def anchor_of_def)
  qed
  with b' edit_ok_text [OF e1] show ?thesis by (auto simp: only_cursor_def text_edit_def)
qed

lemma anchor_of_ok: "cursor_ok b \<Longrightarrow> anchor_ok b \<Longrightarrow> fst (anchor_of b) < length (tb_lines b)
    \<and> snd (anchor_of b) \<le> length (tb_lines b ! fst (anchor_of b))"
  by (cases "tb_selection b") (auto simp: anchor_of_def anchor_ok_def cursor_ok_def cur_x_def cur_def)

section \<open>History and replacement of the text\<close>

lemma new_buffer_ok: "buf_ok (new_buffer t)" "tb_selection (new_buffer t) = None"
  by (simp_all add: new_buffer_def buf_ok_def cursor_ok_def hist_ok_def yank_ok_def)

lemma replace_text_ok: "edit_ok b \<Longrightarrow> ls \<noteq> [] \<Longrightarrow> edit_ok (b\<lparr>tb_lines := ls, tb_raw_x := 0, tb_cursor_y := 0\<rparr>)"
  by (simp add: edit_ok_def hist_ok_def cursor_ok_def)

lemma set_text_safe:
  assumes "buf_ok b" shows "safe b (Some (set_text t b))" "safe b (Some (set_text_silent t b))" "safe b (Some (clear b))"
proof -
  show "safe b (Some (set_text t b))"
    by (rule safeI [OF refl]) (simp_all add: set_text_def replace_text_ok record_edit_ok assms)
  show "safe b (Some (set_text_silent t b))"
    using assms by (simp add: safe_def set_text_silent_def note_move_def buf_ok_def cursor_ok_def hist_ok_def yank_ok_def)
  show "safe b (Some (clear b))"
    using assms by (simp add: safe_def clear_def buf_ok_def cursor_ok_def hist_ok_def yank_ok_def)
qed

lemma history_safe:
  assumes "buf_ok b" shows "safe b (Some (snd (undo b)))" "safe b (Some (snd (redo b)))"
proof -
  have snap: "sn_cursor_y (take_snapshot b) < length (sn_lines (take_snapshot b))"
    using assms by (simp add: take_snapshot_def buf_ok_def cursor_ok_def)
  show "safe b (Some (snd (undo b)))"
    using assms snap by (cases "tb_undo b" rule: rev_cases)
      (auto simp: undo_def safe_def buf_ok_def cursor_ok_def hist_ok_def yank_ok_def restore_def)
  show "safe b (Some (snd (redo b)))"
    using assms snap by (cases "tb_redo b" rule: rev_cases)
      (auto simp: redo_def safe_def buf_ok_def cursor_ok_def hist_ok_def yank_ok_def restore_def)
qed

lemma move_to_end_safe: "buf_ok b \<Longrightarrow> safe b (move_to_end b)"
  by (auto simp: move_to_end_def note_move_def Let_def current_line_len_def current_line_def line_at_def safe_def buf_ok_def
      cursor_ok_def hist_ok_def yank_ok_def)

lemma remove_range_safe:
  assumes "buf_ok b" shows "safe b (remove_range y s e b)"
proof (cases "e \<le> s \<or> length (tb_lines b) \<le> y")
  case False
  let ?b1 = "record_edit EOther b"
  let ?l = "tb_lines b ! y"
  let ?b2 = "?b1\<lparr>tb_lines := (tb_lines b)[y := take s ?l @ drop e ?l]\<rparr>"
  have e2: "edit_ok ?b2"
    using record_edit_ok [OF assms, of EOther] by (simp add: edit_ok_def cursor_ok_def hist_ok_def)
  have eq: "remove_range y s e b = Some (if tb_cursor_y b = y then
        if e \<le> tb_raw_x b then ?b2\<lparr>tb_raw_x := tb_raw_x b - (e - s)\<rparr>
        else if s < tb_raw_x b then ?b2\<lparr>tb_raw_x := s\<rparr> else ?b2\<lparr>tb_raw_x := tb_raw_x b\<rparr> else ?b2\<lparr>tb_raw_x := tb_raw_x b\<rparr>)"
    using False by (simp add: remove_range_def Let_def line_at_def set_line_def)
  show ?thesis unfolding eq by (rule safeI [OF refl]) (simp_all add: e2)
qed (use assms in \<open>simp add: remove_range_def safe_id\<close>)

lemma select_all_ok:
  "buf_ok b \<Longrightarrow> \<exists>b'. select_all b = Some b' \<and> buf_ok b' \<and> anchor_ok b'"
  by (auto simp: select_all_def note_move_def Let_def current_line_len_def current_line_def line_at_def buf_ok_def
      cursor_ok_def hist_ok_def yank_ok_def anchor_ok_def)

section \<open>Keys and operations\<close>

lemma handle_key_safe:
  assumes b: "buf_ok b" "anchor_ok b"
  shows "safe b (map_option snd (handle_key key b))"
proof -
  have mv: "safe b (map_option snd (moved (move_cursor False (step_of m) b)))" for m
    using move_cursor_ok [OF b(1), of False m] by (auto simp: moved_def intro: safeI)
  have ch: "map_option snd (changed r) = r" for r by (cases r) (simp_all add: changed_def)
  have ci: "map_option snd (changed_if r) = map_option snd r" for r by (cases r) (auto simp: changed_if_def)
  note parts = mv [of MLeft] mv [of MRight] mv [of MUp] mv [of MDown] mv [of MHome] mv [of MEnd] mv [of MWordLeft]
    mv [of MWordRight] ch ci kill_commands_safe [OF b] yank_safe [OF b] yank_pop_safe [OF b(1)] history_safe [OF b(1)]
    push_char_safe [OF b] remove_char_safe [OF b] delete_char_safe [OF b] safe_id [OF b(1)]
  consider "ke_control key \<and> \<not> ke_alt key" | "ke_alt key \<and> \<not> ke_control key" | "ke_control key = ke_alt key" "ke_super key"
    | "ke_control key = ke_alt key" "\<not> ke_super key" by blast
  then show ?thesis
  proof cases
    case 1
    with parts show ?thesis by (cases "ke_code key") (simp_all add: handle_key_def handle_ctrl_def)
  next
    case 2
    with parts show ?thesis by (cases "ke_code key") (simp_all add: handle_key_def handle_alt_def)
  next
    case 3
    with parts show ?thesis by (cases "ke_code key") (simp_all add: handle_key_def handle_super_def)
  next
    case 4
    with parts show ?thesis by (cases "ke_code key") (simp_all add: handle_key_def)
  qed
qed

text \<open>The public operations that do not extend a selection.\<close>

datatype buffer_op = Key key_event | InsertText line | AddLine | SetText line | SetTextSilent line | Undo | Redo | Yank | YankPop
  | RemoveRange nat nat nat | Move motion | MoveToEnd | DeleteWord | KillToEnd | KillToStart | RemoveWord | Clear

fun run_op :: "buffer_op \<Rightarrow> text_buffer \<Rightarrow> text_buffer option" where
  "run_op (Key key) b = map_option snd (handle_key key b)"
| "run_op (InsertText t) b = insert_text t b"
| "run_op AddLine b = add_line b"
| "run_op (SetText t) b = Some (set_text t b)"
| "run_op (SetTextSilent t) b = Some (set_text_silent t b)"
| "run_op Undo b = Some (snd (undo b))"
| "run_op Redo b = Some (snd (redo b))"
| "run_op Yank b = map_option snd (yank b)"
| "run_op YankPop b = map_option snd (yank_pop b)"
| "run_op (RemoveRange y s e) b = remove_range y s e b"
| "run_op (Move m) b = move_cursor False (step_of m) b"
| "run_op MoveToEnd b = move_to_end b"
| "run_op DeleteWord b = delete_word_after_cursor b"
| "run_op KillToEnd b = kill_to_end_of_line b"
| "run_op KillToStart b = kill_to_start_of_line b"
| "run_op RemoveWord b = remove_word_before_cursor b"
| "run_op Clear b = Some (clear b)"

fun run_ops :: "buffer_op list \<Rightarrow> text_buffer \<Rightarrow> text_buffer option" where
  "run_ops [] b = Some b"
| "run_ops (op # ops) b = do { b' \<leftarrow> run_op op b; run_ops ops b' }"

lemma run_op_safe: "buf_ok b \<Longrightarrow> anchor_ok b \<Longrightarrow> safe b (run_op op b)"
proof (cases op)
  case (Move m)
  assume "buf_ok b" "anchor_ok b"
  with move_cursor_ok [of b False m] Move show ?thesis by (auto intro: safeI)
qed (simp_all add: handle_key_safe insert_text_safe add_line_safe set_text_safe history_safe yank_safe yank_pop_safe
    remove_range_safe move_to_end_safe kill_commands_safe)

definition session_ok :: "text_buffer \<Rightarrow> bool" where
  "session_ok b \<longleftrightarrow> buf_ok b \<and> tb_selection b = None"

definition op_step :: "text_buffer \<Rightarrow> text_buffer \<Rightarrow> bool" where
  "op_step b b' \<longleftrightarrow> (\<exists>op. run_op op b = Some b')"

interpretation session: invariant_system "\<lambda>b. \<exists>t. b = new_buffer t" op_step session_ok
proof unfold_locales
  show "\<exists>t. b = new_buffer t \<Longrightarrow> session_ok b" for b using new_buffer_ok by (auto simp: session_ok_def)
next
  fix b b' assume "op_step b b'" "session_ok b"
  then obtain op where "run_op op b = Some b'" "buf_ok b" "tb_selection b = None" by (auto simp: op_step_def session_ok_def)
  with run_op_safe [of b op] show "session_ok b'" by (simp add: session_ok_def safe_def)
qed

lemma run_ops_steps: "run_ops ops b = Some b' \<Longrightarrow> op_step\<^sup>*\<^sup>* b b'"
proof (induction ops arbitrary: b)
  case (Cons op ops)
  then obtain b1 where "run_op op b = Some b1" "run_ops ops b1 = Some b'" by (auto simp: bind_eq_Some_conv)
  with Cons.IH show ?case by (meson converse_rtranclp_into_rtranclp op_step_def)
qed simp

lemma session_reachable: "run_ops ops (new_buffer t) = Some b \<Longrightarrow> session_ok b"
  using session.inv_reachable run_ops_steps by blast

lemma run_ops_total: "session_ok b \<Longrightarrow> \<exists>b'. run_ops ops b = Some b' \<and> session_ok b'"
proof (induction ops arbitrary: b)
  case (Cons op ops)
  then obtain b1 where "run_op op b = Some b1" "session_ok b1"
    using run_op_safe [of b op] by (auto simp: session_ok_def safe_def)
  with Cons.IH show ?case by simp
qed simp

end
