(* ===== verification/Text_Gap.thy ===== *)
theory Text_Gap
  imports Text_Session
begin

text \<open>
  The contract of plain editing in \<open>crates/n00n-ui/src/text_buffer.rs\<close>: typing, pasting, Enter, Backspace,
  Delete and the motions within the text refine a text with a gap at the cursor.
\<close>

section \<open>The text with a gap\<close>

text \<open>The specification: the text left and right of the cursor, and what each key does to them.\<close>

type_synonym gap = "line \<times> line"

fun gap_left :: "gap \<Rightarrow> gap" where
  "gap_left (l, r) = (if l = [] then (l, r) else (butlast l, last l # r))"

fun gap_right :: "gap \<Rightarrow> gap" where
  "gap_right (l, []) = (l, [])"
| "gap_right (l, c # r) = (l @ [c], r)"

definition before_line :: "line \<Rightarrow> line" where
  "before_line l = rev (dropWhile (\<lambda>c. c \<noteq> NL) (rev l))"

definition line_start :: "line \<Rightarrow> line" where
  "line_start l = rev (takeWhile (\<lambda>c. c \<noteq> NL) (rev l))"

datatype gap_op = GInsert line | GBackspace | GDelete | GLeft | GRight | GHome | GEnd

fun gap_step :: "gap_op \<Rightarrow> gap \<Rightarrow> gap" where
  "gap_step (GInsert t) (l, r) = (l @ t, r)"
| "gap_step GBackspace (l, r) = (butlast l, r)"
| "gap_step GDelete (l, r) = (l, tl r)"
| "gap_step GLeft g = gap_left g"
| "gap_step GRight g = gap_right g"
| "gap_step GHome (l, r) = (before_line l, line_start l @ r)"
| "gap_step GEnd (l, r) = (l @ takeWhile (\<lambda>c. c \<noteq> NL) r, dropWhile (\<lambda>c. c \<noteq> NL) r)"

text \<open>The keys that a session of plain editing uses, and the step of the specification each is.\<close>

datatype plain_op = PChar cp | PText line | PNewLine | PBackspace | PDelete | PLeft | PRight | PHome | PEnd

fun run_plain :: "plain_op \<Rightarrow> text_buffer \<Rightarrow> text_buffer option" where
  "run_plain (PChar c) = push_char c"
| "run_plain (PText t) = insert_text t"
| "run_plain PNewLine = add_line"
| "run_plain PBackspace = remove_char"
| "run_plain PDelete = delete_char"
| "run_plain PLeft = move_cursor False step_left"
| "run_plain PRight = move_cursor False step_right"
| "run_plain PHome = move_cursor False step_home"
| "run_plain PEnd = move_cursor False step_end"

fun spec_of :: "plain_op \<Rightarrow> gap_op" where
  "spec_of (PChar c) = GInsert [c]"
| "spec_of (PText t) = GInsert (replace_tabs t)"
| "spec_of PNewLine = GInsert [NL]"
| "spec_of PBackspace = GBackspace"
| "spec_of PDelete = GDelete"
| "spec_of PLeft = GLeft"
| "spec_of PRight = GRight"
| "spec_of PHome = GHome"
| "spec_of PEnd = GEnd"

fun run_plains :: "plain_op list \<Rightarrow> text_buffer \<Rightarrow> text_buffer option" where
  "run_plains [] b = Some b"
| "run_plains (op # ops) b = do { b' \<leftarrow> run_plain op b; run_plains ops b' }"

definition gap_of :: "text_buffer \<Rightarrow> gap" where
  "gap_of b = (left_of b, right_of b)"

section \<open>Tidy buffers\<close>

text \<open>No line holds a line feed and the column is one of the line, which moving up or down may undo.\<close>

definition tidy :: "text_buffer \<Rightarrow> bool" where
  "tidy b \<longleftrightarrow> cursor_ok b \<and> tb_raw_x b \<le> length (cur b) \<and> (\<forall>l \<in> set (tb_lines b). NL \<notin> set l)"

lemma tidy_cursor: "tidy b \<Longrightarrow> cursor_ok b"
  by (simp add: tidy_def)

lemma tidy_cur: "tidy b \<Longrightarrow> NL \<notin> set (cur b)" "tidy b \<Longrightarrow> cur_x b = tb_raw_x b"
  by (auto simp: tidy_def cursor_ok_def cur_def cur_x_def min_def)

lemma split_on_free: "l \<in> set (split_on d s) \<Longrightarrow> d \<notin> set l"
proof (induction s arbitrary: l)
  case (Cons c s)
  then show ?case by (cases "split_on d s") (auto split: if_splits)
qed simp

lemma with_line_tidy: "tidy b \<Longrightarrow> NL \<notin> set l \<Longrightarrow> x \<le> length l \<Longrightarrow> tidy (with_line l x b)"
  by (auto simp: tidy_def with_line_def cursor_ok_def cur_def dest!: set_update_subset_insert [THEN subsetD])

lemma tidy_record_edit [simp]: "tidy (record_edit k b) = tidy b"
  by (simp add: tidy_def)

lemma insert_str_tidy:
  assumes b: "tidy b" and c: "NL \<notin> set chunk" and i: "insert_str chunk b = Some b'"
  shows "tidy b'"
proof -
  let ?x = "tb_raw_x b" and ?l = "take (tb_raw_x b) (cur b) @ chunk @ drop (tb_raw_x b) (cur b)"
  have x: "?x \<le> length (cur b)" using b by (simp add: tidy_def)
  have "b' = with_line ?l (?x + length chunk) b"
    using i x tidy_cursor [OF b] cur_reads [OF tidy_cursor [OF b]] with_line_ok(1) [OF tidy_cursor [OF b], of ?l] tidy_cur(2) [OF b]
      cur_reads(3) [OF text_edit_cursor [OF with_line_ok(2) [OF tidy_cursor [OF b], of ?l ?x]]]
    by (auto simp: insert_str_def cur_x_def with_line_def cur_def cursor_ok_def)
  moreover have "NL \<notin> set ?l" using tidy_cur(1) [OF b] c by (auto dest: in_set_takeD in_set_dropD)
  ultimately show ?thesis using b x by (auto intro: with_line_tidy)
qed

lemma tidy_lines:
  assumes "y < length ls" "x \<le> length (ls ! y)" "\<And>l. l \<in> set ls \<Longrightarrow> NL \<notin> set l"
  shows "tidy (b\<lparr>tb_lines := ls, tb_raw_x := x, tb_cursor_y := y\<rparr>)"
  using assms by (simp add: tidy_def cursor_ok_def cur_def)

lemma tidy_parts:
  assumes "tidy b"
  shows "l \<in> set (take n (tb_lines b)) \<Longrightarrow> NL \<notin> set l" "l \<in> set (drop n (tb_lines b)) \<Longrightarrow> NL \<notin> set l"
    "NL \<notin> set (take n (cur b))" "NL \<notin> set (drop n (cur b))"
  using assms tidy_cur(1) [OF assms] by (auto simp: tidy_def dest: in_set_takeD in_set_dropD)

lemma add_line_inner_tidy:
  assumes b: "tidy b" and a: "add_line_inner b = Some b'"
  shows "tidy b'"
proof -
  let ?y = "tb_cursor_y b" and ?x = "cur_x b"
  let ?ls = "take ?y (tb_lines b) @ take ?x (cur b) # drop ?x (cur b) # drop (Suc ?y) (tb_lines b)"
  have "b' = b\<lparr>tb_lines := ?ls, tb_raw_x := 0, tb_cursor_y := ?y + 1\<rparr>"
    using a cur_reads [OF tidy_cursor [OF b]] by (simp add: add_line_inner_def)
  moreover have "tidy (b\<lparr>tb_lines := ?ls, tb_raw_x := 0, tb_cursor_y := ?y + 1\<rparr>)"
    using tidy_parts [OF b] tidy_cursor [OF b] by (intro tidy_lines) (auto simp: cursor_ok_def)
  ultimately show ?thesis by simp
qed

lemma insert_chunks_tidy:
  "insert_chunks first chunks b = Some b' \<Longrightarrow> tidy b \<Longrightarrow> (\<And>c. c \<in> set chunks \<Longrightarrow> NL \<notin> set c) \<Longrightarrow> tidy b'"
proof (induction chunks arbitrary: first b)
  case (Cons chunk chunks)
  then obtain b1 b2 where
    b1: "(if first then Some b else add_line_inner b) = Some b1" and
    b2: "(if chunk = [] then Some b1 else insert_str chunk b1) = Some b2" and
    b3: "insert_chunks False chunks b2 = Some b'"
    by (auto simp: bind_eq_Some_conv)
  have "tidy b1" using b1 Cons.prems(2) by (auto intro: add_line_inner_tidy split: if_splits)
  then have "tidy b2" using b2 Cons.prems(3) [of chunk] by (auto intro: insert_str_tidy split: if_splits)
  with Cons.IH [OF b3] Cons.prems(3) show ?case by simp
qed simp

lemma insert_text_inner_tidy: "insert_text_inner t b = Some b' \<Longrightarrow> tidy b \<Longrightarrow> tidy b'"
  unfolding insert_text_inner_def by (rule insert_chunks_tidy) (auto dest: split_on_free)

lemma merge_with_next_line_tidy:
  assumes b: "tidy b" and m: "merge_with_next_line b = Some b'"
  shows "tidy b'"
proof (cases "tb_cursor_y b + 1 < length (tb_lines b)")
  case True
  let ?y = "tb_cursor_y b"
  let ?ls = "take ?y (tb_lines b) @ (cur b @ tb_lines b ! Suc ?y) # drop (Suc (Suc ?y)) (tb_lines b)"
  have n: "NL \<notin> set (tb_lines b ! Suc ?y)" using True b by (auto simp: tidy_def)
  have "b' = b\<lparr>tb_lines := ?ls\<rparr>"
    using m True cur_reads [OF tidy_cursor [OF b]] by (simp add: merge_with_next_line_def line_at_def)
  moreover have "tidy (b\<lparr>tb_lines := ?ls, tb_raw_x := tb_raw_x b, tb_cursor_y := ?y\<rparr>)"
    using tidy_parts [OF b] tidy_cursor [OF b] n tidy_cur(1) [OF b] b True
    by (intro tidy_lines) (auto simp: tidy_def nth_append)
  ultimately show ?thesis by simp
qed (use b m in \<open>simp add: merge_with_next_line_def\<close>)

lemma prev_end_tidy:
  "tidy b \<Longrightarrow> 0 < tb_cursor_y b \<Longrightarrow> tidy (b\<lparr>tb_cursor_y := tb_cursor_y b - 1, tb_raw_x := length (tb_lines b ! (tb_cursor_y b - 1))\<rparr>)"
  by (auto simp: tidy_def cursor_ok_def cur_def)

lemma merge_with_previous_line_tidy:
  assumes b: "tidy b" and m: "merge_with_previous_line b = Some b'"
  shows "tidy b'"
proof (cases "tb_cursor_y b = 0")
  case False
  have "merge_with_next_line (b\<lparr>tb_cursor_y := tb_cursor_y b - 1, tb_raw_x := length (tb_lines b ! (tb_cursor_y b - 1))\<rparr>) = Some b'"
    using m False by (simp add: merge_previous_eq [OF tidy_cursor [OF b]])
  with prev_end_tidy [OF b] False show ?thesis by (auto intro: merge_with_next_line_tidy)
qed (use b m in \<open>simp add: merge_with_previous_line_def\<close>)

section \<open>Each operation is its step\<close>

text \<open>Crossing a line boundary.\<close>

lemma prev_line_gap:
  assumes ok: "cursor_ok b" and x: "cur_x b = 0" and y: "0 < tb_cursor_y b"
  defines "b1 \<equiv> b\<lparr>tb_cursor_y := tb_cursor_y b - 1, tb_raw_x := length (tb_lines b ! (tb_cursor_y b - 1))\<rparr>"
  shows "left_of b = left_of b1 @ [NL]" "right_of b1 = NL # right_of b"
proof -
  have "min (tb_raw_x b) (length (tb_lines b ! tb_cursor_y b)) = 0" using x by (simp add: cur_x_def cur_def)
  from previous_line_zipper [OF ok this y] show "left_of b = left_of b1 @ [NL]" "right_of b1 = NL # right_of b"
    by (simp_all add: b1_def)
qed

lemma next_line_gap:
  assumes ok: "cursor_ok b" and x: "cur_x b = length (cur b)" and y: "tb_cursor_y b + 1 < length (tb_lines b)"
  defines "b1 \<equiv> b\<lparr>tb_cursor_y := tb_cursor_y b + 1, tb_raw_x := 0\<rparr>"
  shows "left_of b1 = left_of b @ [NL]" "right_of b = NL # right_of b1"
proof -
  let ?b2 = "b1\<lparr>tb_cursor_y := tb_cursor_y b1 - 1, tb_raw_x := length (tb_lines b1 ! (tb_cursor_y b1 - 1))\<rparr>"
  have "cursor_ok b1" "cur_x b1 = 0" "0 < tb_cursor_y b1" using y by (simp_all add: b1_def cursor_ok_def cur_x_def)
  note p = prev_line_gap [OF this]
  have "left_of ?b2 = left_of b" "right_of ?b2 = right_of b"
    using x by (auto simp: zipper_line) (auto simp: b1_def above_text_def below_text_def cur_def cur_x_def)
  with p show "left_of b1 = left_of b @ [NL]" "right_of b = NL # right_of b1" by simp_all
qed

lemma moved_gap [simp]:
  "left_of (note_move b) = left_of b" "right_of (note_move b) = right_of b"
  "left_of (b\<lparr>tb_selection := s\<rparr>) = left_of b" "right_of (b\<lparr>tb_selection := s\<rparr>) = right_of b"
  "tidy (note_move b) = tidy b" "tidy (b\<lparr>tb_selection := s\<rparr>) = tidy b"
  "cur (note_move b) = cur b" "cur_x (note_move b) = cur_x b"
  by (simp_all add: note_move_def left_of_def right_of_def tidy_def cur_def cur_x_def cursor_ok_def)

definition refines :: "gap_op \<Rightarrow> text_buffer \<Rightarrow> text_buffer option \<Rightarrow> bool" where
  "refines g b r \<longleftrightarrow> (\<exists>b'. r = Some b' \<and> gap_of b' = gap_step g (gap_of b) \<and> tidy b')"

lemma refinesI: "r = Some b' \<Longrightarrow> gap_of b' = gap_step g (gap_of b) \<Longrightarrow> tidy b' \<Longrightarrow> refines g b r"
  by (auto simp: refines_def)

lemma delete_no_selection: "tb_selection b = None \<Longrightarrow> delete_selection (record_edit k b) = Some (record_edit k b)"
  by (simp add: delete_selection_def selection_range_def record_edit_def)

lemma insertions_refine:
  assumes b: "tidy b" "tb_selection b = None"
  shows "c \<noteq> NL \<Longrightarrow> refines (GInsert [c]) b (push_char c b)"
    and "refines (GInsert (replace_tabs t)) b (insert_text t b)"
    and "refines (GInsert [NL]) b (add_line b)"
proof -
  have r: "cursor_ok (record_edit k b)" "tidy (record_edit k b)" for k using b tidy_cursor by simp_all
  show "refines (GInsert [c]) b (push_char c b)" if "c \<noteq> NL"
    using insert_str_ok [OF r(1) [of EInsert], of "[c]"] insert_str_tidy [OF r(2) [of EInsert], of "[c]"] that
    by (auto simp: push_char_def delete_no_selection b(2) gap_of_def intro!: refinesI)
  show "refines (GInsert (replace_tabs t)) b (insert_text t b)"
    using insert_text_inner_ok [OF r(1) [of EInsert], of t] insert_text_inner_tidy [OF _ r(2) [of EInsert], of t]
    by (auto simp: insert_text_def delete_no_selection b(2) gap_of_def intro!: refinesI)
  show "refines (GInsert [NL]) b (add_line b)"
    using add_line_inner_ok [OF r(1) [of EOther]] add_line_inner_tidy [OF r(2) [of EOther]]
    by (auto simp: add_line_def delete_no_selection b(2) gap_of_def intro!: refinesI)
qed

lemma backspace_refines:
  assumes b: "tidy b" "tb_selection b = None"
  shows "refines GBackspace b (remove_char b)"
proof -
  note c = tidy_cursor [OF b(1)] and eq = remove_char_eq [OF tidy_cursor [OF b(1)] has_selection_None [OF b(2)]]
  let ?e = "record_edit ERemove b"
  consider "cur_x b = 0" "tb_cursor_y b = 0" | "cur_x b = 0" "0 < tb_cursor_y b" | "0 < cur_x b" by linarith
  then show ?thesis
  proof cases
    case 1
    with eq b show ?thesis by (intro refinesI [of _ b]) (simp_all add: gap_of_def zipper_line above_text_def)
  next
    case 2
    obtain b' where b': "merge_with_previous_line ?e = Some b'" "left_of ?e = left_of b' @ [NL]" "right_of b' = right_of ?e"
      using merge_with_previous_line_ok [of ?e] 2 c by (auto simp: cur_x_def cur_def)
    with 2 eq b show ?thesis
      by (intro refinesI [of _ b']) (auto simp: gap_of_def intro: merge_with_previous_line_tidy [of ?e])
  next
    case 3
    let ?l = "take (cur_x b - 1) (cur b) @ drop (cur_x b) (cur b)"
    have "take (cur_x b) (cur b) \<noteq> []" "butlast (take (cur_x b) (cur b)) = take (cur_x b - 1) (cur b)"
      using 3 cur_x_le [of b] by (auto simp: butlast_take)
    moreover have "tidy (with_line ?l (cur_x b - 1) ?e)"
      using b tidy_parts(3,4) [OF b(1)] 3 cur_x_le [of b] by (intro with_line_tidy) auto
    ultimately show ?thesis
      using 3 eq cur_x_le [of b] with_line_ok(3,4) [of ?e ?l "cur_x b - 1"] c
      by (intro refinesI [of _ "with_line ?l (cur_x b - 1) ?e"]) (simp_all add: gap_of_def zipper_line butlast_append min_absorb1)
  qed
qed

lemma delete_refines:
  assumes b: "tidy b" "tb_selection b = None"
  shows "refines GDelete b (delete_char b)"
proof -
  note c = tidy_cursor [OF b(1)] and eq = delete_char_eq [OF tidy_cursor [OF b(1)] has_selection_None [OF b(2)]]
  let ?e = "record_edit ERemove b"
  have y: "tb_cursor_y b < length (tb_lines b)" using c by (simp add: cursor_ok_def)
  consider "cur_x b = length (cur b)" "tb_cursor_y b + 1 = length (tb_lines b)"
    | "cur_x b = length (cur b)" "tb_cursor_y b + 1 < length (tb_lines b)" | "cur_x b < length (cur b)"
    using cur_x_le [of b] y by linarith
  then show ?thesis
  proof cases
    case 1
    with eq b show ?thesis by (intro refinesI [of _ b]) (simp_all add: gap_of_def zipper_line below_text_def)
  next
    case 2
    have "tb_raw_x b = length (cur b)" using 2 tidy_cur(2) [OF b(1)] by simp
    then obtain b' where b': "merge_with_next_line ?e = Some b'" "left_of b' = left_of ?e" "right_of ?e = NL # right_of b'"
      using merge_with_next_line_ok [of ?e] 2 c by (auto simp: cur_def)
    with 2 eq b show ?thesis
      by (intro refinesI [of _ b']) (auto simp: gap_of_def intro: merge_with_next_line_tidy [of ?e])
  next
    case 3
    let ?l = "take (cur_x b) (cur b) @ drop (Suc (cur_x b)) (cur b)"
    have "drop (cur_x b) (cur b) = cur b ! cur_x b # drop (Suc (cur_x b)) (cur b)" using 3 by (simp add: Cons_nth_drop_Suc)
    moreover have "tidy (with_line ?l (cur_x b) ?e)"
      using b tidy_parts(3,4) [OF b(1)] 3 by (intro with_line_tidy) auto
    ultimately show ?thesis
      using 3 eq with_line_ok(3,4) [of ?e ?l "cur_x b"] c tidy_cur(2) [OF b(1)]
      by (intro refinesI [of _ "with_line ?l (cur_x b) ?e"]) (simp_all add: gap_of_def zipper_line)
  qed
qed

lemma move_step: "move_cursor False step b = step (note_move (b\<lparr>tb_selection := None\<rparr>))"
  by (simp add: move_cursor_def)

lemma gap_at:
  assumes "cursor_ok b"
  shows "gap_of (b\<lparr>tb_raw_x := x\<rparr>) = (above_text b @ take x (cur b), drop x (cur b) @ below_text b)"
  using assms by (simp add: gap_of_def left_of_def right_of_def left_at_def right_at_def above_text_def below_text_def cur_def)

lemma tidy_at: "tidy b \<Longrightarrow> x \<le> length (cur b) \<Longrightarrow> tidy (b\<lparr>tb_raw_x := x\<rparr>)"
  by (simp add: tidy_def cursor_ok_def cur_def)

lemma step_left_refines:
  assumes b: "tidy b" shows "refines GLeft b (step_left b)"
proof -
  note c = tidy_cursor [OF b] and reads = cur_reads [OF tidy_cursor [OF b]]
  let ?p = "b\<lparr>tb_cursor_y := tb_cursor_y b - 1, tb_raw_x := length (tb_lines b ! (tb_cursor_y b - 1))\<rparr>"
  consider "cur_x b = 0" "tb_cursor_y b = 0" | "cur_x b = 0" "0 < tb_cursor_y b" | "0 < cur_x b" by linarith
  then show ?thesis
  proof cases
    case 1
    then show ?thesis using b reads
      by (intro refinesI [of _ b]) (simp_all add: step_left_def wrap_to_prev_line_def gap_of_def zipper_line above_text_def)
  next
    case 2
    have "step_left b = Some ?p"
      using 2 reads c by (simp add: step_left_def wrap_to_prev_line_def Let_def current_line_len_def current_line_def line_at_def
          cursor_ok_def less_imp_diff_less)
    then show ?thesis using prev_line_gap [OF c 2] prev_end_tidy [OF b 2(2)] by (intro refinesI [of _ ?p]) (simp_all add: gap_of_def)
  next
    case 3
    then obtain i where i: "cur_x b = Suc i" by (cases "cur_x b") auto
    have "take (Suc i) (cur b) = take i (cur b) @ [cur b ! i]" "drop i (cur b) = cur b ! i # drop (Suc i) (cur b)"
      using i cur_x_le [of b] by (simp_all add: take_Suc_conv_app_nth Cons_nth_drop_Suc)
    with i b reads tidy_at [OF b, of i] cur_x_le [of b] show ?thesis
      by (intro refinesI [of _ "b\<lparr>tb_raw_x := i\<rparr>"]) (simp_all add: step_left_def gap_at [OF c], simp add: gap_of_def zipper_line butlast_append)
  qed
qed

lemma step_right_refines:
  assumes b: "tidy b" shows "refines GRight b (step_right b)"
proof -
  note c = tidy_cursor [OF b] and reads = cur_reads [OF tidy_cursor [OF b]]
  let ?n = "b\<lparr>tb_cursor_y := tb_cursor_y b + 1, tb_raw_x := 0\<rparr>"
  consider "cur_x b = length (cur b)" "tb_cursor_y b + 1 = length (tb_lines b)"
    | "cur_x b = length (cur b)" "tb_cursor_y b + 1 < length (tb_lines b)" | "cur_x b < length (cur b)"
    using cur_x_le [of b] c by (fastforce simp: cursor_ok_def)
  then show ?thesis
  proof cases
    case 1
    then have "right_of b = []" "\<not> tb_cursor_y b < length (tb_lines b) - 1" by (simp_all add: zipper_line below_text_def)
    with 1 b reads show ?thesis
      by (intro refinesI [of _ b]) (simp_all add: step_right_def wrap_to_next_line_def gap_of_def)
  next
    case 2
    then have "step_right b = Some ?n" using reads by (simp add: step_right_def wrap_to_next_line_def less_diff_conv)
    moreover have "tidy ?n" using b 2 by (auto simp: tidy_def cursor_ok_def)
    ultimately show ?thesis using next_line_gap [OF c 2] by (intro refinesI [of _ ?n]) (simp_all add: gap_of_def)
  next
    case 3
    then have "take (Suc (cur_x b)) (cur b) = take (cur_x b) (cur b) @ [cur b ! cur_x b]"
      "drop (cur_x b) (cur b) = cur b ! cur_x b # drop (Suc (cur_x b)) (cur b)"
      by (simp_all add: take_Suc_conv_app_nth Cons_nth_drop_Suc)
    with 3 b reads tidy_at [OF b, of "Suc (cur_x b)"] show ?thesis
      by (intro refinesI [of _ "b\<lparr>tb_raw_x := Suc (cur_x b)\<rparr>"]) (simp_all add: step_right_def gap_at [OF c], simp add: gap_of_def zipper_line)
  qed
qed

lemma above_cases: "above_text b = [] \<or> (\<exists>t. above_text b = t @ [NL])"
proof (cases "take (tb_cursor_y b) (tb_lines b)" rule: rev_cases)
  case (snoc ls l)
  then show ?thesis by (auto simp: above_text_def)
qed (simp add: above_text_def)

lemma below_cases: "below_text b = [] \<or> (\<exists>t. below_text b = NL # t)"
  by (cases "drop (Suc (tb_cursor_y b)) (tb_lines b)") (auto simp: below_text_def)

lemma while_free:
  "NL \<notin> set l \<Longrightarrow> takeWhile (\<lambda>c. c \<noteq> NL) (l @ r) = l @ takeWhile (\<lambda>c. c \<noteq> NL) r"
  "NL \<notin> set l \<Longrightarrow> dropWhile (\<lambda>c. c \<noteq> NL) (l @ r) = dropWhile (\<lambda>c. c \<noteq> NL) r"
  by (induction l) auto

lemma line_ends:
  assumes "NL \<notin> set l"
  shows "before_line (above_text b @ l) = above_text b" "line_start (above_text b @ l) = l"
    "takeWhile (\<lambda>c. c \<noteq> NL) (l @ below_text b) = l" "dropWhile (\<lambda>c. c \<noteq> NL) (l @ below_text b) = below_text b"
proof -
  have p: "NL \<notin> set (rev l)" using assms by simp
  show "before_line (above_text b @ l) = above_text b" "line_start (above_text b @ l) = l"
    using above_cases [of b] while_free [OF p] by (auto simp: before_line_def line_start_def)
  show "takeWhile (\<lambda>c. c \<noteq> NL) (l @ below_text b) = l" "dropWhile (\<lambda>c. c \<noteq> NL) (l @ below_text b) = below_text b"
    using below_cases [of b] while_free [OF assms] by auto
qed

lemma step_home_end_refine:
  assumes b: "tidy b" shows "refines GHome b (step_home b)" "refines GEnd b (step_end b)"
proof -
  note c = tidy_cursor [OF b]
  show "refines GHome b (step_home b)"
    using tidy_at [OF b, of 0] line_ends [OF tidy_parts(3) [OF b, of "cur_x b"], of b]
    by (intro refinesI [of _ "b\<lparr>tb_raw_x := 0\<rparr>"]) (simp_all add: step_home_def gap_at [OF c], simp add: gap_of_def zipper_line)
  show "refines GEnd b (step_end b)"
    using tidy_at [OF b, of "length (cur b)"] line_ends(3,4) [OF tidy_parts(4) [OF b, of "cur_x b"], of b] cur_reads [OF c]
    by (intro refinesI [of _ "b\<lparr>tb_raw_x := length (cur b)\<rparr>"]) (simp_all add: step_end_def gap_at [OF c], simp add: gap_of_def zipper_line)
qed

lemma refines_moved: "refines g (note_move (b\<lparr>tb_selection := None\<rparr>)) r \<Longrightarrow> refines g b r"
  by (simp add: refines_def gap_of_def)

lemma run_plain_refines:
  assumes "tidy b" "tb_selection b = None" "op \<noteq> PChar NL"
  shows "refines (spec_of op) b (run_plain op b)"
  using assms insertions_refine [OF assms(1,2)] backspace_refines [OF assms(1,2)] delete_refines [OF assms(1,2)]
  by (cases op) (simp_all add: move_step refines_moved step_left_refines step_right_refines step_home_end_refine)

lemma run_plain_safe: "buf_ok b \<Longrightarrow> anchor_ok b \<Longrightarrow> safe b (run_plain op b)"
proof -
  assume b: "buf_ok b" "anchor_ok b"
  have mv: "safe b (move_cursor False (step_of m) b)" for m
    using move_cursor_ok [OF b(1), of False m] by (auto intro: safeI)
  show ?thesis
    using b mv [of MLeft] mv [of MRight] mv [of MHome] mv [of MEnd]
    by (cases op) (simp_all add: push_char_safe insert_text_safe add_line_safe remove_char_safe delete_char_safe)
qed

lemma run_plains_refine:
  "tidy b \<Longrightarrow> session_ok b \<Longrightarrow> PChar NL \<notin> set ops \<Longrightarrow>
     \<exists>b'. run_plains ops b = Some b' \<and> gap_of b' = fold gap_step (map spec_of ops) (gap_of b) \<and> tidy b' \<and> session_ok b'"
proof (induction ops arbitrary: b)
  case (Cons op ops)
  obtain b1 where "run_plain op b = Some b1" "gap_of b1 = gap_step (spec_of op) (gap_of b)" "tidy b1" "session_ok b1"
    using run_plain_refines [of b op] run_plain_safe [of b op] Cons.prems by (auto simp: refines_def session_ok_def safe_def)
  with Cons.IH [of b1] Cons.prems(3) show ?case by auto
qed simp

lemma new_buffer_gap: "tidy (new_buffer t)" "gap_of (new_buffer t) = ([], t)"
proof -
  show "tidy (new_buffer t)" by (auto simp: tidy_def new_buffer_def cursor_ok_def dest: split_on_free)
  have "value_of (new_buffer t) = t" by (simp add: value_of_def new_buffer_def join_split_on)
  with value_zipper [of "new_buffer t"] show "gap_of (new_buffer t) = ([], t)"
    by (simp add: gap_of_def new_buffer_def left_of_def left_at_def)
qed

end
