(* ===== verification/Text_Guarantees.thy ===== *)
theory Text_Guarantees
  imports Text_Gap
begin

text \<open>
  What an editing session of \<open>crates/n00n-ui/src/text_buffer.rs\<close> guarantees: no panic, the refinement of
  a text with a gap, undo and redo, the kill ring, and the two places where the code falls short.
\<close>

section \<open>Undo groups\<close>

fun type_chars :: "line \<Rightarrow> text_buffer \<Rightarrow> text_buffer option" where
  "type_chars [] b = Some b"
| "type_chars (c # cs) b = do { b' \<leftarrow> push_char c b; type_chars cs b' }"

lemma push_char_no_selection:
  assumes "cursor_ok b" "tb_selection b = None"
  shows "\<exists>b'. push_char c b = Some b' \<and> text_edit (record_edit EInsert b) b' \<and> left_of b' = left_of b @ [c] \<and> right_of b' = right_of b"
  using insert_str_ok [of "record_edit EInsert b" "[c]"] assms by (simp add: push_char_def delete_no_selection)

lemma type_chars_group:
  "cursor_ok b \<Longrightarrow> tb_selection b = None \<Longrightarrow> tb_last_edit b = Some EInsert \<Longrightarrow>
     \<exists>b'. type_chars cs b = Some b' \<and> text_edit b b' \<and> left_of b' = left_of b @ cs \<and> right_of b' = right_of b"
proof (induction cs arbitrary: b)
  case (Cons c cs)
  have "record_edit EInsert b = b" using Cons.prems(3) by (simp add: record_edit_def)
  then obtain b1 where b1: "push_char c b = Some b1" "text_edit b b1" "left_of b1 = left_of b @ [c]" "right_of b1 = right_of b"
    using push_char_no_selection [OF Cons.prems(1,2)] by auto
  then obtain b2 where "type_chars cs b1 = Some b2" "text_edit b1 b2" "left_of b2 = left_of b1 @ cs" "right_of b2 = right_of b1"
    using Cons.IH [of b1] Cons.prems by (auto simp: text_edit_def)
  with b1 text_edit_trans show ?case by auto
qed (simp add: text_edit_refl)

lemma undo_of_group:
  assumes "k = EOther \<or> tb_last_edit b \<noteq> Some k" "text_edit (record_edit k b) b'"
  shows "\<exists>b''. undo b' = (True, b'') \<and> take_snapshot b'' = take_snapshot b \<and> tb_redo b'' = [take_snapshot b']
    \<and> tb_selection b'' = None \<and> (\<exists>b3. redo b'' = (True, b3) \<and> take_snapshot b3 = take_snapshot b')"
proof -
  have "tb_undo b' = push_limited UNDO_LIMIT (take_snapshot b) (tb_undo b)" "tb_redo b' = []"
    using assms by (auto simp: record_edit_def text_edit_def)
  moreover have "push_limited UNDO_LIMIT (take_snapshot b) (tb_undo b) \<noteq> []" "last (push_limited UNDO_LIMIT (take_snapshot b) (tb_undo b)) = take_snapshot b"
    using push_limited_last [of UNDO_LIMIT "take_snapshot b" "tb_undo b"] by (simp_all add: UNDO_LIMIT_def)
  ultimately show ?thesis by (simp add: undo_def redo_def restore_def) (simp add: take_snapshot_def)
qed

section \<open>Kills and yanks\<close>

lemma yank_inserts:
  assumes "buf_ok b" "tb_selection b = None" "tb_kill_ring b \<noteq> []"
  shows "\<exists>b'. yank b = Some (True, b') \<and> left_of b' = left_of b @ replace_tabs (last (tb_kill_ring b)) \<and> right_of b' = right_of b"
proof -
  have "cursor_ok (record_edit EOther b)" using assms(1) by (simp add: buf_ok_cursor)
  from insert_text_inner_ok [OF this, of "last (tb_kill_ring b)"] obtain b' where b':
    "insert_text_inner (last (tb_kill_ring b)) (record_edit EOther b) = Some b'" "text_edit (record_edit EOther b) b'"
    "left_of b' = left_of b @ replace_tabs (last (tb_kill_ring b))" "right_of b' = right_of b" by auto
  let ?sp = "Some \<lparr>ys_y = tb_cursor_y b, ys_x = cur_x b, ys_end_y = tb_cursor_y b', ys_end_x = cur_x b',
               ys_ring_pos = length (tb_kill_ring b') - 1\<rparr>"
  have "yank b = Some (True, b'\<lparr>tb_yank := ?sp\<rparr>)"
    using assms b' by (simp add: yank_def delete_no_selection cur_reads [OF buf_ok_cursor] cur_reads [OF text_edit_cursor])
  moreover have "left_of (b'\<lparr>tb_yank := ?sp\<rparr>) = left_of b'" "right_of (b'\<lparr>tb_yank := ?sp\<rparr>) = right_of b'"
    by (simp_all add: left_of_def right_of_def)
  ultimately show ?thesis using b' by simp
qed

lemma replace_tabs_none: "TAB \<notin> set t \<Longrightarrow> replace_tabs t = t"
  by (induction t) (auto simp: replace_tabs_def)

lemma push_kill_last: "t \<noteq> [] \<Longrightarrow> tb_kill_ring (push_kill t b) \<noteq> [] \<and> last (tb_kill_ring (push_kill t b)) = t"
  using push_limited_last [of KILL_RING_LIMIT t "tb_kill_ring b"] by (simp add: push_kill_def KILL_RING_LIMIT_def)

lemma push_kill_gap [simp]: "left_of (push_kill t b) = left_of b" "right_of (push_kill t b) = right_of b"
  by (simp_all add: left_of_def right_of_def)

lemma value_gap: "buf_ok b \<Longrightarrow> value_of b = left_of b @ right_of b"
  by (simp add: value_zipper buf_ok_def cursor_ok_def)

text \<open>An insertion leaves the text before the place where it started.\<close>

definition keeps_before :: "line list \<Rightarrow> nat \<Rightarrow> nat \<Rightarrow> text_buffer \<Rightarrow> bool" where
  "keeps_before ls y x b \<longleftrightarrow> cursor_ok b \<and> y \<le> tb_cursor_y b \<and> (y = tb_cursor_y b \<longrightarrow> x \<le> tb_raw_x b)
     \<and> take y (tb_lines b) = take y ls \<and> take x (tb_lines b ! y) = take x (ls ! y) \<and> x \<le> length (tb_lines b ! y)"

lemma insert_str_keeps:
  assumes k: "keeps_before ls y x b" and i: "insert_str chunk b = Some b'"
  shows "keeps_before ls y x b'"
proof -
  let ?l = "take (tb_raw_x b) (cur b) @ chunk @ drop (tb_raw_x b) (cur b)"
  have c: "cursor_ok b" "tb_cursor_y b < length (tb_lines b)" using k by (simp_all add: keeps_before_def cursor_ok_def)
  have b': "b' = with_line ?l (min (tb_raw_x b) (length ?l) + length chunk) b"
    using i c by (simp add: insert_str_def cursor_reads [OF c(1)] cur_def [symmetric] set_line_def x_of_def current_line_len_def
        current_line_def line_at_def with_line_def)
  show ?thesis
  proof (cases "y = tb_cursor_y b")
    case True
    have "x \<le> tb_raw_x b" "x \<le> length (cur b)" "take x (cur b) = take x (ls ! y)" "take y (tb_lines b) = take y ls"
      using k True by (simp_all add: keeps_before_def cur_def)
    then show ?thesis using True c unfolding b'
      by (simp add: keeps_before_def with_line_def cursor_ok_def min_absorb1 min_def)
  next
    case False
    then show ?thesis using k unfolding b' by (simp add: keeps_before_def with_line_def cursor_ok_def)
  qed
qed

lemma add_line_inner_keeps:
  assumes k: "keeps_before ls y x b" and a: "add_line_inner b = Some b'"
  shows "keeps_before ls y x b'"
proof -
  have c: "cursor_ok b" "tb_cursor_y b < length (tb_lines b)" using k by (simp_all add: keeps_before_def cursor_ok_def)
  let ?ls = "take (tb_cursor_y b) (tb_lines b) @ take (tb_raw_x b) (cur b) # drop (tb_raw_x b) (cur b) # drop (Suc (tb_cursor_y b)) (tb_lines b)"
  have b': "b' = b\<lparr>tb_lines := ?ls, tb_raw_x := 0, tb_cursor_y := tb_cursor_y b + 1\<rparr>"
    using a by (simp add: add_line_inner_def cursor_reads [OF c(1)] cur_def)
  define L where "L = ?ls"
  have "y \<le> tb_cursor_y b" using k by (simp add: keeps_before_def)
  then have "take y L = take y (tb_lines b)" "y < tb_cursor_y b \<Longrightarrow> L ! y = tb_lines b ! y"
    "y = tb_cursor_y b \<Longrightarrow> L ! y = take (tb_raw_x b) (cur b)"
    using c by (simp_all add: L_def nth_append min_absorb1)
  moreover have "cursor_ok b'" using add_line_inner_ok [OF c(1)] a by (auto simp: text_edit_def)
  ultimately show ?thesis using k unfolding b' L_def [symmetric]
    by (cases "y = tb_cursor_y b") (auto simp: keeps_before_def cur_def min_absorb1)
qed

lemma insert_chunks_keeps:
  "insert_chunks first chunks b = Some b' \<Longrightarrow> keeps_before ls y x b \<Longrightarrow> keeps_before ls y x b'"
proof (induction chunks arbitrary: first b)
  case (Cons chunk chunks)
  then obtain b1 b2 where
    b1: "(if first then Some b else add_line_inner b) = Some b1" and
    b2: "(if chunk = [] then Some b1 else insert_str chunk b1) = Some b2" and
    b3: "insert_chunks False chunks b2 = Some b'"
    by (auto simp: bind_eq_Some_conv)
  have "keeps_before ls y x b1" using b1 Cons.prems(2) by (auto intro: add_line_inner_keeps split: if_splits)
  then have "keeps_before ls y x b2" using b2 by (auto intro: insert_str_keeps split: if_splits)
  with Cons.IH [OF b3] show ?case by simp
qed simp

lemma insert_text_inner_keeps:
  assumes "cursor_ok b" "insert_text_inner t b = Some b'"
  shows "left_at (tb_lines b') (tb_cursor_y b) (cur_x b) = left_of b" "cur_x b \<le> length (tb_lines b' ! tb_cursor_y b)"
    "tb_cursor_y b \<le> tb_cursor_y b'"
proof -
  have "keeps_before (tb_lines b) (tb_cursor_y b) (cur_x b) b"
    using assms(1) by (simp add: keeps_before_def cur_x_def cur_def)
  from insert_chunks_keeps [OF assms(2) [unfolded insert_text_inner_def] this]
  show "left_at (tb_lines b') (tb_cursor_y b) (cur_x b) = left_of b" "cur_x b \<le> length (tb_lines b' ! tb_cursor_y b)"
    "tb_cursor_y b \<le> tb_cursor_y b'"
    by (auto simp: keeps_before_def left_at_def left_of_def cur_x_def cur_def min_def)
qed

lemma yank_pop_after_yank:
  assumes b: "buf_ok b" "tb_selection b = None" and ring: "2 \<le> length (tb_kill_ring b)"
  shows "\<exists>b1 b2. yank b = Some (True, b1) \<and> yank_pop b1 = Some (True, b2) \<and> right_of b2 = right_of b
    \<and> left_of b2 = left_of b @ replace_tabs (tb_kill_ring b ! (length (tb_kill_ring b) - 2))"
proof -
  let ?e = "record_edit EOther b" and ?n = "length (tb_kill_ring b)"
  have c: "cursor_ok ?e" using b by (simp add: buf_ok_cursor)
  from insert_text_inner_ok [OF this, of "last (tb_kill_ring b)"] obtain b1 where b1:
    "insert_text_inner (last (tb_kill_ring b)) ?e = Some b1" "text_edit ?e b1" "right_of b1 = right_of b" by auto
  let ?sp = "\<lparr>ys_y = tb_cursor_y b, ys_x = cur_x b, ys_end_y = tb_cursor_y b1, ys_end_x = cur_x b1, ys_ring_pos = ?n - 1\<rparr>"
  let ?b1 = "b1\<lparr>tb_yank := Some ?sp\<rparr>"
  let ?e1 = "record_edit EOther ?b1"
  have r1: "tb_kill_ring b1 = tb_kill_ring b" using b1(2) by (simp add: text_edit_def)
  have y: "yank b = Some (True, ?b1)"
    using b ring b1 r1 by (auto simp: yank_def delete_no_selection cur_reads [OF buf_ok_cursor] cur_reads [OF text_edit_cursor])
  note k = insert_text_inner_keeps [OF c b1(1), simplified]
  have l1: "tb_cursor_y b1 < length (tb_lines b1)" using b1(2) by (simp add: text_edit_def cursor_ok_def)
  obtain b2 where b2: "remove_span (tb_cursor_y b) (cur_x b) (tb_cursor_y b1) (cur_x b1) ?e1 = Some b2" "text_edit ?e1 b2"
    "left_of b2 = left_of b" "right_of b2 = right_at (tb_lines b1) (tb_cursor_y b1) (cur_x b1)"
    using remove_span_ok [of "tb_cursor_y b" "tb_cursor_y b1" ?e1 "cur_x b" "cur_x b1"] k l1 by auto
  have "right_at (tb_lines b1) (tb_cursor_y b1) (cur_x b1) = right_of b1"
    by (simp add: right_of_def right_at_def cur_x_def cur_def min_def)
  note b2' = b2(3) b2(4) [unfolded this]
  have at: "tb_cursor_y b2 = tb_cursor_y b" "tb_raw_x b2 = cur_x b"
    using b2(1) by (auto simp: remove_span_def bind_eq_Some_conv split: if_splits)
  let ?b2 = "b2\<lparr>tb_cursor_y := tb_cursor_y b, tb_raw_x := cur_x b\<rparr>"
  have "?b2 = b2" using at by simp
  have pos: "(?n - 1 + ?n - 1) mod ?n = ?n - 2"
  proof -
    have eq: "?n - 1 + ?n - 1 = ?n - 2 + ?n" and lt: "?n - 2 < ?n" using ring by simp_all
    show ?thesis unfolding eq mod_add_self2 by (rule mod_less [OF lt])
  qed
  have r2: "tb_kill_ring b2 = tb_kill_ring b" using b2(2) r1 by (simp add: text_edit_def)
  obtain b3 where b3: "insert_text_inner (tb_kill_ring b ! (?n - 2)) b2 = Some b3" "text_edit b2 b3"
    "left_of b3 = left_of b @ replace_tabs (tb_kill_ring b ! (?n - 2))" "right_of b3 = right_of b"
    using insert_text_inner_ok [OF text_edit_cursor [OF b2(2)]] b2' b1(3) by auto
  let ?b3 = "b3\<lparr>tb_yank := Some (?sp\<lparr>ys_end_y := tb_cursor_y b3, ys_end_x := cur_x b3, ys_ring_pos := ?n - 2\<rparr>)\<rparr>"
  have "yank_pop ?b1 = Some (True, ?b3)"
    using ring r1 r2 b2(1) pos b3 \<open>?b2 = b2\<close> by (simp add: yank_pop_def Let_def cur_reads [OF text_edit_cursor])
  moreover have "left_of ?b3 = left_of b3" "right_of ?b3 = right_of b3" by (simp_all add: left_of_def right_of_def)
  ultimately show ?thesis using y b3 by auto
qed

section \<open>Selected text\<close>

lemma concat_shift: "NL # concat (map (\<lambda>l. l @ [NL]) ls) = concat (map (\<lambda>l. NL # l) ls) @ [NL]"
  by (induction ls) auto

lemma left_at_lines:
  assumes "sy < ey" "ey < length ls"
  shows "left_at ls ey ex = left_at ls sy sx @ drop sx (ls ! sy)
    @ concat (map (\<lambda>l. NL # l) (take (ey - Suc sy) (drop (Suc sy) ls))) @ NL # take ex (ls ! ey)"
proof -
  let ?mid = "take (ey - Suc sy) (drop (Suc sy) ls)"
  have "take ey ls = take (Suc sy) ls @ ?mid" using assms by (metis Suc_leI le_add_diff_inverse take_add)
  also have "take (Suc sy) ls = take sy ls @ [ls ! sy]" using assms by (simp add: take_Suc_conv_app_nth)
  finally have "concat (map (\<lambda>l. l @ [NL]) (take ey ls)) =
      concat (map (\<lambda>l. l @ [NL]) (take sy ls)) @ ls ! sy @ concat (map (\<lambda>l. NL # l) ?mid) @ [NL]"
    using concat_shift [of ?mid] by simp
  moreover have "ls ! sy = take sx (ls ! sy) @ drop sx (ls ! sy)" by simp
  ultimately show ?thesis unfolding left_at_def by (metis append.assoc append_Cons append_Nil)
qed

lemma selected_text_range:
  assumes b: "cursor_ok b" "anchor_ok b" and sel: "selected_text b = Some (Some s)"
  obtains sy sx ey ex where "selection_range b = Some (Some ((sy, sx), (ey, ex)))" "sy \<le> ey" "ey < length (tb_lines b)"
    "sx \<le> length (tb_lines b ! sy)" "value_of b = left_at (tb_lines b) sy sx @ s @ right_at (tb_lines b) ey ex"
  using b
proof (cases rule: selection_range_cases)
  case none
  then show thesis using sel by (simp add: selected_text_def)
next
  case (range sy sx ey ex)
  let ?ls = "tb_lines b"
  have "left_at ?ls ey ex = left_at ?ls sy sx @ s"
  proof (cases "sy = ey")
    case True
    have "take ex (?ls ! ey) = take sx (?ls ! ey) @ take (ex - sx) (drop sx (?ls ! ey))"
      using range(5) True by (metis le_add_diff_inverse take_add)
    with True range sel show ?thesis by (auto simp: selected_text_def line_at_def left_at_def)
  next
    case False
    with range sel show ?thesis using left_at_lines [of sy ey ?ls ex sx] by (auto simp: selected_text_def line_at_def)
  qed
  with join_lines_split [OF range(4), of ex] range show thesis by (intro that) (simp_all add: value_of_def)
qed

lemma delete_selection_gap:
  assumes b: "buf_ok b" "anchor_ok b" and sel: "selected_text b = Some (Some s)"
  shows "\<exists>b1. delete_selection (record_edit k b) = Some b1 \<and> cursor_ok b1 \<and> value_of b = left_of b1 @ s @ right_of b1"
proof -
  obtain sy sx ey ex where r: "selection_range b = Some (Some ((sy, sx), (ey, ex)))" "sy \<le> ey" "ey < length (tb_lines b)"
    "sx \<le> length (tb_lines b ! sy)" "value_of b = left_at (tb_lines b) sy sx @ s @ right_at (tb_lines b) ey ex"
    using selected_text_range [OF buf_ok_cursor [OF b(1)] b(2) sel] by metis
  obtain b1 where "remove_span sy sx ey ex (record_edit k b) = Some b1" "text_edit (record_edit k b) b1"
    "left_of b1 = left_at (tb_lines b) sy sx" "right_of b1 = right_at (tb_lines b) ey ex"
    using remove_span_ok [of sy ey "record_edit k b" sx ex] r by auto
  with r show ?thesis
    by (intro exI [of _ "b1\<lparr>tb_selection := None\<rparr>"]) (simp add: delete_selection_def text_edit_def cursor_ok_def)
qed

fun run_selects :: "motion list \<Rightarrow> text_buffer \<Rightarrow> text_buffer option" where
  "run_selects [] b = Some b"
| "run_selects (m # ms) b = do { b' \<leftarrow> move_cursor True (step_of m) b; run_selects ms b' }"

lemma run_selects_ok:
  "buf_ok b \<Longrightarrow> anchor_ok b \<Longrightarrow> \<exists>b'. run_selects ms b = Some b' \<and> buf_ok b' \<and> anchor_ok b' \<and> value_of b' = value_of b"
proof (induction ms arbitrary: b)
  case (Cons m ms)
  obtain b1 where b1: "move_cursor True (step_of m) b = Some b1" "edit_ok b1" "tb_lines b1 = tb_lines b"
    "tb_selection b1 = Some (anchor_of b)"
    using move_cursor_ok [OF Cons.prems(1), of True m] by auto
  have "anchor_ok b1" using anchor_of_ok [OF buf_ok_cursor [OF Cons.prems(1)] Cons.prems(2)] b1 by (auto simp: anchor_ok_def)
  from Cons.IH [OF edit_ok_buf_ok [OF b1(2)] this] b1 show ?case by (auto simp: value_of_def)
qed simp

text \<open>What evaluates the operations on a concrete buffer.\<close>

lemmas buffer_eval = new_buffer_def NL_def TAB_def move_cursor_def step_up_def step_down_def step_home_def step_end_def x_of_def
  current_line_len_def current_line_def line_at_def note_move_def remove_char_def delete_char_def has_selection_def selection_range_def
  record_edit_def push_limited_def take_snapshot_def UNDO_LIMIT_def merge_with_previous_line_def merge_with_next_line_def
  push_char_def delete_selection_def le_pos_def remove_span_def Let_def
  step_left_def step_right_def wrap_to_prev_line_def wrap_to_next_line_def selected_text_def char_to_byte_def byte_len_def utf8_len_def
  slice3_def kill_to_end_of_line_def kill_selection_def byte_x_def set_line_def push_kill_def KILL_RING_LIMIT_def cur_def cur_x_def
  value_of_def replace_tabs_def TAB_SPACES_def left_of_def right_of_def left_at_def right_at_def below_text_def above_text_def

section \<open>Guarantees\<close>


text \<open>After any session, extending a selection with any shift motions keeps the text, and any one
operation after them returns a buffer whose cursor is on a line.\<close>

lemma selecting_then_editing_is_safe:
  "\<exists>b b1 b2. run_ops ops (new_buffer t) = Some b \<and> run_selects ms b = Some b1 \<and> value_of b1 = value_of b
     \<and> run_op op b1 = Some b2 \<and> tb_cursor_y b2 < length (tb_lines b2)"
proof -
  obtain b where b: "run_ops ops (new_buffer t) = Some b" "session_ok b"
    using run_ops_total session.inv_initial by blast
  then obtain b1 where b1: "run_selects ms b = Some b1" "buf_ok b1" "anchor_ok b1" "value_of b1 = value_of b"
    using run_selects_ok [of b ms] by (auto simp: session_ok_def)
  from run_op_safe [OF b1(2,3), of op] b b1 show ?thesis by (auto simp: safe_def buf_ok_def cursor_ok_def)
qed

text \<open>Typing a character over a selection replaces exactly the selected text: the old text is what
stands left of the new cursor without the character, the selected text and what stands right of it.\<close>

lemma typing_replaces_selection:
  assumes "run_ops ops (new_buffer t) = Some b" "run_selects ms b = Some b1" "selected_text b1 = Some (Some s)"
  shows "\<exists>b2 l r. push_char c b1 = Some b2 \<and> value_of b = l @ s @ r \<and> value_of b2 = l @ c # r \<and> gap_of b2 = (l @ [c], r)"
proof -
  have b: "buf_ok b1" "anchor_ok b1" "value_of b1 = value_of b"
    using run_selects_ok [of b ms] session_reachable [OF assms(1)] assms(2) by (auto simp: session_ok_def)
  obtain d where d: "delete_selection (record_edit EInsert b1) = Some d" "cursor_ok d" "value_of b1 = left_of d @ s @ right_of d"
    using delete_selection_gap [OF b(1,2) assms(3)] by blast
  obtain b2 where b2: "insert_str [c] d = Some b2" "text_edit d b2" "left_of b2 = left_of d @ [c]" "right_of b2 = right_of d"
    using insert_str_ok [OF d(2), of "[c]"] by blast
  have "value_of b2 = left_of b2 @ right_of b2" using b2(2) by (intro value_zipper) (simp add: text_edit_def cursor_ok_def)
  with b d b2 show ?thesis
    by (intro exI [of _ b2] exI [of _ "left_of d"] exI [of _ "right_of d"]) (simp add: push_char_def gap_of_def)
qed

lemma typing_replaces_selection_example:
  "\<exists>b1 b2 l r. run_selects [MRight, MRight] (new_buffer [97, 98, 99]) = Some b1 \<and> push_char 120 b1 = Some b2
     \<and> value_of (new_buffer [97, 98, 99]) = l @ [97, 98] @ r \<and> value_of b2 = l @ 120 # r \<and> gap_of b2 = (l @ [120], r)"
proof -
  obtain b1 where b1: "run_selects [MRight, MRight] (new_buffer [97, 98, 99]) = Some b1" "selected_text b1 = Some (Some [97, 98])"
    by (simp add: buffer_eval)
  from typing_replaces_selection [of "[]" _ "new_buffer [97, 98, 99]", OF _ b1] b1 show ?thesis by simp
qed

text \<open>C12. Plain editing refines a text with a gap: any sequence of typed characters, pastes, Enter,
Backspace, Delete, Left, Right, Home and End (no raw line feed typed as a character) from a new buffer
returns, its two halves at the cursor are those of the specification, and its text is their join.\<close>

theorem plain_editing_refines:
  assumes "PChar NL \<notin> set ops"
  shows "\<exists>b. run_plains ops (new_buffer t) = Some b \<and> gap_of b = fold gap_step (map spec_of ops) ([], t)
    \<and> value_of b = fst (gap_of b) @ snd (gap_of b)"
proof -
  have "session_ok (new_buffer t)" using session.inv_initial by blast
  from run_plains_refine [OF new_buffer_gap(1) this assms] obtain b where
    b: "run_plains ops (new_buffer t) = Some b" "gap_of b = fold gap_step (map spec_of ops) (gap_of (new_buffer t))" "session_ok b"
    by blast
  then have "value_of b = left_of b @ right_of b" by (simp add: session_ok_def value_gap)
  with b new_buffer_gap(2) [of t] show ?thesis by (simp add: gap_of_def)
qed

theorem plain_editing_refines_witness:
  "\<exists>b. run_plains [PChar 120, PText [9, 98], PLeft, PBackspace, PNewLine, PHome, PLeft, PDelete, PEnd, PRight] (new_buffer [97, 10, 99]) = Some b
     \<and> gap_of b = ([120, 32, 98, 97, 10], [99]) \<and> value_of b = [120, 32, 98, 97, 10, 99]"
  using plain_editing_refines [of "[PChar 120, PText [9, 98], PLeft, PBackspace, PNewLine, PHome, PLeft, PDelete, PEnd, PRight]" "[97, 10, 99]"]
  by (auto simp: NL_def TAB_def replace_tabs_def TAB_SPACES_def before_line_def line_start_def)

text \<open>A run of typed characters is one undo step: after any session whose last edit was not an
insertion, typing them inserts them at the cursor, one undo restores text and cursor, and one redo
brings the typed text and cursor back.\<close>

lemma typing_undoes_as_one:
  assumes "run_ops ops (new_buffer t) = Some b" "tb_last_edit b \<noteq> Some EInsert" "cs \<noteq> []"
  shows "\<exists>b1 b2 b3. type_chars cs b = Some b1 \<and> value_of b1 = left_of b @ cs @ right_of b
    \<and> undo b1 = (True, b2) \<and> take_snapshot b2 = take_snapshot b \<and> redo b2 = (True, b3) \<and> take_snapshot b3 = take_snapshot b1"
proof -
  have b: "cursor_ok b" "tb_selection b = None" using session_reachable [OF assms(1)] by (auto simp: session_ok_def buf_ok_def)
  obtain c cs' where cs: "cs = c # cs'" using assms(3) by (cases cs) auto
  obtain d where d: "push_char c b = Some d" "text_edit (record_edit EInsert b) d" "left_of d = left_of b @ [c]" "right_of d = right_of b"
    using push_char_no_selection [OF b] by blast
  obtain b1 where b1: "type_chars cs' d = Some b1" "text_edit d b1" "left_of b1 = left_of d @ cs'" "right_of b1 = right_of d"
    using type_chars_group [of d cs'] d(2) b assms(2) by (auto simp: text_edit_def record_edit_def)
  obtain b2 where "undo b1 = (True, b2)" "take_snapshot b2 = take_snapshot b" "\<exists>b3. redo b2 = (True, b3) \<and> take_snapshot b3 = take_snapshot b1"
    using undo_of_group [OF _ text_edit_trans [OF d(2) b1(2)]] assms(2) by blast
  moreover have "value_of b1 = left_of b1 @ right_of b1" using b1(2) by (intro value_zipper) (simp add: text_edit_def cursor_ok_def)
  ultimately show ?thesis using d b1 by (auto simp: cs)
qed

lemma typing_undoes_as_one_example:
  "\<exists>b1 b2 b3. type_chars [98, 99] (new_buffer [97]) = Some b1 \<and> value_of b1 = [98, 99, 97]
     \<and> undo b1 = (True, b2) \<and> take_snapshot b2 = take_snapshot (new_buffer [97])
     \<and> redo b2 = (True, b3) \<and> take_snapshot b3 = take_snapshot b1"
proof -
  have "left_of (new_buffer [97]) = []" "right_of (new_buffer [97]) = [97]" by (simp_all add: buffer_eval)
  with typing_undoes_as_one [of "[]" "[97]" "new_buffer [97]" "[98, 99]"] show ?thesis by (simp add: new_buffer_def)
qed

text \<open>Killing to the end of a line and yanking gives the text back: the kill removes exactly what
stands between the cursor and the end of the line, and the yank of a text without tabs restores it.\<close>

lemma kill_yank_round_trip:
  assumes "run_ops ops (new_buffer t) = Some b" "cur_x b < length (cur b)" "TAB \<notin> set (value_of b)"
  shows "\<exists>b1 b2. kill_to_end_of_line b = Some b1 \<and> gap_of b1 = (left_of b, below_text b)
    \<and> yank b1 = Some (True, b2) \<and> value_of b2 = value_of b"
proof -
  have b: "buf_ok b" "tb_selection b = None" using session_reachable [OF assms(1)] by (auto simp: session_ok_def)
  let ?k = "drop (cur_x b) (cur b)"
  let ?w = "with_line (take (cur_x b) (cur b)) (tb_raw_x b) (record_edit EOther b)"
  have raw: "tb_raw_x b = cur_x b" using assms(2) by (simp add: cur_x_def min_def split: if_splits)
  have kill: "kill_to_end_of_line b = Some (push_kill ?k ?w)"
    using kill_to_end_of_line_eq [OF buf_ok_cursor [OF b(1)] kill_selection_None [OF b(2)]] assms(2) by simp
  have gap: "left_of ?w = left_of b" "right_of ?w = below_text b"
    using with_line_ok(3,4) [of "record_edit EOther b" "take (cur_x b) (cur b)" "tb_raw_x b"] buf_ok_cursor [OF b(1)] raw
    by (simp_all add: zipper_line)
  have k: "?k \<noteq> []" "replace_tabs ?k = ?k" "buf_ok (push_kill ?k ?w)" "tb_selection (push_kill ?k ?w) = None"
    using assms(2,3) value_gap [OF b(1)] safe_kill_line [OF b(1), of ?k "take (cur_x b) (cur b)" "tb_raw_x b" EOther] b(2)
    by (auto simp: zipper_line safe_def intro: replace_tabs_none)
  obtain b2 where b2: "yank (push_kill ?k ?w) = Some (True, b2)" "left_of b2 = left_of b @ ?k" "right_of b2 = below_text b"
    using yank_inserts [OF k(3,4)] push_kill_last [OF k(1), of ?w] k(2) gap by auto
  have "buf_ok b2" using yank_safe [OF k(3)] k(4) b2(1) by (auto simp: safe_def)
  moreover have "right_of b = ?k @ below_text b" by (rule zipper_line)
  ultimately show ?thesis using b2 kill gap value_gap [of b2] value_gap [OF b(1)] by (simp add: gap_of_def)
qed

lemma kill_yank_round_trip_example:
  "\<exists>b1 b2. kill_to_end_of_line (new_buffer [97, 98, 10, 99]) = Some b1 \<and> gap_of b1 = ([], [10, 99])
    \<and> yank b1 = Some (True, b2) \<and> value_of b2 = [97, 98, 10, 99]"
  using kill_yank_round_trip [of "[]" "[97, 98, 10, 99]" "new_buffer [97, 98, 10, 99]"]
  by (simp add: buffer_eval)

text \<open>A yank followed by a yank-pop puts the second newest entry of the kill ring at the cursor in
place of the newest one, and leaves the rest of the text.\<close>

lemma yank_pop_replaces_yank:
  assumes "run_ops ops (new_buffer t) = Some b" "2 \<le> length (tb_kill_ring b)"
  shows "\<exists>b1 b2. yank b = Some (True, b1) \<and> yank_pop b1 = Some (True, b2)
    \<and> gap_of b2 = (left_of b @ replace_tabs (tb_kill_ring b ! (length (tb_kill_ring b) - 2)), right_of b)"
proof -
  have b: "buf_ok b" "tb_selection b = None" using session_reachable [OF assms(1)] by (auto simp: session_ok_def)
  from yank_pop_after_yank [OF b assms(2)] show ?thesis by (auto simp: gap_of_def)
qed

lemma yank_pop_replaces_yank_example:
  "\<exists>b b1 b2. run_ops [KillToEnd, Move MDown, KillToEnd] (new_buffer [97, 10, 98]) = Some b \<and> yank b = Some (True, b1)
     \<and> yank_pop b1 = Some (True, b2) \<and> gap_of b2 = ([10, 97], [])"
proof -
  obtain b where b: "run_ops [KillToEnd, Move MDown, KillToEnd] (new_buffer [97, 10, 98]) = Some b" "tb_kill_ring b = [[97], [98]]"
    "left_of b = [10]" "right_of b = []"
    by (simp add: buffer_eval)
  with yank_pop_replaces_yank [OF b(1)] show ?thesis by (simp add: replace_tabs_def TAB_def)
qed

section \<open>Where the code falls short\<close>

text \<open>A selection that shrinks back to the cursor stays set, and Backspace at the start of a line
does not clear it: on the text of the two lines a and b with the cursor at the start of the second,
select up, select down and Backspace leave one line and an anchor on the second, so that the next
typed character panics.\<close>

lemma collapsed_selection_panics:
  "\<exists>b1 b2 b3. move_cursor False step_down (new_buffer [97, NL, 98]) = Some b1 \<and> run_selects [MUp, MDown] b1 = Some b2
     \<and> remove_char b2 = Some b3 \<and> tb_lines b3 = [[97, 98]] \<and> tb_selection b3 = Some (1, 0) \<and> push_char c b3 = None"
  by (simp add: buffer_eval)

text \<open>Delete at the end of a line that the cursor reached from a longer one also moves the cursor:
on the lines abc, d and ef, End, Down and Delete join the last two lines and leave the cursor after def
instead of after d.\<close>

lemma delete_with_stale_column_moves_cursor:
  "\<exists>b1 b2. run_ops [Move MEnd, Move MDown] (new_buffer [97, 98, 99, NL, 100, NL, 101, 102]) = Some b1 \<and> x_of b1 = Some 1
     \<and> delete_char b1 = Some b2 \<and> tb_lines b2 = [[97, 98, 99], [100, 101, 102]] \<and> tb_cursor_y b2 = 1 \<and> x_of b2 = Some 3"
  by (simp add: buffer_eval)

end
