(* ===== verification/Cancel_Token.thy ===== *)
theory Cancel_Token
  imports N00n_Prelude
begin

text \<open>
  Cooperative cancellation (\<open>crates/n00n-agent/src/cancel.rs\<close>): tokens with parent-to-child
  propagation, triggers that fire when dropped, the one-shot gate between the UI and the provider, the
  map of running tasks, and the asynchronous wait for a cancellation.

  The flags are the shared mutable state: the set of the identities whose flag is set. What a token
  points to never changes, so that a token is the chain of identities to its root.
\<close>

section \<open>Tokens\<close>

datatype cancel_token = Token nat "cancel_token option"

record cancel_state =
  cs_next :: nat
  cs_cancelled :: "nat set"

definition fire :: "nat \<Rightarrow> cancel_state \<Rightarrow> cancel_state" where
  "fire i s = s\<lparr>cs_cancelled := insert i (cs_cancelled s)\<rparr>"

fun is_cancelled :: "cancel_state \<Rightarrow> cancel_token \<Rightarrow> bool" where
  "is_cancelled s (Token i None) = (i \<in> cs_cancelled s)"
| "is_cancelled s (Token i (Some parent)) = (i \<in> cs_cancelled s \<or> is_cancelled s parent)"

definition alloc_token :: "cancel_token option \<Rightarrow> cancel_state \<Rightarrow> cancel_token \<times> cancel_state" where
  "alloc_token parent s = (Token (cs_next s) parent, s\<lparr>cs_next := Suc (cs_next s)\<rparr>)"

text \<open>The trigger of a token is the identity it fires.\<close>

definition new_token :: "cancel_state \<Rightarrow> (nat \<times> cancel_token) \<times> cancel_state" where
  "new_token s = (let (t, s') = alloc_token None s in ((cs_next s, t), s'))"

definition none_token :: "cancel_state \<Rightarrow> cancel_token \<times> cancel_state" where
  "none_token s = alloc_token None s"

definition child_token :: "cancel_token \<Rightarrow> cancel_state \<Rightarrow> (nat \<times> cancel_token) \<times> cancel_state" where
  "child_token parent s = (let (t, s') = alloc_token (Some parent) s in ((cs_next s, t), s'))"

text \<open>\<open>cancel\<close> fires and then drops the trigger, which fires again.\<close>

definition drop_trigger :: "nat \<Rightarrow> cancel_state \<Rightarrow> cancel_state" where
  "drop_trigger i s = fire i s"

definition cancel_trigger :: "nat \<Rightarrow> cancel_state \<Rightarrow> cancel_state" where
  "cancel_trigger i s = drop_trigger i (fire i s)"

fun chain :: "cancel_token \<Rightarrow> nat list" where
  "chain (Token i None) = [i]"
| "chain (Token i (Some parent)) = i # chain parent"

section \<open>The gate before dispatch\<close>

definition PRE_DISPATCH_PENDING :: u8 where "PRE_DISPATCH_PENDING = 0"
definition PRE_DISPATCH_COMMITTED :: u8 where "PRE_DISPATCH_COMMITTED = 1"
definition PRE_DISPATCH_CANCELLED :: u8 where "PRE_DISPATCH_CANCELLED = 2"

definition compare_exchange :: "'a \<Rightarrow> 'a \<Rightarrow> 'a \<Rightarrow> ('a + 'a) \<times> 'a" where
  "compare_exchange expected new v = (if v = expected then (Inr v, new) else (Inl v, v))"

definition try_cancel :: "u8 \<Rightarrow> bool \<times> u8" where
  "try_cancel g = (case compare_exchange PRE_DISPATCH_PENDING PRE_DISPATCH_CANCELLED g of
     (Inr _, g') \<Rightarrow> (True, g') | (Inl _, g') \<Rightarrow> (False, g'))"

definition try_commit :: "u8 \<Rightarrow> bool \<times> u8" where
  "try_commit g = (case compare_exchange PRE_DISPATCH_PENDING PRE_DISPATCH_COMMITTED g of
     (Inr _, g') \<Rightarrow> (True, g') | (Inl v, g') \<Rightarrow> (v = PRE_DISPATCH_COMMITTED, g'))"

datatype gate_call = TryCancel | TryCommit

fun gate_step :: "gate_call \<Rightarrow> u8 \<Rightarrow> bool \<times> u8" where
  "gate_step TryCancel = try_cancel"
| "gate_step TryCommit = try_commit"

text \<open>The answers of a sequence of calls, in the order in which the atomic takes them.\<close>

fun gate_run :: "gate_call list \<Rightarrow> u8 \<Rightarrow> (gate_call \<times> bool) list \<times> u8" where
  "gate_run [] g = ([], g)"
| "gate_run (c # cs) g = (let (r, g') = gate_step c g; (rs, g'') = gate_run cs g' in ((c, r) # rs, g''))"

section \<open>The map of running tasks\<close>

datatype cancel_entry = Live nat | PreCancelled

type_synonym 'k cancel_map = "('k \<rightharpoonup> cancel_entry) \<times> cancel_state"

text \<open>An entry that leaves the map is dropped, and a live one fires its trigger then.\<close>

definition drop_entry :: "cancel_entry option \<Rightarrow> cancel_state \<Rightarrow> cancel_state" where
  "drop_entry e s = (case e of Some (Live i) \<Rightarrow> drop_trigger i s | _ \<Rightarrow> s)"

definition map_insert :: "'k \<Rightarrow> nat \<Rightarrow> 'k cancel_map \<Rightarrow> 'k cancel_map" where
  "map_insert k trigger = (\<lambda>(m, s).
     case m k of
       Some PreCancelled \<Rightarrow> (m(k := None), cancel_trigger trigger s)
     | old \<Rightarrow> (m(k \<mapsto> Live trigger), drop_entry old s))"

definition cancel_or_precancel :: "'k \<Rightarrow> 'k cancel_map \<Rightarrow> 'k cancel_map" where
  "cancel_or_precancel k = (\<lambda>(m, s).
     case m k of
       Some (Live trigger) \<Rightarrow> (m(k := None), cancel_trigger trigger s)
     | old \<Rightarrow> (m(k \<mapsto> PreCancelled), drop_entry old s))"

definition map_remove :: "'k \<Rightarrow> 'k cancel_map \<Rightarrow> 'k cancel_map" where
  "map_remove k = (\<lambda>(m, s). (m(k := None), drop_entry (m k) s))"

text \<open>\<open>drain\<close> hands out the entries in an order that the hash map chooses; \<open>ks\<close> is that order.\<close>

fun cancel_entries :: "cancel_entry list \<Rightarrow> cancel_state \<Rightarrow> cancel_state" where
  "cancel_entries [] s = s"
| "cancel_entries (Live i # es) s = cancel_entries es (cancel_trigger i s)"
| "cancel_entries (PreCancelled # es) s = cancel_entries es s"

definition cancel_all :: "'k list \<Rightarrow> 'k cancel_map \<Rightarrow> 'k cancel_map" where
  "cancel_all ks = (\<lambda>(m, s). (Map.empty, cancel_entries (List.map_filter m ks) s))"

section \<open>Propagation\<close>

lemma is_cancelled_chain: "is_cancelled s t \<longleftrightarrow> (\<exists>i \<in> set (chain t). i \<in> cs_cancelled s)"
  by (induction s t rule: is_cancelled.induct) auto

lemma fold_fire: "cs_cancelled (fold fire js s) = set js \<union> cs_cancelled s" "cs_next (fold fire js s) = cs_next s"
  by (induction js arbitrary: s) (auto simp: fire_def)

definition token_ok :: "cancel_state \<Rightarrow> cancel_token \<Rightarrow> bool" where
  "token_ok s t \<longleftrightarrow> (\<forall>i \<in> set (chain t). i < cs_next s) \<and> (\<forall>i \<in> cs_cancelled s. i < cs_next s)"

lemma child_token_eq:
  "child_token p s = ((cs_next s, Token (cs_next s) (Some p)), s\<lparr>cs_next := Suc (cs_next s)\<rparr>)"
  by (simp add: child_token_def alloc_token_def)

lemma child_token_ok: "token_ok s p \<Longrightarrow> child_token p s = ((i, c), s') \<Longrightarrow> token_ok s' c \<and> token_ok s' p"
  by (auto simp: child_token_eq token_ok_def less_Suc_eq)

section \<open>The map keeps what it was told\<close>

lemma trigger_cancelled [simp]: "cs_cancelled (cancel_trigger i s) = insert i (cs_cancelled s)"
  "cs_cancelled (drop_trigger i s) = insert i (cs_cancelled s)"
  by (simp_all add: cancel_trigger_def drop_trigger_def fire_def)

lemma drop_entry_cancelled: "cs_cancelled (drop_entry e s) = cs_cancelled s \<union> {i. e = Some (Live i)}"
  by (auto simp: drop_entry_def split: option.splits cancel_entry.splits)

lemma cancel_entries_cancelled: "cs_cancelled (cancel_entries es s) = cs_cancelled s \<union> {i. Live i \<in> set es}"
  by (induction es s rule: cancel_entries.induct) auto

datatype 'k map_op = MInsert 'k nat | MCancel 'k | MRemove 'k | MCancelAll "'k list"

fun map_op_step :: "'k map_op \<Rightarrow> 'k cancel_map \<Rightarrow> 'k cancel_map" where
  "map_op_step (MInsert k i) = map_insert k i"
| "map_op_step (MCancel k) = cancel_or_precancel k"
| "map_op_step (MRemove k) = map_remove k"
| "map_op_step (MCancelAll ks) = cancel_all ks"

fun op_key :: "'k map_op \<Rightarrow> 'k option" where
  "op_key (MInsert k i) = Some k"
| "op_key (MCancel k) = Some k"
| "op_key (MRemove k) = Some k"
| "op_key (MCancelAll ks) = None"

text \<open>An operation on another key leaves the entry of \<open>k\<close>, and no operation clears a flag.\<close>

lemma map_op_frame: "op_key op \<notin> {None, Some k} \<Longrightarrow> fst (map_op_step op ms) k = fst ms k"
  by (cases op; cases ms)
    (auto simp: map_insert_def cancel_or_precancel_def map_remove_def split: option.splits cancel_entry.splits)

lemma map_op_monotone: "cs_cancelled (snd ms) \<subseteq> cs_cancelled (snd (map_op_step op ms))"
  by (cases op; cases ms)
    (auto simp: map_insert_def cancel_or_precancel_def map_remove_def cancel_all_def drop_entry_cancelled
      cancel_entries_cancelled split: option.splits cancel_entry.splits)

lemma map_ops_frame: "(\<And>op. op \<in> set ops \<Longrightarrow> op_key op \<notin> {None, Some k}) \<Longrightarrow> fst (fold map_op_step ops ms) k = fst ms k"
  by (induction ops arbitrary: ms) (simp_all add: map_op_frame)

lemma map_insert_after_precancel: "fst ms k = Some PreCancelled \<Longrightarrow> i \<in> cs_cancelled (snd (map_insert k i ms))"
  by (cases ms) (simp add: map_insert_def)

lemma cancel_after_insert: "fst ms k = Some (Live i) \<Longrightarrow> i \<in> cs_cancelled (snd (cancel_or_precancel k ms))"
  by (cases ms) (simp add: cancel_or_precancel_def)

lemma map_insert_entry: "fst ms k \<noteq> Some PreCancelled \<Longrightarrow> fst (map_insert k i ms) k = Some (Live i)"
  by (cases ms) (auto simp: map_insert_def split: option.splits cancel_entry.splits)

lemma precancel_entry: "(\<forall>i. fst ms k \<noteq> Some (Live i)) \<Longrightarrow> fst (cancel_or_precancel k ms) k = Some PreCancelled"
  by (cases ms) (auto simp: cancel_or_precancel_def split: option.splits cancel_entry.splits)

text \<open>Every trigger given to the map is in it or has fired.\<close>

definition accounted :: "nat set \<Rightarrow> 'k cancel_map \<Rightarrow> bool" where
  "accounted is ms \<longleftrightarrow> (\<forall>i \<in> is. i \<in> cs_cancelled (snd ms) \<or> (\<exists>k. fst ms k = Some (Live i)))"

fun given :: "'k map_op \<Rightarrow> nat set" where
  "given (MInsert k i) = {i}"
| "given _ = {}"

definition drains :: "'k map_op \<Rightarrow> 'k cancel_map \<Rightarrow> bool" where
  "drains op ms \<longleftrightarrow> (\<forall>ks. op = MCancelAll ks \<longrightarrow> set ks = dom (fst ms))"

lemma accounted_update:
  assumes a: "accounted is (m, s)" and mono: "cs_cancelled s \<subseteq> cs_cancelled s'"
    and old: "\<And>j. m k = Some (Live j) \<Longrightarrow> j \<in> cs_cancelled s' \<or> v = Some (Live j)"
  shows "accounted is (m(k := v), s')"
  unfolding accounted_def
proof
  fix i assume "i \<in> is"
  with a consider "i \<in> cs_cancelled s" | k' where "m k' = Some (Live i)" by (auto simp: accounted_def)
  then show "i \<in> cs_cancelled (snd (m(k := v), s')) \<or> (\<exists>k'. fst (m(k := v), s') k' = Some (Live i))"
  proof cases
    case (2 k')
    then show ?thesis using old [of i] by (cases "k' = k") auto
  qed (use mono in auto)
qed

lemma accounted_insert: "accounted is ms \<Longrightarrow> i \<in> cs_cancelled (snd ms) \<or> fst ms k = Some (Live i) \<Longrightarrow> accounted (insert i is) ms"
  by (auto simp: accounted_def)

lemma map_op_accounted:
  assumes a: "accounted is ms" and d: "drains op ms"
  shows "accounted (is \<union> given op) (map_op_step op ms)"
proof -
  obtain m s where ms: "ms = (m, s)" by fastforce
  note a' = a [unfolded ms]
  show ?thesis
  proof (cases op)
    case (MInsert k i)
    have "accounted is (map_insert k i (m, s))"
      by (cases "m k"; cases "the (m k)") (auto simp: map_insert_def drop_entry_cancelled intro!: accounted_update [OF a'])
    moreover have "i \<in> cs_cancelled (snd (map_insert k i (m, s))) \<or> fst (map_insert k i (m, s)) k = Some (Live i)"
      using map_insert_entry [of "(m, s)" k i] map_insert_after_precancel [of "(m, s)" k i] by (cases "m k = Some PreCancelled") auto
    ultimately show ?thesis using accounted_insert by (simp add: MInsert ms)
  next
    case (MCancel k)
    have "accounted is (cancel_or_precancel k (m, s))"
      by (cases "m k"; cases "the (m k)") (auto simp: cancel_or_precancel_def drop_entry_cancelled intro!: accounted_update [OF a'])
    then show ?thesis by (simp add: MCancel ms)
  next
    case (MRemove k)
    have "accounted is (map_remove k (m, s))"
      by (auto simp: map_remove_def drop_entry_cancelled intro!: accounted_update [OF a'])
    then show ?thesis by (simp add: MRemove ms)
  next
    case (MCancelAll ks)
    have "Live i \<in> set (List.map_filter m ks)" if "m k = Some (Live i)" for k i
      using that d by (force simp: MCancelAll ms drains_def map_filter_def dom_def)
    with a' show ?thesis by (auto simp: MCancelAll ms accounted_def cancel_all_def cancel_entries_cancelled)
  qed
qed

text \<open>A run of operations in which every drain hands out the entries the map has.\<close>

fun map_run :: "'k map_op list \<Rightarrow> 'k cancel_map \<Rightarrow> 'k cancel_map option" where
  "map_run [] ms = Some ms"
| "map_run (op # ops) ms = (case op of
     MCancelAll ks \<Rightarrow> if set ks = dom (fst ms) then map_run ops (map_op_step op ms) else None
   | _ \<Rightarrow> map_run ops (map_op_step op ms))"

lemma map_run_accounted: "map_run ops ms = Some ms' \<Longrightarrow> accounted is ms \<Longrightarrow> accounted (is \<union> \<Union> (given ` set ops)) ms'"
proof (induction ops arbitrary: ms "is")
  case (Cons op ops)
  then have "drains op ms" "map_run ops (map_op_step op ms) = Some ms'"
    by (auto simp: drains_def split: map_op.splits if_splits)
  with Cons.IH [OF _ map_op_accounted [OF Cons.prems(2)]] show ?case by (auto simp: Un_assoc)
qed simp

section \<open>The gate decides once\<close>

lemma gate_decided:
  "gate_run cs PRE_DISPATCH_COMMITTED = (map (\<lambda>d. (d, d = TryCommit)) cs, PRE_DISPATCH_COMMITTED)"
  "gate_run cs PRE_DISPATCH_CANCELLED = (map (\<lambda>d. (d, False)) cs, PRE_DISPATCH_CANCELLED)"
proof (induction cs)
  case (Cons c cs)
  case 1 show ?case using Cons by (cases c) (simp_all add: try_cancel_def try_commit_def compare_exchange_def
        PRE_DISPATCH_COMMITTED_def PRE_DISPATCH_CANCELLED_def PRE_DISPATCH_PENDING_def)
  case 2 show ?case using Cons by (cases c) (simp_all add: try_cancel_def try_commit_def compare_exchange_def
        PRE_DISPATCH_COMMITTED_def PRE_DISPATCH_CANCELLED_def PRE_DISPATCH_PENDING_def)
qed simp_all

section \<open>Guarantees\<close>

text \<open>Cancellation flows from parent to child and never back: whatever triggers fire after a child
token is made, the child is cancelled exactly when its own trigger fired or its parent is cancelled,
and firing the child's trigger changes neither its parent nor any token that existed before.\<close>

lemma cancellation_flows_down:
  assumes "token_ok s p" "child_token p s = ((i, c), s')"
  shows "(is_cancelled (fold fire js s') c \<longleftrightarrow> i \<in> set js \<or> is_cancelled (fold fire js s') p)
    \<and> (\<forall>t. token_ok s t \<longrightarrow> is_cancelled (fold fire (i # js) s') t = is_cancelled (fold fire js s') t)"
  using assms by (auto simp: child_token_eq is_cancelled_chain fold_fire fire_def token_ok_def)

lemma cancellation_flows_down_example:
  "is_cancelled (fold fire [0] \<lparr>cs_next = 2, cs_cancelled = {}\<rparr>) (Token 1 (Some (Token 0 None)))
     \<and> \<not> is_cancelled (fold fire [1] \<lparr>cs_next = 2, cs_cancelled = {}\<rparr>) (Token 0 None)"
proof -
  have ok: "token_ok \<lparr>cs_next = 1, cs_cancelled = {}\<rparr> (Token 0 None)" by (simp add: token_ok_def)
  have child: "child_token (Token 0 None) \<lparr>cs_next = 1, cs_cancelled = {}\<rparr>
      = ((1, Token 1 (Some (Token 0 None))), \<lparr>cs_next = 2, cs_cancelled = {}\<rparr>)"
    by (simp add: child_token_eq)
  show ?thesis
    using cancellation_flows_down [OF ok child, of "[0]"] cancellation_flows_down [OF ok child, of "[]"] ok
    by (simp add: fire_def)
qed

text \<open>The first of the competing calls on the gate before dispatch decides it: it succeeds, and after
it a commit succeeds exactly when the first call was a commit and a cancel never does, so that no
submission is both cancelled and dispatched.\<close>

lemma gate_first_call_wins:
  "fst (gate_run (c # cs) PRE_DISPATCH_PENDING) = (c, True) # map (\<lambda>d. (d, c = TryCommit \<and> d = TryCommit)) cs"
proof (cases c)
  case TryCancel
  then have "gate_step c PRE_DISPATCH_PENDING = (True, PRE_DISPATCH_CANCELLED)"
    by (simp add: try_cancel_def compare_exchange_def)
  with gate_decided(2) [of cs] TryCancel show ?thesis by simp
next
  case TryCommit
  then have "gate_step c PRE_DISPATCH_PENDING = (True, PRE_DISPATCH_COMMITTED)"
    by (simp add: try_commit_def compare_exchange_def)
  with gate_decided(1) [of cs] TryCommit show ?thesis by simp
qed

text \<open>A cancellation of a task is never lost to the order in which it and the registration of the
task reach the map: when the one follows the other with only operations on other tasks in between, the
task's trigger has fired.\<close>

lemma cancel_never_lost:
  assumes others: "\<And>op. op \<in> set ops \<Longrightarrow> op_key op \<notin> {None, Some k}"
    and fresh: "fst ms k = None"
  shows "i \<in> cs_cancelled (snd (map_insert k i (fold map_op_step ops (cancel_or_precancel k ms))))
    \<and> i \<in> cs_cancelled (snd (cancel_or_precancel k (fold map_op_step ops (map_insert k i ms))))"
proof
  have "fst (fold map_op_step ops (cancel_or_precancel k ms)) k = Some PreCancelled"
    using map_ops_frame [OF others] precancel_entry [of ms k] fresh by simp
  then show "i \<in> cs_cancelled (snd (map_insert k i (fold map_op_step ops (cancel_or_precancel k ms))))"
    by (rule map_insert_after_precancel)
  have "fst (fold map_op_step ops (map_insert k i ms)) k = Some (Live i)"
    using map_ops_frame [OF others] map_insert_entry [of ms k i] fresh by simp
  then show "i \<in> cs_cancelled (snd (cancel_or_precancel k (fold map_op_step ops (map_insert k i ms))))"
    by (rule cancel_after_insert)
qed

lemma cancel_never_lost_example:
  "(7::nat) \<in> cs_cancelled (snd (map_insert (1::nat) 7 (map_insert 2 8 (cancel_or_precancel 1 (Map.empty, \<lparr>cs_next = 9, cs_cancelled = {}\<rparr>)))))
     \<and> 7 \<in> cs_cancelled (snd (cancel_or_precancel (1::nat) (map_insert 2 8 (map_insert 1 7 (Map.empty, \<lparr>cs_next = 9, cs_cancelled = {}\<rparr>)))))"
  using cancel_never_lost [of "[MInsert (2::nat) 8]" 1 "(Map.empty, \<lparr>cs_next = 9, cs_cancelled = {}\<rparr>)" 7] by simp

text \<open>The map forgets no trigger: after any run of registrations, cancellations, removals and drains
from the empty map, every trigger it was given is still registered or has fired.\<close>

lemma triggers_live_or_fired:
  assumes "map_run ops (Map.empty, s) = Some ms" "MInsert k i \<in> set ops"
  shows "i \<in> cs_cancelled (snd ms) \<or> (\<exists>k'. fst ms k' = Some (Live i))"
proof -
  have "accounted {} (Map.empty, s)" by (simp add: accounted_def)
  from map_run_accounted [OF assms(1) this] assms(2) show ?thesis by (force simp: accounted_def)
qed

lemma triggers_live_or_fired_example:
  "\<exists>ms. map_run [MInsert (1::nat) 7, MInsert 2 8, MInsert 1 9, MRemove 2] (Map.empty, \<lparr>cs_next = 10, cs_cancelled = {}\<rparr>) = Some ms
     \<and> (8 \<in> cs_cancelled (snd ms) \<or> (\<exists>k'. fst ms k' = Some (Live 8)))"
  using triggers_live_or_fired [of "[MInsert (1::nat) 7, MInsert 2 8, MInsert 1 9, MRemove 2]" "\<lparr>cs_next = 10, cs_cancelled = {}\<rparr>" _ 2 8]
  by simp

end
