(* ===== verification/Cancel_Wait.thy ===== *)
theory Cancel_Wait
  imports Cancel_Token "HOL-Library.Multiset"
begin

text \<open>
  The asynchronous wait for a cancellation (\<open>CancelToken::cancelled\<close> in
  \<open>crates/n00n-agent/src/cancel.rs\<close>) as a step relation: one waiter on a token whose chain of
  identities is \<open>c\<close>, against any number of triggers that fire. Firing stores the flag and then
  notifies, two separate steps. A level of the chain checks, registers its listener, checks again and
  then waits for its listener or for the level of its parent.

  A check reads the flags of a chain one after another; as no flag is ever cleared, a check that sees
  none set is one that happened at its first read, and a check that sees one set at that read.
\<close>

section \<open>The machine\<close>

datatype wait_pc = Check1 nat | Check2 nat | Asleep | Returned

record wait_state =
  ws_flags :: "nat set"
  ws_pending :: "nat multiset"
  ws_listeners :: "bool list"
  ws_pc :: wait_pc

definition wait_start :: "nat set \<Rightarrow> nat multiset \<Rightarrow> wait_state" where
  "wait_start flags pending = \<lparr>ws_flags = flags, ws_pending = pending, ws_listeners = [], ws_pc = Check1 0\<rparr>"

definition level_cancelled :: "nat list \<Rightarrow> nat \<Rightarrow> wait_state \<Rightarrow> bool" where
  "level_cancelled c d w \<longleftrightarrow> (\<exists>i \<in> set (drop d c). i \<in> ws_flags w)"

text \<open>A level that finds its token cancelled returns: the wait is over at the outermost level, and the
race of the level outside it is decided otherwise, which drops its listener and loops.\<close>

definition level_returns :: "nat \<Rightarrow> wait_state \<Rightarrow> wait_state" where
  "level_returns d w = (case d of
     0 \<Rightarrow> w\<lparr>ws_pc := Returned, ws_listeners := []\<rparr>
   | Suc e \<Rightarrow> w\<lparr>ws_pc := Check1 e, ws_listeners := take e (ws_listeners w)\<rparr>)"

definition notified :: "nat list \<Rightarrow> nat \<Rightarrow> bool list \<Rightarrow> bool list" where
  "notified c i ls = map (\<lambda>(j, b). b \<or> j = i) (zip c ls)"

inductive waiter_step :: "nat list \<Rightarrow> wait_state \<Rightarrow> wait_state \<Rightarrow> bool" for c where
  first_check_cancelled:
    "ws_pc w = Check1 d \<Longrightarrow> level_cancelled c d w \<Longrightarrow> waiter_step c w (level_returns d w)"
| register_listener:
    "ws_pc w = Check1 d \<Longrightarrow> \<not> level_cancelled c d w \<Longrightarrow>
       waiter_step c w (w\<lparr>ws_pc := Check2 d, ws_listeners := ws_listeners w @ [False]\<rparr>)"
| second_check_cancelled:
    "ws_pc w = Check2 d \<Longrightarrow> level_cancelled c d w \<Longrightarrow> waiter_step c w (level_returns d w)"
| wait_for_parent:
    "ws_pc w = Check2 d \<Longrightarrow> \<not> level_cancelled c d w \<Longrightarrow> Suc d < length c \<Longrightarrow> waiter_step c w (w\<lparr>ws_pc := Check1 (Suc d)\<rparr>)"
| fall_asleep:
    "ws_pc w = Check2 d \<Longrightarrow> \<not> level_cancelled c d w \<Longrightarrow> length c \<le> Suc d \<Longrightarrow> waiter_step c w (w\<lparr>ws_pc := Asleep\<rparr>)"
| wake_up:
    "ws_pc w = Asleep \<Longrightarrow> d < length (ws_listeners w) \<Longrightarrow> ws_listeners w ! d \<Longrightarrow>
       waiter_step c w (w\<lparr>ws_pc := Check1 d, ws_listeners := take d (ws_listeners w)\<rparr>)"

inductive wait_step :: "nat list \<Rightarrow> wait_state \<Rightarrow> wait_state \<Rightarrow> bool" for c where
  waiter: "waiter_step c w w' \<Longrightarrow> wait_step c w w'"
| store_flag: "wait_step c w (w\<lparr>ws_flags := insert i (ws_flags w), ws_pending := add_mset i (ws_pending w)\<rparr>)"
| notify_listeners: "i \<in># ws_pending w \<Longrightarrow>
     wait_step c w (w\<lparr>ws_pending := ws_pending w - {#i#}, ws_listeners := notified c i (ws_listeners w)\<rparr>)"

inductive_cases waiter_stepE: "waiter_step c w w'"

section \<open>No wake-up is lost\<close>

text \<open>How many levels have a registered listener, and how many of them have checked since.\<close>

fun registered :: "nat list \<Rightarrow> wait_pc \<Rightarrow> nat" where
  "registered c (Check1 d) = d"
| "registered c (Check2 d) = Suc d"
| "registered c Asleep = length c"
| "registered c Returned = 0"

fun settled :: "nat list \<Rightarrow> wait_pc \<Rightarrow> nat" where
  "settled c (Check1 d) = d"
| "settled c (Check2 d) = d"
| "settled c Asleep = length c"
| "settled c Returned = 0"

fun pc_ok :: "nat list \<Rightarrow> wait_pc \<Rightarrow> bool" where
  "pc_ok c (Check1 d) = (d < length c)"
| "pc_ok c (Check2 d) = (d < length c)"
| "pc_ok c Asleep = True"
| "pc_ok c Returned = True"

definition wait_inv :: "nat list \<Rightarrow> wait_state \<Rightarrow> bool" where
  "wait_inv c w \<longleftrightarrow> pc_ok c (ws_pc w) \<and> length (ws_listeners w) = registered c (ws_pc w)
     \<and> (\<forall>e < settled c (ws_pc w). c ! e \<in> ws_flags w \<longrightarrow> c ! e \<in># ws_pending w \<or> ws_listeners w ! e)
     \<and> (ws_pc w = Returned \<longrightarrow> level_cancelled c 0 w)"

lemma level_cancelled_mono: "level_cancelled c d w \<Longrightarrow> e \<le> d \<Longrightarrow> ws_flags w \<subseteq> ws_flags w' \<Longrightarrow> level_cancelled c e w'"
  unfolding level_cancelled_def by (meson in_mono set_drop_subset_set_drop)

lemma level_not_cancelled: "\<not> level_cancelled c d w \<Longrightarrow> d < length c \<Longrightarrow> c ! d \<notin> ws_flags w"
  unfolding level_cancelled_def by (metis Cons_nth_drop_Suc list.set_intros(1))

lemma notified_nth: "e < length c \<Longrightarrow> e < length ls \<Longrightarrow> notified c i ls ! e \<longleftrightarrow> ls ! e \<or> c ! e = i"
  by (simp add: notified_def)

lemma notified_length: "length ls \<le> length c \<Longrightarrow> length (notified c i ls) = length ls"
  by (simp add: notified_def)

lemma registered_le: "pc_ok c pc \<Longrightarrow> registered c pc \<le> length c" "settled c pc \<le> registered c pc"
  by (cases pc; simp)+

lemma waiter_step_flags [simp]: "waiter_step c w w' \<Longrightarrow> ws_flags w' = ws_flags w \<and> ws_pending w' = ws_pending w"
  by (induction rule: waiter_step.induct) (auto simp: level_returns_def split: nat.splits)

lemma level_returns_inv:
  assumes "wait_inv c w" "ws_pc w = Check1 d \<or> ws_pc w = Check2 d" "level_cancelled c d w"
  shows "wait_inv c (level_returns d w)"
proof (cases d)
  case 0
  with assms show ?thesis by (auto simp: wait_inv_def level_returns_def level_cancelled_def)
next
  case (Suc e)
  with assms show ?thesis by (auto simp: wait_inv_def level_returns_def less_Suc_eq)
qed

lemma waiter_step_inv: "waiter_step c w w' \<Longrightarrow> wait_inv c w \<Longrightarrow> wait_inv c w'"
proof (induction rule: waiter_step.induct)
  case (wait_for_parent w d)
  then show ?case
    using level_not_cancelled [of c d w] by (auto simp: wait_inv_def less_Suc_eq)
next
  case (fall_asleep w d)
  then have "length c = Suc d" by (simp add: wait_inv_def)
  with fall_asleep show ?case using level_not_cancelled [of c d w] by (auto simp: wait_inv_def less_Suc_eq)
next
  case (register_listener w d)
  then show ?case by (auto simp: wait_inv_def nth_append)
next
  case (wake_up w d)
  then show ?case by (auto simp: wait_inv_def)
qed (blast intro: level_returns_inv)+

lemma wait_step_inv: "wait_step c w w' \<Longrightarrow> wait_inv c w \<Longrightarrow> wait_inv c w'"
proof (induction rule: wait_step.induct)
  case (waiter w w')
  then show ?case by (rule waiter_step_inv)
next
  case (store_flag w i)
  then show ?case by (auto simp: wait_inv_def level_cancelled_def)
next
  case (notify_listeners i w)
  have le: "length (ws_listeners w) \<le> length c" using notify_listeners registered_le by (auto simp: wait_inv_def)
  have "notified c i (ws_listeners w) ! e \<or> c ! e \<in># ws_pending w - {#i#}"
    if "e < settled c (ws_pc w)" "c ! e \<in> ws_flags w" for e
  proof -
    have e: "e < length (ws_listeners w)" "e < length c"
      using that notify_listeners(2) registered_le(2) [of c "ws_pc w"] le by (auto simp: wait_inv_def)
    have "c ! e \<in># ws_pending w \<or> ws_listeners w ! e" using notify_listeners(2) that by (auto simp: wait_inv_def)
    then show ?thesis using notified_nth [OF e(2,1)] by (cases "c ! e = i") (auto simp: in_diff_count)
  qed
  then show ?case using notify_listeners(2) notified_length [OF le] by (auto simp: wait_inv_def level_cancelled_def)
qed

interpretation wait: invariant_system "\<lambda>w. \<exists>flags pending. w = wait_start flags pending" "wait_step c"
  "\<lambda>w. c \<noteq> [] \<longrightarrow> wait_inv c w" for c
proof unfold_locales
  show "\<exists>flags pending. w = wait_start flags pending \<Longrightarrow> c \<noteq> [] \<longrightarrow> wait_inv c w" for w
    by (auto simp: wait_start_def wait_inv_def)
  show "wait_step c w w' \<Longrightarrow> c \<noteq> [] \<longrightarrow> wait_inv c w \<Longrightarrow> c \<noteq> [] \<longrightarrow> wait_inv c w'" for w w'
    using wait_step_inv by blast
qed

text \<open>A cancelled waiter whose triggers have notified can always move, and every move brings it closer to
returning: each wake-up spends a notified listener, and between two wake-ups the waiter walks down the
chain and returns up it.\<close>

definition wait_rank :: "nat list \<Rightarrow> wait_state \<Rightarrow> nat" where
  "wait_rank c w = (case ws_pc w of
     Check1 d \<Rightarrow> if level_cancelled c d w then 2 * d + 1 else 2 * length c + 2 * (length c - d) + 3
   | Check2 d \<Rightarrow> if level_cancelled c d w then 2 * d + 2 else 2 * length c + 2 * (length c - d) + 2
   | Asleep \<Rightarrow> 1
   | Returned \<Rightarrow> 0)"

definition woken :: "wait_state \<Rightarrow> nat" where
  "woken w = length (filter (\<lambda>b. b) (ws_listeners w))"

definition wait_measure :: "nat list \<Rightarrow> wait_state \<Rightarrow> nat \<times> nat" where
  "wait_measure c w = (woken w, wait_rank c w)"

definition going_to_return :: "nat list \<Rightarrow> wait_state \<Rightarrow> bool" where
  "going_to_return c w \<longleftrightarrow> wait_inv c w \<and> level_cancelled c 0 w \<and> ws_pending w = {#}"

lemma woken_take: "length (filter (\<lambda>b. b) (take n ls)) \<le> length (filter (\<lambda>b. b) ls)"
  by (metis append_take_drop_id filter_append le_add1 length_append)

lemma woken_take_less: "n < length ls \<Longrightarrow> ls ! n \<Longrightarrow> length (filter (\<lambda>b. b) (take n ls)) < length (filter (\<lambda>b. b) ls)"
  by (subst (2) id_take_nth_drop [of n ls]) simp_all

lemma level_returns_less:
  assumes "level_cancelled c d w" "ws_pc w = Check1 d \<or> ws_pc w = Check2 d"
  shows "(wait_measure c (level_returns d w), wait_measure c w) \<in> less_than <*lex*> less_than"
proof (cases d)
  case (Suc e)
  have "level_cancelled c e (level_returns d w)"
    using assms(1) Suc by (intro level_cancelled_mono [OF assms(1)]) (auto simp: level_returns_def)
  with assms Suc woken_take [of e "ws_listeners w"] show ?thesis
    by (auto simp: wait_measure_def wait_rank_def woken_def level_returns_def)
qed (use assms in \<open>auto simp: wait_measure_def wait_rank_def woken_def level_returns_def\<close>)

lemma waiter_step_less:
  "waiter_step c w w' \<Longrightarrow> going_to_return c w \<Longrightarrow> (wait_measure c w', wait_measure c w) \<in> less_than <*lex*> less_than"
proof (induction rule: waiter_step.induct)
  case (register_listener w d)
  then show ?case by (auto simp: wait_measure_def wait_rank_def woken_def level_cancelled_def)
next
  case (wait_for_parent w d)
  have "\<not> level_cancelled c (Suc d) (w\<lparr>ws_pc := Check1 (Suc d)\<rparr>)"
    using wait_for_parent(2) level_cancelled_mono [of c "Suc d" "w\<lparr>ws_pc := Check1 (Suc d)\<rparr>" d w] by auto
  with wait_for_parent show ?case by (auto simp: wait_measure_def wait_rank_def woken_def)
next
  case (wake_up w d)
  then show ?case using woken_take_less [of d "ws_listeners w"] by (simp add: wait_measure_def woken_def)
next
  case (fall_asleep w d)
  then show ?case by (simp add: wait_measure_def wait_rank_def woken_def)
qed (blast intro: level_returns_less)+

lemma going_to_return_step: "waiter_step c w w' \<Longrightarrow> going_to_return c w \<Longrightarrow> going_to_return c w'"
  using waiter_step_inv waiter_step_flags by (auto simp: going_to_return_def level_cancelled_def)

lemma going_to_return_moves:
  assumes "going_to_return c w" "ws_pc w \<noteq> Returned"
  shows "\<exists>w'. waiter_step c w w'"
proof (cases "ws_pc w")
  case (Check1 d)
  then show ?thesis using waiter_step.first_check_cancelled waiter_step.register_listener by blast
next
  case (Check2 d)
  then show ?thesis
    using waiter_step.second_check_cancelled waiter_step.wait_for_parent waiter_step.fall_asleep linorder_not_less by metis
next
  case Asleep
  from assms(1) obtain e where e: "e < length c" "c ! e \<in> ws_flags w"
    by (auto simp: going_to_return_def level_cancelled_def in_set_conv_nth)
  with assms(1) Asleep have "e < length (ws_listeners w)" "ws_listeners w ! e"
    by (auto simp: going_to_return_def wait_inv_def)
  with Asleep show ?thesis using waiter_step.wake_up by blast
qed (use assms in simp)

text \<open>Whatever choices the waiter makes, it returns.\<close>

inductive inevitably_returns :: "nat list \<Rightarrow> wait_state \<Rightarrow> bool" for c where
  "ws_pc w = Returned \<Longrightarrow> inevitably_returns c w"
| "\<exists>w'. waiter_step c w w' \<Longrightarrow> (\<And>w'. waiter_step c w w' \<Longrightarrow> inevitably_returns c w') \<Longrightarrow> inevitably_returns c w"

lemma going_to_return_inevitable: "going_to_return c w \<Longrightarrow> inevitably_returns c w"
proof (induction "wait_measure c w" arbitrary: w rule: wf_induct_rule [OF wf_lex_prod [OF wf_less_than wf_less_than]])
  case (1 w)
  show ?case
  proof (cases "ws_pc w = Returned")
    case False
    have "inevitably_returns c w'" if "waiter_step c w w'" for w'
      using 1(1) [OF waiter_step_less [OF that 1(2)] going_to_return_step [OF that 1(2)]] .
    then show ?thesis using going_to_return_moves [OF 1(2) False] by (rule inevitably_returns.intros(2) [rotated])
  qed (rule inevitably_returns.intros(1))
qed

section \<open>Guarantees\<close>

text \<open>C13. No cancellation is missed by a waiter: in every state that the wait on a token and the triggers
that fire can reach, once a token of the chain is cancelled and its notification has been sent, the
wait returns whatever order its levels are polled in, also when the trigger fired between the check of
the flag and the registration of the listener.\<close>

theorem cancelled_wait_returns:
  assumes "(wait_step (chain t))\<^sup>*\<^sup>* (wait_start flags pending) w"
    and "i \<in> set (chain t)" "i \<in> ws_flags w" "ws_pending w = {#}"
  shows "inevitably_returns (chain t) w"
proof (rule going_to_return_inevitable)
  have "chain t \<noteq> []" using assms(2) by auto
  with wait.inv_reachable [OF _ assms(1)] have "wait_inv (chain t) w" by blast
  with assms(2-4) show "going_to_return (chain t) w" by (auto simp: going_to_return_def level_cancelled_def)
qed

theorem cancelled_wait_returns_witness:
  "inevitably_returns (chain (Token 1 (Some (Token 0 None)))) (wait_start {0} {#})"
  by (rule cancelled_wait_returns [of _ "{0}" "{#}" _ 0]) (simp_all add: wait_start_def)

text \<open>The wait on a token returns only when the token or one of its ancestors is cancelled.\<close>

lemma wait_returns_only_cancelled:
  assumes "(wait_step (chain t))\<^sup>*\<^sup>* (wait_start flags pending) w" "ws_pc w = Returned"
  shows "is_cancelled \<lparr>cs_next = n, cs_cancelled = ws_flags w\<rparr> t"
proof -
  have "chain t \<noteq> []" by (cases t rule: chain.cases) auto
  with wait.inv_reachable [OF _ assms(1)] have "wait_inv (chain t) w" by blast
  with assms(2) show ?thesis by (auto simp: wait_inv_def level_cancelled_def is_cancelled_chain)
qed

lemma wait_returns_only_cancelled_example:
  "is_cancelled \<lparr>cs_next = 2, cs_cancelled = {0}\<rparr> (Token 1 (Some (Token 0 None)))"
proof -
  let ?t = "Token 1 (Some (Token 0 None))" and ?w = "wait_start {0} {#}"
  have "wait_step (chain ?t) ?w (level_returns 0 ?w)"
    by (intro wait_step.waiter waiter_step.first_check_cancelled) (simp_all add: wait_start_def level_cancelled_def)
  then have "(wait_step (chain ?t))\<^sup>*\<^sup>* ?w (level_returns 0 ?w)" by (rule r_into_rtranclp)
  from wait_returns_only_cancelled [OF this, of 2] show ?thesis by (simp add: level_returns_def wait_start_def)
qed

end
