(* ===== verification/Shared_Queue.thy ===== *)
theory Shared_Queue
  imports N00n_Prelude "HOL-Library.Multiset"
begin

text \<open>
  The queue of work that the UI hands to the agent loop (\<open>crates/n00n-ui/src/agent/shared_queue.rs\<close>):
  the deque behind a mutex, the generation counter and the one-slot notify channel. Every method locks
  the deque for its whole effect, so that it is one step of the shared state.

  The agent's input, the metadata of a control delivery and JSON values are type parameters. The flag
  \<open>ready\<close> of a message is written by \<open>mark_submission_ready\<close> alone and is kept in the message.
\<close>

section \<open>Items\<close>

datatype delivery = TurnEnd | Steering | Immediate

datatype ('i, 'm, 'v) queue_item =
    Message (msg_text: str) (msg_image_count: usize) (msg_input: 'i) (msg_run_id: u64) (msg_submission_id: u64)
      (msg_ready: bool) (msg_displayed: bool) (msg_delivery: delivery) (msg_run_delivery: "'m option")
  | Compact u64
  | DirectTool u64 str 'v

fun run_id_of :: "('i, 'm, 'v) queue_item \<Rightarrow> u64" where
  "run_id_of (Message _ _ _ run_id _ _ _ _ _) = run_id"
| "run_id_of (Compact run_id) = run_id"
| "run_id_of (DirectTool run_id _ _) = run_id"

datatype 'i extracted_command = Interrupt 'i u64 | CompactCmd u64

fun into_extracted_command :: "('i, 'm, 'v) queue_item \<Rightarrow> 'i extracted_command option" where
  "into_extracted_command (Message _ _ input run_id _ _ _ _ _) = Some (Interrupt input run_id)"
| "into_extracted_command (Compact run_id) = Some (CompactCmd run_id)"
| "into_extracted_command (DirectTool _ _ _) = None"

fun visible_in_panel :: "('i, 'm, 'v) queue_item \<Rightarrow> bool" where
  "visible_in_panel (Message _ _ _ _ _ _ displayed _ _) = (\<not> displayed)"
| "visible_in_panel (Compact _) = True"
| "visible_in_panel (DirectTool _ _ _) = False"

fun is_ready :: "('i, 'm, 'v) queue_item \<Rightarrow> bool" where
  "is_ready (Message _ _ _ _ _ ready _ _ _) = ready"
| "is_ready (Compact _) = True"
| "is_ready (DirectTool _ _ _) = True"

fun blocks_dispatch :: "('i, 'm, 'v) queue_item \<Rightarrow> bool" where
  "blocks_dispatch (Message _ _ _ _ _ ready _ _ _) = (\<not> ready)"
| "blocks_dispatch _ = False"

fun is_submission :: "u64 \<Rightarrow> ('i, 'm, 'v) queue_item \<Rightarrow> bool" where
  "is_submission s (Message _ _ _ _ submission_id _ _ _ _) = (submission_id = s)"
| "is_submission s _ = False"

section \<open>The queue\<close>

record ('i, 'm, 'v) shared_queue =
  sq_items :: "('i, 'm, 'v) queue_item list"
  sq_generation :: u64
  sq_notified :: bool

definition queue :: "('i, 'm, 'v) shared_queue" where
  "queue = \<lparr>sq_items = [], sq_generation = 0, sq_notified = False\<rparr>"

text \<open>\<open>try_send\<close> on the channel of capacity one.\<close>

definition wake :: "('i, 'm, 'v) shared_queue \<Rightarrow> ('i, 'm, 'v) shared_queue" where
  "wake q = q\<lparr>sq_notified := True\<rparr>"

definition commit_items :: "('i, 'm, 'v) queue_item list \<Rightarrow> ('i, 'm, 'v) shared_queue \<Rightarrow> ('i, 'm, 'v) shared_queue" where
  "commit_items items q = wake (q\<lparr>sq_items := items, sq_generation := sq_generation q + 1\<rparr>)"

text \<open>\<open>iter().enumerate().find_map\<close> and \<open>enumerate().filter(..).nth(n)\<close>.\<close>

fun find_index :: "('a \<Rightarrow> bool) \<Rightarrow> 'a list \<Rightarrow> nat option" where
  "find_index p [] = None"
| "find_index p (x # xs) = (if p x then Some 0 else map_option Suc (find_index p xs))"

fun nth_index :: "('a \<Rightarrow> bool) \<Rightarrow> 'a list \<Rightarrow> nat \<Rightarrow> nat option" where
  "nth_index p [] n = None"
| "nth_index p (x # xs) n =
     (if p x then (case n of 0 \<Rightarrow> Some 0 | Suc m \<Rightarrow> map_option Suc (nth_index p xs m))
      else map_option Suc (nth_index p xs n))"

text \<open>\<open>VecDeque::remove\<close> and \<open>VecDeque::insert\<close>; an insertion beyond the end panics, which the callers
exclude.\<close>

definition deque_remove :: "nat \<Rightarrow> 'a list \<Rightarrow> 'a option \<times> 'a list" where
  "deque_remove i xs = (if i < length xs then (Some (xs ! i), take i xs @ drop (Suc i) xs) else (None, xs))"

definition deque_insert :: "nat \<Rightarrow> 'a \<Rightarrow> 'a list \<Rightarrow> 'a list" where
  "deque_insert i x xs = take i xs @ x # drop i xs"

definition push :: "('i, 'm, 'v) queue_item \<Rightarrow> ('i, 'm, 'v) shared_queue \<Rightarrow> ('i, 'm, 'v) shared_queue" where
  "push entry q = commit_items (sq_items q @ [entry]) q"

definition push_front_if_missing ::
  "('i, 'm, 'v) queue_item \<Rightarrow> ('i, 'm, 'v) shared_queue \<Rightarrow> ('i, 'm, 'v) shared_queue" where
  "push_front_if_missing entry q = (case entry of
     Message _ _ _ _ submission_id _ _ _ _ \<Rightarrow>
       if list_ex (is_submission submission_id) (sq_items q) then q else commit_items (entry # sq_items q) q
   | _ \<Rightarrow> q)"

definition panel_index :: "('i, 'm, 'v) queue_item list \<Rightarrow> nat \<Rightarrow> nat option" where
  "panel_index items index = nth_index visible_in_panel items index"

definition remove_panel ::
  "nat \<Rightarrow> ('i, 'm, 'v) shared_queue \<Rightarrow> ('i, 'm, 'v) queue_item option \<times> ('i, 'm, 'v) shared_queue" where
  "remove_panel index q = (case panel_index (sq_items q) index of
     None \<Rightarrow> (None, q)
   | Some i \<Rightarrow> let (removed, items) = deque_remove i (sq_items q) in (removed, commit_items items q))"

definition insert_panel ::
  "nat \<Rightarrow> ('i, 'm, 'v) queue_item \<Rightarrow> ('i, 'm, 'v) shared_queue \<Rightarrow> ('i, 'm, 'v) shared_queue" where
  "insert_panel index entry q =
     (let i = (case panel_index (sq_items q) index of None \<Rightarrow> length (sq_items q) | Some i \<Rightarrow> i)
      in commit_items (deque_insert i entry (sq_items q)) q)"

fun is_steering :: "('i, 'm, 'v) queue_item \<Rightarrow> bool" where
  "is_steering (Message _ _ _ _ _ _ _ delivery _) = (delivery = Steering)"
| "is_steering _ = False"

fun set_immediate :: "('i, 'm, 'v) queue_item \<Rightarrow> ('i, 'm, 'v) queue_item" where
  "set_immediate (Message text n input run_id sid ready displayed _ rd) =
     Message text n input run_id sid ready displayed Immediate rd"
| "set_immediate item = item"

fun update_first :: "('a \<Rightarrow> bool) \<Rightarrow> ('a \<Rightarrow> 'a) \<Rightarrow> 'a list \<Rightarrow> 'a list option" where
  "update_first p f [] = None"
| "update_first p f (x # xs) = (if p x then Some (f x # xs) else map_option ((#) x) (update_first p f xs))"

definition promote_latest_steering :: "('i, 'm, 'v) shared_queue \<Rightarrow> bool \<times> ('i, 'm, 'v) shared_queue" where
  "promote_latest_steering q = (case update_first is_steering set_immediate (rev (sq_items q)) of
     None \<Rightarrow> (False, q)
   | Some items \<Rightarrow> (True, commit_items (rev items) q))"

definition is_empty :: "('i, 'm, 'v) shared_queue \<Rightarrow> bool" where
  "is_empty q \<longleftrightarrow> sq_items q = []"

definition is_drained :: "u64 \<Rightarrow> ('i, 'm, 'v) shared_queue \<Rightarrow> bool" where
  "is_drained generation q \<longleftrightarrow> sq_items q = [] \<and> sq_generation q = generation"

definition clear_queue :: "('i, 'm, 'v) shared_queue \<Rightarrow> ('i, 'm, 'v) shared_queue" where
  "clear_queue q = q\<lparr>sq_items := []\<rparr>"

definition drain_all ::
  "('i, 'm, 'v) shared_queue \<Rightarrow> ('i, 'm, 'v) queue_item list \<times> ('i, 'm, 'v) shared_queue" where
  "drain_all q = (sq_items q, wake (q\<lparr>sq_items := []\<rparr>))"

definition remove_submission :: "u64 \<Rightarrow> ('i, 'm, 'v) shared_queue \<Rightarrow> ('i, 'm, 'v) shared_queue" where
  "remove_submission s q =
     (let items = filter (\<lambda>item. \<not> is_submission s item) (sq_items q);
          q' = q\<lparr>sq_items := items\<rparr>
      in if length items \<noteq> length (sq_items q) then wake q' else q')"

fun set_ready :: "'i \<Rightarrow> ('i, 'm, 'v) queue_item \<Rightarrow> ('i, 'm, 'v) queue_item" where
  "set_ready input (Message text n _ run_id sid _ displayed delivery rd) =
     Message text n input run_id sid True displayed delivery rd"
| "set_ready input item = item"

definition mark_submission_ready ::
  "u64 \<Rightarrow> 'i \<Rightarrow> ('i, 'm, 'v) shared_queue \<Rightarrow> bool \<times> ('i, 'm, 'v) shared_queue" where
  "mark_submission_ready s input q = (case update_first (is_submission s) (set_ready input) (sq_items q) of
     None \<Rightarrow> (False, q)
   | Some items \<Rightarrow> (True, commit_items items q))"

fun message_text :: "('i, 'm, 'v) queue_item \<Rightarrow> str option" where
  "message_text (Message text _ _ _ _ _ _ _ _) = Some text"
| "message_text _ = None"

definition text_messages :: "('i, 'm, 'v) shared_queue \<Rightarrow> str list" where
  "text_messages q = List.map_filter message_text (filter visible_in_panel (sq_items q))"

fun queued_input :: "('i, 'm, 'v) queue_item \<Rightarrow> ('i \<times> delivery \<times> 'm option) option" where
  "queued_input (Message _ _ input _ _ _ _ delivery run_delivery) = Some (input, delivery, run_delivery)"
| "queued_input _ = None"

definition queued_inputs :: "('i, 'm, 'v) shared_queue \<Rightarrow> ('i \<times> delivery \<times> 'm option) list" where
  "queued_inputs q = List.map_filter queued_input (sq_items q)"

fun direct_tool :: "('i, 'm, 'v) queue_item \<Rightarrow> (str \<times> 'v) option" where
  "direct_tool (DirectTool _ tool input) = Some (tool, input)"
| "direct_tool _ = None"

definition direct_tools :: "('i, 'm, 'v) shared_queue \<Rightarrow> (str \<times> 'v) list" where
  "direct_tools q = List.map_filter direct_tool (sq_items q)"

definition panel_len :: "('i, 'm, 'v) shared_queue \<Rightarrow> nat" where
  "panel_len q = length (filter visible_in_panel (sq_items q))"

section \<open>The receiver\<close>

text \<open>The first index that satisfies the test and has no blocking item before it.\<close>

definition first_unblocked :: "(('i, 'm, 'v) queue_item \<Rightarrow> bool) \<Rightarrow> ('i, 'm, 'v) queue_item list \<Rightarrow> nat option" where
  "first_unblocked p items = find_index
     (\<lambda>(index, item). is_ready item \<and> \<not> list_ex blocks_dispatch (take index items) \<and> p item) (List.enumerate 0 items)"

fun poppable :: "('i, 'm, 'v) queue_item \<Rightarrow> bool" where
  "poppable (Message _ _ _ _ _ _ _ delivery _) = (delivery = TurnEnd)"
| "poppable (Compact _) = True"
| "poppable (DirectTool _ _ _) = True"

definition pop ::
  "('i, 'm, 'v) shared_queue \<Rightarrow> ('i, 'm, 'v) queue_item option \<times> ('i, 'm, 'v) shared_queue" where
  "pop q = (case first_unblocked poppable (sq_items q) of
     None \<Rightarrow> (None, q)
   | Some i \<Rightarrow> let (item, items) = deque_remove i (sq_items q) in (item, q\<lparr>sq_items := items\<rparr>))"

definition drain_generation :: "('i, 'm, 'v) shared_queue \<Rightarrow> u64 option" where
  "drain_generation q = (if sq_items q = [] then Some (sq_generation q) else None)"

text \<open>\<open>recv_notify\<close> once the channel has a message: it takes the message.\<close>

definition recv_notify :: "('i, 'm, 'v) shared_queue \<Rightarrow> ('i, 'm, 'v) shared_queue" where
  "recv_notify q = q\<lparr>sq_notified := False\<rparr>"

datatype interrupt_point = Safe | ToolComplete

fun dispatchable_at :: "interrupt_point \<Rightarrow> ('i, 'm, 'v) queue_item \<Rightarrow> bool" where
  "dispatchable_at point (Message _ _ _ _ _ _ _ delivery _) = (case delivery of
     TurnEnd \<Rightarrow> False
   | Steering \<Rightarrow> point = ToolComplete \<or> point = Safe
   | Immediate \<Rightarrow> True)"
| "dispatchable_at point (Compact _) = (point = Safe)"
| "dispatchable_at point (DirectTool _ _ _) = False"

definition next_dispatchable_index :: "('i, 'm, 'v) queue_item list \<Rightarrow> interrupt_point \<Rightarrow> nat option" where
  "next_dispatchable_index items point = first_unblocked (dispatchable_at point) items"

definition poll ::
  "interrupt_point \<Rightarrow> ('i, 'm, 'v) shared_queue \<Rightarrow> 'i extracted_command option \<times> ('i, 'm, 'v) shared_queue" where
  "poll point q = (case next_dispatchable_index (sq_items q) point of
     None \<Rightarrow> (None, q)
   | Some i \<Rightarrow> let (item, items) = deque_remove i (sq_items q)
              in (Option.bind item into_extracted_command, q\<lparr>sq_items := items\<rparr>))"

definition peek_pending_image_count :: "interrupt_point \<Rightarrow> ('i, 'm, 'v) shared_queue \<Rightarrow> usize" where
  "peek_pending_image_count point q = (case next_dispatchable_index (sq_items q) point of
     None \<Rightarrow> 0
   | Some i \<Rightarrow> (case sq_items q ! i of Message _ n _ _ _ _ _ _ _ \<Rightarrow> n | _ \<Rightarrow> 0))"

section \<open>Which item is dispatched\<close>

lemma find_index_Some:
  "find_index p xs = Some i \<longleftrightarrow> i < length xs \<and> p (xs ! i) \<and> (\<forall>j < i. \<not> p (xs ! j))"
proof (induction xs arbitrary: i)
  case (Cons x xs)
  then show ?case by (cases i) (auto simp: less_Suc_eq_0_disj)
qed simp

lemma find_index_None: "find_index p xs = None \<longleftrightarrow> (\<forall>x \<in> set xs. \<not> p x)"
  by (induction xs) auto

lemma not_ready: "\<not> is_ready item \<longleftrightarrow> blocks_dispatch item"
  by (cases item) simp_all

lemma list_ex_take: "i \<le> length xs \<Longrightarrow> list_ex p (take i xs) \<longleftrightarrow> (\<exists>j < i. p (xs ! j))"
  by (auto simp: list_ex_length)

lemma first_unblocked_Some:
  "first_unblocked p items = Some i \<longleftrightarrow>
     i < length items \<and> p (items ! i) \<and> (\<forall>j \<le> i. is_ready (items ! j)) \<and> (\<forall>j < i. \<not> p (items ! j))"
proof -
  have nth: "List.enumerate 0 items ! j = (j, items ! j)" if "j < length items" for j
    using that by (simp add: nth_enumerate_eq)
  have free: "list_ex blocks_dispatch (take j items) \<longleftrightarrow> (\<exists>k < j. \<not> is_ready (items ! k))" if "j < length items" for j
    using that by (simp add: list_ex_take not_ready)
  show ?thesis
    unfolding first_unblocked_def find_index_Some length_enumerate
    by (auto simp: nth free le_less) (meson less_trans)
qed

lemma first_unblocked_None:
  "first_unblocked p items = None \<longleftrightarrow> (\<forall>i < length items. p (items ! i) \<longrightarrow> (\<exists>j \<le> i. \<not> is_ready (items ! j)))"
proof
  assume none: "first_unblocked p items = None"
  show "\<forall>i < length items. p (items ! i) \<longrightarrow> (\<exists>j \<le> i. \<not> is_ready (items ! j))"
  proof (intro allI impI, rule ccontr)
    fix i assume i: "i < length items" "p (items ! i)" "\<not> (\<exists>j \<le> i. \<not> is_ready (items ! j))"
    define k where "k = (LEAST k. p (items ! k))"
    have "p (items ! k)" "k \<le> i" "\<forall>j < k. \<not> p (items ! j)"
      unfolding k_def using i(2) by (auto intro: LeastI Least_le dest: not_less_Least)
    with i have "first_unblocked p items = Some k" by (simp add: first_unblocked_Some)
    with none show False by simp
  qed
next
  assume blocked: "\<forall>i < length items. p (items ! i) \<longrightarrow> (\<exists>j \<le> i. \<not> is_ready (items ! j))"
  show "first_unblocked p items = None"
  proof (cases "first_unblocked p items")
    case (Some i)
    with blocked show ?thesis by (auto simp: first_unblocked_Some)
  qed
qed

lemma first_unblocked_split:
  assumes "first_unblocked p items = Some i"
  shows "items = take i items @ items ! i # drop (Suc i) items" "list_all is_ready (take i items)" "is_ready (items ! i)"
    "p (items ! i)" "list_all (\<lambda>x. \<not> p x) (take i items)"
proof -
  have i: "i < length items" "p (items ! i)" "\<forall>j \<le> i. is_ready (items ! j)" "\<forall>j < i. \<not> p (items ! j)"
    using assms by (simp_all add: first_unblocked_Some)
  show "items = take i items @ items ! i # drop (Suc i) items" using i by (simp add: id_take_nth_drop)
  show "list_all is_ready (take i items)" "is_ready (items ! i)" "p (items ! i)" "list_all (\<lambda>x. \<not> p x) (take i items)"
    using i by (auto simp: list_all_length)
qed

section \<open>Sequences of operations\<close>

text \<open>The operations of both ends, with what each of them takes out of the queue.\<close>

datatype ('i, 'm, 'v) queue_op = Push "('i, 'm, 'v) queue_item" | PushFrontIfMissing "('i, 'm, 'v) queue_item" | RemovePanel nat
  | InsertPanel nat "('i, 'm, 'v) queue_item" | PromoteLatestSteering | ClearQueue | DrainAll | RemoveSubmission u64
  | MarkSubmissionReady u64 'i | Pop | Poll interrupt_point | RecvNotify

fun queue_step :: "('i, 'm, 'v) queue_op \<Rightarrow> ('i, 'm, 'v) shared_queue \<Rightarrow> ('i, 'm, 'v) shared_queue" where
  "queue_step (Push entry) q = push entry q"
| "queue_step (PushFrontIfMissing entry) q = push_front_if_missing entry q"
| "queue_step (RemovePanel index) q = snd (remove_panel index q)"
| "queue_step (InsertPanel index entry) q = insert_panel index entry q"
| "queue_step PromoteLatestSteering q = snd (promote_latest_steering q)"
| "queue_step ClearQueue q = clear_queue q"
| "queue_step DrainAll q = snd (drain_all q)"
| "queue_step (RemoveSubmission s) q = remove_submission s q"
| "queue_step (MarkSubmissionReady s input) q = snd (mark_submission_ready s input q)"
| "queue_step Pop q = snd (pop q)"
| "queue_step (Poll point) q = snd (poll point q)"
| "queue_step RecvNotify q = recv_notify q"

definition queue_run :: "('i, 'm, 'v) queue_op list \<Rightarrow> ('i, 'm, 'v) shared_queue \<Rightarrow> ('i, 'm, 'v) shared_queue" where
  "queue_run ops q = fold queue_step ops q"

lemma commit_items_sel [simp]: "sq_items (commit_items items q) = items" "sq_generation (commit_items items q) = sq_generation q + 1"
  "sq_notified (commit_items items q) = True"
  by (simp_all add: commit_items_def wake_def)

lemma nth_index_None_Nil [simp]: "panel_index [] n = None" "first_unblocked p [] = None"
  by (simp_all add: panel_index_def first_unblocked_def)

text \<open>A step leaves the generation or adds one to it, and adds one whenever it fills an empty queue.\<close>

lemma queue_step_generation:
  "sq_generation (queue_step op q) = sq_generation q + 1
   \<or> sq_generation (queue_step op q) = sq_generation q \<and> (sq_items q = [] \<longrightarrow> sq_items (queue_step op q) = [])"
  by (cases op)
    (auto simp: push_def push_front_if_missing_def remove_panel_def insert_panel_def promote_latest_steering_def clear_queue_def
      drain_all_def remove_submission_def mark_submission_ready_def pop_def poll_def recv_notify_def wake_def Let_def deque_remove_def
      next_dispatchable_index_def split: queue_item.splits option.splits)

lemma queue_run_generation:
  "\<exists>k \<le> length ops. sq_generation (queue_run ops q) = sq_generation q + of_nat k
     \<and> (k = 0 \<longrightarrow> sq_items q = [] \<longrightarrow> (\<forall>n. sq_items (queue_run (take n ops) q) = []))"
proof (induction ops arbitrary: q)
  case (Cons op ops)
  from Cons.IH [of "queue_step op q"] obtain k where k: "k \<le> length ops"
    "sq_generation (queue_run ops (queue_step op q)) = sq_generation (queue_step op q) + of_nat k"
    "k = 0 \<longrightarrow> sq_items (queue_step op q) = [] \<longrightarrow> (\<forall>n. sq_items (queue_run (take n ops) (queue_step op q)) = [])"
    by blast
  show ?case
  proof (cases "sq_generation (queue_step op q) = sq_generation q + 1")
    case True
    with k show ?thesis by (intro exI [of _ "Suc k"]) (simp add: queue_run_def)
  next
    case False
    with queue_step_generation [of op q] have
      s: "sq_generation (queue_step op q) = sq_generation q" "sq_items q = [] \<longrightarrow> sq_items (queue_step op q) = []" by auto
    have "sq_items (queue_run (take n (op # ops)) q) = []" if "k = 0" "sq_items q = []" for n
      using k(3) s that by (cases n) (simp_all add: queue_run_def)
    with k s show ?thesis by (intro exI [of _ k]) (simp add: queue_run_def)
  qed
qed (simp add: queue_run_def)

text \<open>What identifies an item: its kind, its run and its submission or tool. Becoming ready and being promoted
leave it.\<close>

datatype item_key = KMessage u64 u64 | KCompact u64 | KTool u64 str

fun key_of :: "('i, 'm, 'v) queue_item \<Rightarrow> item_key" where
  "key_of (Message _ _ _ run_id sid _ _ _ _) = KMessage run_id sid"
| "key_of (Compact run_id) = KCompact run_id"
| "key_of (DirectTool run_id tool _) = KTool run_id tool"

definition keys :: "('i, 'm, 'v) shared_queue \<Rightarrow> item_key multiset" where
  "keys q = mset (map key_of (sq_items q))"

text \<open>What a step adds to the queue.\<close>

fun added :: "('i, 'm, 'v) queue_op \<Rightarrow> ('i, 'm, 'v) shared_queue \<Rightarrow> item_key multiset" where
  "added (Push entry) q = {#key_of entry#}"
| "added (InsertPanel index entry) q = {#key_of entry#}"
| "added (PushFrontIfMissing entry) q = (case entry of
     Message _ _ _ _ sid _ _ _ _ \<Rightarrow> if list_ex (is_submission sid) (sq_items q) then {#} else {#key_of entry#}
   | _ \<Rightarrow> {#})"
| "added _ q = {#}"

text \<open>What a step hands to its caller, and what it discards.\<close>

definition option_key :: "('i, 'm, 'v) queue_item option \<Rightarrow> item_key multiset" where
  "option_key x = (case x of None \<Rightarrow> {#} | Some item \<Rightarrow> {#key_of item#})"

fun taken :: "('i, 'm, 'v) queue_op \<Rightarrow> ('i, 'm, 'v) shared_queue \<Rightarrow> item_key multiset" where
  "taken (RemovePanel index) q = option_key (fst (remove_panel index q))"
| "taken Pop q = option_key (fst (pop q))"
| "taken (Poll point) q = (case next_dispatchable_index (sq_items q) point of
     None \<Rightarrow> {#} | Some i \<Rightarrow> {#key_of (sq_items q ! i)#})"
| "taken DrainAll q = mset (map key_of (fst (drain_all q)))"
| "taken ClearQueue q = keys q"
| "taken (RemoveSubmission s) q = mset (map key_of (filter (is_submission s) (sq_items q)))"
| "taken _ q = {#}"

lemma deque_remove_keys:
  "i < length xs \<Longrightarrow> mset (map f (snd (deque_remove i xs))) + {#f (xs ! i)#} = mset (map f xs)"
  by (subst (3) id_take_nth_drop [of i xs]) (simp_all add: deque_remove_def)

lemma deque_insert_keys: "mset (map f (deque_insert i x xs)) = mset (map f xs) + {#f x#}"
  by (subst (2) append_take_drop_id [of i xs, symmetric]) (simp add: deque_insert_def del: append_take_drop_id)

lemma key_of_updates [simp]: "key_of (set_immediate x) = key_of x" "key_of (set_ready input x) = key_of x"
  by (cases x; simp)+

lemma update_first_keys: "update_first p f xs = Some ys \<Longrightarrow> (\<And>x. g (f x) = g x) \<Longrightarrow> map g ys = map g xs"
  by (induction xs arbitrary: ys) (auto split: if_splits)

lemma nth_index_length: "nth_index p xs n = Some i \<Longrightarrow> i < length xs \<and> p (xs ! i)"
  by (induction xs arbitrary: n i) (auto split: if_splits nat.splits)

lemma filter_partition_keys: "mset (map f (filter (\<lambda>x. \<not> p x) xs)) + mset (map f (filter p xs)) = mset (map f xs)"
  by (induction xs) auto

lemma queue_step_conserves: "keys (queue_step op q) + taken op q = keys q + added op q"
proof (cases op)
  case (Push entry)
  then show ?thesis by (simp add: keys_def push_def)
next
  case (PushFrontIfMissing entry)
  then show ?thesis by (cases entry) (simp_all add: keys_def push_front_if_missing_def)
next
  case (RemovePanel index)
  show ?thesis
  proof (cases "panel_index (sq_items q) index")
    case (Some i)
    then have i: "i < length (sq_items q)" by (auto simp: panel_index_def dest: nth_index_length)
    have "fst (deque_remove i (sq_items q)) = Some (sq_items q ! i)" using i by (simp add: deque_remove_def)
    with Some RemovePanel deque_remove_keys [OF i, of key_of] show ?thesis
      by (simp add: keys_def remove_panel_def option_key_def case_prod_beta)
  qed (simp add: RemovePanel remove_panel_def option_key_def)
next
  case (InsertPanel index entry)
  then show ?thesis by (simp add: keys_def insert_panel_def deque_insert_keys Let_def del: mset_map)
next
  case PromoteLatestSteering
  show ?thesis
  proof (cases "update_first is_steering set_immediate (rev (sq_items q))")
    case (Some items)
    then have "map key_of items = map key_of (rev (sq_items q))" by (rule update_first_keys) simp
    then have "mset (map key_of items) = mset (map key_of (sq_items q))" by simp
    with Some PromoteLatestSteering show ?thesis by (simp add: keys_def promote_latest_steering_def)
  qed (simp add: PromoteLatestSteering promote_latest_steering_def)
next
  case (MarkSubmissionReady s input)
  show ?thesis
  proof (cases "update_first (is_submission s) (set_ready input) (sq_items q)")
    case (Some items)
    then have "map key_of items = map key_of (sq_items q)" by (rule update_first_keys) simp
    with Some MarkSubmissionReady show ?thesis by (simp add: keys_def mark_submission_ready_def)
  qed (simp add: MarkSubmissionReady mark_submission_ready_def)
next
  case Pop
  show ?thesis
  proof (cases "first_unblocked poppable (sq_items q)")
    case (Some i)
    then have i: "i < length (sq_items q)" by (simp add: first_unblocked_Some)
    have "fst (deque_remove i (sq_items q)) = Some (sq_items q ! i)" using i by (simp add: deque_remove_def)
    with Some Pop deque_remove_keys [OF i, of key_of] show ?thesis
      by (simp add: keys_def pop_def option_key_def case_prod_beta)
  qed (simp add: Pop pop_def option_key_def)
next
  case (Poll point)
  show ?thesis
  proof (cases "next_dispatchable_index (sq_items q) point")
    case (Some i)
    then have i: "i < length (sq_items q)" by (simp add: next_dispatchable_index_def first_unblocked_Some)
    with Some Poll deque_remove_keys [OF i, of key_of] show ?thesis by (simp add: keys_def poll_def case_prod_beta)
  qed (simp add: Poll poll_def)
next
  case (RemoveSubmission s)
  then show ?thesis using filter_partition_keys [of key_of "is_submission s" "sq_items q"]
    by (simp add: keys_def remove_submission_def Let_def wake_def)
next
  case ClearQueue
  then show ?thesis by (simp add: keys_def clear_queue_def)
next
  case DrainAll
  then show ?thesis by (simp add: keys_def drain_all_def wake_def)
next
  case RecvNotify
  then show ?thesis by (simp add: keys_def recv_notify_def)
qed

fun run_added :: "('i, 'm, 'v) queue_op list \<Rightarrow> ('i, 'm, 'v) shared_queue \<Rightarrow> item_key multiset" where
  "run_added [] q = {#}"
| "run_added (op # ops) q = added op q + run_added ops (queue_step op q)"

fun run_taken :: "('i, 'm, 'v) queue_op list \<Rightarrow> ('i, 'm, 'v) shared_queue \<Rightarrow> item_key multiset" where
  "run_taken [] q = {#}"
| "run_taken (op # ops) q = taken op q + run_taken ops (queue_step op q)"

section \<open>The panel\<close>

lemma panel_remove_insert:
  assumes "nth_index p xs n = Some i"
  shows "filter p (take i xs @ drop (Suc i) xs) = take n (filter p xs) @ drop (Suc n) (filter p xs)"
    and "xs ! i = filter p xs ! n" and "n < length (filter p xs)"
  using assms
proof (induction xs arbitrary: n i)
  case (Cons x xs)
  { case 1 with Cons.IH show ?case by (cases n) (auto split: if_splits) }
  { case 2 with Cons.IH show ?case by (cases n) (auto split: if_splits) }
  { case 3 with Cons.IH show ?case by (cases n) (auto split: if_splits) }
qed simp_all

lemma nth_index_None: "nth_index p xs n = None \<longleftrightarrow> length (filter p xs) \<le> n"
proof (induction xs arbitrary: n)
  case (Cons x xs)
  then show ?case by (cases n) auto
qed simp

lemma panel_insert:
  assumes "p x" "n \<le> length (filter p xs)"
  shows "filter p (deque_insert (case nth_index p xs n of None \<Rightarrow> length xs | Some i \<Rightarrow> i) x xs)
    = take n (filter p xs) @ x # drop n (filter p xs)"
  using assms(2)
proof (induction xs arbitrary: n)
  case (Cons y ys)
  show ?case
  proof (cases "p y \<and> n = 0")
    case True
    with assms(1) show ?thesis by (simp add: deque_insert_def)
  next
    case False
    let ?m = "if p y then n - 1 else n"
    from False Cons.prems have "?m \<le> length (filter p ys)" by (auto split: if_splits)
    with Cons.IH [of ?m] False assms(1) show ?thesis
      by (cases n; cases "nth_index p ys ?m") (auto simp: deque_insert_def split: if_splits)
  qed
qed (simp add: deque_insert_def assms(1))

section \<open>Guarantees\<close>

definition demo_queue :: "(nat, unit, unit) shared_queue" where
  "demo_queue = \<lparr>sq_items = [Message ''a'' 0 10 1 1 True False TurnEnd None, Message ''b'' 2 20 1 2 True False Steering None,
     Message ''c'' 0 30 1 3 False False Immediate None], sq_generation = 3, sq_notified = True\<rparr>"

text \<open>The agent is given work in the order the user submitted it: the item that ends a turn is the
first one of the queue that may end a turn, everything before it is ready, and it is the only one to
leave; nothing is handed out exactly when every such item stands behind, or is, a submission whose
persistence is still pending.\<close>

lemma pop_in_order:
  "case pop q of
     (Some item, q') \<Rightarrow> \<exists>before after. sq_items q = before @ item # after \<and> sq_items q' = before @ after
        \<and> list_all is_ready (before @ [item]) \<and> poppable item \<and> list_all (\<lambda>x. \<not> poppable x) before
   | (None, q') \<Rightarrow> q' = q \<and> (\<forall>i < length (sq_items q). poppable (sq_items q ! i) \<longrightarrow> (\<exists>j \<le> i. blocks_dispatch (sq_items q ! j)))"
proof (cases "first_unblocked poppable (sq_items q)")
  case None
  then have "pop q = (None, q)" by (simp add: pop_def)
  with None show ?thesis by (simp add: first_unblocked_None not_ready)
next
  case (Some i)
  note split = first_unblocked_split [OF Some]
  have "i < length (sq_items q)" using Some by (simp add: first_unblocked_Some)
  with Some have "pop q = (Some (sq_items q ! i), q\<lparr>sq_items := take i (sq_items q) @ drop (Suc i) (sq_items q)\<rparr>)"
    by (simp add: pop_def deque_remove_def)
  moreover have "\<exists>before after. sq_items q = before @ sq_items q ! i # after
      \<and> take i (sq_items q) @ drop (Suc i) (sq_items q) = before @ after
      \<and> list_all is_ready (before @ [sq_items q ! i]) \<and> poppable (sq_items q ! i) \<and> list_all (\<lambda>x. \<not> poppable x) before"
    by (rule exI [of _ "take i (sq_items q)"], rule exI [of _ "drop (Suc i) (sq_items q)"]) (use split in simp)
  ultimately show ?thesis by simp
qed

lemma pop_in_order_example:
  "\<exists>before after. sq_items demo_queue = before @ Message ''a'' 0 10 1 1 True False TurnEnd None # after
     \<and> list_all (\<lambda>x. \<not> poppable x) before"
  using pop_in_order [of demo_queue] by (auto simp: pop_def demo_queue_def first_unblocked_def deque_remove_def)

text \<open>An interrupt never overtakes a submission that is not persisted, never consumes a message that
waits for the end of the turn or a direct tool, and a compaction only leaves at a safe point; the image
count that is announced is that of the message the poll then returns.\<close>

lemma poll_respects_order:
  assumes "poll point q = (Some command, q')"
  shows "\<exists>before item after. sq_items q = before @ item # after \<and> sq_items q' = before @ after
    \<and> list_all is_ready (before @ [item]) \<and> into_extracted_command item = Some command
    \<and> (case item of
        Message _ n _ _ _ _ _ delivery _ \<Rightarrow> delivery \<noteq> TurnEnd \<and> peek_pending_image_count point q = n
      | Compact _ \<Rightarrow> point = Safe \<and> peek_pending_image_count point q = 0
      | DirectTool _ _ _ \<Rightarrow> False)"
proof (cases "next_dispatchable_index (sq_items q) point")
  case None
  with assms show ?thesis by (simp add: poll_def)
next
  case (Some i)
  note split = first_unblocked_split [OF Some [unfolded next_dispatchable_index_def]]
  have i: "i < length (sq_items q)" using Some by (simp add: next_dispatchable_index_def first_unblocked_Some)
  have q': "sq_items q' = take i (sq_items q) @ drop (Suc i) (sq_items q)" "into_extracted_command (sq_items q ! i) = Some command"
    using assms Some i by (auto simp: poll_def deque_remove_def)
  show ?thesis
    using split q' Some
    by (intro exI [of _ "take i (sq_items q)"] exI [of _ "sq_items q ! i"] exI [of _ "drop (Suc i) (sq_items q)"])
      (auto simp: peek_pending_image_count_def split: queue_item.splits delivery.splits)
qed

lemma poll_respects_order_example:
  "\<exists>before item after. sq_items demo_queue = before @ item # after \<and> into_extracted_command item = Some (Interrupt 20 1)
     \<and> list_all is_ready (before @ [item])"
proof -
  have "poll ToolComplete demo_queue = (Some (Interrupt 20 1), demo_queue\<lparr>sq_items := [Message ''a'' 0 10 1 1 True False TurnEnd None,
     Message ''c'' 0 30 1 3 False False Immediate None]\<rparr>)"
    by (simp add: demo_queue_def poll_def next_dispatchable_index_def first_unblocked_def deque_remove_def)
  from poll_respects_order [OF this] show ?thesis by blast
qed


text \<open>The test for a drained queue sees through the window between two looks at the queue: when the
receiver has found it empty at a generation and the sender later finds it empty at the same generation,
with fewer than two to the power of 64 operations in between, then no item was in it at any time in
between.\<close>

lemma drained_means_untouched:
  assumes "drain_generation q = Some g" "is_drained g (queue_run ops q)" "length ops < 2 ^ 64"
  shows "sq_items (queue_run (take n ops) q) = []"
proof -
  have q: "sq_items q = []" "sq_generation q = g" using assms(1) by (auto simp: drain_generation_def split: if_splits)
  obtain k where k: "k \<le> length ops" "sq_generation (queue_run ops q) = sq_generation q + of_nat k"
    "k = 0 \<longrightarrow> sq_items q = [] \<longrightarrow> (\<forall>n. sq_items (queue_run (take n ops) q) = [])"
    using queue_run_generation by blast
  have "(of_nat k :: u64) = 0" using k(2) q assms(2) by (simp add: is_drained_def)
  then have "2 ^ LENGTH(64) dvd k" by (simp only: word_of_nat_eq_0_iff)
  moreover have "k < 2 ^ LENGTH(64)" using k(1) assms(3) by simp
  ultimately have "k = 0" by (meson gr0I nat_dvd_not_less)
  with k(3) q show ?thesis by blast
qed

lemma drained_means_untouched_example:
  "sq_items (queue_run (take 1 [RecvNotify, ClearQueue]) (queue :: (nat, unit, unit) shared_queue)) = []"
  by (rule drained_means_untouched [of _ 0])
    (simp_all add: drain_generation_def queue_def is_drained_def queue_run_def recv_notify_def clear_queue_def)

text \<open>Putting a removed entry back at its place in the panel restores the panel as it was shown.\<close>

lemma panel_remove_insert_round_trip:
  assumes "remove_panel n q = (Some item, q')"
  shows "filter visible_in_panel (sq_items (insert_panel n item q')) = filter visible_in_panel (sq_items q)"
proof (cases "panel_index (sq_items q) n")
  case None
  with assms show ?thesis by (simp add: remove_panel_def)
next
  case (Some i)
  let ?v = "filter visible_in_panel (sq_items q)"
  have i: "i < length (sq_items q)" "visible_in_panel (sq_items q ! i)"
    using Some nth_index_length by (auto simp: panel_index_def)
  have item: "item = sq_items q ! i" and q': "sq_items q' = take i (sq_items q) @ drop (Suc i) (sq_items q)"
    using assms Some i by (auto simp: remove_panel_def deque_remove_def)
  note r = panel_remove_insert [OF Some [unfolded panel_index_def]]
  have v': "filter visible_in_panel (sq_items q') = take n ?v @ drop (Suc n) ?v" unfolding q' by (rule r(1))
  have "filter visible_in_panel (sq_items (insert_panel n item q'))
      = take n (filter visible_in_panel (sq_items q')) @ item # drop n (filter visible_in_panel (sq_items q'))"
    unfolding insert_panel_def panel_index_def Let_def commit_items_sel
    using i item r(3) by (intro panel_insert) (simp_all add: v')
  also have "\<dots> = take n ?v @ ?v ! n # drop (Suc n) ?v" using r(2,3) item by (simp add: v')
  also have "\<dots> = ?v" using r(3) by (simp add: id_take_nth_drop [symmetric])
  finally show ?thesis .
qed

lemma panel_remove_insert_round_trip_example:
  "\<exists>q'. remove_panel 1 demo_queue = (Some (Message ''b'' 2 20 1 2 True False Steering None), q')
     \<and> filter visible_in_panel (sq_items (insert_panel 1 (Message ''b'' 2 20 1 2 True False Steering None) q')) = sq_items demo_queue"
proof -
  obtain q' where q': "remove_panel 1 demo_queue = (Some (Message ''b'' 2 20 1 2 True False Steering None), q')"
    by (simp add: remove_panel_def demo_queue_def panel_index_def deque_remove_def)
  from panel_remove_insert_round_trip [OF q'] q' show ?thesis by (simp add: demo_queue_def)
qed

end
