(* ===== verification/Tool_Key.thy ===== *)
theory Tool_Key
  imports N00n_Prelude
begin

text \<open>
  The names of tools in permission rules (\<open>crates/n00n-config/src/lib.rs\<close>): the aliases and their
  canonical names, the key of a native tool, an MCP server or an MCP tool, its parser and its printer.
\<close>

section \<open>Names\<close>

definition TOOL_ALIASES :: "(str \<times> str) list" where
  "TOOL_ALIASES =
    [(''agent_control'', ''control_agent''),
     (''agent_list'', ''list_agents''),
     (''agent_status'', ''get_agent''),
     (''batch'', ''run_batch''),
     (''bash'', ''run_shell''),
     (''blackboard'', ''use_blackboard''),
     (''code_execution'', ''run_python''),
     (''codegraph'', ''map_codegraph''),
     (''edit'', ''edit_file''),
     (''edit_lines'', ''edit_file_lines''),
     (''explore'', ''explore_code''),
     (''fusion_delegate'', ''delegate_fusion''),
     (''glob'', ''search_files''),
     (''grep'', ''search_code''),
     (''index'', ''index_file''),
     (''insert_lines'', ''insert_file_lines''),
     (''load_namespace'', ''load_toolset''),
     (''memory'', ''use_memory''),
     (''multi_edit'', ''edit_file_bulk''),
     (''multiedit'', ''edit_file_bulk''),
     (''question'', ''ask_user''),
     (''read'', ''read_file''),
     (''semblem'', ''search_text''),
     (''skill'', ''load_skill''),
     (''task'', ''run_task''),
     (''team'', ''run_team''),
     (''todo_write'', ''update_todo''),
     (''tool_search'', ''search_tools''),
     (''webfetch'', ''fetch_url''),
     (''websearch'', ''search_web''),
     (''workflow'', ''run_workflow''),
     (''write'', ''write_file'')]"

definition canonical_tool_name :: "str \<Rightarrow> str" where
  "canonical_tool_name name = (case map_of TOOL_ALIASES name of None \<Rightarrow> name | Some canonical \<Rightarrow> canonical)"

definition ascii_alphanumeric :: "char \<Rightarrow> bool" where
  "ascii_alphanumeric c \<longleftrightarrow>
     48 \<le> byte c \<and> byte c \<le> 57 \<or> 65 \<le> byte c \<and> byte c \<le> 90 \<or> 97 \<le> byte c \<and> byte c \<le> 122"

definition is_valid_wire_name :: "str \<Rightarrow> bool" where
  "is_valid_wire_name name \<longleftrightarrow> name \<noteq> [] \<and> length name \<le> 64
     \<and> list_all (\<lambda>b. ascii_alphanumeric b \<or> b = CHR ''-'' \<or> b = CHR ''_'') name"

definition is_valid_server_name :: "str \<Rightarrow> bool" where
  "is_valid_server_name name \<longleftrightarrow> name \<noteq> [] \<and> length name \<le> 64
     \<and> list_all (\<lambda>b. ascii_alphanumeric b \<or> b = CHR ''-'') name"

section \<open>Keys\<close>

datatype tool_key = Wildcard | Native str | McpServer str | McpTool str str

datatype tool_key_parse_error = EmptyName | MalformedParts str | InvalidServerName str | InvalidToolName str
  | WireNameTooLong str str usize

text \<open>\<open>split_once('.')\<close>: what is before and after the first dot.\<close>

fun split_once :: "char \<Rightarrow> str \<Rightarrow> (str \<times> str) option" where
  "split_once d [] = None"
| "split_once d (c # s) = (if c = d then Some ([], s) else map_option (\<lambda>(a, b). (c # a, b)) (split_once d s))"

definition parse_tool_key :: "str \<Rightarrow> tool_key_parse_error + tool_key" where
  "parse_tool_key name =
     (if name = [] then Inl EmptyName
      else if name = ''*'' then Inr Wildcard
      else (case split_once (CHR ''.'') name of
          Some (server, tool) \<Rightarrow>
            if server = [] \<or> tool = [] then Inl (MalformedParts name)
            else if tool = ''*'' then
              (if \<not> is_valid_server_name server then Inl (InvalidServerName server) else Inr (McpServer server))
            else if \<not> is_valid_server_name server then Inl (InvalidServerName server)
            else if \<not> is_valid_wire_name tool then Inl (InvalidToolName tool)
            else if 64 < length server + 2 + length tool
            then Inl (WireNameTooLong server tool (length server + 2 + length tool))
            else Inr (McpTool server tool)
        | None \<Rightarrow>
            if \<not> is_valid_wire_name name then Inl (InvalidToolName name)
            else Inr (Native (canonical_tool_name name))))"

text \<open>\<open>ToolKey::native\<close> panics on an empty name or one with a dot.\<close>

definition native :: "str \<Rightarrow> tool_key option" where
  "native name =
     (if name = ''*'' then Some Wildcard
      else if name = [] \<or> CHR ''.'' \<in> set name then None
      else Some (Native (canonical_tool_name name)))"

fun is_mcp :: "tool_key \<Rightarrow> bool" where
  "is_mcp (McpServer _) = True"
| "is_mcp (McpTool _ _) = True"
| "is_mcp _ = False"

fun display_tool_key :: "tool_key \<Rightarrow> str" where
  "display_tool_key Wildcard = ''*''"
| "display_tool_key (Native name) = name"
| "display_tool_key (McpServer server) = server @ ''.*''"
| "display_tool_key (McpTool server tool) = server @ ''.'' @ tool"

section \<open>Rules\<close>

datatype effect = Allow | Deny

datatype default_effect = DAllow | DDeny | DPrompt

record permission_rule =
  pr_tool :: tool_key
  pr_scope :: "str option"
  pr_effect :: effect

text \<open>The map of tool defaults is a finite map; the entries are what iterating over it visits.\<close>

record permissions_config =
  pc_default :: default_effect
  pc_tool_defaults :: "(tool_key \<times> default_effect) list"
  pc_rules :: "permission_rule list"
  pc_yolo :: bool

section \<open>Lemmas\<close>

lemma canonical_cases: "canonical_tool_name name = name \<or> canonical_tool_name name \<in> snd ` set TOOL_ALIASES"
  by (cases "map_of TOOL_ALIASES name") (force simp: canonical_tool_name_def dest: map_of_SomeD)+

lemma canonical_of_canonical: "\<forall>c \<in> snd ` set TOOL_ALIASES. map_of TOOL_ALIASES c = None"
  by (simp add: TOOL_ALIASES_def)

lemma canonical_idem [simp]: "canonical_tool_name (canonical_tool_name name) = canonical_tool_name name"
proof (cases "map_of TOOL_ALIASES name")
  case (Some c)
  then have "c \<in> snd ` set TOOL_ALIASES" by (force dest: map_of_SomeD)
  then have "map_of TOOL_ALIASES c = None" by (rule bspec [OF canonical_of_canonical])
  with Some show ?thesis by (simp add: canonical_tool_name_def)
qed (simp add: canonical_tool_name_def)

lemma aliases_valid: "\<forall>c \<in> snd ` set TOOL_ALIASES. is_valid_wire_name c \<and> c \<noteq> ''*''"
  by (simp add: TOOL_ALIASES_def is_valid_wire_name_def ascii_alphanumeric_def byte_def)

lemma canonical_valid: "is_valid_wire_name name \<Longrightarrow> is_valid_wire_name (canonical_tool_name name)"
  using canonical_cases [of name] aliases_valid by metis

lemma split_once_app: "d \<notin> set a \<Longrightarrow> split_once d (a @ d # b) = Some (a, b)"
  by (induction a) auto

lemma split_once_None: "split_once d s = None \<longleftrightarrow> d \<notin> set s"
  by (induction s) auto

lemma dot_not_wire: "is_valid_wire_name n \<Longrightarrow> CHR ''.'' \<notin> set n" "is_valid_server_name n \<Longrightarrow> CHR ''.'' \<notin> set n"
  by (auto simp: is_valid_wire_name_def is_valid_server_name_def list_all_iff ascii_alphanumeric_def byte_def)

lemma star_not_wire: "\<not> is_valid_wire_name ''*''" "\<not> is_valid_server_name ''*''"
  by (simp_all add: is_valid_wire_name_def is_valid_server_name_def ascii_alphanumeric_def byte_def)

section \<open>Guarantees\<close>

text \<open>The printed form of a tool key reads back as the same key: whatever name was parsed, alias or
qualified MCP name, parsing what the key prints gives the key again, so that a rule written to a
permissions file applies to the same tool when it is loaded.\<close>

lemma tool_key_round_trip:
  assumes "parse_tool_key name = Inr key"
  shows "parse_tool_key (display_tool_key key) = Inr key"
proof (cases key)
  case Wildcard
  then show ?thesis by (simp add: parse_tool_key_def)
next
  case (Native n)
  with assms have n: "n = canonical_tool_name name" "is_valid_wire_name name"
    by (auto simp: parse_tool_key_def split: if_splits option.splits)
  then have v: "is_valid_wire_name n" using canonical_valid by simp
  then have "n \<noteq> []" "n \<noteq> ''*''" "split_once (CHR ''.'') n = None"
    using star_not_wire dot_not_wire(1) by (auto simp: is_valid_wire_name_def split_once_None)
  with v n Native show ?thesis by (simp add: parse_tool_key_def)
next
  case (McpServer server)
  with assms have v: "is_valid_server_name server" by (auto simp: parse_tool_key_def split: if_splits option.splits)
  then have "server \<noteq> []" "split_once (CHR ''.'') (server @ ''.*'') = Some (server, ''*'')" "server @ ''.*'' \<noteq> ''*''"
    using split_once_app [OF dot_not_wire(2) [OF v], of "''*''"] by (auto simp: is_valid_server_name_def append_eq_Cons_conv)
  with v McpServer show ?thesis by (simp add: parse_tool_key_def)
next
  case (McpTool server tool)
  with assms have v: "is_valid_server_name server" "is_valid_wire_name tool" "length server + 2 + length tool \<le> 64"
    by (auto simp: parse_tool_key_def split: if_splits option.splits)
  then have "server \<noteq> []" "tool \<noteq> []" "tool \<noteq> ''*''" "split_once (CHR ''.'') (server @ ''.'' @ tool) = Some (server, tool)"
    "server @ ''.'' @ tool \<noteq> ''*''"
    using split_once_app [OF dot_not_wire(2) [OF v(1)], of tool] star_not_wire
    by (auto simp: is_valid_server_name_def is_valid_wire_name_def append_eq_Cons_conv)
  with v McpTool show ?thesis by (simp add: parse_tool_key_def)
qed

lemma tool_key_round_trip_example:
  "parse_tool_key ''bash'' = Inr (Native ''run_shell'') \<and> parse_tool_key ''run_shell'' = Inr (Native ''run_shell'')"
proof -
  have p: "parse_tool_key ''bash'' = Inr (Native ''run_shell'')"
    by (simp add: parse_tool_key_def is_valid_wire_name_def ascii_alphanumeric_def byte_def canonical_tool_name_def TOOL_ALIASES_def)
  from tool_key_round_trip [OF p] p show ?thesis by simp
qed

end
