(* ===== verification/Tool_Admission.thy ===== *)
theory Tool_Admission
  imports Tool_Key
begin

text \<open>
  Admission of tool calls (\<open>crates/n00n-agent/src/tools/admission.rs\<close>): a call waits for a slot of its
  agent and of the process, or of the lane of cheap or interactive calls, unless its token is
  cancelled, and gives back what it holds when its guard is dropped. The controller is the state; every
  call is a small program whose atomic steps interleave with those of the others.
\<close>

section \<open>Classes\<close>

definition DEFAULT_MAX_CONCURRENT_TOOLS :: usize where "DEFAULT_MAX_CONCURRENT_TOOLS = 8"
definition DEFAULT_MAX_CONCURRENT_CHEAP_TOOLS :: usize where "DEFAULT_MAX_CONCURRENT_CHEAP_TOOLS = 32"
definition DEFAULT_MAX_CONCURRENT_INTERACTIVE_TOOLS :: usize where "DEFAULT_MAX_CONCURRENT_INTERACTIVE_TOOLS = 32"
definition DEFAULT_MAX_CONCURRENT_AGENT_TOOLS :: usize where "DEFAULT_MAX_CONCURRENT_AGENT_TOOLS = 4"

definition ORCHESTRATOR_TOOLS :: "str list" where
  "ORCHESTRATOR_TOOLS = [''control_agent'', ''run_batch'', ''run_task'', ''run_team'', ''run_workflow'']"

definition CHEAP_TOOL_KINDS :: "str list" where
  "CHEAP_TOOL_KINDS = [''cheap'', ''read'', ''metadata'', ''search'']"

definition ORCHESTRATOR_TOOL_KINDS :: "str list" where
  "ORCHESTRATOR_TOOL_KINDS = [''orchestrator'', ''fanout'']"

datatype tool_admission_class = CheapClass | StandardClass | InteractiveClass | OrchestratorClass

definition from_workload :: "str \<Rightarrow> tool_admission_class option" where
  "from_workload v =
     (if v = ''cheap'' then Some CheapClass
      else if v = ''standard'' \<or> v = ''expensive'' then Some StandardClass
      else if v = ''interactive'' then Some InteractiveClass
      else if v = ''orchestrator'' \<or> v = ''fanout'' then Some OrchestratorClass
      else None)"

definition kind_among :: "str list \<Rightarrow> str option \<Rightarrow> bool" where
  "kind_among kinds kind = (case kind of None \<Rightarrow> False | Some k \<Rightarrow> k \<in> set kinds)"

definition class_for_tool :: "str \<Rightarrow> str option \<Rightarrow> tool_admission_class" where
  "class_for_tool name kind =
     (let canonical = canonical_tool_name name in
      if canonical \<in> set ORCHESTRATOR_TOOLS \<or> kind_among ORCHESTRATOR_TOOL_KINDS kind then OrchestratorClass
      else if canonical \<in> {''read_file'', ''search_files'', ''search_code'', ''view_image'', ''search_tools''}
              \<or> kind_among CHEAP_TOOL_KINDS kind then CheapClass
      else StandardClass)"

fun bypasses_admission :: "tool_admission_class \<Rightarrow> bool" where
  "bypasses_admission OrchestratorClass = True"
| "bypasses_admission _ = False"

section \<open>The controller\<close>

text \<open>
  The three semaphores of the controller with their counters are indexed by a lane. A semaphore of
  \<open>async_lock\<close> is the number of its free permits. The slots of agents are shared pointers that the code
  compares, so they are numbers in a store of all slots ever made.
\<close>

datatype lane = ProcessLane | CheapLane | InteractiveLane

record agent_slot =
  sl_permits :: usize
  sl_users :: usize

record admission =
  ad_limit :: "lane \<Rightarrow> usize"
  ad_permits :: "lane \<Rightarrow> usize"
  ad_active :: "lane \<Rightarrow> usize"
  ad_agent_limit :: usize
  ad_agents :: "str \<Rightarrow> nat option"
  ad_slots :: "nat \<Rightarrow> agent_slot"
  ad_next_slot :: nat
  ad_next_scope :: u64

fun lane_limits :: "usize \<Rightarrow> usize \<Rightarrow> usize \<Rightarrow> lane \<Rightarrow> usize" where
  "lane_limits p c i ProcessLane = max p 1"
| "lane_limits p c i CheapLane = max c 1"
| "lane_limits p c i InteractiveLane = max i 1"

definition with_lane_limits :: "usize \<Rightarrow> usize \<Rightarrow> usize \<Rightarrow> usize \<Rightarrow> admission" where
  "with_lane_limits process_limit agent_limit cheap_limit interactive_limit =
     \<lparr>ad_limit = lane_limits process_limit cheap_limit interactive_limit,
      ad_permits = lane_limits process_limit cheap_limit interactive_limit,
      ad_active = (\<lambda>_. 0), ad_agent_limit = max agent_limit 1, ad_agents = (\<lambda>_. None),
      ad_slots = (\<lambda>_. \<lparr>sl_permits = 0, sl_users = 0\<rparr>), ad_next_slot = 0, ad_next_scope = 1\<rparr>"

definition with_limits :: "usize \<Rightarrow> usize \<Rightarrow> usize \<Rightarrow> admission" where
  "with_limits process_limit agent_limit cheap_limit =
     with_lane_limits process_limit agent_limit cheap_limit cheap_limit"

definition new_admission :: admission where
  "new_admission = with_lane_limits DEFAULT_MAX_CONCURRENT_TOOLS DEFAULT_MAX_CONCURRENT_AGENT_TOOLS
     DEFAULT_MAX_CONCURRENT_CHEAP_TOOLS DEFAULT_MAX_CONCURRENT_INTERACTIVE_TOOLS"

definition new_scope :: "admission \<Rightarrow> str \<times> admission" where
  "new_scope a = (''agent-'' @ show_u64 (ad_next_scope a), a\<lparr>ad_next_scope := ad_next_scope a + 1\<rparr>)"

definition set_slot :: "nat \<Rightarrow> agent_slot \<Rightarrow> admission \<Rightarrow> admission" where
  "set_slot k sl a = a\<lparr>ad_slots := (ad_slots a)(k := sl)\<rparr>"

text \<open>\<open>fetch_add\<close> and \<open>fetch_sub\<close> on the counters, and taking and returning permits.\<close>

definition set_permits :: "lane \<Rightarrow> usize \<Rightarrow> admission \<Rightarrow> admission" where
  "set_permits l n a = a\<lparr>ad_permits := (ad_permits a)(l := n)\<rparr>"

definition set_active :: "lane \<Rightarrow> usize \<Rightarrow> admission \<Rightarrow> admission" where
  "set_active l n a = a\<lparr>ad_active := (ad_active a)(l := n)\<rparr>"

definition set_slot_permits :: "nat \<Rightarrow> usize \<Rightarrow> admission \<Rightarrow> admission" where
  "set_slot_permits k n a = set_slot k ((ad_slots a k)\<lparr>sl_permits := n\<rparr>) a"

definition set_slot_users :: "nat \<Rightarrow> usize \<Rightarrow> admission \<Rightarrow> admission" where
  "set_slot_users k n a = set_slot k ((ad_slots a k)\<lparr>sl_users := n\<rparr>) a"

text \<open>Looking up the slot of an agent, or making it, and becoming one of its users.\<close>

definition join_slot :: "str \<Rightarrow> admission \<Rightarrow> nat \<times> admission" where
  "join_slot sc a =
     (case ad_agents a sc of
        Some k \<Rightarrow> (k, set_slot_users k (sl_users (ad_slots a k) + 1) a)
      | None \<Rightarrow>
          (ad_next_slot a,
           set_slot (ad_next_slot a) \<lparr>sl_permits = ad_agent_limit a, sl_users = 1\<rparr>
             (a\<lparr>ad_agents := (ad_agents a)(sc \<mapsto> ad_next_slot a), ad_next_slot := Suc (ad_next_slot a)\<rparr>)))"

text \<open>One user of the slot less; the last one removes it.\<close>

definition leave_slot :: "str \<Rightarrow> nat \<Rightarrow> admission \<Rightarrow> admission" where
  "leave_slot sc k a =
     (let a' = set_slot_users k (sl_users (ad_slots a k) - 1) a
      in if sl_users (ad_slots a k) = 1 then a'\<lparr>ad_agents := (ad_agents a')(sc := None)\<rparr> else a')"

definition release_agent :: "str \<Rightarrow> nat \<Rightarrow> admission \<Rightarrow> admission" where
  "release_agent sc k a = (if ad_agents a sc \<noteq> Some k then a else leave_slot sc k a)"

text \<open>The guard only knows its scope when it leaves.\<close>

definition guard_leaves :: "str \<Rightarrow> admission \<Rightarrow> admission" where
  "guard_leaves sc a = (case ad_agents a sc of None \<Rightarrow> a | Some k \<Rightarrow> leave_slot sc k a)"

section \<open>A call\<close>

datatype admission_guard = EmptyGuard | WideGuard lane | StandardGuard str nat

datatype admission_outcome = Released | AdmissionCancelled | FutureDropped

text \<open>
  Where a call stands. \<open>Enter\<close> is the test of the token at the start of a race, \<open>Wait\<close> the race, \<open>Got\<close>
  a permit that is not counted yet; \<open>Gives_Up\<close> and the \<open>Drop\<close> phases are what is left to be undone.
\<close>

datatype phase = EnterWide lane | WaitWide lane | GotWide lane
  | EnterAgent str nat | WaitAgent str nat | EnterProcess str nat | WaitProcess str nat | GotProcess str nat
  | Gives_Up str nat | Holds admission_guard | DropUsers str | DropActive lane | DropPermit lane
  | Finished admission_outcome

definition acquire :: "str \<Rightarrow> tool_admission_class \<Rightarrow> admission \<Rightarrow> phase \<times> admission" where
  "acquire sc cls a =
     (if bypasses_admission cls then (Holds EmptyGuard, a)
      else if cls = InteractiveClass then (EnterWide InteractiveLane, a)
      else if cls = CheapClass then (EnterWide CheapLane, a)
      else (case join_slot sc a of (k, a') \<Rightarrow> (EnterAgent sc k, a')))"

text \<open>The next atomic step of a call whose token is cancelled or not; \<open>None\<close> while it waits or is finished.\<close>

fun proceed :: "bool \<Rightarrow> phase \<Rightarrow> admission \<Rightarrow> (phase \<times> admission) option" where
  "proceed c (EnterWide l) a = Some (if c then Finished AdmissionCancelled else WaitWide l, a)"
| "proceed c (WaitWide l) a = (if 0 < ad_permits a l then Some (GotWide l, set_permits l (ad_permits a l - 1) a) else None)"
| "proceed c (GotWide l) a = Some (Holds (WideGuard l), set_active l (ad_active a l + 1) a)"
| "proceed c (EnterAgent sc k) a = Some (if c then Gives_Up sc k else WaitAgent sc k, a)"
| "proceed c (WaitAgent sc k) a =
     (if 0 < sl_permits (ad_slots a k)
      then Some (EnterProcess sc k, set_slot_permits k (sl_permits (ad_slots a k) - 1) a) else None)"
| "proceed c (EnterProcess sc k) a =
     (if c then Some (Gives_Up sc k, set_slot_permits k (sl_permits (ad_slots a k) + 1) a)
      else Some (WaitProcess sc k, a))"
| "proceed c (WaitProcess sc k) a =
     (if 0 < ad_permits a ProcessLane
      then Some (GotProcess sc k, set_permits ProcessLane (ad_permits a ProcessLane - 1) a) else None)"
| "proceed c (GotProcess sc k) a =
     Some (Holds (StandardGuard sc k), set_active ProcessLane (ad_active a ProcessLane + 1) a)"
| "proceed c (Gives_Up sc k) a = Some (Finished AdmissionCancelled, release_agent sc k a)"
| "proceed c (Holds EmptyGuard) a = Some (Finished Released, a)"
| "proceed c (Holds (WideGuard l)) a = Some (DropActive l, a)"
| "proceed c (Holds (StandardGuard sc k)) a = Some (DropUsers sc, set_slot_permits k (sl_permits (ad_slots a k) + 1) a)"
| "proceed c (DropUsers sc) a = Some (DropActive ProcessLane, guard_leaves sc a)"
| "proceed c (DropActive l) a = Some (DropPermit l, set_active l (ad_active a l - 1) a)"
| "proceed c (DropPermit l) a = Some (Finished Released, set_permits l (ad_permits a l + 1) a)"
| "proceed c (Finished r) a = None"

text \<open>Losing a race to the cancellation, and being dropped by the caller while waiting.\<close>

fun lose_race :: "phase \<Rightarrow> admission \<Rightarrow> (phase \<times> admission) option" where
  "lose_race (WaitWide l) a = Some (Finished AdmissionCancelled, a)"
| "lose_race (WaitAgent sc k) a = Some (Gives_Up sc k, a)"
| "lose_race (WaitProcess sc k) a = Some (Gives_Up sc k, set_slot_permits k (sl_permits (ad_slots a k) + 1) a)"
| "lose_race _ a = None"

fun drop_future :: "phase \<Rightarrow> admission \<Rightarrow> (phase \<times> admission) option" where
  "drop_future (WaitWide l) a = Some (Finished FutureDropped, a)"
| "drop_future (WaitAgent sc k) a = Some (Finished FutureDropped, a)"
| "drop_future (WaitProcess sc k) a = Some (Finished FutureDropped, set_slot_permits k (sl_permits (ad_slots a k) + 1) a)"
| "drop_future _ a = None"

section \<open>All calls\<close>

text \<open>Every call ever made with whether its token is cancelled.\<close>

record admission_system =
  as_adm :: admission
  as_calls :: "(bool \<times> phase) list"

definition put_call :: "nat \<Rightarrow> bool \<Rightarrow> phase \<times> admission \<Rightarrow> admission_system \<Rightarrow> admission_system" where
  "put_call i c pa s = s\<lparr>as_adm := snd pa, as_calls := (as_calls s)[i := (c, fst pa)]\<rparr>"

text \<open>A step of the calls that were made; \<open>dropping\<close> is whether callers may drop a waiting call.\<close>

inductive call_step :: "admission_system \<Rightarrow> admission_system \<Rightarrow> bool" where
  proceeds: "i < length (as_calls s) \<Longrightarrow> as_calls s ! i = (c, p) \<Longrightarrow> proceed c p (as_adm s) = Some pa
    \<Longrightarrow> call_step s (put_call i c pa s)"
| loses: "i < length (as_calls s) \<Longrightarrow> as_calls s ! i = (True, p) \<Longrightarrow> lose_race p (as_adm s) = Some pa
    \<Longrightarrow> call_step s (put_call i True pa s)"

inductive admission_step :: "bool \<Rightarrow> admission_system \<Rightarrow> admission_system \<Rightarrow> bool" for dropping where
  calls: "acquire sc cls (as_adm s) = (p, a)
    \<Longrightarrow> admission_step dropping s (s\<lparr>as_adm := a, as_calls := as_calls s @ [(c, p)]\<rparr>)"
| takes_scope: "admission_step dropping s (s\<lparr>as_adm := snd (new_scope (as_adm s))\<rparr>)"
| steps: "call_step s t \<Longrightarrow> admission_step dropping s t"
| cancels: "i < length (as_calls s) \<Longrightarrow> as_calls s ! i = (c, p)
    \<Longrightarrow> admission_step dropping s (s\<lparr>as_calls := (as_calls s)[i := (True, p)]\<rparr>)"
| drops: "dropping \<Longrightarrow> i < length (as_calls s) \<Longrightarrow> as_calls s ! i = (c, p) \<Longrightarrow> drop_future p (as_adm s) = Some pa
    \<Longrightarrow> admission_step dropping s (put_call i c pa s)"

definition fresh_admission :: "admission_system \<Rightarrow> bool" where
  "fresh_admission s \<longleftrightarrow> (\<exists>p g c n. as_adm s = with_lane_limits p g c n) \<and> as_calls s = []"

section \<open>Conservation\<close>

text \<open>What a call in a given phase accounts for.\<close>

fun holds_lane :: "lane \<Rightarrow> phase \<Rightarrow> nat" where
  "holds_lane l (GotWide l') = (if l = l' then 1 else 0)"
| "holds_lane l (Holds (WideGuard l')) = (if l = l' then 1 else 0)"
| "holds_lane l (GotProcess sc k) = (if l = ProcessLane then 1 else 0)"
| "holds_lane l (Holds (StandardGuard sc k)) = (if l = ProcessLane then 1 else 0)"
| "holds_lane l (DropUsers sc) = (if l = ProcessLane then 1 else 0)"
| "holds_lane l (DropActive l') = (if l = l' then 1 else 0)"
| "holds_lane l (DropPermit l') = (if l = l' then 1 else 0)"
| "holds_lane l _ = 0"

fun counted :: "lane \<Rightarrow> phase \<Rightarrow> nat" where
  "counted l (Holds (WideGuard l')) = (if l = l' then 1 else 0)"
| "counted l (Holds (StandardGuard sc k)) = (if l = ProcessLane then 1 else 0)"
| "counted l (DropUsers sc) = (if l = ProcessLane then 1 else 0)"
| "counted l (DropActive l') = (if l = l' then 1 else 0)"
| "counted l _ = 0"

fun holds_slot :: "nat \<Rightarrow> phase \<Rightarrow> nat" where
  "holds_slot k (EnterProcess sc k') = (if k = k' then 1 else 0)"
| "holds_slot k (WaitProcess sc k') = (if k = k' then 1 else 0)"
| "holds_slot k (GotProcess sc k') = (if k = k' then 1 else 0)"
| "holds_slot k (Holds (StandardGuard sc k')) = (if k = k' then 1 else 0)"
| "holds_slot k _ = 0"

text \<open>The scope and slot a call points to, and the scope it is a user of.\<close>

fun slot_of :: "phase \<Rightarrow> (str \<times> nat) option" where
  "slot_of (EnterAgent sc k) = Some (sc, k)"
| "slot_of (WaitAgent sc k) = Some (sc, k)"
| "slot_of (EnterProcess sc k) = Some (sc, k)"
| "slot_of (WaitProcess sc k) = Some (sc, k)"
| "slot_of (GotProcess sc k) = Some (sc, k)"
| "slot_of (Gives_Up sc k) = Some (sc, k)"
| "slot_of (Holds (StandardGuard sc k)) = Some (sc, k)"
| "slot_of _ = None"

definition uses :: "str \<Rightarrow> phase \<Rightarrow> nat" where
  "uses sc p = (if map_option fst (slot_of p) = Some sc \<or> p = DropUsers sc then 1 else 0)"

definition tally :: "(phase \<Rightarrow> nat) \<Rightarrow> admission_system \<Rightarrow> nat" where
  "tally w s = sum_list (map (\<lambda>cp. w (snd cp)) (as_calls s))"

lemma tally_put:
  assumes "i < length (as_calls s)" "as_calls s ! i = (c0, p)"
  shows "tally w (put_call i c pa s) + w p = tally w s + w (fst pa)"
proof -
  have "w p \<le> tally w s"
    unfolding tally_def using assms by (metis (no_types, lifting) elem_le_sum_list length_map nth_map snd_conv)
  with assms show ?thesis by (simp add: tally_def put_call_def map_update sum_list_update)
qed

lemma tally_ge: "(c, p) \<in> set (as_calls s) \<Longrightarrow> w p \<le> tally w s"
  unfolding tally_def by (induction "as_calls s" arbitrary: s) (force intro: member_le_sum_list)+

lemma tally_mono: "(\<And>p. w p \<le> v p) \<Longrightarrow> tally w s \<le> tally v s"
  unfolding tally_def by (intro sum_list_mono) auto

lemma tally_cong: "(\<And>c p. (c, p) \<in> set (as_calls s) \<Longrightarrow> w p \<le> v p) \<Longrightarrow> tally w s \<le> tally v s"
  unfolding tally_def by (intro sum_list_mono) auto

text \<open>
  The invariant. Without dropped calls the users of a slot are exactly the calls that use its scope; a
  dropped call stays among them.
\<close>

definition users_match :: "bool \<Rightarrow> nat \<Rightarrow> nat \<Rightarrow> bool" where
  "users_match dropping n users \<longleftrightarrow> (if dropping then n \<le> users else n = users)"

definition slots_inv :: "bool \<Rightarrow> admission_system \<Rightarrow> bool" where
  "slots_inv dropping s \<longleftrightarrow>
     (\<forall>sc k. ad_agents (as_adm s) sc = Some k \<longrightarrow> k < ad_next_slot (as_adm s)
        \<and> 0 < sl_users (ad_slots (as_adm s) k) \<and> users_match dropping (tally (uses sc) s) (sl_users (ad_slots (as_adm s) k)))
   \<and> (\<forall>sc. ad_agents (as_adm s) sc = None \<longrightarrow> tally (uses sc) s = 0)
   \<and> (\<forall>cp \<in> set (as_calls s). \<forall>sc k. slot_of (snd cp) = Some (sc, k) \<longrightarrow> ad_agents (as_adm s) sc = Some k)
   \<and> (\<forall>sc sc' k. ad_agents (as_adm s) sc = Some k \<longrightarrow> ad_agents (as_adm s) sc' = Some k \<longrightarrow> sc = sc')"

definition permits_inv :: "admission_system \<Rightarrow> bool" where
  "permits_inv s \<longleftrightarrow>
     (\<forall>l. ad_permits (as_adm s) l + tally (holds_lane l) s = ad_limit (as_adm s) l)
   \<and> (\<forall>l. ad_active (as_adm s) l = tally (counted l) s)
   \<and> (\<forall>k < ad_next_slot (as_adm s). sl_permits (ad_slots (as_adm s) k) + tally (holds_slot k) s = ad_agent_limit (as_adm s))
   \<and> (\<forall>l. 0 < ad_limit (as_adm s) l) \<and> 0 < ad_agent_limit (as_adm s)"

definition admission_inv :: "bool \<Rightarrow> admission_system \<Rightarrow> bool" where
  "admission_inv dropping s \<longleftrightarrow> permits_inv s \<and> slots_inv dropping s"

lemmas admission_state_defs = set_permits_def set_active_def set_slot_permits_def set_slot_users_def set_slot_def

lemma admission_inv_fresh: "fresh_admission s \<Longrightarrow> admission_inv dropping s"
proof -
  have "0 < lane_limits p c n l" for p c n l by (cases l) auto
  then show "fresh_admission s \<Longrightarrow> admission_inv dropping s"
    by (auto simp: fresh_admission_def admission_inv_def permits_inv_def slots_inv_def tally_def with_lane_limits_def)
qed

lemma put_call_simps [simp]:
  "as_adm (put_call i c pa s) = snd pa" "as_calls (put_call i c pa s) = (as_calls s)[i := (c, fst pa)]"
  by (simp_all add: put_call_def)

lemma zero_tally: "tally w s = 0 \<Longrightarrow> (c, p) \<in> set (as_calls s) \<Longrightarrow> w p = 0"
  using tally_ge [of c p s w] by simp

lemma permits_invD:
  assumes "permits_inv s"
  shows "ad_permits (as_adm s) l + tally (holds_lane l) s = ad_limit (as_adm s) l"
    and "ad_active (as_adm s) l = tally (counted l) s"
    and "k < ad_next_slot (as_adm s) \<Longrightarrow> sl_permits (ad_slots (as_adm s) k) + tally (holds_slot k) s = ad_agent_limit (as_adm s)"
    and "0 < ad_limit (as_adm s) l" "0 < ad_agent_limit (as_adm s)"
  using assms unfolding permits_inv_def by blast+

lemma slots_invD:
  assumes "slots_inv d s"
  shows "ad_agents (as_adm s) sc = Some k \<Longrightarrow> k < ad_next_slot (as_adm s)"
    and "ad_agents (as_adm s) sc = Some k \<Longrightarrow> 0 < sl_users (ad_slots (as_adm s) k)"
    and "ad_agents (as_adm s) sc = Some k \<Longrightarrow> users_match d (tally (uses sc) s) (sl_users (ad_slots (as_adm s) k))"
    and "ad_agents (as_adm s) sc = None \<Longrightarrow> tally (uses sc) s = 0"
    and "cp \<in> set (as_calls s) \<Longrightarrow> slot_of (snd cp) = Some (sc, k) \<Longrightarrow> ad_agents (as_adm s) sc = Some k"
    and "ad_agents (as_adm s) sc = Some k \<Longrightarrow> ad_agents (as_adm s) sc' = Some k \<Longrightarrow> sc = sc'"
  using assms unfolding slots_inv_def by blast+

text \<open>A step that moves permits between the call and the controller.\<close>

lemma permits_inv_put:
  assumes inv: "permits_inv s" and i: "i < length (as_calls s)" "as_calls s ! i = (c0, p)"
    and eq: "ad_limit a = ad_limit (as_adm s)" "ad_agent_limit a = ad_agent_limit (as_adm s)" "ad_next_slot a = ad_next_slot (as_adm s)"
    and lanes: "\<And>l. ad_permits a l + holds_lane l p' = ad_permits (as_adm s) l + holds_lane l p"
    and active: "\<And>l. ad_active a l + counted l p = ad_active (as_adm s) l + counted l p'"
    and slots: "\<And>k. sl_permits (ad_slots a k) + holds_slot k p' = sl_permits (ad_slots (as_adm s) k) + holds_slot k p"
  shows "permits_inv (put_call i c (p', a) s)"
proof -
  note t = tally_put [OF i, of _ c "(p', a)"]
  have "ad_permits a l + tally (holds_lane l) (put_call i c (p', a) s) = ad_limit a l" for l
    using t [of "holds_lane l"] lanes [of l] permits_invD(1) [OF inv, of l] by (simp add: eq)
  moreover have "ad_active a l = tally (counted l) (put_call i c (p', a) s)" for l
    using t [of "counted l"] active [of l] permits_invD(2) [OF inv, of l] by simp
  moreover have "sl_permits (ad_slots a k) + tally (holds_slot k) (put_call i c (p', a) s) = ad_agent_limit a"
    if "k < ad_next_slot a" for k
  proof -
    have "sl_permits (ad_slots (as_adm s) k) + tally (holds_slot k) s = ad_agent_limit (as_adm s)"
      using permits_invD(3) [OF inv] that by (simp add: eq)
    with t [of "holds_slot k"] slots [of k] eq show ?thesis by simp
  qed
  ultimately show ?thesis using permits_invD(4,5) [OF inv] by (simp add: permits_inv_def eq)
qed

text \<open>A step that keeps the use of slots.\<close>

lemma slots_inv_put:
  assumes inv: "slots_inv d s" and i: "i < length (as_calls s)" "as_calls s ! i = (c0, p)"
    and eq: "ad_agents a = ad_agents (as_adm s)" "ad_next_slot a = ad_next_slot (as_adm s)"
      "\<And>k. sl_users (ad_slots a k) = sl_users (ad_slots (as_adm s) k)"
    and uses: "\<And>sc. uses sc p' = uses sc p \<or> d \<and> uses sc p' \<le> uses sc p"
    and slot: "slot_of p' = slot_of p \<or> slot_of p' = None"
  shows "slots_inv d (put_call i c (p', a) s)"
proof -
  have t: "tally (uses sc) (put_call i c (p', a) s) = tally (uses sc) s \<or> d \<and> tally (uses sc) (put_call i c (p', a) s) \<le> tally (uses sc) s" for sc
    using tally_put [OF i, of "uses sc" c "(p', a)"] uses [of sc] by auto
  have mem: "(c0, p) \<in> set (as_calls s)" using i nth_mem by metis
  have "users_match d n m \<Longrightarrow> n' = n \<or> d \<and> n' \<le> n \<Longrightarrow> users_match d n' m" for n n' m
    by (auto simp: users_match_def split: if_splits)
  with slots_invD(1-3) [OF inv] t have "ad_agents a sc = Some k \<Longrightarrow> k < ad_next_slot a \<and> 0 < sl_users (ad_slots a k)
      \<and> users_match d (tally (uses sc) (put_call i c (p', a) s)) (sl_users (ad_slots a k))" for sc k
    by (metis eq)
  moreover have "ad_agents a sc = None \<Longrightarrow> tally (uses sc) (put_call i c (p', a) s) = 0" for sc
    using slots_invD(4) [OF inv, of sc] t [of sc] by (auto simp: eq)
  moreover have "ad_agents a sc = Some k" if "cp \<in> set ((as_calls s)[i := (c, p')])" "slot_of (snd cp) = Some (sc, k)" for cp sc k
  proof -
    note hyp = that
    from hyp(1) have "cp = (c, p') \<or> cp \<in> set (as_calls s)"
      using set_update_subset_insert [of "as_calls s" i "(c, p')"] by blast
    then obtain cq where "cq \<in> set (as_calls s)" "slot_of (snd cq) = Some (sc, k)" using slot mem hyp(2) by (metis option.distinct(1) snd_conv)
    then show ?thesis using slots_invD(5) [OF inv] by (simp add: eq)
  qed
  ultimately show ?thesis using slots_invD(6) [OF inv]
    unfolding slots_inv_def put_call_simps fst_conv snd_conv eq by blast
qed

text \<open>A user leaves its slot.\<close>

lemma leave_slot_simps [simp]:
  "ad_limit (leave_slot sc k a) = ad_limit a" "ad_permits (leave_slot sc k a) = ad_permits a"
  "ad_active (leave_slot sc k a) = ad_active a" "ad_agent_limit (leave_slot sc k a) = ad_agent_limit a"
  "ad_next_slot (leave_slot sc k a) = ad_next_slot a"
  "sl_permits (ad_slots (leave_slot sc k a) j) = sl_permits (ad_slots a j)"
  "sl_users (ad_slots (leave_slot sc k a) j) = (if j = k then sl_users (ad_slots a k) - 1 else sl_users (ad_slots a j))"
  "ad_agents (leave_slot sc k a) = (if sl_users (ad_slots a k) = 1 then (ad_agents a)(sc := None) else ad_agents a)"
  by (simp_all add: leave_slot_def admission_state_defs Let_def)

lemma uses_slot_of: "slot_of p = Some (sc, k) \<Longrightarrow> uses sc p = 1"
  by (simp add: uses_def)

lemma slots_inv_leave:
  assumes inv: "slots_inv d s" and i: "i < length (as_calls s)" "as_calls s ! i = (c0, p)"
    and k: "ad_agents (as_adm s) sc = Some k" and p: "\<And>sc'. uses sc' p = (if sc' = sc then 1 else 0)"
    and p': "\<And>sc'. uses sc' p' = 0"
  shows "slots_inv d (put_call i c (p', leave_slot sc k (as_adm s)) s)"
proof -
  let ?a = "leave_slot sc k (as_adm s)" and ?t = "put_call i c (p', leave_slot sc k (as_adm s)) s"
  have t: "tally (uses sc') ?t + (if sc' = sc then 1 else 0) = tally (uses sc') s" for sc'
    using tally_put [OF i, of "uses sc'" c "(p', ?a)"] p p' by simp
  have other: "k' \<noteq> k" if "ad_agents (as_adm s) sc' = Some k'" "sc' \<noteq> sc" for sc' k'
    using slots_invD(6) [OF inv k] that by blast
  have users: "k' < ad_next_slot ?a \<and> 0 < sl_users (ad_slots ?a k') \<and> users_match d (tally (uses sc') ?t) (sl_users (ad_slots ?a k'))"
    if "ad_agents ?a sc' = Some k'" for sc' k'
  proof (cases "sc' = sc")
    case True
    with that k have "sl_users (ad_slots (as_adm s) k) \<noteq> 1" "k' = k" by (auto split: if_splits)
    with slots_invD(1-3) [OF inv k] t [of sc] True show ?thesis by (auto simp: users_match_def split: if_splits)
  next
    case False
    with that have "ad_agents (as_adm s) sc' = Some k'" by (auto split: if_splits)
    with slots_invD(1-3) [OF inv this] other [OF this False] t [of sc'] False show ?thesis by simp
  qed
  have gone: "tally (uses sc') ?t = 0" if "ad_agents ?a sc' = None" for sc'
  proof (cases "sc' = sc")
    case True
    with that k have "sl_users (ad_slots (as_adm s) k) = 1" by (auto split: if_splits)
    with slots_invD(3) [OF inv k] t [of sc] True show ?thesis by (auto simp: users_match_def split: if_splits)
  next
    case False
    with that slots_invD(4) [OF inv, of sc'] t [of sc'] show ?thesis by (auto split: if_splits)
  qed
  have ptr: "ad_agents ?a sc' = Some k'" if cp: "cp \<in> set (as_calls ?t)" "slot_of (snd cp) = Some (sc', k')" for cp sc' k'
  proof -
    have pos: "0 < tally (uses sc') ?t"
      using tally_ge [of "fst cp" "snd cp" ?t "uses sc'"] cp uses_slot_of [OF cp(2)] by simp
    have "cp \<noteq> (c, p')" using uses_slot_of [OF cp(2)] p' [of sc'] by auto
    with cp have "cp \<in> set (as_calls s)"
      using set_update_subset_insert [of "as_calls s" i "(c, p')"] by auto
    then have "ad_agents (as_adm s) sc' = Some k'" using slots_invD(5) [OF inv] cp(2) by blast
    with pos gone [of sc'] show ?thesis by (auto split: if_splits)
  qed
  have "sc1 = sc2" if "ad_agents ?a sc1 = Some k'" "ad_agents ?a sc2 = Some k'" for sc1 sc2 k'
    using slots_invD(6) [OF inv, of sc1 k' sc2] that by (auto split: if_splits)
  with users gone ptr show ?thesis unfolding slots_inv_def put_call_simps fst_conv snd_conv by blast
qed

lemma release_agent_simps [simp]:
  "ad_limit (release_agent sc k a) = ad_limit a" "ad_permits (release_agent sc k a) = ad_permits a"
  "ad_active (release_agent sc k a) = ad_active a" "ad_agent_limit (release_agent sc k a) = ad_agent_limit a"
  "ad_next_slot (release_agent sc k a) = ad_next_slot a"
  "sl_permits (ad_slots (release_agent sc k a) j) = sl_permits (ad_slots a j)"
  by (simp_all add: release_agent_def)

lemma guard_leaves_simps [simp]:
  "ad_limit (guard_leaves sc a) = ad_limit a" "ad_permits (guard_leaves sc a) = ad_permits a"
  "ad_active (guard_leaves sc a) = ad_active a" "ad_agent_limit (guard_leaves sc a) = ad_agent_limit a"
  "ad_next_slot (guard_leaves sc a) = ad_next_slot a"
  "sl_permits (ad_slots (guard_leaves sc a) j) = sl_permits (ad_slots a j)"
  by (simp_all add: guard_leaves_def split: option.splits)

definition moves :: "phase \<Rightarrow> admission \<Rightarrow> phase \<Rightarrow> admission \<Rightarrow> bool" where
  "moves p a p' a' \<longleftrightarrow> ad_limit a' = ad_limit a \<and> ad_agent_limit a' = ad_agent_limit a \<and> ad_next_slot a' = ad_next_slot a
     \<and> (\<forall>l. ad_permits a' l + holds_lane l p' = ad_permits a l + holds_lane l p)
     \<and> (\<forall>l. ad_active a' l + counted l p = ad_active a l + counted l p')
     \<and> (\<forall>k. sl_permits (ad_slots a' k) + holds_slot k p' = sl_permits (ad_slots a k) + holds_slot k p)"

lemma proceed_moves: "proceed c p a = Some (p', a') \<Longrightarrow> \<forall>l. counted l p \<le> ad_active a l \<Longrightarrow> moves p a p' a'"
  by (induction c p a rule: proceed.induct) (auto simp: moves_def admission_state_defs split: if_splits)

lemma lose_race_moves: "lose_race p a = Some (p', a') \<Longrightarrow> moves p a p' a'"
  by (induction p a rule: lose_race.induct) (auto simp: moves_def admission_state_defs)

lemma drop_future_moves: "drop_future p a = Some (p', a') \<Longrightarrow> moves p a p' a'"
  by (induction p a rule: drop_future.induct) (auto simp: moves_def admission_state_defs)

lemma permits_inv_moves:
  "permits_inv s \<Longrightarrow> i < length (as_calls s) \<Longrightarrow> as_calls s ! i = (c0, p) \<Longrightarrow> moves p (as_adm s) p' a
    \<Longrightarrow> permits_inv (put_call i c (p', a) s)"
  unfolding moves_def by (rule permits_inv_put) auto

text \<open>The use of slots: every step but leaving keeps it.\<close>

fun leaves_slot :: "phase \<Rightarrow> bool" where
  "leaves_slot (Gives_Up sc k) = True"
| "leaves_slot (DropUsers sc) = True"
| "leaves_slot _ = False"

definition keeps_slot :: "phase \<Rightarrow> admission \<Rightarrow> phase \<Rightarrow> admission \<Rightarrow> bool" where
  "keeps_slot p a p' a' \<longleftrightarrow> ad_agents a' = ad_agents a \<and> ad_next_slot a' = ad_next_slot a
     \<and> (\<forall>k. sl_users (ad_slots a' k) = sl_users (ad_slots a k)) \<and> (slot_of p' = slot_of p \<or> slot_of p' = None)"

lemma proceed_keeps:
  "proceed c p a = Some (p', a') \<Longrightarrow> \<not> leaves_slot p \<Longrightarrow> keeps_slot p a p' a' \<and> (\<forall>sc. uses sc p' = uses sc p)"
  by (induction c p a rule: proceed.induct) (auto simp: keeps_slot_def uses_def admission_state_defs split: if_splits)

lemma lose_race_keeps: "lose_race p a = Some (p', a') \<Longrightarrow> keeps_slot p a p' a' \<and> (\<forall>sc. uses sc p' = uses sc p)"
  by (induction p a rule: lose_race.induct) (auto simp: keeps_slot_def uses_def admission_state_defs)

lemma drop_future_keeps: "drop_future p a = Some (p', a') \<Longrightarrow> keeps_slot p a p' a' \<and> (\<forall>sc. uses sc p' \<le> uses sc p)"
  by (induction p a rule: drop_future.induct) (auto simp: keeps_slot_def uses_def admission_state_defs)

lemma slots_inv_keeps:
  assumes "slots_inv d s" "i < length (as_calls s)" "as_calls s ! i = (c0, p)" "keeps_slot p (as_adm s) p' a"
    and "\<And>sc. uses sc p' = uses sc p \<or> d \<and> uses sc p' \<le> uses sc p"
  shows "slots_inv d (put_call i c (p', a) s)"
  using assms(4,5) unfolding keeps_slot_def by (intro slots_inv_put [OF assms(1-3)]) auto

lemma proceed_slots:
  assumes inv: "slots_inv d s" and i: "i < length (as_calls s)" "as_calls s ! i = (c0, p)"
    and step: "proceed c0 p (as_adm s) = Some (p', a)"
  shows "slots_inv d (put_call i c (p', a) s)"
proof (cases "leaves_slot p")
  case False
  with proceed_keeps [OF step] show ?thesis by (intro slots_inv_keeps [OF inv i]) auto
next
  case True
  have mem: "(c0, p) \<in> set (as_calls s)" using i nth_mem by metis
  from True show ?thesis
  proof (cases p rule: leaves_slot.cases)
    case (1 sc k)
    then have "ad_agents (as_adm s) sc = Some k" using slots_invD(5) [OF inv mem] by simp
    moreover from this have "a = leave_slot sc k (as_adm s)" "p' = Finished AdmissionCancelled"
      using step 1 by (auto simp: release_agent_def)
    ultimately show ?thesis using slots_inv_leave [OF inv i] 1 by (simp add: uses_def)
  next
    case (2 sc)
    then have "tally (uses sc) s \<noteq> 0" using zero_tally [OF _ mem, of "uses sc"] by (auto simp: uses_def)
    then obtain k where k: "ad_agents (as_adm s) sc = Some k" using slots_invD(4) [OF inv, of sc] by (cases "ad_agents (as_adm s) sc") auto
    then have "a = leave_slot sc k (as_adm s)" "p' = DropActive ProcessLane"
      using step 2 by (auto simp: guard_leaves_def)
    with k show ?thesis using slots_inv_leave [OF inv i] 2 by (simp add: uses_def)
  qed auto
qed

section \<open>Every step keeps the invariant\<close>

lemma tally_append:
  "tally w (s\<lparr>as_adm := a, as_calls := as_calls s @ [(c, p)]\<rparr>) = tally w s + w p"
  "tally w (s\<lparr>as_calls := as_calls s @ [(c, p)]\<rparr>) = tally w s + w p"
  by (simp_all add: tally_def)

lemma tally_adm [simp]: "tally w (s\<lparr>as_adm := a\<rparr>) = tally w s"
  by (simp add: tally_def)

lemma join_slot_keeps:
  assumes "join_slot sc a = (k, a')"
  shows "ad_limit a' = ad_limit a" "ad_permits a' = ad_permits a" "ad_active a' = ad_active a" "ad_agent_limit a' = ad_agent_limit a"
    "ad_agents a' = (ad_agents a)(sc \<mapsto> k)"
    "ad_agents a sc = None \<Longrightarrow> k = ad_next_slot a \<and> ad_next_slot a' = Suc k \<and> ad_slots a' = (ad_slots a)(k := \<lparr>sl_permits = ad_agent_limit a, sl_users = 1\<rparr>)"
    "ad_agents a sc = Some j \<Longrightarrow> k = j \<and> ad_next_slot a' = ad_next_slot a \<and> ad_slots a' = (ad_slots a)(k := (ad_slots a k)\<lparr>sl_users := sl_users (ad_slots a k) + 1\<rparr>)"
  using assms by (auto simp: join_slot_def admission_state_defs split: option.splits)

lemma no_holders:
  assumes "slots_inv d s" "ad_next_slot (as_adm s) \<le> k"
  shows "tally (holds_slot k) s = 0"
proof -
  have "holds_slot k (snd cp) = 0" if "cp \<in> set (as_calls s)" for cp
  proof (rule ccontr)
    assume "holds_slot k (snd cp) \<noteq> 0"
    then obtain sc where "slot_of (snd cp) = Some (sc, k)" by (cases "(k, snd cp)" rule: holds_slot.cases) (auto split: if_splits)
    with slots_invD(1,5) [OF assms(1)] that assms(2) show False by fastforce
  qed
  then show ?thesis by (simp add: tally_def)
qed

lemma calls_permits:
  assumes perm: "permits_inv s" and slots: "slots_inv d s" and acq: "acquire sc cls (as_adm s) = (p, a)"
  shows "permits_inv (s\<lparr>as_adm := a, as_calls := as_calls s @ [(c, p)]\<rparr>)"
proof (cases "bypasses_admission cls \<or> cls = InteractiveClass \<or> cls = CheapClass")
  case True
  with acq have "a = as_adm s" "holds_lane l p = 0" "counted l p = 0" "holds_slot k p = 0" for l k
    by (auto simp: acquire_def split: if_splits)
  with perm show ?thesis by (simp add: permits_inv_def tally_append)
next
  case False
  with acq obtain k where j: "join_slot sc (as_adm s) = (k, a)" "p = EnterAgent sc k"
    by (auto simp: acquire_def split: prod.splits)
  note keeps = join_slot_keeps [OF j(1)]
  have "sl_permits (ad_slots a k') + tally (holds_slot k') s = ad_agent_limit (as_adm s)" if "k' < ad_next_slot a" for k'
  proof (cases "ad_agents (as_adm s) sc")
    case None
    with keeps(6) no_holders [OF slots, of k'] permits_invD(3) [OF perm, of k'] that show ?thesis
      by (auto simp: less_Suc_eq)
  next
    case (Some j)
    with keeps(7) [OF Some] permits_invD(3) [OF perm, of k'] that show ?thesis by (auto split: if_splits)
  qed
  with keeps(1-4) perm j(2) show ?thesis by (simp add: permits_inv_def tally_append)
qed

lemma calls_slots:
  assumes slots: "slots_inv d s" and acq: "acquire sc cls (as_adm s) = (p, a)"
  shows "slots_inv d (s\<lparr>as_adm := a, as_calls := as_calls s @ [(c, p)]\<rparr>)" (is "slots_inv d ?t")
proof (cases "bypasses_admission cls \<or> cls = InteractiveClass \<or> cls = CheapClass")
  case True
  with acq have "a = as_adm s" "uses sc' p = 0" "slot_of p = None" for sc'
    by (auto simp: acquire_def uses_def split: if_splits)
  with slots show ?thesis by (auto simp: slots_inv_def tally_append)
next
  case False
  with acq obtain k where j: "join_slot sc (as_adm s) = (k, a)" "p = EnterAgent sc k"
    by (auto simp: acquire_def split: prod.splits)
  note keeps = join_slot_keeps [OF j(1)]
  have t: "tally (uses sc') ?t = tally (uses sc') s + (if sc' = sc then 1 else 0)" for sc'
    by (simp add: tally_append j(2) uses_def)
  have le: "k < ad_next_slot a" "ad_next_slot (as_adm s) \<le> ad_next_slot a"
    using keeps(6,7) slots_invD(1) [OF slots, of sc] by (cases "ad_agents (as_adm s) sc"; auto)+
  have other: "k' \<noteq> k \<and> k' < ad_next_slot a" if "ad_agents (as_adm s) sc' = Some k'" "sc' \<noteq> sc" for sc' k'
  proof (cases "ad_agents (as_adm s) sc")
    case None
    with slots_invD(1) [OF slots that(1)] keeps(6) le show ?thesis by simp
  next
    case (Some j)
    with slots_invD(1) [OF slots that(1)] slots_invD(6) [OF slots that(1), of sc] keeps(7) that(2) le show ?thesis by auto
  qed
  have same: "ad_slots a k' = ad_slots (as_adm s) k'" if "k' \<noteq> k" for k'
    using keeps(6,7) that by (cases "ad_agents (as_adm s) sc") auto
  have "0 < sl_users (ad_slots a k) \<and> users_match d (tally (uses sc) s + 1) (sl_users (ad_slots a k))"
    using keeps(6,7) slots_invD(3,4) [OF slots, of sc] by (cases "ad_agents (as_adm s) sc") (auto simp: users_match_def)
  with t le other same have users: "k' < ad_next_slot a \<and> 0 < sl_users (ad_slots a k') \<and> users_match d (tally (uses sc') ?t) (sl_users (ad_slots a k'))"
    if "ad_agents a sc' = Some k'" for sc' k'
    using that slots_invD(1-3) [OF slots, of sc' k'] unfolding keeps(5) by (cases "sc' = sc") auto
  have "ad_agents a sc' = None \<Longrightarrow> tally (uses sc') ?t = 0" for sc'
    using t [of sc'] slots_invD(4) [OF slots, of sc'] by (auto simp: keeps(5) split: if_splits)
  moreover have "ad_agents a sc' = Some k'" if "cp \<in> set (as_calls ?t)" "slot_of (snd cp) = Some (sc', k')" for cp sc' k'
    using that slots_invD(5) [OF slots, of cp sc'] keeps(7) by (auto simp: keeps(5) j(2))
  moreover have "sc1 = sc2" if "ad_agents a sc1 = Some k'" "ad_agents a sc2 = Some k'" for sc1 sc2 k'
    using that other slots_invD(6) [OF slots] by (auto simp: keeps(5) split: if_splits)
  ultimately show ?thesis using users unfolding slots_inv_def by simp
qed

lemma call_step_inv: "call_step s t \<Longrightarrow> admission_inv d s \<Longrightarrow> admission_inv d t"
proof (induction rule: call_step.induct)
  case (proceeds i s c p pa)
  then have "\<forall>l. counted l p \<le> ad_active (as_adm s) l"
    using permits_invD(2) [of s] tally_ge [of c p s] by (metis admission_inv_def nth_mem)
  with proceeds show ?case
    using permits_inv_moves proceed_moves proceed_slots by (cases pa) (auto simp: admission_inv_def)
next
  case (loses i s p pa)
  then obtain p' a where pa: "pa = (p', a)" "lose_race p (as_adm s) = Some (p', a)" by (cases pa) auto
  with loses show ?case
    using permits_inv_moves [OF _ loses(1,2) lose_race_moves] slots_inv_keeps [OF _ loses(1,2)] lose_race_keeps
    unfolding admission_inv_def by metis
qed

lemma tally_cancel:
  "i < length (as_calls s) \<Longrightarrow> as_calls s ! i = (c, p) \<Longrightarrow> tally w (s\<lparr>as_calls := (as_calls s)[i := (c', p)]\<rparr>) = tally w s"
  using tally_put [of i s c p w c' "(p, as_adm s)"] by (simp add: put_call_def)

lemma admission_step_inv: "admission_step d s t \<Longrightarrow> admission_inv d s \<Longrightarrow> admission_inv d t"
proof (induction rule: admission_step.induct)
  case (calls sc cls s p a c)
  then show ?case using calls_permits [of s d] calls_slots [of d s] unfolding admission_inv_def by blast
next
  case (takes_scope s)
  then show ?case by (simp add: admission_inv_def permits_inv_def slots_inv_def new_scope_def)
next
  case (steps s t)
  then show ?case using call_step_inv by blast
next
  case (cancels i s c p)
  have mem: "(c, p) \<in> set (as_calls s)" using cancels nth_mem by metis
  have "ad_agents (as_adm s) sc = Some k" if cp: "cp \<in> set ((as_calls s)[i := (True, p)])" "slot_of (snd cp) = Some (sc, k)" for cp sc k
  proof -
    from cp(1) have "cp = (True, p) \<or> cp \<in> set (as_calls s)"
      using set_update_subset_insert [of "as_calls s" i "(True, p)"] by blast
    with cp(2) mem have "\<exists>cq \<in> set (as_calls s). slot_of (snd cq) = Some (sc, k)" by (metis snd_conv)
    with slots_invD(5) [of d s] cancels.prems show ?thesis by (auto simp: admission_inv_def)
  qed
  with cancels show ?case
    unfolding admission_inv_def permits_inv_def slots_inv_def tally_cancel [OF cancels(1,2)] by simp
next
  case (drops i s c p pa)
  then obtain p' a where pa: "pa = (p', a)" "drop_future p (as_adm s) = Some (p', a)" by (cases pa) auto
  with drops show ?case
    using permits_inv_moves [OF _ drops(2,3) drop_future_moves] slots_inv_keeps [OF _ drops(2,3)] drop_future_keeps
    unfolding admission_inv_def by metis
qed

interpretation adm: invariant_system fresh_admission "admission_step d" "admission_inv d" for d
  by unfold_locales (auto intro: admission_inv_fresh admission_step_inv)

section \<open>Progress\<close>

fun finished :: "phase \<Rightarrow> bool" where
  "finished (Finished r) = True"
| "finished _ = False"

definition all_finished :: "admission_system \<Rightarrow> bool" where
  "all_finished s \<longleftrightarrow> list_all (\<lambda>cp. finished (snd cp)) (as_calls s)"

text \<open>The steps a call has left at most.\<close>

fun steps_left :: "phase \<Rightarrow> nat" where
  "steps_left (EnterAgent sc k) = 12"
| "steps_left (WaitAgent sc k) = 11"
| "steps_left (EnterProcess sc k) = 10"
| "steps_left (WaitProcess sc k) = 9"
| "steps_left (GotProcess sc k) = 8"
| "steps_left (Holds (StandardGuard sc k)) = 7"
| "steps_left (EnterWide l) = 6"
| "steps_left (WaitWide l) = 5"
| "steps_left (GotWide l) = 4"
| "steps_left (Holds (WideGuard l)) = 3"
| "steps_left (DropUsers sc) = 3"
| "steps_left (DropActive l) = 2"
| "steps_left (DropPermit l) = 1"
| "steps_left (Gives_Up sc k) = 1"
| "steps_left (Holds EmptyGuard) = 1"
| "steps_left (Finished r) = 0"

lemma proceed_shortens: "proceed c p a = Some (p', a') \<Longrightarrow> steps_left p' < steps_left p"
  by (induction c p a rule: proceed.induct) (auto split: if_splits)

lemma lose_race_shortens: "lose_race p a = Some (p', a') \<Longrightarrow> steps_left p' < steps_left p"
  by (induction p a rule: lose_race.induct) auto

lemma call_step_shortens: "call_step s t \<Longrightarrow> tally steps_left t < tally steps_left s"
proof (induction rule: call_step.induct)
  case (proceeds i s c p pa)
  then show ?case
    using tally_put [OF proceeds(1,2), of steps_left c pa] proceed_shortens [of c p "as_adm s" "fst pa" "snd pa"] by simp
next
  case (loses i s p pa)
  then show ?case
    using tally_put [OF loses(1,2), of steps_left True pa] lose_race_shortens [of p "as_adm s" "fst pa" "snd pa"] by simp
qed

lemma call_steps_bounded: "(call_step ^^ n) s t \<Longrightarrow> n + tally steps_left t \<le> tally steps_left s"
  by (induction n arbitrary: t) (force dest: call_step_shortens)+

text \<open>A call that waits, the others being at rest, finds a permit.\<close>

lemma waiting_proceeds:
  assumes inv: "admission_inv d s" and mem: "(c, p) \<in> set (as_calls s)" "\<not> finished p"
    and rest: "\<And>c q. (c, q) \<in> set (as_calls s) \<Longrightarrow> proceed c q (as_adm s) = None"
  shows False
proof -
  have perm: "permits_inv s" and slots: "slots_inv d s" using inv by (auto simp: admission_inv_def)
  have "holds_lane l q = 0" if "(c, q) \<in> set (as_calls s)" for c q l
    using rest [OF that] by (cases "(c, q, as_adm s)" rule: proceed.cases) auto
  then have "tally (holds_lane l) s = 0" for l by (force simp: tally_def)
  then have lanes: "0 < ad_permits (as_adm s) l" for l using permits_invD(1,4) [OF perm, of l] by simp
  have "holds_slot k q = 0" if "(c, q) \<in> set (as_calls s)" for c q k
    using rest [OF that] lanes [of ProcessLane] by (cases "(c, q, as_adm s)" rule: proceed.cases) (auto split: if_splits)
  then have "tally (holds_slot k) s = 0" for k by (force simp: tally_def)
  then have slot: "0 < sl_permits (ad_slots (as_adm s) k)" if "k < ad_next_slot (as_adm s)" for k
    using permits_invD(3,5) [OF perm] that by fastforce
  have "k < ad_next_slot (as_adm s)" if "slot_of p = Some (sc, k)" for sc k
    using slots_invD(1,5) [OF slots] mem(1) that by fastforce
  with rest [OF mem(1)] lanes slot mem(2) show False
    by (cases "(c, p, as_adm s)" rule: proceed.cases) (auto split: if_splits)
qed

lemma unfinished_steps:
  assumes "admission_inv d s" "\<not> all_finished s"
  shows "\<exists>t. call_step s t"
proof -
  obtain c p where cp: "(c, p) \<in> set (as_calls s)" "\<not> finished p" using assms(2) by (auto simp: all_finished_def list_all_iff)
  then obtain c' q pa where "(c', q) \<in> set (as_calls s)" "proceed c' q (as_adm s) = Some pa"
    using waiting_proceeds [OF assms(1) cp] by (metis not_Some_eq)
  then show ?thesis by (metis in_set_conv_nth proceeds)
qed

lemma call_steps_inv: "call_step\<^sup>*\<^sup>* s t \<Longrightarrow> admission_inv d s \<Longrightarrow> admission_inv d t"
  by (induction rule: rtranclp_induct) (auto intro: call_step_inv)

section \<open>Guarantees\<close>

lemma proceed_config: "proceed c p a = Some (p', a') \<Longrightarrow> ad_limit a' = ad_limit a \<and> ad_agent_limit a' = ad_agent_limit a"
  by (induction c p a rule: proceed.induct) (auto simp: admission_state_defs split: if_splits)

lemma call_step_config:
  "call_step s t \<Longrightarrow> ad_limit (as_adm t) = ad_limit (as_adm s) \<and> ad_agent_limit (as_adm t) = ad_agent_limit (as_adm s)"
  by (induction rule: call_step.induct) (auto dest: proceed_config lose_race_moves simp: moves_def)

lemma admission_step_config:
  "admission_step d s t \<Longrightarrow> ad_limit (as_adm t) = ad_limit (as_adm s) \<and> ad_agent_limit (as_adm t) = ad_agent_limit (as_adm s)"
proof (induction rule: admission_step.induct)
  case (calls sc cls s p a c)
  then show ?case by (auto simp: acquire_def split: if_splits prod.splits dest: join_slot_keeps(1,4))
next
  case (drops i s c p pa)
  then show ?case by (cases pa) (auto dest: drop_future_moves simp: moves_def)
qed (auto simp: new_scope_def dest: call_step_config)

lemma admission_steps_config:
  "(admission_step d)\<^sup>*\<^sup>* s t \<Longrightarrow> ad_limit (as_adm t) = ad_limit (as_adm s) \<and> ad_agent_limit (as_adm t) = ad_agent_limit (as_adm s)"
  by (induction rule: rtranclp_induct) (auto dest: admission_step_config)

text \<open>Calls that were admitted and have not ended, in a lane and for an agent.\<close>

fun running :: "lane \<Rightarrow> phase \<Rightarrow> nat" where
  "running l (Holds (WideGuard l')) = (if l = l' then 1 else 0)"
| "running l (Holds (StandardGuard sc k)) = (if l = ProcessLane then 1 else 0)"
| "running l _ = 0"

fun running_for :: "str \<Rightarrow> phase \<Rightarrow> nat" where
  "running_for sc (Holds (StandardGuard sc' k)) = (if sc = sc' then 1 else 0)"
| "running_for sc _ = 0"

lemma running_holds: "running l p \<le> holds_lane l p"
  by (induction l p rule: running.induct) auto

lemma agent_limit_holds:
  assumes "admission_inv d s"
  shows "tally (running_for sc) s \<le> ad_agent_limit (as_adm s)"
proof (cases "ad_agents (as_adm s) sc")
  case None
  then have "tally (uses sc) s = 0" using assms slots_invD(4) by (auto simp: admission_inv_def)
  moreover have "running_for sc p \<le> uses sc p" for p by (induction sc p rule: running_for.induct) (auto simp: uses_def)
  ultimately show ?thesis using tally_mono [of "running_for sc" "uses sc" s] by simp
next
  case (Some k)
  have "running_for sc p \<le> holds_slot k p" if "(c, p) \<in> set (as_calls s)" for c p
  proof (cases "(sc, p)" rule: running_for.cases)
    case (1 sc' sc'' k')
    then show ?thesis using slots_invD(5) [of d s "(c, p)" sc'' k'] that Some assms by (auto simp: admission_inv_def)
  qed auto
  then have "tally (running_for sc) s \<le> tally (holds_slot k) s" by (rule tally_cong)
  moreover have "sl_permits (ad_slots (as_adm s) k) + tally (holds_slot k) s = ad_agent_limit (as_adm s)"
    using assms Some permits_invD(3) [of s k] slots_invD(1) [of d s sc k] by (simp add: admission_inv_def)
  ultimately show ?thesis by simp
qed

text \<open>C27. Admission never exceeds its limits: whatever calls are made, granted, cancelled, dropped while
they wait or released in whatever interleaving, no more calls run in a lane than its limit, no agent has
more standard calls running than the limit per agent, and the counters never show more than the limit;
a limit of zero counts as one.\<close>

theorem admission_limits:
  assumes "as_adm s0 = with_lane_limits process agents cheap interactive" "as_calls s0 = []"
    and "(admission_step True)\<^sup>*\<^sup>* s0 s"
  shows "tally (running l) s \<le> lane_limits process cheap interactive l
    \<and> tally (running_for sc) s \<le> max agents 1
    \<and> ad_active (as_adm s) l \<le> lane_limits process cheap interactive l"
proof -
  have inv: "admission_inv True s" using assms by (intro adm.inv_reachable) (auto simp: fresh_admission_def)
  have cfg: "ad_limit (as_adm s) = lane_limits process cheap interactive" "ad_agent_limit (as_adm s) = max agents 1"
    using admission_steps_config [OF assms(3)] assms(1) by (simp_all add: with_lane_limits_def)
  have "ad_permits (as_adm s) l + tally (holds_lane l) s = ad_limit (as_adm s) l" "ad_active (as_adm s) l = tally (counted l) s"
    using inv permits_invD(1,2) [of s l] by (auto simp: admission_inv_def)
  moreover have "counted l p \<le> holds_lane l p" for p by (induction l p rule: counted.induct) auto
  ultimately show ?thesis
    using agent_limit_holds [OF inv, of sc] tally_mono [of "running l" "holds_lane l" s, OF running_holds] tally_mono [of "counted l" "holds_lane l" s] cfg by simp
qed

text \<open>C28. Admission gives everything back: when every call made so far has ended, by release, cancellation
or because its caller dropped it, all permits of all lanes are free and the counters are zero; and when
no call was dropped while it waited, no agent has a slot left.\<close>

theorem admission_returns_everything:
  assumes "fresh_admission s0" "(admission_step d)\<^sup>*\<^sup>* s0 s" "all_finished s"
  shows "ad_permits (as_adm s) l = ad_limit (as_adm s) l \<and> ad_active (as_adm s) l = 0
    \<and> (\<not> d \<longrightarrow> ad_agents (as_adm s) sc = None)"
proof -
  have inv: "admission_inv d s" using assms(1,2) by (rule adm.inv_reachable)
  have "holds_lane l p = 0 \<and> counted l p = 0 \<and> uses sc p = 0" if "(c, p) \<in> set (as_calls s)" for c p
    using assms(3) that by (cases p) (auto simp: all_finished_def list_all_iff uses_def)
  then have zero: "tally (holds_lane l) s = 0" "tally (counted l) s = 0" "tally (uses sc) s = 0" by (force simp: tally_def)+
  have "ad_agents (as_adm s) sc = None" if "\<not> d"
    using inv slots_invD(2,3) [of d s sc] zero(3) that by (cases "ad_agents (as_adm s) sc") (auto simp: admission_inv_def users_match_def)
  with inv zero(1,2) permits_invD(1,2) [of s l] show ?thesis by (simp add: admission_inv_def)
qed

text \<open>C29. Admission does not deadlock: from every state that can be reached, the calls made so far take a
bounded number of steps, and where none of them can step any more, all of them have ended; so a call
that waits gets its slots as soon as those before it are released, also a call that holds its agent's
slot while it waits for the process.\<close>

theorem admission_never_stuck:
  assumes "fresh_admission s0" "(admission_step d)\<^sup>*\<^sup>* s0 s"
  shows "(\<forall>n t. (call_step ^^ n) s t \<longrightarrow> n \<le> 12 * length (as_calls s))
    \<and> (\<forall>t. call_step\<^sup>*\<^sup>* s t \<longrightarrow> (\<nexists>u. call_step t u) \<longrightarrow> all_finished t)"
proof -
  have "steps_left p \<le> 12" for p by (induction p rule: steps_left.induct) auto
  then have "tally steps_left s \<le> tally (\<lambda>_. 12) s" by (rule tally_mono)
  then have "tally steps_left s \<le> 12 * length (as_calls s)" by (simp add: tally_def sum_list_triv)
  moreover have "all_finished t" if "call_step\<^sup>*\<^sup>* s t" "\<nexists>u. call_step t u" for t
    using unfinished_steps [OF call_steps_inv [OF that(1) adm.inv_reachable [OF assms]]] that(2) by blast
  ultimately show ?thesis using call_steps_bounded [of _ s] by fastforce
qed

text \<open>Examples: a controller with one slot everywhere and runs of its calls.\<close>

definition advance_call :: "nat \<Rightarrow> admission_system \<Rightarrow> admission_system" where
  "advance_call i s =
     (case as_calls s ! i of (c, p) \<Rightarrow> (case proceed c p (as_adm s) of None \<Rightarrow> s | Some pa \<Rightarrow> put_call i c pa s))"

definition advance_calls :: "nat list \<Rightarrow> admission_system \<Rightarrow> admission_system" where
  "advance_calls js s = fold advance_call js s"

definition make_call :: "str \<Rightarrow> tool_admission_class \<Rightarrow> admission_system \<Rightarrow> admission_system" where
  "make_call sc cls s = (case acquire sc cls (as_adm s) of (p, a) \<Rightarrow> s\<lparr>as_adm := a, as_calls := as_calls s @ [(False, p)]\<rparr>)"

lemma advance_call_steps: "i < length (as_calls s) \<Longrightarrow> (admission_step d)\<^sup>*\<^sup>* s (advance_call i s)"
  by (auto simp: advance_call_def split: prod.splits option.splits intro!: r_into_rtranclp steps proceeds)

lemma advance_calls_steps: "list_all (\<lambda>i. i < length (as_calls s)) js \<Longrightarrow> (admission_step d)\<^sup>*\<^sup>* s (advance_calls js s)"
proof (induction js arbitrary: s)
  case (Cons i js)
  have "length (as_calls (advance_call i s)) = length (as_calls s)" by (auto simp: advance_call_def split: prod.splits option.splits)
  with Cons have "(admission_step d)\<^sup>*\<^sup>* (advance_call i s) (advance_calls js (advance_call i s))" by simp
  with Cons.prems show ?case using advance_call_steps [of i s d] by (simp add: advance_calls_def)
qed (simp add: advance_calls_def)

lemma make_call_steps: "(admission_step d)\<^sup>*\<^sup>* s (make_call sc cls s)"
  by (auto simp: make_call_def split: prod.splits intro!: r_into_rtranclp admission_step.calls)

definition ex_admission :: admission_system where
  "ex_admission = \<lparr>as_adm = with_lane_limits 1 1 1 1, as_calls = []\<rparr>"

definition ex_two_calls :: admission_system where
  "ex_two_calls = advance_calls [0, 0, 0, 0, 0, 1] (make_call ''a'' StandardClass (make_call ''a'' StandardClass ex_admission))"

lemma ex_two_calls_calls: "as_calls ex_two_calls = [(False, Holds (StandardGuard ''a'' 0)), (False, WaitAgent ''a'' 0)]"
  by code_simp

lemma ex_two_calls_reached: "(admission_step d)\<^sup>*\<^sup>* ex_admission ex_two_calls"
proof -
  let ?s = "make_call ''a'' StandardClass (make_call ''a'' StandardClass ex_admission)"
  have "length (as_calls ?s) = 2" by code_simp
  then have "(admission_step d)\<^sup>*\<^sup>* ?s ex_two_calls" unfolding ex_two_calls_def by (intro advance_calls_steps) simp
  with make_call_steps [of d ex_admission "''a''" StandardClass] make_call_steps [of d "make_call ''a'' StandardClass ex_admission" "''a''" StandardClass]
  show ?thesis by (meson rtranclp_trans)
qed

lemma ex_fresh: "fresh_admission ex_admission"
  by (auto simp: fresh_admission_def ex_admission_def)

theorem admission_limits_witness:
  "(admission_step True)\<^sup>*\<^sup>* ex_admission ex_two_calls \<and> tally (running ProcessLane) ex_two_calls = 1
   \<and> tally (running ProcessLane) ex_two_calls \<le> lane_limits 1 1 1 ProcessLane"
  using admission_limits [of ex_admission 1 1 1 1 ex_two_calls ProcessLane "''a''"] ex_two_calls_reached
  by (simp add: ex_admission_def tally_def ex_two_calls_calls)

theorem admission_returns_everything_witness:
  "ad_active (as_adm (advance_calls [0, 0, 0, 0, 1, 1, 1, 1, 1, 1, 1, 1] ex_two_calls)) ProcessLane = 0
   \<and> ad_agents (as_adm (advance_calls [0, 0, 0, 0, 1, 1, 1, 1, 1, 1, 1, 1] ex_two_calls)) ''a'' = None"
proof -
  let ?s = "advance_calls [0, 0, 0, 0, 1, 1, 1, 1, 1, 1, 1, 1] ex_two_calls"
  have "(admission_step False)\<^sup>*\<^sup>* ex_two_calls ?s" by (rule advance_calls_steps) (simp add: ex_two_calls_calls)
  with ex_two_calls_reached have "(admission_step False)\<^sup>*\<^sup>* ex_admission ?s" by (meson rtranclp_trans)
  moreover have "all_finished ?s" by code_simp
  ultimately show ?thesis
    using admission_returns_everything [OF ex_fresh, of False ?s ProcessLane "''a''"] by simp
qed

theorem admission_never_stuck_witness:
  "\<not> all_finished ex_two_calls \<and> (\<exists>u. call_step ex_two_calls u)"
proof -
  have "\<not> all_finished ex_two_calls" by (simp add: all_finished_def ex_two_calls_calls)
  with admission_never_stuck [OF ex_fresh ex_two_calls_reached [of False]] show ?thesis by blast
qed

text \<open>A call that its caller drops while it waits stays a user of its agent's slot, which is then never removed.\<close>

lemma dropped_waiter_keeps_slot:
  "\<exists>s. (admission_step True)\<^sup>*\<^sup>* ex_admission s \<and> all_finished s \<and> ad_agents (as_adm s) ''a'' = Some 0"
proof -
  let ?s = "put_call 1 False (Finished FutureDropped, as_adm ex_two_calls) ex_two_calls"
  let ?t = "advance_calls [0, 0, 0, 0] ?s"
  have "admission_step True ex_two_calls ?s" by (rule drops [where p = "WaitAgent ''a'' 0"]) (simp_all add: ex_two_calls_calls)
  moreover have "(admission_step True)\<^sup>*\<^sup>* ?s ?t" by (rule advance_calls_steps) (simp add: ex_two_calls_calls)
  ultimately have "(admission_step True)\<^sup>*\<^sup>* ex_admission ?t"
    using ex_two_calls_reached [of True] by (meson rtranclp.rtrancl_into_rtrancl rtranclp_trans)
  moreover have "all_finished ?t" by code_simp
  moreover have "ad_agents (as_adm ?t) ''a'' = Some 0" by code_simp
  ultimately show ?thesis by blast
qed

end
