(* ===== verification/Fs_Paths.thy ===== *)
theory Fs_Paths
  imports N00n_Prelude "HOL-Library.Sublist"
begin

text \<open>
  Paths on Unix as the code handles them (\<open>crates/n00n-storage/src/paths.rs\<close> and \<open>resolve_path\<close> of
  \<open>crates/n00n-agent/src/tools/mod.rs\<close>). A \<open>Path\<close> is the list of its \<open>components()\<close>, by which
  \<open>Path\<close> compares and \<open>starts_with\<close> matches. The file system is the function \<open>pe_realpath\<close>, the
  result of \<open>canonicalize\<close>; the current and home directories are given too.
\<close>

section \<open>Paths of the standard library\<close>

datatype component = RootDir | CurDir | ParentDir | Normal str

type_synonym path = "component list"

fun split_char :: "char \<Rightarrow> str \<Rightarrow> str list" where
  "split_char d [] = [[]]"
| "split_char d (c # s) =
     (if c = d then [] # split_char d s
      else (case split_char d s of [] \<Rightarrow> [[c]] | l # ls \<Rightarrow> (c # l) # ls))"

definition SEP :: char where "SEP = CHR ''/''"

definition body_component :: "str \<Rightarrow> component option" where
  "body_component s = (if s = [] \<or> s = ''.'' then None else if s = ''..'' then Some ParentDir else Some (Normal s))"

definition has_root :: "str \<Rightarrow> bool" where
  "has_root s \<longleftrightarrow> s \<noteq> [] \<and> hd s = SEP"

text \<open>A leading \<open>.\<close> of a relative path is a component, any other is not.\<close>

definition include_cur_dir :: "str \<Rightarrow> bool" where
  "include_cur_dir s \<longleftrightarrow> hd (split_char SEP s) = ''.''"

definition components :: "str \<Rightarrow> path" where
  "components s =
     (if has_root s then [RootDir] else if include_cur_dir s then [CurDir] else [])
     @ List.map_filter body_component (split_char SEP s)"

definition is_absolute :: "path \<Rightarrow> bool" where
  "is_absolute p \<longleftrightarrow> p \<noteq> [] \<and> hd p = RootDir"

definition path_join :: "path \<Rightarrow> path \<Rightarrow> path" where
  "path_join a b = (if is_absolute b then b else if a = [] then b else a @ filter (\<lambda>c. c \<noteq> CurDir) b)"

fun component_text :: "component \<Rightarrow> str" where
  "component_text RootDir = []"
| "component_text CurDir = ''.''"
| "component_text ParentDir = ''..''"
| "component_text (Normal n) = n"

text \<open>The text of a path that was built by pushing components.\<close>

fun display_path :: "path \<Rightarrow> str" where
  "display_path [] = []"
| "display_path [RootDir] = [SEP]"
| "display_path [c] = component_text c"
| "display_path (c # p) = component_text c @ SEP # display_path p"

section \<open>\<open>Path::parent\<close> on the text of a path\<close>

text \<open>The last segment of the text beyond the first \<open>n\<close> bytes, with the length it and its separator take.\<close>

definition last_segment :: "nat \<Rightarrow> str \<Rightarrow> nat \<times> str" where
  "last_segment n s =
     (let body = drop n s; seg = rev (takeWhile (\<lambda>c. c \<noteq> SEP) (rev body))
      in (length seg + (if SEP \<in> set body then 1 else 0), seg))"

lemma last_segment_pos: "n < length s \<Longrightarrow> 0 < fst (last_segment n s)"
  by (cases "rev (drop n s)") (auto simp: last_segment_def Let_def dest: arg_cong [where f = set])

lemma last_segment_shortens:
  "\<not> length s \<le> n \<Longrightarrow> (sz, seg) = last_segment n s \<Longrightarrow> length (take (length s - sz) s) < length s"
  using last_segment_pos [of n s] by (cases "last_segment n s") auto

function next_back :: "nat \<Rightarrow> str \<Rightarrow> component option \<times> str" where
  "next_back n s =
     (if length s \<le> n then (None, s)
      else let (sz, seg) = last_segment n s; rest = take (length s - sz) s
           in case body_component seg of Some c \<Rightarrow> (Some c, rest) | None \<Rightarrow> next_back n rest)"
  by auto
termination
  by (relation "measure (\<lambda>(n, s). length s)") (simp_all only: in_measure split_conv last_segment_shortens wf_measure)

declare next_back.simps [simp del]

function trim_right :: "nat \<Rightarrow> str \<Rightarrow> str" where
  "trim_right n s =
     (if length s \<le> n then s
      else let (sz, seg) = last_segment n s
           in case body_component seg of Some c \<Rightarrow> s | None \<Rightarrow> trim_right n (take (length s - sz) s))"
  by auto
termination
  by (relation "measure (\<lambda>(n, s). length s)") (simp_all only: in_measure split_conv last_segment_shortens wf_measure)

declare trim_right.simps [simp del]

definition path_parent :: "str \<Rightarrow> str option" where
  "path_parent s =
     (let n = (if has_root s \<or> include_cur_dir s then 1 else 0)
      in case next_back n s of
           (Some c, rest) \<Rightarrow> Some (trim_right n rest)
         | (None, rest) \<Rightarrow> if has_root s then None else if include_cur_dir s then Some [] else None)"

section \<open>Normalization\<close>

record path_env =
  pe_cwd :: "path option"
  pe_home :: "path option"
  pe_realpath :: "path \<Rightarrow> path option"

text \<open>\<open>std::path::absolute\<close>: an error on an empty path or without a current directory.\<close>

definition absolute :: "path_env \<Rightarrow> path \<Rightarrow> path option" where
  "absolute env p =
     (if p = [] then None
      else if is_absolute p then Some p
      else map_option (\<lambda>cwd. cwd @ filter (\<lambda>c. c \<noteq> CurDir) p) (pe_cwd env))"

fun is_normal :: "component \<Rightarrow> bool" where
  "is_normal (Normal _) = True"
| "is_normal _ = False"

definition pop_normal :: "path \<Rightarrow> path" where
  "pop_normal p = (if p \<noteq> [] \<and> is_normal (last p) then butlast p else p)"

fun normalize_step :: "component \<Rightarrow> path \<Rightarrow> path" where
  "normalize_step ParentDir result = pop_normal result"
| "normalize_step CurDir result = result"
| "normalize_step other result = result @ [other]"

definition normalize_abs_path :: "path \<Rightarrow> path" where
  "normalize_abs_path p = fold normalize_step p []"

definition normalize_path :: "path_env \<Rightarrow> path \<Rightarrow> path" where
  "normalize_path env p = normalize_abs_path (case absolute env p of None \<Rightarrow> p | Some q \<Rightarrow> q)"

definition canonicalize_clean :: "path_env \<Rightarrow> path \<Rightarrow> path" where
  "canonicalize_clean env p = (case pe_realpath env p of Some canon \<Rightarrow> canon | None \<Rightarrow> normalize_path env p)"

fun canonicalize_step :: "path_env \<Rightarrow> component \<Rightarrow> path \<Rightarrow> path" where
  "canonicalize_step env RootDir current = current @ [RootDir]"
| "canonicalize_step env CurDir current = current"
| "canonicalize_step env ParentDir current =
     (case pe_realpath env (current @ [ParentDir]) of Some canon \<Rightarrow> canon | None \<Rightarrow> pop_normal current)"
| "canonicalize_step env (Normal name) current =
     (case pe_realpath env (current @ [Normal name]) of Some canon \<Rightarrow> canon | None \<Rightarrow> current @ [Normal name])"

definition incremental_canonicalize :: "path_env \<Rightarrow> path \<Rightarrow> path option" where
  "incremental_canonicalize env p =
     (let current = fold (canonicalize_step env) p []
      in if current = [] then None
         else Some (case absolute env current of Some q \<Rightarrow> q | None \<Rightarrow> current))"

section \<open>\<open>resolve_path\<close>\<close>

definition resolve_path :: "path_env \<Rightarrow> str \<Rightarrow> str + path" where
  "resolve_path env s =
     bindR (case strip_prefix s ''~/'' of
              Some rest \<Rightarrow> ok_or ''cannot expand ~: HOME not set'' (map_option (\<lambda>h. path_join h (components rest)) (pe_home env))
            | None \<Rightarrow> if s = ''~'' then ok_or ''cannot expand ~: HOME not set'' (pe_home env) else Inr (components s))
       (\<lambda>expanded. if is_absolute expanded then Inr expanded
                   else ok_or ''cwd error'' (map_option (\<lambda>cwd. path_join cwd expanded) (pe_cwd env)))"

section \<open>Lexical normalization\<close>

definition dot_free :: "path \<Rightarrow> bool" where
  "dot_free p \<longleftrightarrow> ParentDir \<notin> set p \<and> CurDir \<notin> set p"

lemma normalize_step_dot_free: "dot_free p \<Longrightarrow> dot_free (normalize_step c p)"
  by (cases c) (auto simp: dot_free_def pop_normal_def dest: in_set_butlastD)

lemma fold_normalize_dot_free: "dot_free p \<Longrightarrow> dot_free (fold normalize_step cs p)"
  by (induction cs arbitrary: p) (auto simp: normalize_step_dot_free)

lemma normalize_abs_dot_free: "dot_free (normalize_abs_path p)"
  unfolding normalize_abs_path_def by (rule fold_normalize_dot_free) (simp add: dot_free_def)

lemma fold_normalize_id: "dot_free cs \<Longrightarrow> fold normalize_step cs p = p @ cs"
proof (induction cs arbitrary: p)
  case (Cons c cs)
  then show ?case by (cases c) (auto simp: dot_free_def)
qed simp

lemma normalize_abs_idem: "normalize_abs_path (normalize_abs_path p) = normalize_abs_path p"
  unfolding normalize_abs_path_def [of "normalize_abs_path p"]
  using fold_normalize_id [OF normalize_abs_dot_free] by simp

lemma normalize_step_absolute: "is_absolute p \<Longrightarrow> is_absolute (normalize_step c p)"
  by (cases c; cases p rule: rev_cases) (auto simp: is_absolute_def pop_normal_def hd_append split: if_splits)

lemma fold_normalize_absolute: "is_absolute p \<Longrightarrow> is_absolute (fold normalize_step cs p)"
  by (induction cs arbitrary: p) (auto simp: normalize_step_absolute)

lemma normalize_abs_absolute: "is_absolute p \<Longrightarrow> is_absolute (normalize_abs_path p)"
  by (cases p) (auto simp: normalize_abs_path_def is_absolute_def [of "_ # _"] intro: fold_normalize_absolute simp: is_absolute_def [of "[RootDir]"])

section \<open>Physical paths\<close>

text \<open>
  A path as \<open>canonicalize\<close> returns it: the root, then names that are neither empty nor dots and
  contain no separator.
\<close>

definition real_name :: "str \<Rightarrow> bool" where
  "real_name n \<longleftrightarrow> n \<noteq> [] \<and> n \<noteq> ''.'' \<and> n \<noteq> ''..'' \<and> SEP \<notin> set n"

fun real_component :: "component \<Rightarrow> bool" where
  "real_component (Normal n) = real_name n"
| "real_component _ = False"

definition physical :: "path \<Rightarrow> bool" where
  "physical p \<longleftrightarrow> is_absolute p \<and> list_all real_component (tl p)"

lemma physicalE:
  assumes "physical p"
  obtains cs where "p = RootDir # cs" "list_all real_component cs"
  using assms by (cases p) (auto simp: physical_def is_absolute_def)

lemma split_char_names:
  "SEP \<notin> set a \<Longrightarrow> split_char SEP (a @ SEP # s) = a # split_char SEP s"
  "SEP \<notin> set a \<Longrightarrow> split_char SEP a = [a]"
  by (induction a) auto

lemma map_filter_simps_list [simp]:
  "List.map_filter f [] = []"
  "List.map_filter f (x # xs) = (case f x of None \<Rightarrow> List.map_filter f xs | Some y \<Rightarrow> y # List.map_filter f xs)"
  by (simp_all add: List.map_filter_def split: option.splits)

lemma display_path_Cons: "cs \<noteq> [] \<Longrightarrow> display_path (c # cs) = component_text c @ SEP # display_path cs"
  by (cases cs; cases c) auto

lemma components_of_names:
  "list_all real_component cs \<Longrightarrow> cs \<noteq> [] \<Longrightarrow>
   List.map_filter body_component (split_char SEP (display_path cs)) = cs"
proof (induction cs)
  case (Cons c cs)
  then obtain n where c: "c = Normal n" "real_name n" by (cases c) auto
  with Cons show ?case
    by (cases "cs = []") (auto simp: display_path_Cons split_char_names body_component_def real_name_def)
qed simp

text \<open>The text of a physical path reads back as the path.\<close>

lemma components_display:
  assumes "physical p" shows "components (display_path p) = p"
proof -
  obtain cs where p: "p = RootDir # cs" "list_all real_component cs" using assms by (rule physicalE)
  show ?thesis
  proof (cases cs)
    case Nil
    with p show ?thesis by (simp add: components_def has_root_def body_component_def)
  next
    case (Cons d ds)
    then have t: "display_path (RootDir # cs) = SEP # display_path cs" by simp
    have "List.map_filter body_component (split_char SEP (display_path cs)) = cs"
      by (rule components_of_names) (use p Cons in auto)
    then show ?thesis using p by (simp add: t components_def has_root_def body_component_def)
  qed
qed

lemma has_root_display: "physical p \<Longrightarrow> has_root (display_path p)"
  by (erule physicalE, cases "tl p") (auto simp: has_root_def)

lemma components_absolute: "has_root s \<Longrightarrow> is_absolute (components s)"
  by (simp add: components_def is_absolute_def)

section \<open>Incremental canonicalization is physical\<close>

text \<open>
  What the code relies on of \<open>canonicalize\<close>: results are physical paths and resolve to themselves,
  the root resolves to itself, and a path is resolved left to right, so that its last component is
  looked up in the physical directory of what stands before it.
\<close>

definition realpath_physical :: "path_env \<Rightarrow> bool" where
  "realpath_physical env \<longleftrightarrow> (\<forall>p q. pe_realpath env p = Some q \<longrightarrow> physical q \<and> pe_realpath env q = Some q)"

definition realpath_stepwise :: "path_env \<Rightarrow> bool" where
  "realpath_stepwise env \<longleftrightarrow> pe_realpath env [RootDir] = Some [RootDir]
     \<and> (\<forall>p c r. is_absolute p \<longrightarrow> pe_realpath env (p @ [c]) = Some r \<longrightarrow>
          (\<exists>q. pe_realpath env p = Some q \<and> pe_realpath env (q @ [c]) = Some r))"

lemma realpath_stepwiseD:
  assumes "realpath_stepwise env" "is_absolute p" "pe_realpath env (p @ [c]) = Some r"
  obtains q where "pe_realpath env p = Some q" "pe_realpath env (q @ [c]) = Some r"
  using assms unfolding realpath_stepwise_def by blast

lemma canonicalize_fold:
  assumes laws: "realpath_physical env" "realpath_stepwise env"
  shows "list_all (\<lambda>c. c \<noteq> RootDir \<and> c \<noteq> CurDir) cs \<Longrightarrow> pe_realpath env (RootDir # cs) = Some q \<Longrightarrow>
    fold (canonicalize_step env) (RootDir # cs) [] = q"
proof (induction cs arbitrary: q rule: rev_induct)
  case Nil
  with laws show ?case by (simp add: realpath_stepwise_def)
next
  case (snoc c cs)
  then have "pe_realpath env ((RootDir # cs) @ [c]) = Some q" by simp
  then obtain q' where q': "pe_realpath env (RootDir # cs) = Some q'" "pe_realpath env (q' @ [c]) = Some q"
    using realpath_stepwiseD [OF laws(2)] by (metis is_absolute_def list.discI list.sel(1))
  with snoc have "fold (canonicalize_step env) (RootDir # cs) [] = q'" by simp
  with q' snoc.prems show ?case by (cases c) auto
qed

lemma missing_stays_missing:
  assumes laws: "realpath_physical env" "realpath_stepwise env"
  shows "physical q \<Longrightarrow> pe_realpath env (q @ [Normal n]) = None \<Longrightarrow>
    pe_realpath env (q @ Normal n # map Normal ns) = None"
proof (induction ns rule: rev_induct)
  case (snoc m ns)
  show ?case
  proof (rule ccontr)
    assume "pe_realpath env (q @ Normal n # map Normal (ns @ [m])) \<noteq> None"
    then obtain r where "pe_realpath env ((q @ Normal n # map Normal ns) @ [Normal m]) = Some r" by auto
    then obtain q' where "pe_realpath env (q @ Normal n # map Normal ns) = Some q'"
      using realpath_stepwiseD [OF laws(2), of "q @ Normal n # map Normal ns" "Normal m" r] snoc.prems
      by (auto simp: physical_def is_absolute_def)
    with snoc show False by simp
  qed
qed simp

lemma canonicalize_missing:
  assumes laws: "realpath_physical env" "realpath_stepwise env"
    and q: "physical q" and miss: "ns \<noteq> [] \<longrightarrow> pe_realpath env (q @ [Normal (hd ns)]) = None"
  shows "fold (canonicalize_step env) (map Normal ns) q = q @ map Normal ns"
  using miss
proof (induction ns rule: rev_induct)
  case (snoc m ns)
  show ?case
  proof (cases ns)
    case Nil
    with snoc show ?thesis by simp
  next
    case (Cons n ns')
    with snoc.prems have "pe_realpath env (q @ Normal n # map Normal (ns' @ [m])) = None"
      by (intro missing_stays_missing [OF laws q]) simp
    with snoc Cons show ?thesis by simp
  qed
qed simp

text \<open>
  The result for an absolute path whose first part exists: the physical location of that part, with
  the names that do not exist appended.
\<close>

lemma incremental_canonicalize_physical:
  assumes laws: "realpath_physical env" "realpath_stepwise env"
    and p: "list_all (\<lambda>c. c \<noteq> RootDir \<and> c \<noteq> CurDir) cs" "pe_realpath env (RootDir # cs) = Some q"
    and miss: "ns \<noteq> [] \<longrightarrow> pe_realpath env (q @ [Normal (hd ns)]) = None"
  shows "incremental_canonicalize env ((RootDir # cs) @ map Normal ns) = Some (q @ map Normal ns)"
proof -
  have q: "physical q" using laws p by (auto simp: realpath_physical_def)
  have "fold (canonicalize_step env) ((RootDir # cs) @ map Normal ns) [] = q @ map Normal ns"
    using canonicalize_fold [OF laws p] canonicalize_missing [OF laws q miss] by simp
  with q show ?thesis
    by (auto simp: incremental_canonicalize_def Let_def absolute_def physical_def is_absolute_def)
qed

lemma components_body_shape:
  assumes "has_root s"
  obtains cs where "components s = RootDir # cs" "list_all (\<lambda>c. c \<noteq> RootDir \<and> c \<noteq> CurDir) cs"
proof
  show "components s = RootDir # List.map_filter body_component (split_char SEP s)"
    using assms by (simp add: components_def)
  show "list_all (\<lambda>c. c \<noteq> RootDir \<and> c \<noteq> CurDir) (List.map_filter body_component (split_char SEP s))"
    by (induction "split_char SEP s") (auto simp: list_all_iff List.map_filter_def body_component_def split: if_splits)
qed

text \<open>
  A file system for examples: every directory exists but those named \<open>new\<close>, and \<open>/p/link\<close> is a
  symbolic link to \<open>/etc\<close>.
\<close>

fun example_lookup :: "component \<Rightarrow> path \<Rightarrow> path option" where
  "example_lookup (Normal n) q =
     (if \<not> real_name n \<or> n = ''new'' then None
      else if q = [RootDir, Normal ''p''] \<and> n = ''link'' then Some [RootDir, Normal ''etc'']
      else Some (q @ [Normal n]))"
| "example_lookup ParentDir q = Some (pop_normal q)"
| "example_lookup CurDir q = Some q"
| "example_lookup RootDir q = None"

definition example_realpath :: "path \<Rightarrow> path option" where
  "example_realpath p =
     (case p of RootDir # cs \<Rightarrow> fold (\<lambda>c r. Option.bind r (example_lookup c)) cs (Some [RootDir]) | _ \<Rightarrow> None)"

definition example_env :: path_env where
  "example_env = \<lparr>pe_cwd = Some [RootDir, Normal ''p''], pe_home = None, pe_realpath = example_realpath\<rparr>"

lemma example_realpath_snoc:
  "is_absolute p \<Longrightarrow> example_realpath (p @ [c]) = Option.bind (example_realpath p) (example_lookup c)"
  by (cases p) (auto simp: example_realpath_def is_absolute_def)

text \<open>What the example resolves to: existing names, and nothing below the link.\<close>

definition settled :: "path \<Rightarrow> bool" where
  "settled q \<longleftrightarrow> physical q \<and> Normal ''new'' \<notin> set q \<and> \<not> prefix [RootDir, Normal ''p'', Normal ''link''] q"

lemma physical_snoc: "physical p \<Longrightarrow> physical (p @ [Normal n]) \<longleftrightarrow> real_name n"
  by (erule physicalE) (simp add: physical_def is_absolute_def)

lemma physical_pop: "physical (p @ [c]) \<Longrightarrow> p \<noteq> [] \<Longrightarrow> physical p"
  by (cases p) (auto simp: physical_def is_absolute_def)

lemma settled_lookup: "settled q \<Longrightarrow> example_lookup c q = Some r \<Longrightarrow> settled r"
proof (cases c)
  case (Normal n)
  then show "settled q \<Longrightarrow> example_lookup c q = Some r \<Longrightarrow> settled r"
    by (auto simp: settled_def physical_snoc split: if_splits)
       (simp_all add: physical_def is_absolute_def real_name_def SEP_def)
next
  case ParentDir
  then show "settled q \<Longrightarrow> example_lookup c q = Some r \<Longrightarrow> settled r"
  proof (cases q rule: rev_cases)
    case (snoc p d)
    show "settled q \<Longrightarrow> example_lookup c q = Some r \<Longrightarrow> settled r"
      using snoc ParentDir physical_pop [of p d]
      by (cases "p = []") (auto simp: settled_def pop_normal_def physical_def is_absolute_def split: if_splits)
  qed (auto simp: pop_normal_def)
qed auto

lemma settled_fold: "settled q \<Longrightarrow> fold (\<lambda>c r. Option.bind r (example_lookup c)) cs (Some q) = Some r \<Longrightarrow> settled r"
proof (induction cs arbitrary: q)
  case (Cons c cs)
  show ?case
  proof (cases "example_lookup c q")
    case None
    have "fold (\<lambda>c r. Option.bind r (example_lookup c)) cs None = None" by (induction cs) auto
    with Cons.prems None show ?thesis by simp
  qed (use Cons settled_lookup in auto)
qed simp

lemma settled_result: "example_realpath p = Some q \<Longrightarrow> settled q"
proof -
  have "settled [RootDir]" by (simp add: settled_def physical_def is_absolute_def)
  then show "example_realpath p = Some q \<Longrightarrow> settled q"
    by (auto simp: example_realpath_def split: list.splits component.splits dest: settled_fold)
qed

lemma settled_fixed: "settled q \<Longrightarrow> example_realpath q = Some q"
proof (induction q rule: rev_induct)
  case (snoc d q)
  show ?case
  proof (cases "q = []")
    case True
    with snoc.prems show ?thesis by (simp add: settled_def physical_def is_absolute_def example_realpath_def)
  next
    case False
    with snoc.prems have q: "settled q" "is_absolute q" "real_component d"
      by (cases q; auto simp: settled_def physical_def is_absolute_def)+
    then have "example_lookup d q = Some (q @ [d])"
      using snoc.prems by (cases d) (auto simp: settled_def)
    with q snoc.IH show ?thesis by (simp add: example_realpath_snoc)
  qed
qed (simp add: settled_def physical_def is_absolute_def)

lemma example_laws: "realpath_physical example_env" "realpath_stepwise example_env"
proof -
  show "realpath_physical example_env"
    by (auto simp: realpath_physical_def example_env_def settled_fixed dest: settled_result) (simp add: settled_def settled_result [unfolded settled_def])
  show "realpath_stepwise example_env"
    unfolding realpath_stepwise_def example_env_def
  proof (simp add: example_realpath_def [of "[RootDir]"], intro allI impI)
    fix p c r assume a: "is_absolute p" "example_realpath (p @ [c]) = Some r"
    then obtain q where q: "example_realpath p = Some q" "example_lookup c q = Some r"
      by (auto simp: example_realpath_snoc bind_eq_Some_conv)
    then have "example_realpath (q @ [c]) = Some r"
      using settled_result [OF q(1)] settled_fixed [of q]
      by (simp add: example_realpath_snoc settled_def physical_def)
    with q show "\<exists>q. example_realpath p = Some q \<and> example_realpath (q @ [c]) = Some r" by blast
  qed
qed

end
