(* ===== verification/Str_Words.thy ===== *)
theory Str_Words
  imports N00n_Prelude
begin

text \<open>
  \<open>str::split_whitespace\<close> on UTF-8 bytes, with the white space of the prelude. A white space character
  of several bytes starts with a lead byte, so that the search for it byte by byte meets it only where
  a character starts.
\<close>

text \<open>The length of the white space character a text starts with, 0 if it starts with none.\<close>

fun ws_len :: "str \<Rightarrow> nat" where
  "ws_len [] = 0"
| "ws_len [a] = (if ascii_ws a then 1 else 0)"
| "ws_len [a, b] = (if ascii_ws a then 1 else if ws2 a b then 2 else 0)"
| "ws_len (a # b # c # s) = (if ascii_ws a then 1 else if ws2 a b then 2 else if ws3 a b c then 3 else 0)"

function skip_ws :: "str \<Rightarrow> str" where
  "skip_ws s = (if ws_len s = 0 \<or> s = [] then s else skip_ws (drop (ws_len s) s))"
  by auto
termination by (relation "measure length") auto

declare skip_ws.simps [simp del]

fun take_word :: "str \<Rightarrow> str" where
  "take_word [] = []"
| "take_word (c # s) = (if ws_len (c # s) = 0 then c # take_word s else [])"

lemma ws_len_skip [simp]: "ws_len (skip_ws s) = 0"
  by (induction s rule: skip_ws.induct; subst skip_ws.simps) auto

lemma length_skip_ws: "length (skip_ws s) \<le> length s"
  by (induction s rule: skip_ws.induct; subst skip_ws.simps) auto

lemma take_word_pos: "ws_len s = 0 \<Longrightarrow> s \<noteq> [] \<Longrightarrow> 0 < length (take_word s)"
  by (cases s) auto

function split_whitespace :: "str \<Rightarrow> str list" where
  "split_whitespace s =
     (let rest = skip_ws s
      in if rest = [] then [] else take_word rest # split_whitespace (drop (length (take_word rest)) rest))"
  by auto
termination
proof (relation "measure length")
  fix s rest :: str assume "rest = skip_ws s" "rest \<noteq> []"
  then have "0 < length (take_word rest)" "length rest \<le> length s" "0 < length rest"
    using length_skip_ws [of s] take_word_pos [OF ws_len_skip, of s] by auto
  then show "(drop (length (take_word rest)) rest, s) \<in> measure length"
    unfolding in_measure length_drop by linarith
qed simp

declare split_whitespace.simps [simp del]

text \<open>\<open>split_whitespace().next()\<close>\<close>

definition first_token :: "str \<Rightarrow> str option" where
  "first_token s = (if skip_ws s = [] then None else Some (take_word (skip_ws s)))"

lemma first_token_split: "first_token s = (case split_whitespace s of [] \<Rightarrow> None | w # _ \<Rightarrow> Some w)"
  by (subst split_whitespace.simps) (simp add: first_token_def Let_def)

fun join_words :: "str list \<Rightarrow> str" where
  "join_words [] = []"
| "join_words [w] = w"
| "join_words (w # v # ws) = w @ '' '' @ join_words (v # ws)"

end
