(* ===== verification/Permissions.thy ===== *)
theory Permissions
  imports Tool_Key Fs_Paths Str_Words
begin

text \<open>
  The permission manager (\<open>crates/n00n-agent/src/permissions.rs\<close>): rules of the session, the
  configuration and the program itself, the decision on a tool call, the prompt to the user and what
  the answer leaves behind. Operations take the file system as the \<open>path_env\<close> of \<open>Fs_Paths\<close>.
\<close>

section \<open>Data\<close>

definition FILE_WRITE_TOOLS :: "str list" where
  "FILE_WRITE_TOOLS = [''write_file'', ''edit_file'', ''edit_file_bulk'', ''edit_file_lines'', ''insert_file_lines'']"

definition BASH_TOOL_NAME :: str where "BASH_TOOL_NAME = ''run_shell''"

definition DEFAULT_DENY_GUIDANCE :: str where
  "DEFAULT_DENY_GUIDANCE = ''Do not retry. Try a different approach or ask the user for guidance.''"

definition PERMISSION_DENIED_PREFIX :: str where
  "PERMISSION_DENIED_PREFIX = ''Permission denied for''"

definition BOUNDARY_UNVERIFIABLE_PREFIX :: str where
  "BOUNDARY_UNVERIFIABLE_PREFIX = ''Cannot verify project boundary for''"

record permission_scopes =
  ps_scopes :: "str list"
  ps_force_prompt :: bool

definition single :: "str \<Rightarrow> permission_scopes" where
  "single scope = \<lparr>ps_scopes = [scope], ps_force_prompt = False\<rparr>"

definition force_prompt_scopes :: "str \<Rightarrow> permission_scopes" where
  "force_prompt_scopes scope = \<lparr>ps_scopes = [scope], ps_force_prompt = True\<rparr>"

datatype permission_check = Allowed | Denied | NeedsPrompt tool_key "str list" bool

record permission_error =
  err_tool :: str
  err_scope :: str
  err_guidance :: "str option"

definition display_permission_error :: "permission_error \<Rightarrow> str" where
  "display_permission_error e =
     PERMISSION_DENIED_PREFIX @ '' `'' @ err_tool e @ ''` ('' @ err_scope e @ '').''
     @ (case err_guidance e of
          Some g \<Rightarrow> '' User guidance: '' @ g
        | None \<Rightarrow> '' '' @ DEFAULT_DENY_GUIDANCE)"

definition new_error :: "str \<Rightarrow> str \<Rightarrow> permission_error" where
  "new_error tool scope = \<lparr>err_tool = tool, err_scope = scope, err_guidance = None\<rparr>"

definition with_guidance :: "str \<Rightarrow> str \<Rightarrow> str \<Rightarrow> permission_error" where
  "with_guidance tool scope guidance = \<lparr>err_tool = tool, err_scope = scope, err_guidance = Some guidance\<rparr>"

datatype permission_answer = AllowOnce | AllowSession | AllowAlwaysLocal | AllowAlwaysGlobal
  | DenyOnce | DenyWithGuidance str | DenyAlwaysLocal | DenyAlwaysGlobal

fun is_allow :: "permission_answer \<Rightarrow> bool" where
  "is_allow AllowOnce = True"
| "is_allow AllowSession = True"
| "is_allow AllowAlwaysLocal = True"
| "is_allow AllowAlwaysGlobal = True"
| "is_allow _ = False"

fun encode :: "permission_answer \<Rightarrow> str" where
  "encode AllowOnce = ''allow''"
| "encode AllowSession = ''allow_session''"
| "encode AllowAlwaysLocal = ''allow_always_local''"
| "encode AllowAlwaysGlobal = ''allow_always_global''"
| "encode DenyOnce = ''deny''"
| "encode (DenyWithGuidance g) = ''deny:'' @ g"
| "encode DenyAlwaysLocal = ''deny_always_local''"
| "encode DenyAlwaysGlobal = ''deny_always_global''"

definition decode :: "str \<Rightarrow> permission_answer option" where
  "decode s =
     (if s = ''allow'' then Some AllowOnce
      else if s = ''allow_session'' then Some AllowSession
      else if s = ''allow_always_local'' then Some AllowAlwaysLocal
      else if s = ''allow_always_global'' then Some AllowAlwaysGlobal
      else if s = ''deny'' then Some DenyOnce
      else if s = ''deny_always_local'' then Some DenyAlwaysLocal
      else if s = ''deny_always_global'' then Some DenyAlwaysGlobal
      else if starts_with s ''deny:'' then
        (let guidance = (case strip_prefix s ''deny:'' of None \<Rightarrow> [] | Some v \<Rightarrow> v)
         in if guidance = [] then Some DenyOnce else Some (DenyWithGuidance guidance))
      else None)"

fun guidance :: "permission_answer \<Rightarrow> str option" where
  "guidance (DenyWithGuidance g) = Some g"
| "guidance _ = None"

record permission_manager =
  pm_session_rules :: "permission_rule list"
  pm_config_rules :: "permission_rule list"
  pm_builtin_rules :: "permission_rule list"
  pm_yolo :: bool
  pm_default :: default_effect
  pm_tool_defaults :: "(tool_key \<times> default_effect) list"
  pm_cwd :: path

section \<open>Matching\<close>

fun matches_rule :: "tool_key \<Rightarrow> tool_key \<Rightarrow> bool" where
  "matches_rule Wildcard _ = True"
| "matches_rule (Native a) (Native b) = (canonical_tool_name a = canonical_tool_name b)"
| "matches_rule (McpServer rs) (McpServer as) = (rs = as)"
| "matches_rule (McpServer rs) (McpTool as _) = (rs = as)"
| "matches_rule (McpTool rs rt) (McpTool as at) = (rs = as \<and> rt = at)"
| "matches_rule _ _ = False"

definition norm_scope :: "path_env \<Rightarrow> str \<Rightarrow> path" where
  "norm_scope env p =
     (let p' = (case absolute env (components p) of Some q \<Rightarrow> q | None \<Rightarrow> components p)
      in case incremental_canonicalize env p' of Some q \<Rightarrow> q | None \<Rightarrow> normalize_path env p')"

text \<open>\<open>Path::starts_with\<close> compares whole components.\<close>

definition scope_matches :: "path_env \<Rightarrow> str \<Rightarrow> str \<Rightarrow> bool" where
  "scope_matches env pattern v =
     (if pattern = ''*'' \<or> pattern = ''**'' then True
      else case strip_suffix pattern ''/**'' of
        Some pre \<Rightarrow> norm_scope env v = norm_scope env pre \<or> prefix (norm_scope env pre) (norm_scope env v)
      | None \<Rightarrow>
          case strip_suffix pattern '' *'' of
            Some pre \<Rightarrow> v = pre \<or> starts_with v (pre @ '' '')
          | None \<Rightarrow>
              case strip_suffix pattern ''*'' of
                Some pre \<Rightarrow> starts_with v pre
              | None \<Rightarrow> pattern = v)"

definition rule_matches_scope :: "path_env \<Rightarrow> permission_rule \<Rightarrow> str \<Rightarrow> bool" where
  "rule_matches_scope env r scope =
     (case pr_scope r of None \<Rightarrow> True | Some pattern \<Rightarrow> scope_matches env pattern scope)"

definition normalize_scope_path :: "path_env \<Rightarrow> str \<Rightarrow> str" where
  "normalize_scope_path env p =
     display_path (normalize_path env (case resolve_path env p of Inr q \<Rightarrow> q | Inl _ \<Rightarrow> components p))"

definition physical_boundary_check :: "path_env \<Rightarrow> path \<Rightarrow> path \<Rightarrow> bool option" where
  "physical_boundary_check env parent child =
     (case incremental_canonicalize env parent of
        None \<Rightarrow> None
      | Some parent_canon \<Rightarrow>
          let child_canon = (case incremental_canonicalize env child of Some q \<Rightarrow> q | None \<Rightarrow> child)
          in Some (prefix parent_canon child_canon))"

section \<open>Defaults\<close>

text \<open>\<open>min_by_key\<close> on the name: the first of the smallest.\<close>

fun min_by_name :: "(str \<times> 'a) list \<Rightarrow> (str \<times> 'a) option" where
  "min_by_name [] = None"
| "min_by_name (x # xs) = Some (fold (\<lambda>y m. if fst y < fst m then y else m) xs x)"

fun native_name :: "tool_key \<Rightarrow> str option" where
  "native_name (Native name) = Some name"
| "native_name _ = None"

definition alias_entries :: "str \<Rightarrow> (tool_key \<times> default_effect) list \<Rightarrow> (str \<times> default_effect) list" where
  "alias_entries canonical defaults =
     List.map_filter
       (\<lambda>(key, effect). case native_name key of
            Some name \<Rightarrow> if canonical_tool_name name = canonical then Some (name, effect) else None
          | None \<Rightarrow> None) defaults"

definition or_else :: "'a option \<Rightarrow> 'a option \<Rightarrow> 'a option" where
  "or_else a b = (case a of Some x \<Rightarrow> Some x | None \<Rightarrow> b)"

definition resolve_tool_default :: "(tool_key \<times> default_effect) list \<Rightarrow> tool_key \<Rightarrow> default_effect option" where
  "resolve_tool_default defaults tool =
     or_else (map_of defaults tool)
       (case tool of
          Native actual \<Rightarrow>
            (let canonical = canonical_tool_name actual
             in or_else (map_option snd (find (\<lambda>(key, effect). native_name key = Some canonical) defaults))
                  (or_else (map_option snd (min_by_name (alias_entries canonical defaults)))
                     (map_of defaults Wildcard)))
        | McpTool server _ \<Rightarrow> or_else (map_of defaults (McpServer server)) (map_of defaults Wildcard)
        | McpServer _ \<Rightarrow> map_of defaults Wildcard
        | Wildcard \<Rightarrow> map_of defaults Wildcard)"

section \<open>Generalization of scopes\<close>

definition generalize_bash_segment :: "str \<Rightarrow> str" where
  "generalize_bash_segment segment = (case first_token segment of None \<Rightarrow> segment | Some v \<Rightarrow> v) @ '' *''"

definition is_file_write_tool :: "str \<Rightarrow> bool" where
  "is_file_write_tool name =
     list_ex (\<lambda>candidate. canonical_tool_name candidate = canonical_tool_name name) FILE_WRITE_TOOLS"

fun generalize_scope :: "tool_key \<Rightarrow> str \<Rightarrow> str" where
  "generalize_scope (Native name) scope =
     (if canonical_tool_name name = BASH_TOOL_NAME then generalize_bash_segment scope
      else if is_file_write_tool name then
        (case path_parent scope of
           Some parent \<Rightarrow> if parent \<noteq> [] then parent @ ''/**'' else ''**''
         | None \<Rightarrow> ''**'')
      else scope)"
| "generalize_scope (McpTool _ _) scope = ''*''"
| "generalize_scope (McpServer _) scope = ''*''"
| "generalize_scope Wildcard scope = scope"

text \<open>The first occurrence of every generalized scope is kept.\<close>

fun keep_first :: "'a set \<Rightarrow> 'a list \<Rightarrow> 'a list" where
  "keep_first seen [] = []"
| "keep_first seen (x # xs) = (if x \<in> seen then keep_first seen xs else x # keep_first (insert x seen) xs)"

definition generalized_scopes :: "tool_key \<Rightarrow> str list \<Rightarrow> str list" where
  "generalized_scopes tool scopes = keep_first {} (map (generalize_scope tool) scopes)"

section \<open>The manager\<close>

text \<open>\<open>None\<close> is the panic of \<open>ToolKey::native\<close> on a bad name.\<close>

definition builtin_allow :: "str \<Rightarrow> str \<Rightarrow> permission_rule option" where
  "builtin_allow tool scope =
     map_option (\<lambda>key. \<lparr>pr_tool = key, pr_scope = Some scope, pr_effect = Allow\<rparr>) (native tool)"

definition builtin_rules :: "path_env \<Rightarrow> path \<Rightarrow> permission_rule list option" where
  "builtin_rules env cwd =
     (let cwd_glob = display_path (canonicalize_clean env cwd) @ ''/**''
      in those (map (\<lambda>tool. builtin_allow tool cwd_glob) FILE_WRITE_TOOLS @ [builtin_allow ''task'' ''*'']))"

definition new_manager :: "path_env \<Rightarrow> permissions_config \<Rightarrow> path \<Rightarrow> permission_manager option" where
  "new_manager env config cwd =
     map_option (\<lambda>rules. \<lparr>pm_session_rules = [], pm_config_rules = pc_rules config, pm_builtin_rules = rules,
       pm_yolo = pc_yolo config, pm_default = pc_default config, pm_tool_defaults = pc_tool_defaults config,
       pm_cwd = cwd\<rparr>) (builtin_rules env cwd)"

definition is_yolo :: "permission_manager \<Rightarrow> bool" where "is_yolo pm = pm_yolo pm"

definition fork_manager :: "permission_manager \<Rightarrow> permission_manager" where
  "fork_manager pm = pm\<lparr>pm_session_rules := [], pm_yolo := is_yolo pm\<rparr>"

definition all_rules :: "permission_manager \<Rightarrow> permission_rule list" where
  "all_rules pm = pm_session_rules pm @ pm_config_rules pm @ pm_builtin_rules pm"

text \<open>The loop over the rules for one scope: \<open>None\<close> when a deny matched, otherwise whether an allow did.\<close>

fun scan_rules :: "path_env \<Rightarrow> tool_key \<Rightarrow> str \<Rightarrow> permission_rule list \<Rightarrow> bool \<Rightarrow> bool option" where
  "scan_rules env tool scope [] has_allow = Some has_allow"
| "scan_rules env tool scope (r # rs) has_allow =
     (if \<not> matches_rule (pr_tool r) tool \<or> \<not> rule_matches_scope env r scope
      then scan_rules env tool scope rs has_allow
      else case pr_effect r of Deny \<Rightarrow> None | Allow \<Rightarrow> scan_rules env tool scope rs True)"

fun scan_scopes ::
  "path_env \<Rightarrow> permission_manager \<Rightarrow> tool_key \<Rightarrow> bool \<Rightarrow> str list \<Rightarrow> str list \<Rightarrow> str list option" where
  "scan_scopes env pm tool force_prompt [] unclaimed = Some unclaimed"
| "scan_scopes env pm tool force_prompt (scope # scopes) unclaimed =
     (case scan_rules env tool scope (all_rules pm) False of
        None \<Rightarrow> None
      | Some has_allow \<Rightarrow>
          scan_scopes env pm tool force_prompt scopes
            (if has_allow then unclaimed else if \<not> force_prompt then unclaimed @ [scope] else unclaimed))"

definition is_plan_write :: "path_env \<Rightarrow> tool_key \<Rightarrow> str list \<Rightarrow> str option \<Rightarrow> bool" where
  "is_plan_write env tool pending plan_path =
     (case plan_path of None \<Rightarrow> False
      | Some pp \<Rightarrow>
          (case native_name tool of Some name \<Rightarrow> is_file_write_tool name | None \<Rightarrow> False)
          \<and> list_all (\<lambda>s. normalize_scope_path env s = normalize_scope_path env pp) pending)"

definition tool_effect :: "permission_manager \<Rightarrow> tool_key \<Rightarrow> default_effect" where
  "tool_effect pm tool =
     (case resolve_tool_default (pm_tool_defaults pm) tool of Some eff \<Rightarrow> eff | None \<Rightarrow> pm_default pm)"

definition check_inner ::
  "path_env \<Rightarrow> permission_manager \<Rightarrow> tool_key \<Rightarrow> str list \<Rightarrow> bool \<Rightarrow> str option \<Rightarrow> permission_check" where
  "check_inner env pm tool scopes force_prompt plan_path =
     (case scan_scopes env pm tool force_prompt scopes [] of
        None \<Rightarrow> Denied
      | Some unclaimed_scopes \<Rightarrow>
          if pm_yolo pm then Allowed
          else let pending = (if force_prompt then scopes else unclaimed_scopes) in
            if pending = [] then Allowed
            else if \<not> force_prompt \<and> is_plan_write env tool pending plan_path then Allowed
            else (case tool_effect pm tool of
                    DDeny \<Rightarrow> Denied
                  | DAllow \<Rightarrow> Allowed
                  | DPrompt \<Rightarrow> NeedsPrompt tool pending force_prompt))"

definition check :: "path_env \<Rightarrow> permission_manager \<Rightarrow> tool_key \<Rightarrow> str \<Rightarrow> str option \<Rightarrow> permission_check" where
  "check env pm tool scope plan_path = check_inner env pm tool [scope] False plan_path"

definition check_multi ::
  "path_env \<Rightarrow> permission_manager \<Rightarrow> tool_key \<Rightarrow> str list \<Rightarrow> bool \<Rightarrow> str option \<Rightarrow> permission_check" where
  "check_multi env pm tool scopes force_prompt plan_path = check_inner env pm tool scopes force_prompt plan_path"

definition add_session_rule :: "permission_rule \<Rightarrow> permission_manager \<Rightarrow> permission_manager" where
  "add_session_rule rule pm =
     (if list_ex (\<lambda>r. pr_tool r = pr_tool rule \<and> pr_scope r = pr_scope rule \<and> pr_effect r = pr_effect rule)
           (pm_session_rules pm)
      then pm else pm\<lparr>pm_session_rules := pm_session_rules pm @ [rule]\<rparr>)"

definition toggle_yolo :: "permission_manager \<Rightarrow> bool \<times> permission_manager" where
  "toggle_yolo pm = (\<not> pm_yolo pm, pm\<lparr>pm_yolo := \<not> pm_yolo pm\<rparr>)"

definition set_yolo :: "bool \<Rightarrow> permission_manager \<Rightarrow> permission_manager" where
  "set_yolo yolo pm = pm\<lparr>pm_yolo := yolo\<rparr>"

definition boundary_block_reason :: "path_env \<Rightarrow> permission_manager \<Rightarrow> str \<Rightarrow> str option" where
  "boundary_block_reason env pm p =
     (case physical_boundary_check env (pm_cwd pm) (components p) of
        Some _ \<Rightarrow> None
      | None \<Rightarrow> Some (BOUNDARY_UNVERIFIABLE_PREFIX @ '' '' @ p @ '' (project root could not be resolved)''))"

definition session_rules_snapshot :: "permission_manager \<Rightarrow> permission_rule list" where
  "session_rules_snapshot pm = pm_session_rules pm"

definition load_session_rules :: "permission_rule list \<Rightarrow> permission_manager \<Rightarrow> permission_manager" where
  "load_session_rules rules pm = pm\<lparr>pm_session_rules := rules\<rparr>"

section \<open>Decisions of the user\<close>

datatype permission_target = Global | Project path

text \<open>
  \<open>append_permission_rule\<close> writes a configuration file; its result is only logged. The model
  returns the calls in order.
\<close>

type_synonym persisted = "tool_key \<times> str option \<times> effect \<times> permission_target"

definition add_scope_rules ::
  "tool_key \<Rightarrow> effect \<Rightarrow> str list \<Rightarrow> permission_manager \<Rightarrow> permission_manager" where
  "add_scope_rules tool eff scopes pm =
     fold (\<lambda>s. add_session_rule \<lparr>pr_tool = tool, pr_scope = Some s, pr_effect = eff\<rparr>) scopes pm"

definition apply_decision ::
  "tool_key \<Rightarrow> str list \<Rightarrow> permission_answer \<Rightarrow> permission_manager \<Rightarrow> permission_manager \<times> persisted list" where
  "apply_decision tool scopes answer pm =
     (let resolved = (if is_allow answer \<or> is_mcp tool then generalized_scopes tool scopes else scopes);
          eff = (if is_allow answer then Allow else Deny);
          target = (case answer of
                      AllowAlwaysLocal \<Rightarrow> Project (pm_cwd pm)
                    | DenyAlwaysLocal \<Rightarrow> Project (pm_cwd pm)
                    | _ \<Rightarrow> Global);
          always = (add_scope_rules tool eff resolved pm, map (\<lambda>s. (tool, Some s, eff, target)) resolved)
      in case answer of
           AllowOnce \<Rightarrow> (pm, [])
         | DenyOnce \<Rightarrow> (pm, [])
         | DenyWithGuidance _ \<Rightarrow> (pm, [])
         | AllowSession \<Rightarrow> (add_scope_rules tool Allow resolved pm, [])
         | AllowAlwaysLocal \<Rightarrow> always
         | AllowAlwaysGlobal \<Rightarrow> always
         | DenyAlwaysLocal \<Rightarrow> always
         | DenyAlwaysGlobal \<Rightarrow> always)"

text \<open>What the wait for the user ends with: a message, a closed channel or a cancellation.\<close>

datatype user_response = Answered str | ChannelClosed | WaitCancelled

record permission_request =
  rq_id :: str
  rq_tool :: tool_key
  rq_scopes :: "str list"

record check_context =
  ctx_tool :: tool_key
  ctx_scopes :: permission_scopes
  ctx_has_channel :: bool
  ctx_request_id :: str
  ctx_plan_path :: "str option"

record enforce_result =
  en_result :: "permission_error + unit"
  en_manager :: permission_manager
  en_events :: "permission_request list"
  en_persisted :: "persisted list"

fun join_scopes :: "str list \<Rightarrow> str" where
  "join_scopes [] = []"
| "join_scopes [s] = s"
| "join_scopes (s # t # ss) = s @ ''; '' @ join_scopes (t # ss)"

definition deny_error :: "check_context \<Rightarrow> str option \<Rightarrow> permission_error" where
  "deny_error ctx g =
     (let tool_string = display_tool_key (ctx_tool ctx); scope = join_scopes (ps_scopes (ctx_scopes ctx))
      in case g of Some g' \<Rightarrow> with_guidance tool_string scope g' | None \<Rightarrow> new_error tool_string scope)"

text \<open>
  The manager is shared: other tasks may change it while the call waits for the lock of the response
  channel and for the user. The states it is in at the first check, at the check under the lock and
  at the answer are given.
\<close>

definition enforce ::
  "path_env \<Rightarrow> permission_manager \<Rightarrow> permission_manager \<Rightarrow> permission_manager \<Rightarrow> check_context
   \<Rightarrow> user_response \<Rightarrow> enforce_result" where
  "enforce env pm1 pm2 pm3 ctx response =
     (let err = (\<lambda>pm events g. \<lparr>en_result = Inl (deny_error ctx g), en_manager = pm, en_events = events, en_persisted = []\<rparr>);
          ok = (\<lambda>pm. \<lparr>en_result = Inr (), en_manager = pm, en_events = [], en_persisted = []\<rparr>)
      in case check_inner env pm1 (ctx_tool ctx) (ps_scopes (ctx_scopes ctx)) (ps_force_prompt (ctx_scopes ctx)) (ctx_plan_path ctx) of
           Allowed \<Rightarrow> ok pm1
         | Denied \<Rightarrow> err pm1 [] None
         | NeedsPrompt pt ps force_prompt \<Rightarrow>
             if \<not> ctx_has_channel ctx then err pm1 [] None
             else case check_inner env pm2 pt ps force_prompt (ctx_plan_path ctx) of
                    Allowed \<Rightarrow> ok pm2
                  | Denied \<Rightarrow> err pm2 [] None
                  | NeedsPrompt t2 s2 _ \<Rightarrow>
                      let events = [\<lparr>rq_id = ctx_request_id ctx, rq_tool = t2, rq_scopes = s2\<rparr>]
                      in case response of
                           ChannelClosed \<Rightarrow> err pm3 events None
                         | WaitCancelled \<Rightarrow> err pm3 events None
                         | Answered a \<Rightarrow>
                             (case decode a of
                                None \<Rightarrow> err pm3 events None
                              | Some answer \<Rightarrow>
                                  let (pm', log) = apply_decision t2 s2 answer pm3
                                  in if is_allow answer
                                     then \<lparr>en_result = Inr (), en_manager = pm', en_events = events, en_persisted = log\<rparr>
                                     else \<lparr>en_result = Inl (deny_error ctx (guidance answer)), en_manager = pm',
                                           en_events = events, en_persisted = log\<rparr>))"

end
