(* ===== verification/Permission_Guarantees.thy ===== *)
theory Permission_Guarantees
  imports Permissions
begin

text \<open>
  What the permission manager promises: its decision agrees with a declarative reading of the rules,
  nothing runs without a rule, a default or the user allowing it, an answer for the session is
  remembered, answers survive the wire, and the built-in rules follow symbolic links.
\<close>

section \<open>The decision, declaratively\<close>

definition has_rule :: "path_env \<Rightarrow> permission_manager \<Rightarrow> effect \<Rightarrow> tool_key \<Rightarrow> str \<Rightarrow> bool" where
  "has_rule env pm eff tool scope \<longleftrightarrow>
     (\<exists>r \<in> set (all_rules pm). matches_rule (pr_tool r) tool \<and> rule_matches_scope env r scope \<and> pr_effect r = eff)"

definition pending_scopes :: "path_env \<Rightarrow> permission_manager \<Rightarrow> tool_key \<Rightarrow> str list \<Rightarrow> bool \<Rightarrow> str list" where
  "pending_scopes env pm tool scopes force =
     (if force then scopes else filter (\<lambda>s. \<not> has_rule env pm Allow tool s) scopes)"

definition decision :: "path_env \<Rightarrow> permission_manager \<Rightarrow> tool_key \<Rightarrow> str list \<Rightarrow> bool \<Rightarrow> str option \<Rightarrow> permission_check" where
  "decision env pm tool scopes force plan =
     (let pending = pending_scopes env pm tool scopes force in
      if \<exists>s \<in> set scopes. has_rule env pm Deny tool s then Denied
      else if pm_yolo pm \<or> pending = [] \<or> \<not> force \<and> is_plan_write env tool pending plan then Allowed
      else case tool_effect pm tool of DDeny \<Rightarrow> Denied | DAllow \<Rightarrow> Allowed | DPrompt \<Rightarrow> NeedsPrompt tool pending force)"

lemma scan_rules_eq:
  "scan_rules env tool scope rs b =
     (if \<exists>r \<in> set rs. matches_rule (pr_tool r) tool \<and> rule_matches_scope env r scope \<and> pr_effect r = Deny then None
      else Some (b \<or> (\<exists>r \<in> set rs. matches_rule (pr_tool r) tool \<and> rule_matches_scope env r scope \<and> pr_effect r = Allow)))"
  by (induction rs arbitrary: b) (auto split: effect.splits)

lemma scan_all_rules:
  "scan_rules env tool scope (all_rules pm) False =
     (if has_rule env pm Deny tool scope then None else Some (has_rule env pm Allow tool scope))"
  by (auto simp: scan_rules_eq has_rule_def)

lemma scan_scopes_eq:
  "scan_scopes env pm tool force scopes u =
     (if \<exists>s \<in> set scopes. has_rule env pm Deny tool s then None
      else Some (u @ (if force then [] else filter (\<lambda>s. \<not> has_rule env pm Allow tool s) scopes)))"
  by (induction scopes arbitrary: u) (auto simp: scan_all_rules)

lemma check_inner_eq: "check_inner env pm tool scopes force plan = decision env pm tool scopes force plan"
  by (auto simp: check_inner_def decision_def scan_scopes_eq pending_scopes_def Let_def)

lemma check_inner_prompt:
  assumes "check_inner env pm tool scopes force plan = NeedsPrompt t ps f"
  shows "t = tool" "f = force" "ps = pending_scopes env pm tool scopes force"
    "\<not> (\<exists>s \<in> set scopes. has_rule env pm Deny tool s)"
  using assms by (auto simp: check_inner_eq decision_def Let_def split: if_splits default_effect.splits)

lemma check_inner_not_denied:
  "check_inner env pm tool scopes force plan \<noteq> Denied \<Longrightarrow> s \<in> set scopes \<Longrightarrow> \<not> has_rule env pm Deny tool s"
  by (auto simp: check_inner_eq decision_def Let_def split: if_splits)


section \<open>Enforcement\<close>

text \<open>C16. No tool call passes enforcement without permission, whatever other tasks do to the rules while it
waits: when it passes, no rule denied a requested scope at the first check, and either that check allowed
the call; or it asked for a prompt and the rules that were there when its turn came allowed it without a
denial; or the user was asked under the request's id, the question named every requested scope that
neither check found a rule for, and the answer that came back decodes to one of the allowing answers.\<close>

theorem enforce_sound:
  assumes "enforce env pm1 pm2 pm3 \<lparr>ctx_tool = tool, ctx_scopes = \<lparr>ps_scopes = scopes, ps_force_prompt = force\<rparr>,
      ctx_has_channel = ch, ctx_request_id = rid, ctx_plan_path = plan\<rparr> response = e"
    and "en_result e = Inr ()"
  shows "(\<forall>s \<in> set scopes. \<not> has_rule env pm1 Deny tool s) \<and>
    (check_inner env pm1 tool scopes force plan = Allowed \<or>
     (\<exists>ps. check_inner env pm1 tool scopes force plan = NeedsPrompt tool ps force \<and>
       (\<forall>s \<in> set ps. \<not> has_rule env pm2 Deny tool s) \<and>
       (check_inner env pm2 tool ps force plan = Allowed \<or>
        (\<exists>asked msg answer.
          en_events e = [\<lparr>rq_id = rid, rq_tool = tool, rq_scopes = asked\<rparr>] \<and>
          (\<forall>s \<in> set scopes. s \<in> set asked \<or> has_rule env pm1 Allow tool s \<or> has_rule env pm2 Allow tool s) \<and>
          response = Answered msg \<and> decode msg = Some answer \<and> is_allow answer))))"
proof (cases "check_inner env pm1 tool scopes force plan")
  case Allowed
  then show ?thesis using check_inner_not_denied [of env pm1 tool scopes force plan] by auto
next
  case Denied
  then show ?thesis using assms by (auto simp: enforce_def Let_def)
next
  case (NeedsPrompt t ps f)
  note p1 = check_inner_prompt [OF NeedsPrompt]
  have c1: "check_inner env pm1 tool scopes force plan = NeedsPrompt tool ps force" using NeedsPrompt p1 by simp
  show ?thesis
  proof (cases "check_inner env pm2 tool ps force plan")
    case Allowed
    then show ?thesis using c1 p1 check_inner_not_denied [of env pm2 tool ps force plan] by auto
  next
    case Denied
    then show ?thesis using assms by (auto simp: enforce_def Let_def c1 split: if_splits)
  next
    case second: (NeedsPrompt t' asked f')
    note p2 = check_inner_prompt [OF second]
    have covered: "\<forall>s \<in> set scopes. s \<in> set asked \<or> has_rule env pm1 Allow tool s \<or> has_rule env pm2 Allow tool s"
      using p1(3) p2(3) by (auto simp: pending_scopes_def)
    have c2: "check_inner env pm2 tool ps force plan = NeedsPrompt tool asked force" using second p2 by simp
    have "en_events e = [\<lparr>rq_id = rid, rq_tool = tool, rq_scopes = asked\<rparr>] \<and>
        (\<exists>msg answer. response = Answered msg \<and> decode msg = Some answer \<and> is_allow answer)"
      using assms by (auto simp: enforce_def Let_def c1 c2 split: if_splits user_response.splits option.splits prod.splits)
    with c1 p1(4) p2(4) covered show ?thesis by auto
  qed
qed

text \<open>A manager without rules that prompts, for examples.\<close>

definition example_manager :: permission_manager where
  "example_manager = \<lparr>pm_session_rules = [], pm_config_rules = [], pm_builtin_rules = [], pm_yolo = False,
     pm_default = DPrompt, pm_tool_defaults = [], pm_cwd = [RootDir, Normal ''p'']\<rparr>"

lemma example_prompts:
  "scopes \<noteq> [] \<Longrightarrow> check_inner env example_manager tool scopes force None = NeedsPrompt tool scopes force"
  by (simp add: check_inner_eq decision_def pending_scopes_def has_rule_def all_rules_def example_manager_def
      is_plan_write_def tool_effect_def resolve_tool_default_def or_else_def alias_entries_def List.map_filter_def
      split: tool_key.splits)

theorem enforce_sound_witness:
  "\<exists>e. enforce example_env example_manager example_manager example_manager
      \<lparr>ctx_tool = Native ''run_shell'', ctx_scopes = \<lparr>ps_scopes = [''ls''], ps_force_prompt = False\<rparr>,
       ctx_has_channel = True, ctx_request_id = ''1'', ctx_plan_path = None\<rparr> (Answered ''allow'') = e
    \<and> en_result e = Inr () \<and> en_events e = [\<lparr>rq_id = ''1'', rq_tool = Native ''run_shell'', rq_scopes = [''ls'']\<rparr>]"
proof -
  let ?e = "enforce example_env example_manager example_manager example_manager
      \<lparr>ctx_tool = Native ''run_shell'', ctx_scopes = \<lparr>ps_scopes = [''ls''], ps_force_prompt = False\<rparr>,
       ctx_has_channel = True, ctx_request_id = ''1'', ctx_plan_path = None\<rparr> (Answered ''allow'')"
  have r: "en_result ?e = Inr ()"
    by (simp add: enforce_def example_prompts decode_def apply_decision_def Let_def)
  have "en_events ?e = [\<lparr>rq_id = ''1'', rq_tool = Native ''run_shell'', rq_scopes = [''ls'']\<rparr>]"
    using enforce_sound [OF refl r]
    by (auto simp: example_prompts enforce_def decode_def apply_decision_def Let_def)
  with r show ?thesis by blast
qed

section \<open>Answers that are remembered\<close>

lemma keep_first_set: "set (keep_first seen xs) = set xs - seen"
  by (induction xs arbitrary: seen) auto

lemma generalized_scopes_set [simp]: "set (generalized_scopes tool scopes) = generalize_scope tool ` set scopes"
  by (simp add: generalized_scopes_def keep_first_set)

lemma rule_eqI:
  fixes r r' :: permission_rule
  shows "pr_tool r = pr_tool r' \<Longrightarrow> pr_scope r = pr_scope r' \<Longrightarrow> pr_effect r = pr_effect r' \<Longrightarrow> r = r'"
  by simp

lemma add_session_rule_rules [simp]:
  "set (pm_session_rules (add_session_rule r pm)) = insert r (set (pm_session_rules pm))"
  by (auto simp: add_session_rule_def list_ex_iff dest: rule_eqI)

lemma add_session_rule_rest [simp]:
  "pm_config_rules (add_session_rule r pm) = pm_config_rules pm"
  "pm_builtin_rules (add_session_rule r pm) = pm_builtin_rules pm"
  "pm_yolo (add_session_rule r pm) = pm_yolo pm"
  by (auto simp: add_session_rule_def)

lemma add_scope_rules_rules:
  "set (pm_session_rules (add_scope_rules tool eff scopes pm)) =
     (\<lambda>s. \<lparr>pr_tool = tool, pr_scope = Some s, pr_effect = eff\<rparr>) ` set scopes \<union> set (pm_session_rules pm)"
  "pm_config_rules (add_scope_rules tool eff scopes pm) = pm_config_rules pm"
  "pm_builtin_rules (add_scope_rules tool eff scopes pm) = pm_builtin_rules pm"
  by (induction scopes arbitrary: pm) (simp_all add: add_scope_rules_def)

lemma has_rule_add:
  "has_rule env (add_scope_rules tool eff scopes pm) eff' t s \<longleftrightarrow>
     has_rule env pm eff' t s
     \<or> eff' = eff \<and> matches_rule tool t \<and> (\<exists>p \<in> set scopes. scope_matches env p s)"
  unfolding has_rule_def all_rules_def set_append add_scope_rules_rules bex_Un bex_simps
  by (auto simp: rule_matches_scope_def)

lemma matches_rule_refl [simp]: "matches_rule t t"
  by (cases t) auto

lemma scope_star [simp]: "scope_matches env ''*'' s"
  by (simp add: scope_matches_def)

text \<open>A command word: bytes of which none is white space or starts a longer white space character.\<close>

definition command_word :: "str \<Rightarrow> bool" where
  "command_word w \<longleftrightarrow> w \<noteq> [] \<and> list_all (\<lambda>c. \<not> ascii_ws c \<and> byte c \<notin> {194, 225, 226, 227}) w"

definition word_boundary :: "str \<Rightarrow> bool" where
  "word_boundary r \<longleftrightarrow> r = [] \<or> hd r = CHR '' ''"

lemma ws_len_word: "\<not> ascii_ws c \<Longrightarrow> byte c \<notin> {194, 225, 226, 227} \<Longrightarrow> ws_len (c # s) = 0"
  by (cases s rule: list.exhaust [case_product]; cases "tl s") (auto simp: ws2_def ws3_def)

lemma take_word_command: "command_word w \<Longrightarrow> word_boundary r \<Longrightarrow> take_word (w @ r) = w"
proof -
  have space: "take_word r = []" if "word_boundary r"
  proof (cases r)
    case (Cons c s)
    with that have "c = CHR '' ''" by (simp add: word_boundary_def)
    then have "ws_len (c # s) = 1" by (cases s; cases "tl s") (auto simp: ascii_ws_def byte_def)
    with Cons show ?thesis by simp
  qed simp
  have "list_all (\<lambda>c. \<not> ascii_ws c \<and> byte c \<notin> {194, 225, 226, 227}) w \<Longrightarrow> word_boundary r \<Longrightarrow> take_word (w @ r) = w"
    by (induction w) (auto simp: space ws_len_word)
  then show "command_word w \<Longrightarrow> word_boundary r \<Longrightarrow> take_word (w @ r) = w" by (simp add: command_word_def)
qed

lemma first_token_command: "command_word w \<Longrightarrow> word_boundary r \<Longrightarrow> first_token (w @ r) = Some w"
proof -
  assume w: "command_word w" and r: "word_boundary r"
  then obtain c v where c: "w = c # v" "ws_len (c # (v @ r)) = 0"
    using ws_len_word by (cases w) (auto simp: command_word_def)
  then have "skip_ws (w @ r) = w @ r" by (subst skip_ws.simps) simp
  moreover have "w @ r \<noteq> []" using c by simp
  ultimately show ?thesis using w r by (simp only: first_token_def take_word_command if_False)
qed

lemma command_pattern_matches:
  assumes w: "command_word w" and r: "word_boundary r"
  shows "scope_matches env (w @ '' *'') (w @ r)"
proof -
  have "strip_suffix (w @ '' *'') ''/**'' = None"
    by (auto simp: strip_suffix_def drop_append)
  moreover have "w @ '' *'' \<noteq> ''*''" "w @ '' *'' \<noteq> ''**''" by (auto simp: append_eq_Cons_conv)
  moreover have "w @ r = w \<or> starts_with (w @ r) (w @ '' '')"
    using r by (cases r) (auto simp: word_boundary_def starts_with_def)
  ultimately show ?thesis by (simp add: scope_matches_def)
qed

lemma shell_generalizes:
  "canonical_tool_name name = BASH_TOOL_NAME \<Longrightarrow> command_word w \<Longrightarrow> word_boundary r \<Longrightarrow>
   generalize_scope (Native name) (w @ r) = w @ '' *''"
  by (simp add: generalize_bash_segment_def first_token_command)

lemma mcp_generalizes: "is_mcp tool \<Longrightarrow> generalize_scope tool s = ''*''"
  by (cases tool) auto

definition same_command :: "str \<Rightarrow> str \<Rightarrow> bool" where
  "same_command s s' \<longleftrightarrow>
     (\<exists>w r r'. command_word w \<and> word_boundary r \<and> word_boundary r' \<and> s = w @ r \<and> s' = w @ r')"

lemma grant_covers:
  assumes "is_mcp tool \<or> (\<exists>name. tool = Native name \<and> canonical_tool_name name = BASH_TOOL_NAME \<and> same_command s s')"
  shows "scope_matches env (generalize_scope tool s) s'"
  using assms by (auto simp: mcp_generalizes same_command_def shell_generalizes command_pattern_matches simp del: generalize_scope.simps)

text \<open>A grant for the session is remembered: after the user allowed some calls of an MCP tool for the
session, any call of that tool is allowed; after some shell commands, any command with the same first
word, alone or followed by a space and arguments; without another prompt, unless a rule denies it.\<close>

lemma session_grant_remembered:
  assumes "\<forall>s' \<in> set scopes'. \<not> has_rule env pm Deny tool s'"
    and "\<forall>s' \<in> set scopes'. \<exists>s \<in> set scopes. is_mcp tool
      \<or> (\<exists>name. tool = Native name \<and> canonical_tool_name name = BASH_TOOL_NAME \<and> same_command s s')"
  shows "check_inner env (fst (apply_decision tool scopes AllowSession pm)) tool scopes' False plan = Allowed"
proof -
  have g: "\<forall>s' \<in> set scopes'. has_rule env (add_scope_rules tool Allow (generalized_scopes tool scopes) pm) Allow tool s'"
    using assms(2) grant_covers by (fastforce simp: has_rule_add)
  have d: "\<forall>s' \<in> set scopes'. \<not> has_rule env (add_scope_rules tool Allow (generalized_scopes tool scopes) pm) Deny tool s'"
    using assms(1) by (simp add: has_rule_add)
  show ?thesis using g d
    by (simp add: apply_decision_def Let_def check_inner_eq decision_def pending_scopes_def)
qed

lemma session_grant_remembered_example:
  "check_inner example_env (fst (apply_decision (Native ''run_shell'') [''git status''] AllowSession example_manager))
     (Native ''run_shell'') [''git push'', ''git''] False None = Allowed"
proof (rule session_grant_remembered)
  show "\<forall>s' \<in> set [''git push'', ''git'']. \<not> has_rule example_env example_manager Deny (Native ''run_shell'') s'"
    by (simp add: has_rule_def all_rules_def example_manager_def)
  have w: "command_word ''git''" by (simp add: command_word_def ascii_ws_def byte_def)
  have "same_command ''git status'' ''git push''" "same_command ''git status'' ''git''"
    unfolding same_command_def
    by (rule exI [of _ "''git''"], rule exI [of _ "'' status''"], rule exI [of _ "'' push''"], simp add: w word_boundary_def)
       (rule exI [of _ "''git''"], rule exI [of _ "'' status''"], rule exI [of _ "[]"], simp add: w word_boundary_def)
  then show "\<forall>s' \<in> set [''git push'', ''git'']. \<exists>s \<in> set [''git status'']. is_mcp (Native ''run_shell'')
      \<or> (\<exists>name. Native ''run_shell'' = Native name \<and> canonical_tool_name name = BASH_TOOL_NAME \<and> same_command s s')"
    by (simp add: canonical_tool_name_def TOOL_ALIASES_def BASH_TOOL_NAME_def)
qed

section \<open>The wire\<close>

text \<open>An answer survives the channel between the prompt and the agent: what the prompt encodes decodes
to the same answer, except that a denial with empty guidance arrives as a plain denial, and no other
text than an encoded answer decodes at all.\<close>

lemma answer_round_trip:
  "decode (encode a) = Some (if a = DenyWithGuidance [] then DenyOnce else a)
   \<and> (decode s = None \<longleftrightarrow> s \<notin> range encode)"
proof -
  have e: "decode (encode a) = Some (if a = DenyWithGuidance [] then DenyOnce else a)" for a
    by (cases a) (simp_all add: decode_def starts_with_def strip_prefix_def)
  have "decode s = None" if s: "s \<notin> range encode"
  proof -
    have ne: "s \<noteq> encode b" for b using s by blast
    have "\<not> starts_with s ''deny:''" using ne [of "DenyWithGuidance g" for g] unfolding starts_with_iff encode.simps by blast
    then show ?thesis
      unfolding decode_def
      using ne [of AllowOnce] ne [of AllowSession] ne [of AllowAlwaysLocal] ne [of AllowAlwaysGlobal]
        ne [of DenyOnce] ne [of DenyAlwaysLocal] ne [of DenyAlwaysGlobal]
      unfolding encode.simps by (simp only: if_False)
  qed
  with e show ?thesis by auto
qed

section \<open>The project directory\<close>

lemma builtin_rules_eq:
  "builtin_rules env cwd = Some
     (map (\<lambda>t. \<lparr>pr_tool = Native t, pr_scope = Some (display_path (canonicalize_clean env cwd) @ ''/**''), pr_effect = Allow\<rparr>)
        FILE_WRITE_TOOLS
      @ [\<lparr>pr_tool = Native ''run_task'', pr_scope = Some ''*'', pr_effect = Allow\<rparr>])"
  by (simp add: builtin_rules_def FILE_WRITE_TOOLS_def builtin_allow_def native_def canonical_tool_name_def TOOL_ALIASES_def Let_def)

text \<open>Where an absolute path is: the physical location of its existing part, and the missing names after it.\<close>

definition located :: "path_env \<Rightarrow> str \<Rightarrow> path \<Rightarrow> bool" where
  "located env s loc \<longleftrightarrow> (\<exists>cs q ns. components s = (RootDir # cs) @ map Normal ns
     \<and> pe_realpath env (RootDir # cs) = Some q \<and> loc = q @ map Normal ns
     \<and> (ns \<noteq> [] \<longrightarrow> pe_realpath env (q @ [Normal (hd ns)]) = None))"

lemma norm_scope_located:
  assumes laws: "realpath_physical env" "realpath_stepwise env" and s: "has_root s" "located env s loc"
  shows "norm_scope env s = loc"
proof -
  obtain cs q ns where l: "components s = (RootDir # cs) @ map Normal ns" "pe_realpath env (RootDir # cs) = Some q"
    "loc = q @ map Normal ns" "ns \<noteq> [] \<longrightarrow> pe_realpath env (q @ [Normal (hd ns)]) = None"
    using s(2) unfolding located_def by blast
  obtain ds where "components s = RootDir # ds" "list_all (\<lambda>c. c \<noteq> RootDir \<and> c \<noteq> CurDir) ds"
    using s(1) by (rule components_body_shape)
  with l(1) have cs: "list_all (\<lambda>c. c \<noteq> RootDir \<and> c \<noteq> CurDir) cs" by simp
  have "incremental_canonicalize env (components s) = Some loc"
    using incremental_canonicalize_physical [OF laws cs l(2,4)] l(1,3) by simp
  moreover have "absolute env (components s) = Some (components s)"
    using components_absolute [OF s(1)] l(1) by (simp add: absolute_def)
  ultimately show ?thesis by (simp add: norm_scope_def Let_def)
qed

lemma located_root:
  assumes "realpath_physical env" "pe_realpath env cwd = Some root"
  shows "has_root (display_path root)" "located env (display_path root) root"
proof -
  have p: "physical root" "pe_realpath env root = Some root"
    using assms unfolding realpath_physical_def by blast+
  show "has_root (display_path root)" using p(1) by (rule has_root_display)
  obtain cs where "root = RootDir # cs" using p(1) by (rule physicalE)
  with p show "located env (display_path root) root"
    unfolding located_def components_display [OF p(1)] by (intro exI [of _ cs] exI [of _ root] exI [of _ "[]"]) simp
qed

lemma project_glob_matches:
  assumes laws: "realpath_physical env" "realpath_stepwise env" and cwd: "pe_realpath env cwd = Some root"
    and s: "has_root s" "located env s loc"
  shows "scope_matches env (display_path root @ ''/**'') s \<longleftrightarrow> prefix root loc"
proof -
  have "norm_scope env (display_path root) = root"
    by (rule norm_scope_located [OF laws located_root [OF laws(1) cwd]])
  moreover have "norm_scope env s = loc" by (rule norm_scope_located [OF laws s])
  moreover have "display_path root @ ''/**'' \<noteq> ''*''" "display_path root @ ''/**'' \<noteq> ''**''"
    by (auto simp: append_eq_Cons_conv)
  ultimately have "scope_matches env (display_path root @ ''/**'') s \<longleftrightarrow> loc = root \<or> prefix root loc"
    by (simp only: scope_matches_def strip_suffix_append if_False option.case simp_thms)
  then show ?thesis by auto
qed

lemma file_write_canonical_all:
  "\<forall>t \<in> set FILE_WRITE_TOOLS. canonical_tool_name t = t \<and> canonical_tool_name t \<noteq> ''run_task''"
  by (simp add: FILE_WRITE_TOOLS_def canonical_tool_name_def TOOL_ALIASES_def)

lemmas file_write_canonical = bspec [OF file_write_canonical_all]

text \<open>C18. With the default configuration a file may be written without asking exactly when it physically
lies in the project: for a tool that writes files and an absolute path whose existing part resolves to a
location, symbolic links and parent components included, the call is allowed if the location is under
the resolved project directory, and the user is asked otherwise.\<close>

theorem project_writes_physical:
  assumes laws: "realpath_physical env" "realpath_stepwise env"
    and cwd: "pe_realpath env cwd = Some root"
    and s: "has_root s" "located env s loc"
    and tool: "t \<in> set FILE_WRITE_TOOLS"
    and pm: "new_manager env \<lparr>pc_default = DPrompt, pc_tool_defaults = [], pc_rules = [], pc_yolo = False\<rparr> cwd = Some pm"
  shows "check env pm (Native t) s None = (if prefix root loc then Allowed else NeedsPrompt (Native t) [s] False)"
proof -
  have "canonicalize_clean env cwd = root" using cwd by (simp add: canonicalize_clean_def)
  then have pm': "pm_session_rules pm = []" "pm_config_rules pm = []" "\<not> pm_yolo pm" "pm_default pm = DPrompt" "pm_tool_defaults pm = []"
    "pm_builtin_rules pm = map (\<lambda>t. \<lparr>pr_tool = Native t, pr_scope = Some (display_path root @ ''/**''), pr_effect = Allow\<rparr>) FILE_WRITE_TOOLS
        @ [\<lparr>pr_tool = Native ''run_task'', pr_scope = Some ''*'', pr_effect = Allow\<rparr>]"
    using pm by (auto simp: new_manager_def builtin_rules_eq)
  have c: "canonical_tool_name ''run_task'' = ''run_task''" by (simp add: canonical_tool_name_def TOOL_ALIASES_def)
  have "has_rule env pm Allow (Native t) s \<longleftrightarrow> prefix root loc"
    using tool file_write_canonical [OF tool] project_glob_matches [OF laws cwd s] c
    unfolding has_rule_def all_rules_def pm' by (simp add: rule_matches_scope_def bex_Un) blast
  moreover have "\<not> has_rule env pm Deny (Native t) s"
    unfolding has_rule_def all_rules_def pm' by (simp add: bex_Un)
  moreover have "tool_effect pm (Native t) = DPrompt"
    by (simp add: tool_effect_def pm' resolve_tool_default_def or_else_def alias_entries_def List.map_filter_def Let_def)
  ultimately show ?thesis
    by (simp add: check_def check_inner_eq decision_def pending_scopes_def pm' is_plan_write_def)
qed

theorem project_writes_physical_witness:
  "\<exists>pm. new_manager example_env \<lparr>pc_default = DPrompt, pc_tool_defaults = [], pc_rules = [], pc_yolo = False\<rparr>
        [RootDir, Normal ''p''] = Some pm
     \<and> check example_env pm (Native ''write_file'') ''/p/link/new'' None
        = NeedsPrompt (Native ''write_file'') [''/p/link/new''] False
     \<and> check example_env pm (Native ''write_file'') ''/p/link/../p/new'' None = Allowed"
proof -
  let ?root = "[RootDir, Normal ''p'']"
  obtain pm where pm: "new_manager example_env \<lparr>pc_default = DPrompt, pc_tool_defaults = [], pc_rules = [], pc_yolo = False\<rparr> ?root = Some pm"
    by (simp add: new_manager_def builtin_rules_eq)
  have root: "pe_realpath example_env ?root = Some ?root"
    by (simp add: example_env_def example_realpath_def real_name_def SEP_def)
  have t: "''write_file'' \<in> set FILE_WRITE_TOOLS" by (simp add: FILE_WRITE_TOOLS_def)
  have l1: "has_root ''/p/link/new''" "located example_env ''/p/link/new'' [RootDir, Normal ''etc'', Normal ''new'']"
    unfolding located_def
    by (simp add: has_root_def SEP_def)
       (rule exI [of _ "[Normal ''p'', Normal ''link'']"], rule exI [of _ "[RootDir, Normal ''etc'']"], rule exI [of _ "[''new'']"],
        simp add: components_def has_root_def SEP_def body_component_def example_env_def example_realpath_def real_name_def)
  have l2: "has_root ''/p/link/../p/new''" "located example_env ''/p/link/../p/new'' [RootDir, Normal ''p'', Normal ''new'']"
    unfolding located_def
    by (simp add: has_root_def SEP_def)
       (rule exI [of _ "[Normal ''p'', Normal ''link'', ParentDir, Normal ''p'']"], rule exI [of _ ?root], rule exI [of _ "[''new'']"],
        simp add: components_def has_root_def SEP_def body_component_def example_env_def example_realpath_def real_name_def pop_normal_def)
  show ?thesis
    using pm project_writes_physical [OF example_laws root l1 t pm] project_writes_physical [OF example_laws root l2 t pm]
    by auto
qed

section \<open>Defaults of tools\<close>

lemma native_name_Some: "native_name k = Some n \<longleftrightarrow> k = Native n"
  by (cases k) auto

lemma find_native: "map_option snd (find (\<lambda>(k, e). native_name k = Some c) d) = map_of d (Native c)"
  by (induction d) (auto simp: native_name_Some)

lemma min_by_name_least:
  "min_by_name xs = Some m \<Longrightarrow> m \<in> set xs \<and> (\<forall>x \<in> set xs. fst m \<le> fst x)"
proof -
  have "fold (\<lambda>y m. if fst y < fst m then y else m) xs m0 \<in> insert m0 (set xs) \<and>
      (\<forall>x \<in> insert m0 (set xs). fst (fold (\<lambda>y m. if fst y < fst m then y else m) xs m0) \<le> fst x)" for m0 :: "str \<times> 'a" and xs
    by (induction xs arbitrary: m0) (auto, (meson dual_order.trans less_imp_le not_less)+)
  then show "min_by_name xs = Some m \<Longrightarrow> m \<in> set xs \<and> (\<forall>x \<in> set xs. fst m \<le> fst x)"
    by (cases xs) auto
qed

lemma alias_entries_set:
  "(n, e) \<in> set (alias_entries c d) \<longleftrightarrow> (Native n, e) \<in> set d \<and> canonical_tool_name n = c"
  by (force simp: alias_entries_def List.map_filter_def native_name_Some split: option.splits if_splits)

text \<open>The order in which the hash map of the defaults is iterated does not matter.\<close>

lemma tool_default_order:
  assumes d: "distinct (map fst d)" "distinct (map fst d')" "set d = set d'"
  shows "resolve_tool_default d tool = resolve_tool_default d' tool"
proof -
  have m: "map_of d = map_of d'" using d map_of_inject_set by blast
  have a: "min_by_name (alias_entries c d) = min_by_name (alias_entries c d')" for c
  proof (cases "min_by_name (alias_entries c d)")
    case None
    then have "alias_entries c d = []" by (cases "alias_entries c d") auto
    then have "alias_entries c d' = []" using alias_entries_set d(3) by (metis equals0I list.set_intros(1) prod.exhaust list.exhaust empty_iff empty_set)
    with None \<open>alias_entries c d = []\<close> show ?thesis by simp
  next
    case (Some x)
    then have x: "x \<in> set (alias_entries c d')" using min_by_name_least [OF Some] alias_entries_set d(3) by (metis prod.exhaust)
    then obtain y where y: "min_by_name (alias_entries c d') = Some y" by (cases "alias_entries c d'") auto
    have "fst x = fst y"
      using min_by_name_least [OF Some] min_by_name_least [OF y] alias_entries_set d(3) x by (metis order_antisym prod.exhaust)
    moreover have "(Native (fst x), snd x) \<in> set d" "(Native (fst y), snd y) \<in> set d"
      using min_by_name_least [OF Some] min_by_name_least [OF y] alias_entries_set d(3) by (metis prod.collapse)+
    ultimately have "x = y" using d(1) by (metis eq_key_imp_eq_value prod_eqI)
    with Some y show ?thesis by simp
  qed
  show ?thesis by (cases tool) (simp_all add: resolve_tool_default_def find_native m a Let_def)
qed

section \<open>The plan file\<close>

text \<open>
  The exception for the plan file compares paths after lexical normalization, which takes a parent
  component to undo the name before it. Where that name is a symbolic link the write goes elsewhere: the
  path below is taken for the plan file in the project and allowed without a prompt, although it lies in
  the root directory.
\<close>

lemma plan_write_is_lexical:
  "check example_env example_manager (Native ''write_file'') ''/p/link/../plan'' (Some ''/p/plan'') = Allowed"
  "norm_scope example_env ''/p/link/../plan'' = [RootDir, Normal ''plan'']"
proof -
  note eval = normalize_scope_path_def resolve_path_def strip_prefix_def starts_with_def components_def has_root_def SEP_def
    body_component_def is_absolute_def normalize_path_def absolute_def normalize_abs_path_def pop_normal_def
  have n: "normalize_scope_path example_env ''/p/link/../plan'' = normalize_scope_path example_env ''/p/plan''"
    by (simp add: eval)
  have t: "is_file_write_tool ''write_file''"
    by (simp add: is_file_write_tool_def FILE_WRITE_TOOLS_def canonical_tool_name_def TOOL_ALIASES_def)
  show "check example_env example_manager (Native ''write_file'') ''/p/link/../plan'' (Some ''/p/plan'') = Allowed"
    by (simp add: check_def check_inner_eq decision_def pending_scopes_def has_rule_def all_rules_def example_manager_def
        is_plan_write_def n t)
  have l: "located example_env ''/p/link/../plan'' [RootDir, Normal ''plan'']"
    unfolding located_def
    by (rule exI [of _ "[Normal ''p'', Normal ''link'', ParentDir, Normal ''plan'']"], rule exI [of _ "[RootDir, Normal ''plan'']"], rule exI [of _ "[]"])
       (simp add: eval example_env_def example_realpath_def real_name_def)
  show "norm_scope example_env ''/p/link/../plan'' = [RootDir, Normal ''plan'']"
    by (rule norm_scope_located [OF example_laws _ l]) (simp add: has_root_def SEP_def)
qed

end
