(* ===== verification/Permission_Session.thy ===== *)
theory Permission_Session
  imports Permission_Guarantees
begin

text \<open>
  A permission manager over the life of a program: the operations that change it, in any order and by
  any number of tasks, and what every manager they lead to keeps of the configuration.
\<close>

section \<open>Operations of a manager\<close>

inductive manager_step :: "permission_manager \<Rightarrow> permission_manager \<Rightarrow> bool" where
  step_add_session_rule: "manager_step pm (add_session_rule rule pm)"
| step_toggle_yolo: "manager_step pm (snd (toggle_yolo pm))"
| step_set_yolo: "manager_step pm (set_yolo yolo pm)"
| step_load_session_rules: "manager_step pm (load_session_rules rules pm)"
| step_apply_decision: "manager_step pm (fst (apply_decision tool scopes answer pm))"
| step_fork: "manager_step pm (fork_manager pm)"

inductive_cases manager_stepE: "manager_step pm pm'"

text \<open>What the configuration fixed: its rules, those of the program, the defaults and the directory.\<close>

definition configured :: "path_env \<Rightarrow> permissions_config \<Rightarrow> path \<Rightarrow> permission_manager \<Rightarrow> bool" where
  "configured env config cwd pm \<longleftrightarrow>
     pm_config_rules pm = pc_rules config \<and> builtin_rules env cwd = Some (pm_builtin_rules pm)
     \<and> pm_default pm = pc_default config \<and> pm_tool_defaults pm = pc_tool_defaults config \<and> pm_cwd pm = cwd"

lemma configured_add: "configured env config cwd (add_session_rule rule pm) = configured env config cwd pm"
  by (simp add: configured_def add_session_rule_def)

lemma configured_add_scopes: "configured env config cwd (add_scope_rules tool eff scopes pm) = configured env config cwd pm"
  by (induction scopes arbitrary: pm) (simp_all add: add_scope_rules_def configured_add)

lemma apply_decision_manager:
  "fst (apply_decision tool scopes answer pm) = pm
   \<or> (\<exists>resolved eff. fst (apply_decision tool scopes answer pm) = add_scope_rules tool eff resolved pm)"
  by (cases answer) (auto simp: apply_decision_def Let_def)

lemma configured_apply:
  "configured env config cwd (fst (apply_decision tool scopes answer pm)) = configured env config cwd pm"
  using apply_decision_manager [of tool scopes answer pm] by (auto simp: configured_add_scopes)

lemma configured_step: "manager_step pm pm' \<Longrightarrow> configured env config cwd pm \<Longrightarrow> configured env config cwd pm'"
  by (erule manager_stepE)
     (simp_all add: configured_add configured_apply, simp_all add: configured_def toggle_yolo_def set_yolo_def
      load_session_rules_def fork_manager_def)

interpretation manager: invariant_system
  "\<lambda>pm. new_manager env config cwd = Some pm" manager_step "configured env config cwd" for env config cwd
  by unfold_locales (auto simp: new_manager_def configured_def dest: configured_step)

text \<open>Enforcement leaves the manager as it found it or applies the user's decision.\<close>

lemma enforce_steps:
  "en_manager (enforce env pm1 pm2 pm3 ctx response) \<in> {pm1, pm2, pm3}
   \<or> manager_step pm3 (en_manager (enforce env pm1 pm2 pm3 ctx response))"
proof -
  have "manager_step pm3 pm'" if "apply_decision tool scopes answer pm3 = (pm', log)" for tool scopes answer pm' log
    using step_apply_decision [of pm3 tool scopes answer] that by simp
  then show ?thesis
    by (auto simp: enforce_def Let_def split: permission_check.splits user_response.splits option.splits prod.splits)
qed

section \<open>Guarantees\<close>

text \<open>C17. What the configuration denies stays denied: after any grants, answers, restored sessions, forks and
switches of the yolo mode, a call with a scope that a denying rule of the configuration matches is
denied, and its enforcement fails without asking the user and without changing anything, whatever the
response channel delivers.\<close>

theorem configured_denials_hold:
  assumes "new_manager env config cwd = Some pm0" and "manager_step\<^sup>*\<^sup>* pm0 pm"
    and "rule \<in> set (pc_rules config)" and "pr_effect rule = Deny" and "matches_rule (pr_tool rule) (ctx_tool ctx)"
    and "scope \<in> set (ps_scopes (ctx_scopes ctx))" and "rule_matches_scope env rule scope"
  shows "check_inner env pm (ctx_tool ctx) (ps_scopes (ctx_scopes ctx)) force plan = Denied
    \<and> enforce env pm pm2 pm3 ctx response = \<lparr>en_result = Inl (deny_error ctx None), en_manager = pm, en_events = [], en_persisted = []\<rparr>"
proof -
  have "configured env config cwd pm" using assms(1,2) by (rule manager.inv_reachable)
  then have "has_rule env pm Deny (ctx_tool ctx) scope"
    using assms by (auto simp: has_rule_def all_rules_def configured_def)
  then have d: "check_inner env pm (ctx_tool ctx) (ps_scopes (ctx_scopes ctx)) force plan = Denied" for force plan
    using assms(6) by (auto simp: check_inner_eq decision_def Let_def)
  then show ?thesis by (simp add: enforce_def Let_def)
qed

theorem configured_denials_hold_witness:
  "\<exists>pm0 pm. new_manager example_env \<lparr>pc_default = DAllow, pc_tool_defaults = [],
        pc_rules = [\<lparr>pr_tool = Wildcard, pr_scope = Some ''rm *'', pr_effect = Deny\<rparr>], pc_yolo = True\<rparr> [RootDir] = Some pm0
     \<and> pm = add_session_rule \<lparr>pr_tool = Wildcard, pr_scope = Some ''*'', pr_effect = Allow\<rparr> pm0
     \<and> check_inner example_env pm (Native ''run_shell'') [''rm x''] False None = Denied"
proof -
  let ?rule = "\<lparr>pr_tool = Wildcard, pr_scope = Some ''rm *'', pr_effect = Deny\<rparr>"
  let ?config = "\<lparr>pc_default = DAllow, pc_tool_defaults = [], pc_rules = [?rule], pc_yolo = True\<rparr>"
  let ?ctx = "\<lparr>ctx_tool = Native ''run_shell'', ctx_scopes = single ''rm x'', ctx_has_channel = True, ctx_request_id = ''1'', ctx_plan_path = None\<rparr>"
  obtain pm0 where pm0: "new_manager example_env ?config [RootDir] = Some pm0"
    by (simp add: new_manager_def builtin_rules_eq)
  let ?pm = "add_session_rule \<lparr>pr_tool = Wildcard, pr_scope = Some ''*'', pr_effect = Allow\<rparr> pm0"
  have "manager_step\<^sup>*\<^sup>* pm0 ?pm" by (rule r_into_rtranclp) (rule step_add_session_rule)
  then have "check_inner example_env ?pm (Native ''run_shell'') [''rm x''] False None = Denied"
    using configured_denials_hold [OF pm0, of ?pm ?rule ?ctx "''rm x''" False None]
    by (simp add: single_def rule_matches_scope_def scope_matches_def strip_suffix_def starts_with_def)
  with pm0 show ?thesis by blast
qed

end
