(* ===== verification/Transcript.thy ===== *)
theory Transcript
  imports N00n_Prelude
begin

text \<open>
  The transcript of a session (\<open>crates/n00n-storage/src/sessions.rs\<close>): what the user has seen, with
  every compaction holding the entries it replaced. Nesting is bounded, so that the recursive walks
  over a transcript stay within the stack; writers flatten the deepest boundary to keep the bound.
\<close>

section \<open>Entries\<close>

datatype 'm transcript_entry = TMessage 'm | GeneratedMessage 'm
  | Compaction "'m transcript_entry list" "'m option" "u64 option"

fun is_compaction :: "'m transcript_entry \<Rightarrow> bool" where
  "is_compaction (Compaction _ _ _) = True"
| "is_compaction _ = False"

fun active_message :: "'m transcript_entry \<Rightarrow> 'm option" where
  "active_message (TMessage m) = Some m"
| "active_message (GeneratedMessage m) = Some m"
| "active_message (Compaction _ _ _) = None"

definition active_messages_from_transcript :: "'m transcript_entry list \<Rightarrow> 'm list" where
  "active_messages_from_transcript transcript = List.map_filter active_message transcript"

definition MAX_TRANSCRIPT_COMPACTION_DEPTH :: usize where
  "MAX_TRANSCRIPT_COMPACTION_DEPTH = 64"

fun transcript_compaction_depth :: "'m transcript_entry list \<Rightarrow> usize" where
  "transcript_compaction_depth [] = 0"
| "transcript_compaction_depth (Compaction entries _ _ # rest) =
     max (1 + transcript_compaction_depth entries) (transcript_compaction_depth rest)"
| "transcript_compaction_depth (_ # rest) = transcript_compaction_depth rest"

fun collect_referenced_revisions :: "'m transcript_entry list \<Rightarrow> u64 set \<Rightarrow> u64 set" where
  "collect_referenced_revisions [] out = out"
| "collect_referenced_revisions (Compaction inner _ (Some revision) # rest) out =
     collect_referenced_revisions rest (collect_referenced_revisions inner (insert revision out))"
| "collect_referenced_revisions (Compaction inner _ None # rest) out =
     collect_referenced_revisions rest (collect_referenced_revisions inner out)"
| "collect_referenced_revisions (_ # rest) out = collect_referenced_revisions rest out"

definition transcript_referenced_revisions :: "'m transcript_entry list \<Rightarrow> u64 set" where
  "transcript_referenced_revisions entries = collect_referenced_revisions entries {}"

section \<open>Flattening\<close>

fun entry_depth :: "'m transcript_entry \<Rightarrow> usize" where
  "entry_depth (Compaction entries _ _) = transcript_compaction_depth entries"
| "entry_depth _ = 0"

text \<open>\<open>max_by_key\<close> takes the last of several maxima.\<close>

fun deepest_from :: "nat \<Rightarrow> (nat \<times> usize) option \<Rightarrow> 'm transcript_entry list \<Rightarrow> (nat \<times> usize) option" where
  "deepest_from i best [] = best"
| "deepest_from i best (e # es) =
     deepest_from (Suc i)
       (if is_compaction e then
          (case best of
             Some (j, d) \<Rightarrow> if d \<le> entry_depth e then Some (i, entry_depth e) else best
           | None \<Rightarrow> Some (i, entry_depth e))
        else best) es"

definition deepest_compaction :: "'m transcript_entry list \<Rightarrow> nat option" where
  "deepest_compaction es = map_option fst (deepest_from 0 None es)"

text \<open>What the maximum over a prefix of the entries is.\<close>

definition deepest_of :: "'m transcript_entry list \<Rightarrow> (nat \<times> usize) option \<Rightarrow> bool" where
  "deepest_of pre best \<longleftrightarrow>
     (case best of
        None \<Rightarrow> \<forall>e \<in> set pre. \<not> is_compaction e
      | Some (j, d) \<Rightarrow> j < length pre \<and> is_compaction (pre ! j) \<and> d = entry_depth (pre ! j)
          \<and> (\<forall>e \<in> set pre. is_compaction e \<longrightarrow> entry_depth e \<le> d))"

lemma deepest_of_Some_snoc:
  "deepest_of pre (Some (j, d)) \<Longrightarrow> \<not> is_compaction e \<or> entry_depth e < d \<Longrightarrow> deepest_of (pre @ [e]) (Some (j, d))"
  by (auto simp: deepest_of_def nth_append)

lemma deepest_of_new:
  "deepest_of pre best \<Longrightarrow> is_compaction e \<Longrightarrow> (\<forall>j d. best = Some (j, d) \<longrightarrow> d \<le> entry_depth e) \<Longrightarrow>
   deepest_of (pre @ [e]) (Some (length pre, entry_depth e))"
  by (cases best) (auto simp: deepest_of_def intro: order_trans)

lemma deepest_of_step:
  assumes "deepest_of pre best"
  shows "deepest_of (pre @ [e])
     (if is_compaction e then
          (case best of
             Some (j, d) \<Rightarrow> if d \<le> entry_depth e then Some (length pre, entry_depth e) else best
           | None \<Rightarrow> Some (length pre, entry_depth e))
        else best)"
proof (cases best)
  case None
  with assms deepest_of_new [OF assms, of e] show ?thesis by (auto simp: deepest_of_def)
next
  case (Some p)
  then obtain j d where b: "best = Some (j, d)" by (cases p) auto
  with assms deepest_of_new [OF assms, of e] deepest_of_Some_snoc [of pre j d e] show ?thesis by simp
qed

lemma deepest_from_inv: "deepest_of pre best \<Longrightarrow> deepest_of (pre @ es) (deepest_from (length pre) best es)"
proof (induction es arbitrary: pre best)
  case (Cons e es)
  from Cons.IH [OF deepest_of_step [OF Cons.prems, of e]] show ?case by simp
qed simp

lemma deepest_from_0: "deepest_of es (deepest_from 0 None es)"
  using deepest_from_inv [of "[]" None es] by (simp add: deepest_of_def)

lemma depth_eq_entries:
  "transcript_compaction_depth es = Max (insert 0 ((\<lambda>e. Suc (entry_depth e)) ` {e \<in> set es. is_compaction e}))"
proof (induction es)
  case (Cons e es)
  have "{e' \<in> set (e # es). is_compaction e'} = (if is_compaction e then insert e else id) {e' \<in> set es. is_compaction e'}"
    by auto
  with Cons show ?case by (cases e) (auto simp: Max_insert2 insert_commute [of 0] max.assoc)
qed simp

lemma depth_bounds: "e \<in> set es \<Longrightarrow> is_compaction e \<Longrightarrow> Suc (entry_depth e) \<le> transcript_compaction_depth es"
  unfolding depth_eq_entries by (rule Max_ge) auto

lemma depth_le_iff: "transcript_compaction_depth es \<le> n \<longleftrightarrow> (\<forall>e \<in> set es. is_compaction e \<longrightarrow> Suc (entry_depth e) \<le> n)"
  unfolding depth_eq_entries by auto

lemma depth_0_iff: "transcript_compaction_depth es = 0 \<longleftrightarrow> (\<forall>e \<in> set es. \<not> is_compaction e)"
  using depth_le_iff [of es 0] by auto

lemma deepest_compaction_None: "deepest_compaction es = None \<longleftrightarrow> transcript_compaction_depth es = 0"
  using deepest_from_0 [of es]
  by (auto simp: deepest_of_def deepest_compaction_def depth_0_iff split: option.splits)

lemma deepest_compaction_Some:
  assumes "deepest_compaction es = Some i"
  obtains inner s r where "i < length es" "es ! i = Compaction inner s r"
    "transcript_compaction_depth es = Suc (transcript_compaction_depth inner)"
proof -
  obtain d where d: "deepest_from 0 None es = Some (i, d)" using assms by (auto simp: deepest_compaction_def)
  then have p: "i < length es" "is_compaction (es ! i)" "d = entry_depth (es ! i)" "\<forall>e \<in> set es. is_compaction e \<longrightarrow> entry_depth e \<le> d"
    using deepest_from_0 [of es] by (auto simp: deepest_of_def)
  then obtain inner s r where e: "es ! i = Compaction inner s r" by (cases "es ! i") auto
  have "transcript_compaction_depth es \<le> Suc d" using p(4) by (auto simp: depth_le_iff)
  moreover have "Suc d \<le> transcript_compaction_depth es" using p depth_bounds [of "es ! i" es] by simp
  ultimately show thesis using that [OF p(1) e] p(3) e by simp
qed

function flatten_deepest_compaction :: "'m transcript_entry list \<Rightarrow> 'm transcript_entry list" where
  "flatten_deepest_compaction entries =
     (case deepest_compaction entries of
        None \<Rightarrow> entries
      | Some index \<Rightarrow>
          case entries ! index of
            Compaction inner s r \<Rightarrow>
              if 0 < transcript_compaction_depth inner
              then entries[index := Compaction (flatten_deepest_compaction inner) s r]
              else take index entries @ inner @ drop (Suc index) entries
          | _ \<Rightarrow> entries)"
  by auto
termination
proof (relation "measure transcript_compaction_depth")
  fix entries :: "'m transcript_entry list" and index inner s r
  assume "deepest_compaction entries = Some index" "entries ! index = Compaction inner s r"
  then show "(inner, entries) \<in> measure transcript_compaction_depth" by (auto elim!: deepest_compaction_Some)
qed simp

declare flatten_deepest_compaction.simps [simp del]

section \<open>What flattening keeps\<close>

text \<open>The messages of a transcript in order, at any depth, and the number of its compactions.\<close>

fun leaves :: "'m transcript_entry list \<Rightarrow> (bool \<times> 'm) list" where
  "leaves [] = []"
| "leaves (TMessage m # rest) = (False, m) # leaves rest"
| "leaves (GeneratedMessage m # rest) = (True, m) # leaves rest"
| "leaves (Compaction entries _ _ # rest) = leaves entries @ leaves rest"

fun compactions :: "'m transcript_entry list \<Rightarrow> nat" where
  "compactions [] = 0"
| "compactions (Compaction entries _ _ # rest) = Suc (compactions entries + compactions rest)"
| "compactions (_ # rest) = compactions rest"

lemma leaves_append [simp]: "leaves (a @ b) = leaves a @ leaves b"
  by (induction a rule: leaves.induct) auto

lemma compactions_append [simp]: "compactions (a @ b) = compactions a + compactions b"
  by (induction a rule: compactions.induct) auto

lemma depth_append [simp]:
  "transcript_compaction_depth (a @ b) = max (transcript_compaction_depth a) (transcript_compaction_depth b)"
  by (induction a rule: transcript_compaction_depth.induct) auto

lemma split_at: "i < length es \<Longrightarrow> es ! i = e \<Longrightarrow> es = take i es @ e # drop (Suc i) es"
  using id_take_nth_drop by blast

lemma flatten_cases:
  fixes es :: "'m transcript_entry list"
  assumes "0 < transcript_compaction_depth es"
  obtains (inside) pre inner s r suf where "es = pre @ Compaction inner s r # suf" "0 < transcript_compaction_depth inner"
      "flatten_deepest_compaction es = pre @ Compaction (flatten_deepest_compaction inner) s r # suf"
      "transcript_compaction_depth inner < transcript_compaction_depth es"
    | (splice) pre inner s r suf where "es = pre @ Compaction inner s r # suf" "flatten_deepest_compaction es = pre @ inner @ suf"
proof -
  obtain i where i: "deepest_compaction es = Some i" using assms deepest_compaction_None [of es] by (cases "deepest_compaction es") auto
  then obtain inner s r where e: "i < length es" "es ! i = Compaction inner s r"
      "transcript_compaction_depth es = Suc (transcript_compaction_depth inner)"
    by (rule deepest_compaction_Some)
  note sp = split_at [OF e(1,2)]
  show thesis
  proof (cases "0 < transcript_compaction_depth inner")
    case True
    then have "flatten_deepest_compaction es = take i es @ Compaction (flatten_deepest_compaction inner) s r # drop (Suc i) es"
      using i e by (subst flatten_deepest_compaction.simps) (simp add: upd_conv_take_nth_drop)
    with inside sp True e show thesis by simp
  next
    case False
    then have "flatten_deepest_compaction es = take i es @ inner @ drop (Suc i) es"
      using i e by (subst flatten_deepest_compaction.simps) simp
    with splice sp show thesis by blast
  qed
qed

lemma flatten_keeps_leaves:
  "leaves (flatten_deepest_compaction es) = leaves es
   \<and> (0 < transcript_compaction_depth es \<longrightarrow> Suc (compactions (flatten_deepest_compaction es)) = compactions es)"
proof (induction "transcript_compaction_depth es" arbitrary: es rule: less_induct)
  case less
  show ?case
  proof (cases "0 < transcript_compaction_depth es")
    case True
    then show ?thesis
    proof (cases rule: flatten_cases)
      case (inside pre inner s r suf)
      then show ?thesis using less.hyps [of inner] by auto
    qed auto
  next
    case False
    then show ?thesis using deepest_compaction_None [of es] by (subst (1 2) flatten_deepest_compaction.simps) simp
  qed
qed

text \<open>Flattening removes one compaction, so the loops that call it end.\<close>

lemma flatten_fewer: "0 < transcript_compaction_depth es \<Longrightarrow> compactions (flatten_deepest_compaction es) < compactions es"
  using flatten_keeps_leaves [of es] by auto

text \<open>\<open>while depth >= cap\<close>, for a cap above zero, as a writer runs it before it adds a level.\<close>

function hold_cap :: "'m transcript_entry list \<Rightarrow> 'm transcript_entry list" where
  "hold_cap es =
     (if MAX_TRANSCRIPT_COMPACTION_DEPTH \<le> transcript_compaction_depth es
      then hold_cap (flatten_deepest_compaction es) else es)"
  by auto
termination
  by (relation "measure compactions") (auto simp: MAX_TRANSCRIPT_COMPACTION_DEPTH_def intro!: flatten_fewer)

declare hold_cap.simps [simp del]

text \<open>\<open>while depth > cap\<close>, as the loader runs it.\<close>

function cap_loaded :: "'m transcript_entry list \<Rightarrow> 'm transcript_entry list" where
  "cap_loaded es =
     (if MAX_TRANSCRIPT_COMPACTION_DEPTH < transcript_compaction_depth es
      then cap_loaded (flatten_deepest_compaction es) else es)"
  by auto
termination
  by (relation "measure compactions") (auto intro!: flatten_fewer)

declare cap_loaded.simps [simp del]

lemma hold_cap_result:
  "leaves (hold_cap es) = leaves es" "transcript_compaction_depth (hold_cap es) < MAX_TRANSCRIPT_COMPACTION_DEPTH"
  by (induction es rule: hold_cap.induct; subst hold_cap.simps; simp add: flatten_keeps_leaves)+

lemma cap_loaded_result:
  "leaves (cap_loaded es) = leaves es" "transcript_compaction_depth (cap_loaded es) \<le> MAX_TRANSCRIPT_COMPACTION_DEPTH"
  by (induction es rule: cap_loaded.induct; subst cap_loaded.simps; simp add: flatten_keeps_leaves)+

lemma hold_cap_id: "transcript_compaction_depth es < MAX_TRANSCRIPT_COMPACTION_DEPTH \<Longrightarrow> hold_cap es = es"
  by (subst hold_cap.simps) simp

lemma cap_loaded_id: "transcript_compaction_depth es \<le> MAX_TRANSCRIPT_COMPACTION_DEPTH \<Longrightarrow> cap_loaded es = es"
  by (subst cap_loaded.simps) simp

text \<open>
  One flattening does not always lower the depth, as the comment on it says: of two compactions that
  are equally deep only the last is spliced.
\<close>

lemma flatten_keeps_depth_of_twins:
  "transcript_compaction_depth (flatten_deepest_compaction [Compaction [TMessage a] None None, Compaction [TMessage b] None None]) = 1"
  by (subst flatten_deepest_compaction.simps) (simp add: deepest_compaction_def numeral_nat)

end
