(* ===== verification/History.thy ===== *)
theory History
  imports Transcript
begin

text \<open>
  The conversation an agent sends to a provider and the transcript beside it
  (\<open>crates/n00n-agent/src/agent/history.rs\<close>, with the messages of
  \<open>crates/n00n-providers/src/types.rs\<close>). JSON values are a type parameter.
\<close>

section \<open>Messages\<close>

datatype role = User | Assistant

datatype image_media_type = Png | Jpeg | Gif | Webp

datatype image_detail = AutoDetail | LowDetail | HighDetail | OriginalDetail

record image_source =
  im_media_type :: image_media_type
  im_data :: str
  im_detail :: "image_detail option"
  im_file_id :: "str option"
  im_url :: "str option"

record file_source =
  fl_file_id :: "str option"
  fl_file_url :: "str option"
  fl_file_data :: "str option"
  fl_filename :: "str option"
  fl_detail :: "image_detail option"

datatype 'v content_block =
    TextBlock str
  | Thinking str "str option"
  | RedactedThinking str
  | ToolUse str str 'v
  | NamespacedToolUse str str str 'v
  | ProviderItem str 'v
  | ToolResult str str bool
  | Image image_source
  | File file_source

record 'v message =
  msg_role :: role
  msg_content :: "'v content_block list"
  msg_display_text :: "str option"
  msg_control :: bool

fun tool_use_with_namespace :: "'v content_block \<Rightarrow> (str \<times> str option \<times> str \<times> 'v) option" where
  "tool_use_with_namespace (ToolUse i name v) = Some (i, None, name, v)"
| "tool_use_with_namespace (NamespacedToolUse i namespace name v) = Some (i, Some namespace, name, v)"
| "tool_use_with_namespace _ = None"

definition tool_uses_with_namespace :: "'v message \<Rightarrow> (str \<times> str option \<times> str \<times> 'v) list" where
  "tool_uses_with_namespace m = List.map_filter tool_use_with_namespace (msg_content m)"

definition tool_uses :: "'v message \<Rightarrow> (str \<times> str \<times> 'v) list" where
  "tool_uses m = map (\<lambda>(i, _, name, v). (i, name, v)) (tool_uses_with_namespace m)"

fun is_tool_call :: "'v content_block \<Rightarrow> bool" where
  "is_tool_call (ToolUse _ _ _) = True"
| "is_tool_call (NamespacedToolUse _ _ _ _) = True"
| "is_tool_call _ = False"

definition has_tool_calls :: "'v message \<Rightarrow> bool" where
  "has_tool_calls m = list_ex is_tool_call (msg_content m)"

fun is_tool_result :: "'v content_block \<Rightarrow> bool" where
  "is_tool_result (ToolResult _ _ _) = True"
| "is_tool_result _ = False"

fun is_image :: "'v content_block \<Rightarrow> bool" where
  "is_image (Image _) = True"
| "is_image _ = False"

definition synthetic :: "str \<Rightarrow> 'v message" where
  "synthetic s = \<lparr>msg_role = User, msg_content = [TextBlock s], msg_display_text = Some [], msg_control = False\<rparr>"

section \<open>Repair of a conversation\<close>

definition CANCEL_MARKER :: str where "CANCEL_MARKER = ''[Cancelled by user]''"
definition UNAVAILABLE_RESULT :: str where "UNAVAILABLE_RESULT = ''[Tool result not available]''"

definition close_dangling_tool_calls :: "'v message list \<Rightarrow> str \<Rightarrow> 'v message list" where
  "close_dangling_tool_calls messages note =
     (if messages = [] \<or> msg_role (last messages) \<noteq> Assistant \<or> \<not> has_tool_calls (last messages) then messages
      else messages @ [\<lparr>msg_role = User,
             msg_content = map (\<lambda>(i, _, _). ToolResult i note True) (tool_uses (last messages)),
             msg_display_text = Some [], msg_control = False\<rparr>])"

fun keep_block :: "str list \<Rightarrow> 'v content_block \<Rightarrow> bool" where
  "keep_block valid_ids (ToolResult tool_use_id _ _) = (tool_use_id \<in> set valid_ids)"
| "keep_block valid_ids _ = True"

definition valid_ids_at :: "'v message list \<Rightarrow> nat \<Rightarrow> str list" where
  "valid_ids_at messages i =
     (if 0 < i \<and> msg_role (messages ! (i - 1)) = Assistant then map fst (tool_uses (messages ! (i - 1))) else [])"

definition sanitize_content :: "str list \<Rightarrow> 'v content_block list \<Rightarrow> 'v content_block list" where
  "sanitize_content valid_ids content =
     (let had_results = list_ex is_tool_result content;
          kept_results = list_ex (\<lambda>b. is_tool_result b \<and> keep_block valid_ids b) content;
          content' = filter (keep_block valid_ids) content
      in if had_results \<and> \<not> kept_results then filter (\<lambda>b. \<not> is_image b) content' else content')"

function sanitize_loop :: "nat \<Rightarrow> 'v message list \<Rightarrow> 'v message list" where
  "sanitize_loop i messages =
     (if i < length messages then
        if msg_role (messages ! i) \<noteq> User then sanitize_loop (i + 1) messages
        else let content = sanitize_content (valid_ids_at messages i) (msg_content (messages ! i))
             in if content = [] then sanitize_loop i (take i messages @ drop (i + 1) messages)
                else sanitize_loop (i + 1) (messages[i := (messages ! i)\<lparr>msg_content := content\<rparr>])
      else messages)"
  by auto
termination by (relation "measure (\<lambda>(i, messages). length messages - i)") auto

declare sanitize_loop.simps [simp del]

definition sanitize_restored :: "'v message list \<Rightarrow> 'v message list" where
  "sanitize_restored messages = close_dangling_tool_calls (sanitize_loop 0 messages) UNAVAILABLE_RESULT"

section \<open>The history\<close>

text \<open>The mirrors are cells that other tasks read; the model holds what was last stored in them.\<close>

record 'v history =
  h_messages :: "'v message list"
  h_transcript :: "'v message transcript_entry list"
  h_mirror :: "'v message list option"
  h_transcript_mirror :: "'v message transcript_entry list option"

text \<open>
  The identity of a message is its JSON text, which can fail to serialize. It is a parameter of the
  operations that compare saved and active messages.
\<close>

definition same_message_identity :: "('v message \<Rightarrow> str option) \<Rightarrow> 'v message \<Rightarrow> 'v message \<Rightarrow> bool" where
  "same_message_identity to_vec left right =
     (case to_vec left of None \<Rightarrow> False
      | Some l \<Rightarrow> (case to_vec right of None \<Rightarrow> False | Some identity \<Rightarrow> l = identity))"

definition rebuilt_entry ::
  "('v message \<Rightarrow> str option) \<Rightarrow> 'v message transcript_entry list \<Rightarrow> nat \<times> 'v message \<Rightarrow> 'v message transcript_entry" where
  "rebuilt_entry to_vec active_entries im =
     (let (index, message) = im in
      if index < length active_entries then
        (case active_entries ! index of
           GeneratedMessage saved \<Rightarrow>
             if same_message_identity to_vec saved message then GeneratedMessage message else TMessage message
         | _ \<Rightarrow> TMessage message)
      else TMessage message)"

definition rebuild_transcript ::
  "('v message \<Rightarrow> str option) \<Rightarrow> 'v message transcript_entry list \<Rightarrow> 'v message list \<Rightarrow> 'v message transcript_entry list" where
  "rebuild_transcript to_vec transcript messages =
     (if messages = [] then []
      else let active_entries = filter (\<lambda>e. \<not> is_compaction e) transcript
           in filter is_compaction transcript @ map (rebuilt_entry to_vec active_entries) (List.enumerate 0 messages))"

definition publish :: "'v history \<Rightarrow> 'v history" where
  "publish h =
     (case h_mirror h of
        None \<Rightarrow> h
      | Some _ \<Rightarrow>
          let h' = h\<lparr>h_mirror := Some (close_dangling_tool_calls (h_messages h) UNAVAILABLE_RESULT)\<rparr>
          in case h_transcript_mirror h' of
               None \<Rightarrow> h'
             | Some _ \<Rightarrow> h'\<lparr>h_transcript_mirror := Some (h_transcript h')\<rparr>)"

definition new_history :: "'v message list \<Rightarrow> 'v history" where
  "new_history messages =
     \<lparr>h_messages = messages, h_transcript = map TMessage messages, h_mirror = None, h_transcript_mirror = None\<rparr>"

definition restored_with_transcript ::
  "('v message \<Rightarrow> str option) \<Rightarrow> 'v message list \<Rightarrow> 'v message transcript_entry list \<Rightarrow> 'v history" where
  "restored_with_transcript to_vec messages transcript =
     (let messages1 = (if messages = [] \<and> transcript \<noteq> [] then active_messages_from_transcript transcript else messages);
          messages2 = sanitize_restored messages1;
          transcript' = (if transcript = [] then map TMessage messages2
                         else if messages2 \<noteq> [] then rebuild_transcript to_vec transcript messages2
                         else transcript)
      in \<lparr>h_messages = messages2, h_transcript = transcript', h_mirror = None, h_transcript_mirror = None\<rparr>)"

definition restored :: "('v message \<Rightarrow> str option) \<Rightarrow> 'v message list \<Rightarrow> 'v history" where
  "restored to_vec messages = restored_with_transcript to_vec messages []"

definition with_mirror :: "'v message list \<Rightarrow> 'v history \<Rightarrow> 'v history" where
  "with_mirror mirror h = publish (h\<lparr>h_mirror := Some mirror\<rparr>)"

definition with_transcript_mirror :: "'v message transcript_entry list \<Rightarrow> 'v history \<Rightarrow> 'v history" where
  "with_transcript_mirror mirror h = publish (h\<lparr>h_transcript_mirror := Some mirror\<rparr>)"

definition set_outer_compaction_state_revision :: "u64 \<Rightarrow> 'v history \<Rightarrow> str + 'v history" where
  "set_outer_compaction_state_revision revision h =
     (case h_transcript h of
        Compaction entries s _ # rest \<Rightarrow> Inr (publish (h\<lparr>h_transcript := Compaction entries s (Some revision) # rest\<rparr>))
      | _ \<Rightarrow> Inl ''compaction transcript boundary is missing'')"

definition compact_boundary :: "'v message \<Rightarrow> 'v message \<Rightarrow> u64 option \<Rightarrow> 'v history \<Rightarrow> 'v history" where
  "compact_boundary prompt summary state_revision h =
     publish (h\<lparr>h_messages := [prompt, summary],
                h_transcript := [Compaction (hold_cap (h_transcript h)) (Some summary) state_revision,
                                 GeneratedMessage prompt, GeneratedMessage summary]\<rparr>)"

definition push_message :: "'v message \<Rightarrow> 'v history \<Rightarrow> 'v history" where
  "push_message msg h =
     publish (h\<lparr>h_messages := h_messages h @ [msg], h_transcript := h_transcript h @ [TMessage msg]\<rparr>)"

definition ends_with_tool_results :: "'v history \<Rightarrow> bool" where
  "ends_with_tool_results h \<longleftrightarrow> h_messages h \<noteq> [] \<and> list_ex is_tool_result (msg_content (last (h_messages h)))"

definition replace_messages :: "('v message \<Rightarrow> str option) \<Rightarrow> 'v message list \<Rightarrow> 'v history \<Rightarrow> 'v history" where
  "replace_messages to_vec messages h =
     publish (h\<lparr>h_transcript := rebuild_transcript to_vec (h_transcript h) messages, h_messages := messages\<rparr>)"

definition restore_history :: "'v message list \<Rightarrow> 'v message transcript_entry list \<Rightarrow> 'v history \<Rightarrow> 'v history" where
  "restore_history messages transcript h = publish (h\<lparr>h_messages := messages, h_transcript := transcript\<rparr>)"

definition truncate_history :: "('v message \<Rightarrow> str option) \<Rightarrow> usize \<Rightarrow> 'v history \<Rightarrow> 'v history" where
  "truncate_history to_vec n h =
     (let messages = take n (h_messages h)
      in publish (h\<lparr>h_messages := messages, h_transcript := rebuild_transcript to_vec (h_transcript h) messages\<rparr>))"

definition edit_history :: "('v message list \<Rightarrow> 'v message list) \<Rightarrow> 'v history \<Rightarrow> 'v history" where
  "edit_history f h =
     (let messages = f (h_messages h)
      in publish (h\<lparr>h_messages := messages,
                     h_transcript := h_transcript h @ map TMessage (drop (length (h_messages h)) messages)\<rparr>))"

definition sanitize_cancelled_history :: "usize \<Rightarrow> 'v history \<Rightarrow> 'v history" where
  "sanitize_cancelled_history rollback_len h =
     (if length (h_messages h) \<le> rollback_len then h
      else edit_history (\<lambda>msgs. close_dangling_tool_calls msgs CANCEL_MARKER @ [synthetic CANCEL_MARKER]) h)"

section \<open>A conversation a provider accepts\<close>

text \<open>
  Every tool result of a user message answers a call of the assistant message right before it, no user
  message is empty, and the conversation does not end with calls that have no result.
\<close>

definition clean_before :: "nat \<Rightarrow> 'v message list \<Rightarrow> bool" where
  "clean_before n messages \<longleftrightarrow>
     (\<forall>i < n. msg_role (messages ! i) = User \<longrightarrow>
        msg_content (messages ! i) \<noteq> [] \<and> list_all (keep_block (valid_ids_at messages i)) (msg_content (messages ! i)))"

definition no_open_calls :: "'v message list \<Rightarrow> bool" where
  "no_open_calls messages \<longleftrightarrow>
     messages = [] \<or> msg_role (last messages) \<noteq> Assistant \<or> \<not> has_tool_calls (last messages)"

definition provider_ready :: "'v message list \<Rightarrow> bool" where
  "provider_ready messages \<longleftrightarrow> clean_before (length messages) messages \<and> no_open_calls messages"

lemma sanitize_content_keeps: "list_all (keep_block ids) (sanitize_content ids content)"
  by (auto simp: sanitize_content_def Let_def list_all_iff)

lemma sanitize_content_id: "list_all (keep_block ids) content \<Longrightarrow> sanitize_content ids content = content"
  by (auto simp: sanitize_content_def Let_def list_all_iff list_ex_iff filter_id_conv)

lemma valid_ids_local: "(\<And>j. j < i \<Longrightarrow> messages' ! j = messages ! j) \<Longrightarrow> valid_ids_at messages' i = valid_ids_at messages i"
  by (cases i) (simp_all add: valid_ids_at_def)

lemma clean_before_local:
  "(\<And>j. j < n \<Longrightarrow> messages' ! j = messages ! j) \<Longrightarrow> clean_before n messages' = clean_before n messages"
  using valid_ids_local [of _ messages' messages] by (auto simp: clean_before_def)

lemma clean_before_Suc:
  "clean_before (Suc n) messages \<longleftrightarrow> clean_before n messages \<and>
     (msg_role (messages ! n) = User \<longrightarrow>
        msg_content (messages ! n) \<noteq> [] \<and> list_all (keep_block (valid_ids_at messages n)) (msg_content (messages ! n)))"
  by (auto simp: clean_before_def less_Suc_eq)

lemma sanitize_loop_clean:
  "i \<le> length messages \<Longrightarrow> clean_before i messages \<Longrightarrow>
   clean_before (length (sanitize_loop i messages)) (sanitize_loop i messages)"
proof (induction i messages rule: sanitize_loop.induct)
  case (1 i messages)
  let ?c = "sanitize_content (valid_ids_at messages i) (msg_content (messages ! i))"
  consider (over) "length messages \<le> i" | (assistant) "i < length messages" "msg_role (messages ! i) \<noteq> User"
    | (empty) "i < length messages" "msg_role (messages ! i) = User" "?c = []"
    | (kept) "i < length messages" "msg_role (messages ! i) = User" "?c \<noteq> []"
    by fastforce
  then show ?case
  proof cases
    case over
    with "1.prems" show ?thesis by (subst (1 2) sanitize_loop.simps) simp
  next
    case assistant
    with "1.IH"(1) "1.prems" have "clean_before (length (sanitize_loop (i + 1) messages)) (sanitize_loop (i + 1) messages)"
      by (simp add: clean_before_Suc)
    with assistant show ?thesis by (subst (1 2) sanitize_loop.simps) simp
  next
    case empty
    have "clean_before i (take i messages @ drop (i + 1) messages)"
      using "1.prems" empty by (subst clean_before_local [where messages = messages]) (auto simp: nth_append)
    then have "clean_before (length (sanitize_loop i (take i messages @ drop (i + 1) messages)))
        (sanitize_loop i (take i messages @ drop (i + 1) messages))"
      using "1.IH"(2) empty by simp
    with empty show ?thesis by (subst (1 2) sanitize_loop.simps) simp
  next
    case kept
    let ?m = "messages[i := (messages ! i)\<lparr>msg_content := ?c\<rparr>]"
    have "clean_before i ?m" using "1.prems" by (subst clean_before_local [where messages = messages]) auto
    moreover have "valid_ids_at ?m i = valid_ids_at messages i" by (rule valid_ids_local) simp
    ultimately have "clean_before (i + 1) ?m" using kept by (simp add: clean_before_Suc sanitize_content_keeps)
    then have "clean_before (length (sanitize_loop (i + 1) ?m)) (sanitize_loop (i + 1) ?m)"
      using "1.IH"(3) kept by simp
    with kept show ?thesis by (subst (1 2) sanitize_loop.simps) (simp add: Let_def)
  qed
qed

lemma sanitize_loop_id: "i \<le> length messages \<Longrightarrow> clean_before (length messages) messages \<Longrightarrow> sanitize_loop i messages = messages"
proof (induction i messages rule: sanitize_loop.induct)
  case (1 i messages)
  show ?case
  proof (cases "i < length messages \<and> msg_role (messages ! i) = User")
    case True
    then have "msg_content (messages ! i) \<noteq> []"
      "list_all (keep_block (valid_ids_at messages i)) (msg_content (messages ! i))"
      using "1.prems" by (auto simp: clean_before_def)
    with True "1.IH"(3) [OF _ _ refl] "1.prems" show ?thesis
      by (subst sanitize_loop.simps) (simp add: sanitize_content_id Let_def)
  next
    case False
    with "1.IH"(1) "1.prems" show ?thesis by (subst sanitize_loop.simps) auto
  qed
qed

lemma tool_uses_ids: "set (map fst (tool_uses m)) = {i. \<exists>b \<in> set (msg_content m). \<exists>x. tool_use_with_namespace b = Some (i, x)}"
  by (force simp: tool_uses_def tool_uses_with_namespace_def List.map_filter_def image_iff)

lemma has_tool_calls_uses: "has_tool_calls m \<longleftrightarrow> tool_uses m \<noteq> []"
proof -
  have "is_tool_call b \<longleftrightarrow> tool_use_with_namespace b \<noteq> None" for b :: "'a content_block" by (cases b) auto
  then show ?thesis by (auto simp: has_tool_calls_def tool_uses_def tool_uses_with_namespace_def List.map_filter_def list_ex_iff filter_empty_conv)
qed

lemma close_dangling_clean:
  assumes "clean_before (length messages) messages"
  shows "provider_ready (close_dangling_tool_calls messages note)"
proof (cases "no_open_calls messages")
  case True
  with assms show ?thesis by (auto simp: close_dangling_tool_calls_def provider_ready_def no_open_calls_def)
next
  case False
  let ?r = "\<lparr>msg_role = User, msg_content = map (\<lambda>(i, _, _). ToolResult i note True) (tool_uses (last messages)),
             msg_display_text = Some [], msg_control = False\<rparr>"
  have c: "close_dangling_tool_calls messages note = messages @ [?r]"
    using False by (simp add: close_dangling_tool_calls_def no_open_calls_def)
  have "valid_ids_at (messages @ [?r]) (length messages) = map fst (tool_uses (last messages))"
    using False by (auto simp: valid_ids_at_def nth_append last_conv_nth no_open_calls_def)
  moreover have "clean_before (length messages) (messages @ [?r])"
    using assms by (subst clean_before_local [where messages = messages]) (auto simp: nth_append)
  moreover have "tool_uses (last messages) \<noteq> []" using False by (simp add: no_open_calls_def has_tool_calls_uses)
  ultimately have "clean_before (Suc (length messages)) (messages @ [?r])"
    by (auto simp: clean_before_Suc list_all_iff image_iff) force
  with c show ?thesis by (simp add: provider_ready_def no_open_calls_def)
qed

lemma sanitize_restored_ready: "provider_ready (sanitize_restored messages)"
  unfolding sanitize_restored_def
  by (rule close_dangling_clean, rule sanitize_loop_clean) (simp_all add: clean_before_def)

lemma sanitize_restored_id: "provider_ready messages \<Longrightarrow> sanitize_restored messages = messages"
  by (auto simp: sanitize_restored_def provider_ready_def sanitize_loop_id close_dangling_tool_calls_def no_open_calls_def)

text \<open>Only user messages are dropped or changed.\<close>

lemma sanitize_loop_assistants:
  "filter (\<lambda>m. msg_role m = Assistant) (sanitize_loop i messages) = filter (\<lambda>m. msg_role m = Assistant) messages"
proof (induction i messages rule: sanitize_loop.induct)
  case (1 i messages)
  have drop_user: "filter (\<lambda>m. msg_role m = Assistant) (take i messages @ drop (i + 1) messages) = filter (\<lambda>m. msg_role m = Assistant) messages"
    if "i < length messages" "msg_role (messages ! i) = User"
  proof -
    have "messages = take i messages @ messages ! i # drop (i + 1) messages" using that id_take_nth_drop by fastforce
    then have "filter (\<lambda>m. msg_role m = Assistant) messages = filter (\<lambda>m. msg_role m = Assistant) (take i messages @ messages ! i # drop (i + 1) messages)"
      by simp
    with that show ?thesis by simp
  qed
  have set_user: "filter (\<lambda>m. msg_role m = Assistant) (messages[i := (messages ! i)\<lparr>msg_content := c\<rparr>]) = filter (\<lambda>m. msg_role m = Assistant) messages"
    if "i < length messages" "msg_role (messages ! i) = User" for c
    using that drop_user by (simp add: upd_conv_take_nth_drop)
  show ?case
  proof (cases "i < length messages")
    case True
    with 1 drop_user set_user show ?thesis by (subst sanitize_loop.simps) (auto simp: Let_def)
  next
    case False
    then show ?thesis by (subst sanitize_loop.simps) simp
  qed
qed

lemma sanitize_restored_assistants:
  "filter (\<lambda>m. msg_role m = Assistant) (sanitize_restored messages) = filter (\<lambda>m. msg_role m = Assistant) messages"
  using sanitize_loop_assistants [of 0 messages] by (auto simp: sanitize_restored_def close_dangling_tool_calls_def)

section \<open>The transcript follows the conversation\<close>

lemma active_append [simp]:
  "active_messages_from_transcript (a @ b) = active_messages_from_transcript a @ active_messages_from_transcript b"
  by (simp add: active_messages_from_transcript_def List.map_filter_def)

lemma active_messages_map [simp]: "active_messages_from_transcript (map TMessage ms) = ms"
  by (simp add: active_messages_from_transcript_def List.map_filter_def comp_def)

lemma active_compactions [simp]: "active_messages_from_transcript (filter is_compaction es) = []"
proof -
  have "active_message e = None" if "is_compaction e" for e :: "'a transcript_entry" using that by (cases e) auto
  then show ?thesis by (simp add: active_messages_from_transcript_def List.map_filter_def filter_empty_conv)
qed

lemma rebuilt_entry_active: "active_message (rebuilt_entry to_vec active (i, m)) = Some m"
  by (auto simp: rebuilt_entry_def split: transcript_entry.splits)

lemma rebuilt_entries_active:
  "active_messages_from_transcript (map (rebuilt_entry to_vec active) (List.enumerate n ms)) = ms"
proof (induction ms arbitrary: n)
  case (Cons m ms)
  from Cons.IH [of "Suc n"] show ?case
    by (simp add: active_messages_from_transcript_def List.map_filter_def rebuilt_entry_active)
qed (simp add: active_messages_from_transcript_def List.map_filter_def)

lemma rebuild_active: "active_messages_from_transcript (rebuild_transcript to_vec transcript messages) = messages"
  by (simp add: rebuild_transcript_def rebuilt_entries_active Let_def)
     (simp add: active_messages_from_transcript_def List.map_filter_def)

lemma rebuilt_entry_flat: "\<not> is_compaction (rebuilt_entry to_vec active im)"
  by (cases im) (auto simp: rebuilt_entry_def split: transcript_entry.splits)

lemma flat_depth: "(\<And>e. e \<in> set es \<Longrightarrow> \<not> is_compaction e) \<Longrightarrow> transcript_compaction_depth es = 0"
  by (simp add: depth_0_iff)

lemma map_TMessage_depth [simp]: "transcript_compaction_depth (map TMessage ms) = 0"
  by (rule flat_depth) auto

lemma rebuild_depth: "transcript_compaction_depth (rebuild_transcript to_vec transcript messages) \<le> transcript_compaction_depth transcript"
proof -
  have "transcript_compaction_depth (map (rebuilt_entry to_vec a) (List.enumerate 0 messages)) = 0" for a
    by (rule flat_depth) (auto simp: rebuilt_entry_flat)
  moreover have "transcript_compaction_depth (filter is_compaction transcript) \<le> transcript_compaction_depth transcript"
    using depth_bounds by (auto simp: depth_le_iff)
  ultimately show ?thesis by (simp add: rebuild_transcript_def Let_def)
qed

text \<open>
  The active part of the transcript is the conversation, its compactions are within the cap of the
  loader, and the mirrors hold the current state.
\<close>

definition mirrors_ok :: "'v history \<Rightarrow> bool" where
  "mirrors_ok h \<longleftrightarrow>
     (\<forall>m. h_mirror h = Some m \<longrightarrow> m = close_dangling_tool_calls (h_messages h) UNAVAILABLE_RESULT
        \<and> (\<forall>t. h_transcript_mirror h = Some t \<longrightarrow> t = h_transcript h))"

definition history_ok :: "'v history \<Rightarrow> bool" where
  "history_ok h \<longleftrightarrow> active_messages_from_transcript (h_transcript h) = h_messages h
     \<and> transcript_compaction_depth (h_transcript h) \<le> MAX_TRANSCRIPT_COMPACTION_DEPTH \<and> mirrors_ok h"

lemma publish_simps [simp]:
  "h_messages (publish h) = h_messages h" "h_transcript (publish h) = h_transcript h" "mirrors_ok (publish h)"
  by (simp_all add: publish_def mirrors_ok_def Let_def split: option.splits)

lemma history_ok_publish:
  "active_messages_from_transcript (h_transcript h) = h_messages h \<Longrightarrow>
   transcript_compaction_depth (h_transcript h) \<le> MAX_TRANSCRIPT_COMPACTION_DEPTH \<Longrightarrow> history_ok (publish h)"
  by (simp add: history_ok_def)

lemma active_Cons [simp]:
  "active_messages_from_transcript (TMessage m # es) = m # active_messages_from_transcript es"
  "active_messages_from_transcript (GeneratedMessage m # es) = m # active_messages_from_transcript es"
  "active_messages_from_transcript (Compaction a b c # es) = active_messages_from_transcript es"
  "active_messages_from_transcript [] = []"
  by (simp_all add: active_messages_from_transcript_def List.map_filter_def)

lemma cancelled_appends:
  "take (length ms) (close_dangling_tool_calls ms note @ xs) = ms"
  by (simp add: close_dangling_tool_calls_def)

inductive history_step :: "('v message \<Rightarrow> str option) \<Rightarrow> 'v history \<Rightarrow> 'v history \<Rightarrow> bool" for to_vec where
  step_push: "history_step to_vec h (push_message msg h)"
| step_compact: "history_step to_vec h (compact_boundary prompt summary revision h)"
| step_revision: "set_outer_compaction_state_revision revision h = Inr h' \<Longrightarrow> history_step to_vec h h'"
| step_replace: "history_step to_vec h (replace_messages to_vec messages h)"
| step_truncate: "history_step to_vec h (truncate_history to_vec n h)"
| step_cancel: "history_step to_vec h (sanitize_cancelled_history rollback_len h)"
| step_mirror: "history_step to_vec h (with_mirror mirror h)"
| step_transcript_mirror: "history_step to_vec h (with_transcript_mirror mirror_t h)"
| step_restore: "history_ok saved \<Longrightarrow> history_step to_vec h (restore_history (h_messages saved) (h_transcript saved) h)"

lemma history_step_ok: "history_step to_vec h h' \<Longrightarrow> history_ok h \<Longrightarrow> history_ok h'"
proof (induction rule: history_step.induct)
  case (step_compact h prompt summary revision)
  have "transcript_compaction_depth (hold_cap (h_transcript h)) < MAX_TRANSCRIPT_COMPACTION_DEPTH" by (rule hold_cap_result)
  then show ?case unfolding compact_boundary_def by (intro history_ok_publish) simp_all
next
  case (step_revision revision h h')
  then show ?case
    by (auto simp: set_outer_compaction_state_revision_def history_ok_def split: list.splits transcript_entry.splits)
next
  case (step_replace h messages)
  then show ?case unfolding replace_messages_def
    by (intro history_ok_publish) (auto simp: rebuild_active history_ok_def intro: le_trans [OF rebuild_depth])
next
  case (step_truncate h n)
  then show ?case unfolding truncate_history_def Let_def
    by (intro history_ok_publish) (auto simp: rebuild_active history_ok_def intro: le_trans [OF rebuild_depth])
next
  case (step_cancel h rollback_len)
  let ?ms = "close_dangling_tool_calls (h_messages h) CANCEL_MARKER @ [synthetic CANCEL_MARKER]"
  have "h_messages h @ drop (length (h_messages h)) ?ms = ?ms"
    using cancelled_appends [of "h_messages h" CANCEL_MARKER "[synthetic CANCEL_MARKER]"] by (metis append_take_drop_id)
  with step_cancel show ?case
    unfolding sanitize_cancelled_history_def edit_history_def Let_def
    by (auto simp: history_ok_def intro!: history_ok_publish)
qed (auto simp: push_message_def with_mirror_def with_transcript_mirror_def restore_history_def history_ok_def intro!: history_ok_publish)

text \<open>
  A history starts new, or restored from a session whose transcript the loader has capped and whose
  conversation is not lost entirely in the repair.
\<close>

definition history_initial :: "('v message \<Rightarrow> str option) \<Rightarrow> 'v history \<Rightarrow> bool" where
  "history_initial to_vec h \<longleftrightarrow> (\<exists>messages. h = new_history messages)
     \<or> (\<exists>messages transcript. h = restored_with_transcript to_vec messages transcript
          \<and> transcript_compaction_depth transcript \<le> MAX_TRANSCRIPT_COMPACTION_DEPTH
          \<and> (transcript = [] \<or> h_messages h \<noteq> []))"

lemma restored_ok:
  assumes "transcript_compaction_depth transcript \<le> MAX_TRANSCRIPT_COMPACTION_DEPTH"
    and "transcript = [] \<or> h_messages (restored_with_transcript to_vec messages transcript) \<noteq> []"
  shows "history_ok (restored_with_transcript to_vec messages transcript)"
proof (cases "transcript = []")
  case False
  define ms where "ms = sanitize_restored (if messages = [] then active_messages_from_transcript transcript else messages)"
  have "restored_with_transcript to_vec messages transcript =
      \<lparr>h_messages = ms, h_transcript = (if ms \<noteq> [] then rebuild_transcript to_vec transcript ms else transcript),
       h_mirror = None, h_transcript_mirror = None\<rparr>"
    using False unfolding restored_with_transcript_def ms_def Let_def by simp
  with assms False show ?thesis
    by (simp add: history_ok_def mirrors_ok_def rebuild_active le_trans [OF rebuild_depth])
qed (simp add: restored_with_transcript_def Let_def history_ok_def mirrors_ok_def)

lemma history_initial_ok: "history_initial to_vec h \<Longrightarrow> history_ok h"
  by (auto simp: history_initial_def restored_ok) (simp add: new_history_def history_ok_def mirrors_ok_def)

interpretation history: invariant_system "history_initial to_vec" "history_step to_vec" history_ok for to_vec
  by unfold_locales (auto intro: history_initial_ok history_step_ok)

section \<open>Guarantees\<close>


text \<open>C20. A compaction loses nothing that the user has seen: the conversation becomes the prompt and the
summary, and the transcript still holds every earlier message at some depth in the old order, then the
prompt and the summary as generated messages, nested no deeper than the loader reads, however many
compactions came before.\<close>

theorem compaction_loses_nothing:
  "h_messages (compact_boundary prompt summary revision h) = [prompt, summary]
   \<and> leaves (h_transcript (compact_boundary prompt summary revision h))
       = leaves (h_transcript h) @ [(True, prompt), (True, summary)]
   \<and> transcript_compaction_depth (h_transcript (compact_boundary prompt summary revision h)) \<le> MAX_TRANSCRIPT_COMPACTION_DEPTH"
  using hold_cap_result [of "h_transcript h"] by (simp add: compact_boundary_def)



text \<open>
  The repair closes open calls only at the end. A call in the middle whose results are missing, as when
  the message with its results was too large for the session log, stays open.
\<close>

lemma inner_calls_stay_open:
  "sanitize_restored
     [\<lparr>msg_role = Assistant, msg_content = [ToolUse ''1'' ''run_shell'' ()], msg_display_text = None, msg_control = False\<rparr>,
      \<lparr>msg_role = Assistant, msg_content = [TextBlock ''done''], msg_display_text = None, msg_control = False\<rparr>]
   = [\<lparr>msg_role = Assistant, msg_content = [ToolUse ''1'' ''run_shell'' ()], msg_display_text = None, msg_control = False\<rparr>,
      \<lparr>msg_role = Assistant, msg_content = [TextBlock ''done''], msg_display_text = None, msg_control = False\<rparr>]"
  by (rule sanitize_restored_id)
     (auto simp: provider_ready_def clean_before_def no_open_calls_def has_tool_calls_def less_Suc_eq numeral_nat nth_Cons')

end
