(* ===== verification/Json.thy ===== *)
theory Json
  imports N00n_Prelude
begin

text \<open>
  JSON values as \<open>serde_json::Value\<close> has them, and the ordered maps (\<open>BTreeMap\<close>) that stored state is made
  of. Numbers keep their text, as the feature \<open>arbitrary_precision\<close> of the workspace makes them. The length
  of the JSON text of a value is a parameter of the definitions that measure it.
\<close>

section \<open>Ordered maps\<close>

type_synonym 'v omap = "(str \<times> 'v) list"

fun om_insert :: "str \<Rightarrow> 'v \<Rightarrow> 'v omap \<Rightarrow> 'v omap" where
  "om_insert k v [] = [(k, v)]"
| "om_insert k v ((k', v') # m) =
     (if k = k' then (k, v) # m else if k < k' then (k, v) # (k', v') # m else (k', v') # om_insert k v m)"

definition om_remove :: "str \<Rightarrow> 'v omap \<Rightarrow> 'v omap" where
  "om_remove k m = filter (\<lambda>kv. fst kv \<noteq> k) m"

definition om_of :: "(str \<times> 'v) list \<Rightarrow> 'v omap" where
  "om_of kvs = fold (\<lambda>(k, v). om_insert k v) kvs []"

definition om_ok :: "'v omap \<Rightarrow> bool" where
  "om_ok m \<longleftrightarrow> sorted_wrt (<) (map fst m)"

lemma om_insert_lookup [simp]: "map_of (om_insert k v m) = (map_of m)(k \<mapsto> v)"
  by (induction k v m rule: om_insert.induct) (auto simp: fun_eq_iff)

lemma om_remove_lookup [simp]: "map_of (om_remove k m) = (map_of m)(k := None)"
  by (induction m) (auto simp: om_remove_def fun_eq_iff)

lemma om_insert_keys [simp]: "fst ` set (om_insert k v m) = insert k (fst ` set m)"
  by (induction k v m rule: om_insert.induct) auto

lemma om_ok_simps [simp]: "om_ok []" "om_ok (kv # m) \<longleftrightarrow> (\<forall>k \<in> fst ` set m. fst kv < k) \<and> om_ok m"
  by (auto simp: om_ok_def)

lemma om_insert_ok: "om_ok m \<Longrightarrow> om_ok (om_insert k v m)"
  by (induction k v m rule: om_insert.induct) (auto dest: less_trans)

lemma om_remove_ok: "om_ok m \<Longrightarrow> om_ok (om_remove k m)"
  by (induction m) (auto simp: om_remove_def)

lemma om_insert_set: "kv \<in> set (om_insert k v m) \<Longrightarrow> kv = (k, v) \<or> kv \<in> set m"
  by (induction k v m rule: om_insert.induct) (auto split: if_splits)

lemma om_insert_all: "\<forall>kv \<in> set m. P (snd kv) \<Longrightarrow> P v \<Longrightarrow> \<forall>kv \<in> set (om_insert k v m). P (snd kv)"
  by (auto dest!: om_insert_set)

lemma om_remove_all: "\<forall>kv \<in> set m. P (snd kv) \<Longrightarrow> \<forall>kv \<in> set (om_remove k m). P (snd kv)"
  by (auto simp: om_remove_def)

lemma om_insert_last: "om_ok (m @ [(k, v)]) \<Longrightarrow> om_insert k v m = m @ [(k, v)]"
  by (induction m) auto

text \<open>Collecting the entries of a map in order gives the map.\<close>

lemma om_of_append_one: "om_of (m @ [(k, v)]) = om_insert k v (om_of m)"
  by (simp add: om_of_def)

lemma om_ok_append: "om_ok (m @ n) \<Longrightarrow> om_ok m"
  by (induction m) auto

lemma om_of_ok: "om_ok m \<Longrightarrow> om_of m = m"
proof (induction m rule: rev_induct)
  case (snoc kv m)
  then show ?case using om_ok_append [of m "[kv]"] by (cases kv) (simp add: om_of_append_one om_insert_last)
qed (simp add: om_of_def)

lemma om_ok_distinct: "om_ok m \<Longrightarrow> distinct (map fst m)"
  by (induction m) auto

text \<open>A map is determined by its lookups.\<close>

lemma om_keys: "k \<in> fst ` set m \<longleftrightarrow> map_of m k \<noteq> None"
  by (simp add: map_of_eq_None_iff)

lemma om_ext:
  assumes "om_ok m" and "om_ok n" and "map_of m = map_of n"
  shows "m = n"
proof -
  have d: "distinct (map fst m)" "distinct (map fst n)" using assms by (auto intro: om_ok_distinct)
  with assms(3) have sets: "set m = set n" by (simp add: map_of_inject_set)
  show ?thesis
  proof (rule map_sorted_distinct_set_unique [of fst])
    show "inj_on fst (set m \<union> set n)" using d sets by (simp add: distinct_map)
    show "sorted (map fst m)" "sorted (map fst n)" using assms by (auto simp: om_ok_def strict_sorted_iff)
  qed (use d sets in auto)
qed

lemma om_of_set: "kv \<in> set (om_of kvs) \<Longrightarrow> kv \<in> set kvs"
proof (induction kvs rule: rev_induct)
  case (snoc x kvs)
  then show ?case by (cases x) (auto simp: om_of_append_one dest: om_insert_set)
qed (simp add: om_of_def)

lemma om_of_is_ok: "om_ok (om_of kvs)"
  by (induction kvs rule: rev_induct) (auto simp: om_of_append_one om_insert_ok, simp add: om_of_def)

lemma om_of_lookup: "map_of (om_of kvs) = map_of (rev kvs)"
  by (induction kvs rule: rev_induct) (auto simp: om_of_append_one, simp add: om_of_def)

lemma om_filter_lookup: "map_of (filter (\<lambda>(k, v). P k) m) k = (if P k then map_of m k else None)"
  by (induction m) auto

lemma om_filter_ok: "om_ok m \<Longrightarrow> om_ok (filter P m)"
  by (induction m) auto

lemma om_map_ok: "om_ok (map (\<lambda>(k, v). (k, f v)) m) \<longleftrightarrow> om_ok m"
  by (simp add: om_ok_def case_prod_unfold comp_def)

section \<open>Values\<close>

datatype json = JNull | JBool bool | JNumber str | JString str | JArray "json list" | JObject "(str \<times> json) list"

text \<open>Numbers: the text of an unsigned integer, and \<open>as_u64\<close>.\<close>

definition is_digit :: "char \<Rightarrow> bool" where
  "is_digit c \<longleftrightarrow> 48 \<le> byte c \<and> byte c \<le> 57"

fun read_digits :: "str \<Rightarrow> nat \<Rightarrow> nat" where
  "read_digits [] n = n"
| "read_digits (c # s) n = read_digits s (10 * n + (byte c - 48))"

definition parse_u64 :: "str \<Rightarrow> u64 option" where
  "parse_u64 s = (if s \<noteq> [] \<and> list_all is_digit s \<and> read_digits s 0 < 2 ^ 64 then Some (of_nat (read_digits s 0)) else None)"

fun as_u64 :: "json \<Rightarrow> u64 option" where
  "as_u64 (JNumber s) = parse_u64 s"
| "as_u64 _ = None"

definition json_u64 :: "u64 \<Rightarrow> json" where
  "json_u64 v = JNumber (show_u64 v)"

definition json_u32 :: "u32 \<Rightarrow> json" where
  "json_u32 v = JNumber (show_nat (unat v))"

text \<open>\<open>Value::get\<close> with a string key.\<close>

fun json_get :: "str \<Rightarrow> json \<Rightarrow> json option" where
  "json_get k (JObject m) = map_of m k"
| "json_get k _ = None"

fun as_object :: "json \<Rightarrow> json omap option" where
  "as_object (JObject m) = Some m"
| "as_object _ = None"

fun as_array :: "json \<Rightarrow> json list option" where
  "as_array (JArray vs) = Some vs"
| "as_array _ = None"

lemma read_digits_append: "read_digits (s @ t) n = read_digits t (read_digits s n)"
  by (induction s n rule: read_digits.induct) auto

lemma byte_digit [simp]: "d < 10 \<Longrightarrow> byte (char_of (48 + d)) = 48 + d"
  by (simp add: byte_def)

lemma is_digit_char [simp]: "(d :: nat) < 10 \<Longrightarrow> is_digit (char_of (48 + d))"
  by (simp add: is_digit_def)

lemma show_nat_digits: "list_all is_digit (show_nat n) \<and> show_nat n \<noteq> [] \<and> read_digits (show_nat n) 0 = n"
proof (induction n rule: show_nat.induct)
  case (1 n)
  show ?case
  proof (cases "n < 10")
    case True
    then show ?thesis by (subst (1 2 3) show_nat.simps) simp
  next
    case False
    with 1 show ?thesis by (subst (1 2 3) show_nat.simps) (simp add: read_digits_append)
  qed
qed

lemma show_nat_inj: "show_nat m = show_nat n \<Longrightarrow> m = n"
  by (metis show_nat_digits)

lemma as_u64_json [simp]: "as_u64 (json_u64 v) = Some v"
proof -
  have "unat v < 2 ^ 64" using unsigned_less [of v] by simp
  then show ?thesis using show_nat_digits [of "unat v"] by (simp add: json_u64_def parse_u64_def show_u64_def)
qed

lemma as_u64_json32 [simp]: "as_u64 (json_u32 v) = Some (ucast v)"
proof -
  have "unat v < 2 ^ 32" using unsigned_less [of v] by simp
  then show ?thesis
    using show_nat_digits [of "unat v"] by (simp add: json_u32_def parse_u64_def unsigned_ucast_eq)
qed

end
