(* ===== verification/Session_State.thy ===== *)
theory Session_State
  imports Json Transcript
begin

text \<open>
  The state that plugins keep with a session, the checkpoints of it that compactions refer to, and the
  ledger of delivered run notices (\<open>crates/n00n-storage/src/sessions.rs\<close>). \<open>len\<close> is the length of the
  JSON text of a value, which \<open>serde_json\<close> determines.
\<close>

section \<open>Plugin state\<close>

definition SESSION_STATE_SCHEMA_VERSION :: u32 where "SESSION_STATE_SCHEMA_VERSION = 1"
definition COMPACTION_STATE_SCHEMA_VERSION :: u32 where "COMPACTION_STATE_SCHEMA_VERSION = 1"
definition MAX_PLUGIN_STATE_ENTRIES :: usize where "MAX_PLUGIN_STATE_ENTRIES = 64"
definition MAX_PLUGIN_STATE_NAME_BYTES :: usize where "MAX_PLUGIN_STATE_NAME_BYTES = 128"
definition MAX_PLUGIN_STATE_BYTES :: usize where "MAX_PLUGIN_STATE_BYTES = 256 * 1024"
definition MAX_SESSION_STATE_BYTES :: usize where "MAX_SESSION_STATE_BYTES = 1024 * 1024"
definition MAX_COMPACTION_STATE_CHECKPOINTS :: usize where "MAX_COMPACTION_STATE_CHECKPOINTS = 64"
definition MAX_COMPACTION_STATE_BYTES :: usize where "MAX_COMPACTION_STATE_BYTES = 4 * 1024 * 1024"
definition MAX_CONTROL_DELIVERY_RECORDS :: usize where "MAX_CONTROL_DELIVERY_RECORDS = 1024"

datatype state_scope = SessionScope | RootScope

fun scope_as_str :: "state_scope \<Rightarrow> str" where
  "scope_as_str SessionScope = ''session''"
| "scope_as_str RootScope = ''root''"

definition scope_from_stored :: "str \<Rightarrow> state_scope option" where
  "scope_from_stored v = (if v = ''session'' then Some SessionScope else if v = ''root'' then Some RootScope else None)"

record plugin_state =
  ps_schema_version :: "u64 option"
  ps_raw :: json

definition new_plugin_state :: "u32 \<Rightarrow> json \<Rightarrow> plugin_state" where
  "new_plugin_state schema_version payload =
     \<lparr>ps_schema_version = Some (ucast schema_version),
      ps_raw = JObject (om_insert ''payload'' payload (om_insert ''schema_version'' (json_u32 schema_version) []))\<rparr>"

definition plugin_state_from_raw :: "json \<Rightarrow> plugin_state" where
  "plugin_state_from_raw raw =
     \<lparr>ps_schema_version = (case json_get ''schema_version'' raw of None \<Rightarrow> None | Some v \<Rightarrow> as_u64 v), ps_raw = raw\<rparr>"

definition plugin_payload :: "plugin_state \<Rightarrow> json option" where
  "plugin_payload st = json_get ''payload'' (ps_raw st)"

record plugin_scopes =
  psc_scopes :: "plugin_state omap option"
  psc_malformed :: "json option"

definition default_scopes :: plugin_scopes where
  "default_scopes = \<lparr>psc_scopes = Some [], psc_malformed = None\<rparr>"

datatype session_state_error =
    StateUnsupportedSchemaVersion u64 u32
  | StateInvalidEnvelope
  | TooManyPlugins usize usize
  | InvalidPluginName str
  | InvalidPluginContainer str
  | MissingPluginState str
  | InvalidPluginState str state_scope
  | InvalidStoredScope str str
  | PluginStateTooLarge str usize usize
  | SnapshotTooLarge usize usize
  | UnsupportedPluginVersion str u64 u32
  | StateRevisionRegression u64 u64
  | StateSerialize

definition scopes_set :: "str \<Rightarrow> state_scope \<Rightarrow> u32 \<Rightarrow> json \<Rightarrow> plugin_scopes \<Rightarrow> session_state_error + plugin_scopes" where
  "scopes_set plugin scope schema_version payload ps =
     (case psc_scopes ps of
        None \<Rightarrow> Inl (InvalidPluginContainer plugin)
      | Some scopes \<Rightarrow>
          (case map_of scopes (scope_as_str scope) of
             None \<Rightarrow> Inr (ps\<lparr>psc_scopes := Some (om_insert (scope_as_str scope) (new_plugin_state schema_version payload) scopes)\<rparr>)
           | Some st \<Rightarrow>
               (case ps_raw st of
                  JObject members \<Rightarrow>
                    Inr (ps\<lparr>psc_scopes := Some (om_insert (scope_as_str scope)
                      \<lparr>ps_schema_version = Some (ucast schema_version),
                       ps_raw = JObject (om_insert ''payload'' payload (om_insert ''schema_version'' (json_u32 schema_version) members))\<rparr> scopes)\<rparr>)
                | _ \<Rightarrow> Inl (InvalidPluginState plugin scope))))"

definition scopes_json :: "plugin_scopes \<Rightarrow> json" where
  "scopes_json ps =
     (case (psc_scopes ps, psc_malformed ps) of
        (Some scopes, _) \<Rightarrow> JObject (map (\<lambda>(k, st). (k, ps_raw st)) scopes)
      | (None, Some raw) \<Rightarrow> raw
      | (None, None) \<Rightarrow> JNull)"

definition scopes_from_json :: "json \<Rightarrow> plugin_scopes" where
  "scopes_from_json raw =
     (case as_object raw of
        None \<Rightarrow> \<lparr>psc_scopes = None, psc_malformed = Some raw\<rparr>
      | Some members \<Rightarrow> \<lparr>psc_scopes = Some (om_of (map (\<lambda>(k, v). (k, plugin_state_from_raw v)) members)), psc_malformed = None\<rparr>)"

section \<open>Snapshots\<close>

record snapshot_v1 =
  sv_schema_version :: u32
  sv_state_revision :: u64
  sv_plugins :: "plugin_scopes omap"
  sv_extra :: "json omap"

datatype state_snapshot = Supported snapshot_v1 | Unsupported u64 json | Malformed json

text \<open>The derived serialization: the members, then the flattened rest; no plugins are left out.\<close>

definition snapshot_v1_json :: "snapshot_v1 \<Rightarrow> json" where
  "snapshot_v1_json v =
     JObject (om_of ((''schema_version'', json_u32 (sv_schema_version v)) # (''state_revision'', json_u64 (sv_state_revision v))
       # (if sv_plugins v = [] then [] else [(''plugins'', JObject (map (\<lambda>(k, ps). (k, scopes_json ps)) (sv_plugins v)))]) @ sv_extra v))"

fun snapshot_json :: "state_snapshot \<Rightarrow> json" where
  "snapshot_json (Supported v) = snapshot_v1_json v"
| "snapshot_json (Unsupported n raw) = raw"
| "snapshot_json (Malformed raw) = raw"

definition validate_plugin_name :: "str \<Rightarrow> session_state_error + unit" where
  "validate_plugin_name plugin =
     (if plugin \<noteq> [] \<and> length plugin \<le> MAX_PLUGIN_STATE_NAME_BYTES
         \<and> list_all (\<lambda>c. is_digit c \<or> 65 \<le> byte c \<and> byte c \<le> 90 \<or> 97 \<le> byte c \<and> byte c \<le> 122 \<or> c \<in> {CHR ''_'', CHR ''-'', CHR ''.''}) plugin
      then Inr () else Inl (InvalidPluginName plugin))"

definition validate_plugin_state_bytes :: "str \<Rightarrow> usize \<Rightarrow> session_state_error + unit" where
  "validate_plugin_state_bytes plugin bytes =
     (if MAX_PLUGIN_STATE_BYTES < bytes then Inl (PluginStateTooLarge plugin bytes MAX_PLUGIN_STATE_BYTES) else Inr ())"

definition validate_plugin_state_size :: "(json \<Rightarrow> usize) \<Rightarrow> str \<Rightarrow> json \<Rightarrow> session_state_error + unit" where
  "validate_plugin_state_size len plugin v = validate_plugin_state_bytes plugin (len v)"

definition opaque_fields :: "plugin_state \<Rightarrow> json omap \<Rightarrow> json omap" where
  "opaque_fields st members =
     filter (\<lambda>(name, v). name \<noteq> ''payload'' \<and> (name \<noteq> ''schema_version'' \<or> ps_schema_version st = None)) members"

definition stored_plugin_state_bytes :: "(json \<Rightarrow> usize) \<Rightarrow> plugin_state \<Rightarrow> usize" where
  "stored_plugin_state_bytes len st =
     (case as_object (ps_raw st) of
        None \<Rightarrow> len (ps_raw st)
      | Some members \<Rightarrow>
          (case map_of members ''payload'' of
             None \<Rightarrow> len (ps_raw st)
           | Some payload \<Rightarrow>
               let opaque = opaque_fields st members
               in len payload + (if opaque = [] then 0 else len (JObject opaque))))"

definition validate_stored_plugin_state_size :: "(json \<Rightarrow> usize) \<Rightarrow> str \<Rightarrow> plugin_state \<Rightarrow> session_state_error + unit" where
  "validate_stored_plugin_state_size len plugin st = validate_plugin_state_bytes plugin (stored_plugin_state_bytes len st)"

fun check_all :: "('a \<Rightarrow> 'e + unit) \<Rightarrow> 'a list \<Rightarrow> 'e + unit" where
  "check_all f [] = Inr ()"
| "check_all f (x # xs) = bindR (f x) (\<lambda>_. check_all f xs)"

definition validate_scopes :: "(json \<Rightarrow> usize) \<Rightarrow> str \<times> plugin_scopes \<Rightarrow> session_state_error + unit" where
  "validate_scopes len kv =
     bindR (validate_plugin_name (fst kv)) (\<lambda>_.
     (case psc_scopes (snd kv) of
        None \<Rightarrow>
          (case psc_malformed (snd kv) of
             None \<Rightarrow> Inl (InvalidPluginContainer (fst kv))
           | Some raw \<Rightarrow> validate_plugin_state_size len (fst kv) raw)
      | Some scopes \<Rightarrow> check_all (\<lambda>st. validate_stored_plugin_state_size len (fst kv) (snd st)) scopes))"

definition scope_count :: "plugin_scopes \<Rightarrow> usize" where
  "scope_count ps = (case psc_scopes ps of Some scopes \<Rightarrow> length scopes | None \<Rightarrow> 1)"

definition entry_count :: "snapshot_v1 \<Rightarrow> usize" where
  "entry_count v = sum_list (map (\<lambda>kv. scope_count (snd kv)) (sv_plugins v))"

definition validate_supported_snapshot :: "(json \<Rightarrow> usize) \<Rightarrow> snapshot_v1 \<Rightarrow> session_state_error + unit" where
  "validate_supported_snapshot len v =
     (if MAX_PLUGIN_STATE_ENTRIES < entry_count v then Inl (TooManyPlugins (entry_count v) MAX_PLUGIN_STATE_ENTRIES)
      else bindR (check_all (validate_scopes len) (sv_plugins v)) (\<lambda>_.
           if MAX_SESSION_STATE_BYTES < len (snapshot_v1_json v)
           then Inl (SnapshotTooLarge (len (snapshot_v1_json v)) MAX_SESSION_STATE_BYTES) else Inr ()))"

fun unsupported_schema_error :: "state_snapshot \<Rightarrow> session_state_error" where
  "unsupported_schema_error (Supported v) = StateUnsupportedSchemaVersion (ucast (sv_schema_version v)) SESSION_STATE_SCHEMA_VERSION"
| "unsupported_schema_error (Unsupported n raw) = StateUnsupportedSchemaVersion n SESSION_STATE_SCHEMA_VERSION"
| "unsupported_schema_error (Malformed raw) = StateInvalidEnvelope"

definition new_snapshot :: "u64 \<Rightarrow> state_snapshot" where
  "new_snapshot state_revision =
     Supported \<lparr>sv_schema_version = SESSION_STATE_SCHEMA_VERSION, sv_state_revision = state_revision, sv_plugins = [], sv_extra = []\<rparr>"

fun state_revision :: "state_snapshot \<Rightarrow> u64 option" where
  "state_revision (Supported v) = Some (sv_state_revision v)"
| "state_revision _ = None"

fun set_state_revision :: "(json \<Rightarrow> usize) \<Rightarrow> u64 \<Rightarrow> state_snapshot \<Rightarrow> session_state_error + state_snapshot" where
  "set_state_revision len revision (Supported v) =
     (if revision < sv_state_revision v then Inl (StateRevisionRegression (sv_state_revision v) revision)
      else let candidate = v\<lparr>sv_state_revision := revision\<rparr>
           in if len (snapshot_v1_json candidate) \<le> len (snapshot_v1_json v) then Inr (Supported candidate)
              else bindR (validate_supported_snapshot len candidate) (\<lambda>_. Inr (Supported candidate)))"
| "set_state_revision len revision s = Inl (unsupported_schema_error s)"

fun set_plugin_state :: "(json \<Rightarrow> usize) \<Rightarrow> str \<Rightarrow> u32 \<Rightarrow> state_scope \<Rightarrow> json \<Rightarrow> state_snapshot \<Rightarrow> session_state_error + state_snapshot" where
  "set_plugin_state len plugin schema_version scope payload (Supported v) =
     bindR (validate_plugin_name plugin) (\<lambda>_.
     bindR (scopes_set plugin scope schema_version payload
              (case map_of (sv_plugins v) plugin of None \<Rightarrow> default_scopes | Some ps \<Rightarrow> ps)) (\<lambda>ps.
     let candidate = v\<lparr>sv_plugins := om_insert plugin ps (sv_plugins v)\<rparr>
     in bindR (validate_supported_snapshot len candidate) (\<lambda>_. Inr (Supported candidate))))"
| "set_plugin_state len plugin schema_version scope payload s = Inl (unsupported_schema_error s)"

fun remove_plugin_state :: "(json \<Rightarrow> usize) \<Rightarrow> str \<Rightarrow> state_scope \<Rightarrow> state_snapshot \<Rightarrow> session_state_error + state_snapshot" where
  "remove_plugin_state len plugin scope (Supported v) =
     bindR (validate_plugin_name plugin) (\<lambda>_.
       bindR (case map_of (sv_plugins v) plugin of
                None \<Rightarrow> Inr v
              | Some ps \<Rightarrow>
                  (case psc_scopes ps of
                     None \<Rightarrow> Inl (InvalidPluginContainer plugin)
                   | Some scopes \<Rightarrow>
                       let scopes' = om_remove (scope_as_str scope) scopes
                       in Inr (v\<lparr>sv_plugins := (if scopes' = [] then om_remove plugin (sv_plugins v)
                                               else om_insert plugin (ps\<lparr>psc_scopes := Some scopes'\<rparr>) (sv_plugins v))\<rparr>))) (\<lambda>candidate.
       bindR (validate_supported_snapshot len candidate) (\<lambda>_. Inr (Supported candidate))))"
| "remove_plugin_state len plugin scope s = Inl (unsupported_schema_error s)"

fun plugin_names_with_scope :: "state_scope \<Rightarrow> state_snapshot \<Rightarrow> session_state_error + str list" where
  "plugin_names_with_scope scope (Supported v) =
     Inr (map fst (filter (\<lambda>(plugin, ps). case psc_scopes ps of None \<Rightarrow> False | Some scopes \<Rightarrow> map_of scopes (scope_as_str scope) \<noteq> None)
       (sv_plugins v)))"
| "plugin_names_with_scope scope s = Inl (unsupported_schema_error s)"

record plugin_state_entry =
  pe_plugin :: str
  pe_scope :: state_scope
  pe_payload :: json

definition entry_for_apply :: "u32 \<Rightarrow> str \<Rightarrow> str \<times> plugin_state \<Rightarrow> plugin_state_entry option" where
  "entry_for_apply schema_version plugin kst =
     (case (scope_from_stored (fst kst), ps_schema_version (snd kst), plugin_payload (snd kst)) of
        (Some scope, Some found, Some payload) \<Rightarrow>
          if found = ucast schema_version then Some \<lparr>pe_plugin = plugin, pe_scope = scope, pe_payload = payload\<rparr> else None
      | _ \<Rightarrow> None)"

fun plugin_entries_for_apply :: "u32 \<Rightarrow> state_snapshot \<Rightarrow> session_state_error + plugin_state_entry list" where
  "plugin_entries_for_apply schema_version (Supported v) =
     Inr (concat (map (\<lambda>(plugin, ps). case psc_scopes ps of None \<Rightarrow> [] | Some scopes \<Rightarrow> List.map_filter (entry_for_apply schema_version plugin) scopes)
       (sv_plugins v)))"
| "plugin_entries_for_apply schema_version s = Inl (unsupported_schema_error s)"

fun validate_for_apply :: "(json \<Rightarrow> usize) \<Rightarrow> state_snapshot \<Rightarrow> session_state_error + unit" where
  "validate_for_apply len (Supported v) = validate_supported_snapshot len v"
| "validate_for_apply len s = Inl (unsupported_schema_error s)"

fun plugin_payload_for_apply ::
  "(json \<Rightarrow> usize) \<Rightarrow> str \<Rightarrow> u32 \<Rightarrow> state_scope \<Rightarrow> state_snapshot \<Rightarrow> session_state_error + json option" where
  "plugin_payload_for_apply len plugin schema_version scope (Supported v) =
     bindR (validate_plugin_name plugin) (\<lambda>_.
     (case map_of (sv_plugins v) plugin of
        None \<Rightarrow> Inr None
      | Some ps \<Rightarrow>
          (case psc_scopes ps of
             None \<Rightarrow> Inl (InvalidPluginContainer plugin)
           | Some scopes \<Rightarrow>
               (case map_of scopes (scope_as_str scope) of
                  None \<Rightarrow> Inr None
                | Some st \<Rightarrow>
                    bindR (validate_stored_plugin_state_size len plugin st) (\<lambda>_.
                    (case (ps_schema_version st, plugin_payload st) of
                       (Some found, Some payload) \<Rightarrow>
                         if found \<noteq> ucast schema_version then Inl (UnsupportedPluginVersion plugin found schema_version)
                         else Inr (Some payload)
                     | _ \<Rightarrow> Inl (InvalidPluginState plugin scope)))))))"
| "plugin_payload_for_apply len plugin schema_version scope s = Inl (unsupported_schema_error s)"

section \<open>Reading a snapshot back\<close>

text \<open>
  The failures of the deserializers: no numeric schema version, a violated bound, and what the derived
  deserializer of the fields rejects.
\<close>

datatype state_decode_error = RequiresSchemaVersion | DecodedState session_state_error | DecodedFields

fun json_schema_version :: "json \<Rightarrow> u64 option" where
  "json_schema_version raw = (case json_get ''schema_version'' raw of None \<Rightarrow> None | Some v \<Rightarrow> as_u64 v)"

definition as_u32 :: "json \<Rightarrow> u32 option" where
  "as_u32 v = (case as_u64 v of None \<Rightarrow> None | Some n \<Rightarrow> if n < 2 ^ 32 then Some (ucast n) else None)"

definition plugins_from_json :: "json option \<Rightarrow> plugin_scopes omap option" where
  "plugins_from_json v =
     (case v of
        None \<Rightarrow> Some []
      | Some v \<Rightarrow> map_option (\<lambda>members. om_of (map (\<lambda>(k, v). (k, scopes_from_json v)) members)) (as_object v))"

text \<open>The derived deserializer of \<open>StoredSessionStateSnapshotV1\<close>: what is not a field goes to \<open>extra\<close>.\<close>

definition snapshot_v1_from_json :: "json \<Rightarrow> snapshot_v1 option" where
  "snapshot_v1_from_json raw =
     (case as_object raw of
        None \<Rightarrow> None
      | Some members \<Rightarrow>
          (case (Option.bind (map_of members ''schema_version'') as_u32, Option.bind (map_of members ''state_revision'') as_u64,
                 plugins_from_json (map_of members ''plugins'')) of
             (Some schema_version, Some revision, Some plugins) \<Rightarrow>
               Some \<lparr>sv_schema_version = schema_version, sv_state_revision = revision, sv_plugins = plugins,
                     sv_extra = om_of (filter (\<lambda>(k, v). k \<notin> {''schema_version'', ''state_revision'', ''plugins''}) members)\<rparr>
           | _ \<Rightarrow> None))"

definition deserialize_snapshot :: "(json \<Rightarrow> usize) \<Rightarrow> json \<Rightarrow> state_decode_error + state_snapshot" where
  "deserialize_snapshot len raw =
     (case json_schema_version raw of
        None \<Rightarrow> Inl RequiresSchemaVersion
      | Some schema_version \<Rightarrow>
          if MAX_SESSION_STATE_BYTES < len raw then Inl (DecodedState (SnapshotTooLarge (len raw) MAX_SESSION_STATE_BYTES))
          else if schema_version \<noteq> ucast SESSION_STATE_SCHEMA_VERSION then Inr (Unsupported schema_version raw)
          else (case snapshot_v1_from_json raw of
                  None \<Rightarrow> Inl DecodedFields
                | Some v \<Rightarrow>
                    (case validate_supported_snapshot len v of
                       Inl e \<Rightarrow> Inl (DecodedState e)
                     | Inr _ \<Rightarrow> Inr (Supported v))))"

definition deserialize_state_snapshot_option :: "(json \<Rightarrow> usize) \<Rightarrow> json \<Rightarrow> session_state_error + state_snapshot option" where
  "deserialize_state_snapshot_option len raw =
     (if raw = JNull then Inr None
      else if MAX_SESSION_STATE_BYTES < len raw then Inl (SnapshotTooLarge (len raw) MAX_SESSION_STATE_BYTES)
      else (case deserialize_snapshot len raw of
              Inr decoded \<Rightarrow> Inr (Some decoded)
            | Inl _ \<Rightarrow> Inr (Some (Malformed raw))))"

section \<open>Well-formed snapshots\<close>

text \<open>
  What serde keeps of a snapshot: maps have sorted keys, a stored state agrees with the version its text
  carries, a container is either a map of scopes or the value that is not one, and the fields are not among the
  flattened rest.
\<close>

definition state_wf :: "plugin_state \<Rightarrow> bool" where
  "state_wf st \<longleftrightarrow> plugin_state_from_raw (ps_raw st) = st"

definition scopes_wf :: "plugin_scopes \<Rightarrow> bool" where
  "scopes_wf ps \<longleftrightarrow>
     (case (psc_scopes ps, psc_malformed ps) of
        (Some scopes, None) \<Rightarrow> om_ok scopes \<and> (\<forall>kv \<in> set scopes. state_wf (snd kv))
      | (None, Some raw) \<Rightarrow> as_object raw = None
      | _ \<Rightarrow> False)"

definition snapshot_v1_wf :: "snapshot_v1 \<Rightarrow> bool" where
  "snapshot_v1_wf v \<longleftrightarrow>
     sv_schema_version v = SESSION_STATE_SCHEMA_VERSION \<and> om_ok (sv_plugins v) \<and> om_ok (sv_extra v)
     \<and> (\<forall>kv \<in> set (sv_plugins v). scopes_wf (snd kv))
     \<and> (\<forall>k \<in> {''schema_version'', ''state_revision'', ''plugins''}. map_of (sv_extra v) k = None)"

lemma plugin_state_from_raw_wf [simp]: "state_wf (plugin_state_from_raw raw)"
  by (simp add: state_wf_def plugin_state_from_raw_def)

lemma scopes_from_json_wf [simp]: "scopes_wf (scopes_from_json raw)"
  by (cases "as_object raw")
    (auto simp: scopes_from_json_def scopes_wf_def om_of_is_ok dest!: om_of_set)

lemma scopes_json_round:
  assumes "scopes_wf ps"
  shows "scopes_from_json (scopes_json ps) = ps"
proof (cases "psc_scopes ps")
  case None
  then show ?thesis using assms by (auto simp: scopes_wf_def scopes_json_def scopes_from_json_def split: option.splits)
next
  case (Some scopes)
  have "map (\<lambda>(k, v). (k, plugin_state_from_raw v)) (map (\<lambda>(k, st). (k, ps_raw st)) scopes) = scopes"
    using assms Some by (auto simp: scopes_wf_def state_wf_def intro!: map_idI split: option.splits)
  then show ?thesis
    using assms Some by (auto simp: scopes_wf_def scopes_json_def scopes_from_json_def om_of_ok simp del: map_map split: option.splits)
qed

lemma as_u32_json [simp]: "as_u32 (json_u32 w) = Some w"
proof -
  have "unat w < 2 ^ 32" using unsigned_less [of w] by simp
  then have "(ucast w :: u64) < 2 ^ 32" by (simp add: word_less_nat_alt unsigned_ucast_eq take_bit_nat_eq_self)
  then show ?thesis by (simp add: as_u32_def ucast_up_ucast_id is_up)
qed

lemma extra_rev_lookup: "om_ok m \<Longrightarrow> map_of (rev m) = map_of m"
  using om_of_lookup [of m] om_of_ok [of m] by simp

lemma snapshot_v1_json_schema:
  "snapshot_v1_wf v \<Longrightarrow> json_schema_version (snapshot_v1_json v) = Some (ucast (sv_schema_version v))"
  by (simp add: snapshot_v1_json_def om_of_lookup snapshot_v1_wf_def map_add_def extra_rev_lookup)

lemma snapshot_v1_json_round:
  assumes "snapshot_v1_wf v"
  shows "snapshot_v1_from_json (snapshot_v1_json v) = Some v"
proof -
  define plugs where "plugs = JObject (map (\<lambda>(k, ps). (k, scopes_json ps)) (sv_plugins v))"
  define kvs where "kvs = (''schema_version'', json_u32 (sv_schema_version v)) # (''state_revision'', json_u64 (sv_state_revision v))
       # (if sv_plugins v = [] then [] else [(''plugins'', plugs)]) @ sv_extra v"
  have json: "snapshot_v1_json v = JObject (om_of kvs)" by (simp add: snapshot_v1_json_def kvs_def plugs_def)
  have ok: "om_ok (sv_extra v)" "om_ok (sv_plugins v)"
    and out: "map_of (sv_extra v) ''schema_version'' = None" "map_of (sv_extra v) ''state_revision'' = None" "map_of (sv_extra v) ''plugins'' = None"
    using assms by (auto simp: snapshot_v1_wf_def)
  note rev = extra_rev_lookup [OF ok(1)]
  have look: "map_of (om_of kvs) ''schema_version'' = Some (json_u32 (sv_schema_version v))"
    "map_of (om_of kvs) ''state_revision'' = Some (json_u64 (sv_state_revision v))"
    "map_of (om_of kvs) ''plugins'' = (if sv_plugins v = [] then None else Some plugs)"
    using out by (simp_all add: om_of_lookup kvs_def map_add_def rev)
  have "map (\<lambda>(k, v). (k, scopes_from_json v)) (map (\<lambda>(k, ps). (k, scopes_json ps)) (sv_plugins v)) = sv_plugins v"
    using assms by (auto simp: snapshot_v1_wf_def scopes_json_round intro!: map_idI)
  then have plugins: "plugins_from_json (if sv_plugins v = [] then None else Some plugs) = Some (sv_plugins v)"
    using ok by (simp add: plugins_from_json_def plugs_def om_of_ok del: map_map)
  have "filter (\<lambda>(k, v). k \<notin> {''schema_version'', ''state_revision'', ''plugins''}) (om_of kvs) = sv_extra v" (is "filter ?P _ = _")
  proof (rule om_ext)
    show "map_of (filter ?P (om_of kvs)) = map_of (sv_extra v)"
      using out by (auto simp: fun_eq_iff om_filter_lookup om_of_lookup kvs_def map_add_def rev split: option.split)
  qed (use ok in \<open>auto simp: om_filter_ok om_of_is_ok\<close>)
  then show ?thesis
    using look plugins ok by (simp add: snapshot_v1_from_json_def json om_of_ok)
qed

section \<open>What the operations keep\<close>

definition snapshot_inv :: "(json \<Rightarrow> usize) \<Rightarrow> state_snapshot \<Rightarrow> bool" where
  "snapshot_inv len s \<longleftrightarrow>
     (case s of
        Supported v \<Rightarrow> snapshot_v1_wf v \<and> validate_supported_snapshot len v = Inr ()
      | Unsupported n raw \<Rightarrow> deserialize_state_snapshot_option len raw = Inr (Some s)
      | Malformed raw \<Rightarrow> deserialize_state_snapshot_option len raw = Inr (Some s))"

lemma as_u32_unique: "as_u32 j = Some w \<Longrightarrow> as_u64 j = Some (ucast SESSION_STATE_SCHEMA_VERSION) \<Longrightarrow> w = SESSION_STATE_SCHEMA_VERSION"
  by (simp add: as_u32_def SESSION_STATE_SCHEMA_VERSION_def split: if_splits)

lemma plugins_from_json_wf:
  "plugins_from_json j = Some plugins \<Longrightarrow> om_ok plugins \<and> (\<forall>kv \<in> set plugins. scopes_wf (snd kv))"
  by (auto simp: plugins_from_json_def om_of_is_ok split: option.splits dest!: om_of_set)

lemma om_of_filter_lookup: "map_of (om_of (filter (\<lambda>(k, v). P k) members)) k = (if P k then map_of (om_of members) k else None)"
  by (simp add: om_of_lookup rev_filter om_filter_lookup)

lemma snapshot_v1_from_json_wf:
  assumes "snapshot_v1_from_json raw = Some v" and "json_schema_version raw = Some (ucast SESSION_STATE_SCHEMA_VERSION)"
  shows "snapshot_v1_wf v"
proof -
  obtain members where raw: "raw = JObject members"
    using assms(1) by (cases raw) (auto simp: snapshot_v1_from_json_def)
  obtain schema revision plugins where parts: "Option.bind (map_of members ''schema_version'') as_u32 = Some schema"
      "plugins_from_json (map_of members ''plugins'') = Some plugins"
    and v: "v = \<lparr>sv_schema_version = schema, sv_state_revision = revision, sv_plugins = plugins,
                sv_extra = om_of (filter (\<lambda>(k, v). k \<notin> {''schema_version'', ''state_revision'', ''plugins''}) members)\<rparr>"
    using assms(1) by (auto simp: raw snapshot_v1_from_json_def split: option.splits)
  have "schema = SESSION_STATE_SCHEMA_VERSION"
    using parts(1) assms(2) by (auto simp: raw intro: as_u32_unique split: option.splits)
  then show ?thesis
    using plugins_from_json_wf [OF parts(2)] by (simp add: snapshot_v1_wf_def v om_of_is_ok om_of_filter_lookup)
qed

lemma deserialize_snapshot_supported:
  "deserialize_snapshot len raw = Inr (Supported v) \<Longrightarrow> snapshot_v1_wf v \<and> validate_supported_snapshot len v = Inr ()"
  by (auto simp: deserialize_snapshot_def simp del: json_schema_version.simps
      intro: snapshot_v1_from_json_wf split: option.splits if_splits sum.splits)

lemma deserialize_snapshot_other:
  "deserialize_snapshot len raw = Inr s \<Longrightarrow> (\<exists>v. s = Supported v) \<or> (\<exists>n. s = Unsupported n raw)"
  by (auto simp: deserialize_snapshot_def split: option.splits if_splits sum.splits)

lemma deserialize_option_inv:
  assumes "deserialize_state_snapshot_option len raw = Inr (Some s)"
  shows "snapshot_inv len s"
proof (cases "deserialize_snapshot len raw")
  case (Inl e)
  then show ?thesis using assms by (auto simp: deserialize_state_snapshot_option_def snapshot_inv_def split: if_splits)
next
  case (Inr s')
  then have "s = s'" using assms by (simp add: deserialize_state_snapshot_option_def split: if_splits)
  then show ?thesis
    using assms Inr deserialize_snapshot_other [OF Inr] deserialize_snapshot_supported
    by (auto simp: snapshot_inv_def)
qed

lemma set_state_wf [simp]:
  "state_wf \<lparr>ps_schema_version = Some (ucast schema_version),
      ps_raw = JObject (om_insert ''payload'' payload (om_insert ''schema_version'' (json_u32 schema_version) members))\<rparr>"
  by (simp add: state_wf_def plugin_state_from_raw_def)

lemma new_plugin_state_wf [simp]: "state_wf (new_plugin_state schema_version payload)"
  by (simp add: state_wf_def plugin_state_from_raw_def new_plugin_state_def)

lemma scopes_set_wf: "scopes_set plugin scope schema_version payload ps = Inr ps' \<Longrightarrow> scopes_wf ps \<Longrightarrow> scopes_wf ps'"
  by (auto simp: scopes_set_def scopes_wf_def om_insert_ok split: option.splits json.splits dest!: om_insert_set) fastforce+

lemma default_scopes_wf [simp]: "scopes_wf default_scopes"
  by (simp add: default_scopes_def scopes_wf_def)

lemma set_plugin_state_inv:
  assumes "set_plugin_state len plugin schema_version scope payload s = Inr s'" and "snapshot_inv len s"
  shows "snapshot_inv len s'"
proof (cases s)
  case (Supported v)
  then obtain ps where ps: "scopes_set plugin scope schema_version payload
      (case map_of (sv_plugins v) plugin of None \<Rightarrow> default_scopes | Some ps \<Rightarrow> ps) = Inr ps"
    and s': "s' = Supported (v\<lparr>sv_plugins := om_insert plugin ps (sv_plugins v)\<rparr>)"
    and valid: "validate_supported_snapshot len (v\<lparr>sv_plugins := om_insert plugin ps (sv_plugins v)\<rparr>) = Inr ()"
    using assms(1) by (auto simp: result_simps Let_def)
  have "scopes_wf (case map_of (sv_plugins v) plugin of None \<Rightarrow> default_scopes | Some ps \<Rightarrow> ps)"
    using assms(2) Supported by (auto simp: snapshot_inv_def snapshot_v1_wf_def split: option.split dest!: map_of_SomeD)
  from scopes_set_wf [OF ps this] show ?thesis
    using assms(2) Supported s' valid
    by (auto simp: snapshot_inv_def snapshot_v1_wf_def om_insert_ok dest!: om_insert_set)
qed (use assms in auto)

lemma scopes_wf_remove: "scopes_wf ps \<Longrightarrow> psc_scopes ps = Some scopes \<Longrightarrow> scopes_wf (ps\<lparr>psc_scopes := Some (om_remove k scopes)\<rparr>)"
  using om_remove_ok om_remove_all [of scopes state_wf k] by (auto simp: scopes_wf_def split: option.splits)

lemma remove_plugin_state_inv:
  assumes "remove_plugin_state len plugin scope s = Inr s'" and "snapshot_inv len s"
  shows "snapshot_inv len s'"
proof (cases s)
  case (Supported v)
  then have wf: "snapshot_v1_wf v" using assms(2) by (simp add: snapshot_inv_def)
  from Supported assms(1) obtain v' where s': "s' = Supported v'" and valid: "validate_supported_snapshot len v' = Inr ()"
    and v': "v' = v \<or> (\<exists>ps scopes. map_of (sv_plugins v) plugin = Some ps \<and> psc_scopes ps = Some scopes
      \<and> v' = v\<lparr>sv_plugins := (if om_remove (scope_as_str scope) scopes = [] then om_remove plugin (sv_plugins v)
                else om_insert plugin (ps\<lparr>psc_scopes := Some (om_remove (scope_as_str scope) scopes)\<rparr>) (sv_plugins v))\<rparr>)"
    by (auto simp: result_simps Let_def split: option.splits)
  have "snapshot_v1_wf v'"
    using v'
  proof (elim disjE exE conjE)
    fix ps scopes
    assume found: "map_of (sv_plugins v) plugin = Some ps" "psc_scopes ps = Some scopes"
    then have "scopes_wf ps" using wf by (auto simp: snapshot_v1_wf_def dest!: map_of_SomeD)
    from scopes_wf_remove [OF this found(2)] have kept: "scopes_wf (ps\<lparr>psc_scopes := Some (om_remove (scope_as_str scope) scopes)\<rparr>)" .
    assume "v' = v\<lparr>sv_plugins := (if om_remove (scope_as_str scope) scopes = [] then om_remove plugin (sv_plugins v)
                else om_insert plugin (ps\<lparr>psc_scopes := Some (om_remove (scope_as_str scope) scopes)\<rparr>) (sv_plugins v))\<rparr>"
    then show ?thesis
      using wf om_insert_all [where P = scopes_wf, OF _ kept, where m = "sv_plugins v" and k = plugin] om_remove_all [where m = "sv_plugins v" and P = scopes_wf and k = plugin]
      by (simp add: snapshot_v1_wf_def om_insert_ok om_remove_ok)
  qed (use wf in simp)
  then show ?thesis using s' valid by (simp add: snapshot_inv_def)
qed (use assms in auto)

text \<open>
  Advancing the revision skips the validation when the text does not grow: the plugins are the same, and the
  text was within its bound.
\<close>

lemma validate_revision_shrinks:
  assumes "validate_supported_snapshot len v = Inr ()" and "len (snapshot_v1_json (v\<lparr>sv_state_revision := revision\<rparr>)) \<le> len (snapshot_v1_json v)"
  shows "validate_supported_snapshot len (v\<lparr>sv_state_revision := revision\<rparr>) = Inr ()"
  using assms by (auto simp: validate_supported_snapshot_def entry_count_def result_simps split: if_splits)

lemma set_state_revision_inv:
  assumes "set_state_revision len revision s = Inr s'" and "snapshot_inv len s"
  shows "snapshot_inv len s'"
proof (cases s)
  case (Supported v)
  with assms have "s' = Supported (v\<lparr>sv_state_revision := revision\<rparr>)"
    "validate_supported_snapshot len (v\<lparr>sv_state_revision := revision\<rparr>) = Inr ()"
    by (auto simp: snapshot_inv_def Let_def result_simps validate_revision_shrinks split: if_splits)
  then show ?thesis using assms(2) Supported by (simp add: snapshot_inv_def snapshot_v1_wf_def)
qed (use assms in auto)

section \<open>Snapshots in use\<close>

inductive snapshot_step :: "(json \<Rightarrow> usize) \<Rightarrow> state_snapshot \<Rightarrow> state_snapshot \<Rightarrow> bool" for len where
  Step_revision: "set_state_revision len revision s = Inr t \<Longrightarrow> snapshot_step len s t"
| Step_set: "set_plugin_state len plugin schema_version scope payload s = Inr t \<Longrightarrow> snapshot_step len s t"
| Step_remove: "remove_plugin_state len plugin scope s = Inr t \<Longrightarrow> snapshot_step len s t"

inductive_cases snapshot_stepE: "snapshot_step len s t"

definition initial_snapshot :: "(json \<Rightarrow> usize) \<Rightarrow> state_snapshot \<Rightarrow> bool" where
  "initial_snapshot len s \<longleftrightarrow>
     (\<exists>revision. s = new_snapshot revision) \<or> (\<exists>raw. deserialize_state_snapshot_option len raw = Inr (Some s))"

text \<open>What the operations rely on of \<open>serde_json\<close>: the text of an empty snapshot is within the bound.\<close>

definition small_envelopes :: "(json \<Rightarrow> usize) \<Rightarrow> bool" where
  "small_envelopes len \<longleftrightarrow> (\<forall>revision. len (snapshot_json (new_snapshot revision)) \<le> MAX_SESSION_STATE_BYTES)"

lemma new_snapshot_inv: "small_envelopes len \<Longrightarrow> snapshot_inv len (new_snapshot revision)"
  by (simp add: small_envelopes_def snapshot_inv_def new_snapshot_def snapshot_v1_wf_def validate_supported_snapshot_def
      entry_count_def not_less)

interpretation snap: invariant_system "initial_snapshot len" "snapshot_step len" "\<lambda>s. small_envelopes len \<longrightarrow> snapshot_inv len s" for len
proof unfold_locales
  show "small_envelopes len \<longrightarrow> snapshot_inv len s" if "initial_snapshot len s" for s
    using that by (auto simp: initial_snapshot_def new_snapshot_inv deserialize_option_inv)
  show "small_envelopes len \<longrightarrow> snapshot_inv len t" if "snapshot_step len s t" "small_envelopes len \<longrightarrow> snapshot_inv len s" for s t
    using that by (auto elim!: snapshot_stepE intro: set_state_revision_inv set_plugin_state_inv remove_plugin_state_inv)
qed

lemma snapshot_json_round:
  assumes "snapshot_inv len s"
  shows "deserialize_state_snapshot_option len (snapshot_json s) = Inr (Some s)"
proof (cases s)
  case (Supported v)
  then have wf: "snapshot_v1_wf v" and valid: "validate_supported_snapshot len v = Inr ()"
    using assms by (auto simp: snapshot_inv_def)
  have "json_schema_version (snapshot_v1_json v) = Some (ucast (sv_schema_version v))"
    by (rule snapshot_v1_json_schema [OF wf])
  moreover have "len (snapshot_v1_json v) \<le> MAX_SESSION_STATE_BYTES"
    using valid by (auto simp: validate_supported_snapshot_def result_simps split: if_splits)
  moreover have "snapshot_v1_json v \<noteq> JNull" by (simp add: snapshot_v1_json_def)
  ultimately show ?thesis
    using Supported valid wf snapshot_v1_json_round [OF wf]
    by (simp add: deserialize_state_snapshot_option_def deserialize_snapshot_def snapshot_v1_wf_def del: json_schema_version.simps)
qed (use assms in \<open>auto simp: snapshot_inv_def\<close>)

text \<open>Reading a scope after it is set, and the other scopes.\<close>

lemma scope_as_str_inj [simp]: "scope_as_str a = scope_as_str b \<longleftrightarrow> a = b"
  by (cases a; cases b) auto

lemma check_all_iff: "check_all f xs = Inr () \<longleftrightarrow> (\<forall>x \<in> set xs. f x = Inr ())"
  by (induction f xs rule: check_all.induct) (auto simp: result_simps)

lemma validate_supported_iff:
  "validate_supported_snapshot len v = Inr () \<longleftrightarrow>
     entry_count v \<le> MAX_PLUGIN_STATE_ENTRIES \<and> len (snapshot_v1_json v) \<le> MAX_SESSION_STATE_BYTES
     \<and> (\<forall>kv \<in> set (sv_plugins v). validate_scopes len kv = Inr ())"
  by (auto simp: validate_supported_snapshot_def result_simps check_all_iff not_less)

lemma validate_scopes_state:
  assumes "validate_supported_snapshot len v = Inr ()" and "(plugin, ps) \<in> set (sv_plugins v)"
    and "psc_scopes ps = Some scopes" and "(k, st) \<in> set scopes"
  shows "validate_stored_plugin_state_size len plugin st = Inr ()"
  using assms by (force simp: validate_supported_iff validate_scopes_def result_simps check_all_iff)

lemma validate_scopes_name:
  assumes "validate_supported_snapshot len v = Inr ()" and "(plugin, ps) \<in> set (sv_plugins v)"
  shows "validate_plugin_name plugin = Inr ()"
  using assms by (force simp: validate_supported_iff validate_scopes_def result_simps)

lemma scopes_set_result:
  assumes "scopes_set plugin scope schema_version payload ps = Inr ps'"
  shows "\<exists>scopes st. psc_scopes ps = Some scopes \<and> psc_scopes ps' = Some (om_insert (scope_as_str scope) st scopes)
    \<and> ps_schema_version st = Some (ucast schema_version) \<and> plugin_payload st = Some payload"
  using assms by (auto simp: scopes_set_def new_plugin_state_def plugin_payload_def split: option.splits json.splits)

lemma set_plugin_state_result:
  assumes "set_plugin_state len plugin schema_version scope payload s = Inr t"
  shows "\<exists>v ps scopes ps' st. s = Supported v \<and> t = Supported (v\<lparr>sv_plugins := om_insert plugin ps' (sv_plugins v)\<rparr>)
    \<and> validate_supported_snapshot len (v\<lparr>sv_plugins := om_insert plugin ps' (sv_plugins v)\<rparr>) = Inr ()
    \<and> validate_plugin_name plugin = Inr ()
    \<and> ps = (case map_of (sv_plugins v) plugin of None \<Rightarrow> default_scopes | Some ps \<Rightarrow> ps)
    \<and> psc_scopes ps = Some scopes \<and> psc_scopes ps' = Some (om_insert (scope_as_str scope) st scopes)
    \<and> ps_schema_version st = Some (ucast schema_version) \<and> plugin_payload st = Some payload"
proof (cases s)
  case (Supported v)
  then obtain ps' where "scopes_set plugin scope schema_version payload
      (case map_of (sv_plugins v) plugin of None \<Rightarrow> default_scopes | Some ps \<Rightarrow> ps) = Inr ps'"
    "t = Supported (v\<lparr>sv_plugins := om_insert plugin ps' (sv_plugins v)\<rparr>)"
    "validate_supported_snapshot len (v\<lparr>sv_plugins := om_insert plugin ps' (sv_plugins v)\<rparr>) = Inr ()"
    "validate_plugin_name plugin = Inr ()"
    using assms by (auto simp: result_simps Let_def)
  with scopes_set_result [of plugin scope schema_version payload _ ps'] Supported show ?thesis by simp metis
qed (use assms in auto)

lemma om_insert_mem: "(k, v) \<in> set (om_insert k v m)"
  by (induction k v m rule: om_insert.induct) auto

lemma payload_after_set:
  assumes "set_plugin_state len plugin schema_version scope payload s = Inr t"
  shows "plugin_payload_for_apply len plugin schema_version scope t = Inr (Some payload)"
proof -
  from set_plugin_state_result [OF assms] obtain v scopes ps' st where
    t: "t = Supported (v\<lparr>sv_plugins := om_insert plugin ps' (sv_plugins v)\<rparr>)"
    and valid: "validate_supported_snapshot len (v\<lparr>sv_plugins := om_insert plugin ps' (sv_plugins v)\<rparr>) = Inr ()"
    and rest: "validate_plugin_name plugin = Inr ()" "psc_scopes ps' = Some (om_insert (scope_as_str scope) st scopes)"
      "ps_schema_version st = Some (ucast schema_version)" "plugin_payload st = Some payload"
    by blast
  have "validate_stored_plugin_state_size len plugin st = Inr ()"
    by (rule validate_scopes_state [OF valid _ rest(2) om_insert_mem]) (simp add: om_insert_mem)
  then show ?thesis using t rest by simp
qed

lemma payload_elsewhere_after_set:
  assumes "set_plugin_state len plugin schema_version scope payload s = Inr t" and "(plugin', scope') \<noteq> (plugin, scope)"
  shows "plugin_payload_for_apply len plugin' version' scope' t = plugin_payload_for_apply len plugin' version' scope' s"
proof -
  from set_plugin_state_result [OF assms(1)] obtain v ps scopes ps' st where
    st: "s = Supported v" "t = Supported (v\<lparr>sv_plugins := om_insert plugin ps' (sv_plugins v)\<rparr>)"
    and ps: "ps = (case map_of (sv_plugins v) plugin of None \<Rightarrow> default_scopes | Some ps \<Rightarrow> ps)"
    and scopes: "psc_scopes ps = Some scopes" "psc_scopes ps' = Some (om_insert (scope_as_str scope) st scopes)"
    by blast
  show ?thesis
  proof (cases "plugin' = plugin")
    case True
    then have scope': "scope' \<noteq> scope" using assms(2) by simp
    show ?thesis
    proof (cases "map_of (sv_plugins v) plugin")
      case None
      then have "scopes = []" using ps scopes by (simp add: default_scopes_def)
      then show ?thesis using None True st scopes scope' by simp
    next
      case (Some p)
      then show ?thesis using True st ps scopes scope' by simp
    qed
  qed (use st in simp)
qed

lemma payload_after_remove:
  assumes "remove_plugin_state len plugin scope s = Inr t"
  shows "plugin_payload_for_apply len plugin version scope t = Inr None"
  using assms
  by (cases s) (auto simp: result_simps Let_def split: option.splits if_splits)

lemma om_remove_only: "om_remove k m = [] \<Longrightarrow> map_of m k' = Some v \<Longrightarrow> k' = k"
  using om_remove_lookup [of k m] by (metis fun_upd_apply map_of.simps(1) option.distinct(1))

lemma payload_elsewhere_after_remove:
  assumes "remove_plugin_state len plugin scope s = Inr t" and "(plugin', scope') \<noteq> (plugin, scope)"
  shows "plugin_payload_for_apply len plugin' version' scope' t = plugin_payload_for_apply len plugin' version' scope' s"
proof (cases s)
  case (Supported v)
  show ?thesis
    using assms Supported
    by (cases "plugin' = plugin") (auto simp: result_simps Let_def split: option.splits if_splits dest: om_remove_only)
qed (use assms in auto)

section \<open>Guarantees\<close>

text \<open>Plugin state is read back as it was set: after set_plugin_state the same plugin, version and scope give
  the payload, every other plugin or scope gives what it gave before (errors included), and after
  remove_plugin_state the removed scope is absent while every other one again gives what it gave before.\<close>
lemma plugin_state_reads_back:
  assumes "set_plugin_state len plugin schema_version scope payload s = Inr t"
  shows "plugin_payload_for_apply len plugin schema_version scope t = Inr (Some payload)
    \<and> (\<forall>plugin' version' scope'. (plugin', scope') \<noteq> (plugin, scope) \<longrightarrow>
          plugin_payload_for_apply len plugin' version' scope' t = plugin_payload_for_apply len plugin' version' scope' s)
    \<and> (\<forall>u version. remove_plugin_state len plugin scope t = Inr u \<longrightarrow>
          plugin_payload_for_apply len plugin version scope u = Inr None
          \<and> (\<forall>plugin' version' scope'. (plugin', scope') \<noteq> (plugin, scope) \<longrightarrow>
                plugin_payload_for_apply len plugin' version' scope' u = plugin_payload_for_apply len plugin' version' scope' s))"
  using payload_after_set [OF assms] payload_elsewhere_after_set [OF assms] payload_after_remove payload_elsewhere_after_remove
  by (intro conjI allI impI) simp_all

text \<open>C30. Stored session state survives storage: a snapshot that is new or was read from any JSON value, changed by
  any number of accepted operations, reads back from its own JSON as the same snapshot. This includes snapshots
  of other schema versions and malformed ones, which are kept as they came.\<close>
theorem snapshot_survives_storage:
  assumes "small_envelopes len" and "initial_snapshot len s" and "(snapshot_step len)\<^sup>*\<^sup>* s t"
  shows "deserialize_state_snapshot_option len (snapshot_json t) = Inr (Some t)"
  using snap.inv_reachable [OF assms(2,3)] assms(1) by (intro snapshot_json_round) simp

text \<open>C31. Session state stays bounded: in every snapshot reached from a new or stored one there are at most 64 entries,
  every plugin name is valid, every stored state is at most 256 KiB and the whole text at most 1 MiB. This holds
  although set_state_revision skips the validation when the text does not grow.\<close>
theorem snapshot_stays_bounded:
  assumes "small_envelopes len" and "initial_snapshot len s" and "(snapshot_step len)\<^sup>*\<^sup>* s (Supported v)"
  shows "entry_count v \<le> 64 \<and> len (snapshot_json (Supported v)) \<le> 1048576
    \<and> (\<forall>(plugin, ps) \<in> set (sv_plugins v). validate_plugin_name plugin = Inr ()
         \<and> (\<forall>scopes k st. psc_scopes ps = Some scopes \<and> (k, st) \<in> set scopes \<longrightarrow> stored_plugin_state_bytes len st \<le> 262144))"
proof -
  have "snapshot_inv len (Supported v)" using snap.inv_reachable [OF assms(2,3)] assms(1) by simp
  then have valid: "validate_supported_snapshot len v = Inr ()" by (simp add: snapshot_inv_def)
  have "stored_plugin_state_bytes len st \<le> 262144"
    if "(plugin, ps) \<in> set (sv_plugins v)" "psc_scopes ps = Some scopes" "(k, st) \<in> set scopes" for plugin ps scopes k st
    using validate_scopes_state [OF valid that]
    by (simp add: validate_stored_plugin_state_size_def validate_plugin_state_bytes_def MAX_PLUGIN_STATE_BYTES_def split: if_splits)
  then show ?thesis
    using valid validate_scopes_name [OF valid]
    by (auto simp: validate_supported_iff MAX_PLUGIN_STATE_ENTRIES_def MAX_SESSION_STATE_BYTES_def)
qed

section \<open>Examples\<close>

text \<open>A measure for the examples: one per value, and the length of every text.\<close>

fun example_len :: "json \<Rightarrow> usize" where
  "example_len JNull = 4"
| "example_len (JBool b) = 5"
| "example_len (JNumber s) = length s"
| "example_len (JString s) = length s + 2"
| "example_len (JArray vs) = 2 + length vs"
| "example_len (JObject m) = 2 + 4 * length m"

definition example_v1 :: snapshot_v1 where
  "example_v1 =
     \<lparr>sv_schema_version = 1, sv_state_revision = 3,
      sv_plugins = [(''todo'', \<lparr>psc_scopes = Some [(''session'', new_plugin_state 1 (JString ''a''))], psc_malformed = None\<rparr>)],
      sv_extra = []\<rparr>"

lemma example_valid: "validate_supported_snapshot example_len example_v1 = Inr ()"
  by (simp add: validate_supported_iff example_v1_def entry_count_def scope_count_def validate_scopes_def validate_plugin_name_def
      is_digit_def byte_def MAX_PLUGIN_STATE_NAME_BYTES_def validate_stored_plugin_state_size_def validate_plugin_state_bytes_def
      stored_plugin_state_bytes_def opaque_fields_def new_plugin_state_def MAX_PLUGIN_STATE_BYTES_def MAX_PLUGIN_STATE_ENTRIES_def
      MAX_SESSION_STATE_BYTES_def snapshot_v1_json_def om_of_def)

lemma example_set: "set_plugin_state example_len ''todo'' 1 SessionScope (JString ''a'') (new_snapshot 3) = Inr (Supported example_v1)"
  using example_valid validate_scopes_name [OF example_valid, of "''todo''"]
  by (simp add: new_snapshot_def scopes_set_def default_scopes_def SESSION_STATE_SCHEMA_VERSION_def example_v1_def)

lemma example_envelopes: "small_envelopes example_len"
  by (simp add: small_envelopes_def new_snapshot_def snapshot_v1_json_def om_of_def MAX_SESSION_STATE_BYTES_def)

lemma example_initial: "initial_snapshot example_len (new_snapshot 3)"
  by (auto simp: initial_snapshot_def)

lemma example_reached: "(snapshot_step example_len)\<^sup>*\<^sup>* (new_snapshot 3) (Supported example_v1)"
  by (intro r_into_rtranclp Step_set [OF example_set])

lemma plugin_state_reads_back_example:
  "plugin_payload_for_apply example_len ''todo'' 1 SessionScope (Supported example_v1) = Inr (Some (JString ''a''))"
  using plugin_state_reads_back [OF example_set] by blast

theorem snapshot_survives_storage_witness:
  "deserialize_state_snapshot_option example_len (snapshot_json (Supported example_v1)) = Inr (Some (Supported example_v1))"
  using snapshot_survives_storage [OF example_envelopes example_initial example_reached] .

theorem snapshot_stays_bounded_witness: "entry_count example_v1 \<le> 64"
  using snapshot_stays_bounded [OF example_envelopes example_initial example_reached] by blast

end
