(* ===== verification/Session_Checkpoints.thy ===== *)
theory Session_Checkpoints
  imports Session_State "HOL-Library.Sublist"
begin

text \<open>
  The snapshots of session state that compaction boundaries refer to, kept by revision and pruned to stay within
  bounds, and the ledger of run notices a session has consumed (\<open>crates/n00n-storage/src/sessions.rs\<close>).
\<close>

section \<open>Checkpoints of compactions\<close>

record checkpoints_v1 =
  cv_schema_version :: u32
  cv_checkpoints :: "state_snapshot list"
  cv_extra :: "json omap"

datatype checkpoints = CSupported checkpoints_v1 | CUnsupported u64 json | CMalformed json

datatype compaction_state_error =
    CUnsupportedSchemaVersion u64 u32
  | CInvalidEnvelope
  | MissingRevision u64
  | FutureRevision u64 u64
  | RevisionRegression u64 u64
  | RevisionConflict u64
  | TooManyCheckpoints usize usize
  | CheckpointsTooLarge usize usize
  | InvalidSnapshot session_state_error
  | CSerialize

definition checkpoints_v1_json :: "checkpoints_v1 \<Rightarrow> json" where
  "checkpoints_v1_json c =
     JObject (om_of ((''schema_version'', json_u32 (cv_schema_version c))
       # (''checkpoints'', JArray (map snapshot_json (cv_checkpoints c))) # cv_extra c))"

fun checkpoints_json :: "checkpoints \<Rightarrow> json" where
  "checkpoints_json (CSupported c) = checkpoints_v1_json c"
| "checkpoints_json (CUnsupported n raw) = raw"
| "checkpoints_json (CMalformed raw) = raw"

definition new_checkpoints :: checkpoints where
  "new_checkpoints = CSupported \<lparr>cv_schema_version = COMPACTION_STATE_SCHEMA_VERSION, cv_checkpoints = [], cv_extra = []\<rparr>"

fun checkpoints_is_empty :: "checkpoints \<Rightarrow> bool" where
  "checkpoints_is_empty (CSupported c) = (cv_checkpoints c = [])"
| "checkpoints_is_empty _ = False"

fun checkpoints_unsupported_schema_error :: "checkpoints \<Rightarrow> compaction_state_error" where
  "checkpoints_unsupported_schema_error (CUnsupported n raw) = CUnsupportedSchemaVersion n COMPACTION_STATE_SCHEMA_VERSION"
| "checkpoints_unsupported_schema_error _ = CInvalidEnvelope"

definition snapshot_ok :: "(json \<Rightarrow> usize) \<Rightarrow> state_snapshot \<Rightarrow> compaction_state_error + u64" where
  "snapshot_ok len s =
     (case validate_for_apply len s of
        Inl e \<Rightarrow> Inl (InvalidSnapshot e)
      | Inr _ \<Rightarrow> (case state_revision s of None \<Rightarrow> Inl CInvalidEnvelope | Some revision \<Rightarrow> Inr revision))"

fun check_checkpoints :: "(json \<Rightarrow> usize) \<Rightarrow> u64 option \<Rightarrow> state_snapshot list \<Rightarrow> compaction_state_error + unit" where
  "check_checkpoints len previous [] = Inr ()"
| "check_checkpoints len previous (s # ss) =
     bindR (snapshot_ok len s) (\<lambda>revision.
       (case previous of
          None \<Rightarrow> check_checkpoints len (Some revision) ss
        | Some latest \<Rightarrow>
            if revision = latest then Inl (RevisionConflict revision)
            else if revision < latest then Inl (RevisionRegression latest revision)
            else check_checkpoints len (Some revision) ss))"

definition validate_compaction_state_checkpoints :: "(json \<Rightarrow> usize) \<Rightarrow> checkpoints_v1 \<Rightarrow> compaction_state_error + unit" where
  "validate_compaction_state_checkpoints len c =
     (if MAX_COMPACTION_STATE_CHECKPOINTS < length (cv_checkpoints c)
      then Inl (TooManyCheckpoints (length (cv_checkpoints c)) MAX_COMPACTION_STATE_CHECKPOINTS)
      else bindR (check_checkpoints len None (cv_checkpoints c)) (\<lambda>_.
           if MAX_COMPACTION_STATE_BYTES < len (checkpoints_v1_json c)
           then Inl (CheckpointsTooLarge (len (checkpoints_v1_json c)) MAX_COMPACTION_STATE_BYTES) else Inr ()))"

definition has_revision :: "u64 \<Rightarrow> state_snapshot \<Rightarrow> bool" where
  "has_revision revision s \<longleftrightarrow> state_revision s = Some revision"

definition latest_revision :: "checkpoints_v1 \<Rightarrow> u64 option" where
  "latest_revision c = (if cv_checkpoints c = [] then None else state_revision (last (cv_checkpoints c)))"

fun candidate_with :: "(json \<Rightarrow> usize) \<Rightarrow> state_snapshot \<Rightarrow> checkpoints \<Rightarrow> compaction_state_error + checkpoints_v1 option" where
  "candidate_with len s (CSupported c) =
     bindR (snapshot_ok len s) (\<lambda>revision.
       (case List.find (has_revision revision) (cv_checkpoints c) of
          Some existing \<Rightarrow> if existing = s then Inr None else Inl (RevisionConflict revision)
        | None \<Rightarrow>
            (case latest_revision c of
               Some latest \<Rightarrow>
                 if revision < latest then Inl (RevisionRegression latest revision)
                 else Inr (Some (c\<lparr>cv_checkpoints := cv_checkpoints c @ [s]\<rparr>))
             | None \<Rightarrow> Inr (Some (c\<lparr>cv_checkpoints := cv_checkpoints c @ [s]\<rparr>)))))"
| "candidate_with len s c = Inl (checkpoints_unsupported_schema_error c)"

definition insert_checkpoint :: "(json \<Rightarrow> usize) \<Rightarrow> state_snapshot \<Rightarrow> checkpoints \<Rightarrow> compaction_state_error + checkpoints" where
  "insert_checkpoint len s cs =
     bindR (candidate_with len s cs) (\<lambda>candidate.
       (case candidate of
          None \<Rightarrow> Inr cs
        | Some c \<Rightarrow> bindR (validate_compaction_state_checkpoints len c) (\<lambda>_. Inr (CSupported c))))"

text \<open>The loops that prune: each round removes one checkpoint, so they end.\<close>

fun is_bound_error :: "compaction_state_error \<Rightarrow> bool" where
  "is_bound_error (TooManyCheckpoints _ _) = True"
| "is_bound_error (CheckpointsTooLarge _ _) = True"
| "is_bound_error _ = False"

function prune_oldest :: "(json \<Rightarrow> usize) \<Rightarrow> checkpoints_v1 \<Rightarrow> compaction_state_error + checkpoints_v1" where
  "prune_oldest len c =
     (case validate_compaction_state_checkpoints len c of
        Inr _ \<Rightarrow> Inr c
      | Inl e \<Rightarrow>
          if is_bound_error e \<and> 1 < length (cv_checkpoints c)
          then prune_oldest len (c\<lparr>cv_checkpoints := tl (cv_checkpoints c)\<rparr>)
          else Inl e)"
  by pat_completeness auto
termination
  by (relation "measure (\<lambda>(len, c). length (cv_checkpoints c))") auto

definition is_protected :: "u64 set \<Rightarrow> state_snapshot \<Rightarrow> bool" where
  "is_protected protected s \<longleftrightarrow> (case state_revision s of None \<Rightarrow> False | Some revision \<Rightarrow> revision \<in> protected)"

text \<open>\<open>position\<close> followed by \<open>remove\<close>.\<close>

fun remove_first :: "('a \<Rightarrow> bool) \<Rightarrow> 'a list \<Rightarrow> 'a list option" where
  "remove_first P [] = None"
| "remove_first P (x # xs) = (if P x then Some xs else map_option ((#) x) (remove_first P xs))"

definition prune_one :: "u64 set \<Rightarrow> state_snapshot list \<Rightarrow> state_snapshot list" where
  "prune_one protected ss =
     (case remove_first (\<lambda>s. \<not> is_protected protected s) ss of Some ss' \<Rightarrow> ss' | None \<Rightarrow> tl ss)"

lemma remove_first_Some:
  assumes "remove_first P xs = Some ys"
  obtains as x bs where "xs = as @ x # bs" "ys = as @ bs" "P x" "\<forall>a \<in> set as. \<not> P a"
proof -
  have "\<exists>as x bs. xs = as @ x # bs \<and> ys = as @ bs \<and> P x \<and> (\<forall>a \<in> set as. \<not> P a)"
    using assms
  proof (induction xs arbitrary: ys)
    case (Cons x xs)
    show ?case
    proof (cases "P x")
      case True
      then show ?thesis using Cons.prems by (intro exI [of _ "[]"]) auto
    next
      case False
      then obtain zs where "remove_first P xs = Some zs" "ys = x # zs" using Cons.prems by auto
      with Cons.IH [of zs] obtain as y bs where "xs = as @ y # bs" "zs = as @ bs" "P y" "\<forall>a \<in> set as. \<not> P a" by blast
      with \<open>ys = x # zs\<close> False show ?thesis by (intro exI [of _ "x # as"] exI [of _ y] exI [of _ bs]) auto
    qed
  qed simp
  then show ?thesis using that by blast
qed

lemma remove_first_None: "remove_first P xs = None \<longleftrightarrow> (\<forall>x \<in> set xs. \<not> P x)"
  by (induction P xs rule: remove_first.induct) auto

lemma remove_first_last: "\<forall>y \<in> set xs. \<not> P y \<Longrightarrow> P x \<Longrightarrow> remove_first P (xs @ [x]) = Some xs"
  by (induction xs) auto

text \<open>One round of pruning removes the oldest unprotected checkpoint, or the oldest when all are protected.\<close>

lemma prune_one_cases:
  assumes "ss \<noteq> []"
  obtains (Unprotected) as s bs where "ss = as @ s # bs" "prune_one protected ss = as @ bs" "\<not> is_protected protected s"
      "\<forall>a \<in> set as. is_protected protected a"
    | (Oldest) "\<forall>s \<in> set ss. is_protected protected s" "prune_one protected ss = tl ss"
proof (cases "remove_first (\<lambda>s. \<not> is_protected protected s) ss")
  case None
  then have "prune_one protected ss = tl ss" by (simp add: prune_one_def)
  then show ?thesis using None that(2) by (simp add: remove_first_None)
next
  case (Some ys)
  then show ?thesis by (rule remove_first_Some) (use Some that(1) in \<open>auto simp: prune_one_def\<close>)
qed

lemma prune_one_length: "ss \<noteq> [] \<Longrightarrow> length (prune_one protected ss) < length ss"
  by (rule prune_one_cases [of ss protected]) auto

function prune_with_protected ::
  "(json \<Rightarrow> usize) \<Rightarrow> u64 set \<Rightarrow> checkpoints_v1 \<Rightarrow> compaction_state_error + checkpoints_v1" where
  "prune_with_protected len protected c =
     (case validate_compaction_state_checkpoints len c of
        Inr _ \<Rightarrow> Inr c
      | Inl e \<Rightarrow>
          if is_bound_error e \<and> 1 < length (cv_checkpoints c)
          then prune_with_protected len protected (c\<lparr>cv_checkpoints := prune_one protected (cv_checkpoints c)\<rparr>)
          else Inl e)"
  by pat_completeness auto
termination
  by (relation "measure (\<lambda>(len, protected, c). length (cv_checkpoints c))") (auto intro: prune_one_length)

declare prune_oldest.simps [simp del] prune_with_protected.simps [simp del]

definition insert_pruning_oldest :: "(json \<Rightarrow> usize) \<Rightarrow> state_snapshot \<Rightarrow> checkpoints \<Rightarrow> compaction_state_error + checkpoints" where
  "insert_pruning_oldest len s cs =
     bindR (candidate_with len s cs) (\<lambda>candidate.
       (case candidate of
          None \<Rightarrow> Inr cs
        | Some c \<Rightarrow> bindR (prune_oldest len c) (\<lambda>c'. Inr (CSupported c'))))"

definition insert_pruning_oldest_with_protected ::
  "(json \<Rightarrow> usize) \<Rightarrow> state_snapshot \<Rightarrow> u64 set \<Rightarrow> checkpoints \<Rightarrow> compaction_state_error + checkpoints" where
  "insert_pruning_oldest_with_protected len s protected cs =
     bindR (candidate_with len s cs) (\<lambda>candidate.
       (case candidate of
          None \<Rightarrow> Inr cs
        | Some c \<Rightarrow> bindR (prune_with_protected len protected c) (\<lambda>c'. Inr (CSupported c'))))"

fun snapshot_at :: "(json \<Rightarrow> usize) \<Rightarrow> u64 \<Rightarrow> checkpoints \<Rightarrow> compaction_state_error + state_snapshot" where
  "snapshot_at len revision (CSupported c) =
     (case List.find (has_revision revision) (cv_checkpoints c) of
        Some s \<Rightarrow> (case validate_for_apply len s of Inl e \<Rightarrow> Inl (InvalidSnapshot e) | Inr _ \<Rightarrow> Inr s)
      | None \<Rightarrow>
          (case latest_revision c of
             None \<Rightarrow> Inl (MissingRevision revision)
           | Some latest \<Rightarrow> if latest < revision then Inl (FutureRevision revision latest) else Inl (MissingRevision revision)))"
| "snapshot_at len revision c = Inl (checkpoints_unsupported_schema_error c)"

definition validate_raw_compaction_state_checkpoints :: "(json \<Rightarrow> usize) \<Rightarrow> json \<Rightarrow> compaction_state_error + unit" where
  "validate_raw_compaction_state_checkpoints len raw =
     (if MAX_COMPACTION_STATE_BYTES < len raw then Inl (CheckpointsTooLarge (len raw) MAX_COMPACTION_STATE_BYTES)
      else (case Option.bind (json_get ''checkpoints'' raw) as_array of
              None \<Rightarrow> Inr ()
            | Some values \<Rightarrow>
                if MAX_COMPACTION_STATE_CHECKPOINTS < length values
                then Inl (TooManyCheckpoints (length values) MAX_COMPACTION_STATE_CHECKPOINTS)
                else check_all (\<lambda>v. if MAX_SESSION_STATE_BYTES < len v
                       then Inl (InvalidSnapshot (SnapshotTooLarge (len v) MAX_SESSION_STATE_BYTES)) else Inr ()) values))"

definition checkpoints_v1_from_json :: "(json \<Rightarrow> usize) \<Rightarrow> json \<Rightarrow> checkpoints_v1 option" where
  "checkpoints_v1_from_json len raw =
     (case as_object raw of
        None \<Rightarrow> None
      | Some members \<Rightarrow>
          (case (Option.bind (map_of members ''schema_version'') as_u32, Option.bind (map_of members ''checkpoints'') as_array) of
             (Some schema_version, Some values) \<Rightarrow>
               (case collectR (deserialize_snapshot len) values of
                  Inl e \<Rightarrow> None
                | Inr checkpoints \<Rightarrow>
                    Some \<lparr>cv_schema_version = schema_version, cv_checkpoints = checkpoints,
                          cv_extra = om_of (filter (\<lambda>(k, v). k \<notin> {''schema_version'', ''checkpoints''}) members)\<rparr>)
           | _ \<Rightarrow> None))"

definition checkpoints_from_raw :: "(json \<Rightarrow> usize) \<Rightarrow> json \<Rightarrow> compaction_state_error + checkpoints" where
  "checkpoints_from_raw len raw =
     bindR (validate_raw_compaction_state_checkpoints len raw) (\<lambda>_.
       (case json_schema_version raw of
          None \<Rightarrow> Inl CInvalidEnvelope
        | Some schema_version \<Rightarrow>
            if schema_version \<noteq> ucast COMPACTION_STATE_SCHEMA_VERSION then Inr (CUnsupported schema_version raw)
            else (case checkpoints_v1_from_json len raw of
                    None \<Rightarrow> Inl CSerialize
                  | Some c \<Rightarrow> bindR (validate_compaction_state_checkpoints len c) (\<lambda>_. Inr (CSupported c)))))"

fun is_fatal_error :: "compaction_state_error \<Rightarrow> bool" where
  "is_fatal_error (InvalidSnapshot (SnapshotTooLarge _ _)) = True"
| "is_fatal_error e = is_bound_error e"

definition deserialize_compaction_state_checkpoints :: "(json \<Rightarrow> usize) \<Rightarrow> json \<Rightarrow> compaction_state_error + checkpoints" where
  "deserialize_compaction_state_checkpoints len raw =
     (case checkpoints_from_raw len raw of
        Inr cs \<Rightarrow> Inr cs
      | Inl e \<Rightarrow> if is_fatal_error e then Inl e else Inr (CMalformed raw))"

section \<open>Session metadata\<close>

record control_delivery =
  cd_delivery_id :: str
  cd_child_run_id :: str
  cd_source_revision :: u64
  cd_acknowledged :: bool

text \<open>The part of \<open>SessionMeta\<close> that its operations read: the deliveries of the queued submissions, the ledger and the checkpoints.\<close>

record stored_meta =
  sm_queued_deliveries :: "control_delivery option list"
  sm_consumed :: "control_delivery list"
  sm_checkpoints :: checkpoints

datatype ledger_error = ControlDeliveryCapacity

definition has_consumed_run_delivery :: "str \<Rightarrow> stored_meta \<Rightarrow> bool" where
  "has_consumed_run_delivery delivery_id m = list_ex (\<lambda>d. cd_delivery_id d = delivery_id) (sm_consumed m)"

definition contains_run_delivery :: "str \<Rightarrow> stored_meta \<Rightarrow> bool" where
  "contains_run_delivery delivery_id m \<longleftrightarrow>
     list_ex (\<lambda>q. case q of None \<Rightarrow> False | Some d \<Rightarrow> cd_delivery_id d = delivery_id) (sm_queued_deliveries m)
     \<or> has_consumed_run_delivery delivery_id m"

definition record_consumed_run_delivery :: "control_delivery \<Rightarrow> stored_meta \<Rightarrow> ledger_error + stored_meta" where
  "record_consumed_run_delivery d m =
     (if has_consumed_run_delivery (cd_delivery_id d) m then Inr m
      else if MAX_CONTROL_DELIVERY_RECORDS \<le> length (sm_consumed m) then
        (case remove_first cd_acknowledged (sm_consumed m) of
           None \<Rightarrow> Inl ControlDeliveryCapacity
         | Some rest \<Rightarrow> Inr (m\<lparr>sm_consumed := rest @ [d]\<rparr>))
      else Inr (m\<lparr>sm_consumed := sm_consumed m @ [d]\<rparr>))"

fun acknowledge_first :: "str \<Rightarrow> control_delivery list \<Rightarrow> control_delivery list" where
  "acknowledge_first delivery_id [] = []"
| "acknowledge_first delivery_id (d # ds) =
     (if cd_delivery_id d = delivery_id then d\<lparr>cd_acknowledged := True\<rparr> # ds else d # acknowledge_first delivery_id ds)"

definition mark_run_delivery_acknowledged :: "str \<Rightarrow> stored_meta \<Rightarrow> stored_meta \<times> bool" where
  "mark_run_delivery_acknowledged delivery_id m =
     (m\<lparr>sm_consumed := acknowledge_first delivery_id (sm_consumed m)\<rparr>, has_consumed_run_delivery delivery_id m)"

definition checkpoint_compaction_state ::
  "(json \<Rightarrow> usize) \<Rightarrow> state_snapshot \<Rightarrow> stored_meta \<Rightarrow> compaction_state_error + stored_meta" where
  "checkpoint_compaction_state len s m =
     bindR (insert_pruning_oldest len s (sm_checkpoints m)) (\<lambda>cs. Inr (m\<lparr>sm_checkpoints := cs\<rparr>))"

definition checkpoint_compaction_state_with_protected ::
  "(json \<Rightarrow> usize) \<Rightarrow> state_snapshot \<Rightarrow> u64 set \<Rightarrow> stored_meta \<Rightarrow> compaction_state_error + stored_meta" where
  "checkpoint_compaction_state_with_protected len s protected m =
     bindR (insert_pruning_oldest_with_protected len s protected (sm_checkpoints m)) (\<lambda>cs. Inr (m\<lparr>sm_checkpoints := cs\<rparr>))"

definition checkpoint_compaction_state_with_transcript ::
  "(json \<Rightarrow> usize) \<Rightarrow> state_snapshot \<Rightarrow> 'm transcript_entry list \<Rightarrow> stored_meta \<Rightarrow> compaction_state_error + stored_meta" where
  "checkpoint_compaction_state_with_transcript len s transcript m =
     bindR (insert_pruning_oldest_with_protected len s (transcript_referenced_revisions transcript) (sm_checkpoints m))
       (\<lambda>cs. Inr (m\<lparr>sm_checkpoints := cs\<rparr>))"

definition compaction_state_at :: "(json \<Rightarrow> usize) \<Rightarrow> u64 \<Rightarrow> stored_meta \<Rightarrow> compaction_state_error + state_snapshot" where
  "compaction_state_at len revision m = snapshot_at len revision (sm_checkpoints m)"

section \<open>Pruning\<close>

text \<open>Checkpoints in order: each valid, with strictly increasing revisions.\<close>

definition snapshots_in_order :: "(json \<Rightarrow> usize) \<Rightarrow> state_snapshot list \<Rightarrow> bool" where
  "snapshots_in_order len ss \<longleftrightarrow>
     (\<forall>s \<in> set ss. \<exists>v. s = Supported v \<and> validate_supported_snapshot len v = Inr ())
     \<and> sorted_wrt (<) (map (\<lambda>s. the (state_revision s)) ss)"

lemma snapshot_ok_iff:
  "snapshot_ok len s = Inr revision \<longleftrightarrow> (\<exists>v. s = Supported v \<and> validate_supported_snapshot len v = Inr () \<and> sv_state_revision v = revision)"
  by (cases s) (auto simp: snapshot_ok_def split: sum.split)

lemma snapshots_in_order_Cons:
  "snapshots_in_order len (s # ss) \<longleftrightarrow>
     (\<exists>revision. snapshot_ok len s = Inr revision \<and> (\<forall>t \<in> set ss. revision < the (state_revision t))) \<and> snapshots_in_order len ss"
  by (auto simp: snapshots_in_order_def snapshot_ok_iff)

lemma snapshots_in_order_revision: "snapshot_ok len s = Inr revision \<Longrightarrow> the (state_revision s) = revision"
  by (auto simp: snapshot_ok_iff)

lemma check_checkpoints_iff:
  "check_checkpoints len previous ss = Inr () \<longleftrightarrow>
     snapshots_in_order len ss \<and> (case previous of None \<Rightarrow> True | Some latest \<Rightarrow> \<forall>s \<in> set ss. latest < the (state_revision s))"
proof (induction len previous ss rule: check_checkpoints.induct)
  case (2 len previous s ss)
  show ?case
  proof (cases "snapshot_ok len s")
    case (Inr revision)
    with 2 show ?thesis
      by (auto simp: snapshots_in_order_Cons snapshots_in_order_revision split: option.split)
  qed (simp add: snapshots_in_order_Cons)
qed (simp add: snapshots_in_order_def split: option.split)

lemma check_checkpoints_order_error:
  assumes "snapshots_in_order len ss"
  shows "check_checkpoints len None ss = Inr ()"
  using assms by (simp add: check_checkpoints_iff)

lemma validate_checkpoints_iff:
  "validate_compaction_state_checkpoints len c = Inr () \<longleftrightarrow>
     length (cv_checkpoints c) \<le> MAX_COMPACTION_STATE_CHECKPOINTS \<and> snapshots_in_order len (cv_checkpoints c)
     \<and> len (checkpoints_v1_json c) \<le> MAX_COMPACTION_STATE_BYTES"
  by (auto simp: validate_compaction_state_checkpoints_def result_simps check_checkpoints_iff not_less)

lemma validate_in_order_error:
  assumes "snapshots_in_order len (cv_checkpoints c)" and "validate_compaction_state_checkpoints len c = Inl e"
  shows "is_bound_error e"
  using assms by (auto simp: validate_compaction_state_checkpoints_def check_checkpoints_order_error split: if_splits)

lemma subseq_subset: "subseq xs ys \<Longrightarrow> set xs \<subseteq> set ys"
  by (induction rule: list_emb.induct) auto

lemma sorted_wrt_subseq': "subseq xs ys \<Longrightarrow> sorted_wrt P ys \<Longrightarrow> sorted_wrt P xs"
  by (induction rule: list_emb.induct) (use subseq_subset in auto)

lemma snapshots_in_order_subseq: "subseq ts ss \<Longrightarrow> snapshots_in_order len ss \<Longrightarrow> snapshots_in_order len ts"
  using subseq_subset [of ts ss] subseq_map [of ts ss "\<lambda>s. the (state_revision s)"]
  by (auto simp: snapshots_in_order_def intro: sorted_wrt_subseq')

lemma prune_one_subseq: "ss \<noteq> [] \<Longrightarrow> subseq (prune_one protected ss) ss"
  by (rule prune_one_cases [of ss protected]) (auto simp: subseq_append' intro: suffix_tl suffix_imp_subseq)

text \<open>What pruning keeps of a list of checkpoints.\<close>

definition kept_of :: "u64 set \<Rightarrow> state_snapshot list \<Rightarrow> state_snapshot list \<Rightarrow> bool" where
  "kept_of protected ss ts \<longleftrightarrow>
     subseq ts ss
     \<and> ((\<forall>s \<in> set ss - set ts. \<not> is_protected protected s) \<or> (\<forall>s \<in> set ts. is_protected protected s))
     \<and> (ss \<noteq> [] \<longrightarrow> ts \<noteq> [] \<and> (is_protected protected (last ss) \<longrightarrow> last ts = last ss))"

lemma kept_of_refl [simp]: "kept_of protected ss ss"
  by (simp add: kept_of_def)

lemma kept_of_prune_one:
  assumes "kept_of protected ss ts" and "1 < length ts"
  shows "kept_of protected ss (prune_one protected ts)"
proof -
  have "ts \<noteq> []" using assms(2) by auto
  have sub: "subseq (prune_one protected ts) ss"
    using assms(1) prune_one_subseq [OF \<open>ts \<noteq> []\<close>] subseq_order.trans by (auto simp: kept_of_def)
  from \<open>ts \<noteq> []\<close> show ?thesis
  proof (cases rule: prune_one_cases [of _ protected])
    case (Unprotected as s bs)
    have "\<forall>t \<in> set ss - set ts. \<not> is_protected protected t" using assms(1) Unprotected by (auto simp: kept_of_def)
    then have "\<forall>t \<in> set ss - set (as @ bs). \<not> is_protected protected t" using Unprotected by auto
    moreover have "as @ bs \<noteq> []" using assms(2) Unprotected(1) by auto
    moreover have "last (as @ bs) = last ss" if "ss \<noteq> []" "is_protected protected (last ss)"
      using that assms(1) Unprotected by (cases "bs = []") (auto simp: kept_of_def)
    ultimately show ?thesis using sub Unprotected(2) by (simp add: kept_of_def)
  next
    case Oldest
    then have "\<forall>t \<in> set (tl ts). is_protected protected t" by (auto dest: list.set_sel(2) [OF \<open>ts \<noteq> []\<close>])
    moreover have "tl ts \<noteq> []" "last (tl ts) = last ts" using assms(2) by (cases ts; auto)+
    ultimately show ?thesis using assms(1) sub Oldest(2) by (simp add: kept_of_def)
  qed
qed

text \<open>The outcome of pruning: valid checkpoints, or a single one that is too large by itself.\<close>

fun prune_outcome :: "(json \<Rightarrow> usize) \<Rightarrow> u64 set \<Rightarrow> checkpoints_v1 \<Rightarrow> compaction_state_error + checkpoints_v1 \<Rightarrow> bool" where
  "prune_outcome len protected c (Inr c') \<longleftrightarrow>
     validate_compaction_state_checkpoints len c' = Inr () \<and> kept_of protected (cv_checkpoints c) (cv_checkpoints c')
     \<and> c' = c\<lparr>cv_checkpoints := cv_checkpoints c'\<rparr>"
| "prune_outcome len protected c (Inl e) \<longleftrightarrow>
     (\<exists>ts. length ts \<le> 1 \<and> kept_of protected (cv_checkpoints c) ts
       \<and> validate_compaction_state_checkpoints len (c\<lparr>cv_checkpoints := ts\<rparr>) = Inl e)"

lemma prune_with_protected_from:
  assumes "snapshots_in_order len (cv_checkpoints c)"
    and "kept_of protected (cv_checkpoints c) (cv_checkpoints d)" and "d = c\<lparr>cv_checkpoints := cv_checkpoints d\<rparr>"
  shows "prune_outcome len protected c (prune_with_protected len protected d)"
  using assms
proof (induction len protected d rule: prune_with_protected.induct)
  case (1 len protected d)
  show ?case
  proof (cases "validate_compaction_state_checkpoints len d")
    case (Inr u)
    then show ?thesis using "1.prems" by (subst prune_with_protected.simps) simp
  next
    case (Inl e)
    have "snapshots_in_order len (cv_checkpoints d)"
      using "1.prems"(1,2) by (auto simp: kept_of_def intro: snapshots_in_order_subseq)
    then have e: "is_bound_error e" using Inl by (rule validate_in_order_error)
    show ?thesis
    proof (cases "1 < length (cv_checkpoints d)")
      case True
      have "prune_outcome len protected c
        (prune_with_protected len protected (d\<lparr>cv_checkpoints := prune_one protected (cv_checkpoints d)\<rparr>))"
      proof (rule "1.IH" [OF Inl])
        show "d\<lparr>cv_checkpoints := prune_one protected (cv_checkpoints d)\<rparr>
            = c\<lparr>cv_checkpoints := cv_checkpoints (d\<lparr>cv_checkpoints := prune_one protected (cv_checkpoints d)\<rparr>)\<rparr>"
          by (subst "1.prems"(3)) simp
      qed (use "1.prems" True e in \<open>auto intro: kept_of_prune_one\<close>)
      then show ?thesis using Inl e True by (subst prune_with_protected.simps) simp
    next
      case False
      then have "prune_with_protected len protected d = Inl e" using Inl by (subst prune_with_protected.simps) simp
      then show ?thesis using "1.prems"(2,3) False Inl by (auto intro: exI [of _ "cv_checkpoints d"])
    qed
  qed
qed

lemma prune_with_protected_outcome:
  "snapshots_in_order len (cv_checkpoints c) \<Longrightarrow> prune_outcome len protected c (prune_with_protected len protected c)"
  by (rule prune_with_protected_from) auto

text \<open>Pruning the oldest is pruning with nothing protected.\<close>

lemma prune_oldest_eq: "prune_oldest len c = prune_with_protected len {} c"
proof (induction len c rule: prune_oldest.induct)
  case (1 len c)
  have "prune_one {} ss = tl ss" for ss
    by (cases ss) (auto simp: prune_one_def is_protected_def split: option.split)
  then show ?case
    using 1 by (subst prune_oldest.simps, subst prune_with_protected.simps) (auto split: sum.split)
qed

section \<open>The checkpoints of a session\<close>

definition checkpoints_inv :: "(json \<Rightarrow> usize) \<Rightarrow> checkpoints \<Rightarrow> bool" where
  "checkpoints_inv len cs \<longleftrightarrow> (case cs of CSupported c \<Rightarrow> validate_compaction_state_checkpoints len c = Inr () | _ \<Rightarrow> True)"

lemma in_order_revision: "snapshots_in_order len ss \<Longrightarrow> t \<in> set ss \<Longrightarrow> \<exists>v. t = Supported v \<and> state_revision t = Some (sv_state_revision v)"
  by (auto simp: snapshots_in_order_def)

lemma latest_revision_in_order:
  assumes "snapshots_in_order len (cv_checkpoints c)" and "t \<in> set (cv_checkpoints c)"
  shows "\<exists>latest. latest_revision c = Some latest \<and> the (state_revision t) \<le> latest"
proof -
  obtain ss l where split: "cv_checkpoints c = ss @ [l]" using assms(2) by (cases "cv_checkpoints c" rule: rev_cases) auto
  obtain v where "l = Supported v" using assms(1) split by (auto simp: snapshots_in_order_def)
  then show ?thesis using assms split by (auto simp: latest_revision_def snapshots_in_order_def sorted_wrt_append less_imp_le)
qed

lemma snapshots_in_order_snoc:
  "snapshots_in_order len (ss @ [s]) \<longleftrightarrow>
     snapshots_in_order len ss \<and> (\<exists>revision. snapshot_ok len s = Inr revision \<and> (\<forall>t \<in> set ss. the (state_revision t) < revision))"
  by (auto simp: snapshots_in_order_def snapshot_ok_iff sorted_wrt_append)

lemma candidate_with_in_order:
  assumes "candidate_with len s (CSupported c) = Inr (Some d)" and order: "snapshots_in_order len (cv_checkpoints c)"
  shows "d = c\<lparr>cv_checkpoints := cv_checkpoints c @ [s]\<rparr> \<and> snapshots_in_order len (cv_checkpoints d)"
proof -
  obtain revision where ok: "snapshot_ok len s = Inr revision" and new: "List.find (has_revision revision) (cv_checkpoints c) = None"
    and latest: "\<And>latest. latest_revision c = Some latest \<Longrightarrow> latest \<le> revision"
    and d: "d = c\<lparr>cv_checkpoints := cv_checkpoints c @ [s]\<rparr>"
    using assms(1) by (auto simp: result_simps not_less split: option.splits if_splits)
  have "the (state_revision t) < revision" if t: "t \<in> set (cv_checkpoints c)" for t
  proof -
    obtain v where "t = Supported v" using in_order_revision [OF order t] by blast
    moreover have "the (state_revision t) \<le> revision" using latest_revision_in_order [OF order t] latest by (auto intro: order_trans)
    moreover have "\<not> has_revision revision t" using new t by (auto simp: find_None_iff)
    ultimately show ?thesis by (simp add: has_revision_def)
  qed
  then show ?thesis using order ok d by (auto simp: snapshots_in_order_snoc)
qed

lemma candidate_with_new:
  assumes "snapshot_ok len s = Inr revision" and "snapshots_in_order len (cv_checkpoints c)"
    and "\<forall>t \<in> set (cv_checkpoints c). the (state_revision t) < revision"
  shows "candidate_with len s (CSupported c) = Inr (Some (c\<lparr>cv_checkpoints := cv_checkpoints c @ [s]\<rparr>))"
proof -
  have "\<not> has_revision revision t" if "t \<in> set (cv_checkpoints c)" for t
    using assms(3) that in_order_revision [OF assms(2) that] by (auto simp: has_revision_def)
  then have "List.find (has_revision revision) (cv_checkpoints c) = None" by (auto simp: find_None_iff)
  moreover have "\<not> revision < latest" if "latest_revision c = Some latest" for latest
    using that assms(3) by (auto simp: latest_revision_def split: if_splits dest: last_in_set bspec)
  ultimately show ?thesis using assms(1) by (auto split: option.split)
qed

lemma insert_with_protected_inv:
  assumes "insert_pruning_oldest_with_protected len s protected cs = Inr cs'" and "checkpoints_inv len cs"
  shows "checkpoints_inv len cs'"
proof (cases cs)
  case (CSupported c)
  then have order: "snapshots_in_order len (cv_checkpoints c)" using assms(2) by (simp add: checkpoints_inv_def validate_checkpoints_iff)
  show ?thesis
  proof (cases "candidate_with len s (CSupported c)")
    case (Inr candidate)
    then show ?thesis
      using assms CSupported candidate_with_in_order [OF _ order] prune_with_protected_outcome [of len _ protected]
      by (cases candidate) (force simp: insert_pruning_oldest_with_protected_def result_simps checkpoints_inv_def)+
  qed (use assms CSupported in \<open>simp add: insert_pruning_oldest_with_protected_def\<close>)
qed (use assms in \<open>auto simp: insert_pruning_oldest_with_protected_def\<close>)

lemma insert_pruning_oldest_eq: "insert_pruning_oldest len s cs = insert_pruning_oldest_with_protected len s {} cs"
  unfolding insert_pruning_oldest_def insert_pruning_oldest_with_protected_def prune_oldest_eq ..

lemma insert_checkpoint_inv:
  "insert_checkpoint len s cs = Inr cs' \<Longrightarrow> checkpoints_inv len cs \<Longrightarrow> checkpoints_inv len cs'"
  by (auto simp: insert_checkpoint_def checkpoints_inv_def result_simps split: option.splits)

lemma from_raw_inv: "checkpoints_from_raw len raw = Inr cs \<Longrightarrow> checkpoints_inv len cs"
  by (auto simp: checkpoints_from_raw_def checkpoints_inv_def result_simps simp del: json_schema_version.simps split: option.splits if_splits)

lemma deserialize_checkpoints_inv: "deserialize_compaction_state_checkpoints len raw = Inr cs \<Longrightarrow> checkpoints_inv len cs"
  by (auto simp: deserialize_compaction_state_checkpoints_def split: sum.splits if_splits intro: from_raw_inv)
     (simp add: checkpoints_inv_def)

inductive checkpoint_step :: "(json \<Rightarrow> usize) \<Rightarrow> stored_meta \<Rightarrow> stored_meta \<Rightarrow> bool" for len where
  Step_checkpoint: "checkpoint_compaction_state len s m = Inr m' \<Longrightarrow> checkpoint_step len m m'"
| Step_protected: "checkpoint_compaction_state_with_protected len s protected m = Inr m' \<Longrightarrow> checkpoint_step len m m'"
| Step_insert: "insert_checkpoint len s (sm_checkpoints m) = Inr cs \<Longrightarrow> checkpoint_step len m (m\<lparr>sm_checkpoints := cs\<rparr>)"

inductive_cases checkpoint_stepE: "checkpoint_step len m m'"

definition initial_checkpoints :: "(json \<Rightarrow> usize) \<Rightarrow> stored_meta \<Rightarrow> bool" where
  "initial_checkpoints len m \<longleftrightarrow> (\<exists>raw. deserialize_compaction_state_checkpoints len raw = Inr (sm_checkpoints m))"

interpretation cps: invariant_system "initial_checkpoints len" "checkpoint_step len" "\<lambda>m. checkpoints_inv len (sm_checkpoints m)" for len
proof unfold_locales
  show "checkpoints_inv len (sm_checkpoints m)" if "initial_checkpoints len m" for m
    using that by (auto simp: initial_checkpoints_def deserialize_checkpoints_inv)
  show "checkpoints_inv len (sm_checkpoints m')" if "checkpoint_step len m m'" "checkpoints_inv len (sm_checkpoints m)" for m m'
    using that
    by (auto elim!: checkpoint_stepE simp: result_simps checkpoint_compaction_state_def insert_pruning_oldest_eq
        checkpoint_compaction_state_with_protected_def insert_checkpoint_inv)
      (blast intro: insert_with_protected_inv)+
qed

lemma find_in_order:
  assumes "snapshots_in_order len ss" and "s \<in> set ss" and "state_revision s = Some revision"
  shows "List.find (has_revision revision) ss = Some s"
  using assms
proof (induction ss)
  case (Cons t ss)
  then show ?case by (auto simp: has_revision_def snapshots_in_order_Cons snapshot_ok_iff)
qed simp

lemma insert_protected_newest:
  assumes inv: "validate_compaction_state_checkpoints len c = Inr ()"
    and s: "snapshot_ok len s = Inr revision" "\<forall>t \<in> set (cv_checkpoints c). the (state_revision t) < revision"
    and protected: "revision \<in> protected" and fits: "len (checkpoints_v1_json (c\<lparr>cv_checkpoints := [s]\<rparr>)) \<le> MAX_COMPACTION_STATE_BYTES"
  shows "\<exists>c'. insert_pruning_oldest_with_protected len s protected (CSupported c) = Inr (CSupported c')
    \<and> validate_compaction_state_checkpoints len c' = Inr () \<and> kept_of protected (cv_checkpoints c @ [s]) (cv_checkpoints c')
    \<and> last (cv_checkpoints c') = s \<and> cv_checkpoints c' \<noteq> []"
proof -
  define d where "d = c\<lparr>cv_checkpoints := cv_checkpoints c @ [s]\<rparr>"
  have cps: "cv_checkpoints d = cv_checkpoints c @ [s]" by (simp add: d_def)
  have order: "snapshots_in_order len (cv_checkpoints c)" using inv by (simp add: validate_checkpoints_iff)
  have candidate: "candidate_with len s (CSupported c) = Inr (Some d)"
    using candidate_with_new [OF s(1) order s(2)] by (simp add: d_def)
  have order_d: "snapshots_in_order len (cv_checkpoints d)" using order s by (auto simp: cps snapshots_in_order_snoc)
  have prot: "is_protected protected s" using s(1) protected by (auto simp: snapshot_ok_iff is_protected_def)
  have newest: "ts \<noteq> [] \<and> last ts = s" if "kept_of protected (cv_checkpoints d) ts" for ts
    using that prot by (auto simp: cps kept_of_def)
  show ?thesis
  proof (cases "prune_with_protected len protected d")
    case (Inl e)
    with prune_with_protected_outcome [OF order_d, of protected] obtain ts where
      ts: "length ts \<le> 1" "kept_of protected (cv_checkpoints d) ts" "validate_compaction_state_checkpoints len (d\<lparr>cv_checkpoints := ts\<rparr>) = Inl e"
      by auto
    then have "ts = [s]" using newest [OF ts(2)] by (cases ts) auto
    moreover have "validate_compaction_state_checkpoints len (d\<lparr>cv_checkpoints := [s]\<rparr>) = Inr ()"
      using s(1) fits by (auto simp: validate_checkpoints_iff d_def MAX_COMPACTION_STATE_CHECKPOINTS_def snapshots_in_order_def snapshot_ok_iff)
    ultimately show ?thesis using ts(3) by simp
  next
    case (Inr c')
    with prune_with_protected_outcome [OF order_d, of protected] have "validate_compaction_state_checkpoints len c' = Inr ()"
      "kept_of protected (cv_checkpoints d) (cv_checkpoints c')" by auto
    then show ?thesis
      using Inr candidate newest by (auto simp: insert_pruning_oldest_with_protected_def cps)
  qed
qed

section \<open>The ledger of consumed deliveries\<close>

inductive ledger_step :: "stored_meta \<Rightarrow> stored_meta \<Rightarrow> bool" where
  Step_record: "record_consumed_run_delivery d m = Inr m' \<Longrightarrow> ledger_step m m'"
| Step_acknowledge: "ledger_step m (fst (mark_run_delivery_acknowledged delivery_id m))"

inductive_cases ledger_stepE: "ledger_step m m'"

definition ledger_inv :: "stored_meta \<Rightarrow> bool" where
  "ledger_inv m \<longleftrightarrow> length (sm_consumed m) \<le> MAX_CONTROL_DELIVERY_RECORDS \<and> distinct (map cd_delivery_id (sm_consumed m))"

lemma acknowledge_first_ids [simp]: "map cd_delivery_id (acknowledge_first delivery_id ds) = map cd_delivery_id ds"
  by (induction delivery_id ds rule: acknowledge_first.induct) auto

lemma acknowledge_first_length [simp]: "length (acknowledge_first delivery_id ds) = length ds"
  by (induction delivery_id ds rule: acknowledge_first.induct) auto

lemma has_consumed_iff: "has_consumed_run_delivery delivery_id m \<longleftrightarrow> delivery_id \<in> cd_delivery_id ` set (sm_consumed m)"
  by (auto simp: has_consumed_run_delivery_def list_ex_iff)

text \<open>The three ways a delivery is recorded.\<close>

lemma record_cases:
  obtains (Known) "has_consumed_run_delivery (cd_delivery_id d) m" "record_consumed_run_delivery d m = Inr m"
    | (Room) "\<not> has_consumed_run_delivery (cd_delivery_id d) m" "length (sm_consumed m) < MAX_CONTROL_DELIVERY_RECORDS"
        "record_consumed_run_delivery d m = Inr (m\<lparr>sm_consumed := sm_consumed m @ [d]\<rparr>)"
    | (Full) "\<not> has_consumed_run_delivery (cd_delivery_id d) m" "MAX_CONTROL_DELIVERY_RECORDS \<le> length (sm_consumed m)"
        "\<forall>e \<in> set (sm_consumed m). \<not> cd_acknowledged e" "record_consumed_run_delivery d m = Inl ControlDeliveryCapacity"
    | (Evict) as e bs where "\<not> has_consumed_run_delivery (cd_delivery_id d) m" "sm_consumed m = as @ e # bs" "cd_acknowledged e"
        "\<forall>a \<in> set as. \<not> cd_acknowledged a" "MAX_CONTROL_DELIVERY_RECORDS \<le> length (sm_consumed m)"
        "record_consumed_run_delivery d m = Inr (m\<lparr>sm_consumed := as @ bs @ [d]\<rparr>)"
proof (cases "has_consumed_run_delivery (cd_delivery_id d) m")
  case True
  then show ?thesis using Known by (simp add: record_consumed_run_delivery_def)
next
  case False
  show ?thesis
  proof (cases "MAX_CONTROL_DELIVERY_RECORDS \<le> length (sm_consumed m)")
    case full: True
    show ?thesis
    proof (cases "remove_first cd_acknowledged (sm_consumed m)")
      case None
      then have "record_consumed_run_delivery d m = Inl ControlDeliveryCapacity" using False full by (simp add: record_consumed_run_delivery_def)
      then show ?thesis using Full None False full by (simp add: remove_first_None)
    next
      case (Some rest)
      then show ?thesis
        by (rule remove_first_Some) (use Some Evict False full in \<open>auto simp: record_consumed_run_delivery_def\<close>)
    qed
  qed (use False Room in \<open>auto simp: record_consumed_run_delivery_def\<close>)
qed

interpretation ledger: invariant_system "\<lambda>m. sm_consumed m = []" ledger_step ledger_inv
proof unfold_locales
  show "ledger_inv m'" if "ledger_step m m'" "ledger_inv m" for m m'
    using that(1)
  proof (cases rule: ledger_step.cases)
    case (Step_record d)
    then show ?thesis
      by (cases rule: record_cases [of d m]) (use that(2) in \<open>auto simp: ledger_inv_def has_consumed_iff\<close>)
  qed (use that(2) in \<open>auto simp: ledger_inv_def mark_run_delivery_acknowledged_def\<close>)
qed (simp add: ledger_inv_def)

section \<open>Guarantees\<close>


text \<open>
  When the snapshot is not referenced by the transcript and every older checkpoint is, the new one is the one
  that is pruned: the operation succeeds and stores nothing.
\<close>

lemma unreferenced_newest_dropped:
  assumes "validate_compaction_state_checkpoints len c = Inr ()" and "length (cv_checkpoints c) = MAX_COMPACTION_STATE_CHECKPOINTS"
    and "snapshot_ok len s = Inr revision" and "\<forall>t \<in> set (cv_checkpoints c). the (state_revision t) < revision"
    and "revision \<notin> protected" and "\<forall>t \<in> set (cv_checkpoints c). is_protected protected t"
  shows "insert_pruning_oldest_with_protected len s protected (CSupported c) = Inr (CSupported c)"
proof -
  have order: "snapshots_in_order len (cv_checkpoints c)" using assms(1) by (simp add: validate_checkpoints_iff)
  define d where "d = c\<lparr>cv_checkpoints := cv_checkpoints c @ [s]\<rparr>"
  have "\<not> is_protected protected s" using assms(3,5) by (auto simp: snapshot_ok_iff is_protected_def)
  then have one: "prune_one protected (cv_checkpoints d) = cv_checkpoints c"
    using assms(6) by (simp add: prune_one_def d_def remove_first_last)
  have "prune_with_protected len protected d = prune_with_protected len protected c"
    using assms(2) by (subst prune_with_protected.simps) (simp add: validate_compaction_state_checkpoints_def one, simp add: d_def MAX_COMPACTION_STATE_CHECKPOINTS_def)
  moreover have "prune_with_protected len protected c = Inr c" using assms(1) by (subst prune_with_protected.simps) simp
  ultimately show ?thesis
    using candidate_with_new [OF assms(3) order assms(4)] by (simp add: insert_pruning_oldest_with_protected_def d_def)
qed

text \<open>The ledger makes deliveries idempotent: it never holds more than 1024 deliveries nor one twice; recording
  fails only when it is full of unacknowledged deliveries; when it succeeds the delivery is known, recording it
  again changes nothing, no unacknowledged delivery was forgotten, and at most one acknowledged one was.\<close>
lemma consumed_deliveries_remembered:
  assumes "sm_consumed m = []" and "ledger_step\<^sup>*\<^sup>* m n"
  shows "length (sm_consumed n) \<le> 1024 \<and> distinct (map cd_delivery_id (sm_consumed n))
    \<and> (case record_consumed_run_delivery d n of
         Inl _ \<Rightarrow> length (sm_consumed n) = 1024 \<and> (\<forall>e \<in> set (sm_consumed n). \<not> cd_acknowledged e)
       | Inr n' \<Rightarrow> has_consumed_run_delivery (cd_delivery_id d) n' \<and> record_consumed_run_delivery d n' = Inr n'
           \<and> (\<forall>e \<in> set (sm_consumed n). \<not> cd_acknowledged e \<longrightarrow> e \<in> set (sm_consumed n'))
           \<and> card (set (sm_consumed n) - set (sm_consumed n')) \<le> 1)"
proof -
  have inv: "length (sm_consumed n) \<le> 1024" "distinct (map cd_delivery_id (sm_consumed n))"
    using ledger.inv_reachable [OF assms] by (auto simp: ledger_inv_def MAX_CONTROL_DELIVERY_RECORDS_def)
  show ?thesis
  proof (cases rule: record_cases [of d n])
    case (Evict as e bs)
    have "set (sm_consumed n) - set (as @ bs @ [d]) \<subseteq> {e}" using Evict(2) by auto
    then have "card (set (sm_consumed n) - set (as @ bs @ [d])) \<le> 1" using card_mono [of "{e}"] by fastforce
    then show ?thesis using Evict inv by (auto simp: has_consumed_iff record_consumed_run_delivery_def)
  next
    case Room
    have "set (sm_consumed n) - insert d (set (sm_consumed n)) = {}" by auto
    then have "card (set (sm_consumed n) - insert d (set (sm_consumed n))) \<le> 1" by (metis card.empty zero_le)
    then show ?thesis using Room inv by (auto simp: has_consumed_iff record_consumed_run_delivery_def)
  qed (use inv in \<open>auto simp: has_consumed_iff record_consumed_run_delivery_def MAX_CONTROL_DELIVERY_RECORDS_def\<close>)
qed

section \<open>Examples\<close>

definition example_meta :: stored_meta where
  "example_meta = \<lparr>sm_queued_deliveries = [], sm_consumed = [], sm_checkpoints = CMalformed JNull\<rparr>"

definition example_delivery :: control_delivery where
  "example_delivery = \<lparr>cd_delivery_id = ''d1'', cd_child_run_id = ''r1'', cd_source_revision = 4, cd_acknowledged = False\<rparr>"

lemma consumed_deliveries_remembered_example:
  "case record_consumed_run_delivery example_delivery example_meta of Inl _ \<Rightarrow> False
   | Inr n \<Rightarrow> has_consumed_run_delivery ''d1'' n \<and> record_consumed_run_delivery example_delivery n = Inr n"
  using consumed_deliveries_remembered [of example_meta example_meta example_delivery]
  by (auto simp: example_meta_def example_delivery_def split: sum.splits)

definition example_checkpoints :: checkpoints_v1 where
  "example_checkpoints = \<lparr>cv_schema_version = 1, cv_checkpoints = [], cv_extra = []\<rparr>"

definition example_session :: stored_meta where
  "example_session = example_meta\<lparr>sm_checkpoints := CSupported example_checkpoints\<rparr>"

lemma example_session_initial: "initial_checkpoints example_len example_session"
proof -
  have "deserialize_compaction_state_checkpoints example_len (checkpoints_v1_json example_checkpoints) = Inr (CSupported example_checkpoints)"
    by (simp add: deserialize_compaction_state_checkpoints_def checkpoints_from_raw_def validate_raw_compaction_state_checkpoints_def
        checkpoints_v1_from_json_def checkpoints_v1_json_def example_checkpoints_def om_of_def MAX_COMPACTION_STATE_BYTES_def
        MAX_COMPACTION_STATE_CHECKPOINTS_def COMPACTION_STATE_SCHEMA_VERSION_def validate_compaction_state_checkpoints_def)
  then show ?thesis unfolding initial_checkpoints_def example_session_def by auto
qed


end
