(* ===== verification/Session_Log.thy ===== *)
theory Session_Log
  imports Transcript Str_Words "HOL-Library.Sublist"
begin

text \<open>
  The log a session is stored in (\<open>crates/n00n-storage/src/sessions.rs\<close>): one JSON record per line, in
  zstd frames that are appended, rewritten as a whole when appending is not enough. The codec of lines
  is a parameter; a file is the list of its decoded lines.
\<close>

section \<open>Data\<close>

type_synonym session_id = str

text \<open>
  Stored structures that the log only carries (queued submissions, subagents, snapshots) are of one
  type parameter; \<open>sm_rest\<close> stands for the remaining fields of \<open>SessionMeta\<close>.
\<close>

record 'x session_meta =
  sm_parent_id :: "session_id option"
  sm_queued_messages :: "str list"
  sm_queued_submissions :: "'x list"
  sm_queued_direct_tools :: "'x list"
  sm_subagents :: "'x list"
  sm_direct_paused_team :: "'x option"
  sm_direct_output :: "str option"
  sm_state_snapshot :: "'x option"
  sm_revision :: u64
  sm_rest :: 'x

datatype ('m, 'u, 't, 'x) log_record =
    Header u32 session_id str str "str option" u64 "session_id option"
  | Msg 'm
  | Out str 't
  | SubMsg str 'm
  | TranscriptRec "'m transcript_entry"
  | TranscriptCompactionStart "'m option" "u64 option"
  | TranscriptCompactionEnd
  | Meta str 'u u64 u64 "'m transcript_entry list option" "'x session_meta"
  | Oversized str
  | UnknownRecord

text \<open>A \<open>HashMap\<close> is the list of its entries in the order of iteration.\<close>

record ('m, 'u, 't, 'x) session =
  se_version :: u32
  se_id :: session_id
  se_title :: str
  se_cwd :: str
  se_model :: str
  se_messages :: "'m list"
  se_transcript :: "'m transcript_entry list"
  se_transcript_revision :: "u64 option"
  se_token_usage :: 'u
  se_tool_outputs :: "(str \<times> 't) list"
  se_subagent_messages :: "(str \<times> 'm list) list"
  se_evicted_tool_outputs :: "str set"
  se_evicted_subagent_messages :: "str set"
  se_loaded_from_disk :: bool
  se_meta :: "'x session_meta"
  se_created_at :: u64
  se_updated_at :: u64

datatype session_error = StorageFailed | NotFound | VersionMismatch u32 u32 | IdMismatch session_id session_id
  | CorruptHeaderId str | CursorAhead usize usize | RecordTooLarge usize | DecodedBudgetExceeded usize
  | UnknownRecordType | ConcurrentModification

definition SESSION_VERSION :: u32 where "SESSION_VERSION = 1"
definition LOG_FORMAT_VERSION :: u32 where "LOG_FORMAT_VERSION = 4"
definition PREVIOUS_LOG_FORMAT_VERSION :: u32 where "PREVIOUS_LOG_FORMAT_VERSION = 3"
definition MAX_INCREMENTAL_FRAMES :: u64 where "MAX_INCREMENTAL_FRAMES = 16384"
definition DEFAULT_TITLE :: str where "DEFAULT_TITLE = ''New session''"

text \<open>
  What the strict decoder makes of a line: a record, a header whose id does not parse, a start of a
  compaction that cannot be decoded, or anything else that is skipped. The second decoder reads only
  the tag and the key.
\<close>

datatype ('m, 'u, 't, 'x) line_reading = Reads "('m, 'u, 't, 'x) log_record" | BadHeaderId str | BadCompactionStart | BadLine

datatype retained_tag = RetainedOut str | RetainedSubMsg str | RetainedOther

record ('m, 'u, 't, 'x) codec =
  cd_encode :: "('m, 'u, 't, 'x) log_record \<Rightarrow> str option"
  cd_decode :: "str \<Rightarrow> ('m, 'u, 't, 'x) line_reading"
  cd_tag :: "str \<Rightarrow> retained_tag option"
  cd_message :: "'m \<Rightarrow> str option"
  cd_entry :: "'m transcript_entry \<Rightarrow> str option"
  cd_default_usage :: 'u
  cd_default_rest :: 'x

record decode_limits =
  lim_line_bytes :: usize
  lim_decoded_bytes :: usize

section \<open>Loading\<close>

record 'm pending_compaction =
  pc_entries :: "'m transcript_entry list"
  pc_generated_summary :: "'m option"
  pc_state_revision :: "u64 option"
  pc_unreadable :: bool

text \<open>The open compactions are a stack, the innermost first.\<close>

record ('m, 'u, 't, 'x) session_builder =
  b_id :: "session_id option"
  b_model :: str
  b_cwd :: str
  b_created_at :: u64
  b_messages :: "'m list"
  b_tool_outputs :: "(str \<times> 't) list"
  b_subagent_messages :: "(str \<times> 'm list) list"
  b_title :: str
  b_token_usage :: 'u
  b_updated_at :: u64
  b_transcript :: "'m transcript_entry list"
  b_compactions :: "'m pending_compaction list"
  b_meta :: "'x session_meta"
  b_log_appends :: u64
  b_saw_legacy_transcript :: bool
  b_recovered_structure :: bool
  b_got_header :: bool

definition default_meta :: "('m, 'u, 't, 'x) codec \<Rightarrow> 'x session_meta" where
  "default_meta cd = \<lparr>sm_parent_id = None, sm_queued_messages = [], sm_queued_submissions = [], sm_queued_direct_tools = [],
     sm_subagents = [], sm_direct_paused_team = None, sm_direct_output = None, sm_state_snapshot = None, sm_revision = 0,
     sm_rest = cd_default_rest cd\<rparr>"

definition default_builder :: "('m, 'u, 't, 'x) codec \<Rightarrow> ('m, 'u, 't, 'x) session_builder" where
  "default_builder cd = \<lparr>b_id = None, b_model = [], b_cwd = [], b_created_at = 0, b_messages = [],
     b_tool_outputs = [], b_subagent_messages = [], b_title = DEFAULT_TITLE, b_token_usage = cd_default_usage cd,
     b_updated_at = 0, b_transcript = [], b_compactions = [], b_meta = default_meta cd, b_log_appends = 0,
     b_saw_legacy_transcript = False, b_recovered_structure = False, b_got_header = False\<rparr>"

definition push_transcript_entry ::
  "'m transcript_entry \<Rightarrow> ('m, 'u, 't, 'x) session_builder \<Rightarrow> ('m, 'u, 't, 'x) session_builder" where
  "push_transcript_entry entry b =
     (case b_compactions b of
        c # cs \<Rightarrow> b\<lparr>b_compactions := c\<lparr>pc_entries := pc_entries c @ [entry]\<rparr> # cs\<rparr>
      | [] \<Rightarrow> b\<lparr>b_transcript := b_transcript b @ [entry]\<rparr>)"

definition begin_unreadable_transcript_compaction ::
  "('m, 'u, 't, 'x) session_builder \<Rightarrow> ('m, 'u, 't, 'x) session_builder" where
  "begin_unreadable_transcript_compaction b =
     b\<lparr>b_recovered_structure := True,
       b_compactions := \<lparr>pc_entries = [], pc_generated_summary = None, pc_state_revision = None, pc_unreadable = True\<rparr> # b_compactions b\<rparr>"

definition finish_transcript_compaction ::
  "('m, 'u, 't, 'x) session_builder \<Rightarrow> ('m, 'u, 't, 'x) session_builder" where
  "finish_transcript_compaction b =
     (case b_compactions b of
        [] \<Rightarrow> b\<lparr>b_recovered_structure := True\<rparr>
      | c # cs \<Rightarrow>
          if pc_unreadable c then fold push_transcript_entry (pc_entries c) (b\<lparr>b_compactions := cs\<rparr>)
          else push_transcript_entry (Compaction (pc_entries c) (pc_generated_summary c) (pc_state_revision c))
                 (b\<lparr>b_compactions := cs\<rparr>))"

definition is_supported_log_format :: "u32 \<Rightarrow> bool" where
  "is_supported_log_format v \<longleftrightarrow> v = PREVIOUS_LOG_FORMAT_VERSION \<or> v = LOG_FORMAT_VERSION"

text \<open>\<open>HashMap::insert\<close>, and \<open>entry(..).or_default().push(..)\<close>.\<close>

fun upsert :: "'k \<Rightarrow> ('v option \<Rightarrow> 'v) \<Rightarrow> ('k \<times> 'v) list \<Rightarrow> ('k \<times> 'v) list" where
  "upsert k f [] = [(k, f None)]"
| "upsert k f ((k', v) # kvs) = (if k = k' then (k, f (Some v)) # kvs else (k', v) # upsert k f kvs)"

definition push_to :: "'m \<Rightarrow> 'm list option \<Rightarrow> 'm list" where
  "push_to d o' = (case o' of None \<Rightarrow> [d] | Some ds \<Rightarrow> ds @ [d])"

fun apply_record ::
  "('m, 'u, 't, 'x) session_builder \<Rightarrow> ('m, 'u, 't, 'x) log_record \<Rightarrow> session_error + ('m, 'u, 't, 'x) session_builder" where
  "apply_record b (Header v h_id h_model h_cwd h_title h_created h_parent) =
     (if \<not> is_supported_log_format v then Inl (VersionMismatch v LOG_FORMAT_VERSION)
      else Inr (b\<lparr>b_saw_legacy_transcript := (if v \<noteq> LOG_FORMAT_VERSION then True else b_saw_legacy_transcript b),
                  b_id := Some h_id, b_model := h_model, b_cwd := h_cwd, b_created_at := h_created,
                  b_meta := (b_meta b)\<lparr>sm_parent_id := h_parent\<rparr>,
                  b_title := (case h_title of Some t \<Rightarrow> t | None \<Rightarrow> b_title b),
                  b_got_header := True\<rparr>))"
| "apply_record b (Msg d) = Inr (b\<lparr>b_messages := b_messages b @ [d]\<rparr>)"
| "apply_record b (Out out_id d) = Inr (b\<lparr>b_tool_outputs := upsert out_id (\<lambda>_. d) (b_tool_outputs b)\<rparr>)"
| "apply_record b (SubMsg sub d) = Inr (b\<lparr>b_subagent_messages := upsert sub (push_to d) (b_subagent_messages b)\<rparr>)"
| "apply_record b (TranscriptRec d) = Inr (push_transcript_entry d b)"
| "apply_record b (TranscriptCompactionStart generated_summary state_revision) =
     Inr (if MAX_TRANSCRIPT_COMPACTION_DEPTH \<le> length (b_compactions b)
          then begin_unreadable_transcript_compaction b
          else b\<lparr>b_compactions := \<lparr>pc_entries = [], pc_generated_summary = generated_summary,
                   pc_state_revision = state_revision, pc_unreadable = False\<rparr> # b_compactions b\<rparr>)"
| "apply_record b TranscriptCompactionEnd = Inr (finish_transcript_compaction b)"
| "apply_record b (Meta m_title m_usage m_updated m_log_appends m_transcript m_meta) =
     Inr ((case m_transcript of
             Some t \<Rightarrow> b\<lparr>b_transcript := t, b_saw_legacy_transcript := True\<rparr>
           | None \<Rightarrow> b)\<lparr>b_title := m_title, b_token_usage := m_usage, b_updated_at := m_updated,
                        b_log_appends := m_log_appends, b_meta := m_meta\<rparr>)"
| "apply_record b (Oversized _) = Inr b"
| "apply_record b UnknownRecord = Inl UnknownRecordType"

definition apply_line ::
  "('m, 'u, 't, 'x) codec \<Rightarrow> str \<Rightarrow> ('m, 'u, 't, 'x) session_builder \<Rightarrow> session_error + ('m, 'u, 't, 'x) session_builder" where
  "apply_line cd line b =
     (if line = [] then Inr b
      else case cd_decode cd line of
             Reads r \<Rightarrow> apply_record b r
           | BadHeaderId raw_id \<Rightarrow> if \<not> b_got_header b then Inl (CorruptHeaderId raw_id) else Inr b
           | BadCompactionStart \<Rightarrow> Inr (begin_unreadable_transcript_compaction b)
           | BadLine \<Rightarrow> Inr b)"

text \<open>Reading a line counts its bytes with the line feed against the budget.\<close>

definition count_line :: "decode_limits \<Rightarrow> str \<Rightarrow> usize \<Rightarrow> session_error + usize" where
  "count_line lim line decoded =
     (if lim_decoded_bytes lim < decoded + length line + 1 then Inl (DecodedBudgetExceeded (lim_decoded_bytes lim))
      else if lim_line_bytes lim < length line then Inl (RecordTooLarge (lim_line_bytes lim))
      else Inr (decoded + length line + 1))"

fun visit_lines ::
  "('m, 'u, 't, 'x) codec \<Rightarrow> decode_limits \<Rightarrow> str list \<Rightarrow> ('m, 'u, 't, 'x) session_builder \<Rightarrow> usize
   \<Rightarrow> session_error + (('m, 'u, 't, 'x) session_builder \<times> usize)" where
  "visit_lines cd lim [] b decoded = Inr (b, decoded)"
| "visit_lines cd lim (line # lines) b decoded =
     bindR (count_line lim line decoded) (\<lambda>decoded'.
     bindR (apply_line cd line b) (\<lambda>b'. visit_lines cd lim lines b' decoded'))"

text \<open>A compaction that is still open at the end is closed in place.\<close>

fun close_open_compactions ::
  "nat \<Rightarrow> ('m, 'u, 't, 'x) session_builder \<Rightarrow> ('m, 'u, 't, 'x) session_builder" where
  "close_open_compactions 0 b = b"
| "close_open_compactions (Suc n) b = close_open_compactions n (finish_transcript_compaction b)"

definition close_unterminated :: "('m, 'u, 't, 'x) session_builder \<Rightarrow> ('m, 'u, 't, 'x) session_builder" where
  "close_unterminated b =
     (if b_compactions b \<noteq> []
      then close_open_compactions (length (b_compactions b)) (b\<lparr>b_recovered_structure := True\<rparr>) else b)"

definition normalize_builder :: "('m, 'u, 't, 'x) session_builder \<Rightarrow> ('m, 'u, 't, 'x) session_builder" where
  "normalize_builder b =
     (if MAX_TRANSCRIPT_COMPACTION_DEPTH < transcript_compaction_depth (b_transcript b)
      then b\<lparr>b_recovered_structure := True, b_transcript := cap_loaded (b_transcript b)\<rparr> else b)"

definition normalize_title :: "str \<Rightarrow> str" where
  "normalize_title title = join_words (split_whitespace title)"

definition builder_session ::
  "('m, 'u, 't, 'x) codec \<Rightarrow> session_id \<Rightarrow> ('m, 'u, 't, 'x) session_builder \<Rightarrow> ('m, 'u, 't, 'x) session" where
  "builder_session cd sid b =
     \<lparr>se_version = SESSION_VERSION, se_id = sid, se_title = normalize_title (b_title b), se_cwd = b_cwd b,
      se_model = b_model b, se_messages = b_messages b, se_transcript = b_transcript b, se_transcript_revision = None,
      se_token_usage = b_token_usage b, se_tool_outputs = b_tool_outputs b, se_subagent_messages = b_subagent_messages b,
      se_evicted_tool_outputs = {}, se_evicted_subagent_messages = {}, se_loaded_from_disk = True, se_meta = b_meta b,
      se_created_at = b_created_at b, se_updated_at = b_updated_at b\<rparr>"

record ('m, 'u, 't, 'x) parsed =
  pa_session :: "('m, 'u, 't, 'x) session"
  pa_needs_rewrite :: bool
  pa_log_appends :: u64
  pa_decoded_bytes :: usize

text \<open>What loading does after the last line.\<close>

definition finish_parse ::
  "('m, 'u, 't, 'x) codec \<Rightarrow> ('m, 'u, 't, 'x) session_builder \<Rightarrow> usize \<Rightarrow> session_error + ('m, 'u, 't, 'x) parsed" where
  "finish_parse cd b0 decoded_bytes =
     (let b = normalize_builder (close_unterminated b0)
      in bindR (ok_or NotFound (b_id b)) (\<lambda>sid.
           let s = builder_session cd sid b;
               transcript_only = (se_messages s = [] \<and> se_transcript s \<noteq> []);
               messages = (if transcript_only then active_messages_from_transcript (se_transcript s) else se_messages s);
               hydrated_messages = (transcript_only \<and> messages \<noteq> [])
           in Inr \<lparr>pa_session = s\<lparr>se_messages := messages\<rparr>,
                   pa_needs_rewrite = (b_saw_legacy_transcript b \<or> b_recovered_structure b \<or> hydrated_messages),
                   pa_log_appends = b_log_appends b, pa_decoded_bytes = decoded_bytes\<rparr>))"

definition parse_records ::
  "('m, 'u, 't, 'x) codec \<Rightarrow> decode_limits \<Rightarrow> str list \<Rightarrow> session_error + ('m, 'u, 't, 'x) parsed" where
  "parse_records cd lim lines =
     bindR (visit_lines cd lim lines (default_builder cd) 0) (\<lambda>(b, decoded_bytes). finish_parse cd b decoded_bytes)"

section \<open>Writing records\<close>

text \<open>A writer is the lines written so far and the bytes they decode to.\<close>

type_synonym writer = "str list \<times> usize"

definition account_record_bytes :: "decode_limits \<Rightarrow> usize \<Rightarrow> usize \<Rightarrow> session_error + usize" where
  "account_record_bytes lim written decoded_bytes =
     (if lim_decoded_bytes lim < decoded_bytes + written then Inl (DecodedBudgetExceeded (lim_decoded_bytes lim))
      else Inr (decoded_bytes + written))"

definition write_record_with_limits ::
  "('m, 'u, 't, 'x) codec \<Rightarrow> decode_limits \<Rightarrow> ('m, 'u, 't, 'x) log_record \<Rightarrow> writer \<Rightarrow> session_error + writer" where
  "write_record_with_limits cd lim r w =
     (case cd_encode cd r of
        None \<Rightarrow> Inl StorageFailed
      | Some line \<Rightarrow>
          if lim_line_bytes lim < length line then Inl (RecordTooLarge (lim_line_bytes lim))
          else bindR (account_record_bytes lim (length line + 1) (snd w)) (\<lambda>decoded. Inr (fst w @ [line], decoded)))"

text \<open>A record that can never fit leaves a tombstone in its place.\<close>

definition or_tombstone ::
  "('m, 'u, 't, 'x) codec \<Rightarrow> decode_limits \<Rightarrow> str \<Rightarrow> writer \<Rightarrow> session_error + writer \<Rightarrow> session_error + writer" where
  "or_tombstone cd lim kind w result =
     (case result of
        Inl (RecordTooLarge _) \<Rightarrow> write_record_with_limits cd lim (Oversized kind) w
      | _ \<Rightarrow> result)"

definition append_record_or_tombstone ::
  "('m, 'u, 't, 'x) codec \<Rightarrow> decode_limits \<Rightarrow> str \<Rightarrow> ('m, 'u, 't, 'x) log_record \<Rightarrow> writer \<Rightarrow> session_error + writer" where
  "append_record_or_tombstone cd lim kind r w = or_tombstone cd lim kind w (write_record_with_limits cd lim r w)"

fun write_all :: "('a \<Rightarrow> writer \<Rightarrow> session_error + writer) \<Rightarrow> 'a list \<Rightarrow> writer \<Rightarrow> session_error + writer" where
  "write_all f [] w = Inr w"
| "write_all f (x # xs) w = bindR (f x w) (write_all f xs)"

text \<open>The records of a transcript entry, outermost compaction first.\<close>

fun entry_records :: "'m transcript_entry \<Rightarrow> ('m, 'u, 't, 'x) log_record list" where
  "entry_records (TMessage m) = [TranscriptRec (TMessage m)]"
| "entry_records (GeneratedMessage m) = [TranscriptRec (GeneratedMessage m)]"
| "entry_records (Compaction entries generated_summary state_revision) =
     TranscriptCompactionStart generated_summary state_revision # concat (map entry_records entries) @ [TranscriptCompactionEnd]"

definition write_transcript_entry_with_limits ::
  "('m, 'u, 't, 'x) codec \<Rightarrow> decode_limits \<Rightarrow> 'm transcript_entry \<Rightarrow> writer \<Rightarrow> session_error + writer" where
  "write_transcript_entry_with_limits cd lim entry w = write_all (write_record_with_limits cd lim) (entry_records entry) w"

definition write_transcript ::
  "('m, 'u, 't, 'x) codec \<Rightarrow> decode_limits \<Rightarrow> 'm transcript_entry list \<Rightarrow> writer \<Rightarrow> session_error + writer" where
  "write_transcript cd lim entries =
     write_all (\<lambda>entry w. or_tombstone cd lim ''transcript'' w (write_transcript_entry_with_limits cd lim entry w)) entries"

section \<open>The meta record\<close>

definition has_resume_state :: "'x session_meta \<Rightarrow> bool" where
  "has_resume_state meta \<longleftrightarrow> sm_queued_submissions meta \<noteq> [] \<or> sm_queued_messages meta \<noteq> []
     \<or> sm_queued_direct_tools meta \<noteq> [] \<or> sm_subagents meta \<noteq> [] \<or> sm_direct_paused_team meta \<noteq> None
     \<or> sm_direct_output meta \<noteq> None"

text \<open>\<open>None\<close> when there is nothing left to shed.\<close>

definition shed_meta_recovery_state :: "'x session_meta \<Rightarrow> 'x session_meta option" where
  "shed_meta_recovery_state meta =
     (if sm_state_snapshot meta \<noteq> None then Some (meta\<lparr>sm_state_snapshot := None\<rparr>)
      else if \<not> has_resume_state meta then None
      else Some (meta\<lparr>sm_queued_submissions := [], sm_queued_messages := [], sm_queued_direct_tools := [],
                      sm_subagents := [], sm_direct_paused_team := None, sm_direct_output := None\<rparr>))"

definition meta_record :: "('m, 'u, 't, 'x) session \<Rightarrow> u64 \<Rightarrow> 'x session_meta \<Rightarrow> ('m, 'u, 't, 'x) log_record" where
  "meta_record s log_appends meta = Meta (se_title s) (se_token_usage s) (se_updated_at s) log_appends None meta"

text \<open>\<open>None\<close> when the record is too long.\<close>

definition serialize_meta_record ::
  "('m, 'u, 't, 'x) codec \<Rightarrow> ('m, 'u, 't, 'x) session \<Rightarrow> 'x session_meta \<Rightarrow> u64 \<Rightarrow> usize \<Rightarrow> session_error + str option" where
  "serialize_meta_record cd s meta log_appends line_bytes =
     (case cd_encode cd (meta_record s log_appends meta) of
        None \<Rightarrow> Inl StorageFailed
      | Some line \<Rightarrow> Inr (if line_bytes < length line then None else Some line))"

function shed_until_fits ::
  "('m, 'u, 't, 'x) codec \<Rightarrow> ('m, 'u, 't, 'x) session \<Rightarrow> 'x session_meta \<Rightarrow> u64 \<Rightarrow> usize \<Rightarrow> session_error + str" where
  "shed_until_fits cd s meta log_appends line_bytes =
     bindR (serialize_meta_record cd s meta log_appends line_bytes) (\<lambda>fits.
       case fits of
         Some line \<Rightarrow> Inr line
       | None \<Rightarrow>
           (case shed_meta_recovery_state meta of
              None \<Rightarrow> Inl (RecordTooLarge line_bytes)
            | Some meta' \<Rightarrow> shed_until_fits cd s meta' log_appends line_bytes))"
  by auto
termination
  by (relation "measure (\<lambda>(cd, s, meta, n, l). (if sm_state_snapshot meta \<noteq> None then 1 else 0) + (if has_resume_state meta then 1 else 0 :: nat))")
     (auto simp: shed_meta_recovery_state_def has_resume_state_def split: if_splits)

declare shed_until_fits.simps [simp del]

definition meta_record_bytes ::
  "('m, 'u, 't, 'x) codec \<Rightarrow> ('m, 'u, 't, 'x) session \<Rightarrow> u64 \<Rightarrow> usize \<Rightarrow> session_error + str" where
  "meta_record_bytes cd s log_appends line_bytes = shed_until_fits cd s (se_meta s) log_appends line_bytes"

section \<open>Writing a session\<close>

definition has_evicted_records :: "('m, 'u, 't, 'x) session \<Rightarrow> bool" where
  "has_evicted_records s \<longleftrightarrow> se_evicted_tool_outputs s \<noteq> {} \<or> se_evicted_subagent_messages s \<noteq> {}"

definition retained_line :: "('m, 'u, 't, 'x) codec \<Rightarrow> ('m, 'u, 't, 'x) session \<Rightarrow> str \<Rightarrow> bool" where
  "retained_line cd s line =
     (case cd_tag cd line of
        Some (RetainedOut i) \<Rightarrow> i \<in> se_evicted_tool_outputs s
      | Some (RetainedSubMsg sub) \<Rightarrow> sub \<in> se_evicted_subagent_messages s
      | _ \<Rightarrow> False)"

definition write_raw_record :: "decode_limits \<Rightarrow> str \<Rightarrow> writer \<Rightarrow> session_error + writer" where
  "write_raw_record lim line w =
     (if lim_line_bytes lim < length line then Inl (RecordTooLarge (lim_line_bytes lim))
      else bindR (account_record_bytes lim (length line + 1) (snd w)) (\<lambda>decoded. Inr (fst w @ [line], decoded)))"

fun copy_evicted_lines ::
  "('m, 'u, 't, 'x) codec \<Rightarrow> decode_limits \<Rightarrow> ('m, 'u, 't, 'x) session \<Rightarrow> str list \<Rightarrow> usize \<Rightarrow> writer \<Rightarrow> session_error + writer" where
  "copy_evicted_lines cd lim s [] read_bytes w = Inr w"
| "copy_evicted_lines cd lim s (line # lines) read_bytes w =
     bindR (count_line lim line read_bytes) (\<lambda>read_bytes'.
     bindR (if retained_line cd s line then write_raw_record lim line w else Inr w)
       (copy_evicted_lines cd lim s lines read_bytes'))"

definition copy_evicted_records ::
  "('m, 'u, 't, 'x) codec \<Rightarrow> decode_limits \<Rightarrow> ('m, 'u, 't, 'x) session \<Rightarrow> str list option \<Rightarrow> writer \<Rightarrow> session_error + writer" where
  "copy_evicted_records cd lim s source w =
     (case source of None \<Rightarrow> Inr w | Some lines \<Rightarrow> copy_evicted_lines cd lim s lines 0 w)"

definition header_record :: "('m, 'u, 't, 'x) session \<Rightarrow> ('m, 'u, 't, 'x) log_record" where
  "header_record s = Header LOG_FORMAT_VERSION (se_id s) (se_model s) (se_cwd s) (Some (se_title s)) (se_created_at s)
     (sm_parent_id (se_meta s))"

definition serialize_full_session ::
  "('m, 'u, 't, 'x) codec \<Rightarrow> decode_limits \<Rightarrow> ('m, 'u, 't, 'x) session \<Rightarrow> str list option \<Rightarrow> session_error + writer" where
  "serialize_full_session cd lim s source =
     bindR (write_record_with_limits cd lim (header_record s) ([], 0)) (\<lambda>w1.
     bindR (write_all (\<lambda>m. append_record_or_tombstone cd lim ''msg'' (Msg m)) (se_messages s) w1) (\<lambda>w2.
     bindR (write_all (\<lambda>(i, d). append_record_or_tombstone cd lim ''out'' (Out i d))
              (filter (\<lambda>(i, d). i \<notin> se_evicted_tool_outputs s) (se_tool_outputs s)) w2) (\<lambda>w3.
     bindR (write_all (\<lambda>(sub, msgs). write_all (\<lambda>m. append_record_or_tombstone cd lim ''sub_msg'' (SubMsg sub m)) msgs)
              (filter (\<lambda>(sub, msgs). sub \<notin> se_evicted_subagent_messages s) (se_subagent_messages s)) w3) (\<lambda>w4.
     bindR (if has_evicted_records s then copy_evicted_records cd lim s source w4 else Inr w4) (\<lambda>w5.
     bindR (write_transcript cd lim (se_transcript s) w5) (\<lambda>w6.
     bindR (meta_record_bytes cd s 0 (lim_line_bytes lim)) (\<lambda>meta.
     bindR (account_record_bytes lim (length meta + 1) (snd w6)) (\<lambda>decoded.
     Inr (fst w6 @ [meta], decoded)))))))))"

end
