(* ===== verification/Session_Store.thy ===== *)
theory Session_Store
  imports Session_Log
begin

text \<open>
  The operations on a session log (\<open>SessionLog\<close> of \<open>crates/n00n-storage/src/sessions.rs\<close>): creating,
  opening, appending what is new and rewriting the whole file, with the cursor that remembers what the
  file already holds.
\<close>

section \<open>File and cursor\<close>

text \<open>
  The file of a session: its lines, whether something unreadable follows them (the rest of a frame whose
  writing was interrupted), and the identity (device, inode, length) by which a cursor notices that
  someone else wrote it. A line stands without its line feed. A last line that lost its line feed while
  its frame is complete, which no writer of the program produces, is counted as if it had one.
\<close>

record log_file =
  lf_lines :: "str list"
  lf_torn :: bool
  lf_revision :: nat

record session_log =
  lg_session_id :: session_id
  lg_saved_messages :: "str list"
  lg_saved_transcript :: "str list"
  lg_saved_tool_ids :: "str list"
  lg_saved_sub_msg_counts :: "(str \<times> usize) list"
  lg_appended_frames :: u64
  lg_saved_transcript_revision :: "u64 option"
  lg_saved_meta :: str
  lg_saved_title :: str
  lg_decoded_bytes :: usize
  lg_file_revision :: nat

text \<open>
  What the operating system does to a call: whether writing and updating the index of working
  directories succeed, and the identity the file has afterwards. A failed write leaves the file as it
  was, by the rename of a complete file or by truncating it to its old length. Locks are granted, and a
  file that was just written can be opened and examined.
\<close>

record log_io =
  io_write_ok :: bool
  io_index_ok :: bool
  io_revision :: nat

definition capture_messages :: "('m, 'u, 't, 'x) codec \<Rightarrow> 'm list \<Rightarrow> session_error + str list" where
  "capture_messages cd ms = collectR (\<lambda>m. ok_or StorageFailed (cd_message cd m)) ms"

definition capture_entries :: "('m, 'u, 't, 'x) codec \<Rightarrow> 'm transcript_entry list \<Rightarrow> session_error + str list" where
  "capture_entries cd es = collectR (\<lambda>e. ok_or StorageFailed (cd_entry cd e)) es"

definition cursor_from ::
  "('m, 'u, 't, 'x) codec \<Rightarrow> decode_limits \<Rightarrow> ('m, 'u, 't, 'x) session \<Rightarrow> nat \<Rightarrow> u64 \<Rightarrow> usize \<Rightarrow> session_error + session_log" where
  "cursor_from cd lim s revision appended_frames decoded_bytes =
     bindR (capture_messages cd (se_messages s)) (\<lambda>saved_messages.
     bindR (capture_entries cd (se_transcript s)) (\<lambda>saved_transcript.
     bindR (meta_record_bytes cd s appended_frames (lim_line_bytes lim)) (\<lambda>saved_meta.
     Inr \<lparr>lg_session_id = se_id s, lg_saved_messages = saved_messages, lg_saved_transcript = saved_transcript,
       lg_saved_tool_ids = map fst (se_tool_outputs s) @ sorted_list_of_set (se_evicted_tool_outputs s),
       lg_saved_sub_msg_counts = map (\<lambda>(sub, msgs). (sub, length msgs)) (se_subagent_messages s),
       lg_appended_frames = appended_frames, lg_saved_transcript_revision = se_transcript_revision s,
       lg_saved_meta = saved_meta, lg_saved_title = se_title s, lg_decoded_bytes = decoded_bytes,
       lg_file_revision = revision\<rparr>)))"

definition write_session_file_with_limits ::
  "('m, 'u, 't, 'x) codec \<Rightarrow> decode_limits \<Rightarrow> log_io \<Rightarrow> ('m, 'u, 't, 'x) session \<Rightarrow> log_file option
   \<Rightarrow> session_error + (log_file \<times> usize)" where
  "write_session_file_with_limits cd lim io s disk =
     bindR (serialize_full_session cd lim s (map_option lf_lines disk)) (\<lambda>(lines, decoded_bytes).
       if io_write_ok io then Inr (\<lparr>lf_lines = lines, lf_torn = False, lf_revision = io_revision io\<rparr>, decoded_bytes)
       else Inl StorageFailed)"

section \<open>Operations\<close>

text \<open>Every operation returns the file it leaves, also when it fails.\<close>

definition create_with_limits ::
  "('m, 'u, 't, 'x) codec \<Rightarrow> decode_limits \<Rightarrow> log_io \<Rightarrow> ('m, 'u, 't, 'x) session \<Rightarrow> log_file option
   \<Rightarrow> (session_error + session_log) \<times> log_file option" where
  "create_with_limits cd lim io s disk =
     (case write_session_file_with_limits cd lim io s disk of
        Inl e \<Rightarrow> (Inl e, disk)
      | Inr (file, decoded_bytes) \<Rightarrow>
          (if io_index_ok io then cursor_from cd lim s (lf_revision file) 0 decoded_bytes else Inl StorageFailed, Some file))"

definition open_with_limits ::
  "('m, 'u, 't, 'x) codec \<Rightarrow> decode_limits \<Rightarrow> log_io \<Rightarrow> session_id \<Rightarrow> log_file option
   \<Rightarrow> (session_error + (('m, 'u, 't, 'x) session \<times> session_log)) \<times> log_file option" where
  "open_with_limits cd lim io sid disk =
     (case disk of
        None \<Rightarrow> (Inl NotFound, disk)
      | Some file \<Rightarrow>
          (case parse_records cd lim (lf_lines file) of
             Inl e \<Rightarrow> (Inl e, disk)
           | Inr p \<Rightarrow>
               let s = pa_session p; rewrite = (pa_needs_rewrite p \<or> lf_torn file)
               in if se_id s \<noteq> sid then (Inl (IdMismatch (se_id s) sid), disk)
                  else (case (if rewrite then write_session_file_with_limits cd lim io s disk else Inr (file, pa_decoded_bytes p)) of
                          Inl e \<Rightarrow> (Inl e, disk)
                        | Inr (file', decoded_bytes) \<Rightarrow>
                            (bindR (cursor_from cd lim s (lf_revision file') (if rewrite then 0 else pa_log_appends p) decoded_bytes)
                               (\<lambda>log. if io_index_ok io then Inr (s, log) else Inl StorageFailed), Some file'))))"

definition verify_current_file :: "session_log \<Rightarrow> log_file option \<Rightarrow> session_error + unit" where
  "verify_current_file log disk =
     (case disk of
        None \<Rightarrow> Inl ConcurrentModification
      | Some file \<Rightarrow> if lf_revision file \<noteq> lg_file_revision log then Inl ConcurrentModification else Inr ())"

definition require_same_id :: "session_log \<Rightarrow> ('m, 'u, 't, 'x) session \<Rightarrow> session_error + unit" where
  "require_same_id log s =
     (if se_id s \<noteq> lg_session_id log then Inl (IdMismatch (lg_session_id log) (se_id s)) else Inr ())"

type_synonym log_outcome = "(session_error + unit) \<times> session_log \<times> log_file option"

definition compact_with_limits_locked ::
  "('m, 'u, 't, 'x) codec \<Rightarrow> decode_limits \<Rightarrow> log_io \<Rightarrow> ('m, 'u, 't, 'x) session \<Rightarrow> session_log \<Rightarrow> log_file option \<Rightarrow> log_outcome" where
  "compact_with_limits_locked cd lim io s log disk =
     (case bindR (require_same_id log s) (\<lambda>_. write_session_file_with_limits cd lim io s disk) of
        Inl e \<Rightarrow> (Inl e, log, disk)
      | Inr (file, decoded_bytes) \<Rightarrow>
          (case cursor_from cd lim s (lf_revision file) 0 decoded_bytes of
             Inl e \<Rightarrow> (Inl e, log, Some file)
           | Inr log' \<Rightarrow> (if io_index_ok io then Inr () else Inl StorageFailed, log', Some file)))"

definition compact_with_limits ::
  "('m, 'u, 't, 'x) codec \<Rightarrow> decode_limits \<Rightarrow> log_io \<Rightarrow> ('m, 'u, 't, 'x) session \<Rightarrow> session_log \<Rightarrow> log_file option \<Rightarrow> log_outcome" where
  "compact_with_limits cd lim io s log disk =
     (case verify_current_file log disk of
        Inl e \<Rightarrow> (Inl e, log, disk)
      | Inr _ \<Rightarrow> compact_with_limits_locked cd lim io s log disk)"

definition updated_transcript_cursor ::
  "('m, 'u, 't, 'x) codec \<Rightarrow> session_log \<Rightarrow> ('m, 'u, 't, 'x) session \<Rightarrow> session_error + str list option" where
  "updated_transcript_cursor cd log s =
     (if se_transcript_revision s \<noteq> None \<and> se_transcript_revision s = lg_saved_transcript_revision log
         \<and> length (se_transcript s) = length (lg_saved_transcript log)
      then Inr None else bindR (capture_entries cd (se_transcript s)) (\<lambda>c. Inr (Some c)))"

definition transcript_replaced :: "session_log \<Rightarrow> str list option \<Rightarrow> bool" where
  "transcript_replaced log current = (case current of None \<Rightarrow> False | Some cursor \<Rightarrow> \<not> prefix (lg_saved_transcript log) cursor)"

definition cursor_ahead :: "session_log \<Rightarrow> ('m, 'u, 't, 'x) session \<Rightarrow> bool" where
  "cursor_ahead log s \<longleftrightarrow>
     length (se_messages s) < length (lg_saved_messages log)
     \<or> list_ex (\<lambda>i. map_of (se_tool_outputs s) i = None \<and> i \<notin> se_evicted_tool_outputs s) (lg_saved_tool_ids log)
     \<or> list_ex (\<lambda>(sub, count). sub \<notin> se_evicted_subagent_messages s
                 \<and> (case map_of (se_subagent_messages s) sub of None \<Rightarrow> True | Some msgs \<Rightarrow> length msgs < count))
         (lg_saved_sub_msg_counts log)"

definition saved_count :: "session_log \<Rightarrow> str \<Rightarrow> usize" where
  "saved_count log sub = (case map_of (lg_saved_sub_msg_counts log) sub of None \<Rightarrow> 0 | Some n \<Rightarrow> n)"

definition live_subagents :: "('m, 'u, 't, 'x) session \<Rightarrow> (str \<times> 'm list) list" where
  "live_subagents s = filter (\<lambda>(sub, msgs). sub \<notin> se_evicted_subagent_messages s) (se_subagent_messages s)"

definition append_subagent_records ::
  "('m, 'u, 't, 'x) codec \<Rightarrow> decode_limits \<Rightarrow> session_log \<Rightarrow> ('m, 'u, 't, 'x) session \<Rightarrow> writer \<Rightarrow> session_error + writer" where
  "append_subagent_records cd lim log s =
     write_all (\<lambda>(sub, msgs). write_all (\<lambda>m. append_record_or_tombstone cd lim ''sub_msg'' (SubMsg sub m)) (drop (saved_count log sub) msgs))
       (live_subagents s)"

definition new_sub_counts :: "session_log \<Rightarrow> ('m, 'u, 't, 'x) session \<Rightarrow> (str \<times> usize) list" where
  "new_sub_counts log s =
     map (\<lambda>(sub, msgs). (sub, length msgs)) (filter (\<lambda>(sub, msgs). saved_count log sub < length msgs) (live_subagents s))"

definition new_outputs :: "session_log \<Rightarrow> ('m, 'u, 't, 'x) session \<Rightarrow> (str \<times> 't) list" where
  "new_outputs log s = filter (\<lambda>(i, d). i \<notin> set (lg_saved_tool_ids log)) (se_tool_outputs s)"

text \<open>
  The lines an append writes, without the meta record that ends them; \<open>None\<close> when nothing has changed.
\<close>

definition prepare_append ::
  "('m, 'u, 't, 'x) codec \<Rightarrow> decode_limits \<Rightarrow> session_log \<Rightarrow> ('m, 'u, 't, 'x) session \<Rightarrow> session_error + (str list \<times> str \<times> usize) option" where
  "prepare_append cd lim log s =
     bindR (write_all (\<lambda>m. append_record_or_tombstone cd lim ''msg'' (Msg m))
              (drop (length (lg_saved_messages log)) (se_messages s)) ([], lg_decoded_bytes log)) (\<lambda>w1.
     bindR (write_all (\<lambda>(i, d). append_record_or_tombstone cd lim ''out'' (Out i d)) (new_outputs log s) w1) (\<lambda>w2.
     bindR (append_subagent_records cd lim log s w2) (\<lambda>w3.
     bindR (write_transcript cd lim (drop (length (lg_saved_transcript log)) (se_transcript s)) w3) (\<lambda>w4.
     bindR (meta_record_bytes cd s (lg_appended_frames log) (lim_line_bytes lim)) (\<lambda>current_meta.
       if fst w4 = [] \<and> current_meta = lg_saved_meta log then Inr None
       else bindR (meta_record_bytes cd s (lg_appended_frames log + 1) (lim_line_bytes lim)) (\<lambda>persisted_meta.
            bindR (account_record_bytes lim (length persisted_meta + 1) (snd w4)) (\<lambda>next_decoded_bytes.
            Inr (Some (fst w4 @ [persisted_meta], persisted_meta, next_decoded_bytes)))))))))"

definition appended_log ::
  "session_log \<Rightarrow> ('m, 'u, 't, 'x) session \<Rightarrow> str list \<Rightarrow> str list option \<Rightarrow> str \<Rightarrow> usize \<Rightarrow> nat \<Rightarrow> session_log" where
  "appended_log log s current_messages current_transcript persisted_meta next_decoded_bytes revision =
     log\<lparr>lg_file_revision := revision, lg_saved_messages := current_messages,
         lg_saved_transcript := (case current_transcript of Some c \<Rightarrow> c | None \<Rightarrow> lg_saved_transcript log),
         lg_saved_transcript_revision := se_transcript_revision s,
         lg_appended_frames := lg_appended_frames log + 1,
         lg_saved_tool_ids := lg_saved_tool_ids log @ map fst (new_outputs log s),
         lg_saved_sub_msg_counts :=
           fold (\<lambda>(sub, count). upsert sub (\<lambda>_. count)) (new_sub_counts log s) (lg_saved_sub_msg_counts log),
         lg_saved_meta := persisted_meta, lg_saved_title := se_title s, lg_decoded_bytes := next_decoded_bytes\<rparr>"

definition append_frame ::
  "('m, 'u, 't, 'x) codec \<Rightarrow> decode_limits \<Rightarrow> log_io \<Rightarrow> ('m, 'u, 't, 'x) session \<Rightarrow> session_log \<Rightarrow> log_file option
   \<Rightarrow> str list \<Rightarrow> str list option \<Rightarrow> log_outcome" where
  "append_frame cd lim io s log disk current_messages current_transcript =
     (case prepare_append cd lim log s of
        Inl (DecodedBudgetExceeded _) \<Rightarrow> compact_with_limits_locked cd lim io s log disk
      | Inl e \<Rightarrow> (Inl e, log, disk)
      | Inr None \<Rightarrow> (Inr (), log, disk)
      | Inr (Some (lines, persisted_meta, next_decoded_bytes)) \<Rightarrow>
          if \<not> io_write_ok io then (Inl StorageFailed, log, disk)
          else (Inr (),
                appended_log log s current_messages current_transcript persisted_meta next_decoded_bytes (io_revision io),
                map_option (\<lambda>file. file\<lparr>lf_lines := lf_lines file @ lines, lf_revision := io_revision io\<rparr>) disk))"

definition append_with_limits ::
  "('m, 'u, 't, 'x) codec \<Rightarrow> decode_limits \<Rightarrow> log_io \<Rightarrow> ('m, 'u, 't, 'x) session \<Rightarrow> session_log \<Rightarrow> log_file option \<Rightarrow> log_outcome" where
  "append_with_limits cd lim io s log disk =
     (case bindR (verify_current_file log disk) (\<lambda>_. require_same_id log s) of
        Inl e \<Rightarrow> (Inl e, log, disk)
      | Inr _ \<Rightarrow>
          if se_title s \<noteq> lg_saved_title log then compact_with_limits_locked cd lim io s log disk
          else (case capture_messages cd (se_messages s) of
                  Inl e \<Rightarrow> (Inl e, log, disk)
                | Inr current_messages \<Rightarrow>
                    if \<not> prefix (lg_saved_messages log) current_messages then compact_with_limits_locked cd lim io s log disk
                    else (case updated_transcript_cursor cd log s of
                            Inl e \<Rightarrow> (Inl e, log, disk)
                          | Inr current_transcript \<Rightarrow>
                              if transcript_replaced log current_transcript then compact_with_limits_locked cd lim io s log disk
                              else if cursor_ahead log s
                              then (Inl (CursorAhead (length (lg_saved_messages log)) (length (se_messages s))), log, disk)
                              else if MAX_INCREMENTAL_FRAMES \<le> lg_appended_frames log
                              then compact_with_limits_locked cd lim io s log disk
                              else append_frame cd lim io s log disk current_messages current_transcript)))"

end
