(* ===== verification/Session_Replay.thy ===== *)
theory Session_Replay
  imports Session_Store
begin

text \<open>
  What loading makes of the lines a log consists of: replaying records one by one, record kind by
  record kind, and what the writers produce when every record fits.
\<close>

section \<open>Replay\<close>

fun replay ::
  "('m, 'u, 't, 'x) codec \<Rightarrow> str list \<Rightarrow> ('m, 'u, 't, 'x) session_builder \<Rightarrow> session_error + ('m, 'u, 't, 'x) session_builder" where
  "replay cd [] b = Inr b"
| "replay cd (line # lines) b = bindR (apply_line cd line b) (replay cd lines)"

fun replay_records ::
  "('m, 'u, 't, 'x) log_record list \<Rightarrow> ('m, 'u, 't, 'x) session_builder \<Rightarrow> session_error + ('m, 'u, 't, 'x) session_builder" where
  "replay_records [] b = Inr b"
| "replay_records (r # rs) b = bindR (apply_record b r) (replay_records rs)"

lemma bindR_assoc: "bindR (bindR m f) g = bindR m (\<lambda>x. bindR (f x) g)"
  by (cases m) auto

lemma bindR_cong: "(\<And>x. m = Inr x \<Longrightarrow> f x = g x) \<Longrightarrow> bindR m f = bindR m g"
  by (cases m) auto

lemma replay_append [simp]: "replay cd (xs @ ys) b = bindR (replay cd xs b) (replay cd ys)"
  by (induction xs arbitrary: b) (auto simp: bindR_assoc intro: bindR_cong)

lemma replay_records_append [simp]: "replay_records (xs @ ys) b = bindR (replay_records xs b) (replay_records ys)"
  by (induction xs arbitrary: b) (auto simp: bindR_assoc intro: bindR_cong)

definition lines_bytes :: "str list \<Rightarrow> usize" where
  "lines_bytes lines = sum_list (map (\<lambda>l. length l + 1) lines)"

lemma lines_bytes_simps [simp]:
  "lines_bytes [] = 0" "lines_bytes (l # ls) = length l + 1 + lines_bytes ls"
  "lines_bytes (xs @ ys) = lines_bytes xs + lines_bytes ys"
  by (simp_all add: lines_bytes_def)

definition within :: "decode_limits \<Rightarrow> str list \<Rightarrow> usize \<Rightarrow> bool" where
  "within lim lines decoded \<longleftrightarrow>
     list_all (\<lambda>l. length l \<le> lim_line_bytes lim) lines \<and> decoded + lines_bytes lines \<le> lim_decoded_bytes lim"

lemma visit_lines_replay:
  "within lim lines decoded \<Longrightarrow>
   visit_lines cd lim lines b decoded = bindR (replay cd lines b) (\<lambda>b'. Inr (b', decoded + lines_bytes lines))"
proof (induction lines arbitrary: b decoded)
  case (Cons l lines)
  then have "count_line lim l decoded = Inr (decoded + length l + 1)" "within lim lines (decoded + length l + 1)"
    by (auto simp: within_def count_line_def)
  with Cons.IH show ?case by (simp add: bindR_assoc add.assoc)
qed simp

section \<open>The codec\<close>

text \<open>A line is read back as the record it was written from, and the identity of a message or entry determines it.\<close>

definition codec_faithful :: "('m, 'u, 't, 'x) codec \<Rightarrow> bool" where
  "codec_faithful cd \<longleftrightarrow>
     (\<forall>r line. cd_encode cd r = Some line \<longrightarrow> line \<noteq> [] \<and> cd_decode cd line = Reads r)
     \<and> (\<forall>m m' i. cd_message cd m = Some i \<longrightarrow> cd_message cd m' = Some i \<longrightarrow> m = m')
     \<and> (\<forall>e e' i. cd_entry cd e = Some i \<longrightarrow> cd_entry cd e' = Some i \<longrightarrow> e = e')"

lemma apply_line_encoded:
  "codec_faithful cd \<Longrightarrow> cd_encode cd r = Some line \<Longrightarrow> apply_line cd line b = apply_record b r"
  by (simp add: codec_faithful_def apply_line_def)

definition fits :: "('m, 'u, 't, 'x) codec \<Rightarrow> decode_limits \<Rightarrow> ('m, 'u, 't, 'x) log_record \<Rightarrow> bool" where
  "fits cd lim r \<longleftrightarrow> (\<exists>line. cd_encode cd r = Some line \<and> length line \<le> lim_line_bytes lim)"

definition lines_of :: "('m, 'u, 't, 'x) codec \<Rightarrow> ('m, 'u, 't, 'x) log_record list \<Rightarrow> str list" where
  "lines_of cd rs = map (\<lambda>r. the (cd_encode cd r)) rs"

lemma lines_of_simps [simp]:
  "lines_of cd [] = []" "lines_of cd (r # rs) = the (cd_encode cd r) # lines_of cd rs"
  "lines_of cd (xs @ ys) = lines_of cd xs @ lines_of cd ys"
  by (simp_all add: lines_of_def)

lemma replay_lines_of:
  "codec_faithful cd \<Longrightarrow> list_all (fits cd lim) rs \<Longrightarrow> replay cd (lines_of cd rs) b = replay_records rs b"
proof (induction rs arbitrary: b)
  case (Cons r rs)
  then have "apply_line cd (the (cd_encode cd r)) b = apply_record b r" by (auto simp: fits_def apply_line_encoded)
  with Cons show ?case by (auto intro: bindR_cong)
qed simp

section \<open>Writers when every record fits\<close>

definition write_records ::
  "('m, 'u, 't, 'x) codec \<Rightarrow> decode_limits \<Rightarrow> ('m, 'u, 't, 'x) log_record list \<Rightarrow> writer \<Rightarrow> session_error + writer" where
  "write_records cd lim = write_all (write_record_with_limits cd lim)"

lemma write_record_fits:
  "fits cd lim r \<Longrightarrow> write_record_with_limits cd lim r w =
     (if snd w + lines_bytes (lines_of cd [r]) \<le> lim_decoded_bytes lim
      then Inr (fst w @ lines_of cd [r], snd w + lines_bytes (lines_of cd [r]))
      else Inl (DecodedBudgetExceeded (lim_decoded_bytes lim)))"
  by (auto simp: fits_def write_record_with_limits_def account_record_bytes_def)

lemma write_records_fits:
  "list_all (fits cd lim) rs \<Longrightarrow> write_records cd lim rs w =
     (if rs = [] \<or> snd w + lines_bytes (lines_of cd rs) \<le> lim_decoded_bytes lim
      then Inr (fst w @ lines_of cd rs, snd w + lines_bytes (lines_of cd rs))
      else Inl (DecodedBudgetExceeded (lim_decoded_bytes lim)))"
proof (induction rs arbitrary: w)
  case (Cons r rs)
  then show ?case
    using Cons.IH [of "(fst w @ lines_of cd [r], snd w + lines_bytes (lines_of cd [r]))"]
    by (cases "rs = []") (simp_all add: write_records_def write_record_fits)
qed (simp add: write_records_def)

lemma write_all_append: "write_all f (xs @ ys) w = bindR (write_all f xs w) (write_all f ys)"
  by (induction xs arbitrary: w) (auto simp: bindR_assoc intro: bindR_cong)

lemma write_records_append: "write_records cd lim (xs @ ys) w = bindR (write_records cd lim xs w) (write_records cd lim ys)"
  by (simp add: write_records_def write_all_append)

lemma or_tombstone_fits:
  "list_all (fits cd lim) rs \<Longrightarrow> or_tombstone cd lim kind w (write_records cd lim rs w) = write_records cd lim rs w"
  by (simp add: write_records_fits or_tombstone_def)

lemma append_record_fits:
  "fits cd lim r \<Longrightarrow> append_record_or_tombstone cd lim kind r = write_records cd lim [r]"
proof
  fix w assume "fits cd lim r"
  moreover have "write_records cd lim [r] w = write_record_with_limits cd lim r w"
    by (cases "write_record_with_limits cd lim r w") (auto simp: write_records_def)
  ultimately show "append_record_or_tombstone cd lim kind r w = write_records cd lim [r] w"
    using or_tombstone_fits [of cd lim "[r]" kind w] by (simp add: append_record_or_tombstone_def)
qed

text \<open>A loop that writes the records \<open>g x\<close> for each \<open>x\<close>.\<close>

lemma write_all_records:
  "(\<And>x. x \<in> set xs \<Longrightarrow> f x = write_records cd lim (g x)) \<Longrightarrow> write_all f xs w = write_records cd lim (concat (map g xs)) w"
proof (induction xs arbitrary: w)
  case (Cons x xs)
  then have "write_all f xs = write_records cd lim (concat (map g xs))" by auto
  with Cons.prems show ?case by (simp add: write_records_append)
qed (simp add: write_records_def)

lemma write_all_single:
  assumes "\<And>x. x \<in> set xs \<Longrightarrow> fits cd lim (g x)"
  shows "write_all (\<lambda>x. append_record_or_tombstone cd lim kind (g x)) xs w = write_records cd lim (map g xs) w"
  using write_all_records [of xs "\<lambda>x. append_record_or_tombstone cd lim kind (g x)" cd lim "\<lambda>x. [g x]" w] assms
  by (simp add: append_record_fits)

lemma write_transcript_fits:
  assumes "\<And>e. e \<in> set es \<Longrightarrow> list_all (fits cd lim) (entry_records e)"
  shows "write_transcript cd lim es w = write_records cd lim (concat (map entry_records es)) w"
  unfolding write_transcript_def
  by (rule write_all_records)
     (use assms or_tombstone_fits in \<open>force simp: write_transcript_entry_with_limits_def write_records_def\<close>)

section \<open>Replay of each kind of record\<close>

lemma replay_msgs [simp]: "replay_records (map Msg ms) b = Inr (b\<lparr>b_messages := b_messages b @ ms\<rparr>)"
  by (induction ms arbitrary: b) auto

lemma map_of_upsert: "map_of (upsert k f kvs) = (map_of kvs)(k \<mapsto> f (map_of kvs k))"
  by (induction kvs) (auto simp: fun_eq_iff)

lemma replay_outs:
  "distinct (map fst kvs) \<Longrightarrow>
   \<exists>X. replay_records (map (\<lambda>(i, d). Out i d) kvs) b = Inr (b\<lparr>b_tool_outputs := X\<rparr>)
     \<and> map_of X = map_of (b_tool_outputs b) ++ map_of kvs"
proof (induction kvs arbitrary: b)
  case Nil
  show ?case by (rule exI [of _ "b_tool_outputs b"]) simp
next
  case (Cons kv kvs)
  obtain i d where kv: "kv = (i, d)" by fastforce
  let ?b = "b\<lparr>b_tool_outputs := upsert i (\<lambda>_. d) (b_tool_outputs b)\<rparr>"
  obtain X where "replay_records (map (\<lambda>(i, d). Out i d) kvs) ?b = Inr (?b\<lparr>b_tool_outputs := X\<rparr>)"
    "map_of X = map_of (b_tool_outputs ?b) ++ map_of kvs"
    using Cons.IH [of ?b] Cons.prems by (force simp: kv)
  moreover have "i \<notin> dom (map_of kvs)" using Cons.prems kv by (simp add: dom_map_of_conv_image_fst)
  ultimately show ?case
    by (intro exI [of _ X]) (auto simp: kv map_of_upsert fun_eq_iff map_add_def split: option.splits)
qed

definition joined :: "'m list option \<Rightarrow> 'm list \<Rightarrow> 'm list option" where
  "joined old ms = (if ms = [] then old else Some ((case old of None \<Rightarrow> [] | Some l \<Rightarrow> l) @ ms))"

lemma replay_sub:
  "\<exists>X. replay_records (map (SubMsg sub) ms) b = Inr (b\<lparr>b_subagent_messages := X\<rparr>)
     \<and> map_of X = (map_of (b_subagent_messages b))(sub := joined (map_of (b_subagent_messages b) sub) ms)"
proof (induction ms arbitrary: b)
  case Nil
  show ?case by (rule exI [of _ "b_subagent_messages b"]) (simp add: joined_def)
next
  case (Cons m ms)
  let ?b = "b\<lparr>b_subagent_messages := upsert sub (push_to m) (b_subagent_messages b)\<rparr>"
  obtain X where X: "replay_records (map (SubMsg sub) ms) ?b = Inr (?b\<lparr>b_subagent_messages := X\<rparr>)"
    "map_of X = (map_of (b_subagent_messages ?b))(sub := joined (map_of (b_subagent_messages ?b) sub) ms)"
    using Cons [of ?b] by blast
  then show ?case
    by (intro exI [of _ X]) (auto simp: map_of_upsert joined_def push_to_def fun_eq_iff split: option.splits)
qed

definition sub_records :: "(str \<times> 'm list) list \<Rightarrow> ('m, 'u, 't, 'x) log_record list" where
  "sub_records kvs = concat (map (\<lambda>(sub, ms). map (SubMsg sub) ms) kvs)"

lemma replay_subs:
  "distinct (map fst kvs) \<Longrightarrow>
   \<exists>X. replay_records (sub_records kvs) b = Inr (b\<lparr>b_subagent_messages := X\<rparr>)
     \<and> (\<forall>sub. map_of X sub = joined (map_of (b_subagent_messages b) sub) (case map_of kvs sub of None \<Rightarrow> [] | Some ms \<Rightarrow> ms))"
proof (induction kvs arbitrary: b)
  case Nil
  show ?case by (rule exI [of _ "b_subagent_messages b"]) (simp add: sub_records_def joined_def)
next
  case (Cons kv kvs)
  obtain k ms where kv: "kv = (k, ms)" by fastforce
  obtain X where X: "replay_records (map (SubMsg k) ms) b = Inr (b\<lparr>b_subagent_messages := X\<rparr>)"
    "map_of X = (map_of (b_subagent_messages b))(k := joined (map_of (b_subagent_messages b) k) ms)"
    using replay_sub [of k ms b] by blast
  obtain Y where Y: "replay_records (sub_records kvs) (b\<lparr>b_subagent_messages := X\<rparr>) = Inr (b\<lparr>b_subagent_messages := Y\<rparr>)"
    "\<forall>sub. map_of Y sub = joined (map_of X sub) (case map_of kvs sub of None \<Rightarrow> [] | Some ms \<Rightarrow> ms)"
    using Cons.IH [of "b\<lparr>b_subagent_messages := X\<rparr>"] Cons.prems by fastforce
  have "map_of kvs k = None" using Cons.prems kv by (simp add: map_of_eq_None_iff)
  with X Y show ?case
    by (intro exI [of _ Y]) (auto simp: sub_records_def kv joined_def)
qed

text \<open>
  Inside an open compaction the entries go to it; as long as the nesting fits under the cap, the
  records of an entry put exactly this entry back.
\<close>

lemma replay_entry:
  "length (b_compactions b) + transcript_compaction_depth [e] \<le> MAX_TRANSCRIPT_COMPACTION_DEPTH \<Longrightarrow>
   replay_records (entry_records e) b = Inr (push_transcript_entry e b)"
proof (induction e arbitrary: b)
  case (Compaction entries summary revision)
  let ?p = "\<lparr>pc_entries = [], pc_generated_summary = summary, pc_state_revision = revision, pc_unreadable = False\<rparr>"
  have cap: "length (b_compactions b) < MAX_TRANSCRIPT_COMPACTION_DEPTH"
    "Suc (length (b_compactions b)) + transcript_compaction_depth entries \<le> MAX_TRANSCRIPT_COMPACTION_DEPTH"
    using Compaction.prems by auto
  have inner: "replay_records (concat (map entry_records es)) (b\<lparr>b_compactions := ?p\<lparr>pc_entries := pre\<rparr> # b_compactions b\<rparr>)
      = Inr (b\<lparr>b_compactions := ?p\<lparr>pc_entries := pre @ es\<rparr> # b_compactions b\<rparr>)"
    if "set es \<subseteq> set entries" "Suc (length (b_compactions b)) + transcript_compaction_depth es \<le> MAX_TRANSCRIPT_COMPACTION_DEPTH" for es pre
    using that
  proof (induction es arbitrary: pre)
    case (Cons e es)
    have "transcript_compaction_depth (e # es) = max (transcript_compaction_depth [e]) (transcript_compaction_depth es)"
      using depth_append [of "[e]" es] by simp
    with Cons Compaction.IH [of e] show ?case by (simp add: push_transcript_entry_def)
  qed simp
  have b: "b\<lparr>b_compactions := ?p # b_compactions b\<rparr> = b\<lparr>b_compactions := ?p\<lparr>pc_entries := []\<rparr> # b_compactions b\<rparr>" by simp
  show ?case
    using cap inner [of entries "[]"] by (simp add: finish_transcript_compaction_def)
qed simp_all

lemma replay_transcript:
  "b_compactions b = [] \<Longrightarrow> transcript_compaction_depth es \<le> MAX_TRANSCRIPT_COMPACTION_DEPTH \<Longrightarrow>
   replay_records (concat (map entry_records es)) b = Inr (b\<lparr>b_transcript := b_transcript b @ es\<rparr>)"
proof (induction es arbitrary: b)
  case (Cons e es)
  have "transcript_compaction_depth (e # es) = max (transcript_compaction_depth [e]) (transcript_compaction_depth es)"
    using depth_append [of "[e]" es] by simp
  with Cons replay_entry [of b e] show ?case by (simp add: push_transcript_entry_def)
qed simp

end
