(* ===== verification/Session_Guarantees.thy ===== *)
theory Session_Guarantees
  imports Session_Replay
begin

text \<open>
  A session that was saved is read back: by the record of the whole session, by the records appended
  to it, and by any sequence of saves; and what the log does not keep.
\<close>

section \<open>What a file holds\<close>

definition nonempty :: "'a list option \<Rightarrow> 'a list option" where
  "nonempty o' = (case o' of Some [] \<Rightarrow> None | _ \<Rightarrow> o')"

definition represents ::
  "u64 \<Rightarrow> ('m, 'u, 't, 'x) session_builder \<Rightarrow> ('m, 'u, 't, 'x) session \<Rightarrow> bool" where
  "represents n b s \<longleftrightarrow>
     b_id b = Some (se_id s) \<and> b_model b = se_model s \<and> b_cwd b = se_cwd s \<and> b_created_at b = se_created_at s
     \<and> b_messages b = se_messages s \<and> map_of (b_tool_outputs b) = map_of (se_tool_outputs s)
     \<and> (\<forall>sub. map_of (b_subagent_messages b) sub = nonempty (map_of (se_subagent_messages s) sub))
     \<and> b_title b = se_title s \<and> b_token_usage b = se_token_usage s \<and> b_updated_at b = se_updated_at s
     \<and> b_transcript b = se_transcript s \<and> b_compactions b = [] \<and> b_meta b = se_meta s \<and> b_log_appends b = n
     \<and> \<not> b_saw_legacy_transcript b \<and> \<not> b_recovered_structure b"

definition file_holds ::
  "('m, 'u, 't, 'x) codec \<Rightarrow> decode_limits \<Rightarrow> u64 \<Rightarrow> log_file \<Rightarrow> ('m, 'u, 't, 'x) session \<Rightarrow> bool" where
  "file_holds cd lim n fl s \<longleftrightarrow> \<not> lf_torn fl \<and> within lim (lf_lines fl) 0
     \<and> (\<exists>b. replay cd (lf_lines fl) (default_builder cd) = Inr b \<and> represents n b s)"

text \<open>A loaded session agrees with the saved one in all that is stored; hash maps agree as maps.\<close>

definition same_session :: "('m, 'u, 't, 'x) session \<Rightarrow> ('m, 'u, 't, 'x) session \<Rightarrow> bool" where
  "same_session s s' \<longleftrightarrow>
     se_id s' = se_id s \<and> se_title s' = se_title s \<and> se_cwd s' = se_cwd s \<and> se_model s' = se_model s
     \<and> se_messages s' = se_messages s \<and> se_transcript s' = se_transcript s \<and> se_token_usage s' = se_token_usage s
     \<and> map_of (se_tool_outputs s') = map_of (se_tool_outputs s)
     \<and> (\<forall>sub. map_of (se_subagent_messages s') sub = nonempty (map_of (se_subagent_messages s) sub))
     \<and> se_meta s' = se_meta s \<and> se_created_at s' = se_created_at s \<and> se_updated_at s' = se_updated_at s"

text \<open>Sessions with nothing evicted, within the cap on nesting, with a normalized title.\<close>

definition storable :: "('m, 'u, 't, 'x) session \<Rightarrow> bool" where
  "storable s \<longleftrightarrow> \<not> has_evicted_records s \<and> distinct (map fst (se_tool_outputs s)) \<and> distinct (map fst (se_subagent_messages s))
     \<and> transcript_compaction_depth (se_transcript s) \<le> MAX_TRANSCRIPT_COMPACTION_DEPTH
     \<and> normalize_title (se_title s) = se_title s \<and> (se_messages s \<noteq> [] \<or> se_transcript s = [])"

lemma parse_holds:
  assumes "file_holds cd lim n fl s" and "storable s"
  shows "\<exists>p. parse_records cd lim (lf_lines fl) = Inr p \<and> same_session s (pa_session p)
    \<and> \<not> pa_needs_rewrite p \<and> pa_log_appends p = n \<and> pa_decoded_bytes p = lines_bytes (lf_lines fl)"
proof -
  obtain b where b: "replay cd (lf_lines fl) (default_builder cd) = Inr b" "represents n b s"
    using assms(1) by (auto simp: file_holds_def)
  have v: "visit_lines cd lim (lf_lines fl) (default_builder cd) 0 = Inr (b, lines_bytes (lf_lines fl))"
    using assms(1) b(1) visit_lines_replay [of lim "lf_lines fl" 0 cd "default_builder cd"] by (simp add: file_holds_def)
  have nb: "normalize_builder (close_unterminated b) = b"
    using b(2) assms(2) by (simp add: represents_def close_unterminated_def normalize_builder_def storable_def)
  show ?thesis
    using b(2) assms(2)
    by (auto simp: parse_records_def finish_parse_def v nb Let_def represents_def same_session_def storable_def builder_session_def)
qed

section \<open>Writing the whole session\<close>

definition session_records :: "('m, 'u, 't, 'x) session \<Rightarrow> ('m, 'u, 't, 'x) log_record list" where
  "session_records s = header_record s # map Msg (se_messages s) @ map (\<lambda>(i, d). Out i d) (se_tool_outputs s)
     @ sub_records (se_subagent_messages s) @ concat (map entry_records (se_transcript s))"

definition session_fits :: "('m, 'u, 't, 'x) codec \<Rightarrow> decode_limits \<Rightarrow> ('m, 'u, 't, 'x) session \<Rightarrow> bool" where
  "session_fits cd lim s \<longleftrightarrow> list_all (fits cd lim) (session_records s)"

definition meta_fits :: "('m, 'u, 't, 'x) codec \<Rightarrow> decode_limits \<Rightarrow> ('m, 'u, 't, 'x) session \<Rightarrow> u64 \<Rightarrow> bool" where
  "meta_fits cd lim s n \<longleftrightarrow> fits cd lim (meta_record s n (se_meta s))"

lemma meta_record_bytes_fits:
  "meta_fits cd lim s n \<Longrightarrow> meta_record_bytes cd s n (lim_line_bytes lim) = Inr (the (cd_encode cd (meta_record s n (se_meta s))))"
  by (auto simp: meta_fits_def fits_def meta_record_bytes_def shed_until_fits.simps [of cd s "se_meta s"] serialize_meta_record_def)

lemma fits_lines: "list_all (fits cd lim) rs \<Longrightarrow> list_all (\<lambda>l. length l \<le> lim_line_bytes lim) (lines_of cd rs)"
  by (induction rs) (auto simp: fits_def)

lemma subs_writer:
  assumes "\<And>k ms m. (k, ms) \<in> set kvs \<Longrightarrow> m \<in> set ms \<Longrightarrow> fits cd lim (SubMsg k m)"
  shows "write_all (\<lambda>(sub, msgs). write_all (\<lambda>m. append_record_or_tombstone cd lim ''sub_msg'' (SubMsg sub m)) msgs) kvs w
     = write_records cd lim (sub_records kvs) w"
  unfolding sub_records_def
  by (rule write_all_records) (use assms in \<open>auto simp: fun_eq_iff intro!: write_all_single\<close>)

lemma outs_writer:
  assumes "\<And>i d. (i, d) \<in> set kvs \<Longrightarrow> fits cd lim (Out i d)"
  shows "write_all (\<lambda>(i, d). append_record_or_tombstone cd lim ''out'' (Out i d)) kvs w
     = write_records cd lim (map (\<lambda>(i, d). Out i d) kvs) w"
  using write_all_single [of kvs cd lim "\<lambda>(i, d). Out i d" "''out''" w] assms by (auto simp: case_prod_unfold)

lemma session_fits_parts:
  assumes "session_fits cd lim s"
  shows "fits cd lim (header_record s)"
    "\<And>m. m \<in> set (se_messages s) \<Longrightarrow> fits cd lim (Msg m)"
    "\<And>i d. (i, d) \<in> set (se_tool_outputs s) \<Longrightarrow> fits cd lim (Out i d)"
    "\<And>k ms m. (k, ms) \<in> set (se_subagent_messages s) \<Longrightarrow> m \<in> set ms \<Longrightarrow> fits cd lim (SubMsg k m)"
    "\<And>e. e \<in> set (se_transcript s) \<Longrightarrow> list_all (fits cd lim) (entry_records e)"
  using assms by (force simp: session_fits_def session_records_def sub_records_def list_all_iff)+

lemma serialize_full_fits:
  assumes f: "session_fits cd lim s" "meta_fits cd lim s 0" and ev: "\<not> has_evicted_records s"
  shows "serialize_full_session cd lim s src =
    bindR (write_records cd lim (session_records s) ([], 0)) (\<lambda>w.
    bindR (account_record_bytes lim (length (the (cd_encode cd (meta_record s 0 (se_meta s)))) + 1) (snd w)) (\<lambda>decoded.
    Inr (fst w @ [the (cd_encode cd (meta_record s 0 (se_meta s)))], decoded)))"
proof -
  note parts = session_fits_parts [OF f(1)]
  have e: "filter (\<lambda>(i, d). i \<notin> se_evicted_tool_outputs s) (se_tool_outputs s) = se_tool_outputs s"
    "filter (\<lambda>(sub, msgs). sub \<notin> se_evicted_subagent_messages s) (se_subagent_messages s) = se_subagent_messages s"
    using ev by (simp_all add: has_evicted_records_def)
  have h: "write_record_with_limits cd lim (header_record s) = write_records cd lim [header_record s]"
    using append_record_fits [OF parts(1)] by (auto simp: fun_eq_iff write_records_def bindR_def split: sum.splits)
  have c: "write_records cd lim (header_record s # X) w = bindR (write_records cd lim [header_record s] w) (write_records cd lim X)" for X w
    using write_records_append [of cd lim "[header_record s]" X w] by simp
  show ?thesis
    unfolding serialize_full_session_def session_records_def e h c [of "map Msg (se_messages s) @ X" for X]
    using ev parts
    by (simp add: write_all_single subs_writer outs_writer write_transcript_fits meta_record_bytes_fits [OF f(2)]
        write_records_append bindR_assoc)
qed

lemma write_records_ok:
  assumes "list_all (fits cd lim) rs" and "write_records cd lim rs w = Inr w'"
  shows "w' = (fst w @ lines_of cd rs, snd w + lines_bytes (lines_of cd rs))"
    "rs \<noteq> [] \<Longrightarrow> snd w + lines_bytes (lines_of cd rs) \<le> lim_decoded_bytes lim"
  using assms by (auto simp: write_records_fits split: if_splits)

lemma replay_header:
  obtains b where "apply_record (default_builder cd) (header_record s) = Inr b"
    "b_id b = Some (se_id s)" "b_model b = se_model s" "b_cwd b = se_cwd s" "b_created_at b = se_created_at s"
    "b_messages b = []" "b_tool_outputs b = []" "b_subagent_messages b = []" "b_transcript b = []" "b_compactions b = []"
    "\<not> b_saw_legacy_transcript b" "\<not> b_recovered_structure b"
  by (rule that [of "(default_builder cd)\<lparr>b_id := Some (se_id s), b_model := se_model s, b_cwd := se_cwd s,
        b_created_at := se_created_at s, b_meta := (default_meta cd)\<lparr>sm_parent_id := sm_parent_id (se_meta s)\<rparr>,
        b_title := se_title s, b_got_header := True\<rparr>"])
     (simp_all add: header_record_def is_supported_log_format_def default_builder_def)

lemma joined_None: "joined None ms = nonempty (Some ms)"
  by (cases ms) (simp_all add: joined_def nonempty_def)

lemma replay_full:
  assumes "storable s"
  shows "\<exists>b. replay_records (session_records s @ [meta_record s n (se_meta s)]) (default_builder cd) = Inr b \<and> represents n b s"
proof -
  obtain b1 where b1: "apply_record (default_builder cd) (header_record s) = Inr b1"
    and p1: "b_id b1 = Some (se_id s)" "b_model b1 = se_model s" "b_cwd b1 = se_cwd s" "b_created_at b1 = se_created_at s"
    "b_messages b1 = []" "b_tool_outputs b1 = []" "b_subagent_messages b1 = []" "b_transcript b1 = []" "b_compactions b1 = []"
    "\<not> b_saw_legacy_transcript b1" "\<not> b_recovered_structure b1"
    by (rule replay_header)
  obtain X where X: "replay_records (map (\<lambda>(i, d). Out i d) (se_tool_outputs s)) (b1\<lparr>b_messages := se_messages s\<rparr>)
      = Inr (b1\<lparr>b_messages := se_messages s, b_tool_outputs := X\<rparr>)" "map_of X = map_of (se_tool_outputs s)"
    using assms replay_outs [of "se_tool_outputs s" "b1\<lparr>b_messages := se_messages s\<rparr>"] by (auto simp: storable_def p1)
  obtain Y where Y: "replay_records (sub_records (se_subagent_messages s)) (b1\<lparr>b_messages := se_messages s, b_tool_outputs := X\<rparr>)
      = Inr (b1\<lparr>b_messages := se_messages s, b_tool_outputs := X, b_subagent_messages := Y\<rparr>)"
    "\<forall>sub. map_of Y sub = joined None (case map_of (se_subagent_messages s) sub of None \<Rightarrow> [] | Some ms \<Rightarrow> ms)"
    using assms replay_subs [of "se_subagent_messages s" "b1\<lparr>b_messages := se_messages s, b_tool_outputs := X\<rparr>"]
    by (auto simp: storable_def p1)
  let ?b4 = "b1\<lparr>b_messages := se_messages s, b_tool_outputs := X, b_subagent_messages := Y, b_transcript := se_transcript s\<rparr>"
  have T: "replay_records (concat (map entry_records (se_transcript s)))
      (b1\<lparr>b_messages := se_messages s, b_tool_outputs := X, b_subagent_messages := Y\<rparr>) = Inr ?b4"
    using assms by (subst replay_transcript) (simp_all add: storable_def p1)
  have "replay_records (session_records s @ [meta_record s n (se_meta s)]) (default_builder cd)
      = replay_records [meta_record s n (se_meta s)] ?b4"
    by (simp add: session_records_def b1 p1 X(1) Y(1) T)
  then show ?thesis
    using X(2) Y(2)
    by (auto simp: meta_record_def represents_def p1 joined_None nonempty_def split: option.splits list.splits)
qed

lemma written_file_holds:
  assumes cd: "codec_faithful cd" and f: "session_fits cd lim s" "meta_fits cd lim s 0" and s: "storable s"
    and w: "write_session_file_with_limits cd lim io s disk = Inr (fl, decoded)"
  shows "file_holds cd lim 0 fl s" "decoded = lines_bytes (lf_lines fl)" "lf_revision fl = io_revision io"
proof -
  let ?rs = "session_records s @ [meta_record s 0 (se_meta s)]"
  have fit: "list_all (fits cd lim) ?rs" using f by (simp add: session_fits_def meta_fits_def)
  have ev: "\<not> has_evicted_records s" using s by (simp add: storable_def)
  obtain w1 where w1: "write_records cd lim (session_records s) ([], 0) = Inr w1"
    using w by (auto simp: write_session_file_with_limits_def serialize_full_fits [OF f ev] result_simps)
  have "w1 = (lines_of cd (session_records s), lines_bytes (lines_of cd (session_records s)))"
    using write_records_ok(1) [OF _ w1] f(1) by (simp add: session_fits_def)
  then have l: "lf_lines fl = lines_of cd ?rs" "\<not> lf_torn fl" "decoded = lines_bytes (lf_lines fl)"
      "lines_bytes (lf_lines fl) \<le> lim_decoded_bytes lim" "lf_revision fl = io_revision io"
    using w by (auto simp: write_session_file_with_limits_def serialize_full_fits [OF f ev] w1 account_record_bytes_def result_simps
        split: if_splits)
  have "within lim (lf_lines fl) 0" using l fits_lines [OF fit] by (simp add: within_def)
  moreover obtain b where "replay cd (lf_lines fl) (default_builder cd) = Inr b" "represents 0 b s"
    using replay_full [OF s, of 0 cd] replay_lines_of [OF cd fit, of "default_builder cd"] l(1) by auto
  ultimately show "file_holds cd lim 0 fl s" using l(2) by (auto simp: file_holds_def)
  show "decoded = lines_bytes (lf_lines fl)" "lf_revision fl = io_revision io" by (rule l)+
qed

section \<open>The cursor\<close>

definition cursor_matches ::
  "('m, 'u, 't, 'x) codec \<Rightarrow> decode_limits \<Rightarrow> ('m, 'u, 't, 'x) session \<Rightarrow> session_log \<Rightarrow> log_file \<Rightarrow> bool" where
  "cursor_matches cd lim s log fl \<longleftrightarrow>
     lg_session_id log = se_id s \<and> capture_messages cd (se_messages s) = Inr (lg_saved_messages log)
     \<and> capture_entries cd (se_transcript s) = Inr (lg_saved_transcript log)
     \<and> set (lg_saved_tool_ids log) = fst ` set (se_tool_outputs s)
     \<and> (\<forall>sub. saved_count log sub = (case map_of (se_subagent_messages s) sub of None \<Rightarrow> 0 | Some ms \<Rightarrow> length ms))
     \<and> lg_saved_title log = se_title s
     \<and> meta_record_bytes cd s (lg_appended_frames log) (lim_line_bytes lim) = Inr (lg_saved_meta log)
     \<and> lg_decoded_bytes log = lines_bytes (lf_lines fl) \<and> lg_file_revision log = lf_revision fl"

lemma cursor_from_matches:
  assumes "cursor_from cd lim s (lf_revision fl) n (lines_bytes (lf_lines fl)) = Inr log" and "\<not> has_evicted_records s"
  shows "cursor_matches cd lim s log fl" "lg_appended_frames log = n"
proof -
  have m: "map_of (map (\<lambda>(sub, msgs). (sub, length msgs)) kvs) sub = map_option length (map_of kvs sub)"
    for kvs :: "(str \<times> 'a list) list" and sub by (induction kvs) auto
  show "cursor_matches cd lim s log fl" "lg_appended_frames log = n"
    using assms by (auto simp: cursor_from_def cursor_matches_def has_evicted_records_def saved_count_def m result_simps
        simp flip: set_map split: option.splits)
qed

text \<open>The file on disk holds the session, and the cursor is that of the file.\<close>

definition saved ::
  "('m, 'u, 't, 'x) codec \<Rightarrow> decode_limits \<Rightarrow> ('m, 'u, 't, 'x) session \<Rightarrow> session_log \<Rightarrow> log_file option \<Rightarrow> bool" where
  "saved cd lim s log disk \<longleftrightarrow>
     (\<exists>fl. disk = Some fl \<and> file_holds cd lim (lg_appended_frames log) fl s \<and> cursor_matches cd lim s log fl
        \<and> meta_fits cd lim s (lg_appended_frames log))"

lemma create_saves:
  assumes "codec_faithful cd" "session_fits cd lim s" "meta_fits cd lim s 0" "storable s"
    and "create_with_limits cd lim io s disk = (Inr log, disk')"
  shows "saved cd lim s log disk'"
proof -
  obtain fl decoded where w: "write_session_file_with_limits cd lim io s disk = Inr (fl, decoded)"
    "cursor_from cd lim s (lf_revision fl) 0 decoded = Inr log" "disk' = Some fl"
    using assms(5) by (auto simp: create_with_limits_def split: sum.splits if_splits)
  from written_file_holds [OF assms(1-4) w(1)] w cursor_from_matches [of cd lim s fl 0 log] assms(3,4)
  show ?thesis by (simp add: saved_def storable_def)
qed

lemma compact_saves:
  assumes "codec_faithful cd" "session_fits cd lim s" "meta_fits cd lim s 0" "storable s"
    and "compact_with_limits_locked cd lim io s log disk = (Inr (), log', disk')"
  shows "saved cd lim s log' disk'"
proof -
  obtain fl decoded where w: "write_session_file_with_limits cd lim io s disk = Inr (fl, decoded)"
    "cursor_from cd lim s (lf_revision fl) 0 decoded = Inr log'" "disk' = Some fl"
    using assms(5) by (auto simp: compact_with_limits_locked_def bindR_def split: sum.splits if_splits prod.splits)
  from written_file_holds [OF assms(1-4) w(1)] w cursor_from_matches [of cd lim s fl 0 log'] assms(3,4)
  show ?thesis by (simp add: saved_def storable_def)
qed

section \<open>Appending\<close>

lemma collectR_prefix:
  assumes "\<And>x y i. f x = Inr i \<Longrightarrow> f y = Inr i \<Longrightarrow> x = y"
  shows "collectR f xs = Inr as \<Longrightarrow> collectR f ys = Inr bs \<Longrightarrow> prefix as bs \<Longrightarrow> prefix xs ys"
proof (induction xs arbitrary: ys as bs)
  case (Cons x xs)
  then obtain i as' where x: "f x = Inr i" "collectR f xs = Inr as'" "as = i # as'" by (auto simp: result_simps)
  with Cons.prems obtain bs' where "bs = i # bs'" "prefix as' bs'" by (cases bs) auto
  moreover from this Cons.prems(2) obtain y ys' where "ys = y # ys'" "f y = Inr i" "collectR f ys' = Inr bs'"
    by (cases ys) (auto simp: result_simps)
  ultimately show ?case using Cons.IH x assms by auto
qed simp

lemma capture_prefix:
  assumes "codec_faithful cd"
  shows "capture_messages cd ms = Inr as \<Longrightarrow> capture_messages cd ms' = Inr bs \<Longrightarrow> prefix as bs \<Longrightarrow> prefix ms ms'"
    "capture_entries cd es = Inr cs \<Longrightarrow> capture_entries cd es' = Inr ds \<Longrightarrow> prefix cs ds \<Longrightarrow> prefix es es'"
  using assms unfolding capture_messages_def capture_entries_def codec_faithful_def
  by (auto elim!: collectR_prefix [rotated 1] simp: result_simps)

lemma capture_length:
  "capture_messages cd ms = Inr as \<Longrightarrow> length as = length ms"
  "capture_entries cd es = Inr cs \<Longrightarrow> length cs = length es"
  by (simp_all add: capture_messages_def capture_entries_def collectR_length)

lemma write_all_map: "write_all f (map g xs) w = write_all (\<lambda>x. f (g x)) xs w"
  by (induction xs arbitrary: w) (auto intro: bindR_cong)

definition sub_tails :: "session_log \<Rightarrow> ('m, 'u, 't, 'x) session \<Rightarrow> (str \<times> 'm list) list" where
  "sub_tails log s = map (\<lambda>(sub, ms). (sub, drop (saved_count log sub) ms)) (live_subagents s)"

definition append_records :: "session_log \<Rightarrow> ('m, 'u, 't, 'x) session \<Rightarrow> ('m, 'u, 't, 'x) log_record list" where
  "append_records log s = map Msg (drop (length (lg_saved_messages log)) (se_messages s))
     @ map (\<lambda>(i, d). Out i d) (new_outputs log s) @ sub_records (sub_tails log s)
     @ concat (map entry_records (drop (length (lg_saved_transcript log)) (se_transcript s)))"

lemma live_all: "\<not> has_evicted_records s \<Longrightarrow> live_subagents s = se_subagent_messages s"
  by (simp add: live_subagents_def has_evicted_records_def)

lemma append_records_fit:
  assumes "session_fits cd lim s"
  shows "list_all (fits cd lim) (append_records log s)"
proof -
  note parts = session_fits_parts [OF assms]
  have "list_all (fits cd lim) (map Msg (drop (length (lg_saved_messages log)) (se_messages s)))"
    using parts(2) by (auto simp: list_all_iff dest: in_set_dropD)
  moreover have "list_all (fits cd lim) (map (\<lambda>(i, d). Out i d) (new_outputs log s))"
    using parts(3) by (auto simp: list_all_iff new_outputs_def)
  moreover have "list_all (fits cd lim) (sub_records (sub_tails log s))"
    using parts(4) by (fastforce simp: list_all_iff sub_records_def sub_tails_def live_subagents_def dest: in_set_dropD)
  moreover have "list_all (fits cd lim) (concat (map entry_records (drop (length (lg_saved_transcript log)) (se_transcript s))))"
    using parts(5) by (fastforce simp: list_all_iff dest: in_set_dropD)
  ultimately show ?thesis by (simp add: append_records_def)
qed

lemma prepare_append_fits:
  assumes f: "session_fits cd lim s" "meta_fits cd lim s (lg_appended_frames log)" "meta_fits cd lim s (lg_appended_frames log + 1)"
  shows "prepare_append cd lim log s =
    bindR (write_records cd lim (append_records log s) ([], lg_decoded_bytes log)) (\<lambda>w.
      if fst w = [] \<and> the (cd_encode cd (meta_record s (lg_appended_frames log) (se_meta s))) = lg_saved_meta log then Inr None
      else let meta = the (cd_encode cd (meta_record s (lg_appended_frames log + 1) (se_meta s)))
           in bindR (account_record_bytes lim (length meta + 1) (snd w)) (\<lambda>decoded. Inr (Some (fst w @ [meta], meta, decoded))))"
proof -
  note parts = session_fits_parts [OF f(1)]
  have subs: "append_subagent_records cd lim log s w = write_records cd lim (sub_records (sub_tails log s)) w" for w
  proof -
    have "append_subagent_records cd lim log s w
        = write_all (\<lambda>(sub, msgs). write_all (\<lambda>m. append_record_or_tombstone cd lim ''sub_msg'' (SubMsg sub m)) msgs) (sub_tails log s) w"
      unfolding append_subagent_records_def sub_tails_def write_all_map by (simp add: case_prod_unfold)
    also have "\<dots> = write_records cd lim (sub_records (sub_tails log s)) w"
      by (rule subs_writer) (use parts(4) in \<open>auto simp: sub_tails_def live_subagents_def dest: in_set_dropD\<close>)
    finally show ?thesis .
  qed
  have outs: "write_all (\<lambda>(i, d). append_record_or_tombstone cd lim ''out'' (Out i d)) (new_outputs log s) w
      = write_records cd lim (map (\<lambda>(i, d). Out i d) (new_outputs log s)) w" for w
    by (rule outs_writer) (use parts(3) in \<open>auto simp: new_outputs_def\<close>)
  have msgs: "write_all (\<lambda>m. append_record_or_tombstone cd lim ''msg'' (Msg m)) (drop k (se_messages s)) w
      = write_records cd lim (map Msg (drop k (se_messages s))) w" for k w
    by (rule write_all_single) (use parts(2) in \<open>auto dest: in_set_dropD\<close>)
  have tr: "write_transcript cd lim (drop k (se_transcript s)) w
      = write_records cd lim (concat (map entry_records (drop k (se_transcript s)))) w" for k w
    by (rule write_transcript_fits) (use parts(5) in \<open>auto dest: in_set_dropD\<close>)
  show ?thesis
    unfolding prepare_append_def append_records_def write_records_append bindR_assoc msgs outs subs tr
      meta_record_bytes_fits [OF f(2)] meta_record_bytes_fits [OF f(3)] bindR_Inr Let_def ..
qed

text \<open>
  How a session may change between two saves by appending: recorded outputs and subagent messages stay,
  what the header holds stays, and the revision of the transcript that the cursor remembers, with the
  same length, means the same transcript.
\<close>

definition grows :: "session_log \<Rightarrow> ('m, 'u, 't, 'x) session \<Rightarrow> ('m, 'u, 't, 'x) session \<Rightarrow> bool" where
  "grows log s0 s \<longleftrightarrow>
     se_model s = se_model s0 \<and> se_cwd s = se_cwd s0 \<and> se_created_at s = se_created_at s0
     \<and> (\<forall>i d. map_of (se_tool_outputs s0) i = Some d \<longrightarrow> map_of (se_tool_outputs s) i = Some d)
     \<and> (\<forall>sub ms. map_of (se_subagent_messages s0) sub = Some ms \<longrightarrow>
          (\<exists>ms'. map_of (se_subagent_messages s) sub = Some ms' \<and> prefix ms ms'))
     \<and> (se_transcript_revision s \<noteq> None \<longrightarrow> se_transcript_revision s = lg_saved_transcript_revision log \<longrightarrow>
          length (se_transcript s) = length (se_transcript s0) \<longrightarrow> se_transcript s = se_transcript s0)"

lemma map_of_filter_key: "map_of (filter (\<lambda>(k, v). P k) kvs) k = (if P k then map_of kvs k else None)"
  by (induction kvs) auto

lemma map_of_sub_tails:
  "\<not> has_evicted_records s \<Longrightarrow>
   map_of (sub_tails log s) sub = map_option (drop (saved_count log sub)) (map_of (se_subagent_messages s) sub)"
proof -
  assume "\<not> has_evicted_records s"
  have "map_of (map (\<lambda>(sub, ms). (sub, drop (f sub) ms)) kvs) sub = map_option (drop (f sub)) (map_of kvs sub)" for f kvs
    by (induction kvs) auto
  then show ?thesis by (simp add: sub_tails_def live_all [OF \<open>\<not> has_evicted_records s\<close>])
qed

lemma joined_tail:
  assumes "prefix ms ms'"
  shows "joined (nonempty (Some ms)) (drop (length ms) ms') = nonempty (Some ms')"
  using assms by (cases ms) (auto simp: joined_def nonempty_def prefix_def split: list.splits)

text \<open>Replaying the appended records turns what represents the old session into what represents the new one.\<close>

lemma replay_append_records:
  assumes b: "represents n b s0" and cur: "cursor_matches cd lim s0 log fl" and g: "grows log s0 s" and s: "storable s" "se_id s = se_id s0"
    and pm: "prefix (se_messages s0) (se_messages s)" and pt: "prefix (se_transcript s0) (se_transcript s)"
  shows "\<exists>b'. replay_records (append_records log s) b = Inr b'
    \<and> b_title b' = b_title b \<and> b_token_usage b' = b_token_usage b \<and> b_updated_at b' = b_updated_at b \<and> b_meta b' = b_meta b
    \<and> (\<forall>k. represents k (b'\<lparr>b_title := se_title s, b_token_usage := se_token_usage s, b_updated_at := se_updated_at s,
          b_log_appends := k, b_meta := se_meta s\<rparr>) s)"
proof -
  have ev: "\<not> has_evicted_records s" and di: "distinct (map fst (se_tool_outputs s))" "distinct (map fst (se_subagent_messages s))"
    using s(1) by (auto simp: storable_def)
  have len: "length (lg_saved_messages log) = length (se_messages s0)" "length (lg_saved_transcript log) = length (se_transcript s0)"
    using cur capture_length by (auto simp: cursor_matches_def)
  have m: "se_messages s0 @ drop (length (se_messages s0)) (se_messages s) = se_messages s"
    "se_transcript s0 @ drop (length (se_transcript s0)) (se_transcript s) = se_transcript s"
    using pm pt by (auto simp: prefix_def)
  let ?b1 = "b\<lparr>b_messages := se_messages s\<rparr>"
  have r1: "replay_records (map Msg (drop (length (lg_saved_messages log)) (se_messages s))) b = Inr ?b1"
    using b m(1) by (simp add: represents_def len)
  have "distinct (map fst (new_outputs log s))"
    using di(1) by (auto simp: new_outputs_def intro: distinct_map_filter)
  then obtain X where X: "replay_records (map (\<lambda>(i, d). Out i d) (new_outputs log s)) ?b1 = Inr (?b1\<lparr>b_tool_outputs := X\<rparr>)"
    "map_of X = map_of (b_tool_outputs b) ++ map_of (new_outputs log s)"
    using replay_outs [of "new_outputs log s" ?b1] by auto
  have "map_of X i = map_of (se_tool_outputs s) i" for i
  proof -
    have "map_of (new_outputs log s) i = (if i \<in> fst ` set (se_tool_outputs s0) then None else map_of (se_tool_outputs s) i)"
      using cur map_of_filter_key [of "\<lambda>i. i \<notin> set (lg_saved_tool_ids log)" "se_tool_outputs s" i]
      by (simp add: new_outputs_def cursor_matches_def)
    moreover have "i \<in> fst ` set (se_tool_outputs s0) \<longleftrightarrow> map_of (se_tool_outputs s0) i \<noteq> None"
      by (simp add: map_of_eq_None_iff)
    ultimately show ?thesis using b g X(2) by (auto simp: represents_def grows_def map_add_def split: option.splits)
  qed
  then have X2: "map_of X = map_of (se_tool_outputs s)" by auto
  have "map fst (sub_tails log s) = map fst (se_subagent_messages s)"
    by (simp add: sub_tails_def live_all [OF ev] case_prod_unfold comp_def)
  then obtain Y where Y: "replay_records (sub_records (sub_tails log s)) (?b1\<lparr>b_tool_outputs := X\<rparr>)
      = Inr (?b1\<lparr>b_tool_outputs := X, b_subagent_messages := Y\<rparr>)"
    "\<forall>sub. map_of Y sub = joined (map_of (b_subagent_messages b) sub) (case map_of (sub_tails log s) sub of None \<Rightarrow> [] | Some ms \<Rightarrow> ms)"
    using di(2) replay_subs [of "sub_tails log s" "?b1\<lparr>b_tool_outputs := X\<rparr>"] by auto
  have Y2: "map_of Y sub = nonempty (map_of (se_subagent_messages s) sub)" for sub
  proof (cases "map_of (se_subagent_messages s0) sub")
    case None
    then have "saved_count log sub = 0" "map_of (b_subagent_messages b) sub = None"
      using cur b by (auto simp: cursor_matches_def represents_def nonempty_def)
    then show ?thesis using Y(2) by (cases "map_of (se_subagent_messages s) sub")
      (simp_all add: map_of_sub_tails [OF ev] joined_None, simp add: nonempty_def joined_def)
  next
    case (Some ms)
    then obtain ms' where ms': "map_of (se_subagent_messages s) sub = Some ms'" "prefix ms ms'"
      using g unfolding grows_def by blast
    have "saved_count log sub = length ms" "map_of (b_subagent_messages b) sub = nonempty (Some ms)"
      using cur b Some by (auto simp: cursor_matches_def represents_def)
    then show ?thesis using Y(2) ms' joined_tail [OF ms'(2)] by (simp add: map_of_sub_tails [OF ev])
  qed
  let ?b4 = "?b1\<lparr>b_tool_outputs := X, b_subagent_messages := Y, b_transcript := se_transcript s\<rparr>"
  have "transcript_compaction_depth (drop (length (lg_saved_transcript log)) (se_transcript s)) \<le> transcript_compaction_depth (se_transcript s)"
    using depth_append [of "take (length (lg_saved_transcript log)) (se_transcript s)" "drop (length (lg_saved_transcript log)) (se_transcript s)"]
    by simp
  then have T: "replay_records (concat (map entry_records (drop (length (lg_saved_transcript log)) (se_transcript s))))
      (?b1\<lparr>b_tool_outputs := X, b_subagent_messages := Y\<rparr>) = Inr ?b4"
    using b s(1) m(2) by (subst replay_transcript) (auto simp: represents_def storable_def len)
  have "replay_records (append_records log s) b = Inr ?b4"
    by (simp add: append_records_def r1 X(1) Y(1) T del: replay_msgs)
  moreover have "represents k (?b4\<lparr>b_title := se_title s, b_token_usage := se_token_usage s, b_updated_at := se_updated_at s,
          b_log_appends := k, b_meta := se_meta s\<rparr>) s" for k
    using b g s X2 Y2 by (simp add: represents_def grows_def)
  ultimately show ?thesis by auto
qed

lemma append_file_holds:
  assumes cd: "codec_faithful cd" and sv: "file_holds cd lim (lg_appended_frames log) fl s0" "cursor_matches cd lim s0 log fl"
    and f: "session_fits cd lim s" "meta_fits cd lim s (lg_appended_frames log)" "meta_fits cd lim s (lg_appended_frames log + 1)"
    and s: "storable s" "se_id s = se_id s0" and g: "grows log s0 s"
    and pm: "prefix (se_messages s0) (se_messages s)" and pt: "prefix (se_transcript s0) (se_transcript s)"
    and p: "prepare_append cd lim log s = Inr (Some (lines, meta, decoded))"
  shows "file_holds cd lim (lg_appended_frames log + 1) (fl\<lparr>lf_lines := lf_lines fl @ lines, lf_revision := rev'\<rparr>) s"
    "decoded = lines_bytes (lf_lines fl @ lines)"
    "meta_record_bytes cd s (lg_appended_frames log + 1) (lim_line_bytes lim) = Inr meta"
proof -
  let ?n = "lg_appended_frames log + 1" and ?m = "meta_record s (lg_appended_frames log + 1) (se_meta s)"
  let ?rs = "append_records log s @ [?m]"
  have fit: "list_all (fits cd lim) ?rs" using append_records_fit [OF f(1)] f(3) by (simp add: meta_fits_def)
  obtain w where w: "write_records cd lim (append_records log s) ([], lg_decoded_bytes log) = Inr w"
    using p by (auto simp: prepare_append_fits [OF f] result_simps)
  have wv: "w = (lines_of cd (append_records log s), lg_decoded_bytes log + lines_bytes (lines_of cd (append_records log s)))"
    using write_records_ok(1) [OF append_records_fit [OF f(1)] w] by simp
  have dec: "lg_decoded_bytes log = lines_bytes (lf_lines fl)" using sv(2) by (simp add: cursor_matches_def)
  have l: "lines = lines_of cd ?rs" "decoded = lines_bytes (lf_lines fl @ lines)" "meta = the (cd_encode cd ?m)"
    "lines_bytes (lf_lines fl @ lines) \<le> lim_decoded_bytes lim"
    using p [unfolded prepare_append_fits [OF f] w bindR_Inr wv] dec
    by (auto simp: account_record_bytes_def Let_def result_simps split: if_splits)
  show "decoded = lines_bytes (lf_lines fl @ lines)" by (rule l)
  show "meta_record_bytes cd s ?n (lim_line_bytes lim) = Inr meta" using meta_record_bytes_fits [OF f(3)] l(3) by simp
  obtain b where b: "replay cd (lf_lines fl) (default_builder cd) = Inr b" "represents (lg_appended_frames log) b s0"
    using sv(1) by (auto simp: file_holds_def)
  obtain b' where b': "replay_records (append_records log s) b = Inr b'"
    "\<forall>k. represents k (b'\<lparr>b_title := se_title s, b_token_usage := se_token_usage s, b_updated_at := se_updated_at s,
          b_log_appends := k, b_meta := se_meta s\<rparr>) s"
    using replay_append_records [OF b(2) sv(2) g s pm pt] by blast
  have "replay cd lines b = replay_records ?rs b" using replay_lines_of [OF cd fit] l(1) by simp
  also have "\<dots> = Inr (b'\<lparr>b_title := se_title s, b_token_usage := se_token_usage s, b_updated_at := se_updated_at s,
          b_log_appends := ?n, b_meta := se_meta s\<rparr>)"
    using b'(1) by (simp add: meta_record_def)
  finally have "replay cd (lf_lines fl @ lines) (default_builder cd) = Inr (b'\<lparr>b_title := se_title s,
      b_token_usage := se_token_usage s, b_updated_at := se_updated_at s, b_log_appends := ?n, b_meta := se_meta s\<rparr>)"
    using b(1) by simp
  moreover have "within lim (lf_lines fl @ lines) 0"
    using sv(1) l fits_lines [OF fit] by (simp add: within_def file_holds_def)
  ultimately show "file_holds cd lim ?n (fl\<lparr>lf_lines := lf_lines fl @ lines, lf_revision := rev'\<rparr>) s"
    using b'(2) sv(1) by (auto simp: file_holds_def)
qed

lemma entry_records_ne [simp]: "entry_records e \<noteq> []"
  by (cases e) auto

text \<open>When there is nothing to write the file already holds the session and the cursor is its cursor.\<close>

lemma nothing_to_append:
  assumes f: "session_fits cd lim s" "meta_fits cd lim s (lg_appended_frames log)" "meta_fits cd lim s (lg_appended_frames log + 1)"
    and p: "prepare_append cd lim log s = Inr None"
  shows "append_records log s = []" "meta_record_bytes cd s (lg_appended_frames log) (lim_line_bytes lim) = Inr (lg_saved_meta log)"
proof -
  obtain w where w: "write_records cd lim (append_records log s) ([], lg_decoded_bytes log) = Inr w" "fst w = []"
    "the (cd_encode cd (meta_record s (lg_appended_frames log) (se_meta s))) = lg_saved_meta log"
    using p unfolding prepare_append_fits [OF f] by (auto simp: result_simps Let_def split: if_splits)
  then show "append_records log s = []"
    using write_records_ok(1) [OF append_records_fit [OF f(1)] w(1)] by (simp add: lines_of_def)
  show "meta_record_bytes cd s (lg_appended_frames log) (lim_line_bytes lim) = Inr (lg_saved_meta log)"
    using meta_record_bytes_fits [OF f(2)] w(3) by simp
qed

lemma same_meta:
  assumes cd: "codec_faithful cd" and f: "meta_fits cd lim s n" "meta_fits cd lim s0 n"
    and e: "meta_record_bytes cd s n (lim_line_bytes lim) = meta_record_bytes cd s0 n (lim_line_bytes lim)"
  shows "meta_record s n (se_meta s) = meta_record s0 n (se_meta s0)"
  using e cd f unfolding meta_record_bytes_fits [OF f(1)] meta_record_bytes_fits [OF f(2)]
  unfolding meta_fits_def fits_def codec_faithful_def by (metis line_reading.inject(1) option.sel sum.inject(2))

lemma unchanged_file_holds:
  assumes cd: "codec_faithful cd" and sv: "file_holds cd lim (lg_appended_frames log) fl s0" "cursor_matches cd lim s0 log fl"
    and f: "meta_fits cd lim s (lg_appended_frames log)" "meta_fits cd lim s0 (lg_appended_frames log)"
    and s: "storable s" "se_id s = se_id s0" and g: "grows log s0 s"
    and pm: "prefix (se_messages s0) (se_messages s)" and pt: "prefix (se_transcript s0) (se_transcript s)"
    and none: "append_records log s = []"
    and m: "meta_record_bytes cd s (lg_appended_frames log) (lim_line_bytes lim) = Inr (lg_saved_meta log)"
  shows "file_holds cd lim (lg_appended_frames log) fl s"
proof -
  have "meta_record s (lg_appended_frames log) (se_meta s) = meta_record s0 (lg_appended_frames log) (se_meta s0)"
    using same_meta [OF cd f] m sv(2) by (simp add: cursor_matches_def)
  then have meta: "se_title s = se_title s0" "se_token_usage s = se_token_usage s0" "se_updated_at s = se_updated_at s0" "se_meta s = se_meta s0"
    by (simp_all add: meta_record_def)
  obtain b where b: "replay cd (lf_lines fl) (default_builder cd) = Inr b" "represents (lg_appended_frames log) b s0"
    using sv(1) by (auto simp: file_holds_def)
  obtain b' where b': "replay_records (append_records log s) b = Inr b'"
    "\<forall>k. represents k (b'\<lparr>b_title := se_title s, b_token_usage := se_token_usage s, b_updated_at := se_updated_at s,
          b_log_appends := k, b_meta := se_meta s\<rparr>) s"
    using replay_append_records [OF b(2) sv(2) g s pm pt] by blast
  have "b' = b" using b'(1) none by simp
  with b'(2) [rule_format, of "lg_appended_frames log"] b(2) meta have "represents (lg_appended_frames log) b s"
    by (simp add: represents_def)
  with sv(1) b(1) show ?thesis by (auto simp: file_holds_def)
qed

lemma known_outputs:
  assumes "cursor_matches cd lim s0 log fl" and g: "grows log s0 s"
  shows "set (lg_saved_tool_ids log @ map fst (new_outputs log s)) = fst ` set (se_tool_outputs s)"
proof -
  have "fst ` set (se_tool_outputs s0) \<subseteq> fst ` set (se_tool_outputs s)"
  proof
    fix i assume "i \<in> fst ` set (se_tool_outputs s0)"
    then obtain d where "map_of (se_tool_outputs s0) i = Some d" by (metis map_of_eq_None_iff not_None_eq)
    then have "map_of (se_tool_outputs s) i = Some d" using g by (auto simp: grows_def)
    then show "i \<in> fst ` set (se_tool_outputs s)" by (force dest: map_of_SomeD)
  qed
  then show ?thesis using assms(1) by (auto simp: cursor_matches_def new_outputs_def image_iff)
qed

lemma unchanged_cursor:
  assumes cur: "cursor_matches cd lim s0 log fl" and g: "grows log s0 s" and s: "storable s" "se_id s = se_id s0"
    and pm: "prefix (se_messages s0) (se_messages s)" and pt: "prefix (se_transcript s0) (se_transcript s)"
    and none: "append_records log s = []" and t: "se_title s = lg_saved_title log"
    and m: "meta_record_bytes cd s (lg_appended_frames log) (lim_line_bytes lim) = Inr (lg_saved_meta log)"
  shows "cursor_matches cd lim s log fl"
proof -
  have ev: "\<not> has_evicted_records s" using s(1) by (simp add: storable_def)
  have len: "length (lg_saved_messages log) = length (se_messages s0)" "length (lg_saved_transcript log) = length (se_transcript s0)"
    using cur capture_length by (auto simp: cursor_matches_def)
  have n: "drop (length (se_messages s0)) (se_messages s) = []" "new_outputs log s = []" "sub_records (sub_tails log s) = ([] :: ('a, 'b, 'c, 'd) log_record list)"
    "drop (length (se_transcript s0)) (se_transcript s) = []"
    using none by (auto simp: append_records_def len concat_eq_Nil_conv)
  then have eq: "se_messages s = se_messages s0" "se_transcript s = se_transcript s0" using pm pt by (auto simp: prefix_def)
  have "saved_count log sub = (case map_of (se_subagent_messages s) sub of None \<Rightarrow> 0 | Some ms \<Rightarrow> length ms)" for sub
  proof -
    have c: "saved_count log sub = (case map_of (se_subagent_messages s0) sub of None \<Rightarrow> 0 | Some ms \<Rightarrow> length ms)"
      using cur by (simp add: cursor_matches_def)
    have "length ms \<le> saved_count log sub" if "map_of (se_subagent_messages s) sub = Some ms" for ms
    proof -
      have "map_of (sub_tails log s) sub = Some (drop (saved_count log sub) ms)" by (simp add: map_of_sub_tails [OF ev] that)
      then have "drop (saved_count log sub) ms = []" using n(3) by (auto simp: sub_records_def dest!: map_of_SomeD)
      then show ?thesis by simp
    qed
    then show ?thesis
      using c g by (fastforce simp: grows_def dest: prefix_length_le split: option.splits)
  qed
  with cur eq t m s(2) known_outputs [OF cur g] n(2) show ?thesis by (simp add: cursor_matches_def)
qed

lemma fold_upsert_counts:
  "distinct (map fst kvs) \<Longrightarrow>
   map_of (fold (\<lambda>(sub, count). upsert sub (\<lambda>_. count)) kvs base) = map_of base ++ map_of kvs"
proof (induction kvs arbitrary: base)
  case (Cons kv kvs)
  obtain k c where kv: "kv = (k, c)" by fastforce
  have "k \<notin> dom (map_of kvs)" using Cons.prems kv by (simp add: dom_map_of_conv_image_fst)
  with Cons kv show ?case by (auto simp: map_of_upsert fun_eq_iff map_add_def split: option.splits)
qed simp

lemma appended_counts:
  assumes "cursor_matches cd lim s0 log fl" "grows log s0 s" "storable s"
  shows "(case map_of (fold (\<lambda>(sub, count). upsert sub (\<lambda>_. count)) (new_sub_counts log s) (lg_saved_sub_msg_counts log)) sub of None \<Rightarrow> 0 | Some n \<Rightarrow> n)
    = (case map_of (se_subagent_messages s) sub of None \<Rightarrow> 0 | Some ms \<Rightarrow> length ms)"
proof -
  have ev: "\<not> has_evicted_records s" and di: "distinct (map fst (se_subagent_messages s))" using assms(3) by (auto simp: storable_def)
  have d: "distinct (map fst (new_sub_counts log s))"
    using di by (auto simp: new_sub_counts_def live_all [OF ev] case_prod_unfold comp_def intro: distinct_map_filter)
  have n: "map_of (map (\<lambda>(sub, msgs). (sub, length msgs)) (filter (\<lambda>(sub, msgs). f sub < length msgs) kvs)) sub
      = (case map_of kvs sub of Some ms \<Rightarrow> if f sub < length ms then Some (length ms) else None | None \<Rightarrow> None)"
    if "distinct (map fst kvs)" for f and kvs :: "(str \<times> 'a list) list"
    using that by (induction kvs) (auto simp: map_of_eq_None_iff rev_image_eqI split: option.splits)
  have c: "saved_count log sub = (case map_of (se_subagent_messages s0) sub of None \<Rightarrow> 0 | Some ms \<Rightarrow> length ms)"
    using assms(1) by (simp add: cursor_matches_def)
  have le: "saved_count log sub \<le> (case map_of (se_subagent_messages s) sub of None \<Rightarrow> 0 | Some ms \<Rightarrow> length ms)"
    using assms(2) c by (fastforce simp: grows_def dest: prefix_length_le split: option.splits)
  have nm: "map_of (new_sub_counts log s) sub
      = (case map_of (se_subagent_messages s) sub of Some ms \<Rightarrow> if saved_count log sub < length ms then Some (length ms) else None | None \<Rightarrow> None)"
    using n [OF di, of "saved_count log"] by (simp add: new_sub_counts_def live_all [OF ev])
  show ?thesis
    unfolding fold_upsert_counts [OF d] map_add_def nm using le unfolding saved_count_def by (auto split: option.splits)
qed

lemma appended_cursor:
  assumes cur: "cursor_matches cd lim s0 log fl" and g: "grows log s0 s" and s: "storable s" "se_id s = se_id s0"
    and cm: "capture_messages cd (se_messages s) = Inr cm"
    and ct: "capture_entries cd (se_transcript s) = Inr (case ct of Some c \<Rightarrow> c | None \<Rightarrow> lg_saved_transcript log)"
    and meta: "meta_record_bytes cd s (lg_appended_frames log + 1) (lim_line_bytes lim) = Inr meta"
    and dec: "decoded = lines_bytes (lf_lines fl @ lines)"
  shows "cursor_matches cd lim s (appended_log log s cm ct meta decoded r) (fl\<lparr>lf_lines := lf_lines fl @ lines, lf_revision := r\<rparr>)"
proof -
  have "set (lg_saved_tool_ids log @ map fst (new_outputs log s)) = fst ` set (se_tool_outputs s)"
    by (rule known_outputs [OF cur g])
  moreover have "saved_count (appended_log log s cm ct meta decoded r) sub
      = (case map_of (se_subagent_messages s) sub of None \<Rightarrow> 0 | Some ms \<Rightarrow> length ms)" for sub
    using appended_counts [OF cur g s(1), of sub] by (simp add: saved_count_def appended_log_def)
  moreover have "lg_saved_title log = se_title s0" using cur by (simp add: cursor_matches_def)
  ultimately show ?thesis
    using cur cm ct meta dec s(2) by (auto simp: cursor_matches_def appended_log_def)
qed

lemma append_saves:
  assumes cd: "codec_faithful cd" and sv: "saved cd lim s0 log disk"
    and f: "session_fits cd lim s" "meta_fits cd lim s 0" "meta_fits cd lim s (lg_appended_frames log)"
      "meta_fits cd lim s (lg_appended_frames log + 1)"
    and s: "storable s" and g: "grows log s0 s"
    and a: "append_with_limits cd lim io s log disk = (Inr (), log', disk')"
  shows "saved cd lim s log' disk'"
proof -
  obtain fl where fl: "disk = Some fl" "file_holds cd lim (lg_appended_frames log) fl s0" "cursor_matches cd lim s0 log fl"
      "meta_fits cd lim s0 (lg_appended_frames log)"
    using sv by (auto simp: saved_def)
  show ?thesis
  proof (cases "compact_with_limits_locked cd lim io s log disk = (Inr (), log', disk')")
    case True
    then show ?thesis by (rule compact_saves [OF cd f(1,2) s])
  next
    case False
    from a have id: "se_id s = lg_session_id log" by (auto simp: append_with_limits_def require_same_id_def bindR_def split: sum.splits if_splits)
    obtain cm ct where c: "capture_messages cd (se_messages s) = Inr cm" "prefix (lg_saved_messages log) cm"
        "updated_transcript_cursor cd log s = Inr ct" "\<not> transcript_replaced log ct"
        "append_frame cd lim io s log disk cm ct = (Inr (), log', disk')" and title: "se_title s = lg_saved_title log"
      using a False by (auto simp: append_with_limits_def split: sum.splits if_splits)
    have ids: "se_id s = se_id s0" using id fl(3) by (simp add: cursor_matches_def)
    have pm: "prefix (se_messages s0) (se_messages s)"
      using capture_prefix(1) [OF cd _ c(1,2)] fl(3) by (simp add: cursor_matches_def)
    have ct: "capture_entries cd (se_transcript s) = Inr (case ct of Some x \<Rightarrow> x | None \<Rightarrow> lg_saved_transcript log)
        \<and> prefix (se_transcript s0) (se_transcript s)"
    proof (cases ct)
      case None
      have "se_transcript_revision s \<noteq> None \<and> se_transcript_revision s = lg_saved_transcript_revision log
          \<and> length (se_transcript s) = length (lg_saved_transcript log)"
      proof (rule ccontr)
        assume "\<not> ?thesis"
        with c(3) None show False unfolding updated_transcript_cursor_def by (simp only: if_False) (simp add: result_simps)
      qed
      then have "se_transcript s = se_transcript s0"
        using g fl(3) capture_length(2) [of cd "se_transcript s0"] by (auto simp: grows_def cursor_matches_def)
      with None fl(3) show ?thesis by (simp add: cursor_matches_def)
    next
      case (Some x)
      then have "capture_entries cd (se_transcript s) = Inr x" "prefix (lg_saved_transcript log) x"
        using c(3,4) by (auto simp: updated_transcript_cursor_def transcript_replaced_def result_simps split: if_splits)
      with Some capture_prefix(2) [OF cd] fl(3) show ?thesis by (auto simp: cursor_matches_def)
    qed
    consider (same) "prepare_append cd lim log s = Inr None" "log' = log" "disk' = disk"
      | (new) lines meta decoded where "prepare_append cd lim log s = Inr (Some (lines, meta, decoded))"
          "log' = appended_log log s cm ct meta decoded (io_revision io)"
          "disk' = Some (fl\<lparr>lf_lines := lf_lines fl @ lines, lf_revision := io_revision io\<rparr>)"
      using c(5) False fl(1) by (auto simp: append_frame_def split: sum.splits session_error.splits option.splits if_splits prod.splits)
    then show ?thesis
    proof cases
      case same
      note n = nothing_to_append [OF f(1,3,4) same(1)]
      from unchanged_file_holds [OF cd fl(2,3) f(3) fl(4) s ids g pm conjunct2 [OF ct] n]
        unchanged_cursor [OF fl(3) g s ids pm conjunct2 [OF ct] n(1) title n(2)] same fl(1) f(3)
      show ?thesis by (simp add: saved_def)
    next
      case new
      note h = append_file_holds [OF cd fl(2,3) f(1,3,4) s ids g pm conjunct2 [OF ct] new(1)]
      have "lg_appended_frames log' = lg_appended_frames log + 1" using new by (simp add: appended_log_def)
      with h new f(4) appended_cursor [OF fl(3) g s ids c(1) conjunct1 [OF ct] h(3,2)] show ?thesis
        by (auto simp: saved_def)
    qed
  qed
qed

section \<open>Saves in sequence\<close>

text \<open>
  The session a log was last asked to save and did save: after it was created, after an append or a
  rewrite that succeeded. An append that fails before it writes leaves everything as it was.
\<close>

inductive saves ::
  "('m, 'u, 't, 'x) codec \<Rightarrow> decode_limits \<Rightarrow> ('m, 'u, 't, 'x) session \<Rightarrow> session_log \<Rightarrow> log_file option \<Rightarrow> bool" for cd lim where
  created: "saves cd lim s log disk"
    if "create_with_limits cd lim io s disk0 = (Inr log, disk)" "storable s" "session_fits cd lim s" "meta_fits cd lim s 0"
| appended: "saves cd lim s log' disk'"
    if "saves cd lim s0 log disk" "append_with_limits cd lim io s log disk = (Inr (), log', disk')" "grows log s0 s" "storable s"
      "session_fits cd lim s" "meta_fits cd lim s 0" "meta_fits cd lim s (lg_appended_frames log)" "meta_fits cd lim s (lg_appended_frames log + 1)"
| compacted: "saves cd lim s log' disk'"
    if "saves cd lim s0 log disk" "compact_with_limits cd lim io s log disk = (Inr (), log', disk')" "storable s"
      "session_fits cd lim s" "meta_fits cd lim s 0"

lemma saves_saved: "saves cd lim s log disk \<Longrightarrow> codec_faithful cd \<Longrightarrow> saved cd lim s log disk \<and> storable s"
proof (induction rule: saves.induct)
  case (created io s disk0 log disk)
  then show ?case using create_saves by blast
next
  case (appended s0 log disk io s log' disk')
  then show ?case using append_saves by blast
next
  case (compacted s0 log disk io s log' disk')
  then have "compact_with_limits_locked cd lim io s log disk = (Inr (), log', disk')"
    by (auto simp: compact_with_limits_def split: sum.splits)
  with compacted show ?case using compact_saves by blast
qed

section \<open>Damaged logs\<close>

text \<open>The messages of a builder, those of open compactions behind those of the transcript.\<close>

definition builder_leaves :: "('m, 'u, 't, 'x) session_builder \<Rightarrow> (bool \<times> 'm) list" where
  "builder_leaves b = leaves (b_transcript b) @ concat (map (\<lambda>c. leaves (pc_entries c)) (rev (b_compactions b)))"

fun line_leaves :: "('m, 'u, 't, 'x) line_reading \<Rightarrow> (bool \<times> 'm) list" where
  "line_leaves (Reads (TranscriptRec e)) = leaves [e]"
| "line_leaves _ = []"

lemma push_leaves [simp]: "builder_leaves (push_transcript_entry e b) = builder_leaves b @ leaves [e]"
  by (auto simp: builder_leaves_def push_transcript_entry_def split: list.splits)

lemma fold_push_leaves [simp]: "builder_leaves (fold push_transcript_entry es b) = builder_leaves b @ leaves es"
proof (induction es arbitrary: b)
  case (Cons e es)
  then show ?case using leaves_append [of "[e]" es] by simp
qed simp

lemma finish_leaves [simp]: "builder_leaves (finish_transcript_compaction b) = builder_leaves b"
proof (cases "b_compactions b")
  case (Cons c cs)
  have "builder_leaves (b\<lparr>b_compactions := cs\<rparr>) @ leaves (pc_entries c) = builder_leaves b"
    by (simp add: builder_leaves_def Cons)
  then show ?thesis by (simp add: finish_transcript_compaction_def Cons)
qed (simp add: finish_transcript_compaction_def builder_leaves_def)

lemma push_compactions: "length (b_compactions (push_transcript_entry e b)) = length (b_compactions b)"
  by (simp add: push_transcript_entry_def split: list.splits)

lemma fold_push_compactions: "length (b_compactions (fold push_transcript_entry es b)) = length (b_compactions b)"
  by (induction es arbitrary: b) (simp_all add: push_compactions)

lemma finish_compactions: "length (b_compactions (finish_transcript_compaction b)) = length (b_compactions b) - 1"
  by (simp add: finish_transcript_compaction_def push_compactions fold_push_compactions split: list.splits)

lemma close_open:
  "builder_leaves (close_open_compactions n b) = builder_leaves b"
  "length (b_compactions (close_open_compactions n b)) = length (b_compactions b) - n"
  by (induction n arbitrary: b) (simp_all add: finish_compactions)

lemma close_unterminated_leaves:
  "builder_leaves (close_unterminated b) = builder_leaves b" "b_compactions (close_unterminated b) = []"
proof -
  let ?b = "b\<lparr>b_recovered_structure := True\<rparr>"
  have "builder_leaves ?b = builder_leaves b" by (simp add: builder_leaves_def)
  then show "builder_leaves (close_unterminated b) = builder_leaves b" by (simp add: close_unterminated_def close_open)
  show "b_compactions (close_unterminated b) = []"
    using close_open(2) [of "length (b_compactions b)" ?b] by (simp add: close_unterminated_def)
qed

lemma begin_unreadable_leaves [simp]: "builder_leaves (begin_unreadable_transcript_compaction b) = builder_leaves b"
  by (simp add: builder_leaves_def begin_unreadable_transcript_compaction_def)

lemma apply_line_leaves:
  assumes "apply_line cd line b = Inr b'" and "\<forall>a b c d t m. cd_decode cd line \<noteq> Reads (Meta a b c d (Some t) m)"
  shows "builder_leaves b' = builder_leaves b @ (if line = [] then [] else line_leaves (cd_decode cd line))"
proof (cases "cd_decode cd line")
  case (Reads r)
  with assms show ?thesis
    by (cases r; auto simp: apply_line_def split: if_splits option.splits; simp add: builder_leaves_def)
qed (use assms in \<open>auto simp: apply_line_def split: if_splits\<close>)

lemma visit_lines_leaves:
  "visit_lines cd lim lines b d = Inr (b', d') \<Longrightarrow>
   \<forall>line \<in> set lines. \<forall>a b c d t m. cd_decode cd line \<noteq> Reads (Meta a b c d (Some t) m) \<Longrightarrow>
   builder_leaves b' = builder_leaves b @ concat (map (\<lambda>line. if line = [] then [] else line_leaves (cd_decode cd line)) lines)"
proof (induction lines arbitrary: b d)
  case (Cons line lines)
  then obtain d1 b1 where "apply_line cd line b = Inr b1" "visit_lines cd lim lines b1 d1 = Inr (b', d')"
    by (auto simp: result_simps)
  with Cons apply_line_leaves [of cd line b b1] show ?case by auto
qed simp

lemma normalized_leaves:
  "b_compactions b = [] \<Longrightarrow> leaves (b_transcript (normalize_builder b)) = builder_leaves b"
  "transcript_compaction_depth (b_transcript (normalize_builder b)) \<le> MAX_TRANSCRIPT_COMPACTION_DEPTH"
  by (simp_all add: normalize_builder_def builder_leaves_def cap_loaded_result)

section \<open>Guarantees\<close>


text \<open>A small codec and session for examples.\<close>

definition ex_meta :: "unit session_meta" where
  "ex_meta = \<lparr>sm_parent_id = None, sm_queued_messages = [], sm_queued_submissions = [], sm_queued_direct_tools = [],
     sm_subagents = [], sm_direct_paused_team = None, sm_direct_output = None, sm_state_snapshot = None, sm_revision = 0, sm_rest = ()\<rparr>"

definition ex_session :: "(unit, unit, unit, unit) session" where
  "ex_session = \<lparr>se_version = 1, se_id = ''s'', se_title = ''t'', se_cwd = ''/'', se_model = ''a'', se_messages = [()],
     se_transcript = [], se_transcript_revision = None, se_token_usage = (), se_tool_outputs = [], se_subagent_messages = [],
     se_evicted_tool_outputs = {}, se_evicted_subagent_messages = {}, se_loaded_from_disk = False, se_meta = ex_meta,
     se_created_at = 0, se_updated_at = 0\<rparr>"

definition ex_decode :: "str \<Rightarrow> (unit, unit, unit, unit) line_reading" where
  "ex_decode line =
     (if line = ''h'' then Reads (header_record ex_session)
      else if line = ''m'' then Reads (Msg ())
      else if line = ''0'' then Reads (meta_record ex_session 0 ex_meta)
      else if line = ''1'' then Reads (meta_record ex_session 1 ex_meta)
      else if line = ''T'' then Reads (TranscriptRec (TMessage ()))
      else if line = ''S'' then Reads (TranscriptCompactionStart None None)
      else BadLine)"

definition ex_encode :: "(unit, unit, unit, unit) log_record \<Rightarrow> str option" where
  "ex_encode r = find (\<lambda>line. ex_decode line = Reads r) [''h'', ''m'', ''0'', ''1'', ''T'', ''S'']"

definition ex_codec :: "(unit, unit, unit, unit) codec" where
  "ex_codec = \<lparr>cd_encode = ex_encode, cd_decode = ex_decode, cd_tag = (\<lambda>_. None), cd_message = (\<lambda>_. Some []),
     cd_entry = (\<lambda>_. None), cd_default_usage = (), cd_default_rest = ()\<rparr>"

definition ex_limits :: decode_limits where
  "ex_limits = \<lparr>lim_line_bytes = 10, lim_decoded_bytes = 100\<rparr>"

definition ex_io :: log_io where
  "ex_io = \<lparr>io_write_ok = True, io_index_ok = True, io_revision = 7\<rparr>"

lemma ex_faithful: "codec_faithful ex_codec"
  by (auto simp: codec_faithful_def ex_codec_def ex_encode_def find_Some_iff less_Suc_eq)

lemmas ex_records = header_record_def meta_record_def ex_session_def ex_meta_def

lemma ex_encoded:
  "ex_encode (header_record ex_session) = Some ''h''" "ex_encode (Msg ()) = Some ''m''"
  "ex_encode (meta_record ex_session 0 ex_meta) = Some ''0''" "ex_encode (meta_record ex_session 1 ex_meta) = Some ''1''"
  by (simp_all add: ex_encode_def ex_decode_def ex_records)

lemma ex_meta_record: "meta_record (ex_session\<lparr>se_messages := ms, se_model := md\<rparr>) n ex_meta = meta_record ex_session n ex_meta"
  by (simp add: ex_records)

lemma ex_title: "normalize_title ''t'' = ''t''"
  by code_simp

lemma ex_created:
  "create_with_limits ex_codec ex_limits ex_io ex_session None =
    (Inr \<lparr>lg_session_id = ''s'', lg_saved_messages = [[]], lg_saved_transcript = [], lg_saved_tool_ids = [], lg_saved_sub_msg_counts = [],
       lg_appended_frames = 0, lg_saved_transcript_revision = None, lg_saved_meta = ''0'', lg_saved_title = ''t'', lg_decoded_bytes = 6,
       lg_file_revision = 7\<rparr>, Some \<lparr>lf_lines = [''h'', ''m'', ''0''], lf_torn = False, lf_revision = 7\<rparr>)"
  by code_simp

definition ex_log :: session_log where
  "ex_log = \<lparr>lg_session_id = ''s'', lg_saved_messages = [[]], lg_saved_transcript = [], lg_saved_tool_ids = [], lg_saved_sub_msg_counts = [],
       lg_appended_frames = 0, lg_saved_transcript_revision = None, lg_saved_meta = ''0'', lg_saved_title = ''t'', lg_decoded_bytes = 6,
       lg_file_revision = 7\<rparr>"

definition ex_file :: log_file where
  "ex_file = \<lparr>lf_lines = [''h'', ''m'', ''0''], lf_torn = False, lf_revision = 7\<rparr>"

lemma ex_storable: "ms \<noteq> [] \<Longrightarrow> storable (ex_session\<lparr>se_messages := ms\<rparr>)"
  by (simp add: storable_def ex_session_def has_evicted_records_def ex_title)

lemma ex_fits: "session_fits ex_codec ex_limits (ex_session\<lparr>se_messages := ms\<rparr>)"
proof -
  have "header_record (ex_session\<lparr>se_messages := ms\<rparr>) = header_record ex_session" by (simp add: ex_records)
  then show ?thesis
    using ex_encoded(1,2)
    by (simp add: session_fits_def session_records_def list_all_iff fits_def ex_codec_def ex_limits_def)
       (simp add: ex_session_def sub_records_def)
qed

lemma ex_meta_fits: "n = 0 \<or> n = 1 \<Longrightarrow> meta_fits ex_codec ex_limits (ex_session\<lparr>se_messages := ms\<rparr>) n"
  using ex_encoded(3,4) by (auto simp: meta_fits_def fits_def ex_codec_def ex_limits_def ex_encode_def ex_decode_def ex_records)

lemma ex_appended:
  "fst (append_with_limits ex_codec ex_limits ex_io (ex_session\<lparr>se_messages := [(), ()]\<rparr>) ex_log (Some ex_file)) = Inr ()"
  by code_simp


text \<open>C23. Damage to the structure of a log costs no message: whatever lines are lost or unreadable, starts and
ends of compactions included, when a log without legacy transcripts loads, its transcript holds every
transcript message that could be read, in the order of the file, nested no deeper than the cap.\<close>

theorem damaged_log_loses_no_message:
  assumes "parse_records cd lim lines = Inr p"
    and "\<forall>line \<in> set lines. \<forall>a b c d t m. cd_decode cd line \<noteq> Reads (Meta a b c d (Some t) m)"
  shows "leaves (se_transcript (pa_session p)) = concat (map (\<lambda>line. if line = [] then [] else line_leaves (cd_decode cd line)) lines)
    \<and> transcript_compaction_depth (se_transcript (pa_session p)) \<le> MAX_TRANSCRIPT_COMPACTION_DEPTH"
proof -
  obtain b d where b: "visit_lines cd lim lines (default_builder cd) 0 = Inr (b, d)"
    "se_transcript (pa_session p) = b_transcript (normalize_builder (close_unterminated b))"
    using assms(1) by (auto simp: parse_records_def finish_parse_def result_simps Let_def builder_session_def)
  have "builder_leaves (default_builder cd) = []" by (simp add: builder_leaves_def default_builder_def)
  with b visit_lines_leaves [OF b(1) assms(2)] close_unterminated_leaves [of b] normalized_leaves [of "close_unterminated b"]
  show ?thesis by simp
qed

theorem damaged_log_loses_no_message_witness:
  "\<exists>p. parse_records ex_codec ex_limits [''h'', ''S'', ''T'', ''?'', ''T''] = Inr p \<and> pa_needs_rewrite p
     \<and> leaves (se_transcript (pa_session p)) = [(False, ()), (False, ())]"
proof -
  have "case parse_records ex_codec ex_limits [''h'', ''S'', ''T'', ''?'', ''T''] of Inr p \<Rightarrow> pa_needs_rewrite p | Inl _ \<Rightarrow> False"
    by code_simp
  then obtain p where p: "parse_records ex_codec ex_limits [''h'', ''S'', ''T'', ''?'', ''T''] = Inr p" "pa_needs_rewrite p"
    by (auto split: sum.splits)
  have "leaves (se_transcript (pa_session p)) = [(False, ()), (False, ())]"
    using damaged_log_loses_no_message [OF p(1)] by (simp add: ex_codec_def ex_decode_def ex_records)
  with p show ?thesis by blast
qed

text \<open>Switching the model of a session is not saved by an append: the log keeps the model only in its
header, and an append compares the title but not the model, so that it reports success, writes nothing,
and the reopened session has the old model.\<close>

lemma append_forgets_model:
  "append_with_limits ex_codec ex_limits ex_io (ex_session\<lparr>se_model := ''b''\<rparr>) ex_log (Some ex_file) = (Inr (), ex_log, Some ex_file)
   \<and> (case parse_records ex_codec ex_limits (lf_lines ex_file) of Inr p \<Rightarrow> se_model (pa_session p) = ''a'' | Inl _ \<Rightarrow> False)"
  by (intro conjI; code_simp)

end
