(* ===== verification/Session_Retention.thy ===== *)
theory Session_Retention
  imports Session_Guarantees
begin

text \<open>
  What a live session keeps in memory (\<open>crates/n00n-storage/src/sessions.rs\<close>): eviction of the oldest
  tool outputs and subagent histories beyond a budget, pruning after a rewind, loading a session under a
  budget or only its cursor, and reading evicted records back from the log.
\<close>

section \<open>Data\<close>

record retention_budget =
  rb_tool_outputs :: usize
  rb_subagent_histories :: usize

definition DEFAULT_MAX_RETAINED_TOOL_OUTPUTS :: usize where "DEFAULT_MAX_RETAINED_TOOL_OUTPUTS = 512"
definition DEFAULT_MAX_RETAINED_SUBAGENT_HISTORIES :: usize where "DEFAULT_MAX_RETAINED_SUBAGENT_HISTORIES = 32"

definition default_budget :: retention_budget where
  "default_budget = \<lparr>rb_tool_outputs = DEFAULT_MAX_RETAINED_TOOL_OUTPUTS,
     rb_subagent_histories = DEFAULT_MAX_RETAINED_SUBAGENT_HISTORIES\<rparr>"

record retention_eviction =
  re_tool_outputs :: "str list"
  re_subagent_messages :: "str list"

definition eviction_is_empty :: "retention_eviction \<Rightarrow> bool" where
  "eviction_is_empty ev \<longleftrightarrow> re_tool_outputs ev = [] \<and> re_subagent_messages ev = []"

text \<open>The decoders that read only the payload of one kind of record.\<close>

record ('m, 't) part_codec =
  pd_out :: "str \<Rightarrow> (str \<times> 't) option"
  pd_sub :: "str \<Rightarrow> (str \<times> 'm) option"

record retained_index =
  ri_tool_outputs :: "str set"
  ri_subagent_messages :: "str set"
  ri_subagent_message_counts :: "(str \<times> usize) list"
  ri_nested_tool_ids :: "(str \<times> str list) list"

definition default_index :: retained_index where
  "default_index = \<lparr>ri_tool_outputs = {}, ri_subagent_messages = {}, ri_subagent_message_counts = [], ri_nested_tool_ids = []\<rparr>"

section \<open>Which records are the oldest\<close>

fun entry_tool_ids :: "('m \<Rightarrow> str list) \<Rightarrow> 'm transcript_entry \<Rightarrow> str list" where
  "entry_tool_ids f (TMessage m) = f m"
| "entry_tool_ids f (GeneratedMessage m) = f m"
| "entry_tool_ids f (Compaction entries summary revision) = concat (map (entry_tool_ids f) entries)"

definition tool_ids_in_transcript :: "('m \<Rightarrow> str list) \<Rightarrow> 'm transcript_entry list \<Rightarrow> str list" where
  "tool_ids_in_transcript f entries = concat (map (entry_tool_ids f) entries)"

definition oldest_beyond_budget :: "str list \<Rightarrow> str set \<Rightarrow> usize \<Rightarrow> str list" where
  "oldest_beyond_budget order present keep =
     (let known = filter (\<lambda>i. i \<in> present) order;
          unranked = sorted_list_of_set (present - set known);
          ranked = known @ unranked
      in take (length ranked - keep) ranked)"

text \<open>The ids pushed so far are the ids seen so far.\<close>

fun push_unseen :: "str list \<Rightarrow> str list \<Rightarrow> str list" where
  "push_unseen order [] = order"
| "push_unseen order (i # ids) = push_unseen (if i \<in> set order then order else order @ [i]) ids"

definition nested_of :: "(str \<times> str list) list \<Rightarrow> str \<Rightarrow> str list" where
  "nested_of nested i = (case map_of nested i of None \<Rightarrow> [] | Some ids \<Rightarrow> ids)"

fun order_ids :: "(str \<times> str list) list \<Rightarrow> str list \<Rightarrow> str list \<Rightarrow> str list" where
  "order_ids nested order [] = order"
| "order_ids nested order (i # ids) =
     (if i \<in> set order then order_ids nested order ids
      else order_ids nested (push_unseen (order @ [i]) (nested_of nested i)) ids)"

definition tool_use_id_order_with_nested ::
  "('m \<Rightarrow> str list) \<Rightarrow> (str \<times> str list) list \<Rightarrow> ('m, 'u, 't, 'x) session \<Rightarrow> str list" where
  "tool_use_id_order_with_nested tool_ids nested s =
     order_ids nested [] (tool_ids_in_transcript tool_ids (se_transcript s) @ concat (map tool_ids (se_messages s)))"

definition tool_use_id_order :: "('m \<Rightarrow> str list) \<Rightarrow> ('m, 'u, 't, 'x) session \<Rightarrow> str list" where
  "tool_use_id_order tool_ids s =
     tool_use_id_order_with_nested tool_ids (map (\<lambda>(i, msgs). (i, concat (map tool_ids msgs))) (se_subagent_messages s)) s"

definition displayed_tool_use_ids :: "('m \<Rightarrow> str list) \<Rightarrow> ('m, 'u, 't, 'x) session \<Rightarrow> str list" where
  "displayed_tool_use_ids tool_ids s =
     (if se_transcript s = [] then concat (map tool_ids (se_messages s)) else tool_ids_in_transcript tool_ids (se_transcript s))"

section \<open>Eviction and pruning\<close>

definition retention_eviction_candidates ::
  "retention_budget \<Rightarrow> ('m \<Rightarrow> str list) \<Rightarrow> ('m, 'u, 't, 'x) session \<Rightarrow> retention_eviction" where
  "retention_eviction_candidates budget tool_ids s =
     (let order = tool_use_id_order tool_ids s
      in \<lparr>re_tool_outputs = oldest_beyond_budget order (set (map fst (se_tool_outputs s))) (rb_tool_outputs budget),
          re_subagent_messages = oldest_beyond_budget order (set (map fst (se_subagent_messages s))) (rb_subagent_histories budget)\<rparr>)"

definition evict_retained :: "retention_eviction \<Rightarrow> ('m, 'u, 't, 'x) session \<Rightarrow> ('m, 'u, 't, 'x) session" where
  "evict_retained ev s =
     s\<lparr>se_tool_outputs := filter (\<lambda>(i, d). i \<notin> set (re_tool_outputs ev)) (se_tool_outputs s),
       se_evicted_tool_outputs := se_evicted_tool_outputs s \<union> set (re_tool_outputs ev),
       se_subagent_messages := filter (\<lambda>(i, ms). i \<notin> set (re_subagent_messages ev)) (se_subagent_messages s),
       se_evicted_subagent_messages := se_evicted_subagent_messages s \<union> set (re_subagent_messages ev)\<rparr>"

text \<open>\<open>sub_id\<close> is the tool use of a stored subagent.\<close>

definition prune_orphans :: "('m \<Rightarrow> str list) \<Rightarrow> ('x \<Rightarrow> str) \<Rightarrow> ('m, 'u, 't, 'x) session \<Rightarrow> ('m, 'u, 't, 'x) session" where
  "prune_orphans tool_ids sub_id s =
     (let main_ids = set (concat (map tool_ids (se_messages s)) @ tool_ids_in_transcript tool_ids (se_transcript s));
          subs = filter (\<lambda>(i, ms). i \<in> main_ids) (se_subagent_messages s);
          live = set (concat (map tool_ids (concat (map snd subs)))) \<union> main_ids
      in s\<lparr>se_subagent_messages := subs,
           se_evicted_subagent_messages := {i \<in> se_evicted_subagent_messages s. i \<in> main_ids},
           se_meta := (se_meta s)\<lparr>sm_subagents := filter (\<lambda>sa. sub_id sa \<in> main_ids) (sm_subagents (se_meta s))\<rparr>,
           se_tool_outputs := filter (\<lambda>(i, d). i \<in> live) (se_tool_outputs s),
           se_evicted_tool_outputs := {i \<in> se_evicted_tool_outputs s. i \<in> live}\<rparr>)"

definition set_transcript_revision :: "u64 option \<Rightarrow> ('m, 'u, 't, 'x) session \<Rightarrow> ('m, 'u, 't, 'x) session" where
  "set_transcript_revision revision s = s\<lparr>se_transcript_revision := revision\<rparr>"

section \<open>Loading and saving\<close>

text \<open>A pass over the lines of a file with a fallible visitor.\<close>

fun visit_with ::
  "(str \<Rightarrow> 's \<Rightarrow> session_error + 's) \<Rightarrow> decode_limits \<Rightarrow> str list \<Rightarrow> 's \<Rightarrow> usize \<Rightarrow> session_error + ('s \<times> usize)" where
  "visit_with f lim [] st decoded = Inr (st, decoded)"
| "visit_with f lim (line # lines) st decoded =
     bindR (count_line lim line decoded) (\<lambda>decoded'. bindR (f line st) (\<lambda>st'. visit_with f lim lines st' decoded'))"

definition index_subagent :: "('m \<Rightarrow> str list) \<Rightarrow> str \<Rightarrow> 'm \<Rightarrow> retained_index \<Rightarrow> retained_index" where
  "index_subagent tool_ids sub d ix =
     ix\<lparr>ri_subagent_messages := insert sub (ri_subagent_messages ix),
        ri_subagent_message_counts := upsert sub (\<lambda>n. (case n of None \<Rightarrow> 0 | Some n \<Rightarrow> n) + 1) (ri_subagent_message_counts ix),
        ri_nested_tool_ids := upsert sub (\<lambda>ids. (case ids of None \<Rightarrow> [] | Some ids \<Rightarrow> ids) @ tool_ids d) (ri_nested_tool_ids ix)\<rparr>"

text \<open>A tool output or a message of a subagent is only indexed.\<close>

definition apply_line_retained ::
  "('m, 'u, 't, 'x) codec \<Rightarrow> ('m, 't) part_codec \<Rightarrow> ('m \<Rightarrow> str list) \<Rightarrow> str \<Rightarrow> ('m, 'u, 't, 'x) session_builder \<times> retained_index
   \<Rightarrow> session_error + (('m, 'u, 't, 'x) session_builder \<times> retained_index)" where
  "apply_line_retained cd pd tool_ids line bi =
     (if line = [] then Inr bi
      else let decode = bindR (apply_line cd line (fst bi)) (\<lambda>b. Inr (b, snd bi))
           in case cd_tag cd line of
                Some (RetainedOut i) \<Rightarrow> Inr (fst bi, (snd bi)\<lparr>ri_tool_outputs := insert i (ri_tool_outputs (snd bi))\<rparr>)
              | Some (RetainedSubMsg sub) \<Rightarrow>
                  (case pd_sub pd line of
                     Some (sub, d) \<Rightarrow> Inr (fst bi, index_subagent tool_ids sub d (snd bi))
                   | None \<Rightarrow> decode)
              | _ \<Rightarrow> decode)"

definition parse_records_retained ::
  "('m, 'u, 't, 'x) codec \<Rightarrow> ('m, 't) part_codec \<Rightarrow> ('m \<Rightarrow> str list) \<Rightarrow> decode_limits \<Rightarrow> str list
   \<Rightarrow> session_error + (('m, 'u, 't, 'x) parsed \<times> retained_index)" where
  "parse_records_retained cd pd tool_ids lim lines =
     bindR (visit_with (apply_line_retained cd pd tool_ids) lim lines (default_builder cd, default_index) 0) (\<lambda>((b, ix), decoded_bytes).
     bindR (finish_parse cd b decoded_bytes) (\<lambda>p. Inr (p, ix)))"

definition load_from ::
  "('m, 'u, 't, 'x) codec \<Rightarrow> decode_limits \<Rightarrow> session_id \<Rightarrow> log_file option \<Rightarrow> session_error + ('m, 'u, 't, 'x) session" where
  "load_from cd lim sid disk =
     (case disk of
        None \<Rightarrow> Inl NotFound
      | Some file \<Rightarrow> bindR (parse_records cd lim (lf_lines file)) (\<lambda>p.
          if se_id (pa_session p) \<noteq> sid then Inl (IdMismatch (se_id (pa_session p)) sid) else Inr (pa_session p)))"

text \<open>The second pass reads the records that are kept.\<close>

definition keep_line ::
  "('m, 'u, 't, 'x) codec \<Rightarrow> ('m, 't) part_codec \<Rightarrow> str set \<Rightarrow> str set \<Rightarrow> str
   \<Rightarrow> (str \<times> 't) list \<times> (str \<times> 'm list) list \<Rightarrow> session_error + ((str \<times> 't) list \<times> (str \<times> 'm list) list)" where
  "keep_line cd pd evicted_outputs evicted_subs line kept =
     Inr (case cd_tag cd line of
            Some (RetainedOut i) \<Rightarrow>
              if i \<in> evicted_outputs then kept
              else (case pd_out pd line of
                      Some (i, d) \<Rightarrow> (upsert i (\<lambda>_. d) (fst kept), snd kept)
                    | None \<Rightarrow> kept)
          | Some (RetainedSubMsg sub) \<Rightarrow>
              if sub \<in> evicted_subs then kept
              else (case pd_sub pd line of
                      Some (sub, d) \<Rightarrow> (fst kept, upsert sub (push_to d) (snd kept))
                    | None \<Rightarrow> kept)
          | _ \<Rightarrow> kept)"

definition load_from_with_retention ::
  "('m, 'u, 't, 'x) codec \<Rightarrow> ('m, 't) part_codec \<Rightarrow> decode_limits \<Rightarrow> session_id \<Rightarrow> retention_budget \<Rightarrow> ('m \<Rightarrow> str list)
   \<Rightarrow> log_file option \<Rightarrow> session_error + ('m, 'u, 't, 'x) session" where
  "load_from_with_retention cd pd lim sid budget tool_ids disk =
     (case disk of
        None \<Rightarrow> Inl NotFound
      | Some file \<Rightarrow> bindR (parse_records_retained cd pd tool_ids lim (lf_lines file)) (\<lambda>(p, ix).
          let s = pa_session p in
          if se_id s \<noteq> sid then Inl (IdMismatch (se_id s) sid)
          else let order = tool_use_id_order_with_nested tool_ids (ri_nested_tool_ids ix) s;
                   outs = set (oldest_beyond_budget order (ri_tool_outputs ix) (rb_tool_outputs budget));
                   subs = set (oldest_beyond_budget order (ri_subagent_messages ix) (rb_subagent_histories budget))
               in bindR (visit_with (keep_line cd pd outs subs) lim (lf_lines file) (se_tool_outputs s, se_subagent_messages s) 0)
                    (\<lambda>((outputs, messages), _).
                       Inr (s\<lparr>se_tool_outputs := outputs, se_subagent_messages := messages,
                              se_evicted_tool_outputs := outs, se_evicted_subagent_messages := subs\<rparr>))))"

definition load_subagent_messages_from ::
  "('m, 't) part_codec \<Rightarrow> decode_limits \<Rightarrow> str \<Rightarrow> log_file option \<Rightarrow> session_error + 'm list" where
  "load_subagent_messages_from pd lim sub_id disk =
     (case disk of
        None \<Rightarrow> Inl NotFound
      | Some file \<Rightarrow> bindR (visit_with (\<lambda>line ms. Inr (case pd_sub pd line of
                                Some (sub, d) \<Rightarrow> if sub = sub_id then ms @ [d] else ms
                              | None \<Rightarrow> ms)) lim (lf_lines file) [] 0) (\<lambda>(ms, _). Inr ms))"

definition load_tool_outputs_from ::
  "('m, 't) part_codec \<Rightarrow> decode_limits \<Rightarrow> str set \<Rightarrow> log_file option \<Rightarrow> session_error + (str \<times> 't) list" where
  "load_tool_outputs_from pd lim wanted disk =
     (case disk of
        None \<Rightarrow> Inl NotFound
      | Some file \<Rightarrow> bindR (visit_with (\<lambda>line outs. Inr (case pd_out pd line of
                                Some (i, d) \<Rightarrow> if i \<in> wanted then upsert i (\<lambda>_. d) outs else outs
                              | None \<Rightarrow> outs)) lim (lf_lines file) [] 0) (\<lambda>(outs, _). Inr outs))"

text \<open>Opening only the cursor of a log, which treats every indexed record as evicted.\<close>

definition open_cursor ::
  "('m, 'u, 't, 'x) codec \<Rightarrow> ('m, 't) part_codec \<Rightarrow> decode_limits \<Rightarrow> log_io \<Rightarrow> session_id \<Rightarrow> log_file option
   \<Rightarrow> (session_error + (u64 \<times> session_log)) \<times> log_file option" where
  "open_cursor cd pd lim io sid disk =
     (case disk of
        None \<Rightarrow> (Inl NotFound, disk)
      | Some file \<Rightarrow>
          (case parse_records_retained cd pd (\<lambda>_. []) lim (lf_lines file) of
             Inl e \<Rightarrow> (Inl e, disk)
           | Inr (p, ix) \<Rightarrow>
               if se_id (pa_session p) \<noteq> sid then (Inl (IdMismatch (se_id (pa_session p)) sid), disk)
               else let s = (pa_session p)\<lparr>se_evicted_tool_outputs := ri_tool_outputs ix,
                              se_evicted_subagent_messages := ri_subagent_messages ix\<rparr>;
                        rewrite = (pa_needs_rewrite p \<or> lf_torn file)
                    in (case (if rewrite then write_session_file_with_limits cd lim io s disk else Inr (file, pa_decoded_bytes p)) of
                          Inl e \<Rightarrow> (Inl e, disk)
                        | Inr (file', decoded_bytes) \<Rightarrow>
                            (bindR (cursor_from cd lim s (lf_revision file') (if rewrite then 0 else pa_log_appends p) decoded_bytes)
                               (\<lambda>log. if io_index_ok io
                                      then Inr (sm_revision (se_meta s),
                                        log\<lparr>lg_saved_tool_ids := sorted_list_of_set (ri_tool_outputs ix),
                                            lg_saved_sub_msg_counts := ri_subagent_message_counts ix\<rparr>)
                                      else Inl StorageFailed), Some file'))))"

definition save_to ::
  "('m, 'u, 't, 'x) codec \<Rightarrow> decode_limits \<Rightarrow> log_io \<Rightarrow> u64 \<Rightarrow> ('m, 'u, 't, 'x) session \<Rightarrow> log_file option
   \<Rightarrow> (session_error + unit) \<times> ('m, 'u, 't, 'x) session \<times> log_file option" where
  "save_to cd lim io now s disk =
     (let s' = s\<lparr>se_updated_at := now\<rparr>
      in case write_session_file_with_limits cd lim io s' disk of
           Inl e \<Rightarrow> (Inl e, s', disk)
         | Inr (file, _) \<Rightarrow> (if io_index_ok io then Inr () else Inl StorageFailed, s', Some file))"

section \<open>The decoders of parts\<close>

text \<open>
  The three decoders of a line agree: the payload decoders read exactly the tool outputs and subagent
  messages that the strict decoder reads, and the tag decoder knows their kind and key. An empty line is
  no JSON.
\<close>

definition parts_faithful :: "('m, 'u, 't, 'x) codec \<Rightarrow> ('m, 't) part_codec \<Rightarrow> bool" where
  "parts_faithful cd pd \<longleftrightarrow>
     cd_tag cd [] = None
     \<and> (\<forall>line i d. pd_out pd line = Some (i, d) \<longleftrightarrow> cd_decode cd line = Reads (Out i d))
     \<and> (\<forall>line sub d. pd_sub pd line = Some (sub, d) \<longleftrightarrow> cd_decode cd line = Reads (SubMsg sub d))
     \<and> (\<forall>line i d. cd_decode cd line = Reads (Out i d) \<longrightarrow> cd_tag cd line = Some (RetainedOut i))
     \<and> (\<forall>line sub d. cd_decode cd line = Reads (SubMsg sub d) \<longrightarrow> cd_tag cd line = Some (RetainedSubMsg sub))"

lemma parts_faithfulD:
  assumes "parts_faithful cd pd"
  shows "pd_out pd line = Some (i, d) \<Longrightarrow> cd_decode cd line = Reads (Out i d) \<and> cd_tag cd line = Some (RetainedOut i)"
    and "pd_sub pd line = Some (sub, m) \<Longrightarrow> cd_decode cd line = Reads (SubMsg sub m) \<and> cd_tag cd line = Some (RetainedSubMsg sub)"
    and "cd_decode cd line = Reads (Out i d) \<Longrightarrow> pd_out pd line = Some (i, d)"
    and "cd_decode cd line = Reads (SubMsg sub m) \<Longrightarrow> pd_sub pd line = Some (sub, m)"
    and "cd_tag cd [] = None"
  using assms unfolding parts_faithful_def by blast+

lemma visit_with_total:
  "visit_with (\<lambda>l st. Inr (g l st)) lim lines st n = Inr r \<longleftrightarrow>
     within lim lines n \<and> r = (fold g lines st, n + lines_bytes lines) \<or> lines = [] \<and> r = (st, n)"
proof (induction lines arbitrary: st n)
  case (Cons l lines)
  have "count_line lim l n = Inr (n + length l + 1)" "within lim lines (n + length l + 1)" if "within lim (l # lines) n"
    using that by (auto simp: within_def count_line_def)
  moreover have "within lim (l # lines) n" if "count_line lim l n = Inr k" "within lim lines k \<or> lines = []" for k
    using that by (auto simp: within_def count_line_def split: if_splits)
  moreover have "k = n + length l + 1" if "count_line lim l n = Inr k" for k
    using that by (auto simp: count_line_def split: if_splits)
  ultimately show ?case using Cons.IH by (fastforce simp: result_simps)
qed auto

section \<open>What writing adds\<close>

definition wrote ::
  "('m, 'u, 't, 'x) codec \<Rightarrow> decode_limits \<Rightarrow> (('m, 'u, 't, 'x) log_record \<Rightarrow> bool) \<Rightarrow> writer \<Rightarrow> writer \<Rightarrow> bool" where
  "wrote cd lim P w w' \<longleftrightarrow> (\<exists>L. fst w' = fst w @ L \<and> snd w' = snd w + lines_bytes L
     \<and> list_all (\<lambda>l. length l \<le> lim_line_bytes lim) L \<and> (L \<noteq> [] \<longrightarrow> snd w' \<le> lim_decoded_bytes lim)
     \<and> (\<forall>l \<in> set L. \<exists>r. P r \<and> cd_encode cd r = Some l))"

lemma wrote_refl [simp]: "wrote cd lim P w w"
  by (simp add: wrote_def)

lemma wrote_trans: "wrote cd lim P w w' \<Longrightarrow> wrote cd lim P w' w'' \<Longrightarrow> wrote cd lim P w w''"
proof -
  assume "wrote cd lim P w w'" "wrote cd lim P w' w''"
  then obtain L M where "fst w' = fst w @ L" "snd w' = snd w + lines_bytes L" "list_all (\<lambda>l. length l \<le> lim_line_bytes lim) L"
    "L \<noteq> [] \<longrightarrow> snd w' \<le> lim_decoded_bytes lim" "\<forall>l \<in> set L. \<exists>r. P r \<and> cd_encode cd r = Some l"
    "fst w'' = fst w' @ M" "snd w'' = snd w' + lines_bytes M" "list_all (\<lambda>l. length l \<le> lim_line_bytes lim) M"
    "M \<noteq> [] \<longrightarrow> snd w'' \<le> lim_decoded_bytes lim" "\<forall>l \<in> set M. \<exists>r. P r \<and> cd_encode cd r = Some l"
    unfolding wrote_def by blast
  then show ?thesis unfolding wrote_def by (intro exI [of _ "L @ M"]) (cases "M = []"; auto)
qed

lemma write_record_wrote: "write_record_with_limits cd lim r w = Inr w' \<Longrightarrow> P r \<Longrightarrow> wrote cd lim P w w'"
  by (auto simp: write_record_with_limits_def wrote_def account_record_bytes_def result_simps split: option.splits if_splits)

lemma write_all_wrote:
  "(\<And>x w w'. x \<in> set xs \<Longrightarrow> f x w = Inr w' \<Longrightarrow> wrote cd lim P w w') \<Longrightarrow> write_all f xs w = Inr w' \<Longrightarrow> wrote cd lim P w w'"
proof (induction xs arbitrary: w)
  case (Cons x xs)
  then obtain w1 where "f x w = Inr w1" "write_all f xs w1 = Inr w'" by (auto simp: result_simps)
  with Cons show ?case by (meson list.set_intros wrote_trans)
qed simp

lemma or_tombstone_wrote:
  "or_tombstone cd lim kind w m = Inr w' \<Longrightarrow> (m = Inr w' \<Longrightarrow> wrote cd lim P w w') \<Longrightarrow> P (Oversized kind) \<Longrightarrow> wrote cd lim P w w'"
  by (auto simp: or_tombstone_def intro: write_record_wrote split: sum.splits session_error.splits)

lemma append_record_wrote:
  "append_record_or_tombstone cd lim kind r w = Inr w' \<Longrightarrow> P r \<Longrightarrow> P (Oversized kind) \<Longrightarrow> wrote cd lim P w w'"
  unfolding append_record_or_tombstone_def by (erule or_tombstone_wrote) (auto intro: write_record_wrote)

lemma write_transcript_wrote:
  assumes "write_transcript cd lim es w = Inr w'" and "\<And>e. e \<in> set es \<Longrightarrow> list_all P (entry_records e)" "\<And>k. P (Oversized k)"
  shows "wrote cd lim P w w'"
proof (rule write_all_wrote)
  fix e w w' assume e: "e \<in> set es" "or_tombstone cd lim ''transcript'' w (write_transcript_entry_with_limits cd lim e w) = Inr w'"
  show "wrote cd lim P w w'"
  proof (rule or_tombstone_wrote [OF e(2)])
    assume "write_transcript_entry_with_limits cd lim e w = Inr w'"
    then show "wrote cd lim P w w'"
      unfolding write_transcript_entry_with_limits_def
      by (rule write_all_wrote [rotated]) (use assms(2) e(1) in \<open>auto simp: list_all_iff intro: write_record_wrote\<close>)
  qed (rule assms(3))
qed (use assms(1) in \<open>simp add: write_transcript_def\<close>)

text \<open>Records that touch neither the given outputs nor the given subagents.\<close>

fun untouched :: "str set \<Rightarrow> str set \<Rightarrow> ('m, 'u, 't, 'x) log_record \<Rightarrow> bool" where
  "untouched E F (Out i d) = (i \<notin> E)"
| "untouched E F (SubMsg sub d) = (sub \<notin> F)"
| "untouched E F _ = True"

lemma entry_records_untouched: "list_all (untouched E F) (entry_records e)"
  by (induction e) (auto simp: list_all_iff)

lemma copied_lines:
  "copy_evicted_lines cd lim s lines n w = Inr w' \<Longrightarrow>
   (lines = [] \<or> within lim lines n) \<and> fst w' = fst w @ filter (retained_line cd s) lines
   \<and> snd w' = snd w + lines_bytes (filter (retained_line cd s) lines)
   \<and> (filter (retained_line cd s) lines \<noteq> [] \<longrightarrow> snd w' \<le> lim_decoded_bytes lim)"
proof (induction lines arbitrary: n w)
  case (Cons l lines)
  then obtain k w1 where k: "count_line lim l n = Inr k" "(if retained_line cd s l then write_raw_record lim l w else Inr w) = Inr w1"
    "copy_evicted_lines cd lim s lines k w1 = Inr w'" by (auto simp: result_simps)
  have kn: "k = n + length l + 1" "length l \<le> lim_line_bytes lim" "n + length l + 1 \<le> lim_decoded_bytes lim"
    using k(1) by (auto simp: count_line_def split: if_splits)
  show ?case
    using Cons.IH [OF k(3)] k(2) kn
    by (auto simp: within_def write_raw_record_def account_record_bytes_def result_simps split: if_splits)
qed simp

lemma meta_line_encoded:
  "shed_until_fits cd s meta n k = Inr line \<Longrightarrow> \<exists>meta'. cd_encode cd (meta_record s n meta') = Some line \<and> length line \<le> k"
proof (induction cd s meta n k rule: shed_until_fits.induct)
  case (1 cd s meta n k)
  then show ?case
    by (subst (asm) (2) shed_until_fits.simps) (auto simp: result_simps serialize_meta_record_def split: option.splits if_splits)
qed

text \<open>A rewritten file: untouched records around the copied lines.\<close>

lemma rewritten_lines:
  assumes "serialize_full_session cd lim s (Some old) = Inr (new, n)"
  shows "\<exists>A B. new = A @ (if has_evicted_records s then filter (retained_line cd s) old else []) @ B
    \<and> (\<forall>l \<in> set A \<union> set B. \<exists>r. untouched (se_evicted_tool_outputs s) (se_evicted_subagent_messages s) r \<and> cd_encode cd r = Some l)
    \<and> within lim new 0 \<and> (has_evicted_records s \<longrightarrow> old = [] \<or> within lim old 0)"
proof -
  let ?P = "untouched (se_evicted_tool_outputs s) (se_evicted_subagent_messages s)"
  obtain w1 w2 w3 w4 w5 w6 meta d where w:
    "write_record_with_limits cd lim (header_record s) ([], 0) = Inr w1"
    "write_all (\<lambda>m. append_record_or_tombstone cd lim ''msg'' (Msg m)) (se_messages s) w1 = Inr w2"
    "write_all (\<lambda>(i, d). append_record_or_tombstone cd lim ''out'' (Out i d))
       (filter (\<lambda>(i, d). i \<notin> se_evicted_tool_outputs s) (se_tool_outputs s)) w2 = Inr w3"
    "write_all (\<lambda>(sub, msgs). write_all (\<lambda>m. append_record_or_tombstone cd lim ''sub_msg'' (SubMsg sub m)) msgs)
       (filter (\<lambda>(sub, msgs). sub \<notin> se_evicted_subagent_messages s) (se_subagent_messages s)) w3 = Inr w4"
    "(if has_evicted_records s then copy_evicted_records cd lim s (Some old) w4 else Inr w4) = Inr w5"
    "write_transcript cd lim (se_transcript s) w5 = Inr w6"
    "meta_record_bytes cd s 0 (lim_line_bytes lim) = Inr meta"
    "account_record_bytes lim (length meta + 1) (snd w6) = Inr d" "new = fst w6 @ [meta]"
    using assms unfolding serialize_full_session_def by (auto simp: result_simps)
  have "wrote cd lim ?P ([], 0) w1" using w(1) by (rule write_record_wrote) (simp add: header_record_def)
  moreover have "wrote cd lim ?P w1 w2" by (rule write_all_wrote [OF _ w(2)]) (auto intro: append_record_wrote)
  moreover have "wrote cd lim ?P w2 w3" by (rule write_all_wrote [OF _ w(3)]) (auto intro: append_record_wrote)
  moreover have "wrote cd lim ?P w3 w4"
    by (rule write_all_wrote [OF _ w(4)], clarsimp, rule write_all_wrote) (auto intro: append_record_wrote)
  ultimately have w4: "wrote cd lim ?P ([], 0) w4" by (meson wrote_trans)
  have w6: "wrote cd lim ?P w5 w6" by (rule write_transcript_wrote [OF w(6)]) (auto simp: entry_records_untouched)
  obtain A where A: "fst w4 = A" "snd w4 = lines_bytes A" "list_all (\<lambda>l. length l \<le> lim_line_bytes lim) A"
      "\<forall>l \<in> set A. \<exists>r. ?P r \<and> cd_encode cd r = Some l"
    using w4 by (auto simp: wrote_def)
  define C where "C = (if has_evicted_records s then filter (retained_line cd s) old else [])"
  have C: "fst w5 = A @ C" "snd w5 = lines_bytes (A @ C)" "has_evicted_records s \<longrightarrow> old = [] \<or> within lim old 0"
    using w(5) A copied_lines [of cd lim s old 0 w4 w5] by (auto simp: C_def copy_evicted_records_def split: if_splits)
  have C_len: "list_all (\<lambda>l. length l \<le> lim_line_bytes lim) C"
    using C(3) by (auto simp: C_def within_def list_all_iff)
  obtain B where B: "fst w6 = A @ C @ B" "snd w6 = lines_bytes (A @ C @ B)" "list_all (\<lambda>l. length l \<le> lim_line_bytes lim) B"
      "\<forall>l \<in> set B. \<exists>r. ?P r \<and> cd_encode cd r = Some l"
    using w6 C by (auto simp: wrote_def)
  obtain meta' where m: "cd_encode cd (meta_record s 0 meta') = Some meta" "length meta \<le> lim_line_bytes lim"
    using meta_line_encoded [of cd s "se_meta s" 0] w(7) by (auto simp: meta_record_bytes_def)
  have "?P (meta_record s 0 meta')" by (simp add: meta_record_def)
  with A(4) B(4) m have enc: "\<forall>l \<in> set A \<union> set (B @ [meta]). \<exists>r. ?P r \<and> cd_encode cd r = Some l" by auto
  have new: "new = A @ C @ (B @ [meta])" using w(9) B(1) by simp
  have "within lim new 0"
    using A(3) B(2,3) C_len m(2) w(8) by (auto simp: within_def new account_record_bytes_def split: if_splits)
  then show ?thesis using new enc C(3) unfolding C_def by blast
qed

lemma untouched_parts:
  assumes "codec_faithful cd" "parts_faithful cd pd" "cd_encode cd r = Some l" "untouched E F r"
  shows "pd_out pd l = Some (i, d) \<Longrightarrow> i \<notin> E" "pd_sub pd l = Some (sub, m) \<Longrightarrow> sub \<notin> F"
  using assms parts_faithfulD(1,2) [OF assms(2), of l] by (auto simp: codec_faithful_def)

lemma fold_unchanged: "(\<And>x acc. x \<in> set xs \<Longrightarrow> f x acc = acc) \<Longrightarrow> fold f xs acc = acc"
  by (induction xs) auto

lemma fold_filter: "(\<And>x acc. x \<in> set xs \<Longrightarrow> \<not> P x \<Longrightarrow> f x acc = acc) \<Longrightarrow> fold f (filter P xs) acc = fold f xs acc"
  by (induction xs arbitrary: acc) auto

text \<open>A reader of evicted parts sees the same before and after.\<close>

lemma rewritten_fold:
  assumes "serialize_full_session cd lim s (Some old) = Inr (new, n)"
    and keep: "\<And>l r acc. untouched (se_evicted_tool_outputs s) (se_evicted_subagent_messages s) r \<Longrightarrow> cd_encode cd r = Some l \<Longrightarrow> g l acc = acc"
    and skip: "\<And>l acc. \<not> (has_evicted_records s \<and> retained_line cd s l) \<Longrightarrow> g l acc = acc"
  shows "fold g new acc = fold g old acc"
proof -
  obtain A B where AB: "new = A @ (if has_evicted_records s then filter (retained_line cd s) old else []) @ B"
    "\<forall>l \<in> set A \<union> set B. \<exists>r. untouched (se_evicted_tool_outputs s) (se_evicted_subagent_messages s) r \<and> cd_encode cd r = Some l"
    using rewritten_lines [OF assms(1)] by blast
  then have "fold g A acc = acc" "fold g B acc = acc" for acc using keep by (blast intro: fold_unchanged)+
  moreover have "fold g (if has_evicted_records s then filter (retained_line cd s) old else []) acc = fold g old acc" for acc
    using skip fold_filter [of old "retained_line cd s" g acc] fold_unchanged [of old g acc] by auto
  ultimately show ?thesis by (simp add: AB(1))
qed

lemma visit_total_new:
  "within lim lines 0 \<Longrightarrow> visit_with (\<lambda>l st. Inr (g l st)) lim lines st 0 = Inr (fold g lines st, lines_bytes lines)"
  by (simp add: visit_with_total)

lemma rewritten_reads:
  assumes "serialize_full_session cd lim s (Some old) = Inr (new, n)"
    and "\<And>l r acc. untouched (se_evicted_tool_outputs s) (se_evicted_subagent_messages s) r \<Longrightarrow> cd_encode cd r = Some l \<Longrightarrow> g l acc = acc"
    and "\<And>l acc. \<not> (has_evicted_records s \<and> retained_line cd s l) \<Longrightarrow> g l acc = acc"
    and "bindR (visit_with (\<lambda>l st. Inr (g l st)) lim old st 0) (\<lambda>(st, _). Inr st) = Inr (r :: 'a)"
  shows "bindR (visit_with (\<lambda>l st. Inr (g l st)) lim new st 0) (\<lambda>(st, _). Inr st) = Inr r"
proof -
  have "r = fold g old st" using assms(4) by (auto simp: result_simps visit_with_total)
  moreover have "within lim new 0" using rewritten_lines [OF assms(1)] by blast
  ultimately show ?thesis using rewritten_fold [OF assms(1-3)] by (simp add: visit_total_new)
qed

lemma rewrite_serialized:
  "write_session_file_with_limits cd lim io s (Some fl) = Inr (fl', n) \<Longrightarrow>
   serialize_full_session cd lim s (Some (lf_lines fl)) = Inr (lf_lines fl', n)"
  by (auto simp: write_session_file_with_limits_def result_simps split: if_splits)

lemma compact_rewrites:
  "compact_with_limits cd lim io s log (Some fl) = (Inr (), log', disk) \<Longrightarrow>
   \<exists>fl' n. disk = Some fl' \<and> write_session_file_with_limits cd lim io s (Some fl) = Inr (fl', n)"
  by (auto simp: compact_with_limits_def compact_with_limits_locked_def result_simps split: sum.splits if_splits)

text \<open>C24. Eviction from memory never loses a record on disk: when a session whose oldest tool outputs and
subagent histories were dropped from memory is written anew, every tool output and every message of a
subagent that counts as evicted reads from the new file as it read from the old one.\<close>

theorem evicted_records_survive_rewrite:
  assumes "codec_faithful cd" "parts_faithful cd pd"
    and "compact_with_limits cd lim io s log (Some fl) = (Inr (), log', Some fl')"
  shows "(wanted \<subseteq> se_evicted_tool_outputs s \<longrightarrow> load_tool_outputs_from pd lim wanted (Some fl) = Inr outs
      \<longrightarrow> load_tool_outputs_from pd lim wanted (Some fl') = Inr outs)
    \<and> (sub \<in> se_evicted_subagent_messages s \<longrightarrow> load_subagent_messages_from pd lim sub (Some fl) = Inr ms
      \<longrightarrow> load_subagent_messages_from pd lim sub (Some fl') = Inr ms)"
proof -
  obtain n where ser: "serialize_full_session cd lim s (Some (lf_lines fl)) = Inr (lf_lines fl', n)"
    using compact_rewrites [OF assms(3)] rewrite_serialized by blast
  note parts = parts_faithfulD [OF assms(2)] and un = untouched_parts [OF assms(1,2)]
  have "load_tool_outputs_from pd lim wanted (Some fl') = Inr outs"
    if w: "wanted \<subseteq> se_evicted_tool_outputs s" "load_tool_outputs_from pd lim wanted (Some fl) = Inr outs"
    unfolding load_tool_outputs_from_def option.case
  proof (rule rewritten_reads [OF ser])
    show "(case pd_out pd l of Some (i, d) \<Rightarrow> if i \<in> wanted then upsert i (\<lambda>_. d) acc else acc | None \<Rightarrow> acc) = acc"
      if "untouched (se_evicted_tool_outputs s) (se_evicted_subagent_messages s) r" "cd_encode cd r = Some l" for l r acc
      using un(1) [OF that(2,1)] w(1) by (auto split: option.splits prod.splits)
    show "(case pd_out pd l of Some (i, d) \<Rightarrow> if i \<in> wanted then upsert i (\<lambda>_. d) acc else acc | None \<Rightarrow> acc) = acc"
      if "\<not> (has_evicted_records s \<and> retained_line cd s l)" for l acc
      using that w(1) parts(1) [of l] by (auto simp: retained_line_def has_evicted_records_def split: option.splits prod.splits)
  qed (use w(2) in \<open>simp add: load_tool_outputs_from_def\<close>)
  moreover have "load_subagent_messages_from pd lim sub (Some fl') = Inr ms"
    if w: "sub \<in> se_evicted_subagent_messages s" "load_subagent_messages_from pd lim sub (Some fl) = Inr ms"
    unfolding load_subagent_messages_from_def option.case
  proof (rule rewritten_reads [OF ser])
    show "(case pd_sub pd l of Some (sub', d) \<Rightarrow> if sub' = sub then acc @ [d] else acc | None \<Rightarrow> acc) = acc"
      if "untouched (se_evicted_tool_outputs s) (se_evicted_subagent_messages s) r" "cd_encode cd r = Some l" for l r acc
      using un(2) [OF that(2,1)] w(1) by (auto split: option.splits prod.splits)
    show "(case pd_sub pd l of Some (sub', d) \<Rightarrow> if sub' = sub then acc @ [d] else acc | None \<Rightarrow> acc) = acc"
      if "\<not> (has_evicted_records s \<and> retained_line cd s l)" for l acc
      using that w(1) parts(2) [of l] by (auto simp: retained_line_def has_evicted_records_def split: option.splits prod.splits)
  qed (use w(2) in \<open>simp add: load_subagent_messages_from_def\<close>)
  ultimately show ?thesis by blast
qed

section \<open>The budget\<close>

lemma push_unseen_distinct: "distinct order \<Longrightarrow> distinct (push_unseen order ids)"
  by (induction order ids rule: push_unseen.induct) auto

lemma order_ids_distinct: "distinct order \<Longrightarrow> distinct (order_ids nested order ids)"
  by (induction nested order ids rule: order_ids.induct) (auto simp: push_unseen_distinct)

lemma tool_use_id_order_distinct: "distinct (tool_use_id_order tool_ids s)"
  by (simp add: tool_use_id_order_def tool_use_id_order_with_nested_def order_ids_distinct)

definition ranked_ids :: "str list \<Rightarrow> str set \<Rightarrow> str list" where
  "ranked_ids order present =
     filter (\<lambda>i. i \<in> present) order @ sorted_list_of_set (present - set (filter (\<lambda>i. i \<in> present) order))"

lemma oldest_ranked: "oldest_beyond_budget order present keep = take (length (ranked_ids order present) - keep) (ranked_ids order present)"
  by (simp add: oldest_beyond_budget_def ranked_ids_def Let_def)

lemma ranked_ids:
  assumes "distinct order" "finite present"
  shows "distinct (ranked_ids order present)" "set (ranked_ids order present) = present"
  using assms by (auto simp: ranked_ids_def)

text \<open>What is kept is the newest part of the ranking.\<close>

lemma kept_ids:
  assumes "distinct order" "finite present"
  shows "present - set (oldest_beyond_budget order present keep) = set (drop (length (ranked_ids order present) - keep) (ranked_ids order present))"
    and "card (present - set (oldest_beyond_budget order present keep)) \<le> keep"
    and "set (oldest_beyond_budget order present keep) \<subseteq> present"
proof -
  let ?r = "ranked_ids order present" and ?n = "length (ranked_ids order present) - keep"
  have d: "distinct (take ?n ?r @ drop ?n ?r)" "set (take ?n ?r @ drop ?n ?r) = present"
    using ranked_ids [OF assms] by simp_all
  then show k: "present - set (oldest_beyond_budget order present keep) = set (drop ?n ?r)"
    unfolding oldest_ranked set_append distinct_append by blast
  have "length (drop ?n ?r) \<le> keep" by simp
  then show "card (present - set (oldest_beyond_budget order present keep)) \<le> keep"
    unfolding k using card_length le_trans by blast
  show "set (oldest_beyond_budget order present keep) \<subseteq> present"
    using set_take_subset [of ?n ?r] ranked_ids(2) [OF assms] unfolding oldest_ranked by simp
qed

lemma takeWhile_filter_subset: "P k \<Longrightarrow> set (takeWhile (\<lambda>i. i \<noteq> k) (filter P xs)) \<subseteq> set (takeWhile (\<lambda>i. i \<noteq> k) xs)"
  by (induction xs) auto

lemma earlier_in_takeWhile:
  assumes "distinct xs" "e \<in> set (take n xs)" "k \<in> set (drop n xs)"
  shows "e \<in> set (takeWhile (\<lambda>i. i \<noteq> k) xs)"
proof -
  have "k \<notin> set (take n xs)" using assms(1,3) set_take_disj_set_drop_if_distinct [of xs n n] by auto
  then have "takeWhile (\<lambda>i. i \<noteq> k) (take n xs @ drop n xs) = take n xs @ takeWhile (\<lambda>i. i \<noteq> k) (drop n xs)"
    by (intro takeWhile_append2) auto
  with assms(2) show ?thesis by (metis Un_iff append_take_drop_id set_append)
qed

text \<open>An evicted id comes before every kept id that has a place in the order.\<close>

lemma evicted_older:
  assumes "distinct order" "finite present" "e \<in> set (oldest_beyond_budget order present keep)"
    and "k \<in> present" "k \<notin> set (oldest_beyond_budget order present keep)" "k \<in> set order"
  shows "e \<in> set (takeWhile (\<lambda>i. i \<noteq> k) order)"
proof -
  let ?F = "filter (\<lambda>i. i \<in> present) order"
  have "k \<in> set (drop (length (ranked_ids order present) - keep) (ranked_ids order present))"
    using kept_ids(1) [OF assms(1,2), of keep] assms(4,5) by blast
  with assms(3) have "e \<in> set (takeWhile (\<lambda>i. i \<noteq> k) (ranked_ids order present))"
    unfolding oldest_ranked by (intro earlier_in_takeWhile ranked_ids(1) assms(1,2))
  moreover have "k \<in> set ?F" using assms(4,6) by simp
  ultimately have "e \<in> set (takeWhile (\<lambda>i. i \<noteq> k) ?F)" by (auto simp: ranked_ids_def takeWhile_append split: if_splits)
  with takeWhile_filter_subset [of "\<lambda>i. i \<in> present" k order] assms(4) show ?thesis by blast
qed

lemma filter_keys_length:
  assumes "distinct (map fst kvs)" "card (set (map fst kvs) - E) \<le> n"
  shows "length (filter (\<lambda>(i, d). i \<notin> E) kvs) \<le> n"
proof -
  have "map fst (filter (\<lambda>(i, d). i \<notin> E) kvs) = filter (\<lambda>i. i \<notin> E) (map fst kvs)"
    by (induction kvs) auto
  moreover have "set (filter (\<lambda>i. i \<notin> E) (map fst kvs)) = set (map fst kvs) - E" by auto
  ultimately show ?thesis using assms by (metis distinct_card distinct_filter length_map)
qed

text \<open>The budget is a ceiling: after the candidates for eviction are evicted, at most the budgeted number
of tool outputs and of subagent histories is in memory, every evicted id counts as owned by the log,
nothing else is dropped, and an id that was evicted is older, in the order of the transcript and the
conversation, than every id of the order that was kept.\<close>

lemma eviction_within_budget:
  assumes "distinct (map fst (se_tool_outputs s))" "distinct (map fst (se_subagent_messages s))"
    and "ev = retention_eviction_candidates budget tool_ids s" "s' = evict_retained ev s"
  shows "length (se_tool_outputs s') \<le> rb_tool_outputs budget \<and> length (se_subagent_messages s') \<le> rb_subagent_histories budget
    \<and> (\<forall>(i, d) \<in> set (se_tool_outputs s). (i, d) \<in> set (se_tool_outputs s') \<or> i \<in> se_evicted_tool_outputs s')
    \<and> (\<forall>(i, ms) \<in> set (se_subagent_messages s). (i, ms) \<in> set (se_subagent_messages s') \<or> i \<in> se_evicted_subagent_messages s')
    \<and> (\<forall>e \<in> set (re_tool_outputs ev). \<forall>(k, d) \<in> set (se_tool_outputs s').
         k \<in> set (tool_use_id_order tool_ids s) \<longrightarrow> e \<in> set (takeWhile (\<lambda>i. i \<noteq> k) (tool_use_id_order tool_ids s)))"
proof -
  let ?o = "tool_use_id_order tool_ids s" and ?P = "set (map fst (se_tool_outputs s))" and ?Q = "set (map fst (se_subagent_messages s))"
  have ev: "re_tool_outputs ev = oldest_beyond_budget ?o ?P (rb_tool_outputs budget)"
    "re_subagent_messages ev = oldest_beyond_budget ?o ?Q (rb_subagent_histories budget)"
    by (simp_all add: assms(3) retention_eviction_candidates_def Let_def)
  have "length (se_tool_outputs s') \<le> rb_tool_outputs budget"
    using filter_keys_length [OF assms(1)] kept_ids(2) [OF tool_use_id_order_distinct [of tool_ids s], of ?P] by (simp add: assms(4) evict_retained_def ev)
  moreover have "length (se_subagent_messages s') \<le> rb_subagent_histories budget"
    using filter_keys_length [OF assms(2)] kept_ids(2) [OF tool_use_id_order_distinct [of tool_ids s], of ?Q] by (simp add: assms(4) evict_retained_def ev)
  moreover have "e \<in> set (takeWhile (\<lambda>i. i \<noteq> k) ?o)"
    if "e \<in> set (re_tool_outputs ev)" "(k, d) \<in> set (se_tool_outputs s')" "k \<in> set ?o" for e k d
  proof (rule evicted_older [OF tool_use_id_order_distinct])
    show "e \<in> set (oldest_beyond_budget ?o ?P (rb_tool_outputs budget))" using that(1) ev by simp
    show "k \<in> ?P" "k \<notin> set (oldest_beyond_budget ?o ?P (rb_tool_outputs budget))"
      using that(2) ev by (force simp: assms(4) evict_retained_def)+
  qed (use that(3) in simp_all)
  ultimately show ?thesis by (auto simp: assms(4) evict_retained_def)
qed

section \<open>Loading under a budget\<close>

text \<open>Leaving tool outputs and subagents out of a builder commutes with everything else.\<close>

definition erase :: "('m, 'u, 't, 'x) session_builder \<Rightarrow> ('m, 'u, 't, 'x) session_builder" where
  "erase b = b\<lparr>b_tool_outputs := [], b_subagent_messages := []\<rparr>"

lemma erase_sel [simp]:
  "b_transcript (erase b) = b_transcript b" "b_compactions (erase b) = b_compactions b" "b_id (erase b) = b_id b"
  "b_got_header (erase b) = b_got_header b" "b_saw_legacy_transcript (erase b) = b_saw_legacy_transcript b"
  "b_recovered_structure (erase b) = b_recovered_structure b" "b_log_appends (erase b) = b_log_appends b"
  by (simp_all add: erase_def)

lemma push_erase: "push_transcript_entry e (erase b) = erase (push_transcript_entry e b)"
  by (simp add: push_transcript_entry_def erase_def split: list.splits)

lemma fold_push_erase: "fold push_transcript_entry es (erase b) = erase (fold push_transcript_entry es b)"
  by (induction es arbitrary: b) (simp_all add: push_erase)

lemma compactions_erase: "(erase b)\<lparr>b_compactions := cs\<rparr> = erase (b\<lparr>b_compactions := cs\<rparr>)"
  by (simp add: erase_def)

lemma finish_erase: "finish_transcript_compaction (erase b) = erase (finish_transcript_compaction b)"
proof (cases "b_compactions b")
  case (Cons c cs)
  then show ?thesis by (simp add: finish_transcript_compaction_def compactions_erase push_erase fold_push_erase)
qed (simp add: finish_transcript_compaction_def erase_def)

fun keyed_record :: "('m, 'u, 't, 'x) log_record \<Rightarrow> bool" where
  "keyed_record (Out i d) = True"
| "keyed_record (SubMsg sub d) = True"
| "keyed_record _ = False"

lemma apply_record_erase: "\<not> keyed_record r \<Longrightarrow> apply_record (erase b) r = map_sum id erase (apply_record b r)"
  by (cases r) (auto simp: push_erase finish_erase, auto simp: erase_def begin_unreadable_transcript_compaction_def split: option.splits)

lemma apply_line_erase:
  "(\<And>r. cd_decode cd line = Reads r \<Longrightarrow> \<not> keyed_record r) \<Longrightarrow> apply_line cd line (erase b) = map_sum id erase (apply_line cd line b)"
  by (auto simp: apply_line_def apply_record_erase split: line_reading.splits)
     (auto simp: erase_def begin_unreadable_transcript_compaction_def)

lemma close_open_erase: "close_open_compactions n (erase b) = erase (close_open_compactions n b)"
  by (induction n arbitrary: b) (simp_all add: finish_erase)

lemma close_erase: "close_unterminated (erase b) = erase (close_unterminated b)"
proof -
  have "(erase b)\<lparr>b_recovered_structure := True\<rparr> = erase (b\<lparr>b_recovered_structure := True\<rparr>)" by (simp add: erase_def)
  then show ?thesis by (simp add: close_unterminated_def close_open_erase)
qed

lemma normalize_erase: "normalize_builder (erase b) = erase (normalize_builder b)"
  by (simp add: normalize_builder_def erase_def)

lemma finish_parse_erase:
  "finish_parse cd (erase b) n =
     bindR (finish_parse cd b n) (\<lambda>p. Inr (p\<lparr>pa_session := (pa_session p)\<lparr>se_tool_outputs := [], se_subagent_messages := []\<rparr>\<rparr>))"
  unfolding finish_parse_def close_erase normalize_erase
  by (cases "b_id (normalize_builder (close_unterminated b))") (simp_all add: Let_def builder_session_def erase_def)

lemma finish_parse_keeps:
  "finish_parse cd b n = Inr p \<Longrightarrow> se_tool_outputs (pa_session p) = b_tool_outputs (normalize_builder (close_unterminated b))
    \<and> se_subagent_messages (pa_session p) = b_subagent_messages (normalize_builder (close_unterminated b))
    \<and> se_evicted_tool_outputs (pa_session p) = {} \<and> se_evicted_subagent_messages (pa_session p) = {}"
  by (auto simp: finish_parse_def Let_def builder_session_def result_simps)

lemma visit_with_apply_line: "visit_lines cd lim lines b n = visit_with (apply_line cd) lim lines b n"
  by (induction lines arbitrary: b n) (auto intro!: bindR_cong)

text \<open>What the first pass under a budget knows of the builder of a full load.\<close>

definition indexes :: "('m \<Rightarrow> str list) \<Rightarrow> ('m, 'u, 't, 'x) session_builder \<Rightarrow> retained_index \<Rightarrow> bool" where
  "indexes tool_ids b ix \<longleftrightarrow> ri_tool_outputs ix = set (map fst (b_tool_outputs b))
     \<and> ri_subagent_messages ix = set (map fst (b_subagent_messages b))
     \<and> ri_nested_tool_ids ix = map (\<lambda>(i, msgs). (i, concat (map tool_ids msgs))) (b_subagent_messages b)"

definition tags_decode :: "('m, 'u, 't, 'x) codec \<Rightarrow> ('m, 't) part_codec \<Rightarrow> str \<Rightarrow> bool" where
  "tags_decode cd pd line \<longleftrightarrow> (case cd_tag cd line of
     Some (RetainedOut i) \<Rightarrow> pd_out pd line \<noteq> None
   | Some (RetainedSubMsg sub) \<Rightarrow> pd_sub pd line \<noteq> None
   | _ \<Rightarrow> True)"

lemma upsert_keys: "set (map fst (upsert k f kvs)) = insert k (set (map fst kvs))"
  by (induction k f kvs rule: upsert.induct) auto

lemma upsert_nested:
  "upsert sub (\<lambda>ids. (case ids of None \<Rightarrow> [] | Some ids \<Rightarrow> ids) @ f d) (map (\<lambda>(i, msgs). (i, concat (map f msgs))) kvs)
   = map (\<lambda>(i, msgs). (i, concat (map f msgs))) (upsert sub (push_to d) kvs)"
  by (induction kvs) (auto simp: push_to_def)

lemma filter_upsert:
  "filter (\<lambda>(i, d). i \<notin> E) (upsert k f kvs) = (if k \<in> E then filter (\<lambda>(i, d). i \<notin> E) kvs else upsert k f (filter (\<lambda>(i, d). i \<notin> E) kvs))"
  by (induction k f kvs rule: upsert.induct) auto

lemma push_keyed [simp]:
  "b_tool_outputs (push_transcript_entry e b) = b_tool_outputs b" "b_subagent_messages (push_transcript_entry e b) = b_subagent_messages b"
  by (simp_all add: push_transcript_entry_def split: list.splits)

lemma fold_push_keyed [simp]:
  "b_tool_outputs (fold push_transcript_entry es b) = b_tool_outputs b"
  "b_subagent_messages (fold push_transcript_entry es b) = b_subagent_messages b"
  by (induction es arbitrary: b) simp_all

lemma finish_keyed [simp]:
  "b_tool_outputs (finish_transcript_compaction b) = b_tool_outputs b"
  "b_subagent_messages (finish_transcript_compaction b) = b_subagent_messages b"
  by (simp_all add: finish_transcript_compaction_def split: list.splits)

lemma close_open_keyed [simp]:
  "b_tool_outputs (close_open_compactions n b) = b_tool_outputs b"
  "b_subagent_messages (close_open_compactions n b) = b_subagent_messages b"
  by (induction n arbitrary: b) simp_all

lemma close_keyed [simp]:
  "b_tool_outputs (normalize_builder (close_unterminated b)) = b_tool_outputs b"
  "b_subagent_messages (normalize_builder (close_unterminated b)) = b_subagent_messages b"
  by (simp_all add: normalize_builder_def close_unterminated_def)

lemma apply_record_keyed:
  "apply_record b r = Inr b' \<Longrightarrow> \<not> keyed_record r \<Longrightarrow> b_tool_outputs b' = b_tool_outputs b \<and> b_subagent_messages b' = b_subagent_messages b"
  by (cases r) (auto simp: begin_unreadable_transcript_compaction_def split: if_splits option.splits)

lemma apply_line_keyed:
  "apply_line cd line b = Inr b' \<Longrightarrow> (\<And>r. cd_decode cd line = Reads r \<Longrightarrow> \<not> keyed_record r) \<Longrightarrow>
   b_tool_outputs b' = b_tool_outputs b \<and> b_subagent_messages b' = b_subagent_messages b"
  by (auto simp: apply_line_def begin_unreadable_transcript_compaction_def dest: apply_record_keyed split: if_splits line_reading.splits)

definition follows ::
  "('m \<Rightarrow> str list) \<Rightarrow> session_error + ('m, 'u, 't, 'x) session_builder
   \<Rightarrow> session_error + (('m, 'u, 't, 'x) session_builder \<times> retained_index) \<Rightarrow> bool" where
  "follows tool_ids full part = (case full of
     Inl e \<Rightarrow> part = Inl e
   | Inr b \<Rightarrow> (\<exists>ix. part = Inr (erase b, ix) \<and> indexes tool_ids b ix))"

lemma retained_line_follows:
  assumes "parts_faithful cd pd" "tags_decode cd pd line" "indexes tool_ids b ix"
  shows "follows tool_ids (apply_line cd line b) (apply_line_retained cd pd tool_ids line (erase b, ix))"
proof (cases "line = []")
  case True
  with assms(3) show ?thesis by (simp add: follows_def apply_line_def apply_line_retained_def)
next
  case False
  note parts = parts_faithfulD [OF assms(1)]
  consider (Out) i d where "cd_decode cd line = Reads (Out i d)" | (Sub) sub d where "cd_decode cd line = Reads (SubMsg sub d)"
    | (Other) "\<And>r. cd_decode cd line = Reads r \<Longrightarrow> \<not> keyed_record r"
    using keyed_record.elims(2) by metis
  then show ?thesis
  proof cases
    case (Out i d)
    then have "cd_tag cd line = Some (RetainedOut i)" using parts(1,3) by blast
    with Out assms(3) show ?thesis
      by (simp add: follows_def apply_line_def apply_line_retained_def False erase_def indexes_def upsert_keys [unfolded set_map])
  next
    case (Sub sub d)
    then have "cd_tag cd line = Some (RetainedSubMsg sub)" "pd_sub pd line = Some (sub, d)" using parts(2,4) by blast+
    with Sub assms(3) show ?thesis
      by (simp add: follows_def apply_line_def apply_line_retained_def False erase_def indexes_def index_subagent_def
          upsert_keys [unfolded set_map] upsert_nested)
  next
    case Other
    have no: "pd_out pd line = None" "pd_sub pd line = None"
      using Other parts(1,2) [of line] by (cases "pd_out pd line"; cases "pd_sub pd line"; fastforce)+
    with assms(2) have "apply_line_retained cd pd tool_ids line (erase b, ix) = bindR (apply_line cd line (erase b)) (\<lambda>b. Inr (b, ix))"
      by (auto simp: apply_line_retained_def tags_decode_def False split: option.splits retained_tag.splits)
    then show ?thesis
      using apply_line_erase [of cd line b, OF Other] apply_line_keyed [of cd line b, OF _ Other] assms(3)
      by (auto simp: follows_def indexes_def split: sum.splits)
  qed
qed

lemma retained_visit_follows:
  assumes "parts_faithful cd pd" "list_all (tags_decode cd pd) lines" "indexes tool_ids b ix"
  shows "(\<forall>e. visit_lines cd lim lines b n = Inl e \<longrightarrow> visit_with (apply_line_retained cd pd tool_ids) lim lines (erase b, ix) n = Inl e)
    \<and> (\<forall>b' k. visit_lines cd lim lines b n = Inr (b', k) \<longrightarrow>
         (\<exists>ix'. visit_with (apply_line_retained cd pd tool_ids) lim lines (erase b, ix) n = Inr ((erase b', ix'), k) \<and> indexes tool_ids b' ix'))"
  using assms(2,3)
proof (induction lines arbitrary: b ix n)
  case (Cons line lines)
  show ?case
  proof (cases "count_line lim line n")
    case (Inr k)
    from Cons.prems assms(1) have f: "follows tool_ids (apply_line cd line b) (apply_line_retained cd pd tool_ids line (erase b, ix))"
      by (intro retained_line_follows) auto
    show ?thesis
    proof (cases "apply_line cd line b")
      case (Inl e)
      with f Inr show ?thesis by (simp add: follows_def)
    next
      case (Inr b1)
      with f obtain ix1 where "apply_line_retained cd pd tool_ids line (erase b, ix) = Inr (erase b1, ix1)" "indexes tool_ids b1 ix1"
        by (auto simp: follows_def)
      with Inr \<open>count_line lim line n = Inr k\<close> Cons.IH [of b1 ix1 k] Cons.prems show ?thesis by simp
    qed
  qed simp
qed simp

text \<open>The second pass keeps what eviction would have kept.\<close>

lemma keep_line_filters:
  assumes "parts_faithful cd pd" "tags_decode cd pd line" "apply_line cd line b = Inr b'"
  shows "keep_line cd pd E F line (filter (\<lambda>(i, d). i \<notin> E) (b_tool_outputs b), filter (\<lambda>(i, d). i \<notin> F) (b_subagent_messages b))
    = Inr (filter (\<lambda>(i, d). i \<notin> E) (b_tool_outputs b'), filter (\<lambda>(i, d). i \<notin> F) (b_subagent_messages b'))"
proof (cases "line = []")
  case True
  with assms(3) parts_faithfulD(5) [OF assms(1)] show ?thesis by (simp add: keep_line_def apply_line_def)
next
  case False
  note parts = parts_faithfulD [OF assms(1)]
  consider (Out) i d where "cd_decode cd line = Reads (Out i d)" | (Sub) sub d where "cd_decode cd line = Reads (SubMsg sub d)"
    | (Other) "\<And>r. cd_decode cd line = Reads r \<Longrightarrow> \<not> keyed_record r"
    using keyed_record.elims(2) by metis
  then show ?thesis
  proof cases
    case (Out i d)
    then have "cd_tag cd line = Some (RetainedOut i)" "pd_out pd line = Some (i, d)" using parts(1,3) by blast+
    with Out assms(3) show ?thesis by (auto simp: keep_line_def apply_line_def False filter_upsert)
  next
    case (Sub sub d)
    then have "cd_tag cd line = Some (RetainedSubMsg sub)" "pd_sub pd line = Some (sub, d)" using parts(2,4) by blast+
    with Sub assms(3) show ?thesis by (auto simp: keep_line_def apply_line_def False filter_upsert)
  next
    case Other
    have no: "pd_out pd line = None" "pd_sub pd line = None"
      using Other parts(1,2) [of line] by (cases "pd_out pd line"; cases "pd_sub pd line"; fastforce)+
    with assms(2) have "keep_line cd pd E F line kept = Inr kept" for kept
      by (auto simp: keep_line_def tags_decode_def split: option.splits retained_tag.splits)
    with apply_line_keyed [of cd line b b', OF assms(3) Other] show ?thesis by simp
  qed
qed

lemma keep_visit_filters:
  "parts_faithful cd pd \<Longrightarrow> list_all (tags_decode cd pd) lines \<Longrightarrow> visit_lines cd lim lines b n = Inr (b', k) \<Longrightarrow>
   visit_with (keep_line cd pd E F) lim lines (filter (\<lambda>(i, d). i \<notin> E) (b_tool_outputs b), filter (\<lambda>(i, d). i \<notin> F) (b_subagent_messages b)) n
    = Inr ((filter (\<lambda>(i, d). i \<notin> E) (b_tool_outputs b'), filter (\<lambda>(i, d). i \<notin> F) (b_subagent_messages b')), k)"
proof (induction lines arbitrary: b n)
  case (Cons line lines)
  then obtain d b1 where "count_line lim line n = Inr d" "apply_line cd line b = Inr b1" "visit_lines cd lim lines b1 d = Inr (b', k)"
    by (auto simp: result_simps)
  with Cons keep_line_filters [of cd pd line b b1 E F] show ?case by simp
qed simp

text \<open>C25. Loading a session under a budget is loading it whole and evicting what is beyond the budget: the two
passes over the file give the same session, with the same records in memory and the same records left
to the log, or the same error, for every log whose tool outputs and subagent messages can be read.\<close>

theorem load_with_budget_is_load_then_evict:
  assumes "parts_faithful cd pd" "\<forall>fl. disk = Some fl \<longrightarrow> list_all (tags_decode cd pd) (lf_lines fl)"
  shows "load_from_with_retention cd pd lim sid budget tool_ids disk =
    bindR (load_from cd lim sid disk) (\<lambda>s. Inr (evict_retained (retention_eviction_candidates budget tool_ids s) s))"
proof (cases disk)
  case (Some fl)
  let ?ls = "lf_lines fl"
  have ok: "list_all (tags_decode cd pd) ?ls" using assms(2) Some by simp
  have e0: "erase (default_builder cd) = default_builder cd" by (simp add: erase_def default_builder_def)
  have "indexes tool_ids (default_builder cd) default_index" by (simp add: indexes_def default_builder_def default_index_def)
  note visit = retained_visit_follows [OF assms(1) ok this, of lim 0, unfolded e0]
  show ?thesis
  proof (cases "visit_lines cd lim ?ls (default_builder cd) 0")
    case (Inl e)
    then show ?thesis
      using visit by (simp add: Some load_from_with_retention_def load_from_def parse_records_def parse_records_retained_def)
  next
    case (Inr bk)
    obtain b k where bk: "visit_lines cd lim ?ls (default_builder cd) 0 = Inr (b, k)" using Inr by (cases bk) auto
    then obtain ix where ix: "visit_with (apply_line_retained cd pd tool_ids) lim ?ls (default_builder cd, default_index) 0 = Inr ((erase b, ix), k)"
      "indexes tool_ids b ix" using visit by blast
    show ?thesis
    proof (cases "finish_parse cd b k")
      case (Inl e)
      then show ?thesis
        by (simp add: Some load_from_with_retention_def load_from_def parse_records_def parse_records_retained_def bk ix finish_parse_erase)
    next
      case (Inr p)
      note keeps = finish_parse_keeps [OF Inr]
      let ?s = "pa_session p"
      let ?erased = "?s\<lparr>se_tool_outputs := [], se_subagent_messages := []\<rparr>"
      have order: "tool_use_id_order_with_nested tool_ids (ri_nested_tool_ids ix) ?erased = tool_use_id_order tool_ids ?s"
        using ix(2) keeps by (simp add: tool_use_id_order_def tool_use_id_order_with_nested_def indexes_def)
      have pass: "visit_with (keep_line cd pd E F) lim ?ls ([], []) 0
        = Inr ((filter (\<lambda>(i, d). i \<notin> E) (se_tool_outputs ?s), filter (\<lambda>(i, d). i \<notin> F) (se_subagent_messages ?s)), k)" for E F
        using keep_visit_filters [OF assms(1) ok bk, of E F] keeps by (simp add: default_builder_def)
      have "ri_tool_outputs ix = set (map fst (se_tool_outputs ?s))" "ri_subagent_messages ix = set (map fst (se_subagent_messages ?s))"
        using ix(2) keeps by (simp_all add: indexes_def)
      with order pass keeps show ?thesis
        by (simp add: Some load_from_with_retention_def load_from_def parse_records_def parse_records_retained_def bk ix finish_parse_erase
            Inr Let_def retention_eviction_candidates_def evict_retained_def)
    qed
  qed
qed (simp add: load_from_with_retention_def load_from_def)

section \<open>Examples\<close>

text \<open>
  A session whose conversation holds the call \<open>t\<close> of a subagent; the subagent made the call \<open>n\<close>. A message
  is the id of its call.
\<close>

definition rt_meta :: "str session_meta" where
  "rt_meta = \<lparr>sm_parent_id = None, sm_queued_messages = [], sm_queued_submissions = [], sm_queued_direct_tools = [],
     sm_subagents = [], sm_direct_paused_team = None, sm_direct_output = None, sm_state_snapshot = None, sm_revision = 0, sm_rest = []\<rparr>"

definition rt_session :: "(str, unit, unit, str) session" where
  "rt_session = \<lparr>se_version = 1, se_id = ''s'', se_title = ''t'', se_cwd = ''/'', se_model = ''a'', se_messages = [''t''],
     se_transcript = [], se_transcript_revision = None, se_token_usage = (), se_tool_outputs = [(''n'', ())],
     se_subagent_messages = [(''t'', [''n''])], se_evicted_tool_outputs = {}, se_evicted_subagent_messages = {},
     se_loaded_from_disk = True, se_meta = rt_meta, se_created_at = 0, se_updated_at = 0\<rparr>"

definition rt_decode :: "str \<Rightarrow> (str, unit, unit, str) line_reading" where
  "rt_decode line =
     (if line = ''h'' then Reads (header_record rt_session)
      else if line = ''m'' then Reads (Msg ''t'')
      else if line = ''o'' then Reads (Out ''n'' ())
      else if line = ''s'' then Reads (SubMsg ''t'' ''n'')
      else if line = ''0'' then Reads (meta_record rt_session 0 rt_meta)
      else BadLine)"

definition rt_encode :: "(str, unit, unit, str) log_record \<Rightarrow> str option" where
  "rt_encode r = find (\<lambda>line. rt_decode line = Reads r) [''h'', ''m'', ''o'', ''s'', ''0'']"

definition rt_codec :: "(str, unit, unit, str) codec" where
  "rt_codec = \<lparr>cd_encode = rt_encode, cd_decode = rt_decode,
     cd_tag = (\<lambda>line. if line = ''o'' then Some (RetainedOut ''n'') else if line = ''s'' then Some (RetainedSubMsg ''t'')
                      else if line = [] then None else Some RetainedOther),
     cd_message = Some, cd_entry = (\<lambda>_. None), cd_default_usage = (), cd_default_rest = []\<rparr>"

definition rt_parts :: "(str, unit) part_codec" where
  "rt_parts = \<lparr>pd_out = (\<lambda>line. if line = ''o'' then Some (''n'', ()) else None),
     pd_sub = (\<lambda>line. if line = ''s'' then Some (''t'', ''n'') else None)\<rparr>"

definition rt_file :: log_file where
  "rt_file = \<lparr>lf_lines = [''h'', ''m'', ''o'', ''s'', ''0''], lf_torn = False, lf_revision = 7\<rparr>"

definition rt_budget :: retention_budget where
  "rt_budget = \<lparr>rb_tool_outputs = 1, rb_subagent_histories = 0\<rparr>"

definition rt_loaded :: "(str, unit, unit, str) session" where
  "rt_loaded = evict_retained (retention_eviction_candidates rt_budget (\<lambda>m. [m]) rt_session) rt_session"

definition rt_log :: session_log where
  "rt_log = \<lparr>lg_session_id = ''s'', lg_saved_messages = [''t''], lg_saved_transcript = [], lg_saved_tool_ids = [''n''],
     lg_saved_sub_msg_counts = [(''t'', 1)], lg_appended_frames = 0, lg_saved_transcript_revision = None, lg_saved_meta = ''0'',
     lg_saved_title = ''t'', lg_decoded_bytes = 10, lg_file_revision = 7\<rparr>"

lemma rt_faithful: "codec_faithful rt_codec"
  by (auto simp: codec_faithful_def rt_codec_def rt_encode_def find_Some_iff less_Suc_eq)

lemma rt_parts_faithful: "parts_faithful rt_codec rt_parts"
  by (auto simp: parts_faithful_def rt_codec_def rt_parts_def rt_decode_def header_record_def meta_record_def)

lemma rt_loaded_sel:
  "se_tool_outputs rt_loaded = [(''n'', ())]" "se_subagent_messages rt_loaded = []" "se_evicted_subagent_messages rt_loaded = {''t''}"
  by code_simp+

lemma rt_compacted:
  "compact_with_limits rt_codec ex_limits ex_io rt_loaded rt_log (Some rt_file) = (Inr (),
     rt_log\<lparr>lg_saved_sub_msg_counts := []\<rparr>, Some \<lparr>lf_lines = [''h'', ''m'', ''o'', ''s'', ''0''], lf_torn = False, lf_revision = 7\<rparr>)"
  by code_simp

theorem evicted_records_survive_rewrite_witness:
  "''t'' \<in> se_evicted_subagent_messages rt_loaded
   \<and> (\<exists>log fl. compact_with_limits rt_codec ex_limits ex_io rt_loaded rt_log (Some rt_file) = (Inr (), log, Some fl)
        \<and> load_subagent_messages_from rt_parts ex_limits ''t'' (Some fl) = Inr [''n''])"
proof -
  have "load_subagent_messages_from rt_parts ex_limits ''t'' (Some rt_file) = Inr [''n'']" by code_simp
  with rt_compacted evicted_records_survive_rewrite [OF rt_faithful rt_parts_faithful rt_compacted, of "{}" _ "''t''" "[''n'']"]
  show ?thesis by (auto simp: rt_loaded_sel)
qed

lemma eviction_within_budget_example:
  "length (se_subagent_messages rt_session) = 1 \<and> length (se_subagent_messages rt_loaded) \<le> rb_subagent_histories rt_budget"
  using eviction_within_budget [of rt_session _ rt_budget "\<lambda>m. [m]", OF _ _ refl refl] by (simp add: rt_loaded_def rt_session_def)

theorem load_with_budget_is_load_then_evict_witness:
  "load_from rt_codec ex_limits ''s'' (Some rt_file) = Inr rt_session
   \<and> load_from_with_retention rt_codec rt_parts ex_limits ''s'' rt_budget (\<lambda>m. [m]) (Some rt_file) = Inr rt_loaded"
proof -
  have l: "load_from rt_codec ex_limits ''s'' (Some rt_file) = Inr rt_session" by code_simp
  have "list_all (tags_decode rt_codec rt_parts) (lf_lines rt_file)" by code_simp
  with l show ?thesis
    using load_with_budget_is_load_then_evict [OF rt_parts_faithful, of "Some rt_file" ex_limits "''s''" rt_budget "\<lambda>m. [m]"]
    by (simp add: rt_loaded_def)
qed


end
