(* ===== verification/Storage_Writer.thy ===== *)
theory Storage_Writer
  imports Session_Retention "HOL-Library.AList"
begin

text \<open>
  The write-behind cache of session snapshots (\<open>crates/n00n-ui/src/storage_writer.rs\<close>). Callers reserve a
  generation for every command and hand it to one writer thread, snapshots through an inbox that keeps the newest
  of each session, other commands through a channel. The writer stages snapshots, writes them with the session
  log, retries what fails and gives up after a number of attempts. A step of the system is one access to the
  shared state by one caller or by the writer. A generation is a natural number: it counts commands.
\<close>

section \<open>Snapshots\<close>

definition MAX_RETRY_ATTEMPTS :: nat where "MAX_RETRY_ATTEMPTS = 5"

record snapshot_version =
  v_generation :: nat
  v_revision :: u64

record ('m, 'u, 't, 'x) pending_snapshot =
  sn_version :: snapshot_version
  sn_session :: "('m, 'u, 't, 'x) session"

definition new_pending_snapshot :: "nat \<Rightarrow> ('m, 'u, 't, 'x) session \<Rightarrow> ('m, 'u, 't, 'x) pending_snapshot" where
  "new_pending_snapshot generation s =
     \<lparr>sn_version = \<lparr>v_generation = generation, v_revision = sm_revision (se_meta s)\<rparr>, sn_session = s\<rparr>"

definition sn_id :: "('m, 'u, 't, 'x) pending_snapshot \<Rightarrow> session_id" where
  "sn_id sn = se_id (sn_session sn)"

abbreviation sn_generation :: "('m, 'u, 't, 'x) pending_snapshot \<Rightarrow> nat" where
  "sn_generation sn \<equiv> v_generation (sn_version sn)"

abbreviation sn_revision :: "('m, 'u, 't, 'x) pending_snapshot \<Rightarrow> u64" where
  "sn_revision sn \<equiv> v_revision (sn_version sn)"

text \<open>A \<open>HashMap\<close> from session to snapshot is the list of its snapshots in the order of iteration.\<close>

definition sn_get :: "session_id \<Rightarrow> ('m, 'u, 't, 'x) pending_snapshot list \<Rightarrow> ('m, 'u, 't, 'x) pending_snapshot option" where
  "sn_get i sns = List.find (\<lambda>sn. sn_id sn = i) sns"

definition sn_put :: "('m, 'u, 't, 'x) pending_snapshot \<Rightarrow> ('m, 'u, 't, 'x) pending_snapshot list \<Rightarrow> ('m, 'u, 't, 'x) pending_snapshot list" where
  "sn_put sn sns = filter (\<lambda>x. sn_id x \<noteq> sn_id sn) sns @ [sn]"

definition sn_drop :: "session_id \<Rightarrow> ('m, 'u, 't, 'x) pending_snapshot list \<Rightarrow> ('m, 'u, 't, 'x) pending_snapshot list" where
  "sn_drop i sns = filter (\<lambda>x. sn_id x \<noteq> i) sns"

section \<open>The state of the writer\<close>

record failed_snapshot =
  fl_version :: snapshot_version
  fl_error :: "session_error option"
  fl_structural_limit :: "usize option"
  fl_concurrent_modification :: bool

fun structural_failure_limit :: "session_error \<Rightarrow> usize option" where
  "structural_failure_limit (RecordTooLarge limit) = Some limit"
| "structural_failure_limit _ = None"

record retry_state =
  rs_attempts :: "session_id \<times> nat \<Rightarrow> nat option"
  rs_exhausted :: "(session_id \<times> snapshot_version) list"

type_synonym durable_ledger = "session_id \<Rightarrow> (str set \<times> str set) option"

record ('m, 'u, 't, 'x) writer_state =
  w_pending :: "('m, 'u, 't, 'x) pending_snapshot list"
  w_latest_generations :: "session_id \<Rightarrow> nat option"
  w_latest_snapshots :: "('m, 'u, 't, 'x) pending_snapshot list"
  w_delete_generations :: "session_id \<Rightarrow> nat option"
  w_logs :: "session_id \<Rightarrow> session_log option"
  w_durable_versions :: "session_id \<Rightarrow> snapshot_version option"
  w_durable_records :: durable_ledger
  w_retries :: retry_state

definition new_writer_state :: "('m, 'u, 't, 'x) writer_state" where
  "new_writer_state = \<lparr>w_pending = [], w_latest_generations = Map.empty, w_latest_snapshots = [], w_delete_generations = Map.empty,
     w_logs = Map.empty, w_durable_versions = Map.empty, w_durable_records = Map.empty,
     w_retries = \<lparr>rs_attempts = Map.empty, rs_exhausted = []\<rparr>\<rparr>"

text \<open>
  What the writer needs of its surroundings: the codecs and limits of the session log, and what the operating
  system does to the two accesses of one write, to the directory of the sessions and to a deletion.
\<close>

record ('m, 'u, 't, 'x) disk_env =
  de_codec :: "('m, 'u, 't, 'x) codec"
  de_parts :: "('m, 't) part_codec"
  de_limits :: decode_limits
  de_open_io :: "session_id \<Rightarrow> log_io"
  de_write_io :: "session_id \<Rightarrow> log_io"
  de_subdir_ok :: bool
  de_delete_ok :: bool
  de_cleanup_ok :: bool

type_synonym session_disk = "session_id \<Rightarrow> log_file option"

section \<open>Staging\<close>

definition queue_pending_snapshot :: "('m, 'u, 't, 'x) pending_snapshot \<Rightarrow> ('m, 'u, 't, 'x) writer_state \<Rightarrow> ('m, 'u, 't, 'x) writer_state" where
  "queue_pending_snapshot sn w =
     (let replace = (case sn_get (sn_id sn) (w_pending w) of
                       None \<Rightarrow> True
                     | Some current \<Rightarrow> sn_revision current < sn_revision sn
                         \<or> sn_revision current = sn_revision sn \<and> sn_generation current < sn_generation sn)
      in if replace then w\<lparr>w_pending := sn_put sn (w_pending w)\<rparr> else w)"

definition at_least :: "nat option \<Rightarrow> nat \<Rightarrow> bool" where
  "at_least b generation \<longleftrightarrow> (case b of None \<Rightarrow> False | Some l \<Rightarrow> generation \<le> l)"

definition stage_snapshot ::
  "('m, 'u, 't, 'x) pending_snapshot \<Rightarrow> ('m, 'u, 't, 'x) writer_state \<Rightarrow> ('m, 'u, 't, 'x) writer_state \<times> snapshot_version option" where
  "stage_snapshot sn w =
     (let w' = (if at_least (w_latest_generations w (sn_id sn)) (sn_generation sn) \<or> at_least (w_delete_generations w (sn_id sn)) (sn_generation sn)
                then w
                else queue_pending_snapshot sn
                  (w\<lparr>w_latest_generations := (w_latest_generations w)(sn_id sn \<mapsto> sn_generation sn),
                     w_latest_snapshots := sn_put sn (w_latest_snapshots w)\<rparr>))
      in (w', map_option sn_version (sn_get (sn_id sn) (w_pending w'))))"

section \<open>Writing\<close>

definition append_or_compact_result ::
  "('m, 'u, 't, 'x) disk_env \<Rightarrow> ('m, 'u, 't, 'x) session \<Rightarrow> session_log \<Rightarrow> log_file option \<Rightarrow> log_outcome" where
  "append_or_compact_result env s log disk =
     (case append_with_limits (de_codec env) (de_limits env) (de_write_io env (se_id s)) s log disk of
        (Inl (CursorAhead m n), log', disk') \<Rightarrow>
          compact_with_limits (de_codec env) (de_limits env) (de_write_io env (se_id s)) s log' disk'
      | outcome \<Rightarrow> outcome)"

definition open_or_create_log ::
  "('m, 'u, 't, 'x) disk_env \<Rightarrow> ('m, 'u, 't, 'x) session \<Rightarrow> log_file option \<Rightarrow> (session_error + (session_log \<times> u64)) \<times> log_file option" where
  "open_or_create_log env s disk =
     (if disk \<noteq> None then
        (case open_cursor (de_codec env) (de_parts env) (de_limits env) (de_open_io env (se_id s)) (se_id s) disk of
           (r, disk') \<Rightarrow> (bindR r (\<lambda>(revision, log). Inr (log, revision)), disk'))
      else
        (case create_with_limits (de_codec env) (de_limits env) (de_open_io env (se_id s)) s disk of
           (r, disk') \<Rightarrow> (bindR r (\<lambda>log. Inr (log, sm_revision (se_meta s))), disk')))"

text \<open>What a write works on: the open logs, the versions on disk and the files.\<close>

record write_state =
  ws_logs :: "session_id \<Rightarrow> session_log option"
  ws_durable :: "session_id \<Rightarrow> snapshot_version option"
  ws_disk :: session_disk

definition put_log :: "session_id \<Rightarrow> session_log \<Rightarrow> log_file option \<Rightarrow> write_state \<Rightarrow> write_state" where
  "put_log i log file st = st\<lparr>ws_logs := (ws_logs st)(i \<mapsto> log), ws_disk := (ws_disk st)(i := file)\<rparr>"

definition put_durable :: "session_id \<Rightarrow> snapshot_version \<Rightarrow> write_state \<Rightarrow> write_state" where
  "put_durable i version st = st\<lparr>ws_durable := (ws_durable st)(i \<mapsto> version)\<rparr>"

definition write_session ::
  "('m, 'u, 't, 'x) disk_env \<Rightarrow> snapshot_version \<Rightarrow> ('m, 'u, 't, 'x) session \<Rightarrow> write_state \<Rightarrow> (session_error + bool) \<times> write_state" where
  "write_session env version s st =
     (let i = se_id s; durable = map_option v_revision (ws_durable st i);
          compact = compact_with_limits (de_codec env) (de_limits env) (de_write_io env i) s
      in if (case durable of None \<Rightarrow> False | Some r \<Rightarrow> v_revision version < r) then (Inr False, st)
         else (case ws_logs st i of
                 Some log \<Rightarrow>
                   (case (if durable = Some (v_revision version) then compact log (ws_disk st i)
                          else append_or_compact_result env s log (ws_disk st i)) of
                      (Inl e, log', file) \<Rightarrow> (Inl e, put_log i log' file st)
                    | (Inr _, log', file) \<Rightarrow> (Inr True, put_durable i version (put_log i log' file st)))
               | None \<Rightarrow>
                   (case open_or_create_log env s (ws_disk st i) of
                      (Inl e, file) \<Rightarrow> (Inl e, st\<lparr>ws_disk := (ws_disk st)(i := file)\<rparr>)
                    | (Inr (log, on_disk_revision), file) \<Rightarrow>
                        if v_revision version < on_disk_revision
                        then (Inr False, put_durable i \<lparr>v_generation = 0, v_revision = on_disk_revision\<rparr> (st\<lparr>ws_disk := (ws_disk st)(i := file)\<rparr>))
                        else (case (if on_disk_revision = v_revision version then compact log file
                                    else append_or_compact_result env s log file) of
                                (Inl e, log', file') \<Rightarrow> (Inl e, st\<lparr>ws_disk := (ws_disk st)(i := file')\<rparr>)
                              | (Inr _, log', file') \<Rightarrow> (Inr True, put_durable i version (put_log i log' file' st))))))"

definition record_durable :: "('m, 'u, 't, 'x) session \<Rightarrow> durable_ledger \<Rightarrow> durable_ledger" where
  "record_durable s ledger = ledger(se_id s \<mapsto> (fst ` set (se_tool_outputs s), fst ` set (se_subagent_messages s)))"

record ('m, 'u, 't, 'x) flush_state =
  f_write :: write_state
  f_records :: durable_ledger
  f_pending :: "('m, 'u, 't, 'x) pending_snapshot list"
  f_failed :: "(session_id \<times> failed_snapshot) list"
  f_persisted :: "(session_id \<times> snapshot_version) list"

definition is_target :: "(session_id \<times> snapshot_version) option \<Rightarrow> ('m, 'u, 't, 'x) pending_snapshot \<Rightarrow> bool" where
  "is_target target sn \<longleftrightarrow> target = Some (sn_id sn, sn_version sn)"

definition flush_failed ::
  "failed_snapshot \<Rightarrow> ('m, 'u, 't, 'x) pending_snapshot \<Rightarrow> ('m, 'u, 't, 'x) flush_state \<Rightarrow> ('m, 'u, 't, 'x) flush_state" where
  "flush_failed failure sn f =
     f\<lparr>f_failed := AList.update (sn_id sn) failure (f_failed f), f_pending := sn_put sn (f_pending f)\<rparr>"

definition flush_one ::
  "('m, 'u, 't, 'x) disk_env \<Rightarrow> (session_id \<times> snapshot_version) option \<Rightarrow> ('m, 'u, 't, 'x) pending_snapshot
   \<Rightarrow> ('m, 'u, 't, 'x) flush_state \<Rightarrow> ('m, 'u, 't, 'x) flush_state" where
  "flush_one env target sn f =
     (case write_session env (sn_version sn) (sn_session sn) (f_write f) of
        (Inr written, st) \<Rightarrow>
          f\<lparr>f_write := st, f_records := (if written then record_durable (sn_session sn) (f_records f) else f_records f),
            f_persisted := f_persisted f @ [(sn_id sn, sn_version sn)]\<rparr>
      | (Inl e, st) \<Rightarrow>
          flush_failed \<lparr>fl_version = sn_version sn, fl_error = (if is_target target sn then Some e else None),
             fl_structural_limit = structural_failure_limit e, fl_concurrent_modification = (e = ConcurrentModification)\<rparr>
            sn (f\<lparr>f_write := st\<rparr>))"

definition flush_refused ::
  "(session_id \<times> snapshot_version) option \<Rightarrow> ('m, 'u, 't, 'x) pending_snapshot \<Rightarrow> ('m, 'u, 't, 'x) flush_state \<Rightarrow> ('m, 'u, 't, 'x) flush_state" where
  "flush_refused target sn =
     flush_failed \<lparr>fl_version = sn_version sn, fl_error = (if is_target target sn then Some StorageFailed else None),
       fl_structural_limit = None, fl_concurrent_modification = False\<rparr> sn"

definition flush_batch ::
  "('m, 'u, 't, 'x) disk_env \<Rightarrow> (session_id \<times> snapshot_version) option \<Rightarrow> ('m, 'u, 't, 'x) writer_state \<Rightarrow> session_disk
   \<Rightarrow> ('m, 'u, 't, 'x) flush_state" where
  "flush_batch env target w disk =
     fold (if de_subdir_ok env then flush_one env target else flush_refused target) (w_pending w)
       \<lparr>f_write = \<lparr>ws_logs = w_logs w, ws_durable = w_durable_versions w, ws_disk = disk\<rparr>, f_records = w_durable_records w,
        f_pending = [], f_failed = [], f_persisted = []\<rparr>"

section \<open>Retries\<close>

definition record_success :: "session_id \<times> snapshot_version \<Rightarrow> retry_state \<Rightarrow> retry_state" where
  "record_success p r =
     (case map_of (rs_exhausted r) (fst p) of
        None \<Rightarrow> r
      | Some exhausted \<Rightarrow>
          if v_generation exhausted \<noteq> v_generation (snd p) \<and> v_revision exhausted \<le> v_revision (snd p)
          then r\<lparr>rs_exhausted := AList.delete (fst p) (rs_exhausted r)\<rparr> else r)"

definition record_failure ::
  "session_id \<times> failed_snapshot \<Rightarrow> retry_state \<times> ('m, 'u, 't, 'x) pending_snapshot list \<Rightarrow> retry_state \<times> ('m, 'u, 't, 'x) pending_snapshot list" where
  "record_failure p rp =
     (case p of (i, failure) \<Rightarrow>
       let r = fst rp; pending = snd rp; key = (i, v_generation (fl_version failure));
           attempts = (case rs_attempts r key of None \<Rightarrow> 0 | Some n \<Rightarrow> n) + 1;
           r' = r\<lparr>rs_attempts := (rs_attempts r)(key \<mapsto> attempts)\<rparr>;
           exhausted_now = (fl_structural_limit failure \<noteq> None \<or> fl_concurrent_modification failure \<or> MAX_RETRY_ATTEMPTS \<le> attempts)
       in if exhausted_now \<and> map_option sn_version (sn_get i pending) = Some (fl_version failure)
          then (r'\<lparr>rs_exhausted := AList.update i (fl_version failure) (rs_exhausted r')\<rparr>, sn_drop i pending)
          else (r', pending))"

definition retain_attempts :: "('m, 'u, 't, 'x) pending_snapshot list \<Rightarrow> retry_state \<Rightarrow> retry_state" where
  "retain_attempts pending r =
     r\<lparr>rs_attempts := (\<lambda>(i, generation). if map_option sn_generation (sn_get i pending) = Some generation then rs_attempts r (i, generation) else None)\<rparr>"

definition record_failures ::
  "(session_id \<times> failed_snapshot) list \<Rightarrow> retry_state \<times> ('m, 'u, 't, 'x) pending_snapshot list \<Rightarrow> retry_state \<times> ('m, 'u, 't, 'x) pending_snapshot list" where
  "record_failures failed rp =
     (case fold record_failure failed rp of (r, pending) \<Rightarrow> (retain_attempts pending r, pending))"

definition clear_retries :: "session_id \<Rightarrow> retry_state \<Rightarrow> retry_state" where
  "clear_retries i r =
     r\<lparr>rs_attempts := (\<lambda>(j, generation). if j = i then None else rs_attempts r (j, generation)), rs_exhausted := AList.delete i (rs_exhausted r)\<rparr>"

definition unpersisted_count :: "(session_id \<times> failed_snapshot) list \<Rightarrow> retry_state \<Rightarrow> nat" where
  "unpersisted_count failed r =
     length failed + length (filter (\<lambda>(i, version). map_of failed i = None) (rs_exhausted r))"

section \<open>Commands of the writer\<close>

definition drop_durable_latest ::
  "(session_id \<Rightarrow> snapshot_version option) \<Rightarrow> session_id \<times> snapshot_version \<Rightarrow> ('m, 'u, 't, 'x) pending_snapshot list \<Rightarrow> ('m, 'u, 't, 'x) pending_snapshot list" where
  "drop_durable_latest durable p latest =
     (if durable (fst p) = Some (snd p) \<and> map_option sn_version (sn_get (fst p) latest) = Some (snd p) then sn_drop (fst p) latest else latest)"

definition flush_target ::
  "('m, 'u, 't, 'x) disk_env \<Rightarrow> (session_id \<times> snapshot_version) option \<Rightarrow> ('m, 'u, 't, 'x) writer_state \<Rightarrow> session_disk
   \<Rightarrow> (session_id \<times> failed_snapshot) list \<times> ('m, 'u, 't, 'x) writer_state \<times> session_disk" where
  "flush_target env target w disk =
     (let f = flush_batch env target w disk;
          durable = ws_durable (f_write f);
          latest = fold (drop_durable_latest durable) (f_persisted f) (w_latest_snapshots w);
          retries = fold record_success (f_persisted f) (w_retries w);
          (retries', pending) = record_failures (f_failed f) (retries, f_pending f)
      in (f_failed f,
          w\<lparr>w_pending := pending, w_latest_snapshots := latest, w_logs := ws_logs (f_write f), w_durable_versions := durable,
            w_durable_records := f_records f, w_retries := retries'\<rparr>, ws_disk (f_write f)))"

definition persist_snapshot ::
  "('m, 'u, 't, 'x) disk_env \<Rightarrow> nat \<Rightarrow> ('m, 'u, 't, 'x) session \<Rightarrow> ('m, 'u, 't, 'x) writer_state \<Rightarrow> session_disk
   \<Rightarrow> (session_error + unit) \<times> ('m, 'u, 't, 'x) writer_state \<times> session_disk" where
  "persist_snapshot env generation s w disk =
     (case stage_snapshot (new_pending_snapshot generation s) w of
        (w1, target) \<Rightarrow>
          (case flush_target env (map_option (\<lambda>version. (se_id s, version)) target) w1 disk of
             (failed, w2, disk') \<Rightarrow>
               (let failure = (case (target, map_of failed (se_id s)) of
                                 (Some version, Some failure) \<Rightarrow> if fl_version failure = version then Some failure else None
                               | _ \<Rightarrow> None)
                in case failure of
                     Some failure \<Rightarrow> (Inl (case fl_error failure of Some e \<Rightarrow> e | None \<Rightarrow> StorageFailed), w2, disk')
                   | None \<Rightarrow> (if map_of (rs_exhausted (w_retries w2)) (se_id s) \<noteq> None then Inl StorageFailed else Inr (), w2, disk'))))"

text \<open>
  \<open>AppSession::delete\<close> under the locks of the session: the file goes, if it can be removed; what else belongs
  to the session can fail to go, and a session without a file is not found.
\<close>

definition delete_file :: "('m, 'u, 't, 'x) disk_env \<Rightarrow> log_file option \<Rightarrow> (session_error + unit) \<times> log_file option" where
  "delete_file env file =
     (if \<not> de_subdir_ok env then (Inl StorageFailed, file)
      else if file \<noteq> None \<and> \<not> de_delete_ok env then (Inl StorageFailed, file)
      else if \<not> de_cleanup_ok env then (Inl StorageFailed, None)
      else if file = None then (Inl NotFound, None) else (Inr (), None))"

definition delete_generation :: "session_id \<Rightarrow> nat \<Rightarrow> ('m, 'u, 't, 'x) writer_state \<Rightarrow> nat" where
  "delete_generation i generation w = (case w_delete_generations w i of None \<Rightarrow> generation | Some current \<Rightarrow> max current generation)"

text \<open>The start of \<open>delete\<close>: the barriers rise, and snapshots up to the deletion are dropped.\<close>

definition mark_deleted :: "session_id \<Rightarrow> nat \<Rightarrow> ('m, 'u, 't, 'x) writer_state \<Rightarrow> ('m, 'u, 't, 'x) writer_state" where
  "mark_deleted i generation w =
     (let newer = (\<lambda>sn. sn_id sn \<noteq> i \<or> delete_generation i generation w < sn_generation sn)
      in w\<lparr>w_delete_generations := (w_delete_generations w)(i \<mapsto> delete_generation i generation w),
           w_latest_generations := (if at_least (w_latest_generations w i) generation then w_latest_generations w
                                    else (w_latest_generations w)(i \<mapsto> generation)),
           w_pending := filter newer (w_pending w), w_latest_snapshots := filter newer (w_latest_snapshots w)\<rparr>)"

text \<open>What the writer forgets of a session whose file was to be deleted: \<open>file\<close> is what is left of it.\<close>

definition forget_session :: "session_id \<Rightarrow> log_file option \<Rightarrow> ('m, 'u, 't, 'x) writer_state \<Rightarrow> ('m, 'u, 't, 'x) writer_state" where
  "forget_session i file w =
     (let w' = w\<lparr>w_logs := (w_logs w)(i := None), w_durable_records := (w_durable_records w)(i := None)\<rparr>
      in if file = None then w'\<lparr>w_durable_versions := (w_durable_versions w')(i := None), w_retries := clear_retries i (w_retries w')\<rparr> else w')"

definition delete_session ::
  "('m, 'u, 't, 'x) disk_env \<Rightarrow> session_id \<Rightarrow> nat \<Rightarrow> ('m, 'u, 't, 'x) writer_state \<Rightarrow> session_disk
   \<Rightarrow> (session_error + unit) \<times> ('m, 'u, 't, 'x) writer_state \<times> session_disk" where
  "delete_session env i generation w disk =
     (let w1 = mark_deleted i generation w
      in if (case w_durable_versions w1 i of None \<Rightarrow> False | Some version \<Rightarrow> delete_generation i generation w < v_generation version)
         then (Inr (), w1, disk)
         else let crossing = sn_get i (w_latest_snapshots w1);
                  w2 = (case crossing of None \<Rightarrow> w1 | Some sn \<Rightarrow> queue_pending_snapshot sn w1);
                  (result, file) = delete_file env (disk i);
                  disk' = disk(i := file);
                  w3 = forget_session i file w2
              in if result \<noteq> Inr () \<and> result \<noteq> Inl NotFound then (result, w3, disk')
                 else (case crossing of
                         None \<Rightarrow> (Inr (), w3, disk')
                       | Some sn \<Rightarrow>
                           (case flush_target env (Some (i, sn_version sn)) w3 disk' of
                              (failed, w4, disk'') \<Rightarrow>
                                (case map_of failed i of
                                   None \<Rightarrow> (Inr (), w4, disk'')
                                 | Some failure \<Rightarrow> (Inl (case fl_error failure of Some e \<Rightarrow> e | None \<Rightarrow> StorageFailed), w4, disk'')))))"

section \<open>The system\<close>

datatype ('m, 'u, 't, 'x) writer_op = Wake | Persist nat "('m, 'u, 't, 'x) session" | Delete session_id nat | Latest session_id

text \<open>
  A caller is what it still has to do: to put a snapshot into the inbox, to complete a command that the inbox
  dropped, or to send an operation.
\<close>

datatype ('m, 'u, 't, 'x) caller_action = Enqueue "('m, 'u, 't, 'x) pending_snapshot" | Complete session_id nat | SendOp "('m, 'u, 't, 'x) writer_op"

text \<open>What the writer still has to do for the operation it took.\<close>

datatype ('m, 'u, 't, 'x) writer_action = TakeInbox | Stage "('m, 'u, 't, 'x) pending_snapshot" | CompleteCommand session_id nat
  | CollectBarriers session_id | FlushNow | FlushIfIdle | PersistNow nat "('m, 'u, 't, 'x) session" | DeleteNow session_id nat
  | ReplyLatest session_id | Reply session_id nat "session_error + unit" | Finish

record ('m, 'u, 't, 'x) writer_system =
  y_next_generation :: nat
  y_outstanding :: "session_id \<Rightarrow> nat set"
  y_inbox :: "('m, 'u, 't, 'x) pending_snapshot list"
  y_wake_queued :: bool
  y_ops :: "('m, 'u, 't, 'x) writer_op list"
  y_callers :: "('m, 'u, 't, 'x) caller_action list list"
  y_open :: bool
  y_agenda :: "('m, 'u, 't, 'x) writer_action list"
  y_writer :: "('m, 'u, 't, 'x) writer_state"
  y_disk :: session_disk
  y_replies :: "(session_id \<times> nat \<times> (session_error + unit)) list"
  y_latest :: "(session_id \<times> ('m, 'u, 't, 'x) session option) list"
  y_done :: "nat option"

definition reserve :: "session_id \<Rightarrow> ('m, 'u, 't, 'x) writer_system \<Rightarrow> nat \<times> ('m, 'u, 't, 'x) writer_system" where
  "reserve i y =
     (let g = y_next_generation y + 1
      in (g, y\<lparr>y_next_generation := g, y_outstanding := (y_outstanding y)(i := insert g (y_outstanding y i))\<rparr>))"

definition complete_command :: "session_id \<Rightarrow> nat \<Rightarrow> ('m, 'u, 't, 'x) writer_system \<Rightarrow> ('m, 'u, 't, 'x) writer_system" where
  "complete_command i g y = y\<lparr>y_outstanding := (y_outstanding y)(i := y_outstanding y i - {g})\<rparr>"

definition has_outstanding_through :: "session_id \<Rightarrow> nat \<Rightarrow> ('m, 'u, 't, 'x) writer_system \<Rightarrow> bool" where
  "has_outstanding_through i g y \<longleftrightarrow> (\<exists>h \<in> y_outstanding y i. h \<le> g)"

definition new_caller :: "('m, 'u, 't, 'x) caller_action \<Rightarrow> ('m, 'u, 't, 'x) writer_system \<Rightarrow> ('m, 'u, 't, 'x) writer_system" where
  "new_caller c y = y\<lparr>y_callers := y_callers y @ [[c]]\<rparr>"

definition send_snapshot :: "('m, 'u, 't, 'x) session \<Rightarrow> ('m, 'u, 't, 'x) writer_system \<Rightarrow> ('m, 'u, 't, 'x) writer_system" where
  "send_snapshot s y = (case reserve (se_id s) y of (g, y') \<Rightarrow> new_caller (Enqueue (new_pending_snapshot g s)) y')"

definition send_persist :: "('m, 'u, 't, 'x) session \<Rightarrow> ('m, 'u, 't, 'x) writer_system \<Rightarrow> ('m, 'u, 't, 'x) writer_system" where
  "send_persist s y = (case reserve (se_id s) y of (g, y') \<Rightarrow> new_caller (SendOp (Persist g s)) y')"

definition send_delete :: "session_id \<Rightarrow> ('m, 'u, 't, 'x) writer_system \<Rightarrow> ('m, 'u, 't, 'x) writer_system" where
  "send_delete i y = (case reserve i y of (g, y') \<Rightarrow> new_caller (SendOp (Delete i g)) y')"

text \<open>The step of a caller, with what is left for it.\<close>

fun caller_step :: "('m, 'u, 't, 'x) caller_action \<Rightarrow> ('m, 'u, 't, 'x) writer_system \<Rightarrow> ('m, 'u, 't, 'x) caller_action list \<times> ('m, 'u, 't, 'x) writer_system" where
  "caller_step (Enqueue sn) y =
     (case sn_get (sn_id sn) (y_inbox y) of
        None \<Rightarrow> ((if y_wake_queued y then [] else [SendOp Wake]), y\<lparr>y_inbox := sn_put sn (y_inbox y), y_wake_queued := True\<rparr>)
      | Some current \<Rightarrow>
          if sn_generation current < sn_generation sn
          then (Complete (sn_id sn) (sn_generation current) # (if y_wake_queued y then [] else [SendOp Wake]),
                y\<lparr>y_inbox := sn_put sn (y_inbox y), y_wake_queued := True\<rparr>)
          else ([Complete (sn_id sn) (sn_generation sn)], y))"
| "caller_step (Complete i g) y = ([], complete_command i g y)"
| "caller_step (SendOp op) y = ([], y\<lparr>y_ops := y_ops y @ [op]\<rparr>)"

fun agenda_for :: "('m, 'u, 't, 'x) writer_op \<Rightarrow> ('m, 'u, 't, 'x) writer_action list" where
  "agenda_for Wake = [TakeInbox, FlushIfIdle]"
| "agenda_for (Persist g s) = [TakeInbox, PersistNow g s]"
| "agenda_for (Delete i g) = [TakeInbox, DeleteNow i g]"
| "agenda_for (Latest i) = [TakeInbox, ReplyLatest i]"

definition collect_barriers :: "session_id \<Rightarrow> ('m, 'u, 't, 'x) writer_system \<Rightarrow> ('m, 'u, 't, 'x) writer_state \<Rightarrow> ('m, 'u, 't, 'x) writer_state" where
  "collect_barriers i y w =
     (let keep = (\<lambda>b. case b of None \<Rightarrow> None | Some g \<Rightarrow> if has_outstanding_through i g y then Some g else None)
      in w\<lparr>w_latest_generations := (w_latest_generations w)(i := keep (w_latest_generations w i)),
           w_delete_generations := (w_delete_generations w)(i := keep (w_delete_generations w i))\<rparr>)"

text \<open>The step of the writer, with what it has to do before the rest of its agenda.\<close>

fun writer_step :: "('m, 'u, 't, 'x) disk_env \<Rightarrow> ('m, 'u, 't, 'x) writer_action \<Rightarrow> ('m, 'u, 't, 'x) writer_system \<Rightarrow> ('m, 'u, 't, 'x) writer_action list \<times> ('m, 'u, 't, 'x) writer_system" where
  "writer_step env TakeInbox y = (map Stage (y_inbox y), y\<lparr>y_inbox := [], y_wake_queued := False\<rparr>)"
| "writer_step env (Stage sn) y =
     ([CompleteCommand (sn_id sn) (sn_generation sn), CollectBarriers (sn_id sn)], y\<lparr>y_writer := fst (stage_snapshot sn (y_writer y))\<rparr>)"
| "writer_step env (CompleteCommand i g) y = ([], complete_command i g y)"
| "writer_step env (CollectBarriers i) y = ([], y\<lparr>y_writer := collect_barriers i y (y_writer y)\<rparr>)"
| "writer_step env FlushNow y =
     (case flush_target env None (y_writer y) (y_disk y) of (failed, w, disk) \<Rightarrow> ([], y\<lparr>y_writer := w, y_disk := disk\<rparr>))"
| "writer_step env FlushIfIdle y = ((if y_ops y = [] then [FlushNow] else []), y)"
| "writer_step env (PersistNow g s) y =
     (case persist_snapshot env g s (y_writer y) (y_disk y) of
        (r, w, disk) \<Rightarrow> ([CompleteCommand (se_id s) g, CollectBarriers (se_id s), Reply (se_id s) g r], y\<lparr>y_writer := w, y_disk := disk\<rparr>))"
| "writer_step env (DeleteNow i g) y =
     (case delete_session env i g (y_writer y) (y_disk y) of
        (r, w, disk) \<Rightarrow> ([CompleteCommand i g, CollectBarriers i, Reply i g r], y\<lparr>y_writer := w, y_disk := disk\<rparr>))"
| "writer_step env (ReplyLatest i) y =
     ([], y\<lparr>y_latest := y_latest y @ [(i, map_option sn_session (sn_get i (w_latest_snapshots (y_writer y))))]\<rparr>)"
| "writer_step env (Reply i g r) y = ([], y\<lparr>y_replies := y_replies y @ [(i, g, r)]\<rparr>)"
| "writer_step env Finish y =
     (case flush_target env None (y_writer y) (y_disk y) of
        (failed, w, disk) \<Rightarrow> ([], y\<lparr>y_writer := w, y_disk := disk, y_done := Some (unpersisted_count failed (w_retries w))\<rparr>))"

inductive system_step :: "('m, 'u, 't, 'x) writer_system \<Rightarrow> ('m, 'u, 't, 'x) writer_system \<Rightarrow> bool" where
  Send: "y_open y \<Longrightarrow> system_step y (send_snapshot s y)"
| Send_persist: "y_open y \<Longrightarrow> system_step y (send_persist s y)"
| Send_delete: "y_open y \<Longrightarrow> system_step y (send_delete i y)"
| Ask_latest: "y_open y \<Longrightarrow> system_step y (new_caller (SendOp (Latest i)) y)"
| Caller: "y_callers y = before @ (c # cs) # after \<Longrightarrow> caller_step c y = (todo, y')
    \<Longrightarrow> system_step y (y'\<lparr>y_callers := before @ (todo @ cs) # after\<rparr>)"
| Close: "y_open y \<Longrightarrow> (\<forall>c \<in> set (y_callers y). c = []) \<Longrightarrow> system_step y (y\<lparr>y_open := False\<rparr>)"
| Take: "y_agenda y = [] \<Longrightarrow> y_done y = None \<Longrightarrow> y_ops y = op # ops \<Longrightarrow> system_step y (y\<lparr>y_ops := ops, y_agenda := agenda_for op\<rparr>)"
| Retry: "y_open y \<Longrightarrow> y_agenda y = [] \<Longrightarrow> y_done y = None \<Longrightarrow> y_ops y = [] \<Longrightarrow> w_pending (y_writer y) \<noteq> [] \<Longrightarrow> system_step y (y\<lparr>y_agenda := [FlushNow]\<rparr>)"
| End: "y_agenda y = [] \<Longrightarrow> y_done y = None \<Longrightarrow> y_ops y = [] \<Longrightarrow> \<not> y_open y \<Longrightarrow> system_step y (y\<lparr>y_agenda := [TakeInbox, Finish]\<rparr>)"
| Writer: "y_agenda y = a # agenda \<Longrightarrow> writer_step env a y = (todo, y') \<Longrightarrow> system_step y (y'\<lparr>y_agenda := todo @ agenda\<rparr>)"

definition fresh_system :: "('m, 'u, 't, 'x) writer_system \<Rightarrow> bool" where
  "fresh_system y \<longleftrightarrow> y_next_generation y = 0 \<and> y_outstanding y = (\<lambda>_. {}) \<and> y_inbox y = [] \<and> \<not> y_wake_queued y \<and> y_ops y = []
     \<and> y_callers y = [] \<and> y_open y \<and> y_agenda y = [] \<and> y_writer y = new_writer_state \<and> y_replies y = [] \<and> y_latest y = [] \<and> y_done y = None"

section \<open>What callers see\<close>

text \<open>The ledger of durable records is shared: the caller enters what it loaded, and asks it before it evicts.\<close>

definition register_loaded :: "('m, 'u, 't, 'x) session \<Rightarrow> durable_ledger \<Rightarrow> durable_ledger" where
  "register_loaded s ledger = (if se_loaded_from_disk s then record_durable s ledger else ledger)"

definition retain_durable :: "session_id \<Rightarrow> durable_ledger \<Rightarrow> retention_eviction \<Rightarrow> retention_eviction" where
  "retain_durable i ledger eviction =
     (case ledger i of
        None \<Rightarrow> eviction\<lparr>re_tool_outputs := [], re_subagent_messages := []\<rparr>
      | Some (outputs, histories) \<Rightarrow>
          eviction\<lparr>re_tool_outputs := filter (\<lambda>i. i \<in> outputs) (re_tool_outputs eviction),
            re_subagent_messages := filter (\<lambda>i. i \<in> histories) (re_subagent_messages eviction)\<rparr>)"

text \<open>What a caller that waits with a timeout gets from the channel.\<close>

datatype 'a received = Got 'a | TimedOut | Disconnected

datatype shutdown_error = UnpersistedSnapshots nat | ShutdownTimeout | ShutdownDisconnected

fun wait_for_shutdown :: "nat received \<Rightarrow> nat received \<Rightarrow> shutdown_error + unit" where
  "wait_for_shutdown (Got count) _ = (if count = 0 then Inr () else Inl (UnpersistedSnapshots count))"
| "wait_for_shutdown TimedOut (Got count) = (if count = 0 then Inr () else Inl (UnpersistedSnapshots count))"
| "wait_for_shutdown TimedOut TimedOut = Inl ShutdownTimeout"
| "wait_for_shutdown TimedOut Disconnected = Inl ShutdownDisconnected"
| "wait_for_shutdown Disconnected _ = Inl ShutdownDisconnected"

fun latest_snapshot_with_timeout :: "bool \<Rightarrow> 'a option received \<Rightarrow> 'a option received \<Rightarrow> session_error + 'a option" where
  "latest_snapshot_with_timeout False _ _ = Inl StorageFailed"
| "latest_snapshot_with_timeout True (Got s) _ = Inr s"
| "latest_snapshot_with_timeout True TimedOut (Got s) = Inr s"
| "latest_snapshot_with_timeout True _ _ = Inl StorageFailed"

end
