(* ===== verification/Writer_Flush.thy ===== *)
theory Writer_Flush
  imports Storage_Writer
begin

text \<open>
  What one flush does to one session (\<open>flush_target\<close> of \<open>storage_writer.rs\<close>): sessions with nothing pending are
  untouched, and a pending snapshot is on disk, kept for a retry, or given up.
\<close>

section \<open>Snapshots by session\<close>

definition sn_distinct :: "('m, 'u, 't, 'x) pending_snapshot list \<Rightarrow> bool" where
  "sn_distinct sns \<longleftrightarrow> distinct (map sn_id sns)"

lemma sn_get_Nil [simp]: "sn_get i [] = None"
  by (simp add: sn_get_def)

lemma sn_get_Cons [simp]: "sn_get i (sn # sns) = (if sn_id sn = i then Some sn else sn_get i sns)"
  by (simp add: sn_get_def)

lemma sn_get_append: "sn_get i (xs @ ys) = (case sn_get i xs of None \<Rightarrow> sn_get i ys | Some sn \<Rightarrow> Some sn)"
  by (induction xs) auto

lemma sn_get_drop [simp]: "sn_get j (sn_drop i sns) = (if j = i then None else sn_get j sns)"
  by (induction sns) (auto simp: sn_drop_def)

lemma sn_get_put [simp]: "sn_get j (sn_put sn sns) = (if j = sn_id sn then Some sn else sn_get j sns)"
proof -
  have "filter (\<lambda>x. sn_id x \<noteq> sn_id sn) sns = sn_drop (sn_id sn) sns" by (simp add: sn_drop_def)
  then show ?thesis unfolding sn_put_def by (simp add: sn_get_append split: option.split)
qed

lemma sn_get_id: "sn_get i sns = Some sn \<Longrightarrow> sn_id sn = i"
  by (induction sns) (auto split: if_splits)

lemma sn_get_mem: "sn_get i sns = Some sn \<Longrightarrow> sn \<in> set sns"
  by (induction sns) (auto split: if_splits)

lemma sn_get_None: "sn_get i sns = None \<longleftrightarrow> i \<notin> sn_id ` set sns"
  by (induction sns) auto

lemma sn_distinct_simps [simp]: "sn_distinct []" "sn_distinct (sn # sns) \<longleftrightarrow> sn_get (sn_id sn) sns = None \<and> sn_distinct sns"
  by (auto simp: sn_distinct_def sn_get_None)

lemma sn_distinct_filter: "sn_distinct sns \<Longrightarrow> sn_distinct (filter P sns)"
  by (simp add: sn_distinct_def distinct_map_filter)

lemma sn_distinct_drop: "sn_distinct sns \<Longrightarrow> sn_distinct (sn_drop i sns)"
  by (simp add: sn_drop_def sn_distinct_filter)

lemma sn_distinct_put: "sn_distinct sns \<Longrightarrow> sn_distinct (sn_put sn sns)"
  by (auto simp: sn_distinct_def sn_put_def distinct_map_filter)

lemma sn_get_filter:
  "sn_distinct sns \<Longrightarrow> sn_get j (filter P sns) = (case sn_get j sns of None \<Rightarrow> None | Some sn \<Rightarrow> if P sn then Some sn else None)"
proof (induction sns)
  case (Cons sn sns)
  then show ?case by (auto split: option.splits)
qed simp

section \<open>One write\<close>

lemma write_session_frame:
  assumes "write_session env version s st = (r, st')" and "j \<noteq> se_id s"
  shows "ws_logs st' j = ws_logs st j \<and> ws_durable st' j = ws_durable st j \<and> ws_disk st' j = ws_disk st j"
  using assms by (auto simp: write_session_def Let_def put_log_def put_durable_def split: if_splits option.splits prod.splits sum.splits)

lemma write_session_ok:
  assumes "write_session env version s st = (Inr written, st')"
  shows "\<exists>v. ws_durable st' (se_id s) = Some v \<and> v_revision version \<le> v_revision v
    \<and> (v = version \<or> v_generation v = 0 \<or> ws_durable st (se_id s) = Some v)"
  using assms
  by (auto simp: write_session_def Let_def put_log_def put_durable_def split: if_splits option.splits prod.splits sum.splits)

lemma write_session_error:
  assumes "write_session env version s st = (Inl e, st')"
  shows "ws_durable st' = ws_durable st"
  using assms
  by (auto simp: write_session_def Let_def put_log_def put_durable_def split: if_splits option.splits prod.splits sum.splits)

section \<open>A batch\<close>

definition persisted_for :: "session_id \<Rightarrow> (session_id \<times> snapshot_version) list \<Rightarrow> snapshot_version list" where
  "persisted_for i ps = map snd (filter (\<lambda>p. fst p = i) ps)"

text \<open>The outcome of a batch for a session, relative to the state before.\<close>

definition same_for :: "session_id \<Rightarrow> ('m, 'u, 't, 'x) flush_state \<Rightarrow> ('m, 'u, 't, 'x) flush_state \<Rightarrow> bool" where
  "same_for i f f' \<longleftrightarrow>
     ws_durable (f_write f') i = ws_durable (f_write f) i \<and> ws_disk (f_write f') i = ws_disk (f_write f) i
     \<and> ws_logs (f_write f') i = ws_logs (f_write f) i
     \<and> sn_get i (f_pending f') = sn_get i (f_pending f) \<and> map_of (f_failed f') i = map_of (f_failed f) i
     \<and> persisted_for i (f_persisted f') = persisted_for i (f_persisted f)"

definition persisted_now :: "('m, 'u, 't, 'x) pending_snapshot \<Rightarrow> ('m, 'u, 't, 'x) flush_state \<Rightarrow> ('m, 'u, 't, 'x) flush_state \<Rightarrow> bool" where
  "persisted_now p f f' \<longleftrightarrow>
     (\<exists>v. ws_durable (f_write f') (sn_id p) = Some v \<and> sn_revision p \<le> v_revision v
        \<and> (v = sn_version p \<or> v_generation v = 0 \<or> ws_durable (f_write f) (sn_id p) = Some v))
     \<and> sn_get (sn_id p) (f_pending f') = sn_get (sn_id p) (f_pending f) \<and> map_of (f_failed f') (sn_id p) = map_of (f_failed f) (sn_id p)
     \<and> persisted_for (sn_id p) (f_persisted f') = persisted_for (sn_id p) (f_persisted f) @ [sn_version p]"

definition failed_now :: "('m, 'u, 't, 'x) pending_snapshot \<Rightarrow> ('m, 'u, 't, 'x) flush_state \<Rightarrow> ('m, 'u, 't, 'x) flush_state \<Rightarrow> bool" where
  "failed_now p f f' \<longleftrightarrow>
     ws_durable (f_write f') (sn_id p) = ws_durable (f_write f) (sn_id p) \<and> sn_get (sn_id p) (f_pending f') = Some p
     \<and> (\<exists>failure. map_of (f_failed f') (sn_id p) = Some failure \<and> fl_version failure = sn_version p)
     \<and> persisted_for (sn_id p) (f_persisted f') = persisted_for (sn_id p) (f_persisted f)"

definition flush_any ::
  "('m, 'u, 't, 'x) disk_env \<Rightarrow> (session_id \<times> snapshot_version) option \<Rightarrow> ('m, 'u, 't, 'x) pending_snapshot
   \<Rightarrow> ('m, 'u, 't, 'x) flush_state \<Rightarrow> ('m, 'u, 't, 'x) flush_state" where
  "flush_any env target = (if de_subdir_ok env then flush_one env target else flush_refused target)"

lemma flush_step_cases:
  assumes "f' = flush_any env target p f"
  shows "(persisted_now p f f' \<or> failed_now p f f') \<and> (\<forall>j. j \<noteq> sn_id p \<longrightarrow> same_for j f f')
    \<and> (sn_distinct (f_pending f) \<longrightarrow> sn_distinct (f_pending f')) \<and> (distinct (map fst (f_failed f)) \<longrightarrow> distinct (map fst (f_failed f')))"
proof (cases "de_subdir_ok env")
  case True
  obtain r st where w: "write_session env (sn_version p) (sn_session p) (f_write f) = (r, st)" by fastforce
  have frame: "ws_logs st j = ws_logs (f_write f) j \<and> ws_durable st j = ws_durable (f_write f) j \<and> ws_disk st j = ws_disk (f_write f) j"
    if "j \<noteq> sn_id p" for j
    using write_session_frame [OF w] that by (simp add: sn_id_def)
  show ?thesis
  proof (cases r)
    case (Inl e)
    then have "ws_durable st = ws_durable (f_write f)" using w write_session_error by blast
    then show ?thesis
      using assms True w Inl frame
      by (auto simp: flush_any_def flush_one_def flush_failed_def failed_now_def same_for_def update_conv' sn_distinct_put distinct_update)
  next
    case (Inr written)
    then have "\<exists>v. ws_durable st (sn_id p) = Some v \<and> sn_revision p \<le> v_revision v
        \<and> (v = sn_version p \<or> v_generation v = 0 \<or> ws_durable (f_write f) (sn_id p) = Some v)"
      using w write_session_ok unfolding sn_id_def by blast
    then show ?thesis
      using assms True w Inr frame by (auto simp: flush_any_def flush_one_def persisted_now_def same_for_def persisted_for_def)
  qed
next
  case False
  then show ?thesis
    using assms
    by (auto simp: flush_any_def flush_refused_def flush_failed_def failed_now_def same_for_def update_conv' sn_distinct_put distinct_update)
qed

lemmas flush_own = flush_step_cases [OF refl, THEN conjunct1]
lemmas flush_others = flush_step_cases [OF refl, THEN conjunct2, THEN conjunct1, rule_format]
lemmas flush_distinct = flush_step_cases [OF refl, THEN conjunct2, THEN conjunct2]

lemma same_for_trans: "same_for i f g \<Longrightarrow> same_for i g h \<Longrightarrow> same_for i f h"
  by (simp add: same_for_def)

lemma same_for_refl [simp]: "same_for i f f"
  by (simp add: same_for_def)

lemma outcome_after_same:
  "persisted_now p f g \<Longrightarrow> same_for (sn_id p) g h \<Longrightarrow> persisted_now p f h"
  "failed_now p f g \<Longrightarrow> same_for (sn_id p) g h \<Longrightarrow> failed_now p f h"
  by (auto simp: persisted_now_def failed_now_def same_for_def)

lemma outcome_before_same:
  "same_for (sn_id p) f g \<Longrightarrow> persisted_now p g h \<Longrightarrow> persisted_now p f h"
  "same_for (sn_id p) f g \<Longrightarrow> failed_now p g h \<Longrightarrow> failed_now p f h"
  by (auto simp: persisted_now_def failed_now_def same_for_def)

lemma flush_fold:
  assumes "sn_distinct ps"
  shows "case sn_get i ps of None \<Rightarrow> same_for i f (fold (flush_any env target) ps f)
    | Some p \<Rightarrow> persisted_now p f (fold (flush_any env target) ps f) \<or> failed_now p f (fold (flush_any env target) ps f)"
  using assms
proof (induction ps arbitrary: f)
  case (Cons p ps)
  define g where "g = flush_any env target p f"
  define f' where "f' = fold (flush_any env target) ps g"
  have ih: "case sn_get i ps of None \<Rightarrow> same_for i g f' | Some p \<Rightarrow> persisted_now p g f' \<or> failed_now p g f'"
    unfolding f'_def by (rule Cons.IH) (use Cons.prems in simp)
  have "case sn_get i (p # ps) of None \<Rightarrow> same_for i f f' | Some p \<Rightarrow> persisted_now p f f' \<or> failed_now p f f'"
  proof (cases "sn_id p = i")
    case True
    then have "sn_get i ps = None" using Cons.prems by simp
    then have same: "same_for (sn_id p) g f'" using ih True by simp
    have "persisted_now p f g \<or> failed_now p f g" using flush_own [of p f env target] by (simp add: g_def)
    then show ?thesis using True outcome_after_same [OF _ same] by auto
  next
    case False
    then have same: "same_for i f g" using flush_others [of i p f env target] by (auto simp: g_def)
    show ?thesis
    proof (cases "sn_get i ps")
      case None
      then show ?thesis using ih False same_for_trans [OF same] by simp
    next
      case (Some q)
      then show ?thesis using ih False outcome_before_same [of q f g f'] sn_get_id [OF Some] same by auto
    qed
  qed
  moreover have "fold (flush_any env target) (p # ps) f = f'" by (simp add: f'_def g_def)
  ultimately show ?case by (simp only:)
qed simp

lemma flush_fold_distinct:
  "sn_distinct (f_pending f) \<Longrightarrow> distinct (map fst (f_failed f)) \<Longrightarrow>
     sn_distinct (f_pending (fold (flush_any env target) ps f)) \<and> distinct (map fst (f_failed (fold (flush_any env target) ps f)))"
  by (induction ps arbitrary: f) (simp_all add: flush_distinct)

section \<open>The bookkeeping after a batch\<close>

lemma drop_durable_latest_fold:
  "sn_get i (fold (drop_durable_latest durable) ps latest) =
     (if \<exists>v \<in> set (persisted_for i ps). durable i = Some v \<and> map_option sn_version (sn_get i latest) = Some v then None else sn_get i latest)"
proof (induction ps arbitrary: latest)
  case (Cons p ps)
  have "persisted_for i (p # ps) = (if fst p = i then snd p # persisted_for i ps else persisted_for i ps)"
    by (simp add: persisted_for_def)
  moreover have "sn_get i (drop_durable_latest durable p latest) =
      (if fst p = i \<and> durable i = Some (snd p) \<and> map_option sn_version (sn_get i latest) = Some (snd p) then None else sn_get i latest)"
    by (auto simp: drop_durable_latest_def)
  ultimately show ?case by (cases "sn_get i latest"; cases "fst p = i") (auto simp: Cons.IH)
qed (simp add: persisted_for_def)

lemma drop_durable_latest_distinct: "sn_distinct latest \<Longrightarrow> sn_distinct (fold (drop_durable_latest durable) ps latest)"
  by (induction ps arbitrary: latest) (simp_all add: drop_durable_latest_def sn_distinct_drop)

lemma record_success_fold:
  "map_of (rs_exhausted (fold record_success ps r)) i = map_of (rs_exhausted r) i
   \<or> map_of (rs_exhausted (fold record_success ps r)) i = None
     \<and> (\<exists>e. \<exists>v \<in> set (persisted_for i ps). map_of (rs_exhausted r) i = Some e \<and> v_revision e \<le> v_revision v)"
proof (induction ps arbitrary: r)
  case (Cons p ps)
  have one: "map_of (rs_exhausted (record_success p r)) i = map_of (rs_exhausted r) i
     \<or> map_of (rs_exhausted (record_success p r)) i = None \<and> fst p = i
       \<and> (\<exists>e. map_of (rs_exhausted r) i = Some e \<and> v_revision e \<le> v_revision (snd p))"
    by (auto simp: record_success_def delete_conv' split: option.split)
  show ?case using Cons.IH [of "record_success p r"] one by (auto simp: persisted_for_def)
qed simp

lemma record_success_other:
  "persisted_for i ps = [] \<Longrightarrow> map_of (rs_exhausted (fold record_success ps r)) i = map_of (rs_exhausted r) i"
  using record_success_fold [of ps r i] by auto

definition given_up :: "session_id \<Rightarrow> snapshot_version \<Rightarrow> retry_state \<times> ('m, 'u, 't, 'x) pending_snapshot list \<Rightarrow> bool" where
  "given_up i v rp \<longleftrightarrow> map_of (rs_exhausted (fst rp)) i = Some v \<and> sn_get i (snd rp) = None"

lemma record_failure_step:
  "(map_of (rs_exhausted (fst (record_failure q rp))) i = map_of (rs_exhausted (fst rp)) i \<and> sn_get i (snd (record_failure q rp)) = sn_get i (snd rp))
   \<or> fst q = i \<and> (\<exists>sn. sn_get i (snd rp) = Some sn \<and> given_up i (sn_version sn) (record_failure q rp))"
  by (cases q) (auto simp: record_failure_def Let_def given_up_def update_conv' split: if_splits)

lemma record_failure_distinct: "sn_distinct (snd rp) \<Longrightarrow> sn_distinct (snd (record_failure q rp))"
  by (cases q) (auto simp: record_failure_def Let_def sn_distinct_drop)

lemma record_failure_fold:
  "(map_of (rs_exhausted (fst (fold record_failure qs rp))) i = map_of (rs_exhausted (fst rp)) i
      \<and> sn_get i (snd (fold record_failure qs rp)) = sn_get i (snd rp))
   \<or> i \<in> fst ` set qs \<and> (\<exists>sn. sn_get i (snd rp) = Some sn \<and> given_up i (sn_version sn) (fold record_failure qs rp))"
proof (induction qs arbitrary: rp)
  case (Cons q qs)
  show ?case
    using Cons.IH [of "record_failure q rp"] record_failure_step [of q rp i]
    by (simp add: given_up_def) (metis option.distinct(1))
qed simp

lemma record_failures_id:
  assumes "record_failures failed (r, pending) = (r', pending')"
  shows "(map_of (rs_exhausted r') i = map_of (rs_exhausted r) i \<and> sn_get i pending' = sn_get i pending)
   \<or> i \<in> fst ` set failed \<and> (\<exists>sn. sn_get i pending = Some sn \<and> map_of (rs_exhausted r') i = Some (sn_version sn) \<and> sn_get i pending' = None)"
  using assms record_failure_fold [of failed "(r, pending)" i]
  by (auto simp: record_failures_def given_up_def retain_attempts_def split: prod.splits)

lemma record_failure_fold_distinct: "sn_distinct (snd rp) \<Longrightarrow> sn_distinct (snd (fold record_failure failed rp))"
  by (induction failed arbitrary: rp) (simp_all add: record_failure_distinct)

lemma record_failures_distinct:
  assumes "record_failures failed (r, pending) = (r', pending')" and "sn_distinct pending"
  shows "sn_distinct pending'"
  using assms record_failure_fold_distinct [of "(r, pending)" failed] by (auto simp: record_failures_def split: prod.splits)

section \<open>One session through a flush\<close>

abbreviation exhausted_for :: "session_id \<Rightarrow> ('m, 'u, 't, 'x) writer_state \<Rightarrow> snapshot_version option" where
  "exhausted_for i w \<equiv> map_of (rs_exhausted (w_retries w)) i"

definition untouched_by_flush :: "session_id \<Rightarrow> ('m, 'u, 't, 'x) writer_state \<Rightarrow> ('m, 'u, 't, 'x) writer_state \<Rightarrow> bool" where
  "untouched_by_flush i w w' \<longleftrightarrow>
     sn_get i (w_pending w') = sn_get i (w_pending w) \<and> sn_get i (w_latest_snapshots w') = sn_get i (w_latest_snapshots w)
     \<and> w_durable_versions w' i = w_durable_versions w i \<and> exhausted_for i w' = exhausted_for i w"

definition flush_persists :: "session_id \<Rightarrow> ('m, 'u, 't, 'x) pending_snapshot \<Rightarrow> ('m, 'u, 't, 'x) writer_state \<Rightarrow> ('m, 'u, 't, 'x) writer_state \<Rightarrow> bool" where
  "flush_persists i p w w' \<longleftrightarrow>
     sn_get i (w_pending w') = None
     \<and> (\<exists>v. w_durable_versions w' i = Some v \<and> sn_revision p \<le> v_revision v
          \<and> (v = sn_version p \<or> v_generation v = 0 \<or> w_durable_versions w i = Some v)
          \<and> (sn_get i (w_latest_snapshots w') = sn_get i (w_latest_snapshots w)
             \<or> sn_get i (w_latest_snapshots w') = None \<and> map_option sn_version (sn_get i (w_latest_snapshots w)) = Some v))
     \<and> (exhausted_for i w' = exhausted_for i w
        \<or> exhausted_for i w' = None \<and> (\<exists>e. exhausted_for i w = Some e \<and> v_revision e \<le> sn_revision p))"

definition flush_gives_up :: "session_id \<Rightarrow> ('m, 'u, 't, 'x) pending_snapshot \<Rightarrow> ('m, 'u, 't, 'x) writer_state \<Rightarrow> ('m, 'u, 't, 'x) writer_state \<Rightarrow> bool" where
  "flush_gives_up i p w w' \<longleftrightarrow>
     sn_get i (w_pending w') = None \<and> sn_get i (w_latest_snapshots w') = sn_get i (w_latest_snapshots w)
     \<and> w_durable_versions w' i = w_durable_versions w i \<and> exhausted_for i w' = Some (sn_version p)"

lemma flush_target_frame:
  assumes "flush_target env target w disk = (failed, w', disk')"
  shows "w_latest_generations w' = w_latest_generations w \<and> w_delete_generations w' = w_delete_generations w"
  using assms by (auto simp: flush_target_def Let_def split: prod.splits)

lemma flush_target_distinct:
  assumes "flush_target env target w disk = (failed, w', disk')" and "sn_distinct (w_latest_snapshots w)"
  shows "sn_distinct (w_pending w') \<and> sn_distinct (w_latest_snapshots w')"
proof -
  define f0 :: "('a, 'b, 'c, 'd) flush_state" where
    "f0 = \<lparr>f_write = \<lparr>ws_logs = w_logs w, ws_durable = w_durable_versions w, ws_disk = disk\<rparr>, f_records = w_durable_records w,
        f_pending = [], f_failed = [], f_persisted = []\<rparr>"
  have batch: "flush_batch env target w disk = fold (flush_any env target) (w_pending w) f0"
    by (simp add: flush_batch_def flush_any_def f0_def)
  have "sn_distinct (f_pending (flush_batch env target w disk))"
    using flush_fold_distinct [of f0 env target "w_pending w"] by (simp add: batch f0_def)
  then show ?thesis
    using assms record_failures_distinct
    by (auto simp: flush_target_def Let_def drop_durable_latest_distinct split: prod.splits)
qed

lemma flush_target_id:
  assumes flush: "flush_target env target w disk = (failed, w', disk')" and dist: "sn_distinct (w_pending w)"
  shows "case sn_get i (w_pending w) of
      None \<Rightarrow> untouched_by_flush i w w' \<and> disk' i = disk i \<and> map_of failed i = None
    | Some p \<Rightarrow> map_of failed i = None \<and> flush_persists i p w w'
        \<or> (\<exists>failure. map_of failed i = Some failure \<and> fl_version failure = sn_version p)
          \<and> (untouched_by_flush i w w' \<or> flush_gives_up i p w w')"
proof -
  define f0 :: "('a, 'b, 'c, 'd) flush_state" where
    "f0 = \<lparr>f_write = \<lparr>ws_logs = w_logs w, ws_durable = w_durable_versions w, ws_disk = disk\<rparr>, f_records = w_durable_records w,
        f_pending = [], f_failed = [], f_persisted = []\<rparr>"
  define f where "f = fold (flush_any env target) (w_pending w) f0"
  have batch: "flush_batch env target w disk = f"
    by (simp add: flush_batch_def flush_any_def f_def f0_def)
  define retries where "retries = fold record_success (f_persisted f) (w_retries w)"
  obtain r' pending' where fails: "record_failures (f_failed f) (retries, f_pending f) = (r', pending')" by fastforce
  have w': "w_pending w' = pending'" "w_durable_versions w' = ws_durable (f_write f)" "w_retries w' = r'"
      "w_latest_snapshots w' = fold (drop_durable_latest (ws_durable (f_write f))) (f_persisted f) (w_latest_snapshots w)"
    and out: "failed = f_failed f" "disk' = ws_disk (f_write f)"
    using flush fails by (auto simp: flush_target_def Let_def batch retries_def)
  note rf = record_failures_id [OF fails, of i]
  have f0: "ws_durable (f_write f0) = w_durable_versions w" "ws_disk (f_write f0) = disk" "f_pending f0 = []" "f_failed f0 = []" "f_persisted f0 = []"
    by (simp_all add: f0_def)
  show ?thesis
  proof (cases "sn_get i (w_pending w)")
    case None
    then have "same_for i f0 f" using flush_fold [OF dist, of i f0 env target] by (simp add: f_def)
    then have same: "ws_durable (f_write f) i = w_durable_versions w i" "ws_disk (f_write f) i = disk i" "sn_get i (f_pending f) = None"
        "map_of (f_failed f) i = None" "persisted_for i (f_persisted f) = []"
      by (auto simp: same_for_def f0 persisted_for_def)
    then have "map_of (rs_exhausted retries) i = exhausted_for i w" by (simp add: retries_def record_success_other)
    moreover have "i \<notin> fst ` set (f_failed f)" using same(4) by (simp add: map_of_eq_None_iff)
    ultimately show ?thesis
      using None same rf by (auto simp: untouched_by_flush_def w' out drop_durable_latest_fold)
  next
    case (Some p)
    have pid: "sn_id p = i" using sn_get_id [OF Some] .
    have "persisted_now p f0 f \<or> failed_now p f0 f" using flush_fold [OF dist, of i f0 env target] Some by (simp add: f_def)
    then show ?thesis
    proof
      assume "persisted_now p f0 f"
      then obtain v where v: "ws_durable (f_write f) i = Some v" "sn_revision p \<le> v_revision v"
          "v = sn_version p \<or> v_generation v = 0 \<or> w_durable_versions w i = Some v"
        and none: "sn_get i (f_pending f) = None" "map_of (f_failed f) i = None" and pers: "persisted_for i (f_persisted f) = [sn_version p]"
        by (auto simp: persisted_now_def f0 pid persisted_for_def)
      have "i \<notin> fst ` set (f_failed f)" using none(2) by (simp add: map_of_eq_None_iff)
      then have "sn_get i pending' = None" "map_of (rs_exhausted r') i = map_of (rs_exhausted retries) i" using rf none by auto
      moreover have "map_of (rs_exhausted retries) i = exhausted_for i w
          \<or> map_of (rs_exhausted retries) i = None \<and> (\<exists>e. exhausted_for i w = Some e \<and> v_revision e \<le> sn_revision p)"
        using record_success_fold [of "f_persisted f" "w_retries w" i] by (auto simp: retries_def pers)
      moreover have "sn_get i (w_latest_snapshots w') = sn_get i (w_latest_snapshots w)
          \<or> sn_get i (w_latest_snapshots w') = None \<and> map_option sn_version (sn_get i (w_latest_snapshots w)) = Some v"
        using v(1) by (auto simp: w' drop_durable_latest_fold pers)
      ultimately show ?thesis using Some v none by (auto simp: flush_persists_def w' out)
    next
      assume "failed_now p f0 f"
      then have fl: "ws_durable (f_write f) i = w_durable_versions w i" "sn_get i (f_pending f) = Some p" "map_of (f_failed f) i \<noteq> None"
          "\<exists>failure. map_of (f_failed f) i = Some failure \<and> fl_version failure = sn_version p"
          "persisted_for i (f_persisted f) = []"
        by (auto simp: failed_now_def f0 pid persisted_for_def)
      then have "map_of (rs_exhausted retries) i = exhausted_for i w" by (simp add: retries_def record_success_other)
      then show ?thesis
        using Some fl rf by (auto simp: untouched_by_flush_def flush_gives_up_def w' out drop_durable_latest_fold)
    qed
  qed
qed

lemma flush_target_failed_distinct:
  assumes "flush_target env target w disk = (failed, w', disk')"
  shows "distinct (map fst failed)"
  using assms flush_fold_distinct [of _ env target "w_pending w"]
  by (auto simp: flush_target_def Let_def flush_batch_def flush_any_def [symmetric] split: prod.splits)

end
