(* ===== verification/Writer_Order.thy ===== *)
theory Writer_Order
  imports Writer_Flush "HOL-Library.Multiset"
begin

text \<open>
  The invariant of the storage writer: what is pending is not older than what is on disk, the newest accepted
  snapshot of every session is pending, given up or superseded on disk, and a barrier stands in the way of
  every command that can still arrive late.
\<close>

section \<open>The state of one session\<close>

definition covered :: "session_id \<Rightarrow> u64 \<Rightarrow> ('m, 'u, 't, 'x) writer_state \<Rightarrow> bool" where
  "covered i r w \<longleftrightarrow>
     (\<exists>p. sn_get i (w_pending w) = Some p \<and> r \<le> sn_revision p) \<or> (\<exists>e. exhausted_for i w = Some e \<and> r \<le> v_revision e)
     \<or> (\<exists>v. w_durable_versions w i = Some v \<and> r \<le> v_revision v)"

definition pending_ok :: "session_id \<Rightarrow> ('m, 'u, 't, 'x) writer_state \<Rightarrow> bool" where
  "pending_ok i w \<longleftrightarrow>
     (\<forall>p. sn_get i (w_pending w) = Some p \<longrightarrow>
        (\<exists>l. sn_get i (w_latest_snapshots w) = Some l \<and> sn_generation p \<le> sn_generation l \<and> sn_revision l \<le> sn_revision p)
        \<and> (\<forall>v. w_durable_versions w i = Some v \<longrightarrow> v_generation v < sn_generation p))"

definition latest_ok :: "session_id \<Rightarrow> ('m, 'u, 't, 'x) writer_state \<Rightarrow> bool" where
  "latest_ok i w \<longleftrightarrow> (\<forall>l. sn_get i (w_latest_snapshots w) = Some l \<longrightarrow> covered i (sn_revision l) w)"

definition writer_ok :: "('m, 'u, 't, 'x) writer_state \<Rightarrow> bool" where
  "writer_ok w \<longleftrightarrow> sn_distinct (w_pending w) \<and> sn_distinct (w_latest_snapshots w) \<and> (\<forall>i. pending_ok i w \<and> latest_ok i w)"

definition known :: "session_id \<Rightarrow> ('m, 'u, 't, 'x) writer_state \<Rightarrow> nat set" where
  "known i w =
     set_option (map_option sn_generation (sn_get i (w_pending w))) \<union> set_option (map_option sn_generation (sn_get i (w_latest_snapshots w)))
     \<union> set_option (map_option v_generation (w_durable_versions w i))"

definition known_through :: "session_id \<Rightarrow> nat \<Rightarrow> ('m, 'u, 't, 'x) writer_state \<Rightarrow> bool" where
  "known_through i g w \<longleftrightarrow>
     (\<exists>l. sn_get i (w_latest_snapshots w) = Some l \<and> g \<le> sn_generation l) \<or> (\<exists>v. w_durable_versions w i = Some v \<and> g \<le> v_generation v)"

lemmas session_defs = covered_def pending_ok_def latest_ok_def

lemma session_ok_cong:
  assumes "sn_get i (w_pending w') = sn_get i (w_pending w)" and "sn_get i (w_latest_snapshots w') = sn_get i (w_latest_snapshots w)"
    and "w_durable_versions w' i = w_durable_versions w i" and "exhausted_for i w' = exhausted_for i w"
  shows "pending_ok i w' = pending_ok i w" "latest_ok i w' = latest_ok i w" "known i w' = known i w" "known_through i g w' = known_through i g w"
  using assms by (simp_all add: session_defs known_def known_through_def)

lemma untouched_ok:
  assumes "untouched_by_flush i w w'"
  shows "pending_ok i w' = pending_ok i w" "latest_ok i w' = latest_ok i w" "known i w' = known i w" "known_through i g w' = known_through i g w"
  using session_ok_cong [of i w' w] assms by (auto simp: untouched_by_flush_def)

section \<open>Flushing\<close>

lemma flush_cases:
  assumes "flush_target env target w disk = (failed, w', disk')" and "writer_ok w"
  obtains (Untouched) "untouched_by_flush i w w'" "sn_get i (w_pending w) = None \<longrightarrow> disk' i = disk i"
    | (Persists) p where "sn_get i (w_pending w) = Some p" "flush_persists i p w w'"
    | (GivesUp) p where "sn_get i (w_pending w) = Some p" "flush_gives_up i p w w'"
  using flush_target_id [OF assms(1), of i] assms(2) that by (auto simp: writer_ok_def split: option.splits)

lemma flush_writer_ok:
  assumes flush: "flush_target env target w disk = (failed, w', disk')" and ok: "writer_ok w"
  shows "writer_ok w'"
proof -
  have "pending_ok i w' \<and> latest_ok i w'" for i
    using flush ok
  proof (cases rule: flush_cases [where i = i])
    case Untouched
    then show ?thesis using ok by (simp add: untouched_ok writer_ok_def)
  next
    case (Persists p)
    have old: "pending_ok i w" using ok by (simp add: writer_ok_def)
    then obtain l where l: "sn_get i (w_latest_snapshots w) = Some l" "sn_revision l \<le> sn_revision p"
      using Persists(1) by (auto simp: pending_ok_def)
    then show ?thesis
      using Persists(2) by (auto simp: flush_persists_def session_defs intro: order_trans)
  next
    case (GivesUp p)
    have old: "pending_ok i w" using ok by (simp add: writer_ok_def)
    then obtain l where l: "sn_get i (w_latest_snapshots w) = Some l" "sn_revision l \<le> sn_revision p"
      using GivesUp(1) by (auto simp: pending_ok_def)
    then show ?thesis using GivesUp(2) by (auto simp: flush_gives_up_def session_defs)
  qed
  then show ?thesis
    using flush_target_distinct [OF flush] ok by (simp add: writer_ok_def)
qed

lemma flush_known:
  assumes flush: "flush_target env target w disk = (failed, w', disk')" and ok: "writer_ok w"
  shows "known i w' \<subseteq> insert 0 (known i w)"
  using flush ok
proof (cases rule: flush_cases [where i = i])
  case Untouched
  then show ?thesis by (auto simp: untouched_ok)
next
  case (Persists p)
  then show ?thesis by (cases "sn_get i (w_latest_snapshots w)") (auto simp: flush_persists_def known_def)
next
  case (GivesUp p)
  then show ?thesis by (cases "sn_get i (w_latest_snapshots w)") (auto simp: flush_gives_up_def known_def)
qed

lemma flush_known_through:
  assumes flush: "flush_target env target w disk = (failed, w', disk')" and ok: "writer_ok w" and "known_through i g w"
  shows "known_through i g w'"
  using flush ok
proof (cases rule: flush_cases [where i = i])
  case Untouched
  then show ?thesis using assms(3) by (simp add: untouched_ok)
next
  case (Persists p)
  have "pending_ok i w" using ok by (simp add: writer_ok_def)
  then obtain l where l: "sn_get i (w_latest_snapshots w) = Some l" "sn_generation p \<le> sn_generation l"
      "\<forall>v. w_durable_versions w i = Some v \<longrightarrow> v_generation v < sn_generation p"
    using Persists(1) by (auto simp: pending_ok_def)
  then have "g \<le> sn_generation l" using assms(3) by (auto simp: known_through_def)
  then show ?thesis using Persists(2) l by (auto simp: flush_persists_def known_through_def)
next
  case (GivesUp p)
  then show ?thesis using assms(3) by (auto simp: flush_gives_up_def known_through_def)
qed

section \<open>Staging\<close>

lemma stage_snapshot_other:
  assumes "i \<noteq> sn_id sn"
  shows "sn_get i (w_pending (fst (stage_snapshot sn w))) = sn_get i (w_pending w)"
    "sn_get i (w_latest_snapshots (fst (stage_snapshot sn w))) = sn_get i (w_latest_snapshots w)"
    "w_durable_versions (fst (stage_snapshot sn w)) = w_durable_versions w"
    "w_retries (fst (stage_snapshot sn w)) = w_retries w"
    "w_latest_generations (fst (stage_snapshot sn w)) i = w_latest_generations w i"
    "w_delete_generations (fst (stage_snapshot sn w)) = w_delete_generations w"
  using assms by (auto simp: stage_snapshot_def queue_pending_snapshot_def Let_def split: option.split)

lemma stage_snapshot_fields:
  "w_durable_versions (fst (stage_snapshot sn w)) = w_durable_versions w"
  "w_retries (fst (stage_snapshot sn w)) = w_retries w"
  "w_delete_generations (fst (stage_snapshot sn w)) = w_delete_generations w"
  by (auto simp: stage_snapshot_def queue_pending_snapshot_def Let_def split: option.split)

definition refused :: "('m, 'u, 't, 'x) pending_snapshot \<Rightarrow> ('m, 'u, 't, 'x) writer_state \<Rightarrow> bool" where
  "refused sn w \<longleftrightarrow> at_least (w_latest_generations w (sn_id sn)) (sn_generation sn) \<or> at_least (w_delete_generations w (sn_id sn)) (sn_generation sn)"

lemma stage_refused: "refused sn w \<Longrightarrow> fst (stage_snapshot sn w) = w"
  by (simp add: stage_snapshot_def refused_def Let_def)

lemma stage_accepted:
  assumes "\<not> refused sn w"
  shows "sn_get (sn_id sn) (w_latest_snapshots (fst (stage_snapshot sn w))) = Some sn"
    "w_latest_generations (fst (stage_snapshot sn w)) (sn_id sn) = Some (sn_generation sn)"
    "sn_get (sn_id sn) (w_pending (fst (stage_snapshot sn w))) = Some sn
     \<or> (\<exists>p. sn_get (sn_id sn) (w_pending w) = Some p \<and> sn_get (sn_id sn) (w_pending (fst (stage_snapshot sn w))) = Some p \<and> sn_revision sn \<le> sn_revision p)"
  using assms by (auto simp: stage_snapshot_def refused_def queue_pending_snapshot_def Let_def split: option.split)

lemma stage_distinct:
  assumes "sn_distinct (w_pending w)" and "sn_distinct (w_latest_snapshots w)"
  shows "sn_distinct (w_pending (fst (stage_snapshot sn w))) \<and> sn_distinct (w_latest_snapshots (fst (stage_snapshot sn w)))"
  using assms by (auto simp: stage_snapshot_def queue_pending_snapshot_def Let_def sn_distinct_put split: option.split)

lemma stage_writer_ok:
  assumes ok: "writer_ok w" and new: "\<not> refused sn w \<Longrightarrow> \<forall>h \<in> known (sn_id sn) w. h < sn_generation sn"
  shows "writer_ok (fst (stage_snapshot sn w))"
proof (cases "refused sn w")
  case True
  then show ?thesis using ok by (simp add: stage_refused)
next
  case False
  define w' where "w' = fst (stage_snapshot sn w)"
  note acc = stage_accepted [OF False, folded w'_def]
  have durable: "w_durable_versions w' = w_durable_versions w" by (simp add: w'_def stage_snapshot_fields)
  have "pending_ok i w' \<and> latest_ok i w'" for i
  proof (cases "i = sn_id sn")
    case True
    have old: "pending_ok i w" using ok by (simp add: writer_ok_def)
    have before: "\<forall>h \<in> known i w. h < sn_generation sn" using new [OF False] True by simp
    from acc(3) show ?thesis
    proof
      assume "sn_get (sn_id sn) (w_pending w') = Some sn"
      then show ?thesis using True acc(1) before durable by (auto simp: session_defs known_def)
    next
      assume "\<exists>p. sn_get (sn_id sn) (w_pending w) = Some p \<and> sn_get (sn_id sn) (w_pending w') = Some p \<and> sn_revision sn \<le> sn_revision p"
      then obtain p where p: "sn_get i (w_pending w) = Some p" "sn_get i (w_pending w') = Some p" "sn_revision sn \<le> sn_revision p"
        using True by auto
      have "sn_generation p < sn_generation sn" using before p(1) by (simp add: known_def)
      then show ?thesis using p old acc(1) durable True by (auto simp: session_defs)
    qed
  next
    case False
    then show ?thesis
      using ok session_ok_cong [of i w' w] by (simp add: w'_def stage_snapshot_other writer_ok_def)
  qed
  then show ?thesis using ok stage_distinct [of w sn] by (simp add: writer_ok_def w'_def)
qed

lemma stage_known: "known i (fst (stage_snapshot sn w)) \<subseteq> (if i = sn_id sn then insert (sn_generation sn) (known i w) else known i w)"
proof (cases "i = sn_id sn \<and> \<not> refused sn w")
  case True
  then show ?thesis using stage_accepted [of sn w] by (auto simp: known_def stage_snapshot_fields)
next
  case False
  then show ?thesis by (cases "i = sn_id sn") (auto simp: stage_refused known_def stage_snapshot_other)
qed

section \<open>Deleting\<close>

lemma mark_deleted_get:
  assumes "writer_ok w"
  shows "sn_get j (w_pending (mark_deleted i g w)) = (case sn_get j (w_pending w) of None \<Rightarrow> None
      | Some sn \<Rightarrow> if j \<noteq> i \<or> delete_generation i g w < sn_generation sn then Some sn else None)"
    "sn_get j (w_latest_snapshots (mark_deleted i g w)) = (case sn_get j (w_latest_snapshots w) of None \<Rightarrow> None
      | Some sn \<Rightarrow> if j \<noteq> i \<or> delete_generation i g w < sn_generation sn then Some sn else None)"
  using assms by (auto simp: mark_deleted_def Let_def writer_ok_def sn_get_filter split: option.split dest: sn_get_id)

lemma mark_deleted_fields [simp]:
  "w_durable_versions (mark_deleted i g w) = w_durable_versions w" "w_retries (mark_deleted i g w) = w_retries w"
  "w_delete_generations (mark_deleted i g w) = (w_delete_generations w)(i \<mapsto> delete_generation i g w)"
  by (simp_all add: mark_deleted_def Let_def)

lemma mark_deleted_distinct:
  "writer_ok w \<Longrightarrow> sn_distinct (w_pending (mark_deleted i g w)) \<and> sn_distinct (w_latest_snapshots (mark_deleted i g w))"
  by (simp add: mark_deleted_def Let_def writer_ok_def sn_distinct_filter)

lemma mark_deleted_other:
  assumes "writer_ok w" and "j \<noteq> i"
  shows "pending_ok j (mark_deleted i g w)" "latest_ok j (mark_deleted i g w)" "known j (mark_deleted i g w) = known j w"
proof -
  have "sn_get j (w_pending (mark_deleted i g w)) = sn_get j (w_pending w)"
    "sn_get j (w_latest_snapshots (mark_deleted i g w)) = sn_get j (w_latest_snapshots w)"
    using assms by (auto simp: mark_deleted_get split: option.split)
  then show "pending_ok j (mark_deleted i g w)" "latest_ok j (mark_deleted i g w)" "known j (mark_deleted i g w) = known j w"
    using assms(1) session_ok_cong [of j "mark_deleted i g w" w] by (auto simp: writer_ok_def)
qed

lemma mark_deleted_known: "writer_ok w \<Longrightarrow> known j (mark_deleted i g w) \<subseteq> known j w"
  by (auto simp: known_def mark_deleted_get split: option.splits if_splits)

text \<open>A newer version is on disk: nothing that is newer is dropped.\<close>

lemma mark_deleted_newer:
  assumes ok: "writer_ok w" and v: "w_durable_versions w i = Some v" "delete_generation i g w < v_generation v"
  shows "writer_ok (mark_deleted i g w)"
proof -
  have old: "pending_ok i w" "latest_ok i w" using ok by (auto simp: writer_ok_def)
  have kept: "sn_get i (w_pending (mark_deleted i g w)) = sn_get i (w_pending w)"
    using old(1) v by (auto simp: mark_deleted_get [OF ok] pending_ok_def split: option.split)
  have "pending_ok i (mark_deleted i g w)"
    using old(1) v kept by (force simp: pending_ok_def mark_deleted_get(2) [OF ok])
  moreover have "latest_ok i (mark_deleted i g w)"
    using old(2) kept by (auto simp: latest_ok_def covered_def mark_deleted_get(2) [OF ok] split: option.splits if_splits)
  ultimately show ?thesis
    using ok mark_deleted_other [OF ok] mark_deleted_distinct [OF ok] unfolding writer_ok_def by metis
qed

text \<open>Otherwise the newest snapshot after the deletion is pending again.\<close>

definition requeue :: "session_id \<Rightarrow> ('m, 'u, 't, 'x) writer_state \<Rightarrow> ('m, 'u, 't, 'x) writer_state" where
  "requeue i w = (case sn_get i (w_latest_snapshots w) of None \<Rightarrow> w | Some sn \<Rightarrow> queue_pending_snapshot sn w)"

lemma queue_pending_fields [simp]:
  "w_durable_versions (queue_pending_snapshot sn w) = w_durable_versions w" "w_retries (queue_pending_snapshot sn w) = w_retries w"
  "w_delete_generations (queue_pending_snapshot sn w) = w_delete_generations w"
  "w_latest_generations (queue_pending_snapshot sn w) = w_latest_generations w"
  "w_latest_snapshots (queue_pending_snapshot sn w) = w_latest_snapshots w"
  by (simp_all add: queue_pending_snapshot_def Let_def)

lemma requeue_fields [simp]:
  "w_durable_versions (requeue i w) = w_durable_versions w" "w_retries (requeue i w) = w_retries w"
  "w_delete_generations (requeue i w) = w_delete_generations w" "w_latest_generations (requeue i w) = w_latest_generations w"
  "w_latest_snapshots (requeue i w) = w_latest_snapshots w"
  by (auto simp: requeue_def split: option.split)

lemma requeue_other: "j \<noteq> i \<Longrightarrow> sn_get j (w_pending (requeue i w)) = sn_get j (w_pending w)"
  by (auto simp: requeue_def queue_pending_snapshot_def Let_def split: option.splits dest: sn_get_id)

lemma requeue_pending:
  assumes "sn_get i (w_latest_snapshots w) = Some l"
  shows "sn_get i (w_pending (requeue i w)) = Some l
    \<or> (\<exists>p. sn_get i (w_pending w) = Some p \<and> sn_get i (w_pending (requeue i w)) = Some p \<and> sn_revision l \<le> sn_revision p)"
  using assms sn_get_id [OF assms] by (auto simp: requeue_def queue_pending_snapshot_def Let_def split: option.splits)

lemma requeue_distinct: "sn_distinct (w_pending w) \<Longrightarrow> sn_distinct (w_pending (requeue i w))"
  by (auto simp: requeue_def queue_pending_snapshot_def Let_def sn_distinct_put split: option.split)

lemma forget_session_fields [simp]:
  "w_pending (forget_session i file w) = w_pending w" "w_latest_snapshots (forget_session i file w) = w_latest_snapshots w"
  "w_delete_generations (forget_session i file w) = w_delete_generations w" "w_latest_generations (forget_session i file w) = w_latest_generations w"
  "j \<noteq> i \<Longrightarrow> w_durable_versions (forget_session i file w) j = w_durable_versions w j"
  "j \<noteq> i \<Longrightarrow> exhausted_for j (forget_session i file w) = exhausted_for j w"
  "w_durable_versions (forget_session i file w) i = (if file = None then None else w_durable_versions w i)"
  by (auto simp: forget_session_def Let_def clear_retries_def delete_conv')

lemma deleted_writer_ok:
  assumes ok: "writer_ok w" and older: "\<And>v. w_durable_versions w i = Some v \<Longrightarrow> v_generation v \<le> delete_generation i g w"
  shows "writer_ok (forget_session i file (requeue i (mark_deleted i g w)))" (is "writer_ok ?w")
proof -
  define d where "d = delete_generation i g w"
  have pend: "pending_ok i w" using ok by (simp add: writer_ok_def)
  have "pending_ok j ?w \<and> latest_ok j ?w" for j
  proof (cases "j = i")
    case False
    then show ?thesis
      using mark_deleted_other [OF ok False, of g] by (simp add: session_defs requeue_other)
  next
    case True
    show ?thesis
    proof (cases "sn_get i (w_latest_snapshots (mark_deleted i g w))")
      case None
      then have "sn_get i (w_pending (mark_deleted i g w)) = None"
        using pend by (auto simp: mark_deleted_get [OF ok] pending_ok_def d_def split: option.splits if_splits)
      then show ?thesis using None True by (simp add: session_defs requeue_def)
    next
      case (Some l)
      then have l: "sn_get i (w_latest_snapshots w) = Some l" "d < sn_generation l"
        by (auto simp: mark_deleted_get [OF ok] d_def split: option.splits if_splits)
      from requeue_pending [OF Some] obtain p where p: "sn_get i (w_pending (requeue i (mark_deleted i g w))) = Some p"
          "sn_revision l \<le> sn_revision p" "d < sn_generation p" "sn_generation p \<le> sn_generation l"
        using l pend by (auto simp: mark_deleted_get [OF ok] pending_ok_def d_def split: option.splits if_splits)
      then show ?thesis using True Some older by (fastforce simp: session_defs d_def)
    qed
  qed
  then show ?thesis
    using mark_deleted_distinct [OF ok, of i g] by (simp add: writer_ok_def requeue_distinct)
qed

end
