(* ===== verification/Writer_Commands.thy ===== *)
theory Writer_Commands
  imports Writer_Order
begin

text \<open>
  The storage writer as a bag of commands: callers, inbox, channel and agenda only move commands, so a state is
  known by the commands that are under way, the generations that are outstanding and what the writer holds.
  Every step of the interleaved system is one step on the bag, or none.
\<close>

section \<open>Commands under way\<close>

datatype ('m, 'u, 't, 'x) command = Save "('m, 'u, 't, 'x) pending_snapshot" | Remove session_id nat | Over session_id nat

fun command_key :: "('m, 'u, 't, 'x) command \<Rightarrow> session_id \<times> nat" where
  "command_key (Save sn) = (sn_id sn, sn_generation sn)"
| "command_key (Remove i g) = (i, g)"
| "command_key (Over i g) = (i, g)"

fun op_commands :: "('m, 'u, 't, 'x) writer_op \<Rightarrow> ('m, 'u, 't, 'x) command multiset" where
  "op_commands (Persist g s) = {#Save (new_pending_snapshot g s)#}"
| "op_commands (Delete i g) = {#Remove i g#}"
| "op_commands _ = {#}"

fun caller_commands :: "('m, 'u, 't, 'x) caller_action \<Rightarrow> ('m, 'u, 't, 'x) command multiset" where
  "caller_commands (Enqueue sn) = {#Save sn#}"
| "caller_commands (Complete i g) = {#Over i g#}"
| "caller_commands (SendOp op) = op_commands op"

fun agenda_commands :: "('m, 'u, 't, 'x) writer_action \<Rightarrow> ('m, 'u, 't, 'x) command multiset" where
  "agenda_commands (Stage sn) = {#Save sn#}"
| "agenda_commands (CompleteCommand i g) = {#Over i g#}"
| "agenda_commands (PersistNow g s) = {#Save (new_pending_snapshot g s)#}"
| "agenda_commands (DeleteNow i g) = {#Remove i g#}"
| "agenda_commands _ = {#}"

fun agenda_replies :: "('m, 'u, 't, 'x) writer_action \<Rightarrow> (session_id \<times> nat \<times> (session_error + unit)) set" where
  "agenda_replies (Reply i g r) = {(i, g, r)}"
| "agenda_replies _ = {}"

abbreviation commands_of :: "('a \<Rightarrow> ('m, 'u, 't, 'x) command multiset) \<Rightarrow> 'a list \<Rightarrow> ('m, 'u, 't, 'x) command multiset" where
  "commands_of f xs \<equiv> sum_list (map f xs)"

record ('m, 'u, 't, 'x) bag =
  b_next :: nat
  b_outstanding :: "session_id \<Rightarrow> nat set"
  b_commands :: "('m, 'u, 't, 'x) command multiset"
  b_writer :: "('m, 'u, 't, 'x) writer_state"
  b_disk :: session_disk
  b_replies :: "(session_id \<times> nat \<times> (session_error + unit)) set"

definition bag_of :: "('m, 'u, 't, 'x) writer_system \<Rightarrow> ('m, 'u, 't, 'x) bag" where
  "bag_of y = \<lparr>b_next = y_next_generation y, b_outstanding = y_outstanding y,
     b_commands = commands_of caller_commands (concat (y_callers y)) + image_mset Save (mset (y_inbox y))
       + commands_of op_commands (y_ops y) + commands_of agenda_commands (y_agenda y),
     b_writer = y_writer y, b_disk = y_disk y, b_replies = set (y_replies y) \<union> (\<Union>a \<in> set (y_agenda y). agenda_replies a)\<rparr>"

lemma bag_of_simps [simp]:
  "b_next (bag_of y) = y_next_generation y" "b_outstanding (bag_of y) = y_outstanding y" "b_writer (bag_of y) = y_writer y"
  "b_disk (bag_of y) = y_disk y"
  by (simp_all add: bag_of_def)

section \<open>Steps on the bag\<close>

definition issue :: "('m, 'u, 't, 'x) command \<Rightarrow> ('m, 'u, 't, 'x) bag \<Rightarrow> ('m, 'u, 't, 'x) bag" where
  "issue c b =
     (let i = fst (command_key c); g = b_next b + 1
      in b\<lparr>b_next := g, b_outstanding := (b_outstanding b)(i := insert g (b_outstanding b i)), b_commands := add_mset c (b_commands b)\<rparr>)"

inductive bag_step :: "('m, 'u, 't, 'x) bag \<Rightarrow> ('m, 'u, 't, 'x) bag \<Rightarrow> bool" where
  Nothing: "bag_step b b"
| Issue_save: "sn_generation sn = b_next b + 1 \<Longrightarrow> bag_step b (issue (Save sn) b)"
| Issue_remove: "g = b_next b + 1 \<Longrightarrow> bag_step b (issue (Remove i g) b)"
| Supersede: "b_commands b = add_mset (Save old) (add_mset (Save new) rest) \<Longrightarrow> sn_id old = sn_id new \<Longrightarrow> sn_generation old \<le> sn_generation new
    \<Longrightarrow> bag_step b (b\<lparr>b_commands := add_mset (Over (sn_id old) (sn_generation old)) (add_mset (Save new) rest)\<rparr>)"
| Completed: "b_commands b = add_mset (Over i g) rest
    \<Longrightarrow> bag_step b (b\<lparr>b_outstanding := (b_outstanding b)(i := b_outstanding b i - {g}), b_commands := rest\<rparr>)"
| Staged: "b_commands b = add_mset (Save sn) rest
    \<Longrightarrow> bag_step b (b\<lparr>b_commands := add_mset (Over (sn_id sn) (sn_generation sn)) rest, b_writer := fst (stage_snapshot sn (b_writer b))\<rparr>)"
| Collected: "y_outstanding y = b_outstanding b \<Longrightarrow> bag_step b (b\<lparr>b_writer := collect_barriers i y (b_writer b)\<rparr>)"
| Flushed: "flush_target env target (b_writer b) (b_disk b) = (failed, w, disk) \<Longrightarrow> bag_step b (b\<lparr>b_writer := w, b_disk := disk\<rparr>)"
| Persisted: "b_commands b = add_mset (Save (new_pending_snapshot g s)) rest \<Longrightarrow> persist_snapshot env g s (b_writer b) (b_disk b) = (r, w, disk)
    \<Longrightarrow> bag_step b (b\<lparr>b_commands := add_mset (Over (se_id s) g) rest, b_writer := w, b_disk := disk, b_replies := insert (se_id s, g, r) (b_replies b)\<rparr>)"
| Removed: "b_commands b = add_mset (Remove i g) rest \<Longrightarrow> delete_session env i g (b_writer b) (b_disk b) = (r, w, disk)
    \<Longrightarrow> bag_step b (b\<lparr>b_commands := add_mset (Over i g) rest, b_writer := w, b_disk := disk, b_replies := insert (i, g, r) (b_replies b)\<rparr>)"

section \<open>The interleaved system refines the bag\<close>

lemma mset_sn_put:
  assumes "sn_distinct sns"
  shows "sn_get (sn_id sn) sns = None \<Longrightarrow> mset (sn_put sn sns) = add_mset sn (mset sns)"
    "sn_get (sn_id sn) sns = Some old \<Longrightarrow> add_mset old (mset (sn_put sn sns)) = add_mset sn (mset sns)"
proof -
  have gone: "sn_get i sns = None \<Longrightarrow> filter (\<lambda>x. sn_id x \<noteq> i) sns = sns" for i and sns :: "('a, 'b, 'c, 'd) pending_snapshot list"
    by (rule filter_True) (auto simp: sn_get_None)
  show "sn_get (sn_id sn) sns = None \<Longrightarrow> mset (sn_put sn sns) = add_mset sn (mset sns)"
    using gone by (simp add: sn_put_def)
  show "sn_get (sn_id sn) sns = Some old \<Longrightarrow> add_mset old (mset (sn_put sn sns)) = add_mset sn (mset sns)"
    using assms by (induction sns) (auto simp: sn_put_def gone simp del: mset_filter split: if_splits)
qed

lemma new_snapshot_simps [simp]:
  "sn_id (new_pending_snapshot g s) = se_id s" "sn_generation (new_pending_snapshot g s) = g" "sn_revision (new_pending_snapshot g s) = sm_revision (se_meta s)"
  "sn_session (new_pending_snapshot g s) = s"
  by (simp_all add: new_pending_snapshot_def sn_id_def)

lemma send_bag:
  "bag_of (send_snapshot s y) = issue (Save (new_pending_snapshot (y_next_generation y + 1) s)) (bag_of y)"
  "bag_of (send_persist s y) = issue (Save (new_pending_snapshot (y_next_generation y + 1) s)) (bag_of y)"
  "bag_of (send_delete i y) = issue (Remove i (y_next_generation y + 1)) (bag_of y)"
  by (simp_all add: send_snapshot_def send_persist_def send_delete_def reserve_def new_caller_def Let_def issue_def bag_of_def)

lemma commands_of_stages [simp]: "commands_of (agenda_commands \<circ> Stage) sns = image_mset Save (mset sns)"
  by (induction sns) auto

lemma commands_of_agenda_for [simp]: "commands_of agenda_commands (agenda_for op) = op_commands op"
  by (cases op) auto

lemma replies_of_agenda_for [simp]: "(\<Union>a \<in> set (agenda_for op). agenda_replies a) = {}"
  by (cases op) auto

lemma caller_bag:
  assumes "caller_step c y = (todo, y')" and "y_callers y = before @ (c # cs) # after" and "sn_distinct (y_inbox y)"
  shows "bag_step (bag_of y) (bag_of (y'\<lparr>y_callers := before @ (todo @ cs) # after\<rparr>)) \<and> sn_distinct (y_inbox y')"
proof (cases c)
  case (Enqueue sn)
  show ?thesis
  proof (cases "sn_get (sn_id sn) (y_inbox y)")
    case None
    then have "bag_of (y'\<lparr>y_callers := before @ (todo @ cs) # after\<rparr>) = bag_of y"
      using assms Enqueue mset_sn_put(1) [OF assms(3) None] by (auto simp: bag_of_def split: if_splits)
    then show ?thesis using assms Enqueue None bag_step.Nothing by (auto simp: sn_distinct_put)
  next
    case (Some old)
    have old: "sn_id old = sn_id sn" using sn_get_id [OF Some] .
    note put = mset_sn_put(2) [OF assms(3) Some]
    obtain rest where rest: "mset (y_inbox y) = add_mset old rest" using sn_get_mem [OF Some] by (metis mset_add set_mset_mset)
    then have rest': "mset (sn_put sn (y_inbox y)) = add_mset sn rest" using put by (simp add: add_mset_commute)
    define others where "others = commands_of caller_commands (concat before @ cs @ concat after) + image_mset Save rest
       + commands_of op_commands (y_ops y) + commands_of agenda_commands (y_agenda y)"
    have b: "b_commands (bag_of y) = add_mset (Save sn) (add_mset (Save old) others)"
      using assms(2) Enqueue by (simp add: bag_of_def others_def rest)
    show ?thesis
    proof (cases "sn_generation old < sn_generation sn")
      case True
      have "bag_of (y'\<lparr>y_callers := before @ (todo @ cs) # after\<rparr>)
          = (bag_of y)\<lparr>b_commands := add_mset (Over (sn_id old) (sn_generation old)) (add_mset (Save sn) others)\<rparr>"
        using assms(1) Enqueue Some True old by (auto simp: bag_of_def others_def rest')
      moreover have "b_commands (bag_of y) = add_mset (Save old) (add_mset (Save sn) others)"
        using b by (simp add: add_mset_commute)
      ultimately show ?thesis
        using bag_step.Supersede [of "bag_of y" old sn others] True old assms Enqueue Some by (auto simp: sn_distinct_put)
    next
      case False
      have "bag_of (y'\<lparr>y_callers := before @ (todo @ cs) # after\<rparr>)
          = (bag_of y)\<lparr>b_commands := add_mset (Over (sn_id sn) (sn_generation sn)) (add_mset (Save old) others)\<rparr>"
        using assms(1) Enqueue Some False old rest by (auto simp: bag_of_def others_def)
      then show ?thesis
        using bag_step.Supersede [of "bag_of y" sn old others] b False old assms Enqueue Some by auto
    qed
  qed
next
  case (Complete i g)
  define others where "others = commands_of caller_commands (concat before @ cs @ concat after) + image_mset Save (mset (y_inbox y))
     + commands_of op_commands (y_ops y) + commands_of agenda_commands (y_agenda y)"
  have "b_commands (bag_of y) = add_mset (Over i g) others"
    using assms(2) Complete by (simp add: bag_of_def others_def)
  moreover have "bag_of (y'\<lparr>y_callers := before @ (todo @ cs) # after\<rparr>)
      = (bag_of y)\<lparr>b_outstanding := (y_outstanding y)(i := y_outstanding y i - {g}), b_commands := others\<rparr>"
    using assms(1,2) Complete by (auto simp: bag_of_def others_def complete_command_def)
  ultimately show ?thesis
    using bag_step.Completed [of "bag_of y" i g others] assms Complete by (auto simp: complete_command_def)
next
  case (SendOp op)
  then have "bag_of (y'\<lparr>y_callers := before @ (todo @ cs) # after\<rparr>) = bag_of y"
    using assms by (auto simp: bag_of_def)
  then show ?thesis using assms SendOp bag_step.Nothing by auto
qed

lemma writer_bag:
  assumes "writer_step env a y = (todo, y')" and "y_agenda y = a # agenda" and "sn_distinct (y_inbox y)"
  shows "bag_step (bag_of y) (bag_of (y'\<lparr>y_agenda := todo @ agenda\<rparr>)) \<and> sn_distinct (y_inbox y')"
proof -
  define y'' where "y'' = y'\<lparr>y_agenda := todo @ agenda\<rparr>"
  define others where "others = commands_of caller_commands (concat (y_callers y)) + image_mset Save (mset (y_inbox y))
     + commands_of op_commands (y_ops y) + commands_of agenda_commands agenda"
  have b: "b_commands (bag_of y) = agenda_commands a + others"
    "b_replies (bag_of y) = set (y_replies y) \<union> agenda_replies a \<union> (\<Union>a \<in> set agenda. agenda_replies a)"
    using assms(2) by (auto simp: bag_of_def others_def)
  have "bag_step (bag_of y) (bag_of y'')"
  proof (cases a)
    case TakeInbox
    then have "bag_of y'' = bag_of y" using assms(1,2) by (auto simp: bag_of_def y''_def)
    then show ?thesis using bag_step.Nothing by simp
  next
    case (Stage sn)
    then have "bag_of y'' = (bag_of y)\<lparr>b_commands := add_mset (Over (sn_id sn) (sn_generation sn)) others, b_writer := fst (stage_snapshot sn (y_writer y))\<rparr>"
      using assms(1,2) by (auto simp: bag_of_def y''_def others_def)
    then show ?thesis using bag_step.Staged [of "bag_of y" sn others] b Stage by simp
  next
    case (CompleteCommand i g)
    then have "bag_of y'' = (bag_of y)\<lparr>b_outstanding := (y_outstanding y)(i := y_outstanding y i - {g}), b_commands := others\<rparr>"
      using assms(1,2) by (auto simp: bag_of_def y''_def others_def complete_command_def)
    then show ?thesis using bag_step.Completed [of "bag_of y" i g others] b CompleteCommand by simp
  next
    case (CollectBarriers i)
    then have "bag_of y'' = (bag_of y)\<lparr>b_writer := collect_barriers i y (y_writer y)\<rparr>"
      using assms(1,2) by (auto simp: bag_of_def y''_def)
    then show ?thesis using bag_step.Collected [of y "bag_of y" i] by simp
  next
    case FlushNow
    obtain failed w disk where fl: "flush_target env None (y_writer y) (y_disk y) = (failed, w, disk)" by (metis prod_cases3)
    then have "bag_of y'' = (bag_of y)\<lparr>b_writer := w, b_disk := disk\<rparr>"
      using assms(1,2) FlushNow by (auto simp: bag_of_def y''_def)
    then show ?thesis using bag_step.Flushed [of env None "bag_of y"] fl by simp
  next
    case FlushIfIdle
    then have "bag_of y'' = bag_of y" using assms(1,2) by (auto simp: bag_of_def y''_def)
    then show ?thesis using bag_step.Nothing by simp
  next
    case (PersistNow g s)
    obtain r w disk where p: "persist_snapshot env g s (y_writer y) (y_disk y) = (r, w, disk)" by (metis prod_cases3)
    then have "bag_of y'' = (bag_of y)\<lparr>b_commands := add_mset (Over (se_id s) g) others, b_writer := w, b_disk := disk,
        b_replies := insert (se_id s, g, r) (b_replies (bag_of y))\<rparr>"
      using assms(1,2) PersistNow by (auto simp: bag_of_def y''_def others_def)
    then show ?thesis using bag_step.Persisted [of "bag_of y" g s others env] b p PersistNow by simp
  next
    case (DeleteNow i g)
    obtain r w disk where p: "delete_session env i g (y_writer y) (y_disk y) = (r, w, disk)" by (metis prod_cases3)
    then have "bag_of y'' = (bag_of y)\<lparr>b_commands := add_mset (Over i g) others, b_writer := w, b_disk := disk,
        b_replies := insert (i, g, r) (b_replies (bag_of y))\<rparr>"
      using assms(1,2) DeleteNow by (auto simp: bag_of_def y''_def others_def)
    then show ?thesis using bag_step.Removed [of "bag_of y" i g others env] b p DeleteNow by simp
  next
    case (ReplyLatest i)
    then have "bag_of y'' = bag_of y" using assms(1,2) by (auto simp: bag_of_def y''_def)
    then show ?thesis using bag_step.Nothing by simp
  next
    case (Reply i g r)
    then have "bag_of y'' = bag_of y" using assms(1,2) by (auto simp: bag_of_def y''_def)
    then show ?thesis using bag_step.Nothing by simp
  next
    case Finish
    obtain failed w disk where fl: "flush_target env None (y_writer y) (y_disk y) = (failed, w, disk)" by (metis prod_cases3)
    then have "bag_of y'' = (bag_of y)\<lparr>b_writer := w, b_disk := disk\<rparr>"
      using assms(1,2) Finish by (auto simp: bag_of_def y''_def)
    then show ?thesis using bag_step.Flushed [of env None "bag_of y"] fl by simp
  qed
  moreover have "sn_distinct (y_inbox y')"
    using assms(1,3) by (cases a) (auto simp: complete_command_def split: prod.splits)
  ultimately show ?thesis by (simp add: y''_def)
qed

lemma system_bag:
  assumes "system_step y y'" and "sn_distinct (y_inbox y)"
  shows "bag_step (bag_of y) (bag_of y') \<and> sn_distinct (y_inbox y')"
  using assms
proof (cases rule: system_step.cases)
  case (Send s)
  then show ?thesis using assms(2) bag_step.Issue_save [of _ "bag_of y"]
    by (simp add: send_bag) (simp add: send_snapshot_def reserve_def new_caller_def Let_def)
next
  case (Send_persist s)
  then show ?thesis using assms(2) bag_step.Issue_save [of _ "bag_of y"]
    by (simp add: send_bag) (simp add: send_persist_def reserve_def new_caller_def Let_def)
next
  case (Send_delete i)
  then show ?thesis using assms(2) bag_step.Issue_remove [of _ "bag_of y"]
    by (simp add: send_bag) (simp add: send_delete_def reserve_def new_caller_def Let_def)
next
  case (Ask_latest i)
  then have "bag_of y' = bag_of y" by (simp add: new_caller_def bag_of_def)
  then show ?thesis using Ask_latest assms(2) bag_step.Nothing by (simp add: new_caller_def)
next
  case (Caller before c cs after todo y1)
  then show ?thesis using caller_bag assms(2) by fastforce
next
  case Close
  then have "bag_of y' = bag_of y" by (simp add: bag_of_def)
  then show ?thesis using Close assms(2) bag_step.Nothing by simp
next
  case (Take op ops)
  then have "bag_of y' = bag_of y" by (simp add: bag_of_def)
  then show ?thesis using Take assms(2) bag_step.Nothing by simp
next
  case Retry
  then have "bag_of y' = bag_of y" by (simp add: bag_of_def)
  then show ?thesis using Retry assms(2) bag_step.Nothing by simp
next
  case End
  then have "bag_of y' = bag_of y" by (simp add: bag_of_def)
  then show ?thesis using End assms(2) bag_step.Nothing by simp
next
  case (Writer a agenda env todo y1)
  then show ?thesis using writer_bag assms(2) by fastforce
qed

end
