(* ===== verification/Writer_Invariant.thy ===== *)
theory Writer_Invariant
  imports Writer_Commands
begin

text \<open>
  The invariant of the storage writer: every command under way is new to the writer or stopped by a barrier,
  and commands have generations of their own. What follows for a session that is deleted.
\<close>

section \<open>Commands of the writer\<close>

lemma persist_snapshot_flush:
  assumes "persist_snapshot env g s w disk = (r, w', disk')"
  obtains target failed where "flush_target env target (fst (stage_snapshot (new_pending_snapshot g s) w)) disk = (failed, w', disk')"
  using assms by (auto simp: persist_snapshot_def Let_def split: prod.splits option.splits if_splits)

lemma delete_session_cases:
  assumes "delete_session env i g w disk = (r, w', disk')"
  obtains (Newer) v where "w_durable_versions w i = Some v" "delete_generation i g w < v_generation v" "w' = mark_deleted i g w" "disk' = disk"
    | (Gone) left where "\<And>v. w_durable_versions w i = Some v \<Longrightarrow> v_generation v \<le> delete_generation i g w"
        "w' = forget_session i left (requeue i (mark_deleted i g w))" "disk' = disk(i := left)"
        "r = Inr () \<or> disk i = None \<Longrightarrow> left = None" "r = Inr () \<Longrightarrow> sn_get i (w_latest_snapshots w') = None"
    | (Flush) target failed where "\<And>v. w_durable_versions w i = Some v \<Longrightarrow> v_generation v \<le> delete_generation i g w"
        "flush_target env target (forget_session i None (requeue i (mark_deleted i g w))) (disk(i := None)) = (failed, w', disk')"
        "sn_get i (w_latest_snapshots (mark_deleted i g w)) \<noteq> None"
proof -
  define w1 where "w1 = mark_deleted i g w"
  obtain res left where left: "delete_file env (disk i) = (res, left)" by fastforce
  have gone: "res = Inr () \<or> res = Inl NotFound \<or> disk i = None \<Longrightarrow> left = None" using left by (auto simp: delete_file_def split: if_splits)
  have w2: "(case sn_get i (w_latest_snapshots w1) of None \<Rightarrow> w1 | Some sn \<Rightarrow> queue_pending_snapshot sn w1) = requeue i w1"
    by (simp add: requeue_def)
  note d = assms [unfolded delete_session_def Let_def, folded w1_def, unfolded left prod.case w2]
  show ?thesis
  proof (cases "\<exists>v. w_durable_versions w i = Some v \<and> delete_generation i g w < v_generation v")
    case True
    then show ?thesis using d Newer by (auto simp: w1_def)
  next
    case False
    then have le: "\<And>v. w_durable_versions w i = Some v \<Longrightarrow> v_generation v \<le> delete_generation i g w" by force
    have d': "(if res \<noteq> Inr () \<and> res \<noteq> Inl NotFound then (res, forget_session i left (requeue i w1), disk(i := left))
        else case sn_get i (w_latest_snapshots w1) of None \<Rightarrow> (Inr (), forget_session i left (requeue i w1), disk(i := left))
          | Some sn \<Rightarrow> (case flush_target env (Some (i, sn_version sn)) (forget_session i left (requeue i w1)) (disk(i := left)) of
               (failed, w4, disk'') \<Rightarrow> (case map_of failed i of None \<Rightarrow> (Inr (), w4, disk'')
                 | Some failure \<Rightarrow> (Inl (case fl_error failure of Some e \<Rightarrow> e | None \<Rightarrow> StorageFailed), w4, disk'')))) = (r, w', disk')"
      using d False by (auto simp: w1_def split: option.splits)
    show ?thesis
    proof (cases "(res \<noteq> Inr () \<and> res \<noteq> Inl NotFound) \<or> sn_get i (w_latest_snapshots w1) = None")
      case True
      then show ?thesis using d' gone Gone [OF le] by (auto simp: w1_def split: if_splits)
    next
      case False
      then show ?thesis using d' gone Flush [OF le]
        by (auto simp: w1_def split: if_splits prod.splits option.splits)
    qed
  qed
qed

lemma delete_writer_ok:
  assumes "delete_session env i g w disk = (r, w', disk')" and ok: "writer_ok w"
  shows "writer_ok w'"
  using assms(1)
proof (cases rule: delete_session_cases)
  case (Newer v)
  then show ?thesis using mark_deleted_newer [OF ok] by blast
next
  case (Gone left)
  then show ?thesis using deleted_writer_ok [OF ok] by blast
next
  case (Flush target failed)
  then show ?thesis using flush_writer_ok deleted_writer_ok [OF ok] by blast
qed

lemma requeue_known: "known j (requeue i w) \<subseteq> known j w"
  by (auto simp: known_def requeue_def queue_pending_snapshot_def Let_def split: option.splits if_splits dest: sn_get_id)

lemma forget_known: "known j (forget_session i left w) \<subseteq> known j w"
  by (cases "j = i") (auto simp: known_def split: if_splits)

lemma deleted_known: "writer_ok w \<Longrightarrow> known j (forget_session i left (requeue i (mark_deleted i g w))) \<subseteq> known j w"
  using forget_known requeue_known mark_deleted_known by fast

lemma delete_known:
  assumes "delete_session env i g w disk = (r, w', disk')" and ok: "writer_ok w"
  shows "known j w' \<subseteq> insert 0 (known j w)"
  using assms(1)
proof (cases rule: delete_session_cases)
  case (Newer v)
  then show ?thesis using mark_deleted_known [OF ok] by blast
next
  case (Gone left)
  then show ?thesis using deleted_known [OF ok] by blast
next
  case (Flush target failed)
  then show ?thesis using flush_known [OF Flush(2) deleted_writer_ok [OF ok Flush(1)]] deleted_known [OF ok] by blast
qed

lemma delete_barriers:
  assumes "delete_session env i g w disk = (r, w', disk')"
  shows "w_delete_generations w' = w_delete_generations (mark_deleted i g w)" "w_latest_generations w' = w_latest_generations (mark_deleted i g w)"
  using assms by (cases rule: delete_session_cases; simp add: flush_target_frame)+

lemma mark_latest:
  "w_latest_generations (mark_deleted i g w) = (if at_least (w_latest_generations w i) g then w_latest_generations w else (w_latest_generations w)(i \<mapsto> g))"
  by (simp add: mark_deleted_def Let_def)

definition blocked :: "session_id \<Rightarrow> nat \<Rightarrow> ('m, 'u, 't, 'x) writer_state \<Rightarrow> bool" where
  "blocked i g w \<longleftrightarrow> at_least (w_latest_generations w i) g \<or> at_least (w_delete_generations w i) g"

lemma refused_blocked: "refused sn w = blocked (sn_id sn) (sn_generation sn) w"
  by (simp add: refused_def blocked_def)

lemma at_least_mono: "at_least b g \<Longrightarrow> h \<le> g \<Longrightarrow> at_least b h"
  by (auto simp: at_least_def split: option.splits)

lemma at_least_simps [simp]: "at_least (Some l) g = (g \<le> l)" "\<not> at_least None g"
  by (simp_all add: at_least_def)

lemma delete_blocked:
  assumes "delete_session env i g w disk = (r, w', disk')"
  shows "blocked j h w \<Longrightarrow> blocked j h w'" "h \<le> g \<Longrightarrow> at_least (w_delete_generations w' i) h"
  using delete_barriers [OF assms] unfolding blocked_def
  by (auto simp: mark_latest delete_generation_def at_least_def split: option.splits)

lemma collect_blocked:
  assumes "h \<in> y_outstanding y j"
  shows "at_least (w_latest_generations w j) h \<Longrightarrow> at_least (w_latest_generations (collect_barriers i y w) j) h"
    "at_least (w_delete_generations w j) h \<Longrightarrow> at_least (w_delete_generations (collect_barriers i y w) j) h"
  using assms by (auto simp: collect_barriers_def Let_def at_least_def has_outstanding_through_def split: option.splits)

lemma collect_fewer:
  "at_least (w_latest_generations (collect_barriers i y w) j) h \<Longrightarrow> at_least (w_latest_generations w j) h"
  "at_least (w_delete_generations (collect_barriers i y w) j) h \<Longrightarrow> at_least (w_delete_generations w j) h"
  by (auto simp: collect_barriers_def Let_def at_least_def split: option.splits if_splits)

lemma collect_blocked_by: "blocked j h (collect_barriers i y w) \<Longrightarrow> blocked j h w"
  using collect_fewer by (fastforce simp: blocked_def)

lemma collect_fields [simp]:
  "w_pending (collect_barriers i y w) = w_pending w" "w_latest_snapshots (collect_barriers i y w) = w_latest_snapshots w"
  "w_durable_versions (collect_barriers i y w) = w_durable_versions w" "w_retries (collect_barriers i y w) = w_retries w"
  by (simp_all add: collect_barriers_def Let_def)

lemma collect_same [simp]:
  "known j (collect_barriers i y w) = known j w" "known_through j g (collect_barriers i y w) = known_through j g w" "writer_ok (collect_barriers i y w) = writer_ok w"
  by (simp_all add: known_def known_through_def writer_ok_def session_defs)

lemma delete_blocks:
  assumes "delete_session env i g w disk = (r, w', disk')"
  shows "blocked j h w' \<Longrightarrow> blocked j h w \<or> h \<le> g"
  using delete_barriers [OF assms] unfolding blocked_def
  by (auto simp: mark_latest delete_generation_def at_least_def split: option.splits if_splits)

lemma stage_blocked_by: "blocked j h (fst (stage_snapshot sn w)) \<Longrightarrow> blocked j h w \<or> h \<le> sn_generation sn"
  by (auto simp: stage_snapshot_def queue_pending_snapshot_def blocked_def Let_def at_least_def split: option.splits if_splits)

lemma stage_blocked: "blocked j h w \<Longrightarrow> blocked j h (fst (stage_snapshot sn w))"
  by (auto simp: stage_snapshot_def queue_pending_snapshot_def blocked_def Let_def at_least_def split: option.splits)

lemma stage_blocks: "h \<le> sn_generation sn \<Longrightarrow> blocked (sn_id sn) h (fst (stage_snapshot sn w))"
  by (auto simp: stage_snapshot_def queue_pending_snapshot_def blocked_def Let_def intro: at_least_mono split: option.splits)

lemma flush_blocked: "flush_target env target w disk = (failed, w', disk') \<Longrightarrow> blocked j h w' = blocked j h w"
  using flush_target_frame by (fastforce simp: blocked_def)

section \<open>The invariant of the bag\<close>

text \<open>A command is new to the writer, or a barrier stands in its way.\<close>

definition in_order :: "session_id \<Rightarrow> nat \<Rightarrow> ('m, 'u, 't, 'x) writer_state \<Rightarrow> bool" where
  "in_order i g w \<longleftrightarrow> blocked i g w \<or> (\<forall>h \<in> known i w. h < g)"

abbreviation command_keys :: "('m, 'u, 't, 'x) bag \<Rightarrow> (session_id \<times> nat) multiset" where
  "command_keys b \<equiv> image_mset command_key (b_commands b)"

definition bag_inv :: "('m, 'u, 't, 'x) bag \<Rightarrow> bool" where
  "bag_inv b \<longleftrightarrow>
     writer_ok (b_writer b) \<and> (\<forall>k. count (command_keys b) k \<le> 1)
     \<and> (\<forall>i g. (i, g) \<in># command_keys b \<longrightarrow> g \<in> b_outstanding b i \<and> 0 < g \<and> g \<le> b_next b \<and> in_order i g (b_writer b))
     \<and> (\<forall>i. \<forall>h \<in> known i (b_writer b). h \<le> b_next b) \<and> (\<forall>i g. blocked i g (b_writer b) \<longrightarrow> g \<le> b_next b)
     \<and> (\<forall>(i, g, r) \<in> b_replies b. g \<le> b_next b)"

lemma stage_in_order: "in_order i g w \<Longrightarrow> in_order i g (fst (stage_snapshot sn w))"
  using stage_blocked [of i g w sn] stage_blocks [of g sn w] stage_known [of i sn w]
  by (cases "i = sn_id sn"; cases "g \<le> sn_generation sn") (auto simp: in_order_def split: if_splits)

lemma flush_in_order:
  "flush_target env target w disk = (failed, w', disk') \<Longrightarrow> writer_ok w \<Longrightarrow> 0 < g \<Longrightarrow> in_order i g w \<Longrightarrow> in_order i g w'"
  using flush_known flush_blocked unfolding in_order_def by blast

lemma delete_in_order:
  "delete_session env j d w disk = (r, w', disk') \<Longrightarrow> writer_ok w \<Longrightarrow> 0 < g \<Longrightarrow> in_order i g w \<Longrightarrow> in_order i g w'"
  using delete_known delete_blocked(1) unfolding in_order_def by blast

lemma collect_in_order: "g \<in> y_outstanding y i \<Longrightarrow> in_order i g w \<Longrightarrow> in_order i g (collect_barriers j y w)"
  using collect_blocked by (fastforce simp: in_order_def blocked_def)

lemma stage_ok: "writer_ok w \<Longrightarrow> in_order (sn_id sn) (sn_generation sn) w \<Longrightarrow> writer_ok (fst (stage_snapshot sn w))"
  by (rule stage_writer_ok) (auto simp: in_order_def refused_blocked)

lemma bag_inv_writer:
  assumes "bag_inv b" and "writer_ok w" and "\<And>i g. (i, g) \<in># command_keys b \<Longrightarrow> in_order i g (b_writer b) \<Longrightarrow> in_order i g w"
    and "\<And>i. \<forall>h \<in> known i w. h \<le> b_next b" and "\<And>i g. blocked i g w \<Longrightarrow> blocked i g (b_writer b) \<or> g \<le> b_next b" and "image_mset command_key cs = command_keys b"
    and "\<And>i g r. (i, g, r) \<in> replies \<Longrightarrow> (i, g, r) \<in> b_replies b \<or> g \<le> b_next b"
  shows "bag_inv (b\<lparr>b_commands := cs, b_writer := w, b_disk := disk, b_replies := replies\<rparr>)"
  using assms unfolding bag_inv_def by simp blast

lemma bag_inv_key:
  assumes "bag_inv b" and "b_commands b = add_mset c rest" and "command_key c = (i, g)"
  shows "g \<in> b_outstanding b i" "0 < g" "g \<le> b_next b" "in_order i g (b_writer b)" "(i, g) \<notin># image_mset command_key rest"
proof -
  have k: "command_keys b = add_mset (i, g) (image_mset command_key rest)" using assms(2,3) by simp
  then show "g \<in> b_outstanding b i" "0 < g" "g \<le> b_next b" "in_order i g (b_writer b)" using assms(1) by (auto simp: bag_inv_def)
  have "count (command_keys b) (i, g) \<le> 1" using assms(1) by (simp add: bag_inv_def)
  then show "(i, g) \<notin># image_mset command_key rest" unfolding k by (metis One_nat_def Suc_le_mono count_add_mset le_zero_eq not_in_iff)
qed

lemma bag_inv_issue:
  assumes inv: "bag_inv b" and "command_key c = (i, b_next b + 1)"
  shows "bag_inv (issue c b)"
proof -
  have "count (command_keys b) (i, b_next b + 1) = 0"
  proof (rule ccontr)
    assume "count (command_keys b) (i, b_next b + 1) \<noteq> 0"
    then have "(i, b_next b + 1) \<in># command_keys b" by (simp only: count_eq_zero_iff not_not)
    then have "b_next b + 1 \<le> b_next b" using inv unfolding bag_inv_def by blast
    then show False by simp
  qed
  moreover have "in_order i (b_next b + 1) (b_writer b)" using inv by (auto simp: bag_inv_def in_order_def le_imp_less_Suc)
  moreover have "\<And>j h. (j, h) \<in># command_keys b \<Longrightarrow> h \<in> b_outstanding b j \<and> 0 < h \<and> h \<le> b_next b \<and> in_order j h (b_writer b)"
    using inv unfolding bag_inv_def by blast
  ultimately show ?thesis
    using inv assms(2) unfolding bag_inv_def issue_def Let_def
    by (auto simp: le_Suc_eq)
qed

lemma bag_inv_step:
  assumes "bag_step b b'" and inv: "bag_inv b"
  shows "bag_inv b'"
  using assms(1)
proof (cases rule: bag_step.cases)
  case (Issue_save sn)
  then show ?thesis using bag_inv_issue [OF inv] by simp
next
  case (Issue_remove g i)
  then show ?thesis using bag_inv_issue [OF inv] by simp
next
  case (Supersede old new rest)
  then show ?thesis using inv by (simp add: bag_inv_def)
next
  case (Completed i g rest)
  have "(i, g) \<notin># image_mset command_key rest" using bag_inv_key(5) [OF inv Completed(2)] by simp
  moreover have "count (command_keys b) k \<le> 1" for k using inv unfolding bag_inv_def by blast
  then have "count (image_mset command_key rest) k \<le> 1" for k
    by (rule le_trans [rotated, where i = "count (image_mset command_key rest) k" and j = "count (command_keys b) k"]) (simp add: Completed(2))
  ultimately show ?thesis using inv Completed by (auto simp: bag_inv_def)
next
  case (Staged sn rest)
  note own = bag_inv_key [OF inv Staged(2), of "sn_id sn" "sn_generation sn"]
  have "bag_inv (b\<lparr>b_commands := add_mset (Over (sn_id sn) (sn_generation sn)) rest, b_writer := fst (stage_snapshot sn (b_writer b)),
      b_disk := b_disk b, b_replies := b_replies b\<rparr>)"
  proof (rule bag_inv_writer [OF inv])
    show "writer_ok (fst (stage_snapshot sn (b_writer b)))" using inv own by (simp add: stage_ok bag_inv_def)
    show "\<forall>h \<in> known i (fst (stage_snapshot sn (b_writer b))). h \<le> b_next b" for i
      using inv own stage_known [of i sn "b_writer b"] by (auto simp: bag_inv_def split: if_splits)
    show "blocked i g (b_writer b) \<or> g \<le> b_next b" if "blocked i g (fst (stage_snapshot sn (b_writer b)))" for i g
      using stage_blocked_by [OF that] own by auto
  qed (use Staged in \<open>auto simp: stage_in_order\<close>)
  then show ?thesis using Staged by simp
next
  case (Collected y i)
  then show ?thesis using inv by (auto simp: bag_inv_def collect_in_order dest: collect_blocked_by)
next
  case (Flushed env target failed w disk)
  have ok: "writer_ok (b_writer b)" using inv by (simp add: bag_inv_def)
  have "bag_inv (b\<lparr>b_commands := b_commands b, b_writer := w, b_disk := disk, b_replies := b_replies b\<rparr>)"
  proof (rule bag_inv_writer [OF inv])
    show "writer_ok w" using flush_writer_ok [OF Flushed(2) ok] .
    show "in_order i g w" if "(i, g) \<in># command_keys b" "in_order i g (b_writer b)" for i g
      using flush_in_order [OF Flushed(2) ok] that inv unfolding bag_inv_def by blast
    show "\<forall>h \<in> known i w. h \<le> b_next b" for i using inv flush_known [OF Flushed(2) ok, of i] by (auto simp: bag_inv_def)
  qed (auto simp: flush_blocked [OF Flushed(2)])
  then show ?thesis using Flushed by simp
next
  case (Persisted g s rest env r w disk)
  define w1 where "w1 = fst (stage_snapshot (new_pending_snapshot g s) (b_writer b))"
  note own = bag_inv_key [OF inv Persisted(2), of "se_id s" g, simplified]
  obtain target failed where fl: "flush_target env target w1 (b_disk b) = (failed, w, disk)"
    using persist_snapshot_flush [OF Persisted(3)] by (metis w1_def)
  have ok: "writer_ok w1" using inv own stage_ok [of "b_writer b" "new_pending_snapshot g s"] by (simp add: w1_def bag_inv_def)
  have known1: "\<forall>h \<in> known i w1. h \<le> b_next b" for i
    using inv own stage_known [of i "new_pending_snapshot g s" "b_writer b"] by (auto simp: w1_def bag_inv_def split: if_splits)
  have "bag_inv (b\<lparr>b_commands := add_mset (Over (se_id s) g) rest, b_writer := w, b_disk := disk,
      b_replies := insert (se_id s, g, r) (b_replies b)\<rparr>)"
  proof (rule bag_inv_writer [OF inv])
    show "writer_ok w" using flush_writer_ok [OF fl ok] .
    show "in_order i h w" if "(i, h) \<in># command_keys b" "in_order i h (b_writer b)" for i h
    proof (rule flush_in_order [OF fl ok])
      show "0 < h" using that inv unfolding bag_inv_def by blast
      show "in_order i h w1" unfolding w1_def by (rule stage_in_order) fact
    qed
    show "\<forall>h \<in> known i w. h \<le> b_next b" for i using known1 [of i] flush_known [OF fl ok, of i] by blast
    show "blocked i h (b_writer b) \<or> h \<le> b_next b" if "blocked i h w" for i h
      using that own stage_blocked_by [of i h "new_pending_snapshot g s" "b_writer b"] by (auto simp: flush_blocked [OF fl] w1_def)
  qed (use Persisted own in auto)
  then show ?thesis using Persisted by simp
next
  case (Removed i g rest env r w disk)
  note own = bag_inv_key [OF inv Removed(2), of i g, simplified]
  have ok: "writer_ok (b_writer b)" using inv by (simp add: bag_inv_def)
  have "bag_inv (b\<lparr>b_commands := add_mset (Over i g) rest, b_writer := w, b_disk := disk, b_replies := insert (i, g, r) (b_replies b)\<rparr>)"
  proof (rule bag_inv_writer [OF inv])
    show "writer_ok w" using delete_writer_ok [OF Removed(3) ok] .
    show "in_order j h w" if "(j, h) \<in># command_keys b" "in_order j h (b_writer b)" for j h
      using delete_in_order [OF Removed(3) ok] that inv unfolding bag_inv_def by blast
    show "\<forall>h \<in> known j w. h \<le> b_next b" for j using inv delete_known [OF Removed(3) ok, of j] by (auto simp: bag_inv_def)
    show "blocked j h (b_writer b) \<or> h \<le> b_next b" if "blocked j h w" for j h using delete_blocks [OF Removed(3) that] own by auto
  qed (use Removed own in auto)
  then show ?thesis using Removed by simp
qed (use inv in auto)

definition sys_inv :: "('m, 'u, 't, 'x) writer_system \<Rightarrow> bool" where
  "sys_inv y \<longleftrightarrow> bag_inv (bag_of y) \<and> sn_distinct (y_inbox y)"

lemma sys_inv_fresh: "fresh_system y \<Longrightarrow> sys_inv y"
  by (auto simp: sys_inv_def bag_inv_def fresh_system_def bag_of_def new_writer_state_def writer_ok_def session_defs known_def blocked_def)

interpretation wr: invariant_system fresh_system system_step sys_inv
proof
  show "fresh_system y \<Longrightarrow> sys_inv y" for y :: "('a, 'b, 'c, 'd) writer_system" by (rule sys_inv_fresh)
  show "system_step y y' \<Longrightarrow> sys_inv y \<Longrightarrow> sys_inv y'" for y y' :: "('a, 'b, 'c, 'd) writer_system"
    using system_bag bag_inv_step by (auto simp: sys_inv_def)
qed

section \<open>Deletion\<close>

definition absent :: "session_id \<Rightarrow> ('m, 'u, 't, 'x) writer_state \<Rightarrow> session_disk \<Rightarrow> bool" where
  "absent i w disk \<longleftrightarrow> sn_get i (w_pending w) = None \<and> sn_get i (w_latest_snapshots w) = None \<and> w_durable_versions w i = None \<and> disk i = None"

lemma flush_absent:
  assumes "flush_target env target w disk = (failed, w', disk')" and "writer_ok w" and "absent i w disk"
  shows "absent i w' disk'"
  using flush_target_id [OF assms(1), of i] assms(2,3) by (auto simp: absent_def untouched_by_flush_def writer_ok_def)

lemma stage_absent:
  assumes "absent i w disk" and "sn_id sn = i \<Longrightarrow> at_least (w_delete_generations w i) (sn_generation sn)"
  shows "absent i (fst (stage_snapshot sn w)) disk"
  using assms by (cases "sn_id sn = i") (auto simp: absent_def stage_snapshot_other stage_snapshot_fields stage_refused refused_def)

lemma marked_absent:
  assumes "absent i w disk" and "writer_ok w"
  shows "absent i (requeue j (mark_deleted j g w)) disk"
  using assms by (cases "j = i") (auto simp: absent_def mark_deleted_get requeue_other, auto simp: requeue_def mark_deleted_get)

lemma forget_absent: "absent i w disk \<Longrightarrow> (j = i \<Longrightarrow> left = None) \<Longrightarrow> absent i (forget_session j left w) (disk(j := left))"
  by (cases "j = i") (auto simp: absent_def)

lemma delete_absent:
  assumes del: "delete_session env j g w disk = (r, w', disk')" and ok: "writer_ok w" and abs: "absent i w disk"
  shows "absent i w' disk'"
  using del
proof (cases rule: delete_session_cases)
  case (Newer v)
  then show ?thesis using abs ok by (auto simp: absent_def mark_deleted_get)
next
  case (Gone left)
  then show ?thesis using forget_absent [OF marked_absent [OF abs ok], of j left] abs by (auto simp: absent_def)
next
  case (Flush target failed)
  have "j \<noteq> i" using Flush(3) abs ok by (auto simp: absent_def mark_deleted_get)
  then show ?thesis
    using flush_absent [OF Flush(2) deleted_writer_ok [OF ok Flush(1)]] forget_absent [OF marked_absent [OF abs ok]] by auto
qed

text \<open>A deletion that reports success, and knows of nothing newer, leaves nothing.\<close>

lemma delete_leaves_nothing:
  assumes del: "delete_session env i d w disk = (Inr (), w', disk')" and ok: "writer_ok w" and old: "\<forall>h \<in> known i w. h \<le> d"
  shows "absent i w' disk'"
proof -
  have d: "d \<le> delete_generation i d w" by (auto simp: delete_generation_def split: option.split)
  have none: "sn_get i (w_pending (mark_deleted i d w)) = None" "sn_get i (w_latest_snapshots (mark_deleted i d w)) = None"
    using old d by (auto simp: mark_deleted_get [OF ok] known_def split: option.split)
  show ?thesis
    using del
  proof (cases rule: delete_session_cases)
    case (Newer v)
    then show ?thesis using old d by (auto simp: known_def)
  next
    case (Gone left)
    then show ?thesis using none by (simp add: absent_def requeue_def)
  next
    case (Flush target failed)
    then show ?thesis using none by simp
  qed
qed

text \<open>After the command \<open>d\<close> to delete session \<open>i\<close>, while no other command for it is issued.\<close>

definition deleting :: "session_id \<Rightarrow> nat \<Rightarrow> ('m, 'u, 't, 'x) bag \<Rightarrow> bool" where
  "deleting i d b \<longleftrightarrow>
     (\<forall>h. (i, h) \<in># command_keys b \<longrightarrow> h \<le> d) \<and> (\<forall>h \<in> known i (b_writer b). h \<le> d)
     \<and> (\<forall>sn. Save sn \<in># b_commands b \<longrightarrow> sn_id sn = i \<longrightarrow> sn_generation sn \<noteq> d)
     \<and> ((i, d, Inr ()) \<in> b_replies b \<longrightarrow> absent i (b_writer b) (b_disk b)
          \<and> (\<forall>h. (i, h) \<in># command_keys b \<longrightarrow> at_least (w_delete_generations (b_writer b) i) h))"

lemma deleting_issue:
  assumes "bag_inv b"
  shows "deleting i (b_next b + 1) (issue (Remove i (b_next b + 1)) b)"
proof -
  have "\<forall>j h. (j, h) \<in># command_keys b \<longrightarrow> h \<le> b_next b" "\<forall>h \<in> known i (b_writer b). h \<le> b_next b" "\<forall>(j, g, r) \<in> b_replies b. g \<le> b_next b"
    using assms unfolding bag_inv_def by blast+
  moreover have "Save sn \<in># b_commands b \<Longrightarrow> (sn_id sn, sn_generation sn) \<in># command_keys b" for sn
    by (metis command_key.simps(1) in_image_mset image_eqI)
  ultimately show ?thesis unfolding deleting_def issue_def Let_def by fastforce
qed

lemma issue_simps [simp]: "b_next (issue c b) = b_next b + 1" "b_commands (issue c b) = add_mset c (b_commands b)" "b_writer (issue c b) = b_writer b"
    "b_disk (issue c b) = b_disk b" "b_replies (issue c b) = b_replies b"
  by (simp_all add: issue_def Let_def)

lemma issue_inj: "issue c b = issue c' b \<Longrightarrow> c = c'"
  by (drule arg_cong [where f = b_commands]) simp

lemma deleting_step:
  assumes step: "bag_step b b'" and inv: "bag_inv b" and del: "deleting i d b"
    and calm: "b_next b' = b_next b \<or> (\<exists>c. b' = issue c b \<and> fst (command_key c) \<noteq> i)"
  shows "deleting i d b'"
  using step
proof (cases rule: bag_step.cases)
  case (Issue_save sn)
  then have "sn_id sn \<noteq> i" using calm by (auto dest: issue_inj)
  then show ?thesis using del Issue_save by (auto simp: deleting_def)
next
  case (Issue_remove g j)
  then have "j \<noteq> i" using calm by (auto dest: issue_inj)
  then show ?thesis using del Issue_remove by (auto simp: deleting_def)
next
  case (Supersede old new rest)
  then show ?thesis using del by (auto simp: deleting_def)
next
  case (Completed j g rest)
  then show ?thesis using del by (auto simp: deleting_def)
next
  case (Staged sn rest)
  have own: "sn_id sn = i \<Longrightarrow> sn_generation sn \<le> d" using del Staged(2) by (auto simp: deleting_def)
  have "absent i (fst (stage_snapshot sn (b_writer b))) (b_disk b)" if "(i, d, Inr ()) \<in> b_replies b"
    by (rule stage_absent) (use del that Staged(2) in \<open>auto simp: deleting_def\<close>)
  moreover have "\<forall>h \<in> known i (fst (stage_snapshot sn (b_writer b))). h \<le> d"
    using stage_known [of i sn "b_writer b"] del own by (auto simp: deleting_def split: if_splits)
  ultimately show ?thesis using del Staged by (auto simp: deleting_def stage_snapshot_fields)
next
  case (Collected y j)
  have "h \<in> y_outstanding y i" if "(i, h) \<in># command_keys b" for h using inv that unfolding bag_inv_def Collected by blast
  then show ?thesis using del Collected by (auto simp: deleting_def absent_def collect_blocked)
next
  case (Flushed env target failed w disk)
  have ok: "writer_ok (b_writer b)" using inv by (simp add: bag_inv_def)
  show ?thesis
    using del Flushed flush_absent [OF Flushed(2) ok, of i] flush_known [OF Flushed(2) ok, of i] flush_target_frame [OF Flushed(2)]
    by (auto simp: deleting_def)
next
  case (Persisted g s rest env r w disk)
  let ?w = "fst (stage_snapshot (new_pending_snapshot g s) (b_writer b))"
  obtain target failed where fl: "flush_target env target ?w (b_disk b) = (failed, w, disk)"
    using persist_snapshot_flush [OF Persisted(3)] by metis
  have ok: "writer_ok ?w"
    using inv bag_inv_key [OF inv Persisted(2), of "se_id s" g] by (simp add: stage_ok bag_inv_def)
  have own: "se_id s = i \<Longrightarrow> g < d" using del Persisted(2) by (fastforce simp: deleting_def)
  have "absent i ?w (b_disk b)" if "(i, d, Inr ()) \<in> b_replies b"
    by (rule stage_absent) (use del that Persisted(2) in \<open>auto simp: deleting_def\<close>)
  then have "absent i w disk" if "(i, d, Inr ()) \<in> b_replies b" using flush_absent [OF fl ok] that by blast
  moreover have "\<forall>h \<in> known i w. h \<le> d"
    using flush_known [OF fl ok, of i] stage_known [of i "new_pending_snapshot g s" "b_writer b"] del own
    by (fastforce simp: deleting_def split: if_splits)
  ultimately show ?thesis
    using del own Persisted flush_target_frame [OF fl] by (auto simp: deleting_def stage_snapshot_fields)
next
  case (Removed j g rest env r w disk)
  have ok: "writer_ok (b_writer b)" using inv by (simp add: bag_inv_def)
  have keys: "command_keys b' = command_keys b" using Removed by simp
  have le: "\<forall>h. (i, h) \<in># command_keys b \<longrightarrow> h \<le> d" using del by (simp add: deleting_def)
  have mono: "at_least (w_delete_generations (b_writer b) i) h \<Longrightarrow> at_least (w_delete_generations w i) h" for h
    using delete_barriers(1) [OF Removed(3)] by (auto simp: delete_generation_def at_least_def split: option.splits)
  have "absent i w disk \<and> (\<forall>h. (i, h) \<in># command_keys b \<longrightarrow> at_least (w_delete_generations w i) h)" if r: "(i, d, Inr ()) \<in> b_replies b'"
  proof (cases "(i, d, Inr ()) \<in> b_replies b")
    case True
    then show ?thesis using del delete_absent [OF Removed(3) ok] mono by (auto simp: deleting_def)
  next
    case False
    then have "j = i" "g = d" "r = Inr ()" using r Removed(1) by auto
    then show ?thesis
      using delete_leaves_nothing [of env i d "b_writer b" "b_disk b" w disk] delete_blocked(2) [OF Removed(3)] Removed(3) ok del le
      by (auto simp: deleting_def)
  qed
  moreover have "\<forall>h \<in> known i w. h \<le> d" using del delete_known [OF Removed(3) ok, of i] by (auto simp: deleting_def)
  ultimately show ?thesis using del keys le Removed unfolding deleting_def by auto
qed (use del in auto)

end
