(* ===== verification/Writer_Guarantees.thy ===== *)
theory Writer_Guarantees
  imports Writer_Invariant
begin

text \<open>
  What the storage writer promises to its callers: a deletion that was reported stands until another command
  for the session is issued, and a shutdown that reports nothing unpersisted has made every snapshot durable.
\<close>

section \<open>Steps that issue nothing for a session\<close>

definition calm_step :: "session_id \<Rightarrow> ('m, 'u, 't, 'x) writer_system \<Rightarrow> ('m, 'u, 't, 'x) writer_system \<Rightarrow> bool" where
  "calm_step i y y' \<longleftrightarrow> system_step y y' \<and> y' \<noteq> send_delete i y \<and> (\<forall>s. se_id s = i \<longrightarrow> y' \<noteq> send_snapshot s y \<and> y' \<noteq> send_persist s y)"

definition undeleted_step :: "session_id \<Rightarrow> ('m, 'u, 't, 'x) writer_system \<Rightarrow> ('m, 'u, 't, 'x) writer_system \<Rightarrow> bool" where
  "undeleted_step i y y' \<longleftrightarrow> system_step y y' \<and> y' \<noteq> send_delete i y"

lemma caller_step_next: "caller_step c y = (todo, y') \<Longrightarrow> y_next_generation y' = y_next_generation y"
  by (cases c) (auto simp: complete_command_def split: option.splits if_splits)

lemma writer_step_next: "writer_step env a y = (todo, y') \<Longrightarrow> y_next_generation y' = y_next_generation y"
  by (cases a) (auto simp: complete_command_def split: prod.splits)

lemma step_issues:
  assumes "system_step y y'"
  shows "y_next_generation y' = y_next_generation y \<or> (\<exists>s. y' = send_snapshot s y) \<or> (\<exists>s. y' = send_persist s y) \<or> (\<exists>i. y' = send_delete i y)"
  using assms by (cases rule: system_step.cases) (auto simp: new_caller_def dest: caller_step_next writer_step_next)

lemma calm_bag:
  assumes "calm_step i y y'"
  shows "b_next (bag_of y') = b_next (bag_of y) \<or> (\<exists>c. bag_of y' = issue c (bag_of y) \<and> fst (command_key c) \<noteq> i)"
  using assms step_issues [of y y'] unfolding calm_step_def by (fastforce simp: send_bag)

lemma undeleted_bag:
  assumes "undeleted_step i y y'"
  shows "b_next (bag_of y') = b_next (bag_of y) \<or> (\<exists>c. bag_of y' = issue c (bag_of y) \<and> (\<forall>h. c \<noteq> Remove i h))"
  using assms step_issues [of y y'] unfolding undeleted_step_def by (fastforce simp: send_bag)

section \<open>Deletion\<close>

lemma deleting_steps:
  assumes "(calm_step i)\<^sup>*\<^sup>* y z" and "sys_inv y" and "deleting i d (bag_of y)"
  shows "sys_inv z \<and> deleting i d (bag_of z)"
  using assms
proof (induction rule: rtranclp_induct)
  case (step y' z)
  have st: "system_step y' z" using step(2) by (simp add: calm_step_def)
  have inv: "sys_inv y'" "deleting i d (bag_of y')" using step by auto
  then have "bag_step (bag_of y') (bag_of z)" using system_bag [OF st] by (simp add: sys_inv_def)
  then show ?case using deleting_step [OF _ _ inv(2) calm_bag [OF step(2)]] wr.inv_step [OF st inv(1)] inv(1) by (simp add: sys_inv_def)
qed simp

lemma sent_inv: "sys_inv y \<Longrightarrow> y_open y \<Longrightarrow> sys_inv (send_snapshot s y) \<and> sys_inv (send_persist s y) \<and> sys_inv (send_delete i y)"
  using wr.inv_step system_step.Send system_step.Send_persist system_step.Send_delete by blast


section \<open>Shutdown\<close>

text \<open>The writer has not turned away command \<open>g\<close> of session \<open>i\<close>, unless it knows that snapshot or a later one.\<close>

definition receptive :: "session_id \<Rightarrow> nat \<Rightarrow> ('m, 'u, 't, 'x) writer_state \<Rightarrow> bool" where
  "receptive i g w \<longleftrightarrow> \<not> at_least (w_delete_generations w i) g \<and> (at_least (w_latest_generations w i) g \<longrightarrow> known_through i g w)"

lemma stage_known_through:
  assumes "in_order (sn_id sn) (sn_generation sn) w" and "known_through i g w"
  shows "known_through i g (fst (stage_snapshot sn w))"
proof (cases "sn_id sn = i \<and> \<not> refused sn w")
  case True
  then have "g < sn_generation sn" using assms by (force simp: in_order_def refused_blocked known_through_def known_def)
  then show ?thesis using True stage_accepted [of sn w] by (auto simp: known_through_def)
next
  case False
  then show ?thesis
    using assms(2) by (cases "sn_id sn = i") (auto simp: stage_refused known_through_def stage_snapshot_other stage_snapshot_fields)
qed

lemma stage_receptive:
  assumes "in_order (sn_id sn) (sn_generation sn) w" and "receptive i g w"
  shows "receptive i g (fst (stage_snapshot sn w))"
    "sn_id sn = i \<Longrightarrow> g \<le> sn_generation sn \<Longrightarrow> known_through i g (fst (stage_snapshot sn w))"
proof -
  show new: "known_through i g (fst (stage_snapshot sn w))" if "sn_id sn = i" "g \<le> sn_generation sn"
  proof (cases "refused sn w")
    case True
    then have "known_through i g w" using assms(2) that by (auto simp: refused_def receptive_def dest: at_least_mono)
    then show ?thesis using True by (simp add: stage_refused)
  next
    case False
    then show ?thesis using stage_accepted [of sn w] that by (auto simp: known_through_def)
  qed
  show "receptive i g (fst (stage_snapshot sn w))"
  proof (cases "sn_id sn = i \<and> \<not> refused sn w")
    case True
    then show ?thesis using assms(2) new stage_accepted [of sn w] by (auto simp: receptive_def stage_snapshot_fields)
  next
    case False
    then show ?thesis
      using assms(2) stage_known_through [OF assms(1), of i g]
      by (cases "sn_id sn = i") (auto simp: stage_refused receptive_def stage_snapshot_other stage_snapshot_fields)
  qed
qed

lemma flush_receptive:
  assumes "flush_target env target w disk = (failed, w', disk')" and "writer_ok w" and "receptive i g w"
  shows "receptive i g w'"
  using assms flush_target_frame [OF assms(1)] flush_known_through [OF assms(1,2)] by (auto simp: receptive_def)

lemma collect_receptive: "receptive i g w \<Longrightarrow> receptive i g (collect_barriers j y w)"
  using collect_fewer by (fastforce simp: receptive_def)

lemma delete_known_through:
  assumes del: "delete_session env j d w disk = (r, w', disk')" and ok: "writer_ok w" and kn: "known_through i g w"
    and older: "j = i \<Longrightarrow> delete_generation j d w < g"
  shows "known_through i g w'"
proof -
  have latest: "sn_get i (w_latest_snapshots (mark_deleted j d w)) = sn_get i (w_latest_snapshots w)"
    if "sn_get i (w_latest_snapshots w) = Some l" "g \<le> sn_generation l" for l
    using that older by (auto simp: mark_deleted_get [OF ok])
  have gone: "known_through i g (forget_session j left (requeue j (mark_deleted j d w)))"
    if "\<And>v. w_durable_versions w j = Some v \<Longrightarrow> v_generation v \<le> delete_generation j d w" for left
    using kn older that latest by (cases "j = i") (force simp: known_through_def)+
  show ?thesis
    using del
  proof (cases rule: delete_session_cases)
    case (Newer v)
    then show ?thesis using kn latest by (auto simp: known_through_def)
  next
    case (Gone left)
    then show ?thesis using gone by blast
  next
    case (Flush target failed)
    then show ?thesis using gone flush_known_through [OF Flush(2) deleted_writer_ok [OF ok Flush(1)]] by blast
  qed
qed

lemma delete_receptive:
  assumes del: "delete_session env j d w disk = (r, w', disk')" and ok: "writer_ok w" and wel: "receptive i g w" and older: "j = i \<Longrightarrow> d < g"
  shows "receptive i g w'" "known_through i g w \<Longrightarrow> known_through i g w'"
proof -
  have gen: "j = i \<Longrightarrow> delete_generation j d w < g"
    using older wel by (auto simp: delete_generation_def receptive_def at_least_def split: option.splits)
  then show kn: "known_through i g w \<Longrightarrow> known_through i g w'" using delete_known_through [OF del ok] by blast
  then show "receptive i g w'"
    using wel gen older unfolding receptive_def delete_barriers [OF del] by (auto simp: mark_latest)
qed

definition awaited :: "session_id \<Rightarrow> nat \<Rightarrow> ('m, 'u, 't, 'x) bag \<Rightarrow> bool" where
  "awaited i g b \<longleftrightarrow>
     (\<forall>h. Remove i h \<in># b_commands b \<longrightarrow> h < g) \<and> receptive i g (b_writer b)
     \<and> ((\<exists>sn. Save sn \<in># b_commands b \<and> sn_id sn = i \<and> g \<le> sn_generation sn) \<or> known_through i g (b_writer b))"

lemma awaited_issue:
  assumes "bag_inv b" and "command_key c = (i, b_next b + 1)" and "c = Save sn"
  shows "awaited i (b_next b + 1) (issue c b)"
proof -
  have "Remove i h \<in># b_commands b \<Longrightarrow> h \<le> b_next b" for h
    using assms(1) unfolding bag_inv_def by (metis command_key.simps(2) in_image_mset image_eqI)
  moreover have "\<not> blocked i (b_next b + 1) (b_writer b)" using assms(1) unfolding bag_inv_def by (metis Suc_eq_plus1 not_less_eq_eq order_refl)
  ultimately show ?thesis using assms(2,3) by (fastforce simp: awaited_def receptive_def blocked_def)
qed

lemma awaited_step:
  assumes step: "bag_step b b'" and inv: "bag_inv b" and aw: "awaited i g b"
    and kept: "b_next b' = b_next b \<or> (\<exists>c. b' = issue c b \<and> (\<forall>h. c \<noteq> Remove i h))"
  shows "awaited i g b'"
proof -
  have ok: "writer_ok (b_writer b)" and rec: "receptive i g (b_writer b)" using inv aw by (auto simp: bag_inv_def awaited_def)
  from step show ?thesis
  proof (cases rule: bag_step.cases)
    case (Issue_save sn)
    then show ?thesis using aw by (auto simp: awaited_def)
  next
    case (Issue_remove h j)
    then have "j \<noteq> i" using kept by (auto dest: issue_inj)
    then show ?thesis using aw Issue_remove by (auto simp: awaited_def)
  next
    case (Supersede old new rest)
    then show ?thesis using aw by (fastforce simp: awaited_def)
  next
    case (Completed j h rest)
    then show ?thesis using aw by (auto simp: awaited_def)
  next
    case (Staged sn rest)
    note own = bag_inv_key(4) [OF inv Staged(2) command_key.simps(1)]
    then show ?thesis
      using aw stage_receptive [OF own rec] stage_known_through [OF own, of i g] Staged by (auto simp: awaited_def)
  next
    case (Collected y j)
    then show ?thesis using aw by (auto simp: awaited_def collect_receptive)
  next
    case (Flushed env target failed w disk)
    then show ?thesis
      using aw flush_receptive [OF Flushed(2) ok rec] flush_known_through [OF Flushed(2) ok] by (auto simp: awaited_def)
  next
    case (Persisted h s rest env r w disk)
    let ?sn = "new_pending_snapshot h s"
    let ?w = "fst (stage_snapshot ?sn (b_writer b))"
    note own = bag_inv_key(4) [OF inv Persisted(2) command_key.simps(1)]
    obtain target failed where fl: "flush_target env target ?w (b_disk b) = (failed, w, disk)"
      using persist_snapshot_flush [OF Persisted(3)] by metis
    have ok1: "writer_ok ?w" using stage_ok [OF ok own] .
    have "known_through i g w" if "known_through i g (b_writer b) \<or> se_id s = i \<and> g \<le> h"
      using that flush_known_through [OF fl ok1] stage_receptive(2) [OF own rec] stage_known_through [OF own] by auto
    moreover have "receptive i g w" using flush_receptive [OF fl ok1 stage_receptive(1) [OF own rec]] .
    ultimately show ?thesis using aw Persisted unfolding awaited_def by auto
  next
    case (Removed j h rest env r w disk)
    have "j = i \<Longrightarrow> h < g" using aw Removed(2) by (auto simp: awaited_def)
    note del = delete_receptive [OF Removed(3) ok rec this]
    then show ?thesis using aw Removed by (auto simp: awaited_def)
  qed (use aw in auto)
qed

lemma awaited_steps:
  assumes "(undeleted_step i)\<^sup>*\<^sup>* y z" and "sys_inv y" and "awaited i g (bag_of y)"
  shows "sys_inv z \<and> awaited i g (bag_of z)"
  using assms
proof (induction rule: rtranclp_induct)
  case (step y' z)
  have st: "system_step y' z" using step(2) by (simp add: undeleted_step_def)
  have inv: "sys_inv y'" "awaited i g (bag_of y')" using step by auto
  then have "bag_step (bag_of y') (bag_of z)" using system_bag [OF st] by (simp add: sys_inv_def)
  then show ?case using awaited_step [OF _ _ inv(2) undeleted_bag [OF step(2)]] wr.inv_step [OF st inv(1)] inv(1) by (simp add: sys_inv_def)
qed simp

text \<open>The writer finishes last: no caller is at work, no operation waits, and the inbox is emptied before.\<close>

definition shutdown_inv :: "('m, 'u, 't, 'x) writer_system \<Rightarrow> bool" where
  "shutdown_inv y \<longleftrightarrow>
     (\<not> y_open y \<longrightarrow> (\<forall>c \<in> set (y_callers y). c = []))
     \<and> (Finish \<in> set (y_agenda y) \<longrightarrow> \<not> y_open y \<and> y_ops y = []
          \<and> (\<exists>acts. y_agenda y = acts @ [Finish] \<and> Finish \<notin> set acts \<and> (y_inbox y = [] \<or> acts = [TakeInbox])))
     \<and> (y_done y \<noteq> None \<longrightarrow> \<not> y_open y \<and> y_ops y = [] \<and> y_agenda y = [] \<and> y_inbox y = [])
     \<and> (y_done y = Some 0 \<longrightarrow> (\<forall>i. sn_get i (w_pending (y_writer y)) = None \<and> exhausted_for i (y_writer y) = None))"

lemma writer_step_frame:
  assumes "writer_step env a y = (todo, y')"
  shows "y_open y' = y_open y" "y_ops y' = y_ops y" "y_callers y' = y_callers y" "Finish \<notin> set todo" "y_inbox y' = y_inbox y \<or> y_inbox y' = []"
    "a = TakeInbox \<Longrightarrow> y_inbox y' = []" "a \<noteq> Finish \<Longrightarrow> y_done y' = y_done y" "a = Finish \<Longrightarrow> todo = []"
  using assms by (cases a; auto simp: complete_command_def split: prod.splits)+

lemma nothing_unpersisted:
  assumes "flush_target env target w disk = (failed, w', disk')" and "sn_distinct (w_pending w)" and "unpersisted_count failed (w_retries w') = 0"
  shows "sn_get i (w_pending w') = None \<and> exhausted_for i w' = None"
proof -
  have "failed = []" "rs_exhausted (w_retries w') = []"
    using assms(3) by (auto simp: unpersisted_count_def filter_empty_conv split: prod.splits) (metis list.set_intros(1) neq_Nil_conv surj_pair)
  then show ?thesis
    using flush_target_id [OF assms(1,2), of i] by (auto simp: untouched_by_flush_def flush_persists_def split: option.splits)
qed

lemma shutdown_step:
  assumes step: "system_step y y'" and inv: "shutdown_inv y" and sys: "sys_inv y"
  shows "shutdown_inv y'"
  using step
proof (cases rule: system_step.cases)
  case (Caller before c cs after todo y1)
  have op: "y_open y" using inv Caller(2) by (auto simp: shutdown_inv_def)
  have "y_open y1 = y_open y" "y_agenda y1 = y_agenda y" "y_done y1 = y_done y" "y_writer y1 = y_writer y"
    using Caller(3) by (cases c; auto simp: complete_command_def split: option.splits if_splits)+
  then show ?thesis using inv op Caller(1) by (auto simp: shutdown_inv_def)
next
  case (Take op ops)
  then have "Finish \<notin> set (agenda_for op)" by (cases op) auto
  then show ?thesis using Take inv by (auto simp: shutdown_inv_def)
next
  case (Writer a agenda env todo y1)
  note frame = writer_step_frame [OF Writer(3)]
  have undone: "y_done y = None" using inv Writer(2) by (auto simp: shutdown_inv_def)
  show ?thesis
  proof (cases "a = Finish")
    case True
    obtain failed w disk where fl: "flush_target env None (y_writer y) (y_disk y) = (failed, w, disk)" by (metis prod_cases3)
    have y1: "todo = []" "y1 = y\<lparr>y_writer := w, y_disk := disk, y_done := Some (unpersisted_count failed (w_retries w))\<rparr>"
      using Writer(3) True fl by auto
    have "\<not> y_open y" "y_ops y = []" "agenda = []" "y_inbox y = []"
      using inv Writer(2) True by (auto simp: shutdown_inv_def Cons_eq_append_conv)
    moreover have "unpersisted_count failed (w_retries w) = 0 \<Longrightarrow> sn_get i (w_pending w) = None \<and> exhausted_for i w = None" for i
      using nothing_unpersisted [OF fl] sys by (simp add: sys_inv_def bag_inv_def writer_ok_def)
    ultimately show ?thesis using inv Writer(1) y1 by (auto simp: shutdown_inv_def)
  next
    case False
    have "\<exists>acts. todo @ agenda = acts @ [Finish] \<and> Finish \<notin> set acts \<and> y_inbox y1 = []" if fin: "Finish \<in> set agenda"
    proof -
      obtain acts where acts: "a # agenda = acts @ [Finish]" "Finish \<notin> set acts" "y_inbox y = [] \<or> acts = [TakeInbox]"
        using inv Writer(2) fin by (auto simp: shutdown_inv_def)
      then have "agenda = tl acts @ [Finish]" "acts \<noteq> []" using False by (auto simp: Cons_eq_append_conv)
      then have "todo @ agenda = (todo @ tl acts) @ [Finish]" "Finish \<notin> set (todo @ tl acts)" "y_inbox y1 = []"
        using acts frame by (auto simp: Cons_eq_append_conv dest: list.set_sel(2))
      then show ?thesis by blast
    qed
    then show ?thesis using inv Writer(1,2) frame False undone by (auto simp: shutdown_inv_def)
  qed
qed (use inv in \<open>auto simp: shutdown_inv_def send_snapshot_def send_persist_def send_delete_def reserve_def new_caller_def Let_def\<close>)

interpretation wd: invariant_system fresh_system system_step "\<lambda>y. sys_inv y \<and> shutdown_inv y"
proof
  show "fresh_system y \<Longrightarrow> sys_inv y \<and> shutdown_inv y" for y :: "('a, 'b, 'c, 'd) writer_system"
    using sys_inv_fresh by (auto simp: shutdown_inv_def fresh_system_def)
  show "system_step y y' \<Longrightarrow> sys_inv y \<and> shutdown_inv y \<Longrightarrow> sys_inv y' \<and> shutdown_inv y'" for y y' :: "('a, 'b, 'c, 'd) writer_system"
    using shutdown_step wr.inv_step by blast
qed

lemma done_commands:
  assumes "shutdown_inv y" and "y_done y \<noteq> None"
  shows "b_commands (bag_of y) = {#}"
proof -
  have "concat (y_callers y) = []" "y_ops y = []" "y_agenda y = []" "y_inbox y = []" using assms by (auto simp: shutdown_inv_def)
  then show ?thesis unfolding bag_of_def by (simp del: concat_eq_Nil_conv)
qed

lemma undeleted_steps: "(undeleted_step i)\<^sup>*\<^sup>* y z \<Longrightarrow> system_step\<^sup>*\<^sup>* y z"
  by (induction rule: rtranclp_induct) (auto simp: undeleted_step_def intro: rtranclp.rtrancl_into_rtrancl)

lemma durable_when_settled:
  assumes "known_through i g w" and "writer_ok w" and "sn_get i (w_pending w) = None" and "exhausted_for i w = None"
  shows "\<exists>v. w_durable_versions w i = Some v
    \<and> (g \<le> v_generation v \<or> (\<exists>l \<in> set (w_latest_snapshots w). sn_id l = i \<and> g \<le> sn_generation l \<and> sn_revision l \<le> v_revision v))"
  using assms(1) unfolding known_through_def
proof (elim disjE exE conjE)
  fix l assume l: "sn_get i (w_latest_snapshots w) = Some l" "g \<le> sn_generation l"
  have "latest_ok i w" using assms(2) by (simp add: writer_ok_def)
  then obtain v where "w_durable_versions w i = Some v" "sn_revision l \<le> v_revision v"
    using l assms(3,4) by (auto simp: latest_ok_def covered_def)
  then show ?thesis using l sn_get_id [OF l(1)] sn_get_mem [OF l(1)] by auto
qed auto

lemma sent_awaited:
  assumes "fresh_system y0" and "system_step\<^sup>*\<^sup>* y0 y" and "y_open y" and "y1 = send_snapshot s y \<or> y1 = send_persist s y"
    and "(undeleted_step (se_id s))\<^sup>*\<^sup>* y1 z"
  shows "awaited (se_id s) (y_next_generation y + 1) (bag_of z)" "sys_inv z" "shutdown_inv z"
proof -
  have inv: "sys_inv y" using wr.inv_reachable assms(1,2) .
  have st: "system_step y y1" using assms(3,4) system_step.Send system_step.Send_persist by blast
  have "awaited (se_id s) (y_next_generation y + 1) (bag_of y1)"
    using assms(4) awaited_issue [of "bag_of y" _ "se_id s"] inv by (auto simp: send_bag sys_inv_def)
  then show "awaited (se_id s) (y_next_generation y + 1) (bag_of z)"
    using awaited_steps [OF assms(5) wr.inv_step [OF st inv]] by simp
  have "system_step\<^sup>*\<^sup>* y0 z" using assms(2) st undeleted_steps [OF assms(5)] by (meson rtranclp.rtrancl_into_rtrancl rtranclp_trans)
  then show "sys_inv z" "shutdown_inv z" using wd.inv_reachable [OF assms(1)] by auto
qed


lemma persist_ok_settled:
  assumes p: "persist_snapshot env g s w disk = (Inr (), w', disk')" and ok: "writer_ok (fst (stage_snapshot (new_pending_snapshot g s) w))"
  shows "sn_get (se_id s) (w_pending w') = None \<and> exhausted_for (se_id s) w' = None"
proof -
  define w1 where "w1 = fst (stage_snapshot (new_pending_snapshot g s) w)"
  define target where "target = map_option sn_version (sn_get (se_id s) (w_pending w1))"
  have st: "stage_snapshot (new_pending_snapshot g s) w = (w1, target)" by (simp add: w1_def target_def stage_snapshot_def Let_def)
  obtain failed w2 disk2 where fl: "flush_target env (map_option (\<lambda>version. (se_id s, version)) target) w1 disk = (failed, w2, disk2)" by (metis prod_cases3)
  have w2: "w2 = w'" "exhausted_for (se_id s) w' = None" "\<not> (\<exists>v failure. target = Some v \<and> map_of failed (se_id s) = Some failure \<and> fl_version failure = v)"
    using p unfolding persist_snapshot_def st fl by (auto simp: fl split: option.splits if_splits)
  moreover have "sn_distinct (w_pending w1)" using ok by (simp add: writer_ok_def w1_def)
  ultimately show ?thesis
    using flush_target_id [OF fl, of "se_id s"]
    by (auto simp: target_def untouched_by_flush_def flush_persists_def split: option.splits)
qed


section \<open>The writer ends\<close>

fun action_weight :: "('m, 'u, 't, 'x) writer_action \<Rightarrow> nat" where
  "action_weight (Stage sn) = 3"
| "action_weight FlushIfIdle = 2"
| "action_weight (PersistNow g s) = 4"
| "action_weight (DeleteNow i g) = 4"
| "action_weight _ = 1"

definition work_left :: "('m, 'u, 't, 'x) writer_system \<Rightarrow> nat" where
  "work_left y = sum_list (map action_weight (y_agenda y)) + sum_list (map (\<lambda>op. 1 + sum_list (map action_weight (agenda_for op))) (y_ops y))
     + 3 * length (y_inbox y) + (if y_done y = None \<and> Finish \<notin> set (y_agenda y) then 3 else 0)"

lemma weigh_stages [simp]: "sum_list (map (action_weight \<circ> Stage) sns) = 3 * length sns"
  by (induction sns) auto

lemma closed_step:
  assumes step: "system_step y y'" and inv: "shutdown_inv y" and closed: "\<not> y_open y"
  shows "work_left y' < work_left y \<and> \<not> y_open y'"
  using step
proof (cases rule: system_step.cases)
  case (Caller before c cs after todo y1)
  then show ?thesis using inv closed by (auto simp: shutdown_inv_def)
next
  case (Take op ops)
  then have "Finish \<notin> set (agenda_for op)" by (cases op) auto
  then show ?thesis using Take closed by (simp add: work_left_def)
next
  case (Writer a agenda env todo y1)
  have undone: "y_done y = None" using inv Writer(2) by (auto simp: shutdown_inv_def)
  note frame = writer_step_frame [OF Writer(3)]
  have weight: "sum_list (map action_weight todo) + 3 * length (y_inbox y1) < action_weight a + 3 * length (y_inbox y)"
    using Writer(3) by (cases a) (auto simp: complete_command_def split: prod.splits)
  show ?thesis
  proof (cases "a = Finish")
    case True
    then have "y_done y1 \<noteq> None" using Writer(3) by (auto split: prod.splits)
    then show ?thesis using Writer(1,2) weight frame closed True by (auto simp: work_left_def)
  next
    case False
    then show ?thesis using Writer(1,2) weight frame closed undone by (auto simp: work_left_def)
  qed
qed (use closed in \<open>auto simp: work_left_def\<close>)

lemma closed_steps:
  assumes "system_step\<^sup>*\<^sup>* y z" and "sys_inv y \<and> shutdown_inv y" and "\<not> y_open y"
  shows "\<not> y_open z"
  using assms
proof (induction rule: rtranclp_induct)
  case (step z z')
  then have "shutdown_inv z" using wd.inv_steps by blast
  then show ?case using step closed_step by blast
qed simp

lemma closed_not_stuck:
  assumes "\<not> y_open z" and "y_done z = None"
  shows "\<exists>z'. system_step z z'"
proof (cases "y_agenda z")
  case Nil
  then show ?thesis using assms system_step.Take [of z] system_step.End [of z] by (cases "y_ops z") blast+
next
  case (Cons a agenda)
  then show ?thesis using system_step.Writer [of z a agenda] by (metis prod.exhaust)
qed

text \<open>C37. Shutdown ends: once the writer is closed, no run of it goes on for ever, whatever the disk does, and
a run that cannot go on has finished and reported how many sessions are unpersisted.\<close>

theorem shutdown_ends:
  assumes "fresh_system y0" and "system_step\<^sup>*\<^sup>* y0 y" and "\<not> y_open y"
  shows "\<not> (\<exists>f. f 0 = y \<and> (\<forall>n. system_step (f n) (f (Suc n)))) \<and> (\<forall>z. system_step\<^sup>*\<^sup>* y z \<longrightarrow> (\<exists>z'. system_step z z') \<or> y_done z \<noteq> None)"
proof (intro conjI notI allI impI; (elim exE conjE)?)
  have inv: "sys_inv y \<and> shutdown_inv y" using wd.inv_reachable assms(1,2) .
  fix f assume f: "f 0 = y" "\<forall>n. system_step (f n) (f (Suc n))"
  have reach: "system_step\<^sup>*\<^sup>* y (f n)" for n
    by (induction n) (auto simp: f intro: rtranclp.rtrancl_into_rtrancl)
  have "work_left (f (Suc n)) < work_left (f n)" for n
    using closed_step f(2) wd.inv_steps [OF reach inv] closed_steps [OF reach inv assms(3)] by blast
  then show False using infinite_descent_measure [of "\<lambda>_. False" "\<lambda>n. work_left (f n)"] by blast
next
  have inv: "sys_inv y \<and> shutdown_inv y" using wd.inv_reachable assms(1,2) .
  fix z assume "system_step\<^sup>*\<^sup>* y z"
  then show "(\<exists>z'. system_step z z') \<or> y_done z \<noteq> None" using closed_not_stuck closed_steps [OF _ inv assms(3)] by blast
qed

section \<open>Runs of the system\<close>

text \<open>A turn of the caller with this index, or of the writer.\<close>

definition caller_turn :: "nat \<Rightarrow> ('m, 'u, 't, 'x) writer_system \<Rightarrow> ('m, 'u, 't, 'x) writer_system option" where
  "caller_turn n y =
     (case drop n (y_callers y) of
        (c # cs) # after \<Rightarrow> (case caller_step c y of (todo, y') \<Rightarrow> Some (y'\<lparr>y_callers := take n (y_callers y) @ (todo @ cs) # after\<rparr>))
      | _ \<Rightarrow> None)"

definition writer_turn :: "('m, 'u, 't, 'x) disk_env \<Rightarrow> ('m, 'u, 't, 'x) writer_system \<Rightarrow> ('m, 'u, 't, 'x) writer_system option" where
  "writer_turn env y =
     (case y_agenda y of
        a # agenda \<Rightarrow> (case writer_step env a y of (todo, y') \<Rightarrow> Some (y'\<lparr>y_agenda := todo @ agenda\<rparr>))
      | [] \<Rightarrow> if y_done y \<noteq> None then None
              else (case y_ops y of
                      op # ops \<Rightarrow> Some (y\<lparr>y_ops := ops, y_agenda := agenda_for op\<rparr>)
                    | [] \<Rightarrow> if y_open y then None else Some (y\<lparr>y_agenda := [TakeInbox, Finish]\<rparr>)))"

fun turns :: "('m, 'u, 't, 'x) disk_env \<Rightarrow> nat option list \<Rightarrow> ('m, 'u, 't, 'x) writer_system \<Rightarrow> ('m, 'u, 't, 'x) writer_system option" where
  "turns env [] y = Some y"
| "turns env (t # ts) y =
     (case (case t of Some n \<Rightarrow> caller_turn n y | None \<Rightarrow> writer_turn env y) of None \<Rightarrow> None | Some y' \<Rightarrow> turns env ts y')"

lemma caller_turn_step:
  assumes "caller_turn n y = Some y'"
  shows "system_step y y'" "y_next_generation y' = y_next_generation y"
proof -
  obtain c cs after todo y1 where y: "drop n (y_callers y) = (c # cs) # after" "caller_step c y = (todo, y1)"
      "y' = y1\<lparr>y_callers := take n (y_callers y) @ (todo @ cs) # after\<rparr>"
    using assms by (auto simp: caller_turn_def split: list.splits prod.splits)
  then have "y_callers y = take n (y_callers y) @ (c # cs) # after" by (metis append_take_drop_id)
  then show "system_step y y'" using system_step.Caller y(2,3) by blast
  show "y_next_generation y' = y_next_generation y" using y caller_step_next by auto
qed

lemma writer_turn_step:
  assumes "writer_turn env y = Some y'"
  shows "system_step y y'" "y_next_generation y' = y_next_generation y"
  using assms system_step.Take [of y] system_step.End [of y] system_step.Writer [of y]
  by (auto simp: writer_turn_def split: list.splits prod.splits if_splits dest: writer_step_next)

lemma quiet_steps:
  assumes "system_step y y'" and "y_next_generation y' = y_next_generation y"
  shows "calm_step i y y'" "undeleted_step i y y'"
  using assms
  by (auto simp: calm_step_def undeleted_step_def send_snapshot_def send_persist_def send_delete_def reserve_def new_caller_def Let_def)

lemma turns_steps:
  assumes "turns env ts y = Some z"
  shows "(calm_step i)\<^sup>*\<^sup>* y z \<and> (undeleted_step i)\<^sup>*\<^sup>* y z"
  using assms
proof (induction ts arbitrary: y)
  case (Cons t ts)
  then obtain y' where y': "(case t of Some n \<Rightarrow> caller_turn n y | None \<Rightarrow> writer_turn env y) = Some y'" "turns env ts y' = Some z"
    by (auto split: option.splits)
  have "system_step y y'" "y_next_generation y' = y_next_generation y"
    using y'(1) caller_turn_step writer_turn_step by (auto split: option.splits)
  then show ?case using Cons.IH [OF y'(2)] quiet_steps [of y y' i] by (meson converse_rtranclp_into_rtranclp)
qed simp

definition ex_env :: "(unit, unit, unit, unit) disk_env" where
  "ex_env = \<lparr>de_codec = ex_codec, de_parts = \<lparr>pd_out = (\<lambda>_. None), pd_sub = (\<lambda>_. None)\<rparr>, de_limits = ex_limits, de_open_io = (\<lambda>_. ex_io), de_write_io = (\<lambda>_. ex_io),
     de_subdir_ok = True, de_delete_ok = True, de_cleanup_ok = True\<rparr>"

definition ex_system :: "session_disk \<Rightarrow> (unit, unit, unit, unit) writer_system" where
  "ex_system disk = \<lparr>y_next_generation = 0, y_outstanding = (\<lambda>_. {}), y_inbox = [], y_wake_queued = False, y_ops = [], y_callers = [],
     y_open = True, y_agenda = [], y_writer = new_writer_state, y_disk = disk, y_replies = [], y_latest = [], y_done = None\<rparr>"

lemma ex_system_fresh: "fresh_system (ex_system disk)"
  by (simp add: fresh_system_def ex_system_def)

text \<open>A snapshot is sent, the session is deleted, and only then the snapshot reaches the inbox.\<close>

definition ex_late :: "(unit, unit, unit, unit) writer_system option" where
  "ex_late = turns ex_env ([Some 1] @ replicate 6 None @ [Some 0, Some 0] @ replicate 7 None)
     (send_delete ''s'' (send_snapshot ex_session (ex_system [''s'' \<mapsto> ex_file])))"

lemma ex_late_deleted: "case ex_late of Some z \<Rightarrow> (''s'', 2, Inr ()) \<in> set (y_replies z) \<and> y_agenda z = [] \<and> y_ops z = [] | None \<Rightarrow> False"
  by code_simp


text \<open>A snapshot is sent and written, the writer is closed and ends.\<close>

definition ex_written :: "(unit, unit, unit, unit) writer_system option" where
  "ex_written = turns ex_env ([Some 0, Some 0] @ replicate 7 None) (send_snapshot ex_session (ex_system Map.empty))"

definition ex_ended :: "(unit, unit, unit, unit) writer_system option" where
  "ex_ended = Option.bind ex_written (\<lambda>y. turns ex_env (replicate 3 None) (y\<lparr>y_open := False\<rparr>))"

lemma ex_written_idle: "case ex_written of Some y \<Rightarrow> y_open y \<and> list_all (\<lambda>c. c = []) (y_callers y) | None \<Rightarrow> False"
  by code_simp

lemma ex_ended_done: "case ex_ended of Some z \<Rightarrow> y_done z = Some 0 \<and> y_disk z ''s'' = Some ex_file | None \<Rightarrow> False"
  by code_simp

lemma ex_system_start:
  "y_open (ex_system disk)" "y_next_generation (ex_system disk) = 0" "se_id ex_session = ''s''"
  by (simp_all add: ex_system_def ex_session_def)


definition ex_persisting :: "(unit, unit, unit, unit) writer_system option" where
  "ex_persisting = turns ex_env [Some 0, None, None] (send_persist ex_session (ex_system Map.empty))"

lemma ex_persisting_ok:
  "case ex_persisting of Some z \<Rightarrow> y_agenda z = [PersistNow 1 ex_session] \<and> fst (persist_snapshot ex_env 1 ex_session (y_writer z) (y_disk z)) = Inr ()
   | None \<Rightarrow> False"
  by code_simp


theorem shutdown_ends_witness:
  "\<not> (\<exists>f. f 0 = (ex_system [''s'' \<mapsto> ex_file])\<lparr>y_open := False\<rparr> \<and> (\<forall>n. system_step (f n) (f (Suc n))))"
proof -
  have "system_step (ex_system [''s'' \<mapsto> ex_file]) ((ex_system [''s'' \<mapsto> ex_file])\<lparr>y_open := False\<rparr>)"
    by (rule system_step.Close) (simp_all add: ex_system_def)
  then show ?thesis using shutdown_ends [OF ex_system_fresh r_into_rtranclp] by fastforce
qed

end
