(* ===== verification/Utf8_Lossy.thy ===== *)
theory Utf8_Lossy
  imports N00n_Prelude
begin

text \<open>
  \<open>String::from_utf8_lossy\<close>: the length of the well-formed character a text starts with, or the number of
  bytes that are inspected before the sequence turns out to be malformed. Each malformed sequence becomes
  the replacement character.
\<close>

definition continuation :: "char \<Rightarrow> bool" where
  "continuation c \<longleftrightarrow> 128 \<le> byte c \<and> byte c \<le> 191"

definition second_of_three :: "char \<Rightarrow> char \<Rightarrow> bool" where
  "second_of_three a b \<longleftrightarrow>
     (if byte a = 224 then 160 \<le> byte b \<and> byte b \<le> 191
      else if byte a = 237 then 128 \<le> byte b \<and> byte b \<le> 159
      else continuation b)"

definition second_of_four :: "char \<Rightarrow> char \<Rightarrow> bool" where
  "second_of_four a b \<longleftrightarrow>
     (if byte a = 240 then 144 \<le> byte b \<and> byte b \<le> 191
      else if byte a = 244 then 128 \<le> byte b \<and> byte b \<le> 143
      else continuation b)"

definition char_width :: "char \<Rightarrow> nat" where
  "char_width c =
     (if byte c < 128 then 1 else if 194 \<le> byte c \<and> byte c \<le> 223 then 2
      else if 224 \<le> byte c \<and> byte c \<le> 239 then 3 else if 240 \<le> byte c \<and> byte c \<le> 244 then 4 else 0)"

text \<open>\<open>Inr n\<close>: a character of \<open>n\<close> bytes; \<open>Inl n\<close>: \<open>n\<close> malformed bytes. The first byte is \<open>a\<close>.\<close>

fun first_chunk :: "char \<Rightarrow> str \<Rightarrow> nat + nat" where
  "first_chunk a rest =
     (let at = (\<lambda>i P. i < length rest \<and> P (rest ! i))
      in if char_width a = 1 then Inr 1
         else if char_width a = 2 then (if at 0 continuation then Inr 2 else Inl 1)
         else if char_width a = 3 then
           (if \<not> at 0 (second_of_three a) then Inl 1 else if \<not> at 1 continuation then Inl 2 else Inr 3)
         else if char_width a = 4 then
           (if \<not> at 0 (second_of_four a) then Inl 1 else if \<not> at 1 continuation then Inl 2
            else if \<not> at 2 continuation then Inl 3 else Inr 4)
         else Inl 1)"

definition REPLACEMENT :: str where
  "REPLACEMENT = [char_of (239 :: nat), char_of (191 :: nat), char_of (189 :: nat)]"

lemma first_chunk_pos: "first_chunk a rest = Inl n \<or> first_chunk a rest = Inr n \<Longrightarrow> 0 < n"
  by (auto simp: Let_def split: if_splits)

declare first_chunk.simps [simp del]

function from_utf8_lossy :: "str \<Rightarrow> str" where
  "from_utf8_lossy [] = []"
| "from_utf8_lossy (a # rest) =
     (case first_chunk a rest of
        Inr n \<Rightarrow> take n (a # rest) @ from_utf8_lossy (drop n (a # rest))
      | Inl n \<Rightarrow> REPLACEMENT @ from_utf8_lossy (drop n (a # rest)))"
  by pat_completeness auto
termination
proof (relation "measure length")
  show "(drop n (a # rest), a # rest) \<in> measure length" if "first_chunk a rest = Inr n" for a rest n
    using first_chunk_pos [of a rest n] that by simp
  show "(drop n (a # rest), a # rest) \<in> measure length" if "first_chunk a rest = Inl n" for a rest n
    using first_chunk_pos [of a rest n] that by simp
qed simp

lemma from_utf8_lossy_ascii: "list_all (\<lambda>c. byte c < 128) s \<Longrightarrow> from_utf8_lossy s = s"
  by (induction s) (simp_all add: first_chunk.simps char_width_def Let_def)

end
