(* ===== verification/Git_Conflicts.thy ===== *)
theory Git_Conflicts
  imports Utf8_Lossy
begin

text \<open>
  The scan of a worktree for conflict markers and for comments that announce unfinished work
  (\<open>crates/n00n-git/src/conflicts.rs\<close>). A file is its bytes; the walk over the directory by \<open>gix\<close> is the list
  of its entries, and \<open>lower\<close> stands for the Unicode tables behind \<open>str::to_lowercase\<close>.
\<close>

section \<open>Options and findings\<close>

definition DEFAULT_MAX_HUNK_LINES :: usize where "DEFAULT_MAX_HUNK_LINES = 8"
definition DEFAULT_MAX_FILE_BYTES :: usize where "DEFAULT_MAX_FILE_BYTES = 1048576"
definition CONFLICT_MARKER_MIN_LEN :: usize where "CONFLICT_MARKER_MIN_LEN = 7"

datatype finding_kind = KConflict | KTodo | KFixme | KHack | KPlaceholder

definition finding_kind_from_str :: "(str \<Rightarrow> str) \<Rightarrow> str \<Rightarrow> str + finding_kind" where
  "finding_kind_from_str lower s =
     (let l = lower s
      in if l = ''conflict'' then Inr KConflict else if l = ''todo'' then Inr KTodo else if l = ''fixme'' then Inr KFixme
         else if l = ''hack'' then Inr KHack else if l = ''placeholder'' then Inr KPlaceholder
         else Inl (''unknown finding kind: '' @ s))"

datatype output_mode = OutCompact | OutFull | OutBoth

definition output_mode_from_str :: "(str \<Rightarrow> str) \<Rightarrow> str \<Rightarrow> str + output_mode" where
  "output_mode_from_str lower s =
     (let l = lower s
      in if l = ''compact'' then Inr OutCompact else if l = ''full'' then Inr OutFull else if l = ''both'' then Inr OutBoth
         else Inl (''unknown output mode: '' @ s))"

record conflicts_options =
  co_kinds :: "finding_kind list"
  co_output :: output_mode
  co_max_hunk_lines :: usize
  co_max_file_bytes :: usize
  co_include_untracked :: bool
  co_include_ignored :: bool

definition default_conflicts_options :: conflicts_options where
  "default_conflicts_options =
     \<lparr>co_kinds = [KConflict, KTodo, KFixme, KHack, KPlaceholder], co_output = OutBoth, co_max_hunk_lines = DEFAULT_MAX_HUNK_LINES,
      co_max_file_bytes = DEFAULT_MAX_FILE_BYTES, co_include_untracked = True, co_include_ignored = False\<rparr>"

record conflict_hunk =
  ch_start_line :: u32
  ch_end_line :: u32
  ch_ours_label :: "str option"
  ch_base_label :: "str option"
  ch_theirs_label :: "str option"
  ch_ours :: "str list option"
  ch_base :: "str list option"
  ch_theirs :: "str list option"

record conflict_finding =
  cf_kind :: str
  cf_line :: u32
  cf_message :: str
  cf_content :: "str option"
  cf_hunk :: "conflict_hunk option"

record conflict_file =
  cfile_path :: str
  cfile_findings :: "conflict_finding list"
  cfile_truncated :: "bool option"

section \<open>Markers\<close>

datatype marker_kind = MStart | MBase | MSeparator | MEnd

definition marker_of :: "char \<Rightarrow> marker_kind option" where
  "marker_of c =
     (if c = CHR ''<'' then Some MStart else if c = CHR ''|'' then Some MBase
      else if c = CHR ''='' then Some MSeparator else if c = CHR ''>'' then Some MEnd else None)"

definition marker_label :: "str \<Rightarrow> str option" where
  "marker_label rest =
     (case rest of
        [] \<Rightarrow> None
      | c # cs \<Rightarrow> if c = CHR '' '' then Some cs else if take 2 rest = '': '' then Some (drop 2 rest) else None)"

definition parse_marker :: "str \<Rightarrow> (marker_kind \<times> str option) option" where
  "parse_marker line =
     (case line of
        [] \<Rightarrow> None
      | c # _ \<Rightarrow>
          (case marker_of c of
             None \<Rightarrow> None
           | Some marker \<Rightarrow>
               let count = length (takeWhile (\<lambda>b. b = c) line)
               in if count < CONFLICT_MARKER_MIN_LEN then None else Some (marker, marker_label (drop count line))))"

section \<open>The parser\<close>

datatype parse_state = Neutral | InOurs | InBase | InTheirs

record marker_parser =
  mp_state :: parse_state
  mp_start_line :: u32
  mp_ours_label :: "str option"
  mp_base_label :: "str option"
  mp_theirs_label :: "str option"
  mp_ours :: "str list"
  mp_base :: "str list"
  mp_theirs :: "str list"

definition new_parser :: marker_parser where
  "new_parser = \<lparr>mp_state = Neutral, mp_start_line = 0, mp_ours_label = None, mp_base_label = None, mp_theirs_label = None,
     mp_ours = [], mp_base = [], mp_theirs = []\<rparr>"

definition reset_parser :: "marker_parser \<Rightarrow> marker_parser" where
  "reset_parser p = p\<lparr>mp_state := Neutral, mp_start_line := 0, mp_ours_label := None, mp_base_label := None,
     mp_theirs_label := None, mp_ours := [], mp_base := [], mp_theirs := []\<rparr>"

definition hunk_sides :: "conflicts_options \<Rightarrow> marker_parser \<Rightarrow> str list option \<times> str list option \<times> str list option" where
  "hunk_sides opt p =
     (let sides = (Some (mp_ours p), Some (mp_base p), Some (mp_theirs p))
      in case co_output opt of
           OutFull \<Rightarrow> sides
         | OutCompact \<Rightarrow> (None, None, None)
         | OutBoth \<Rightarrow> if length (mp_ours p) + length (mp_base p) + length (mp_theirs p) \<le> co_max_hunk_lines opt
             then sides else (None, None, None))"

definition build_finding :: "conflicts_options \<Rightarrow> u32 \<Rightarrow> str option \<Rightarrow> marker_parser \<Rightarrow> conflict_finding option" where
  "build_finding opt end_line label p =
     (if KConflict \<notin> set (co_kinds opt) then None
      else let (ours, base, theirs) = hunk_sides opt p
           in Some \<lparr>cf_kind = ''conflict'', cf_line = mp_start_line p,
                    cf_message = ''conflict marker at line '' @ show_nat (unat (mp_start_line p)), cf_content = None,
                    cf_hunk = Some \<lparr>ch_start_line = mp_start_line p, ch_end_line = end_line, ch_ours_label = mp_ours_label p,
                      ch_base_label = mp_base_label p,
                      ch_theirs_label = (case map_option from_utf8_lossy label of None \<Rightarrow> mp_theirs_label p | Some l \<Rightarrow> Some l),
                      ch_ours = ours, ch_base = base, ch_theirs = theirs\<rparr>\<rparr>)"

definition push_line :: "str \<Rightarrow> marker_parser \<Rightarrow> marker_parser" where
  "push_line line p =
     (case mp_state p of
        InOurs \<Rightarrow> p\<lparr>mp_ours := mp_ours p @ [from_utf8_lossy line]\<rparr>
      | InBase \<Rightarrow> p\<lparr>mp_base := mp_base p @ [from_utf8_lossy line]\<rparr>
      | InTheirs \<Rightarrow> p\<lparr>mp_theirs := mp_theirs p @ [from_utf8_lossy line]\<rparr>
      | Neutral \<Rightarrow> p)"

definition process_line ::
  "conflicts_options \<Rightarrow> u32 \<Rightarrow> str \<Rightarrow> marker_parser \<Rightarrow> marker_parser \<times> conflict_finding option" where
  "process_line opt line_no line p =
     (case parse_marker line of
        Some (marker, label) \<Rightarrow>
          (case (marker, mp_state p) of
             (MStart, Neutral) \<Rightarrow>
               (p\<lparr>mp_state := InOurs, mp_start_line := line_no, mp_ours_label := map_option from_utf8_lossy label\<rparr>, None)
           | (MStart, _) \<Rightarrow>
               (p\<lparr>mp_state := InOurs, mp_start_line := line_no, mp_ours_label := map_option from_utf8_lossy label,
                  mp_base_label := None, mp_theirs_label := None, mp_ours := [], mp_base := [], mp_theirs := []\<rparr>,
                build_finding opt line_no None p)
           | (MBase, InOurs) \<Rightarrow> (p\<lparr>mp_state := InBase, mp_base_label := map_option from_utf8_lossy label\<rparr>, None)
           | (MSeparator, InOurs) \<Rightarrow> (p\<lparr>mp_state := InTheirs\<rparr>, None)
           | (MSeparator, InBase) \<Rightarrow> (p\<lparr>mp_state := InTheirs\<rparr>, None)
           | (MEnd, InTheirs) \<Rightarrow> (reset_parser p, build_finding opt line_no label p)
           | _ \<Rightarrow> (reset_parser p, None))
      | None \<Rightarrow> (push_line line p, None))"

definition u32_of_usize :: "usize \<Rightarrow> u32" where
  "u32_of_usize n = (if n < 2 ^ 32 then of_nat n else - 1)"

definition saturating_add_u32 :: "u32 \<Rightarrow> u32 \<Rightarrow> u32" where
  "saturating_add_u32 a b = (if unat a + unat b < 2 ^ 32 then a + b else - 1)"

definition length_estimate :: "marker_parser \<Rightarrow> u32" where
  "length_estimate p = u32_of_usize (length (mp_ours p) + length (mp_base p) + length (mp_theirs p))"

definition finish_parser :: "conflicts_options \<Rightarrow> marker_parser \<Rightarrow> conflict_finding option" where
  "finish_parser opt p =
     (if mp_state p \<noteq> Neutral then build_finding opt (saturating_add_u32 (mp_start_line p) (length_estimate p)) None p else None)"

section \<open>Comments\<close>

definition PLACEHOLDER_PATTERNS :: "str list" where
  "PLACEHOLDER_PATTERNS = [''for now'', ''in a real'', ''an actual'', ''in production'', ''we should'', ''not implemented'',
     ''placeholder'', ''stub'', ''temporary'', ''workaround'', ''fix this later'', ''remove this'', ''incomplete'',
     ''to be implemented'', ''tbd'', ''only for'', ''not final'']"

fun contains_str :: "str \<Rightarrow> str \<Rightarrow> bool" where
  "contains_str pat [] = (pat = [])"
| "contains_str pat (c # s) = (starts_with (c # s) pat \<or> contains_str pat s)"

definition trim_leading_whitespace :: "str \<Rightarrow> str" where
  "trim_leading_whitespace line = dropWhile (\<lambda>c. c = CHR '' '' \<or> c = CHR 0x09) line"

definition is_comment_line :: "str \<Rightarrow> bool" where
  "is_comment_line line =
     (let trimmed = trim_leading_whitespace line
      in starts_with trimmed ''//''
         \<or> starts_with trimmed ''#'' \<and> \<not> starts_with trimmed ''#{'' \<and> \<not> starts_with trimmed ''#[''
         \<or> starts_with trimmed ''-- '' \<or> starts_with trimmed ''--[''
         \<or> starts_with trimmed ''/*'' \<or> starts_with trimmed ''*/'' \<or> starts_with trimmed ''* ''
         \<or> starts_with trimmed ''<!--'' \<or> starts_with trimmed ''REM '' \<or> starts_with trimmed ''rem '')"

definition detect_smell_kind :: "str \<Rightarrow> conflicts_options \<Rightarrow> finding_kind option" where
  "detect_smell_kind low opt =
     (if KTodo \<in> set (co_kinds opt) \<and> contains_str ''todo'' low then Some KTodo
      else if KFixme \<in> set (co_kinds opt) \<and> contains_str ''fixme'' low then Some KFixme
      else if KHack \<in> set (co_kinds opt) \<and> contains_str ''hack'' low then Some KHack
      else if KPlaceholder \<in> set (co_kinds opt) \<and> list_ex (\<lambda>pat. contains_str pat low) PLACEHOLDER_PATTERNS then Some KPlaceholder
      else None)"

fun smell_texts :: "finding_kind \<Rightarrow> (str \<times> str) option" where
  "smell_texts KTodo = Some (''todo'', ''TODO comment'')"
| "smell_texts KFixme = Some (''fixme'', ''FIXME comment'')"
| "smell_texts KHack = Some (''hack'', ''HACK comment'')"
| "smell_texts KPlaceholder = Some (''placeholder'', ''placeholder comment'')"
| "smell_texts KConflict = None"

definition detect_smell :: "(str \<Rightarrow> str) \<Rightarrow> u32 \<Rightarrow> str \<Rightarrow> conflicts_options \<Rightarrow> conflict_finding option" where
  "detect_smell lower line_no line opt =
     (if \<not> is_comment_line line then None
      else (case detect_smell_kind (lower (from_utf8_lossy line)) opt of
              None \<Rightarrow> None
            | Some kind \<Rightarrow>
                (case smell_texts kind of
                   None \<Rightarrow> None
                 | Some (name, message) \<Rightarrow>
                     Some \<lparr>cf_kind = name, cf_line = line_no, cf_message = message,
                           cf_content = (if co_output opt = OutCompact then None else Some (from_utf8_lossy line)),
                           cf_hunk = None\<rparr>)))"

section \<open>A file\<close>

definition trim_newline :: "str \<Rightarrow> str" where
  "trim_newline buf =
     (if buf \<noteq> [] \<and> last buf = CHR 0x0A
      then (if butlast buf \<noteq> [] \<and> last (butlast buf) = CHR 0x0D then butlast (butlast buf) else butlast buf)
      else buf)"

definition is_binary :: "str \<Rightarrow> bool" where
  "is_binary line = list_ex (\<lambda>c. byte c = 0) line"

text \<open>\<open>read_until\<close> up to and including a newline.\<close>

fun read_until_newline :: "str \<Rightarrow> str" where
  "read_until_newline [] = []"
| "read_until_newline (c # s) = (if c = CHR 0x0A then [c] else c # read_until_newline s)"

lemma read_shorter:
  "read_until_newline (take n bytes) \<noteq> [] \<Longrightarrow> length bytes - length (read_until_newline (take n bytes)) < length bytes"
  by (cases bytes) auto

record scan =
  sc_parser :: marker_parser
  sc_findings :: "conflict_finding list"
  sc_line_no :: u32
  sc_bytes_read :: usize
  sc_truncated :: bool

datatype git_error = GitOperation str | BareRepo

definition push_findings :: "conflict_finding option \<Rightarrow> conflict_finding list \<Rightarrow> conflict_finding list" where
  "push_findings f fs = (case f of None \<Rightarrow> fs | Some x \<Rightarrow> fs @ [x])"

text \<open>
  The loop over the lines; \<open>fails n\<close> says that the read at offset \<open>n\<close> fails. Every round that goes on has read at
  least one byte.
\<close>

function scan_lines ::
  "(str \<Rightarrow> str) \<Rightarrow> conflicts_options \<Rightarrow> (usize \<Rightarrow> bool) \<Rightarrow> str \<Rightarrow> scan \<Rightarrow> git_error + scan" where
  "scan_lines lower opt fails bytes s =
     (let remaining = co_max_file_bytes opt - sc_bytes_read s
      in if fails (sc_bytes_read s) then Inl (GitOperation ''failed to read file'')
         else if remaining = 0 then Inr (s\<lparr>sc_truncated := (bytes \<noteq> [])\<rparr>)
         else let buf = read_until_newline (take remaining bytes)
              in if buf = [] then Inr s
                 else let s = s\<lparr>sc_bytes_read := sc_bytes_read s + length buf\<rparr>
                      in if last buf \<noteq> CHR 0x0A \<and> co_max_file_bytes opt \<le> sc_bytes_read s then Inr (s\<lparr>sc_truncated := True\<rparr>)
                         else let line_no = saturating_add_u32 (sc_line_no s) 1; line = trim_newline buf
                              in if is_binary line then Inr (s\<lparr>sc_line_no := line_no\<rparr>)
                                 else let (p, f) = process_line opt line_no line (sc_parser s)
                                      in scan_lines lower opt fails (drop (length buf) bytes)
                                           (s\<lparr>sc_line_no := line_no, sc_parser := p,
                                              sc_findings := push_findings (detect_smell lower line_no line opt)
                                                (push_findings f (sc_findings s))\<rparr>))"
  by pat_completeness auto
termination
  by (relation "measure (\<lambda>(lower, opt, fails, bytes, s). length bytes)") (auto intro: read_shorter)

declare scan_lines.simps [simp del]

definition unmerged_finding :: conflict_finding where
  "unmerged_finding = \<lparr>cf_kind = ''conflict'', cf_line = 0, cf_message = ''unmerged index entry'', cf_content = None, cf_hunk = None\<rparr>"

definition start_scan :: "conflicts_options \<Rightarrow> bool \<Rightarrow> scan" where
  "start_scan opt is_unmerged =
     \<lparr>sc_parser = new_parser, sc_findings = (if is_unmerged \<and> KConflict \<in> set (co_kinds opt) then [unmerged_finding] else []),
      sc_line_no = 0, sc_bytes_read = 0, sc_truncated = False\<rparr>"

text \<open>\<open>File::open\<close> gives the bytes or fails.\<close>

definition scan_file ::
  "(str \<Rightarrow> str) \<Rightarrow> conflicts_options \<Rightarrow> (usize \<Rightarrow> bool) \<Rightarrow> str option \<Rightarrow> bool \<Rightarrow> git_error + conflict_file" where
  "scan_file lower opt fails content is_unmerged =
     (case content of
        None \<Rightarrow> Inl (GitOperation ''failed to open file'')
      | Some bytes \<Rightarrow>
          bindR (scan_lines lower opt fails bytes (start_scan opt is_unmerged)) (\<lambda>s.
            Inr \<lparr>cfile_path = [], cfile_findings = push_findings (finish_parser opt (sc_parser s)) (sc_findings s),
                 cfile_truncated = (if sc_truncated s then Some True else None)\<rparr>))"

section \<open>A worktree\<close>

datatype entry_kind = EntryFile | EntryOther
datatype entry_status = Tracked | Untracked | Ignored | Pruned

text \<open>An entry of the walk, with what the index and the file system have under its path.\<close>

record walk_entry =
  we_path :: str
  we_disk_kind :: "entry_kind option"
  we_index_kind :: "entry_kind option"
  we_status :: entry_status
  we_stage_ours :: bool
  we_stage_theirs :: bool
  we_native :: "str option"
  we_content :: "str option"
  we_fails :: "usize \<Rightarrow> bool"

definition entry_is_file :: "walk_entry \<Rightarrow> bool" where
  "entry_is_file e \<longleftrightarrow> (case we_disk_kind e of None \<Rightarrow> we_index_kind e = Some EntryFile | Some k \<Rightarrow> k = EntryFile)"

fun status_is_included :: "entry_status \<Rightarrow> conflicts_options \<Rightarrow> bool" where
  "status_is_included Tracked opt = True"
| "status_is_included Untracked opt = co_include_untracked opt"
| "status_is_included Ignored opt = co_include_ignored opt"
| "status_is_included Pruned opt = False"

definition is_unmerged :: "walk_entry \<Rightarrow> bool" where
  "is_unmerged e \<longleftrightarrow> we_stage_ours e \<or> we_stage_theirs e"

fun find_in :: "(str \<Rightarrow> str) \<Rightarrow> conflicts_options \<Rightarrow> walk_entry list \<Rightarrow> conflict_file list \<Rightarrow> git_error + conflict_file list" where
  "find_in lower opt [] files = Inr files"
| "find_in lower opt (e # es) files =
     (if \<not> entry_is_file e \<or> \<not> status_is_included (we_status e) opt then find_in lower opt es files
      else if we_native e = None then Inl (GitOperation ''invalid relative path'')
      else (case scan_file lower opt (we_fails e) (we_content e) (is_unmerged e) of
              Inl err \<Rightarrow> find_in lower opt es files
            | Inr cfile \<Rightarrow>
                find_in lower opt es
                  (if cfile_findings cfile \<noteq> [] \<or> cfile_truncated cfile \<noteq> None
                   then files @ [cfile\<lparr>cfile_path := from_utf8_lossy (we_path e)\<rparr>] else files)))"

text \<open>\<open>walk\<close> is what opening the repository, its worktree and index, and walking it gives.\<close>

definition find_conflicts :: "(str \<Rightarrow> str) \<Rightarrow> git_error + walk_entry list \<Rightarrow> conflicts_options \<Rightarrow> git_error + conflict_file list" where
  "find_conflicts lower walk opt = bindR walk (\<lambda>entries. find_in lower opt entries [])"

section \<open>Reading line by line\<close>

abbreviation NL :: char where "NL \<equiv> CHR 0x0A"

definition text_line :: "str \<Rightarrow> bool" where
  "text_line l \<longleftrightarrow> NL \<notin> set l \<and> \<not> is_binary l \<and> (l \<noteq> [] \<longrightarrow> last l \<noteq> CHR 0x0D)"

definition file_text :: "str list \<Rightarrow> str" where
  "file_text ls = concat (map (\<lambda>l. l @ [NL]) ls)"

lemma file_text_simps [simp]: "file_text [] = []" "file_text (l # ls) = l @ NL # file_text ls"
  by (simp_all add: file_text_def)

lemma read_until_newline_line: "NL \<notin> set l \<Longrightarrow> length l < n \<Longrightarrow> read_until_newline (take n (l @ NL # rest)) = l @ [NL]"
proof (induction l arbitrary: n)
  case (Cons c l)
  then show ?case by (cases n) auto
qed (auto simp: take_Cons')

lemma trim_newline_line: "text_line l \<Longrightarrow> trim_newline (l @ [NL]) = l"
  by (auto simp: trim_newline_def text_line_def)

definition scan_line :: "(str \<Rightarrow> str) \<Rightarrow> conflicts_options \<Rightarrow> str \<Rightarrow> scan \<Rightarrow> scan" where
  "scan_line lower opt l s =
     (let line_no = saturating_add_u32 (sc_line_no s) 1; (p, f) = process_line opt line_no l (sc_parser s)
      in s\<lparr>sc_bytes_read := sc_bytes_read s + length l + 1, sc_line_no := line_no, sc_parser := p,
           sc_findings := push_findings (detect_smell lower line_no l opt) (push_findings f (sc_findings s))\<rparr>)"

lemma scan_lines_line:
  assumes "text_line l" and "\<not> fails (sc_bytes_read s)" and "sc_bytes_read s + length l < co_max_file_bytes opt"
  shows "scan_lines lower opt fails (l @ NL # rest) s = scan_lines lower opt fails rest (scan_line lower opt l s)"
proof -
  define k where "k = co_max_file_bytes opt - sc_bytes_read s"
  have k: "k \<noteq> 0" "length l < k" using assms(3) by (auto simp: k_def)
  have buf: "read_until_newline (take k (l @ NL # rest)) = l @ [NL]"
    using assms(1) k by (intro read_until_newline_line) (auto simp: text_line_def)
  have "\<not> is_binary l" using assms(1) by (simp add: text_line_def)
  then show ?thesis
    using assms(1,2) k buf
    by (subst scan_lines.simps) (simp add: scan_line_def Let_def k_def [symmetric] trim_newline_line split: prod.split)
qed

lemma scan_lines_end: "\<not> fails (sc_bytes_read s) \<Longrightarrow> \<not> sc_truncated s \<Longrightarrow> scan_lines lower opt fails [] s = Inr s"
  by (subst scan_lines.simps) (auto simp: Let_def intro: scan.equality)

lemma scan_lines_text:
  assumes "\<forall>l \<in> set ls. text_line l" and "\<forall>n. \<not> fails n" and "sc_bytes_read s + length (file_text ls) \<le> co_max_file_bytes opt"
    and "\<not> sc_truncated s"
  shows "scan_lines lower opt fails (file_text ls) s = Inr (fold (scan_line lower opt) ls s)"
  using assms
proof (induction ls arbitrary: s)
  case (Cons l ls)
  have "scan_lines lower opt fails (l @ NL # file_text ls) s = scan_lines lower opt fails (file_text ls) (scan_line lower opt l s)"
    using Cons.prems by (intro scan_lines_line) auto
  moreover have "scan_lines lower opt fails (file_text ls) (scan_line lower opt l s) = Inr (fold (scan_line lower opt) ls (scan_line lower opt l s))"
    using Cons.prems by (intro Cons.IH) (auto simp: scan_line_def Let_def split: prod.split)
  ultimately show ?case by simp
qed (simp add: scan_lines_end)

section \<open>The conflicts of a text\<close>

fun parse_lines :: "conflicts_options \<Rightarrow> nat \<Rightarrow> str list \<Rightarrow> marker_parser \<Rightarrow> marker_parser \<times> conflict_finding list" where
  "parse_lines opt n [] p = (p, [])"
| "parse_lines opt n (l # ls) p =
     (let (p1, f) = process_line opt (of_nat (Suc n)) l p; (p2, fs) = parse_lines opt (Suc n) ls p1
      in (p2, push_findings f [] @ fs))"

lemma parse_lines_append:
  "parse_lines opt n (xs @ ys) p =
     (let (p1, f1) = parse_lines opt n xs p; (p2, f2) = parse_lines opt (n + length xs) ys p1 in (p2, f1 @ f2))"
  by (induction opt n xs p rule: parse_lines.induct) (auto simp: Let_def split: prod.splits)

definition is_conflict :: "conflict_finding \<Rightarrow> bool" where
  "is_conflict f \<longleftrightarrow> cf_kind f = ''conflict''"

lemma build_finding_conflict: "build_finding opt n label p = Some f \<Longrightarrow> is_conflict f"
  by (auto simp: build_finding_def is_conflict_def Let_def split: if_splits prod.splits)

lemma process_line_conflict: "process_line opt n l p = (p', Some f) \<Longrightarrow> is_conflict f"
  by (auto simp: process_line_def dest: build_finding_conflict split: option.splits prod.splits marker_kind.splits parse_state.splits)

lemma detect_smell_no_conflict: "detect_smell lower n l opt = Some f \<Longrightarrow> \<not> is_conflict f"
proof -
  assume "detect_smell lower n l opt = Some f"
  then obtain kind message where "smell_texts kind = Some (cf_kind f, message)"
    by (auto simp: detect_smell_def split: if_splits option.splits prod.splits)
  then show "\<not> is_conflict f" by (cases kind) (auto simp: is_conflict_def)
qed

lemma saturating_add_u32_Suc: "Suc n < 2 ^ 32 \<Longrightarrow> saturating_add_u32 (of_nat n) 1 = of_nat (Suc n)"
proof -
  assume n: "Suc n < 2 ^ 32"
  then have "unat (of_nat n :: u32) = n" by (simp add: unat_of_nat)
  then show "saturating_add_u32 (of_nat n) 1 = of_nat (Suc n)" using n by (simp add: saturating_add_u32_def)
qed

lemma scan_line_parses:
  assumes "n + length ls < 2 ^ 32" and "sc_line_no s = of_nat n"
  shows "sc_parser (fold (scan_line lower opt) ls s) = fst (parse_lines opt n ls (sc_parser s))
    \<and> filter is_conflict (sc_findings (fold (scan_line lower opt) ls s))
        = filter is_conflict (sc_findings s) @ snd (parse_lines opt n ls (sc_parser s))"
  using assms
proof (induction ls arbitrary: n s)
  case (Cons l ls)
  define s' where "s' = scan_line lower opt l s"
  obtain p f where pf: "process_line opt (of_nat (Suc n)) l (sc_parser s) = (p, f)" by fastforce
  have no: "saturating_add_u32 (of_nat n) 1 = of_nat (Suc n)" using Cons.prems by (intro saturating_add_u32_Suc) simp
  have s': "sc_parser s' = p" "sc_line_no s' = of_nat (Suc n)"
    "sc_findings s' = push_findings (detect_smell lower (of_nat (Suc n)) l opt) (push_findings f (sc_findings s))"
    using pf Cons.prems no by (auto simp: s'_def scan_line_def Let_def)
  have "filter is_conflict (sc_findings s') = filter is_conflict (sc_findings s) @ push_findings f []"
    using pf unfolding s'(3) by (auto simp: push_findings_def detect_smell_no_conflict process_line_conflict split: option.split)
  with Cons.IH [of "Suc n" s'] Cons.prems s' pf show ?case
    by (simp add: s'_def [symmetric] Let_def split: prod.split)
qed simp

section \<open>Conflicts as git writes them\<close>

record conflict_text =
  ct_ours_label :: str
  ct_ours :: "str list"
  ct_base :: "(str \<times> str list) option"
  ct_theirs :: "str list"
  ct_theirs_label :: str

definition start_marker :: "str \<Rightarrow> str" where "start_marker label = ''<<<<<<< '' @ label"
definition base_marker :: "str \<Rightarrow> str" where "base_marker label = ''||||||| '' @ label"
definition separator_marker :: str where "separator_marker = ''=======''"
definition end_marker :: "str \<Rightarrow> str" where "end_marker label = ''>>>>>>> '' @ label"

definition base_lines :: "conflict_text \<Rightarrow> str list" where
  "base_lines h = (case ct_base h of None \<Rightarrow> [] | Some (label, ls) \<Rightarrow> base_marker label # ls)"

definition conflict_lines :: "conflict_text \<Rightarrow> str list" where
  "conflict_lines h =
     start_marker (ct_ours_label h) # ct_ours h @ base_lines h @ separator_marker # ct_theirs h @ [end_marker (ct_theirs_label h)]"

datatype segment = PlainLine str | ConflictText conflict_text

fun segment_lines :: "segment \<Rightarrow> str list" where
  "segment_lines (PlainLine l) = [l]"
| "segment_lines (ConflictText h) = conflict_lines h"

definition plain_line :: "str \<Rightarrow> bool" where
  "plain_line l \<longleftrightarrow> text_line l \<and> parse_marker l = None"

definition conflict_text_ok :: "conflict_text \<Rightarrow> bool" where
  "conflict_text_ok h \<longleftrightarrow>
     list_all plain_line (ct_ours h) \<and> list_all plain_line (ct_theirs h) \<and> text_line (ct_ours_label h) \<and> text_line (ct_theirs_label h)
     \<and> (case ct_base h of None \<Rightarrow> True | Some (label, ls) \<Rightarrow> text_line label \<and> list_all plain_line ls)"

fun segment_ok :: "segment \<Rightarrow> bool" where
  "segment_ok (PlainLine l) = plain_line l"
| "segment_ok (ConflictText h) = conflict_text_ok h"

text \<open>The finding a conflict should give: its lines, its labels and, as far as the mode shows them, its sides.\<close>

definition shown :: "conflicts_options \<Rightarrow> nat \<Rightarrow> str list \<Rightarrow> str list option" where
  "shown opt size_of ls =
     (case co_output opt of
        OutFull \<Rightarrow> Some (map from_utf8_lossy ls)
      | OutCompact \<Rightarrow> None
      | OutBoth \<Rightarrow> if size_of \<le> co_max_hunk_lines opt then Some (map from_utf8_lossy ls) else None)"

definition conflict_finding_of :: "conflicts_options \<Rightarrow> nat \<Rightarrow> conflict_text \<Rightarrow> conflict_finding" where
  "conflict_finding_of opt n h =
     (let base = (case ct_base h of None \<Rightarrow> [] | Some (_, ls) \<Rightarrow> ls);
          size_of = length (ct_ours h) + length base + length (ct_theirs h);
          start = of_nat (Suc n)
      in \<lparr>cf_kind = ''conflict'', cf_line = start, cf_message = ''conflict marker at line '' @ show_nat (unat start), cf_content = None,
          cf_hunk = Some \<lparr>ch_start_line = start, ch_end_line = of_nat (n + length (conflict_lines h)),
            ch_ours_label = Some (from_utf8_lossy (ct_ours_label h)),
            ch_base_label = map_option (\<lambda>b. from_utf8_lossy (fst b)) (ct_base h),
            ch_theirs_label = Some (from_utf8_lossy (ct_theirs_label h)),
            ch_ours = shown opt size_of (ct_ours h), ch_base = shown opt size_of base, ch_theirs = shown opt size_of (ct_theirs h)\<rparr>\<rparr>)"

fun expected_conflicts :: "conflicts_options \<Rightarrow> nat \<Rightarrow> segment list \<Rightarrow> conflict_finding list" where
  "expected_conflicts opt n [] = []"
| "expected_conflicts opt n (PlainLine l # segs) = expected_conflicts opt (Suc n) segs"
| "expected_conflicts opt n (ConflictText h # segs) =
     conflict_finding_of opt n h # expected_conflicts opt (n + length (conflict_lines h)) segs"

lemmas marker_defs = start_marker_def base_marker_def separator_marker_def end_marker_def

lemma marker_lines [simp]:
  "parse_marker (start_marker label) = Some (MStart, Some label)"
  "parse_marker (base_marker label) = Some (MBase, Some label)"
  "parse_marker separator_marker = Some (MSeparator, None)"
  "parse_marker (end_marker label) = Some (MEnd, Some label)"
  by (simp_all add: marker_defs parse_marker_def marker_of_def marker_label_def CONFLICT_MARKER_MIN_LEN_def)

lemma parse_plain:
  assumes "list_all plain_line ls"
  shows "parse_lines opt n ls p = (fold push_line ls p, [])"
  using assms
proof (induction ls arbitrary: n p)
  case (Cons l ls)
  then show ?case by (simp add: plain_line_def process_line_def push_findings_def)
qed simp

lemma push_lines:
  "mp_state p = Neutral \<Longrightarrow> fold push_line ls p = p"
  "mp_state p = InOurs \<Longrightarrow> fold push_line ls p = p\<lparr>mp_ours := mp_ours p @ map from_utf8_lossy ls\<rparr>"
  "mp_state p = InBase \<Longrightarrow> fold push_line ls p = p\<lparr>mp_base := mp_base p @ map from_utf8_lossy ls\<rparr>"
  "mp_state p = InTheirs \<Longrightarrow> fold push_line ls p = p\<lparr>mp_theirs := mp_theirs p @ map from_utf8_lossy ls\<rparr>"
  by (induction ls arbitrary: p) (simp_all add: push_line_def)

lemma build_finding_shown:
  assumes "KConflict \<in> set (co_kinds opt)" and "mp_ours p = map from_utf8_lossy ours" and "mp_base p = map from_utf8_lossy base"
    and "mp_theirs p = map from_utf8_lossy theirs"
  shows "build_finding opt end_line (Some label) p =
    Some \<lparr>cf_kind = ''conflict'', cf_line = mp_start_line p, cf_message = ''conflict marker at line '' @ show_nat (unat (mp_start_line p)),
      cf_content = None,
      cf_hunk = Some \<lparr>ch_start_line = mp_start_line p, ch_end_line = end_line, ch_ours_label = mp_ours_label p, ch_base_label = mp_base_label p,
        ch_theirs_label = Some (from_utf8_lossy label), ch_ours = shown opt (length ours + length base + length theirs) ours,
        ch_base = shown opt (length ours + length base + length theirs) base,
        ch_theirs = shown opt (length ours + length base + length theirs) theirs\<rparr>\<rparr>"
  using assms by (cases "co_output opt") (simp_all add: build_finding_def hunk_sides_def shown_def Let_def)

lemmas conflict_steps = conflict_lines_def base_lines_def conflict_text_ok_def parse_lines_append parse_plain push_lines process_line_def
  push_findings_def new_parser_def reset_parser_def conflict_finding_of_def

lemma parse_conflict:
  assumes "conflict_text_ok h" and "KConflict \<in> set (co_kinds opt)"
  shows "parse_lines opt n (conflict_lines h) new_parser = (new_parser, [conflict_finding_of opt n h])"
proof (cases "ct_base h")
  case None
  then show ?thesis
    using assms by (simp add: conflict_steps Let_def build_finding_shown [where base = "[]"] add_ac)
next
  case (Some b)
  then show ?thesis
    using assms by (cases b) (simp add: conflict_steps Let_def build_finding_shown [where base = "snd b"] add_ac)
qed

lemma parse_segments:
  assumes "list_all segment_ok segs" and "KConflict \<in> set (co_kinds opt)"
  shows "parse_lines opt n (concat (map segment_lines segs)) new_parser = (new_parser, expected_conflicts opt n segs)"
  using assms(1)
proof (induction segs arbitrary: n)
  case (Cons seg segs)
  show ?case
  proof (cases seg)
    case (PlainLine l)
    then have "parse_lines opt n [l] new_parser = (new_parser, [])"
      using Cons.prems parse_plain [of "[l]" opt n new_parser] by (simp add: push_line_def new_parser_def)
    then show ?thesis using Cons PlainLine by (simp add: Let_def split: prod.splits)
  next
    case (ConflictText h)
    then show ?thesis using Cons parse_conflict [OF _ assms(2)] by (simp add: parse_lines_append)
  qed
qed simp

lemma text_line_marker:
  "text_line label \<Longrightarrow> text_line (start_marker label)" "text_line label \<Longrightarrow> text_line (base_marker label)"
  "text_line separator_marker" "text_line label \<Longrightarrow> text_line (end_marker label)"
  by (auto simp: text_line_def is_binary_def marker_defs byte_def)

lemma segment_text_lines: "segment_ok seg \<Longrightarrow> l \<in> set (segment_lines seg) \<Longrightarrow> text_line l"
  by (cases seg)
     (auto simp: plain_line_def conflict_lines_def base_lines_def conflict_text_ok_def list_all_iff text_line_marker split: option.splits)

lemma scan_file_lines:
  assumes "\<forall>l \<in> set ls. text_line l" and "length (file_text ls) \<le> co_max_file_bytes opt" and "\<forall>n. \<not> fails n"
    and "length ls < 2 ^ 32" and "KConflict \<in> set (co_kinds opt)"
  shows "\<exists>cfile. scan_file lower opt fails (Some (file_text ls)) unmerged = Inr cfile \<and> cfile_truncated cfile = None
    \<and> filter is_conflict (cfile_findings cfile)
        = (if unmerged then [unmerged_finding] else []) @ snd (parse_lines opt 0 ls new_parser)
          @ push_findings (finish_parser opt (fst (parse_lines opt 0 ls new_parser))) []"
proof -
  define s where "s = fold (scan_line lower opt) ls (start_scan opt unmerged)"
  have scan: "scan_lines lower opt fails (file_text ls) (start_scan opt unmerged) = Inr s"
    unfolding s_def by (rule scan_lines_text) (use assms in \<open>auto simp: start_scan_def\<close>)
  have "sc_truncated (fold (scan_line lower opt) ls t) = sc_truncated t" for t
    by (induction ls arbitrary: t) (simp_all add: scan_line_def Let_def split: prod.split)
  then have "\<not> sc_truncated s" by (simp add: s_def start_scan_def)
  moreover have "sc_parser s = fst (parse_lines opt 0 ls new_parser)"
    "filter is_conflict (sc_findings s) = (if unmerged then [unmerged_finding] else []) @ snd (parse_lines opt 0 ls new_parser)"
    using scan_line_parses [of 0 ls "start_scan opt unmerged" lower opt] assms
    by (auto simp: s_def start_scan_def unmerged_finding_def is_conflict_def)
  moreover have "is_conflict f" if "finish_parser opt p = Some f" for p f
    using that by (auto simp: finish_parser_def dest: build_finding_conflict split: if_splits)
  ultimately show ?thesis
    using scan by (auto simp: scan_file_def push_findings_def split: option.split)
qed

section \<open>Guarantees\<close>


text \<open>
  A line of seven or more \<open>=\<close> on our side, as under a heading, is taken for the separator; the separator then
  ends the hunk without a finding, and the conflict is not reported at all.
\<close>

lemma heading_hides_conflict:
  assumes "list_all plain_line (before @ after @ theirs)" and "text_line underline" and "parse_marker underline = Some (MSeparator, junk)"
    and "text_line label" and "text_line label'" and "KConflict \<in> set (co_kinds opt)"
    and "ls = start_marker label # before @ underline # after @ separator_marker # theirs @ [end_marker label']"
    and "length (file_text ls) \<le> co_max_file_bytes opt" and "length ls < 2 ^ 32" and "\<forall>n. \<not> fails n"
  shows "\<exists>cfile. scan_file lower opt fails (Some (file_text ls)) False = Inr cfile \<and> filter is_conflict (cfile_findings cfile) = []"
proof -
  have "parse_lines opt 0 ls new_parser = (new_parser, [])"
    using assms(1,3) unfolding assms(7) by (simp add: conflict_steps Let_def)
  moreover have "\<forall>l \<in> set ls. text_line l"
    using assms(1-5) unfolding assms(7) by (auto simp: list_all_iff plain_line_def text_line_marker)
  ultimately show ?thesis
    using scan_file_lines [of ls opt fails lower False] assms(6,8,9,10)
    by (auto simp: finish_parser_def new_parser_def push_findings_def)
qed

text \<open>
  A file of exactly the maximal size whose last line has no newline is reported as truncated, and that line is
  not scanned.
\<close>

lemma exact_size_truncated:
  assumes "NL \<notin> set bytes" and "bytes \<noteq> []" and "length bytes = co_max_file_bytes opt" and "\<not> fails 0"
  shows "\<exists>cfile. scan_file lower opt fails (Some bytes) False = Inr cfile \<and> cfile_truncated cfile = Some True \<and> cfile_findings cfile = []"
proof -
  have read: "read_until_newline bs = bs" if "NL \<notin> set bs" for bs using that by (induction bs) auto
  have "last bytes \<noteq> NL" using assms(1,2) last_in_set by metis
  then have "scan_lines lower opt fails bytes (start_scan opt False)
      = Inr ((start_scan opt False)\<lparr>sc_bytes_read := length bytes, sc_truncated := True\<rparr>)"
    using assms by (subst scan_lines.simps) (simp add: start_scan_def Let_def read)
  then show ?thesis by (simp add: scan_file_def start_scan_def finish_parser_def new_parser_def push_findings_def)
qed

section \<open>Examples\<close>

definition example_options :: conflicts_options where
  "example_options = default_conflicts_options\<lparr>co_kinds := [KConflict]\<rparr>"

definition example_conflict :: conflict_text where
  "example_conflict = \<lparr>ct_ours_label = ''HEAD'', ct_ours = [''ours''], ct_base = None, ct_theirs = [''theirs''], ct_theirs_label = ''branch''\<rparr>"


end
