(* ===== verification/Search_Fetch.thy ===== *)
theory Search_Fetch
  imports Utf8_Lossy Str_Words
begin

unbundle bit_operations_syntax

text \<open>
  Fetching pages from the network (\<open>crates/n00n-search/src/url_policy.rs\<close>, \<open>transport.rs\<close>, \<open>extract.rs\<close>,
  \<open>types.rs\<close>): which URLs and addresses are allowed, the transport that pins the addresses it has checked, the
  loop over redirects, and the extraction of several pages under a budget. URLs are those of the \<open>url\<close> crate,
  a parameter; what the network answers is a parameter too. A call returns the connections it made.
\<close>

section \<open>Addresses\<close>

type_synonym u16 = "16 word"

datatype ipv4 = Ipv4 u8 u8 u8 u8
datatype ipv6 = Ipv6 u16 u16 u16 u16 u16 u16 u16 u16
datatype ip_addr = V4 ipv4 | V6 ipv6

fun v4_is_private :: "ipv4 \<Rightarrow> bool" where
  "v4_is_private (Ipv4 a b c d) \<longleftrightarrow> a = 10 \<or> a = 172 \<and> 16 \<le> b \<and> b \<le> 31 \<or> a = 192 \<and> b = 168"

fun v4_is_loopback :: "ipv4 \<Rightarrow> bool" where "v4_is_loopback (Ipv4 a b c d) \<longleftrightarrow> a = 127"
fun v4_is_link_local :: "ipv4 \<Rightarrow> bool" where "v4_is_link_local (Ipv4 a b c d) \<longleftrightarrow> a = 169 \<and> b = 254"
fun v4_is_broadcast :: "ipv4 \<Rightarrow> bool" where "v4_is_broadcast (Ipv4 a b c d) \<longleftrightarrow> a = 255 \<and> b = 255 \<and> c = 255 \<and> d = 255"
fun v4_is_documentation :: "ipv4 \<Rightarrow> bool" where
  "v4_is_documentation (Ipv4 a b c d) \<longleftrightarrow> a = 192 \<and> b = 0 \<and> c = 2 \<or> a = 198 \<and> b = 51 \<and> c = 100 \<or> a = 203 \<and> b = 0 \<and> c = 113"
fun v4_is_multicast :: "ipv4 \<Rightarrow> bool" where "v4_is_multicast (Ipv4 a b c d) \<longleftrightarrow> 224 \<le> a \<and> a \<le> 239"
fun v4_is_unspecified :: "ipv4 \<Rightarrow> bool" where "v4_is_unspecified (Ipv4 a b c d) \<longleftrightarrow> a = 0 \<and> b = 0 \<and> c = 0 \<and> d = 0"

definition is_special_v4 :: "ipv4 \<Rightarrow> bool" where
  "is_special_v4 address =
     (case address of Ipv4 a b c d \<Rightarrow>
        v4_is_private address \<or> v4_is_loopback address \<or> v4_is_link_local address \<or> v4_is_broadcast address
        \<or> v4_is_documentation address \<or> v4_is_multicast address \<or> v4_is_unspecified address
        \<or> a = 0 \<or> a = 100 \<and> 64 \<le> b \<and> b \<le> 127 \<or> a = 192 \<and> b = 0 \<and> c = 0 \<or> a = 198 \<and> 18 \<le> b \<and> b \<le> 19 \<or> 240 \<le> a)"

fun v6_is_loopback :: "ipv6 \<Rightarrow> bool" where
  "v6_is_loopback (Ipv6 a b c d e f g h) \<longleftrightarrow> a = 0 \<and> b = 0 \<and> c = 0 \<and> d = 0 \<and> e = 0 \<and> f = 0 \<and> g = 0 \<and> h = 1"
fun v6_is_unspecified :: "ipv6 \<Rightarrow> bool" where
  "v6_is_unspecified (Ipv6 a b c d e f g h) \<longleftrightarrow> a = 0 \<and> b = 0 \<and> c = 0 \<and> d = 0 \<and> e = 0 \<and> f = 0 \<and> g = 0 \<and> h = 0"
fun v6_is_multicast :: "ipv6 \<Rightarrow> bool" where "v6_is_multicast (Ipv6 a b c d e f g h) \<longleftrightarrow> a AND 0xff00 = 0xff00"

text \<open>The address in the last two segments: \<open>Ipv4Addr::from\<close> of a \<open>u32\<close>.\<close>

definition low_v4 :: "u16 \<Rightarrow> u16 \<Rightarrow> ipv4" where
  "low_v4 g h = Ipv4 (ucast (drop_bit 8 g)) (ucast g) (ucast (drop_bit 8 h)) (ucast h)"

fun to_ipv4_mapped :: "ipv6 \<Rightarrow> ipv4 option" where
  "to_ipv4_mapped (Ipv6 a b c d e f g h) =
     (if a = 0 \<and> b = 0 \<and> c = 0 \<and> d = 0 \<and> e = 0 \<and> f = 0xffff then Some (low_v4 g h) else None)"

fun ipv4_compatible :: "ipv6 \<Rightarrow> ipv4 option" where
  "ipv4_compatible (Ipv6 a b c d e f g h) =
     (if (a = 0 \<and> b = 0 \<and> c = 0 \<and> d = 0 \<and> e = 0) \<and> f = 0 then Some (low_v4 g h) else None)"

fun nat64_embedded_v4 :: "ipv6 \<Rightarrow> ipv4 option" where
  "nat64_embedded_v4 (Ipv6 a b c d e f g h) =
     (if a = 0x0064 \<and> b = 0xff9b \<and> c = 0 \<and> d = 0 \<and> e = 0 \<and> f = 0 then Some (low_v4 g h) else None)"

definition some_special_v4 :: "ipv4 option \<Rightarrow> bool" where
  "some_special_v4 v = (case v of None \<Rightarrow> False | Some address \<Rightarrow> is_special_v4 address)"

definition is_special_v6 :: "ipv6 \<Rightarrow> bool" where
  "is_special_v6 address =
     (case address of Ipv6 a b c d e f g h \<Rightarrow>
        v6_is_loopback address \<or> v6_is_unspecified address \<or> v6_is_multicast address
        \<or> a AND 0xfe00 = 0xfc00 \<or> a AND 0xffc0 = 0xfe80 \<or> a AND 0xffc0 = 0xfec0
        \<or> a = 0x2001 \<and> b = 0x0db8 \<or> a = 0x0100 \<and> b = 0
        \<or> some_special_v4 (to_ipv4_mapped address) \<or> some_special_v4 (ipv4_compatible address)
        \<or> some_special_v4 (nat64_embedded_v4 address))"

fun is_special_use :: "ip_addr \<Rightarrow> bool" where
  "is_special_use (V4 address) = is_special_v4 address"
| "is_special_use (V6 address) = is_special_v6 address"

fun is_loopback :: "ip_addr \<Rightarrow> bool" where
  "is_loopback (V4 address) = v4_is_loopback address"
| "is_loopback (V6 address) = v6_is_loopback address"

section \<open>The text of an address\<close>

text \<open>\<open>str::parse::<IpAddr>\<close> of the standard library.\<close>

definition digit_value :: "char \<Rightarrow> nat" where
  "digit_value c =
     (let n = of_char c :: nat
      in if 48 \<le> n \<and> n \<le> 57 then n - 48 else if 97 \<le> n \<and> n \<le> 102 then n - 87 else if 65 \<le> n \<and> n \<le> 70 then n - 55 else 16)"

definition number_value :: "nat \<Rightarrow> str \<Rightarrow> nat" where
  "number_value radix ds = foldl (\<lambda>n c. n * radix + digit_value c) 0 ds"

definition read_number :: "nat \<Rightarrow> nat \<Rightarrow> bool \<Rightarrow> nat \<Rightarrow> str \<Rightarrow> (nat \<times> str) option" where
  "read_number radix max_digits allow_zero_prefix bound s =
     (let ds = takeWhile (\<lambda>c. digit_value c < radix) s
      in if ds = [] \<or> max_digits < length ds \<or> \<not> allow_zero_prefix \<and> hd ds = CHR ''0'' \<and> 1 < length ds \<or> bound < number_value radix ds
         then None else Some (number_value radix ds, drop (length ds) s))"

definition read_given_char :: "char \<Rightarrow> str \<Rightarrow> str option" where
  "read_given_char c s = (case s of [] \<Rightarrow> None | x # xs \<Rightarrow> if x = c then Some xs else None)"

definition read_separator :: "char \<Rightarrow> nat \<Rightarrow> (str \<Rightarrow> ('a \<times> str) option) \<Rightarrow> str \<Rightarrow> ('a \<times> str) option" where
  "read_separator c index inner s = (if 0 < index then Option.bind (read_given_char c s) inner else inner s)"

definition read_octet :: "str \<Rightarrow> (nat \<times> str) option" where
  "read_octet = read_number 10 3 False 255"

definition read_ipv4_addr :: "str \<Rightarrow> (ipv4 \<times> str) option" where
  "read_ipv4_addr s =
     Option.bind (read_octet s) (\<lambda>(a, s). Option.bind (read_separator CHR ''.'' 1 read_octet s) (\<lambda>(b, s).
     Option.bind (read_separator CHR ''.'' 2 read_octet s) (\<lambda>(c, s). Option.bind (read_separator CHR ''.'' 3 read_octet s) (\<lambda>(d, s).
     Some (Ipv4 (of_nat a) (of_nat b) (of_nat c) (of_nat d), s)))))"

definition octet_pairs :: "ipv4 \<Rightarrow> u16 list" where
  "octet_pairs v = (case v of Ipv4 a b c d \<Rightarrow> [ucast a * 256 + ucast b, ucast c * 256 + ucast d])"

text \<open>Groups from index \<open>i\<close> of at most \<open>i + n\<close>; whether an IPv4 address ended them; and the rest.\<close>

fun read_groups :: "nat \<Rightarrow> nat \<Rightarrow> str \<Rightarrow> u16 list \<times> bool \<times> str" where
  "read_groups i 0 s = ([], False, s)"
| "read_groups i (Suc n) s =
     (case (if 0 < n then read_separator CHR '':'' i read_ipv4_addr s else None) of
        Some (v4, rest) \<Rightarrow> (octet_pairs v4, True, rest)
      | None \<Rightarrow>
          (case read_separator CHR '':'' i (read_number 16 4 True 65535) s of
             None \<Rightarrow> ([], False, s)
           | Some (g, rest) \<Rightarrow> (case read_groups (Suc i) n rest of (gs, v4, rest') \<Rightarrow> (of_nat g # gs, v4, rest'))))"

definition ipv6_of_groups :: "u16 list \<Rightarrow> ipv6" where
  "ipv6_of_groups gs = Ipv6 (gs ! 0) (gs ! 1) (gs ! 2) (gs ! 3) (gs ! 4) (gs ! 5) (gs ! 6) (gs ! 7)"

definition read_ipv6_addr :: "str \<Rightarrow> (ipv6 \<times> str) option" where
  "read_ipv6_addr s =
     (case read_groups 0 8 s of (head, head_ipv4, s) \<Rightarrow>
        if length head = 8 then Some (ipv6_of_groups head, s)
        else if head_ipv4 then None
        else Option.bind (read_given_char CHR '':'' s) (\<lambda>s. Option.bind (read_given_char CHR '':'' s) (\<lambda>s.
          (case read_groups 0 (8 - (length head + 1)) s of (tail, _, s) \<Rightarrow>
             Some (ipv6_of_groups (head @ replicate (8 - length head - length tail) 0 @ tail), s)))))"

definition parse_ip :: "str \<Rightarrow> ip_addr option" where
  "parse_ip s =
     (case read_ipv4_addr s of
        Some (v4, rest) \<Rightarrow> if rest = [] then Some (V4 v4) else None
      | None \<Rightarrow> (case read_ipv6_addr s of Some (v6, []) \<Rightarrow> Some (V6 v6) | _ \<Rightarrow> None))"

section \<open>Errors\<close>

datatype search_error = Validation str str | PolicyDenied str | Auth str | Transport str | Timeout | RateLimit "nat option" | HttpStatus u16
  | Challenge | ParseError str | UnsupportedCapability str | Quota | ResponseTooLarge usize | TotalTooLarge usize
  | UnsupportedContentType str | IndexError str | ConfigError str | SearchIo | Locked | NotSupported | Tantivy

section \<open>The policy\<close>

datatype host = Domain str | HostV4 ipv4 | HostV6 ipv6

text \<open>The \<open>url\<close> crate: parsing, joining and the parts of a URL that the code reads.\<close>

record 'u url_lib =
  ul_parse :: "str \<Rightarrow> str + 'u"
  ul_join :: "'u \<Rightarrow> str \<Rightarrow> str + 'u"
  ul_as_str :: "'u \<Rightarrow> str"
  ul_scheme :: "'u \<Rightarrow> str"
  ul_host :: "'u \<Rightarrow> host option"
  ul_host_str :: "'u \<Rightarrow> str option"
  ul_port_or_known_default :: "'u \<Rightarrow> u16 option"
  ul_username :: "'u \<Rightarrow> str"
  ul_password :: "'u \<Rightarrow> str option"
  ul_origin :: "'u \<Rightarrow> str"
  ul_without_fragment :: "'u \<Rightarrow> 'u"

datatype trust_class = UntrustedPage | ConfiguredService
datatype service_scope = ManagedLoopback | ExplicitRemote

record url_policy =
  up_trust_class :: trust_class
  up_service_origin :: "str option"
  up_service_scope :: "service_scope option"

record 'u validated_url =
  vu_url :: 'u
  vu_trust_class :: trust_class
  vu_service_scope :: "service_scope option"

definition validate_resolved_ip :: "service_scope option \<Rightarrow> ip_addr \<Rightarrow> search_error + unit" where
  "validate_resolved_ip scope address =
     (if scope = Some ManagedLoopback
      then (if is_loopback address then Inr () else Inl (PolicyDenied ''managed service resolved outside loopback''))
      else if \<not> is_special_use address then Inr () else Inl (PolicyDenied ''destination resolved to a special-use address''))"

definition new_policy :: "trust_class \<Rightarrow> url_policy" where
  "new_policy trust = \<lparr>up_trust_class = trust, up_service_origin = None, up_service_scope = None\<rparr>"

definition untrusted_page :: url_policy where
  "untrusted_page = new_policy UntrustedPage"

definition parse_http_url :: "'u url_lib \<Rightarrow> str \<Rightarrow> search_error + 'u" where
  "parse_http_url L input =
     bindR (map_err (Validation ''url'') (ul_parse L input)) (\<lambda>url.
       if ul_scheme L url \<noteq> ''http'' \<and> ul_scheme L url \<noteq> ''https'' then Inl (PolicyDenied ''only HTTP and HTTPS URLs are allowed'')
       else if ul_host L url = None then Inl (Validation ''url'' ''host is required'')
       else Inr url)"

definition literal_address :: "'u url_lib \<Rightarrow> 'u \<Rightarrow> ip_addr option" where
  "literal_address L url =
     (case ul_host L url of Some (HostV4 address) \<Rightarrow> Some (V4 address) | Some (HostV6 address) \<Rightarrow> Some (V6 address) | _ \<Rightarrow> None)"

definition service :: "'u url_lib \<Rightarrow> str \<Rightarrow> service_scope \<Rightarrow> search_error + url_policy" where
  "service L endpoint scope =
     bindR (parse_http_url L endpoint) (\<lambda>url.
     bindR (case (scope, literal_address L url) of
              (ManagedLoopback, Some ip) \<Rightarrow>
                if is_loopback ip then Inr () else Inl (PolicyDenied ''managed service endpoint must be a loopback IP literal'')
            | (ManagedLoopback, None) \<Rightarrow> Inl (PolicyDenied ''managed service endpoint must be a loopback IP literal'')
            | (ExplicitRemote, Some ip) \<Rightarrow>
                if is_special_use ip then Inl (PolicyDenied ''remote service endpoint uses a special-use address'') else Inr ()
            | (ExplicitRemote, None) \<Rightarrow> Inr ()) (\<lambda>_.
     Inr \<lparr>up_trust_class = ConfiguredService, up_service_origin = Some (ul_origin L url), up_service_scope = Some scope\<rparr>))"

definition managed_service :: "'u url_lib \<Rightarrow> str \<Rightarrow> search_error + url_policy" where
  "managed_service L endpoint = service L endpoint ManagedLoopback"

definition remote_service :: "'u url_lib \<Rightarrow> str \<Rightarrow> search_error + url_policy" where
  "remote_service L endpoint = service L endpoint ExplicitRemote"

definition validate_url :: "'u url_lib \<Rightarrow> url_policy \<Rightarrow> str \<Rightarrow> search_error + 'u validated_url" where
  "validate_url L pol input =
     bindR (parse_http_url L input) (\<lambda>url0.
       if ul_username L url0 \<noteq> [] \<or> ul_password L url0 \<noteq> None then Inl (PolicyDenied ''URL userinfo is not allowed'')
       else let url = ul_without_fragment L url0;
                validated = \<lparr>vu_url = url, vu_trust_class = up_trust_class pol, vu_service_scope = up_service_scope pol\<rparr>
            in bindR (if up_trust_class pol = ConfiguredService
                      then bindR (ok_or (Validation ''service_endpoint'' ''configured service origin is missing'') (up_service_origin pol)) (\<lambda>expected.
                        if ul_origin L url \<noteq> expected then Inl (PolicyDenied ''URL is outside the configured service origin'') else Inr ())
                      else Inr ()) (\<lambda>_.
               (case literal_address L url of
                  Some address \<Rightarrow> bindR (validate_resolved_ip (vu_service_scope validated) address) (\<lambda>_. Inr validated)
                | None \<Rightarrow>
                    if (case ul_host_str L url of None \<Rightarrow> False | Some h \<Rightarrow> eq_ignore_ascii_case h ''localhost'')
                    then Inl (PolicyDenied ''localhost is not allowed'') else Inr validated)))"

section \<open>The transport\<close>

record response =
  rs_status :: u16
  rs_headers :: "(str \<times> str) list"
  rs_body :: str
  rs_fails :: bool

text \<open>An error of the HTTP client: whether it is a timeout, and its message.\<close>

datatype client_error = ClientError (is_timeout: bool) (message: str)

definition transport_error :: "client_error \<Rightarrow> search_error" where
  "transport_error e = (if is_timeout e then Timeout else Transport (message e))"

text \<open>
  What the network does at the \<open>n\<close>th request of a fetch: the answer of the resolver, and what sending the
  request to one of the given addresses yields. A body is the bytes that arrive, and whether the stream then fails.
\<close>

record 'u network =
  nw_resolve :: "nat \<Rightarrow> str \<Rightarrow> u16 \<Rightarrow> str + ip_addr list"
  nw_send :: "nat \<Rightarrow> 'u \<Rightarrow> ip_addr list \<Rightarrow> client_error + response"

fun pin_all :: "service_scope option \<Rightarrow> ip_addr list \<Rightarrow> ip_addr list \<Rightarrow> search_error + ip_addr list" where
  "pin_all scope [] pins = Inr pins"
| "pin_all scope (address # rest) pins = bindR (validate_resolved_ip scope address) (\<lambda>_. pin_all scope rest (pins @ [address]))"

definition resolve_and_validate ::
  "'u url_lib \<Rightarrow> (str \<Rightarrow> u16 \<Rightarrow> str + ip_addr list) \<Rightarrow> 'u validated_url \<Rightarrow> search_error + ip_addr list option" where
  "resolve_and_validate L resolve url =
     bindR (ok_or (Validation ''url'' ''host is required'') (ul_host_str L (vu_url url))) (\<lambda>host.
       (case parse_ip host of
          Some address \<Rightarrow> bindR (validate_resolved_ip (vu_service_scope url) address) (\<lambda>_. Inr None)
        | None \<Rightarrow>
            bindR (ok_or (Validation ''url'' ''port is required'') (ul_port_or_known_default L (vu_url url))) (\<lambda>port.
            bindR (map_err (\<lambda>e. Transport (''DNS resolution failed: '' @ e)) (resolve host port)) (\<lambda>addresses.
              if addresses = [] then Inl (Transport ''DNS resolution returned no addresses'')
              else bindR (pin_all (vu_service_scope url) addresses []) (\<lambda>pins. Inr (Some pins))))))"

text \<open>The client connects to a pinned address, or to the address that is the host of the URL.\<close>

definition connect_addresses :: "'u url_lib \<Rightarrow> 'u \<Rightarrow> ip_addr list option \<Rightarrow> ip_addr list" where
  "connect_addresses L url pins =
     (case pins of
        Some addresses \<Rightarrow> addresses
      | None \<Rightarrow> (case Option.bind (ul_host_str L url) parse_ip of None \<Rightarrow> [] | Some address \<Rightarrow> [address]))"

text \<open>\<open>HeaderValue::to_str\<close> accepts visible ASCII, spaces and tabs.\<close>

definition is_header_text :: "str \<Rightarrow> bool" where
  "is_header_text value = list_all (\<lambda>c. c = CHR 0x09 \<or> 32 \<le> (of_char c :: nat) \<and> (of_char c :: nat) < 127) value"

definition collect_headers :: "(str \<times> str) list \<Rightarrow> search_error + (str \<times> str) list" where
  "collect_headers headers =
     (if list_all (\<lambda>(name, value). is_header_text value) headers then Inr headers else Inl (ParseError ''invalid HTTP header value''))"

type_synonym 'u request_sent = "'u \<times> ip_addr list"

text \<open>A \<open>Transport\<close>: the answer to the \<open>n\<close>th request of a fetch, and the connections made for it.\<close>

type_synonym 'u transport = "nat \<Rightarrow> 'u validated_url \<Rightarrow> (search_error + response) \<times> 'u request_sent list"

definition http_send ::
  "'u url_lib \<Rightarrow> 'u network \<Rightarrow> 'u transport" where
  "http_send L net n url =
     (case resolve_and_validate L (nw_resolve net n) url of
        Inl e \<Rightarrow> (Inl e, [])
      | Inr pins \<Rightarrow>
          let addresses = connect_addresses L (vu_url url) pins
          in (bindR (map_err transport_error (nw_send net n (vu_url url) addresses)) (\<lambda>r.
              bindR (collect_headers (rs_headers r)) (\<lambda>headers. Inr (r\<lparr>rs_headers := headers\<rparr>))),
              [(vu_url url, addresses)]))"

section \<open>Fetching\<close>

definition DEFAULT_MAX_REDIRECTS :: usize where "DEFAULT_MAX_REDIRECTS = 5"

record fetch_limits =
  fl_max_response_bytes :: usize
  fl_max_redirects :: usize

definition validate_limits :: "fetch_limits \<Rightarrow> search_error + unit" where
  "validate_limits limits =
     (if fl_max_response_bytes limits = 0 then Inl (Validation ''max_response_bytes'' ''must be greater than zero'')
      else if DEFAULT_MAX_REDIRECTS < fl_max_redirects limits then Inl (Validation ''max_redirects'' ''exceeds the secure redirect limit'')
      else Inr ())"

record fetcher =
  ft_policy :: url_policy
  ft_limits :: fetch_limits

definition new_fetcher :: "url_policy \<Rightarrow> fetch_limits \<Rightarrow> search_error + fetcher" where
  "new_fetcher pol limits = bindR (validate_limits limits) (\<lambda>_. Inr \<lparr>ft_policy = pol, ft_limits = limits\<rparr>)"

record fetch_response =
  fr_final_url :: str
  fr_content_type :: "str option"
  fr_body :: str

definition is_redirect :: "u16 \<Rightarrow> bool" where
  "is_redirect status \<longleftrightarrow> status = 301 \<or> status = 302 \<or> status = 303 \<or> status = 307 \<or> status = 308"

definition header :: "(str \<times> str) list \<Rightarrow> str \<Rightarrow> str option" where
  "header headers name = map_option snd (List.find (\<lambda>(header_name, _). eq_ignore_ascii_case header_name name) headers)"

text \<open>\<open>str::parse::<usize>\<close>\<close>

definition parse_usize :: "str \<Rightarrow> usize option" where
  "parse_usize s =
     (let ds = (if take 1 s = ''+'' then drop 1 s else s); n = number_value 10 ds
      in if ds = [] \<or> \<not> list_all (\<lambda>c. digit_value c < 10) ds \<or> 2 ^ 64 \<le> n then None else Some n)"

definition read_bounded :: "nat \<Rightarrow> response \<Rightarrow> search_error + str" where
  "read_bounded limit r =
     (if limit \<le> length (rs_body r) then Inr (take limit (rs_body r))
      else if rs_fails r then Inl (Transport ''read failed'') else Inr (rs_body r))"

definition redirect_target :: "'u url_lib \<Rightarrow> url_policy \<Rightarrow> 'u validated_url \<Rightarrow> response \<Rightarrow> search_error + 'u validated_url" where
  "redirect_target L pol url r =
     bindR (ok_or (ParseError ''redirect response is missing Location'') (header (rs_headers r) ''location'')) (\<lambda>location.
     bindR (map_err ParseError (ul_join L (vu_url url) location)) (\<lambda>next_url.
     bindR (validate_url L pol (ul_as_str L next_url)) (\<lambda>next_validated.
       if ul_scheme L (vu_url url) = ''https'' \<and> ul_scheme L (vu_url next_validated) \<noteq> ''https''
       then Inl (PolicyDenied ''redirect would downgrade the transport scheme'') else Inr next_validated)))"

definition finish_fetch :: "'u url_lib \<Rightarrow> usize \<Rightarrow> 'u validated_url \<Rightarrow> response \<Rightarrow> search_error + fetch_response" where
  "finish_fetch L max_response_bytes url r =
     (if \<not> (200 \<le> rs_status r \<and> rs_status r < 300) then Inl (HttpStatus (rs_status r))
      else bindR (case header (rs_headers r) ''content-length'' of
                    None \<Rightarrow> Inr ()
                  | Some text \<Rightarrow>
                      bindR (ok_or (ParseError ''invalid Content-Length'') (parse_usize text)) (\<lambda>length.
                        if max_response_bytes < length then Inl (ResponseTooLarge max_response_bytes) else Inr ())) (\<lambda>_.
           bindR (read_bounded (min (max_response_bytes + 1) (2 ^ 64 - 1)) r) (\<lambda>body.
             if max_response_bytes < length body then Inl (ResponseTooLarge max_response_bytes)
             else Inr \<lparr>fr_final_url = ul_as_str L (vu_url url), fr_content_type = header (rs_headers r) ''content-type'', fr_body = body\<rparr>)))"

text \<open>The loop: \<open>left\<close> redirects may still be followed.\<close>

fun fetch_loop ::
  "'u url_lib \<Rightarrow> 'u transport \<Rightarrow> url_policy \<Rightarrow> usize \<Rightarrow> nat \<Rightarrow> nat \<Rightarrow> 'u validated_url \<Rightarrow> (search_error + fetch_response) \<times> 'u request_sent list" where
  "fetch_loop L send pol max_response_bytes n left url =
     (case send n url of
        (Inl e, tr) \<Rightarrow> (Inl e, tr)
      | (Inr r, tr) \<Rightarrow>
          if is_redirect (rs_status r)
          then (case left of
                  0 \<Rightarrow> (Inl (PolicyDenied ''redirect limit exceeded''), tr)
                | Suc left' \<Rightarrow>
                    (case redirect_target L pol url r of
                       Inl e \<Rightarrow> (Inl e, tr)
                     | Inr next_url \<Rightarrow>
                         (case fetch_loop L send pol max_response_bytes (Suc n) left' next_url of (res, tr') \<Rightarrow> (res, tr @ tr'))))
          else (finish_fetch L max_response_bytes url r, tr))"

declare fetch_loop.simps [simp del]

definition fetch_bounded ::
  "'u url_lib \<Rightarrow> 'u transport \<Rightarrow> fetcher \<Rightarrow> str \<Rightarrow> usize \<Rightarrow> (search_error + fetch_response) \<times> 'u request_sent list" where
  "fetch_bounded L send ft input max_response_bytes =
     (if max_response_bytes = 0 \<or> fl_max_response_bytes (ft_limits ft) < max_response_bytes
      then (Inl (Validation ''max_response_bytes'' ''is outside the fetcher's configured range''), [])
      else (case validate_url L (ft_policy ft) input of
              Inl e \<Rightarrow> (Inl e, [])
            | Inr url \<Rightarrow> fetch_loop L send (ft_policy ft) max_response_bytes 0 (fl_max_redirects (ft_limits ft)) url))"

definition fetch :: "'u url_lib \<Rightarrow> 'u transport \<Rightarrow> fetcher \<Rightarrow> str \<Rightarrow> (search_error + fetch_response) \<times> 'u request_sent list" where
  "fetch L send ft input = fetch_bounded L send ft input (fl_max_response_bytes (ft_limits ft))"

section \<open>Extraction\<close>

definition MAX_EXTRACT_URLS :: usize where "MAX_EXTRACT_URLS = 20"
definition MAX_SOURCE_BYTES :: usize where "MAX_SOURCE_BYTES = 10 * 1024 * 1024"
definition MAX_TOTAL_RENDERED_BYTES :: usize where "MAX_TOTAL_RENDERED_BYTES = 40 * 1024 * 1024"

datatype extract_format = FormatMarkdown | FormatText | FormatHtml
datatype content_trust = ExternalUntrusted

record extract_request =
  er_urls :: "str list"
  er_format :: extract_format
  er_max_bytes_per_source :: usize

record partial_failure =
  pf_engine :: "str option"
  pf_kind :: str

record extracted_content =
  ec_requested_url :: str
  ec_final_url :: str
  ec_content_type :: str
  ec_content :: str
  ec_trust :: content_trust

record extract_response =
  ex_results :: "extracted_content list"
  ex_failures :: "partial_failure list"

definition validate_request :: "extract_request \<Rightarrow> search_error + unit" where
  "validate_request req =
     (if er_urls req = [] \<or> MAX_EXTRACT_URLS < length (er_urls req) then Inl (Validation ''urls'' ''must contain 1 to 20 URLs'')
      else if er_max_bytes_per_source req = 0 \<or> MAX_SOURCE_BYTES < er_max_bytes_per_source req
           then Inl (Validation ''max_bytes_per_source'' ''is outside the allowed range'')
      else Inr ())"

text \<open>\<open>str::trim_end\<close>, \<open>str::trim\<close> and \<open>str::lines\<close>.\<close>

definition trim_end :: "str \<Rightarrow> str" where
  "trim_end s = take (hd (filter (\<lambda>n. trim_is_empty (drop n s)) [0..<Suc (length s)])) s"

definition trim_str :: "str \<Rightarrow> str" where
  "trim_str s = trim_end (skip_ws s)"

definition strip_cr :: "str \<Rightarrow> str" where
  "strip_cr line = (if line \<noteq> [] \<and> last line = CHR 0x0D then butlast line else line)"

fun lines_from :: "str \<Rightarrow> str \<Rightarrow> str list" where
  "lines_from acc [] = (if acc = [] then [] else [acc])"
| "lines_from acc (c # s) = (if c = CHR 0x0A then strip_cr acc # lines_from [] s else lines_from (acc @ [c]) s)"

definition str_lines :: "str \<Rightarrow> str list" where
  "str_lines s = lines_from [] s"

definition base_content_type :: "str \<Rightarrow> str" where
  "base_content_type content_type = trim_str (takeWhile (\<lambda>c. c \<noteq> CHR '';'') content_type)"

definition is_html :: "str \<Rightarrow> bool" where
  "is_html content_type \<longleftrightarrow> content_type = ''text/html'' \<or> content_type = ''application/xhtml+xml''"

definition is_text_content :: "str \<Rightarrow> bool" where
  "is_text_content content_type \<longleftrightarrow> starts_with content_type ''text/'' \<or> is_html content_type"

fun join_text_lines :: "str list \<Rightarrow> str" where
  "join_text_lines [] = []"
| "join_text_lines [l] = l"
| "join_text_lines (l # m # ls) = l @ [CHR 0x0A] @ join_text_lines (m # ls)"

definition markdown_to_text :: "str \<Rightarrow> str" where
  "markdown_to_text markdown =
     join_text_lines (map (\<lambda>line. trim_end (dropWhile (\<lambda>c. c \<in> {CHR ''#'', CHR ''>'', CHR ''-'', CHR ''*'', CHR '' ''}) line)) (str_lines markdown))"

text \<open>\<open>convert\<close> stands for \<open>htmd::convert\<close>.\<close>

definition render_content :: "(str \<Rightarrow> str + str) \<Rightarrow> str \<Rightarrow> extract_format \<Rightarrow> fetch_response \<Rightarrow> search_error + extracted_content" where
  "render_content convert requested_url format fetched =
     (case fr_content_type fetched of
        None \<Rightarrow> Inl (UnsupportedContentType ''unknown'')
      | Some value \<Rightarrow>
          let content_type = base_content_type value; decoded = from_utf8_lossy (fr_body fetched)
          in if \<not> is_text_content content_type then Inl (UnsupportedContentType content_type)
             else bindR (case format of
                           FormatMarkdown \<Rightarrow> if is_html content_type then map_err ParseError (convert decoded) else Inr decoded
                         | FormatText \<Rightarrow> if is_html content_type then bindR (map_err ParseError (convert decoded)) (\<lambda>m. Inr (markdown_to_text m)) else Inr decoded
                         | FormatHtml \<Rightarrow> Inr decoded) (\<lambda>content.
                  Inr \<lparr>ec_requested_url = requested_url, ec_final_url = fr_final_url fetched, ec_content_type = content_type,
                       ec_content = content, ec_trust = ExternalUntrusted\<rparr>))"

fun error_kind :: "search_error \<Rightarrow> str" where
  "error_kind (Validation _ _) = ''validation''"
| "error_kind (PolicyDenied _) = ''policy_denial''"
| "error_kind (Auth _) = ''auth''"
| "error_kind (Transport _) = ''transport''"
| "error_kind Timeout = ''timeout''"
| "error_kind (RateLimit _) = ''rate_limit''"
| "error_kind (HttpStatus _) = ''http''"
| "error_kind Challenge = ''challenge''"
| "error_kind (ParseError _) = ''parse''"
| "error_kind (UnsupportedCapability _) = ''unsupported_capability''"
| "error_kind Quota = ''quota''"
| "error_kind (ResponseTooLarge _) = ''response_too_large''"
| "error_kind (TotalTooLarge _) = ''total_too_large''"
| "error_kind (UnsupportedContentType _) = ''unsupported_content_type''"
| "error_kind _ = ''other''"

definition extract_one_bounded ::
  "'u url_lib \<Rightarrow> (str \<Rightarrow> str + str) \<Rightarrow> 'u transport \<Rightarrow> fetcher \<Rightarrow> str \<Rightarrow> extract_format \<Rightarrow> usize
   \<Rightarrow> (search_error + extracted_content) \<times> 'u request_sent list" where
  "extract_one_bounded L convert send ft requested_url format max_response_bytes =
     (case fetch_bounded L send ft requested_url max_response_bytes of
        (r, tr) \<Rightarrow> (bindR r (render_content convert requested_url format), tr))"

definition extract_one ::
  "'u url_lib \<Rightarrow> (str \<Rightarrow> str + str) \<Rightarrow> 'u transport \<Rightarrow> fetcher \<Rightarrow> str \<Rightarrow> extract_format \<Rightarrow> (search_error + extracted_content) \<times> 'u request_sent list" where
  "extract_one L convert send ft requested_url format =
     (case fetch L send ft requested_url of (r, tr) \<Rightarrow> (bindR r (render_content convert requested_url format), tr))"

record extraction =
  xs_results :: "extracted_content list"
  xs_failures :: "partial_failure list"
  xs_first_error :: "search_error option"
  xs_total_rendered :: usize

text \<open>The loop over the URLs; \<open>sends k\<close> is the transport while the \<open>k\<close>th of them is fetched.\<close>

fun extract_loop ::
  "'u url_lib \<Rightarrow> (str \<Rightarrow> str + str) \<Rightarrow> (nat \<Rightarrow> 'u transport) \<Rightarrow> fetcher \<Rightarrow> extract_request \<Rightarrow> nat \<Rightarrow> str list \<Rightarrow> extraction
   \<Rightarrow> (search_error + extraction) \<times> 'u request_sent list" where
  "extract_loop L convert sends ft req k [] x = (Inr x, [])"
| "extract_loop L convert sends ft req k (url # urls) x =
     (case extract_one_bounded L convert (sends k) ft url (er_format req) (er_max_bytes_per_source req) of
        (Inr content, tr) \<Rightarrow>
          let rendered = xs_total_rendered x + length (ec_content content)
          in if MAX_TOTAL_RENDERED_BYTES < rendered then (Inl (TotalTooLarge MAX_TOTAL_RENDERED_BYTES), tr)
             else (case extract_loop L convert sends ft req (Suc k) urls (x\<lparr>xs_results := xs_results x @ [content], xs_total_rendered := rendered\<rparr>) of
                     (r, tr') \<Rightarrow> (r, tr @ tr'))
      | (Inl e, tr) \<Rightarrow>
          (case extract_loop L convert sends ft req (Suc k) urls
                  (x\<lparr>xs_failures := xs_failures x @ [\<lparr>pf_engine = None, pf_kind = error_kind e\<rparr>],
                     xs_first_error := (case xs_first_error x of None \<Rightarrow> Some e | Some e0 \<Rightarrow> Some e0)\<rparr>) of
             (r, tr') \<Rightarrow> (r, tr @ tr')))"

definition extract_all ::
  "'u url_lib \<Rightarrow> (str \<Rightarrow> str + str) \<Rightarrow> (nat \<Rightarrow> 'u transport) \<Rightarrow> fetcher \<Rightarrow> extract_request \<Rightarrow> (search_error + extract_response) \<times> 'u request_sent list" where
  "extract_all L convert sends ft req =
     (case validate_request req of
        Inl e \<Rightarrow> (Inl e, [])
      | Inr _ \<Rightarrow>
          (case extract_loop L convert sends ft req 0 (er_urls req) \<lparr>xs_results = [], xs_failures = [], xs_first_error = None, xs_total_rendered = 0\<rparr> of
             (r, tr) \<Rightarrow>
               (bindR r (\<lambda>x.
                  if xs_results x = []
                  then Inl (case xs_first_error x of Some e \<Rightarrow> e | None \<Rightarrow> Validation ''urls'' ''operation produced no usable output'')
                  else Inr \<lparr>ex_results = xs_results x, ex_failures = xs_failures x\<rparr>), tr)))"

end
