(* ===== verification/Special_Addresses.thy ===== *)
theory Special_Addresses
  imports Search_Fetch
begin

unbundle bit_operations_syntax

text \<open>
  The tests on the parts of an address that the policy makes are membership in a table of blocks of addresses.
\<close>

section \<open>Blocks of addresses\<close>

fun v4_number :: "ipv4 \<Rightarrow> nat" where
  "v4_number (Ipv4 a b c d) = ((unat a * 256 + unat b) * 256 + unat c) * 256 + unat d"

text \<open>An address is in a block when its first \<open>n\<close> of 32 bits are those of the base.\<close>

definition in_block4 :: "ipv4 \<Rightarrow> ipv4 \<times> nat \<Rightarrow> bool" where
  "in_block4 address block \<longleftrightarrow> v4_number address div 2 ^ (32 - snd block) = v4_number (fst block) div 2 ^ (32 - snd block)"

definition special_blocks4 :: "(ipv4 \<times> nat) list" where
  "special_blocks4 =
     [(Ipv4 0 0 0 0, 8), (Ipv4 10 0 0 0, 8), (Ipv4 100 64 0 0, 10), (Ipv4 127 0 0 0, 8), (Ipv4 169 254 0 0, 16), (Ipv4 172 16 0 0, 12),
      (Ipv4 192 0 0 0, 24), (Ipv4 192 0 2 0, 24), (Ipv4 192 168 0 0, 16), (Ipv4 198 18 0 0, 15), (Ipv4 198 51 100 0, 24),
      (Ipv4 203 0 113 0, 24), (Ipv4 224 0 0 0, 4), (Ipv4 240 0 0 0, 4)]"

lemma div_byte: "d < 256 \<Longrightarrow> (x * 256 + d) div (256 * k) = x div (k :: nat)"
  by (simp add: div_mult2_eq)

lemma digit_eq:
  assumes "y < b" "y' < b"
  shows "x * b + y = x' * b + y' \<longleftrightarrow> x = x' \<and> y = (y' :: nat)"
proof -
  have "(x * b + y) div b = x" "(x' * b + y') div b = x'" using assms by simp_all
  then show ?thesis by auto
qed

lemma byte_less: "unat (x :: u8) < 256"
  using unsigned_less [of x] by simp

lemma v4_prefix:
  "v4_number (Ipv4 a b c d) div 2 ^ 8 = (unat a * 256 + unat b) * 256 + unat c"
  "v4_number (Ipv4 a b c d) div 2 ^ (16 + k) = (unat a * 256 + unat b) div 2 ^ k"
  "v4_number (Ipv4 a b c d) div 2 ^ (24 + k) = unat a div 2 ^ k"
proof -
  note byte = div_byte [OF byte_less]
  show "v4_number (Ipv4 a b c d) div 2 ^ 8 = (unat a * 256 + unat b) * 256 + unat c"
    unfolding v4_number.simps using byte [of _ d 1] by (simp only: mult_1_right div_by_1) simp
  have two: "(2 :: nat) ^ (16 + k) = 256 * (256 * 2 ^ k)" and three: "(2 :: nat) ^ (24 + k) = 256 * (256 * (256 * 2 ^ k))"
    by (simp_all add: power_add)
  show "v4_number (Ipv4 a b c d) div 2 ^ (16 + k) = (unat a * 256 + unat b) div 2 ^ k"
    unfolding v4_number.simps two by (simp only: byte)
  show "v4_number (Ipv4 a b c d) div 2 ^ (24 + k) = unat a div 2 ^ k"
    unfolding v4_number.simps three by (simp only: byte)
qed

lemma in_block4_prefix:
  "in_block4 (Ipv4 a b c d) (Ipv4 a' b' c' d', 24) \<longleftrightarrow> a = a' \<and> b = b' \<and> c = c'"
  "in_block4 (Ipv4 a b c d) (Ipv4 a' b' c' d', 16) \<longleftrightarrow> a = a' \<and> b = b'"
  "in_block4 (Ipv4 a b c d) (Ipv4 a' b' c' d', 15) \<longleftrightarrow> a = a' \<and> unat b div 2 = unat b' div 2"
  "in_block4 (Ipv4 a b c d) (Ipv4 a' b' c' d', 12) \<longleftrightarrow> a = a' \<and> unat b div 16 = unat b' div 16"
  "in_block4 (Ipv4 a b c d) (Ipv4 a' b' c' d', 10) \<longleftrightarrow> a = a' \<and> unat b div 64 = unat b' div 64"
  "in_block4 (Ipv4 a b c d) (Ipv4 a' b' c' d', 8) \<longleftrightarrow> a = a'"
  "in_block4 (Ipv4 a b c d) (Ipv4 a' b' c' d', 4) \<longleftrightarrow> unat a div 16 = unat a' div 16"
proof -
  note lt = byte_less
  have eq: "unat x = unat y \<longleftrightarrow> x = y" for x y :: u8 by (simp add: word_unat_eq_iff)
  note pair = digit_eq [where b = 256]
  have exponent: "(32 :: nat) - 24 = 8" "(32 :: nat) - 15 = 16 + 1" "(32 :: nat) - 12 = 16 + 4" "(32 :: nat) - 10 = 16 + 6" by simp_all
  have power4: "(2 :: nat) ^ 4 = 16" and power6: "(2 :: nat) ^ 6 = 64" by simp_all
  have whole: "256 = 2 * (128 :: nat)" "256 = 16 * (16 :: nat)" "256 = 64 * (4 :: nat)" by simp_all
  note p = v4_prefix [of a b c d] v4_prefix [of a' b' c' d']
  show "in_block4 (Ipv4 a b c d) (Ipv4 a' b' c' d', 24) \<longleftrightarrow> a = a' \<and> b = b' \<and> c = c'"
    using p(1,4) by (simp only: in_block4_def fst_conv snd_conv exponent pair [OF lt lt] eq) simp
  show "in_block4 (Ipv4 a b c d) (Ipv4 a' b' c' d', 16) \<longleftrightarrow> a = a' \<and> b = b'"
    using p(2,5) [of 0] by (simp add: in_block4_def pair lt eq del: v4_number.simps)
  show "in_block4 (Ipv4 a b c d) (Ipv4 a' b' c' d', 8) \<longleftrightarrow> a = a'"
    using p(3,6) [of 0] by (simp add: in_block4_def eq del: v4_number.simps)
  show "in_block4 (Ipv4 a b c d) (Ipv4 a' b' c' d', 4) \<longleftrightarrow> unat a div 16 = unat a' div 16"
    using p(3,6) [of 4] by (simp add: in_block4_def del: v4_number.simps)
  have split: "(x * 256 + y) div k = (x' * 256 + y') div k \<longleftrightarrow> x = x' \<and> y div k = y' div k"
    if "y < 256" "y' < 256" "256 = k * m" for x y x' y' k m :: nat
  proof -
    have "0 < k" using that(3) by (cases k) simp_all
    have "x * 256 + y = y + (x * m) * k" for x y unfolding that(3) by simp
    then have d: "(x * 256 + y) div k = x * m + y div k" for x y using \<open>0 < k\<close> by (simp only: div_mult_self1)
    have "y div k < m" if "y < 256" for y using that \<open>256 = k * m\<close> by (simp add: less_mult_imp_div_less mult.commute)
    then show ?thesis using that(1,2) unfolding d by (metis add.commute div_mult_self1 div_less add_cancel_left_left less_nat_zero_code mod_less mod_mult_self1)
  qed
  show "in_block4 (Ipv4 a b c d) (Ipv4 a' b' c' d', 15) \<longleftrightarrow> a = a' \<and> unat b div 2 = unat b' div 2"
    unfolding in_block4_def fst_conv snd_conv exponent v4_prefix power_one_right split [OF lt lt whole(1)] eq by (rule refl)
  show "in_block4 (Ipv4 a b c d) (Ipv4 a' b' c' d', 12) \<longleftrightarrow> a = a' \<and> unat b div 16 = unat b' div 16"
    unfolding in_block4_def fst_conv snd_conv exponent v4_prefix power4 split [OF lt lt whole(2)] eq by (rule refl)
  show "in_block4 (Ipv4 a b c d) (Ipv4 a' b' c' d', 10) \<longleftrightarrow> a = a' \<and> unat b div 64 = unat b' div 64"
    unfolding in_block4_def fst_conv snd_conv exponent v4_prefix power6 split [OF lt lt whole(3)] eq by (rule refl)
qed

lemma special_v4_blocks: "is_special_v4 a \<longleftrightarrow> list_ex (in_block4 a) special_blocks4"
proof (cases a)
  case (Ipv4 w x y z)
  have ge: "240 \<le> w \<or> 224 \<le> w \<and> w \<le> 239 \<longleftrightarrow> unat w div 16 = 14 \<or> unat w div 16 = 15"
    using byte_less [of w] by (auto simp: word_le_nat_alt)
  have range: "16 \<le> x \<and> x \<le> 31 \<longleftrightarrow> unat x div 16 = 1" "64 \<le> x \<and> x \<le> 127 \<longleftrightarrow> unat x div 64 = 1"
    "18 \<le> x \<and> x \<le> 19 \<longleftrightarrow> unat x div 2 = 9"
    by (auto simp: word_le_nat_alt)
  have cast: "w = 255 \<Longrightarrow> 240 \<le> w" by simp
  show ?thesis
    using ge range unfolding Ipv4
    by (simp add: is_special_v4_def special_blocks4_def in_block4_prefix) (use cast in argo)
qed

text \<open>The same for IPv6: the segments are the digits of a number.\<close>

definition seg_number :: "u16 list \<Rightarrow> nat" where
  "seg_number ws = foldl (\<lambda>n w. n * 65536 + unat w) 0 ws"

fun v6_segments :: "ipv6 \<Rightarrow> u16 list" where
  "v6_segments (Ipv6 a b c d e f g h) = [a, b, c, d, e, f, g, h]"

definition v6_number :: "ipv6 \<Rightarrow> nat" where
  "v6_number a = seg_number (v6_segments a)"

definition in_block6 :: "ipv6 \<Rightarrow> ipv6 \<times> nat \<Rightarrow> bool" where
  "in_block6 address block \<longleftrightarrow> v6_number address div 2 ^ (128 - snd block) = v6_number (fst block) div 2 ^ (128 - snd block)"

definition special_blocks6 :: "(ipv6 \<times> nat) list" where
  "special_blocks6 =
     [(Ipv6 0 0 0 0 0 0 0 1, 128), (Ipv6 0 0 0 0 0 0 0 0, 128), (Ipv6 0xff00 0 0 0 0 0 0 0, 8), (Ipv6 0xfc00 0 0 0 0 0 0 0, 7),
      (Ipv6 0xfe80 0 0 0 0 0 0 0, 10), (Ipv6 0xfec0 0 0 0 0 0 0 0, 10), (Ipv6 0x2001 0x0db8 0 0 0 0 0 0, 32), (Ipv6 0x0100 0 0 0 0 0 0 0, 32)]"

text \<open>Blocks whose last 32 bits are an IPv4 address: mapped, compatible and NAT64.\<close>

definition embedding_blocks6 :: "(ipv6 \<times> nat) list" where
  "embedding_blocks6 = [(Ipv6 0 0 0 0 0 0xffff 0 0, 96), (Ipv6 0 0 0 0 0 0 0 0, 96), (Ipv6 0x64 0xff9b 0 0 0 0 0 0, 96)]"

lemma seg_less: "unat (w :: u16) < 65536"
  using unsigned_less [of w] by simp

lemma seg_number_snoc: "seg_number (ws @ [w]) = seg_number ws * 65536 + unat w"
  by (simp add: seg_number_def)

lemma seg_number_drop: "seg_number (ws @ vs) div 65536 ^ length vs = seg_number ws"
proof (induction vs rule: rev_induct)
  case (snoc v vs)
  have "seg_number (ws @ vs @ [v]) div 65536 = seg_number (ws @ vs)"
    using seg_number_snoc [of "ws @ vs" v] seg_less [of v] by simp
  with snoc show ?case by (simp add: div_mult2_eq)
qed simp

lemma seg_number_inject: "length ws = length vs \<Longrightarrow> seg_number ws = seg_number vs \<longleftrightarrow> ws = vs"
proof (induction ws vs rule: rev_induct2)
  case (4 w ws v vs)
  have "x * 65536 + unat w = y * 65536 + unat v \<longleftrightarrow> x = y \<and> w = v" for x y
    by (simp only: digit_eq [OF seg_less seg_less] word_unat_eq_iff)
  with 4 show ?case by (simp add: seg_number_snoc)
qed simp_all

lemma in_block6_segments:
  assumes "v6_segments a = ws @ vs" "v6_segments b = ws' @ vs'" "length ws = m" "length ws' = m"
  shows "in_block6 a (b, 16 * m) \<longleftrightarrow> ws = ws'"
proof -
  have len: "length (v6_segments x) = 8" for x by (cases x) simp
  have "length vs = 8 - m" "length vs' = 8 - m" using len [of a] len [of b] assms by simp_all
  moreover have "(2 :: nat) ^ (128 - 16 * m) = 65536 ^ (8 - m)" using power_mult [of "2 :: nat" 16 "8 - m"] by (simp add: diff_mult_distrib2)
  ultimately show ?thesis
    using seg_number_drop [of ws vs] seg_number_drop [of ws' vs'] seg_number_inject [of ws ws'] assms
    by (simp add: in_block6_def v6_number_def)
qed

lemma in_block6_first:
  assumes "k \<le> 16"
  shows "in_block6 (Ipv6 a b c d e f g h) (Ipv6 a' b' c' d' e' f' g' h', k) \<longleftrightarrow> unat a div 2 ^ (16 - k) = unat a' div 2 ^ (16 - k)"
proof -
  have "(2 :: nat) ^ (128 - k) = 65536 ^ 7 * 2 ^ (16 - k)" using assms power_add [of "2 :: nat" 112 "16 - k"] by (simp add: power_mult [of 2 16 7, simplified])
  then show ?thesis
    using seg_number_drop [of "[a]" "[b, c, d, e, f, g, h]"] seg_number_drop [of "[a']" "[b', c', d', e', f', g', h']"]
    by (simp only: in_block6_def v6_number_def v6_segments.simps fst_conv snd_conv div_mult2_eq append.simps list.size) (simp add: seg_number_def)
qed

lemma and_prefix:
  fixes a :: u16
  shows "a AND NOT (mask n) = push_bit n (drop_bit n v) \<longleftrightarrow> unat a div 2 ^ n = unat v div 2 ^ n"
proof -
  have "drop_bit n (push_bit n (drop_bit n x)) = drop_bit n x" for x :: u16
    by (rule bit_eqI) (auto simp: bit_drop_bit_eq bit_push_bit_iff dest: bit_imp_possible_bit)
  then have inj: "push_bit n (drop_bit n x) = push_bit n (drop_bit n y) \<longleftrightarrow> drop_bit n x = drop_bit n y" for x y :: u16
    by metis
  have "a AND NOT (mask n) = push_bit n (drop_bit n a)"
    by (rule bit_eqI) (auto simp: bit_and_iff bit_not_iff bit_mask_iff bit_push_bit_iff bit_drop_bit_eq)
  also have "\<dots> = push_bit n (drop_bit n v) \<longleftrightarrow> drop_bit n a = drop_bit n v"
    by (rule inj)
  also have "\<dots> \<longleftrightarrow> unat a div 2 ^ n = unat v div 2 ^ n"
    unfolding word_unat_eq_iff unat_drop_bit_eq by (simp add: drop_bit_eq_div)
  finally show ?thesis .
qed

lemma and_blocks:
  fixes a :: u16
  shows "a AND 0xff00 = 0xff00 \<longleftrightarrow> unat a div 2 ^ 8 = unat (0xff00 :: u16) div 2 ^ 8"
    "a AND 0xfe00 = 0xfc00 \<longleftrightarrow> unat a div 2 ^ 9 = unat (0xfc00 :: u16) div 2 ^ 9"
    "a AND 0xffc0 = 0xfe80 \<longleftrightarrow> unat a div 2 ^ 6 = unat (0xfe80 :: u16) div 2 ^ 6"
    "a AND 0xffc0 = 0xfec0 \<longleftrightarrow> unat a div 2 ^ 6 = unat (0xfec0 :: u16) div 2 ^ 6"
proof -
  have masks: "NOT (mask 8) = (0xff00 :: u16)" "NOT (mask 9) = (0xfe00 :: u16)" "NOT (mask 6) = (0xffc0 :: u16)"
    by (simp_all add: mask_eq_exp_minus_1 not_eq_complement)
  have parts: "push_bit 8 (drop_bit 8 0xff00) = (0xff00 :: u16)" "push_bit 9 (drop_bit 9 0xfc00) = (0xfc00 :: u16)"
    "push_bit 6 (drop_bit 6 0xfe80) = (0xfe80 :: u16)" "push_bit 6 (drop_bit 6 0xfec0) = (0xfec0 :: u16)"
    by simp_all
  show "a AND 0xff00 = 0xff00 \<longleftrightarrow> unat a div 2 ^ 8 = unat (0xff00 :: u16) div 2 ^ 8"
    using and_prefix [of a 8 "0xff00"] unfolding masks parts .
  show "a AND 0xfe00 = 0xfc00 \<longleftrightarrow> unat a div 2 ^ 9 = unat (0xfc00 :: u16) div 2 ^ 9"
    using and_prefix [of a 9 "0xfc00"] unfolding masks parts .
  show "a AND 0xffc0 = 0xfe80 \<longleftrightarrow> unat a div 2 ^ 6 = unat (0xfe80 :: u16) div 2 ^ 6"
    using and_prefix [of a 6 "0xfe80"] unfolding masks parts .
  show "a AND 0xffc0 = 0xfec0 \<longleftrightarrow> unat a div 2 ^ 6 = unat (0xfec0 :: u16) div 2 ^ 6"
    using and_prefix [of a 6 "0xfec0"] unfolding masks parts .
qed

lemma low_v4_number: "v4_number (low_v4 g h) = unat g * 65536 + unat h"
proof -
  have lo: "unat (ucast w :: u8) = unat w mod 256" for w :: u16
    by (simp add: unsigned_ucast_eq take_bit_eq_mod)
  have hi: "unat (ucast (drop_bit 8 w) :: u8) = unat w div 256" for w :: u16
    unfolding lo unat_drop_bit_eq using seg_less [of w] by (simp add: drop_bit_eq_div)
  have shift: "(x * 256 + q) * 256 + r = x * 65536 + (q * 256 + r)" for x q r :: nat by simp
  show ?thesis
    unfolding low_v4_def v4_number.simps hi unfolding lo div_mult_mod_eq shift by (rule refl)
qed

lemma v6_number_low: "v6_number (Ipv6 a b c d e f g h) mod 2 ^ 32 = v4_number (low_v4 g h)"
proof -
  have "v6_number (Ipv6 a b c d e f g h) = (seg_number [a, b, c, d, e, f] * 65536 + unat g) * 65536 + unat h"
    using seg_number_snoc [of "[a, b, c, d, e, f, g]" h] seg_number_snoc [of "[a, b, c, d, e, f]" g] by (simp add: v6_number_def)
  also have "\<dots> = seg_number [a, b, c, d, e, f] * 2 ^ 32 + (unat g * 65536 + unat h)" by (simp add: algebra_simps)
  finally have eq: "v6_number (Ipv6 a b c d e f g h) = seg_number [a, b, c, d, e, f] * 2 ^ 32 + v4_number (low_v4 g h)"
    by (simp only: low_v4_number)
  have "v4_number (low_v4 g h) < 2 ^ 32" unfolding low_v4_number using seg_less [of g] seg_less [of h] by simp
  then show ?thesis unfolding eq by simp
qed

definition embeds_special :: "ipv6 \<Rightarrow> bool" where
  "embeds_special address \<longleftrightarrow> (\<exists>v. v4_number v = v6_number address mod 2 ^ 32 \<and> list_ex (in_block4 v) special_blocks4)"

lemma embeds_special: "embeds_special (Ipv6 a b c d e f g h) \<longleftrightarrow> is_special_v4 (low_v4 g h)"
proof -
  have "list_ex (in_block4 v) blocks = list_ex (in_block4 w) blocks" if "v4_number v = v4_number w" for v w blocks
    using that by (simp add: in_block4_def [abs_def])
  then show ?thesis unfolding embeds_special_def v6_number_low special_v4_blocks by blast
qed

lemma in_block6_prefix:
  "in_block6 (Ipv6 a b c d e f g h) (Ipv6 a' b' c' d' e' f' g' h', 128) \<longleftrightarrow>
     a = a' \<and> b = b' \<and> c = c' \<and> d = d' \<and> e = e' \<and> f = f' \<and> g = g' \<and> h = h'"
  "in_block6 (Ipv6 a b c d e f g h) (Ipv6 a' b' c' d' e' f' g' h', 96) \<longleftrightarrow>
     a = a' \<and> b = b' \<and> c = c' \<and> d = d' \<and> e = e' \<and> f = f'"
  "in_block6 (Ipv6 a b c d e f g h) (Ipv6 a' b' c' d' e' f' g' h', 32) \<longleftrightarrow> a = a' \<and> b = b'"
  using in_block6_segments [of "Ipv6 a b c d e f g h" "[a, b, c, d, e, f, g, h]" "[]" "Ipv6 a' b' c' d' e' f' g' h'" "[a', b', c', d', e', f', g', h']" "[]" 8]
    in_block6_segments [of "Ipv6 a b c d e f g h" "[a, b, c, d, e, f]" "[g, h]" "Ipv6 a' b' c' d' e' f' g' h'" "[a', b', c', d', e', f']" "[g', h']" 6]
    in_block6_segments [of "Ipv6 a b c d e f g h" "[a, b]" "[c, d, e, f, g, h]" "Ipv6 a' b' c' d' e' f' g' h'" "[a', b']" "[c', d', e', f', g', h']" 2]
  by simp_all

lemma special_v6_blocks:
  "is_special_v6 address \<longleftrightarrow> list_ex (in_block6 address) special_blocks6 \<or> list_ex (in_block6 address) embedding_blocks6 \<and> embeds_special address"
proof (cases address)
  case (Ipv6 a b c d e f g h)
  note first = in_block6_first [of 8 a b c d e f g h] in_block6_first [of 7 a b c d e f g h] in_block6_first [of 10 a b c d e f g h]
  show ?thesis
    unfolding Ipv6 embeds_special
    by (simp add: is_special_v6_def some_special_v4_def special_blocks6_def embedding_blocks6_def in_block6_prefix first and_blocks) argo
qed

text \<open>C39. An address is special-use exactly when it lies in the table of blocks: for IPv4 one of the fourteen blocks of
  special_blocks4; for IPv6 one of the blocks of special_blocks6, or a mapped, compatible or NAT64 address whose last 32 bits are
  those of an IPv4 address of the table. A block is all addresses that share the first bits of its base.\<close>

theorem special_addresses_table:
  "(is_special_use (V4 v) \<longleftrightarrow> list_ex (in_block4 v) special_blocks4)
   \<and> (is_special_use (V6 w) \<longleftrightarrow>
        list_ex (in_block6 w) special_blocks6
        \<or> list_ex (in_block6 w) embedding_blocks6 \<and> (\<exists>u. v4_number u = v6_number w mod 2 ^ 32 \<and> list_ex (in_block4 u) special_blocks4))"
  using special_v4_blocks [of v] special_v6_blocks [of w] by (simp add: embeds_special_def)

end
