(* ===== verification/Fetch_Guarantees.thy ===== *)
theory Fetch_Guarantees
  imports Special_Addresses "HOL-Library.Sublist"
begin

text \<open>
  What fetching promises. A transport that connects only to addresses it has checked is a locale; the connections
  of a whole fetch and of an extraction follow from it, and the HTTP transport is an instance.
\<close>

section \<open>What the policy lets through\<close>

text \<open>Removing the fragment of a URL leaves its other parts.\<close>

definition keeps_parts :: "'u url_lib \<Rightarrow> bool" where
  "keeps_parts L \<longleftrightarrow>
     (\<forall>u. ul_scheme L (ul_without_fragment L u) = ul_scheme L u \<and> ul_username L (ul_without_fragment L u) = ul_username L u
        \<and> ul_password L (ul_without_fragment L u) = ul_password L u)"

definition permitted :: "'u url_lib \<Rightarrow> url_policy \<Rightarrow> 'u \<Rightarrow> bool" where
  "permitted L pol u \<longleftrightarrow>
     ul_scheme L u \<in> {''http'', ''https''} \<and> ul_username L u = [] \<and> ul_password L u = None
     \<and> (up_trust_class pol = ConfiguredService \<longrightarrow> up_service_origin pol = Some (ul_origin L u))"

definition reachable_address :: "service_scope option \<Rightarrow> ip_addr \<Rightarrow> bool" where
  "reachable_address scope a \<longleftrightarrow> (if scope = Some ManagedLoopback then is_loopback a else \<not> is_special_use a)"

lemma validate_resolved_ip_ok: "validate_resolved_ip scope a = Inr x \<longleftrightarrow> reachable_address scope a"
  by (cases x) (simp add: validate_resolved_ip_def reachable_address_def)

lemma validate_url_ok:
  assumes "keeps_parts L" "validate_url L pol input = Inr v"
  shows "permitted L pol (vu_url v)" "vu_service_scope v = up_service_scope pol"
  using assms
  by (auto simp: validate_url_def parse_http_url_def permitted_def keeps_parts_def Let_def result_simps
      split: if_splits option.splits)

lemma redirect_target_ok:
  assumes "redirect_target L pol url r = Inr v"
  shows "\<exists>input. validate_url L pol input = Inr v" "ul_scheme L (vu_url url) = ''https'' \<Longrightarrow> ul_scheme L (vu_url v) = ''https''"
  using assms by (auto simp: redirect_target_def result_simps split: if_splits)

lemma pin_all_ok: "pin_all scope addresses pins = Inr pins' \<Longrightarrow> pins' = pins @ addresses \<and> list_all (reachable_address scope) addresses"
  by (induction scope addresses pins rule: pin_all.induct) (auto simp: result_simps validate_resolved_ip_ok)

lemma resolve_and_validate_ok:
  assumes "resolve_and_validate L resolve url = Inr pins"
  shows "list_all (reachable_address (vu_service_scope url)) (connect_addresses L (vu_url url) pins)"
  using assms
  by (auto simp: resolve_and_validate_def connect_addresses_def result_simps validate_resolved_ip_ok
      split: option.splits if_splits dest!: pin_all_ok)

section \<open>Transports\<close>

definition https_from_then :: "'u url_lib \<Rightarrow> 'u request_sent list \<Rightarrow> bool" where
  "https_from_then L tr \<longleftrightarrow>
     sorted_wrt (\<lambda>(u, _) (v, _). ul_scheme L u = ''https'' \<longrightarrow> ul_scheme L v = ''https'') tr"

lemma fetch_loop_trace:
  "snd (fetch_loop L send pol m n left url) = snd (send n url)
   \<or> (\<exists>left' r v. left = Suc left' \<and> redirect_target L pol url r = Inr v
        \<and> snd (fetch_loop L send pol m n left url) = snd (send n url) @ snd (fetch_loop L send pol m (Suc n) left' v))"
  by (subst (1 2) fetch_loop.simps) (fastforce split: prod.split sum.split nat.split)

locale checked_transport =
  fixes send :: "'u transport"
  assumes send_url: "(u, addresses) \<in> set (snd (send n url)) \<Longrightarrow> u = vu_url url"
    and send_checked: "(u, addresses) \<in> set (snd (send n url)) \<Longrightarrow> list_all (reachable_address (vu_service_scope url)) addresses"
    and send_once: "length (snd (send n url)) \<le> 1"
begin

lemma fetch_loop_length: "length (snd (fetch_loop L send pol m n left url)) \<le> Suc left"
proof (induction left arbitrary: n url)
  case 0
  show ?case using send_once [of n url] fetch_loop_trace [of L send pol m n 0 url] by auto
next
  case (Suc left)
  show ?case using fetch_loop_trace [of L send pol m n "Suc left" url] send_once [of n url] Suc add_mono [OF send_once Suc] by fastforce
qed

lemma fetch_loop_connections:
  assumes "keeps_parts L" "permitted L pol (vu_url url)" "vu_service_scope url = up_service_scope pol"
    and "(u, addresses) \<in> set (snd (fetch_loop L send pol m n left url))"
  shows "permitted L pol u \<and> list_all (reachable_address (up_service_scope pol)) addresses"
  using assms(2-)
proof (induction left arbitrary: n url)
  case 0
  then show ?case
    using send_url [of u addresses n url] send_checked [of u addresses n url] fetch_loop_trace [of L send pol m n 0 url] by auto
next
  case (Suc left)
  have *: "permitted L pol (vu_url v) \<and> vu_service_scope v = up_service_scope pol" if "redirect_target L pol url r = Inr v" for v r
    using redirect_target_ok(1) [OF that] validate_url_ok [OF assms(1)] by metis
  show ?case
    using fetch_loop_trace [of L send pol m n "Suc left" url]
  proof (elim disjE exE conjE)
    fix left' r v
    assume "Suc left = Suc left'" "redirect_target L pol url r = Inr v"
      "snd (fetch_loop L send pol m n (Suc left) url) = snd (send n url) @ snd (fetch_loop L send pol m (Suc n) left' v)"
    then show ?thesis
      using Suc.prems Suc.IH [of v "Suc n"] * [of r v] send_url [of u addresses n url] send_checked [of u addresses n url] by auto
  qed (use Suc.prems send_url [of u addresses n url] send_checked [of u addresses n url] in auto)
qed

lemma fetch_loop_https:
  assumes "ul_scheme L (vu_url url) = ''https''" "(u, addresses) \<in> set (snd (fetch_loop L send pol m n left url))"
  shows "ul_scheme L u = ''https''"
  using assms
proof (induction left arbitrary: n url)
  case 0
  then show ?case using send_url [of u addresses n url] fetch_loop_trace [of L send pol m n 0 url] by auto
next
  case (Suc left)
  show ?case
    using fetch_loop_trace [of L send pol m n "Suc left" url]
  proof (elim disjE exE conjE)
    fix left' r v
    assume "Suc left = Suc left'" "redirect_target L pol url r = Inr v"
      "snd (fetch_loop L send pol m n (Suc left) url) = snd (send n url) @ snd (fetch_loop L send pol m (Suc n) left' v)"
    then show ?thesis
      using Suc.prems Suc.IH [of v "Suc n"] redirect_target_ok(2) [of L pol url r v] send_url [of u addresses n url] by auto
  qed (use Suc.prems send_url [of u addresses n url] in auto)
qed

lemma send_https: "https_from_then L (snd (send n url))"
  using send_once [of n url] by (cases "snd (send n url)") (simp_all add: https_from_then_def)

lemma fetch_loop_no_downgrade: "https_from_then L (snd (fetch_loop L send pol m n left url))"
proof (induction left arbitrary: n url)
  case 0
  show ?case using send_https [of L n url] fetch_loop_trace [of L send pol m n 0 url] by auto
next
  case (Suc left)
  show ?case
    using fetch_loop_trace [of L send pol m n "Suc left" url]
  proof (elim disjE exE conjE)
    fix left' r v
    assume left: "Suc left = Suc left'" and r: "redirect_target L pol url r = Inr v"
      and trace: "snd (fetch_loop L send pol m n (Suc left) url) = snd (send n url) @ snd (fetch_loop L send pol m (Suc n) left' v)"
    have "ul_scheme L w = ''https''"
      if "(u, as) \<in> set (snd (send n url))" "ul_scheme L u = ''https''" "(w, bs) \<in> set (snd (fetch_loop L send pol m (Suc n) left' v))" for u as w bs
      using that send_url [of u as n url] redirect_target_ok(2) [OF r] fetch_loop_https [of L v w bs] by auto
    then show ?thesis
      using Suc.IH [of "Suc n" v] send_https [of L n url] left unfolding trace by (auto simp: https_from_then_def sorted_wrt_append)
  qed (use send_https in simp)
qed

end

interpretation ht: checked_transport "http_send L net" for L net
proof
  fix u addresses n url
  assume c: "(u, addresses) \<in> set (snd (http_send L net n url))"
  then show "u = vu_url url" by (auto simp: http_send_def Let_def split: sum.splits)
  show "list_all (reachable_address (vu_service_scope url)) addresses"
    using c by (auto simp: http_send_def Let_def resolve_and_validate_ok split: sum.splits)
next
  show "length (snd (http_send L net n url)) \<le> 1" for n url by (simp add: http_send_def Let_def split: sum.splits)
qed

section \<open>Whole fetches\<close>

lemma fetch_bounded_trace:
  "snd (fetch_bounded L send ft input m) = []
   \<or> (\<exists>url. validate_url L (ft_policy ft) input = Inr url
        \<and> fetch_bounded L send ft input m = fetch_loop L send (ft_policy ft) m 0 (fl_max_redirects (ft_limits ft)) url)"
  by (auto simp: fetch_bounded_def split: sum.split)

lemma service_ok:
  assumes "service L endpoint scope = Inr pol"
  shows "up_trust_class pol = ConfiguredService" "up_service_scope pol = Some scope"
    "\<exists>e. ul_parse L endpoint = Inr e \<and> up_service_origin pol = Some (ul_origin L e)"
  using assms by (auto simp: service_def parse_http_url_def result_simps split: if_splits)

lemma finish_fetch_size: "finish_fetch L m url r = Inr resp \<Longrightarrow> length (fr_body resp) \<le> m"
  by (auto simp: finish_fetch_def result_simps split: if_splits)

lemma fetch_loop_size: "fst (fetch_loop L send pol m n left url) = Inr resp \<Longrightarrow> length (fr_body resp) \<le> m"
proof (induction left arbitrary: n url)
  case 0
  then show ?case
    by (subst (asm) fetch_loop.simps) (auto split: prod.splits sum.splits if_splits dest: finish_fetch_size)
next
  case (Suc left)
  from Suc.prems show ?case
    by (subst (asm) fetch_loop.simps) (auto split: prod.splits sum.splits if_splits dest: finish_fetch_size, metis Suc.IH fst_conv)
qed

context checked_transport
begin

lemma fetch_connections:
  assumes "keeps_parts L" "(u, addresses) \<in> set (snd (fetch_bounded L send ft input m))"
  shows "permitted L (ft_policy ft) u" "list_all (reachable_address (up_service_scope (ft_policy ft))) addresses"
  using fetch_bounded_trace [of L send ft input m] assms
    fetch_loop_connections [OF assms(1), where pol = "ft_policy ft"] validate_url_ok [OF assms(1), where pol = "ft_policy ft"]
  by fastforce+

lemma fetch_no_downgrade: "https_from_then L (snd (fetch_bounded L send ft input m))"
  using fetch_bounded_trace [of L send ft input m] fetch_loop_no_downgrade by (auto simp: https_from_then_def)

lemma fetch_length: "length (snd (fetch_bounded L send ft input m)) \<le> Suc (fl_max_redirects (ft_limits ft))"
  using fetch_bounded_trace [of L send ft input m] fetch_loop_length by auto

end

lemma fetch_bounded_size:
  assumes "fst (fetch_bounded L send ft input m) = Inr r"
  shows "length (fr_body r) \<le> m" "m \<le> fl_max_response_bytes (ft_limits ft)"
  using assms by (auto simp: fetch_bounded_def fetch_loop_size split: if_splits sum.splits)

lemma new_fetcher_ok:
  assumes "new_fetcher pol limits = Inr ft"
  shows "ft = \<lparr>ft_policy = pol, ft_limits = limits\<rparr>" "0 < fl_max_response_bytes limits" "fl_max_redirects limits \<le> 5"
  using assms by (auto simp: new_fetcher_def validate_limits_def DEFAULT_MAX_REDIRECTS_def result_simps split: if_splits)

section \<open>Extraction\<close>

definition extraction_ok :: "extraction \<Rightarrow> bool" where
  "extraction_ok x \<longleftrightarrow>
     xs_total_rendered x = sum_list (map (length \<circ> ec_content) (xs_results x)) \<and> xs_total_rendered x \<le> MAX_TOTAL_RENDERED_BYTES"

lemma extract_one_bounded_url:
  "fst (extract_one_bounded L convert send ft url format m) = Inr content \<Longrightarrow> ec_requested_url content = url"
  by (auto simp: extract_one_bounded_def render_content_def result_simps Let_def split: prod.splits option.splits if_splits)

lemma extract_loop_ok:
  assumes "fst (extract_loop L convert sends ft req k urls x) = Inr y" "extraction_ok x"
  shows "extraction_ok y
    \<and> (\<exists>results failures. xs_results y = xs_results x @ results \<and> xs_failures y = xs_failures x @ failures
         \<and> length results + length failures = length urls \<and> subseq (map ec_requested_url results) urls)"
  using assms
proof (induction urls arbitrary: k x)
  case (Cons url urls)
  obtain r tr where one: "extract_one_bounded L convert (sends k) ft url (er_format req) (er_max_bytes_per_source req) = (r, tr)" by fastforce
  show ?case
  proof (cases r)
    case (Inl e)
    define x' where "x' = x\<lparr>xs_failures := xs_failures x @ [\<lparr>pf_engine = None, pf_kind = error_kind e\<rparr>],
                     xs_first_error := (case xs_first_error x of None \<Rightarrow> Some e | Some e0 \<Rightarrow> Some e0)\<rparr>"
    have "fst (extract_loop L convert sends ft req (Suc k) urls x') = Inr y" "extraction_ok x'"
      using Cons.prems one Inl by (simp_all add: x'_def extraction_ok_def split: prod.splits)
    from Cons.IH [OF this] obtain results failures where *: "extraction_ok y" "xs_results y = xs_results x @ results"
      "xs_failures y = xs_failures x' @ failures" "length results + length failures = length urls" "subseq (map ec_requested_url results) urls"
      by (auto simp: x'_def)
    then show ?thesis by (intro conjI exI [of _ results] exI [of _ "\<lparr>pf_engine = None, pf_kind = error_kind e\<rparr> # failures"]) (auto simp: x'_def intro: list_emb_Cons)
  next
    case (Inr content)
    define x' where "x' = x\<lparr>xs_results := xs_results x @ [content], xs_total_rendered := xs_total_rendered x + length (ec_content content)\<rparr>"
    have "fst (extract_loop L convert sends ft req (Suc k) urls x') = Inr y" "extraction_ok x'"
      using Cons.prems one Inr by (auto simp: x'_def extraction_ok_def Let_def split: prod.splits if_splits)
    from Cons.IH [OF this] obtain results failures where *: "extraction_ok y" "xs_results y = xs_results x' @ results"
      "xs_failures y = xs_failures x @ failures" "length results + length failures = length urls" "subseq (map ec_requested_url results) urls"
      by (auto simp: x'_def)
    moreover have "ec_requested_url content = url" using extract_one_bounded_url [of L convert "sends k"] one Inr by (metis fst_conv)
    ultimately show ?thesis by (intro conjI exI [of _ "content # results"] exI [of _ failures]) (auto simp: x'_def)
  qed
qed simp

lemma extract_loop_step:
  "snd (extract_loop L convert sends ft req k (url # urls) x) = snd (fetch_bounded L (sends k) ft url (er_max_bytes_per_source req))
   \<or> (\<exists>x'. snd (extract_loop L convert sends ft req k (url # urls) x) =
        snd (fetch_bounded L (sends k) ft url (er_max_bytes_per_source req)) @ snd (extract_loop L convert sends ft req (Suc k) urls x'))"
proof -
  obtain r tr where one: "extract_one_bounded L convert (sends k) ft url (er_format req) (er_max_bytes_per_source req) = (r, tr)" by fastforce
  then have tr: "snd (fetch_bounded L (sends k) ft url (er_max_bytes_per_source req)) = tr"
    by (auto simp: extract_one_bounded_def split: prod.splits)
  have app: "snd (case p of (r, tr') \<Rightarrow> (r, tr @ tr')) = tr @ snd p" for p :: "(search_error + extraction) \<times> 'a request_sent list"
    by (cases p) simp
  show ?thesis unfolding tr by (cases r) (auto simp: one Let_def app)
qed

lemma extract_loop_connections:
  assumes "\<And>k. checked_transport (sends k)" "keeps_parts L" "(u, addresses) \<in> set (snd (extract_loop L convert sends ft req k urls x))"
  shows "permitted L (ft_policy ft) u \<and> list_all (reachable_address (up_service_scope (ft_policy ft))) addresses"
  using assms(3)
proof (induction urls arbitrary: k x)
  case (Cons url urls)
  then show ?case
    using extract_loop_step [of L convert sends ft req k url urls x] checked_transport.fetch_connections [OF assms(1,2)] by fastforce
qed simp

lemma extract_loop_length:
  assumes "\<And>k. checked_transport (sends k)"
  shows "length (snd (extract_loop L convert sends ft req k urls x)) \<le> length urls * Suc (fl_max_redirects (ft_limits ft))"
proof (induction urls arbitrary: k x)
  case (Cons url urls)
  have "length (snd (fetch_bounded L (sends k) ft url (er_max_bytes_per_source req))) \<le> Suc (fl_max_redirects (ft_limits ft))"
    by (rule checked_transport.fetch_length [OF assms])
  then have "length (snd (fetch_bounded L (sends k) ft url (er_max_bytes_per_source req)))
      + length (snd (extract_loop L convert sends ft req (Suc k) urls x')) \<le> length (url # urls) * Suc (fl_max_redirects (ft_limits ft))" for x'
    using Cons.IH [of "Suc k" x'] by simp
  then show ?case
    using extract_loop_step [of L convert sends ft req k url urls x] by (metis add_leE length_append)
qed simp

lemma extract_all_trace:
  "snd (extract_all L convert sends ft req) = []
   \<or> er_urls req \<noteq> [] \<and> length (er_urls req) \<le> 20
     \<and> snd (extract_all L convert sends ft req) =
         snd (extract_loop L convert sends ft req 0 (er_urls req) \<lparr>xs_results = [], xs_failures = [], xs_first_error = None, xs_total_rendered = 0\<rparr>)"
  by (auto simp: extract_all_def validate_request_def MAX_EXTRACT_URLS_def split: prod.split sum.split)

section \<open>An example\<close>

text \<open>URLs that are a scheme and a host, and a network that redirects once and then answers with a text.\<close>

definition example_lib :: "(str \<times> str) url_lib" where
  "example_lib = \<lparr>
     ul_parse = (\<lambda>s. if starts_with s ''https://'' then Inr (''https'', drop 8 s) else if starts_with s ''http://'' then Inr (''http'', drop 7 s) else Inl ''relative URL without a base''),
     ul_join = (\<lambda>_ s. if starts_with s ''https://'' then Inr (''https'', drop 8 s) else Inl ''empty host''),
     ul_as_str = (\<lambda>(scheme, host). scheme @ ''://'' @ host),
     ul_scheme = fst, ul_host = (\<lambda>u. Some (Domain (snd u))), ul_host_str = (\<lambda>u. Some (snd u)),
     ul_port_or_known_default = (\<lambda>u. Some (if fst u = ''https'' then 443 else 80)),
     ul_username = (\<lambda>_. []), ul_password = (\<lambda>_. None), ul_origin = (\<lambda>(scheme, host). scheme @ ''://'' @ host), ul_without_fragment = (\<lambda>u. u)\<rparr>"

definition example_net :: "(str \<times> str) network" where
  "example_net = \<lparr>
     nw_resolve = (\<lambda>_ _ _. Inr [V4 (Ipv4 93 184 216 34)]),
     nw_send = (\<lambda>n _ _. Inr (if n = 0 then \<lparr>rs_status = 302, rs_headers = [(''Location'', ''https://yz'')], rs_body = [], rs_fails = False\<rparr>
                            else \<lparr>rs_status = 200, rs_headers = [(''Content-Type'', ''text/plain'')], rs_body = ''hi'', rs_fails = False\<rparr>))\<rparr>"

definition example_limits :: fetch_limits where
  "example_limits = \<lparr>fl_max_response_bytes = 100, fl_max_redirects = 5\<rparr>"

definition example_fetcher :: fetcher where
  "example_fetcher = \<lparr>ft_policy = untrusted_page, ft_limits = example_limits\<rparr>"

definition example_request :: extract_request where
  "example_request = \<lparr>er_urls = [''http://xy'', ''ftp://zz''], er_format = FormatMarkdown, er_max_bytes_per_source = 50\<rparr>"

lemma example_keeps_parts: "keeps_parts example_lib"
  by (simp add: keeps_parts_def example_lib_def)

lemma example_new_fetcher: "new_fetcher untrusted_page example_limits = Inr example_fetcher"
  by code_simp

lemma parse_ip_letter:
  assumes "16 \<le> digit_value c" "c \<noteq> CHR '':''"
  shows "parse_ip (c # s) = None"
proof -
  have number: "read_number radix k z bound (c # s) = None" if "radix \<le> 16" for radix k z bound
    using assms(1) that by (simp add: read_number_def)
  then have v4: "read_ipv4_addr (c # s) = None" by (simp add: read_ipv4_addr_def read_octet_def)
  then have "read_groups 0 (Suc n) (c # s) = ([], False, c # s)" for n
    using number by (simp add: read_separator_def)
  from this [of 7] have "read_ipv6_addr (c # s) = None" using assms(2) by (simp add: read_ipv6_addr_def read_given_char_def)
  with v4 show ?thesis by (simp add: parse_ip_def)
qed

lemma example_hosts: "parse_ip ''xy'' = None" "parse_ip ''yz'' = None"
  by (rule parse_ip_letter; simp add: digit_value_def)+

text \<open>The text that the library gives for an IPv6 literal is in brackets, so it is not parsed as an address and goes to the resolver.\<close>

lemma bracketed_host_resolved: "parse_ip (CHR ''['' # s) = None"
  by (rule parse_ip_letter) (simp_all add: digit_value_def)

lemma example_public: "\<not> is_special_use (V4 (Ipv4 93 184 216 34))"
  by (simp add: is_special_v4_def)

lemmas example_eval = example_lib_def example_net_def example_limits_def example_fetcher_def untrusted_page_def new_policy_def
  validate_url_def parse_http_url_def literal_address_def starts_with_def eq_ignore_ascii_case_def Let_def

lemma example_validate:
  "validate_url example_lib untrusted_page ''http://xy'' = Inr \<lparr>vu_url = (''http'', ''xy''), vu_trust_class = UntrustedPage, vu_service_scope = None\<rparr>"
  "validate_url example_lib untrusted_page ''https://yz'' = Inr \<lparr>vu_url = (''https'', ''yz''), vu_trust_class = UntrustedPage, vu_service_scope = None\<rparr>"
  "validate_url example_lib untrusted_page ''ftp://zz'' = Inl (Validation ''url'' ''relative URL without a base'')"
  by (simp_all add: example_eval)

lemma example_send:
  assumes "host = ''xy'' \<or> host = ''yz''"
  shows "http_send example_lib example_net n \<lparr>vu_url = (scheme, host), vu_trust_class = UntrustedPage, vu_service_scope = None\<rparr> =
     (Inr (if n = 0 then \<lparr>rs_status = 302, rs_headers = [(''Location'', ''https://yz'')], rs_body = [], rs_fails = False\<rparr>
           else \<lparr>rs_status = 200, rs_headers = [(''Content-Type'', ''text/plain'')], rs_body = ''hi'', rs_fails = False\<rparr>),
      [((scheme, host), [V4 (Ipv4 93 184 216 34)])])"
  using assms example_public
  by (auto simp: http_send_def resolve_and_validate_def connect_addresses_def collect_headers_def is_header_text_def
      validate_resolved_ip_def example_hosts example_lib_def example_net_def)

lemma example_redirect:
  "redirect_target example_lib untrusted_page \<lparr>vu_url = (''http'', ''xy''), vu_trust_class = UntrustedPage, vu_service_scope = None\<rparr>
     \<lparr>rs_status = 302, rs_headers = [(''Location'', ''https://yz'')], rs_body = [], rs_fails = False\<rparr> =
   Inr \<lparr>vu_url = (''https'', ''yz''), vu_trust_class = UntrustedPage, vu_service_scope = None\<rparr>"
proof -
  have "header [(''Location'', ''https://yz'')] ''location'' = Some ''https://yz''" by code_simp
  moreover have "ul_join example_lib (''http'', ''xy'') ''https://yz'' = Inr (''https'', ''yz'')" "ul_as_str example_lib (''https'', ''yz'') = ''https://yz''"
    by (simp_all add: example_lib_def starts_with_def)
  ultimately show ?thesis by (simp add: redirect_target_def example_validate) (simp add: example_lib_def)
qed

lemma example_finish:
  "finish_fetch example_lib 50 \<lparr>vu_url = (''https'', ''yz''), vu_trust_class = UntrustedPage, vu_service_scope = None\<rparr>
     \<lparr>rs_status = 200, rs_headers = [(''Content-Type'', ''text/plain'')], rs_body = ''hi'', rs_fails = False\<rparr> =
   Inr \<lparr>fr_final_url = ''https://yz'', fr_content_type = Some ''text/plain'', fr_body = ''hi''\<rparr>"
proof -
  have "header [(''Content-Type'', ''text/plain'')] ''content-length'' = None" "header [(''Content-Type'', ''text/plain'')] ''content-type'' = Some ''text/plain''"
    by code_simp+
  then show ?thesis by (simp add: finish_fetch_def read_bounded_def example_lib_def)
qed

lemma example_fetch:
  "fetch_bounded example_lib (http_send example_lib example_net) example_fetcher ''http://xy'' 50 =
     (Inr \<lparr>fr_final_url = ''https://yz'', fr_content_type = Some ''text/plain'', fr_body = ''hi''\<rparr>,
      [((''http'', ''xy''), [V4 (Ipv4 93 184 216 34)]), ((''https'', ''yz''), [V4 (Ipv4 93 184 216 34)])])"
  "fetch_bounded example_lib (http_send example_lib example_net) example_fetcher ''ftp://zz'' 50 =
     (Inl (Validation ''url'' ''relative URL without a base''), [])"
  by (simp_all add: fetch_bounded_def example_validate example_fetcher_def example_limits_def fetch_loop.simps example_send
      is_redirect_def example_redirect example_finish)

lemma example_render:
  "render_content Inr ''http://xy'' FormatMarkdown \<lparr>fr_final_url = ''https://yz'', fr_content_type = Some ''text/plain'', fr_body = ''hi''\<rparr> =
     Inr \<lparr>ec_requested_url = ''http://xy'', ec_final_url = ''https://yz'', ec_content_type = ''text/plain'', ec_content = ''hi'',
          ec_trust = ExternalUntrusted\<rparr>"
  by code_simp

lemma example_extract:
  "fst (extract_all example_lib Inr (\<lambda>k. http_send example_lib example_net) example_fetcher example_request) =
     Inr \<lparr>ex_results = [\<lparr>ec_requested_url = ''http://xy'', ec_final_url = ''https://yz'', ec_content_type = ''text/plain'', ec_content = ''hi'',
            ec_trust = ExternalUntrusted\<rparr>], ex_failures = [\<lparr>pf_engine = None, pf_kind = ''validation''\<rparr>]\<rparr>"
  by (simp add: extract_all_def validate_request_def example_request_def MAX_EXTRACT_URLS_def MAX_SOURCE_BYTES_def MAX_TOTAL_RENDERED_BYTES_def
      extract_one_bounded_def example_fetch example_render)

section \<open>The guarantees\<close>



text \<open>A fetcher that could be built makes at most one request more than its limit of redirects, which is at most
  five, and a body it returns is no longer than the limit of the call, which is at most the limit of the fetcher.\<close>

lemma fetch_within_limits:
  assumes "new_fetcher pol limits = Inr ft"
  shows "length (snd (fetch_bounded L (http_send L net) ft input m)) \<le> fl_max_redirects limits + 1
    \<and> length (snd (fetch_bounded L (http_send L net) ft input m)) \<le> 6
    \<and> (\<forall>r. fst (fetch_bounded L (http_send L net) ft input m) = Inr r \<longrightarrow>
          length (fr_body r) \<le> m \<and> m \<le> fl_max_response_bytes limits)"
  using checked_transport.fetch_length [OF ht.checked_transport_axioms, of L L net ft input m] fetch_bounded_size [of L "http_send L net" ft input m] new_fetcher_ok [OF assms] by auto

lemma fetch_within_limits_example:
  "new_fetcher untrusted_page example_limits = Inr example_fetcher
   \<and> length (snd (fetch_bounded example_lib (http_send example_lib example_net) example_fetcher ''http://xy'' 50)) \<le> 6
   \<and> fst (fetch_bounded example_lib (http_send example_lib example_net) example_fetcher ''http://xy'' 50) =
       Inr \<lparr>fr_final_url = ''https://yz'', fr_content_type = Some ''text/plain'', fr_body = ''hi''\<rparr>"
  using fetch_within_limits [OF example_new_fetcher, of example_lib example_net "''http://xy''" 50] example_new_fetcher
  by (simp add: example_fetch)



end
