(* ===== verification/Spec2Isabelle.thy ===== *)
theory Spec2Isabelle
  imports Run_Service Text_Guarantees Cancel_Wait Shared_Queue Tool_Admission Permission_Session History
    Session_Checkpoints Writer_Guarantees Git_Conflicts Fetch_Guarantees
begin

text \<open>
  Verification of n00n, a coding agent for the terminal, from the Rust sources under \<open>src/crates\<close>.

  \<^bold>\<open>The program.\<close> The user types into a buffer of the interface (\<open>n00n-ui\<close>), submits to a queue
  that the interface and the agent share, and the agent (\<open>n00n-agent\<close>) runs a conversation with a
  model provider: it extends the history, calls tools after asking the permission manager, and stops
  when its cancellation token fires. Long-running work (background agents, teams, workflows) is a
  durable run in an SQLite store (\<open>n00n-runs\<close>), which several processes open at once; a run that
  ends leaves a notice in an outbox for the session that started it. Sessions, with a transcript of
  everything the user has seen, are kept by \<open>n00n-storage\<close>.

  \<^bold>\<open>Theories and sources.\<close>
  \<^item> \<open>N00n_Prelude\<close>: results and the \<open>?\<close> operator, words and their checked operations, byte strings,
    ordered maps, stable sorting, and the locale \<open>invariant_system\<close>, which every component with a step
    relation interprets on its own operations.
  \<^item> \<open>Run_Domain\<close> (\<open>domain.rs\<close>), \<open>Run_Schema\<close> (\<open>migrations.rs\<close>: tables, constraints, migration),
    \<open>Run_Store\<close> and \<open>Run_Maintenance\<close> (\<open>store.rs\<close>: runs, events, hosts, reconciliation, import,
    retention, outbox), \<open>Run_Service\<close> (\<open>service.rs\<close>, \<open>adapter.rs\<close>). A call is a function from a
    store handle and an environment (clock, fresh identifiers, faults of SQLite) to a result and a
    store. \<open>Run_Invariant\<close>, \<open>Run_Calls\<close> and \<open>Run_Evolution\<close> hold the invariant of the database, the
    step relation of the calls and what one step does to a run; \<open>Run_Examples\<close> a concrete store;
    \<open>Run_Guarantees\<close> the properties.
  \<^item> \<open>Text_Buffer\<close> (\<open>text_buffer.rs\<close>): lines, cursor, selection, undo and kill ring; a panic is
    \<open>None\<close>. \<open>Text_Zipper\<close>, \<open>Text_Safety\<close>, \<open>Text_Session\<close> and \<open>Text_Gap\<close> relate it to a text with a
    gap and show which operations keep the cursor on the text; \<open>Text_Guarantees\<close> holds the properties.
  \<^item> \<open>Cancel_Token\<close> and \<open>Cancel_Wait\<close> (\<open>cancel.rs\<close>): tokens, triggers, the gate before dispatch, the
    map of running tasks, and the asynchronous wait as a step relation.
  \<^item> \<open>Shared_Queue\<close> (\<open>shared_queue.rs\<close>): the queue between interface and agent.
  \<^item> \<open>Tool_Admission\<close> (\<open>tools/admission.rs\<close>): the classes of tools and the permits a call waits for. A
    call is a state machine whose states are the await points of \<open>acquire\<close> and the drop of its guard;
    a system of calls takes one step of one call at a time.
  \<^item> \<open>Tool_Key\<close> (\<open>n00n-config/src/lib.rs\<close>), \<open>Fs_Paths\<close> (\<open>paths.rs\<close>), \<open>Permissions\<close>
    (\<open>permissions.rs\<close>): names of tools, paths and symbolic links, rules, decisions and prompts;
    \<open>Permission_Guarantees\<close> and \<open>Permission_Session\<close> hold the properties of one decision and of a
    manager over its life. \<open>Str_Words\<close> is the splitting of UTF-8 text at white space.
  \<^item> \<open>Transcript\<close> (\<open>sessions.rs\<close>) and \<open>History\<close> (\<open>history.rs\<close>, messages of \<open>types.rs\<close>): entries and
    their nesting, the conversation, its repair after a crash or a cancellation, and its mirrors.
  \<^item> \<open>Session_Log\<close> (\<open>sessions.rs\<close>: records, loading and its repairs, writing with limits and tombstones)
    and \<open>Session_Store\<close> (\<open>SessionLog\<close>: create, open, append and compact with the cursor of what is
    saved). A file is the list of its lines, and an operation returns the file it leaves, also when it
    fails. \<open>Session_Replay\<close> relates what the writers write to what loading makes of it;
    \<open>Session_Guarantees\<close> holds the properties. \<open>Session_Retention\<close> (\<open>sessions.rs\<close>) is the budget of what
    a live session keeps in memory: eviction, loading in two passes, reloading, pruning of orphans.
  \<^item> \<open>Json\<close>: JSON values and ordered maps. \<open>Session_State\<close> and \<open>Session_Checkpoints\<close> (\<open>sessions.rs\<close>): the
    state that plugins store with a session, its snapshots at compaction boundaries, and the ledger of
    run notices a session has consumed.
  \<^item> \<open>Storage_Writer\<close> (\<open>storage_writer.rs\<close>): the writer thread that saves sessions behind the interface.
    Callers and the writer are lists of what they still have to do, and a step is one access to the
    state they share. \<open>Writer_Flush\<close> says what one flush does to one session, \<open>Writer_Order\<close> what staging
    and deleting keep, \<open>Writer_Commands\<close> abstracts the system to the bag of commands under way,
    \<open>Writer_Invariant\<close> holds the invariant of the bag and \<open>Writer_Guarantees\<close> the properties.
  \<^item> \<open>Git_Conflicts\<close> (\<open>n00n-git/src/conflicts.rs\<close>): the scan of a worktree for conflicts and marked
    comments, from the bytes of a file to its findings; \<open>Utf8_Lossy\<close> is the decoding it reads them with.
  \<^item> \<open>Search_Fetch\<close> (\<open>n00n-search\<close>: \<open>url_policy.rs\<close>, \<open>transport.rs\<close>, \<open>extract.rs\<close>, \<open>types.rs\<close>): which
    URLs and addresses may be fetched, the transport that pins what it has checked, redirects, limits and
    the extraction of several pages. A call returns the connections it made beside its result.
    \<open>Special_Addresses\<close> is the table of address blocks; \<open>Fetch_Guarantees\<close> states the contract of a
    transport as the locale \<open>checked_transport\<close>, interpreted on the HTTP transport, and the properties.

  \<^bold>\<open>What the lemmas show.\<close> For the run store: every reachable database is consistent, runs only move
  along the lifecycle table and one revision at a time, ended runs are frozen, requests are idempotent,
  stale writers and former owners are refused, failed calls roll back, retention never breaks a foreign
  key, notices are settled, projects are separate, waiting ends. For the buffer: no sequence of
  operations panics, editing refines a text with a gap, undo and yank are inverse to what they undo.
  For cancellation: it flows downwards, is never lost, and a waiter always returns. For the queue:
  order is kept, nothing is lost, and the test for a drained queue is sound. For permissions: the loop
  over the rules is the declarative reading, a denial of the configuration holds for ever, nothing runs
  without a rule, a default or the user, the project directory is a physical one, grants are
  remembered. For the history: a restored conversation is accepted, compaction loses nothing and its
  loop ends, the transcript follows the conversation. For the session log: after any sequence of whole
  writes and appends a session reopens as it was last saved, damage to the structure of a log costs no
  message, and a switch of the model is not saved by an append. For admission: no lane and no agent ever
  runs more calls than its limit, everything is given back, and no set of calls is stuck. For retention:
  a rewrite keeps on disk what was evicted from memory, the budget is a ceiling, and loading under a
  budget is loading and then evicting. For plugin state: what is set is read back and nothing else
  changes, every snapshot that can be reached is within its bounds and survives its own JSON, a
  compaction boundary finds its checkpoint again, and a consumed notice is remembered until it is
  acknowledged. For the storage writer: a deletion that was reported stands however late older
  snapshots arrive, a shutdown that reports nothing unpersisted has lost nothing, Ok from persisting
  means durable, and shutdown ends. For conflicts: every conflict that git writes into a file is found
  with its labels and sides. For fetching: whatever the network answers, no page leads the program to a
  special-use address, off the origin of a configured service or from https back to http; the tests on
  an address are a table of blocks; requests and bytes stay within their limits, and an extraction
  accounts for every URL.

  \<^bold>\<open>Parameters.\<close> SQLite is its documented effect on tables, with an injected fault where the code
  handles one. JSON texts, codecs of stored values, the clock, generated identifiers, adapters, the
  inbox of a parent, the URL library, the network and \<open>canonicalize\<close> of the file system are parameters; what a property needs of
  them is a named hypothesis (\<open>realpath_physical\<close>, \<open>realpath_stepwise\<close>, \<open>codec_faithful\<close>,
  \<open>parts_faithful\<close> and \<open>tags_decode\<close> for the lines of a session log, \<open>small_envelopes\<close> for the length of a
  JSON text, \<open>keeps_parts\<close> for the URL library, and those of the other codecs), and a witness instantiates it. Loops are structural or have a termination proof; no fuel is used. \<open>u64\<close>
  and \<open>u32\<close> are words, \<open>usize\<close> is a natural number (lengths of data in memory).

  \<^bold>\<open>Findings.\<close> A parent that acknowledges early aborts a dispatch; a collapsed selection makes the
  buffer panic; deleting with a stale column moves the cursor; the exception for the plan file can be
  led elsewhere by a symbolic link; open tool calls in the middle of a restored conversation stay open;
  flattening does not always lower the depth; a switched model is lost when the session is appended to;
  a call that is dropped while it waits for admission stays a user of its agent's slot; pruning after a
  load under a budget forgets the outputs of an evicted subagent; a checkpoint that the transcript does
  not refer to can be the one that is pruned; an underlined heading hides a conflict; a file of exactly
  the size limit is reported as truncated; an IPv6 literal is looked up as a name; the error of one URL is
  a partial failure of an extraction where its comment says it is returned.

  \<^bold>\<open>Not modelled.\<close> Rendering, themes, key bindings and the event loop of the interface; wire formats
  and authentication of providers; the Lua host and its plugins; the MCP client; the rest of git; the search index, code
  graph, redaction and markdown; daemon and editor protocol; configuration files; the agent loop
  itself, which is input and output around the modelled parts. Of the session log: the zstd frames, the
  lock files, the conversion of old session files and the scans for the list of sessions.
  Most of these are input and output, bindings of libraries or tables of data; the agent loop, the registry
  of the daemon and the merging of configuration have logic of their own that is left out.
\<close>

end
